(* ===== verification/Gw_Prelude.thy ===== *)
theory Gw_Prelude
  imports Complex_Main "HOL-Library.AList" "HOL-Library.List_Lexorder" "HOL-Library.Char_ord"
begin

text \<open>
  Shared vocabulary of the development.

  Python's values are modelled as follows. A \<open>str\<close> is a \<open>string\<close> (the strings the modelled
  code compares and normalises are ASCII identifiers and header values, so a character is one
  code point). A float is a rational: rounding is idealised away, and \<open>nan\<close> and the infinities
  are not values of the model. Python's unbounded integers are \<open>int\<close>. A \<open>dict\<close> is an
  association list in insertion order: \<open>AList.update\<close> keeps the position of a key that is
  present and appends a new one, as \<open>d[k] = v\<close> does, and \<open>AList.delete\<close> is \<open>d.pop(k, None)\<close>.
  An exception is the left side of a sum.
\<close>

section \<open>Collections of facts\<close>

named_theorems wf_intros "introduction rules of the well-formedness invariants"
named_theorems step_simps "unfolding rules of the step functions"

section \<open>Times and dictionaries\<close>

type_synonym py_time = rat
type_synonym ('k, 'v) py_dict = "('k \<times> 'v) list"

abbreviation dict_get :: "('k, 'v) py_dict \<Rightarrow> 'k \<Rightarrow> 'v option" where
  "dict_get d k \<equiv> map_of d k"

abbreviation dict_set :: "'k \<Rightarrow> 'v \<Rightarrow> ('k, 'v) py_dict \<Rightarrow> ('k, 'v) py_dict" where
  "dict_set k v d \<equiv> AList.update k v d"

abbreviation dict_pop :: "'k \<Rightarrow> ('k, 'v) py_dict \<Rightarrow> ('k, 'v) py_dict" where
  "dict_pop k d \<equiv> AList.delete k d"

definition dict_ok :: "('k, 'v) py_dict \<Rightarrow> bool" where
  "dict_ok d \<longleftrightarrow> distinct (map fst d)"

lemma dict_ok_Nil [simp, wf_intros]: "dict_ok []"
  by (simp add: dict_ok_def)

lemma dict_ok_set [simp, wf_intros]: "dict_ok d \<Longrightarrow> dict_ok (dict_set k v d)"
  by (simp add: dict_ok_def distinct_update)

lemma dict_ok_pop [simp, wf_intros]: "dict_ok d \<Longrightarrow> dict_ok (dict_pop k d)"
  by (simp add: dict_ok_def distinct_delete)

lemma dict_ok_filter [simp, wf_intros]: "dict_ok d \<Longrightarrow> dict_ok (filter P d)"
  by (simp add: dict_ok_def distinct_map_filter)

lemma dict_get_set: "dict_get (dict_set k v d) k' = (if k' = k then Some v else dict_get d k')"
  by (simp add: update_conv')

lemma dict_get_pop: "dict_get (dict_pop k d) k' = (if k' = k then None else dict_get d k')"
  by (simp add: delete_conv')

lemma dict_set_fresh: "k \<notin> fst ` set d \<Longrightarrow> dict_set k v d = d @ [(k, v)]"
  by (induction d) auto

lemma dict_get_iff: "dict_ok d \<Longrightarrow> dict_get d k = Some v \<longleftrightarrow> (k, v) \<in> set d"
  by (simp add: dict_ok_def)

lemma dict_get_filter:
  "dict_ok d \<Longrightarrow> dict_get (filter (\<lambda>(k, v). P k v) d) k =
     (case dict_get d k of None \<Rightarrow> None | Some v \<Rightarrow> if P k v then Some v else None)"
  by (induction d) (force simp: dict_ok_def split: option.splits dest: map_of_SomeD)+

section \<open>Results: a value or an exception\<close>

fun result_bind :: "'e + 'a \<Rightarrow> ('a \<Rightarrow> 'e + 'b) \<Rightarrow> 'e + 'b" where
  "result_bind (Inl e) f = Inl e"
| "result_bind (Inr x) f = f x"

definition guard_else :: "bool \<Rightarrow> 'e \<Rightarrow> 'e + 'a \<Rightarrow> 'e + 'a" where
  "guard_else ok e r = (if ok then r else Inl e)"

text \<open>A list comprehension whose body may raise.\<close>

fun map_results :: "('a \<Rightarrow> 'e + 'b) \<Rightarrow> 'a list \<Rightarrow> 'e + 'b list" where
  "map_results f [] = Inr []"
| "map_results f (x # xs) = result_bind (f x) (\<lambda>y. result_bind (map_results f xs) (\<lambda>ys. Inr (y # ys)))"

lemma result_bind_Inr: "result_bind r f = Inr y \<longleftrightarrow> (\<exists>x. r = Inr x \<and> f x = Inr y)"
  by (cases r) auto

lemma result_bind_Inl: "result_bind r f = Inl e \<longleftrightarrow> r = Inl e \<or> (\<exists>x. r = Inr x \<and> f x = Inl e)"
  by (cases r) auto

lemma guard_else_Inr [simp]: "guard_else ok e r = Inr x \<longleftrightarrow> ok \<and> r = Inr x"
  by (simp add: guard_else_def)

lemma guard_else_Inl: "guard_else ok e r = Inl e' \<longleftrightarrow> (if ok then r = Inl e' else e = e')"
  by (simp add: guard_else_def)

lemma map_results_all: "map_results f xs = Inr ys \<Longrightarrow> x \<in> set xs \<Longrightarrow> \<exists>y. f x = Inr y"
  by (induction xs arbitrary: ys) (auto simp: result_bind_Inr)

lemma map_results_Inr: "map_results f xs = Inr ys \<longleftrightarrow> list_all2 (\<lambda>x y. f x = Inr y) xs ys"
  by (induction xs arbitrary: ys) (auto simp: result_bind_Inr list_all2_Cons1)

lemma map_results_map: "(\<And>x. x \<in> set xs \<Longrightarrow> f (g x) = Inr (h x)) \<Longrightarrow> map_results f (map g xs) = Inr (map h xs)"
  by (induction xs) auto

lemma not_isl_Inr: "\<not> isl r \<Longrightarrow> r = Inr (projr r)"
  by (cases r) simp_all

section \<open>Python strings\<close>

definition is_space :: "char \<Rightarrow> bool" where
  "is_space c = (let n = of_char c :: nat in (9 \<le> n \<and> n \<le> 13) \<or> (28 \<le> n \<and> n \<le> 32))"

definition lower_char :: "char \<Rightarrow> char" where
  "lower_char c = (let n = of_char c :: nat in if 65 \<le> n \<and> n \<le> 90 then char_of (n + 32) else c)"

definition upper_char :: "char \<Rightarrow> char" where
  "upper_char c = (let n = of_char c :: nat in if 97 \<le> n \<and> n \<le> 122 then char_of (n - 32) else c)"

definition py_lower :: "string \<Rightarrow> string" where
  "py_lower s = map lower_char s"

definition py_upper :: "string \<Rightarrow> string" where
  "py_upper s = map upper_char s"

definition py_strip :: "string \<Rightarrow> string" where
  "py_strip s = rev (dropWhile is_space (rev (dropWhile is_space s)))"

definition py_replace_char :: "char \<Rightarrow> char \<Rightarrow> string \<Rightarrow> string" where
  "py_replace_char a b s = map (\<lambda>c. if c = a then b else c) s"

definition starts_with :: "string \<Rightarrow> string \<Rightarrow> bool" where
  "starts_with s p \<longleftrightarrow> take (length p) s = p"

definition ends_with :: "string \<Rightarrow> string \<Rightarrow> bool" where
  "ends_with s p \<longleftrightarrow> starts_with (rev s) (rev p)"

fun contains_sub :: "string \<Rightarrow> string \<Rightarrow> bool" where
  "contains_sub [] p = (p = [])"
| "contains_sub (c # s) p = (starts_with (c # s) p \<or> contains_sub s p)"

text \<open>\<open>s.split(sep)\<close> for a one-character separator: never the empty list.\<close>

fun split_on :: "char \<Rightarrow> string \<Rightarrow> string list" where
  "split_on sep [] = [[]]"
| "split_on sep (c # s) =
     (if c = sep then [] # split_on sep s
      else (case split_on sep s of [] \<Rightarrow> [[c]] | p # ps \<Rightarrow> (c # p) # ps))"

fun join_with :: "string \<Rightarrow> string list \<Rightarrow> string" where
  "join_with sep [] = []"
| "join_with sep [s] = s"
| "join_with sep (s # t # ss) = s @ sep @ join_with sep (t # ss)"

text \<open>\<open>x or y\<close> on strings: the first non-empty one.\<close>

definition or_str :: "string \<Rightarrow> string \<Rightarrow> string" where
  "or_str s t = (if s = [] then t else s)"

definition opt_str :: "string option \<Rightarrow> string" where
  "opt_str o' = (case o' of None \<Rightarrow> [] | Some s \<Rightarrow> s)"

lemma split_on_nonempty [simp]: "split_on sep s \<noteq> []"
  by (induction s) (auto split: list.splits)

lemma join_split [simp]: "join_with [sep] (split_on sep s) = s"
proof (induction s)
  case (Cons c s)
  then show ?case
    by (cases "split_on sep s"; cases "tl (split_on sep s)") auto
qed simp

lemma join_with_append:
  "xs \<noteq> [] \<Longrightarrow> ys \<noteq> [] \<Longrightarrow> join_with sep (xs @ ys) = join_with sep xs @ sep @ join_with sep ys"
proof (induction xs)
  case (Cons x xs)
  then show ?case by (cases xs; cases ys) auto
qed simp

lemma split_on_append: "split_on c (q @ c # r) = split_on c q @ split_on c r"
  by (induction q) (auto split: list.splits)

lemma starts_with_self [simp]: "starts_with (p @ s) p"
  by (simp add: starts_with_def)

lemma starts_with_iff: "starts_with s p \<longleftrightarrow> (\<exists>t. s = p @ t)"
  by (metis append_take_drop_id starts_with_def starts_with_self)

lemma starts_with_Nil [simp]: "starts_with s []"
  by (simp add: starts_with_def)

lemma or_str_nonempty [simp]: "t \<noteq> [] \<Longrightarrow> or_str s t \<noteq> []"
  by (simp add: or_str_def)

lemma strip_ends: "dropWhile is_space (py_strip s) = py_strip s"
proof -
  let ?t = "dropWhile is_space s"
  have "dropWhile P (rev (dropWhile P (rev t))) = rev (dropWhile P (rev t))" if "dropWhile P t = t"
    for P and t :: string
  proof (cases "rev (dropWhile P (rev t))")
    case (Cons c cs)
    obtain pre where "rev t = pre @ dropWhile P (rev t)" by (metis takeWhile_dropWhile_id)
    then have "t = rev (dropWhile P (rev t)) @ rev pre" by (metis rev_append rev_rev_ident)
    then have "t = c # cs @ rev pre" using Cons by simp
    then have "\<not> P c" using that by (metis dropWhile_eq_Cons_conv list.sel(1))
    then show ?thesis using Cons by simp
  next
    case Nil
    then show ?thesis by (simp only: dropWhile.simps)
  qed
  from this[of is_space ?t] show ?thesis by (simp add: py_strip_def)
qed

lemma strip_strip [simp]: "py_strip (py_strip s) = py_strip s"
  using strip_ends[of s] by (simp add: py_strip_def)

section \<open>Numbers\<close>

text \<open>\<open>int(x)\<close> on a float truncates towards zero; \<open>math.ceil\<close> is \<open>\<lceil>x\<rceil>\<close>.\<close>

definition py_trunc :: "rat \<Rightarrow> int" where
  "py_trunc x = (if 0 \<le> x then \<lfloor>x\<rfloor> else \<lceil>x\<rceil>)"

lemma py_trunc_of_int [simp]: "py_trunc (of_int n) = n"
  by (simp add: py_trunc_def)

lemma py_trunc_nonneg: "0 \<le> x \<Longrightarrow> 0 \<le> py_trunc x"
  by (simp add: py_trunc_def)

lemma py_trunc_le: "0 \<le> x \<Longrightarrow> of_int (py_trunc x) \<le> x"
  by (simp add: py_trunc_def)

section \<open>Lists\<close>

text \<open>First occurrences, in order: \<open>if x not in out: out.append(x)\<close>.\<close>

fun dedupe_onto :: "'a list \<Rightarrow> 'a list \<Rightarrow> 'a list" where
  "dedupe_onto out [] = out"
| "dedupe_onto out (x # xs) = dedupe_onto (if x \<in> set out then out else out @ [x]) xs"

lemma set_dedupe_onto [simp]: "set (dedupe_onto out xs) = set out \<union> set xs"
  by (induction xs arbitrary: out) auto

lemma distinct_dedupe_onto [simp]: "distinct out \<Longrightarrow> distinct (dedupe_onto out xs)"
  by (induction xs arbitrary: out) auto

lemma dropWhile_sorted_filter:
  fixes c :: "'a :: linorder"
  shows "sorted xs \<Longrightarrow> dropWhile (\<lambda>x. x < c) xs = filter (\<lambda>x. c \<le> x) xs"
  by (induction xs) (auto simp: not_less intro!: filter_True[symmetric])

lemma length_filter_mono:
  "(\<And>x. x \<in> set xs \<Longrightarrow> P x \<Longrightarrow> Q x) \<Longrightarrow> length (filter P xs) \<le> length (filter Q xs)"
  by (induction xs) auto

lemma length_filter_update:
  "i < length xs \<Longrightarrow> length (filter P (xs[i := y])) + (if P (xs ! i) then 1 else 0)
     = length (filter P xs) + (if P y then 1 else 0)"
proof (induction xs arbitrary: i)
  case (Cons x xs)
  then show ?case by (cases i) auto
qed simp

section \<open>Work that drains\<close>

text \<open>A step that takes work off a backlog whenever there is some: repeating it empties the backlog.\<close>

locale draining =
  fixes inv :: "'s \<Rightarrow> bool"
    and backlog :: "'s \<Rightarrow> nat"
    and step :: "'s \<Rightarrow> 's"
  assumes step_inv: "inv s \<Longrightarrow> inv (step s)"
    and step_less: "inv s \<Longrightarrow> 0 < backlog s \<Longrightarrow> backlog (step s) < backlog s"
    and step_empty: "inv s \<Longrightarrow> backlog s = 0 \<Longrightarrow> backlog (step s) = 0"
begin

lemma inv_steps: "inv s \<Longrightarrow> inv ((step ^^ n) s)"
  by (induction n) (simp_all add: step_inv)

lemma stays_empty: "inv s \<Longrightarrow> backlog s = 0 \<Longrightarrow> backlog ((step ^^ n) s) = 0"
  by (induction n) (simp_all add: step_empty inv_steps)

lemma backlog_after: "inv s \<Longrightarrow> backlog ((step ^^ n) s) \<le> backlog s - n"
proof (induction n)
  case (Suc n)
  then show ?case
    using step_less[OF inv_steps[of s n]] step_empty[OF inv_steps[of s n]]
    by (cases "backlog ((step ^^ n) s) = 0") auto
qed simp

lemma drains: "inv s \<Longrightarrow> backlog s \<le> n \<Longrightarrow> backlog ((step ^^ n) s) = 0"
  using backlog_after[of s n] by simp

end

end
