(* ===== verification/Py_Value.thy ===== *)
theory Py_Value
  imports Gw_Prelude
begin

text \<open>
  Dynamically typed values: what \<open>json.loads\<close>, a service's metadata or a tool result holds where
  the source says \<open>Any\<close>, and the conversions \<open>bool\<close>, \<open>int\<close> and \<open>float\<close> with the exceptions they
  raise. A dictionary's keys are strings, in insertion order.
\<close>

datatype pyval =
    PNone
  | PBool bool
  | PInt int
  | PFloat rat
  | PStr string
  | PList "pyval list"
  | PDict "(string \<times> pyval) list"

datatype py_exn = ValueError string | TypeError string | KeyError string | OverflowError string

lemma size_list_member: "(k, x) \<in> set d \<Longrightarrow> size x < Suc (size_list (size_prod (\<lambda>x. 0) size) d)"
  by (induction d) auto

section \<open>Truth\<close>

fun truthy :: "pyval \<Rightarrow> bool" where
  "truthy PNone = False"
| "truthy (PBool b) = b"
| "truthy (PInt n) = (n \<noteq> 0)"
| "truthy (PFloat x) = (x \<noteq> 0)"
| "truthy (PStr s) = (s \<noteq> [])"
| "truthy (PList vs) = (vs \<noteq> [])"
| "truthy (PDict d) = (d \<noteq> [])"

text \<open>\<open>d.get(k)\<close>: \<open>None\<close> where the key is absent; \<open>d.get(k, v)\<close> keeps a stored \<open>None\<close>.\<close>

definition get_val :: "(string, pyval) py_dict \<Rightarrow> string \<Rightarrow> pyval" where
  "get_val d k = (case dict_get d k of None \<Rightarrow> PNone | Some v \<Rightarrow> v)"

definition get_default :: "(string, pyval) py_dict \<Rightarrow> string \<Rightarrow> pyval \<Rightarrow> pyval" where
  "get_default d k v = (case dict_get d k of None \<Rightarrow> v | Some w \<Rightarrow> w)"

definition or_val :: "pyval \<Rightarrow> pyval \<Rightarrow> pyval" where
  "or_val v w = (if truthy v then v else w)"

definition is_dict :: "pyval \<Rightarrow> bool" where
  "is_dict v = (case v of PDict _ \<Rightarrow> True | _ \<Rightarrow> False)"

definition dict_of :: "pyval \<Rightarrow> (string, pyval) py_dict" where
  "dict_of v = (case v of PDict d \<Rightarrow> d | _ \<Rightarrow> [])"

definition is_str :: "pyval \<Rightarrow> bool" where "is_str v = (case v of PStr _ \<Rightarrow> True | _ \<Rightarrow> False)"
definition is_list :: "pyval \<Rightarrow> bool" where "is_list v = (case v of PList _ \<Rightarrow> True | _ \<Rightarrow> False)"
definition is_bool :: "pyval \<Rightarrow> bool" where "is_bool v = (case v of PBool _ \<Rightarrow> True | _ \<Rightarrow> False)"
definition list_of :: "pyval \<Rightarrow> pyval list" where "list_of v = (case v of PList vs \<Rightarrow> vs | _ \<Rightarrow> [])"

definition the_str :: "pyval \<Rightarrow> string" where
  "the_str v = (case v of PStr s \<Rightarrow> s | _ \<Rightarrow> [])"

text \<open>\<open>isinstance(v, int)\<close>, which holds of booleans, and the number.\<close>

definition is_int :: "pyval \<Rightarrow> bool" where
  "is_int v = (case v of PInt _ \<Rightarrow> True | PBool _ \<Rightarrow> True | _ \<Rightarrow> False)"

definition the_int :: "pyval \<Rightarrow> int" where
  "the_int v = (case v of PInt n \<Rightarrow> n | PBool b \<Rightarrow> if b then 1 else 0 | _ \<Rightarrow> 0)"

section \<open>Numbers from values\<close>

definition is_digit :: "char \<Rightarrow> bool" where
  "is_digit c = (let n = of_char c :: nat in 48 \<le> n \<and> n \<le> 57)"

definition digit_value :: "char \<Rightarrow> nat" where
  "digit_value c = of_char c - 48"

text \<open>Digits, with single underscores between them allowed.\<close>

definition parse_digits :: "string \<Rightarrow> nat option" where
  "parse_digits s =
     (let ps = split_on (CHR ''_'') s
      in if list_all (\<lambda>p. p \<noteq> [] \<and> list_all is_digit p) ps
         then Some (foldl (\<lambda>n c. 10 * n + digit_value c) 0 (concat ps)) else None)"

definition split_sign :: "string \<Rightarrow> int \<times> string" where
  "split_sign s =
     (case s of [] \<Rightarrow> (1, [])
      | c # cs \<Rightarrow> if c = CHR ''-'' then (- 1, cs) else if c = CHR ''+'' then (1, cs) else (1, s))"

definition parse_int :: "string \<Rightarrow> int option" where
  "parse_int s = (case split_sign (py_strip s) of (sg, ds) \<Rightarrow>
      map_option (\<lambda>n. sg * int n) (parse_digits ds))"

text \<open>
  A decimal literal: digits, an optional fraction, an optional exponent. The spellings of \<open>nan\<close>
  and infinity are \<open>None\<close> here: the modelled callers pass the result to \<open>int\<close>, which raises on
  them as \<open>float\<close> does on a malformed literal.
\<close>

definition parse_mantissa :: "string \<Rightarrow> rat option" where
  "parse_mantissa s =
     (case split_on (CHR ''.'') s of
        [a] \<Rightarrow> map_option of_nat (parse_digits a)
      | [a, b] \<Rightarrow>
          if a = [] \<and> b = [] then None
          else (case (if a = [] then Some 0 else parse_digits a,
                      if b = [] then Some 0 else parse_digits b) of
                  (Some m, Some f) \<Rightarrow>
                    Some (of_nat m + of_nat f / 10 ^ length (filter is_digit b))
                | _ \<Rightarrow> None)
      | _ \<Rightarrow> None)"

definition parse_decimal :: "string \<Rightarrow> rat option" where
  "parse_decimal s =
     (case split_sign (py_strip s) of (sg, body) \<Rightarrow>
        (case split_on (CHR ''e'') (py_lower body) of
           [m] \<Rightarrow> map_option (\<lambda>x. of_int sg * x) (parse_mantissa m)
         | [m, e] \<Rightarrow>
             (case (parse_mantissa m, split_sign e) of
                (Some x, (esg, eds)) \<Rightarrow>
                  map_option (\<lambda>k. of_int sg * (if esg = 1 then x * 10 ^ k else x / 10 ^ k))
                    (parse_digits eds)
              | _ \<Rightarrow> None)
         | _ \<Rightarrow> None))"

fun py_int :: "pyval \<Rightarrow> py_exn + int" where
  "py_int (PBool b) = Inr (if b then 1 else 0)"
| "py_int (PInt n) = Inr n"
| "py_int (PFloat x) = Inr (py_trunc x)"
| "py_int (PStr s) =
     (case parse_int s of Some n \<Rightarrow> Inr n | None \<Rightarrow> Inl (ValueError ''invalid literal for int()''))"
| "py_int _ = Inl (TypeError ''int() argument must be a string or a number'')"

fun py_float :: "pyval \<Rightarrow> py_exn + rat" where
  "py_float (PBool b) = Inr (if b then 1 else 0)"
| "py_float (PInt n) = Inr (of_int n)"
| "py_float (PFloat x) = Inr x"
| "py_float (PStr s) =
     (case parse_decimal s of Some x \<Rightarrow> Inr x
      | None \<Rightarrow> Inl (ValueError ''could not convert string to float''))"
| "py_float _ = Inl (TypeError ''float() argument must be a string or a number'')"

lemma get_val_Nil [simp]: "get_val [] k = PNone"
  by (simp add: get_val_def)

lemma get_default_None: "get_default d k PNone = get_val d k"
  by (simp add: get_default_def get_val_def)

lemma truthy_or_val: "truthy (or_val v w) \<longleftrightarrow> truthy v \<or> truthy w"
  by (simp add: or_val_def)

lemma is_dict_dict_of: "is_dict v \<Longrightarrow> v = PDict (dict_of v)"
  by (auto simp: is_dict_def dict_of_def split: pyval.splits)

section \<open>Decimal rendering\<close>

text \<open>\<open>str(n)\<close> of an integer.\<close>

fun string_of_nat :: "nat \<Rightarrow> string" where
  "string_of_nat n =
     (if n < 10 then [char_of (48 + n)] else string_of_nat (n div 10) @ [char_of (48 + n mod 10)])"

declare string_of_nat.simps [simp del]

definition string_of_int :: "int \<Rightarrow> string" where
  "string_of_int n = (if n < 0 then CHR ''-'' # string_of_nat (nat (- n)) else string_of_nat (nat n))"

text \<open>\<open>str(v)\<close>; \<open>repr\<close> is the rendering of floats and containers.\<close>

fun py_str :: "(pyval \<Rightarrow> string) \<Rightarrow> pyval \<Rightarrow> string" where
  "py_str repr PNone = ''None''"
| "py_str repr (PBool b) = (if b then ''True'' else ''False'')"
| "py_str repr (PInt n) = string_of_int n"
| "py_str repr (PStr s) = s"
| "py_str repr v = repr v"

section \<open>Reading a number back\<close>

lemma digit_char:
  assumes "d < 10"
  shows "is_digit (char_of (48 + d))" "digit_value (char_of (48 + d)) = d"
    "\<not> is_space (char_of (48 + d))" "(of_char (char_of (48 + d)) :: nat) = 48 + d"
proof -
  show o: "(of_char (char_of (48 + d)) :: nat) = 48 + d" using assms by simp
  show "is_digit (char_of (48 + d))" "digit_value (char_of (48 + d)) = d" "\<not> is_space (char_of (48 + d))"
    using assms by (simp_all add: is_digit_def digit_value_def is_space_def o Let_def)
qed

lemma string_of_nat_digits: "list_all is_digit (string_of_nat n) \<and> string_of_nat n \<noteq> []"
proof (induction n rule: string_of_nat.induct)
  case (1 n)
  then show ?case
    by (subst (1 2) string_of_nat.simps) (auto simp: digit_char)
qed

lemma string_of_nat_value: "foldl (\<lambda>n c. 10 * n + digit_value c) 0 (string_of_nat n) = n"
proof (induction n rule: string_of_nat.induct)
  case (1 n)
  then show ?case
    by (subst string_of_nat.simps) (auto simp: digit_char)
qed

lemma digit_distinct: "is_digit c \<Longrightarrow> c \<noteq> CHR ''_'' \<and> c \<noteq> CHR '':'' \<and> c \<noteq> CHR ''-'' \<and> c \<noteq> CHR ''+'' \<and> \<not> is_space c"
  by (auto simp: is_digit_def is_space_def Let_def)

lemma split_on_free: "c \<notin> set s \<Longrightarrow> split_on c s = [s]"
  by (induction s) auto

lemma parse_digits_nat: "parse_digits (string_of_nat n) = Some n"
proof -
  have "CHR ''_'' \<notin> set (string_of_nat n)"
    using string_of_nat_digits[of n] digit_distinct by (auto simp: list_all_iff)
  then show ?thesis
    using string_of_nat_digits[of n] by (simp add: parse_digits_def split_on_free string_of_nat_value)
qed

lemma strip_no_space: "(\<And>c. c \<in> set s \<Longrightarrow> \<not> is_space c) \<Longrightarrow> py_strip s = s"
proof -
  assume n: "\<And>c. c \<in> set s \<Longrightarrow> \<not> is_space c"
  have "dropWhile is_space t = t" if "\<And>c. c \<in> set t \<Longrightarrow> \<not> is_space c" for t
    using that by (cases t) auto
  from this[of s] this[of "rev s"] show ?thesis using n by (simp add: py_strip_def)
qed

lemma int_chars: "c \<in> set (string_of_int n) \<Longrightarrow> c = CHR ''-'' \<or> is_digit c"
  using string_of_nat_digits by (auto simp: string_of_int_def list_all_iff split: if_splits)

lemma parse_int_string [simp]: "parse_int (string_of_int n) = Some n"
proof -
  have "\<not> is_space c" if "c \<in> set (string_of_int n)" for c
    using int_chars[OF that] digit_distinct by (auto simp: is_space_def Let_def)
  then have strip: "py_strip (string_of_int n) = string_of_int n" by (rule strip_no_space)
  show ?thesis
  proof (cases "n < 0")
    case False
    obtain d ds where d: "string_of_nat (nat n) = d # ds" "is_digit d"
      using string_of_nat_digits[of "nat n"] by (cases "string_of_nat (nat n)") auto
    have "split_sign (string_of_nat (nat n)) = (1, string_of_nat (nat n))"
      using digit_distinct[OF d(2)] by (simp add: split_sign_def d(1))
    then show ?thesis using False strip by (simp add: parse_int_def string_of_int_def parse_digits_nat)
  next
    case True
    then show ?thesis using strip by (simp add: parse_int_def string_of_int_def split_sign_def parse_digits_nat)
  qed
qed

lemma string_of_int_no_colon: "CHR '':'' \<notin> set (string_of_int n)"
  using int_chars digit_distinct by fastforce

lemma string_of_int_nonempty [simp]: "string_of_int n \<noteq> []"
  using string_of_nat_digits by (simp add: string_of_int_def)

end
