(* ===== verification/Capacity.thy ===== *)
theory Capacity
  imports Py_Value
begin

text \<open>
  Capacity budgets of the gateway (\<open>src/src/core/gateway/capacity.py\<close>): the static budget table,
  the normalisation of group names, the overrides a service configuration may make, and
  \<open>CapacityResolver.resolve\<close>, which turns a request into the list of budgets that admission
  acquires.
\<close>

record capacity_budget =
  cb_key :: string
  cb_limit :: int
  cb_queue_max :: int
  cb_queue_timeout_ms :: int
  cb_scope :: string
  cb_source :: string
  cb_enforced :: bool
  cb_source_status :: string
  cb_shared :: bool

record budget_status = capacity_budget +
  bs_inflight :: int
  bs_queue_depth :: int

definition to_status :: "capacity_budget \<Rightarrow> int \<Rightarrow> int \<Rightarrow> budget_status" where
  "to_status b inflight depth =
     capacity_budget.extend b \<lparr>bs_inflight = inflight, bs_queue_depth = depth\<rparr>"

text \<open>The constructor with the dataclass defaults.\<close>

definition mk_budget ::
  "string \<Rightarrow> int \<Rightarrow> int \<Rightarrow> int \<Rightarrow> string \<Rightarrow> string \<Rightarrow> bool \<Rightarrow> bool \<Rightarrow> capacity_budget" where
  "mk_budget k limit qmax tmo scope source enforced shared =
     \<lparr>cb_key = k, cb_limit = limit, cb_queue_max = qmax, cb_queue_timeout_ms = tmo,
      cb_scope = scope, cb_source = source, cb_enforced = enforced,
      cb_source_status = ''real'', cb_shared = shared\<rparr>"

definition default_uat_capacity_budgets :: "(string, capacity_budget) py_dict" where
  "default_uat_capacity_budgets = map (\<lambda>b. (cb_key b, b))
     [mk_budget ''gateway.total_inflight'' 64 128 3000 ''gateway'' ''default'' True False,
      mk_budget ''gateway.stream_inflight'' 16 128 3000 ''gateway'' ''default'' True False,
      mk_budget ''gateway.non_stream_inflight'' 48 128 3000 ''gateway'' ''default'' True False,
      mk_budget ''upstream.langgraph_agent'' 4 16 3000 ''upstream'' ''default'' True True,
      mk_budget ''upstream.agent_runtime'' 8 32 3000 ''upstream'' ''default'' True True,
      mk_budget ''upstream.knowledge_service'' 12 48 3000 ''upstream'' ''default'' True True,
      mk_budget ''upstream.image_generation'' 2 8 3000 ''upstream'' ''default'' True True,
      mk_budget ''provider.dashscope_cn'' 8 16 3000 ''provider'' ''default'' True True,
      mk_budget ''provider.dashscope_intl'' 8 16 3000 ''provider'' ''default'' True True,
      mk_budget ''provider.google_gemini'' 4 16 3000 ''provider'' ''default'' True True,
      mk_budget ''provider.google_vertex'' 1 4 3000 ''provider'' ''default'' True True]"

definition service_upstream_groups :: "(string, string) py_dict" where
  "service_upstream_groups =
     [(''local-2024-agent'', ''langgraph_agent''), (''langgraph-agent'', ''langgraph_agent''),
      (''agent'', ''langgraph_agent''), (''assistant'', ''agent_runtime''),
      (''agent-runtime'', ''agent_runtime''), (''knowledge'', ''knowledge_service''),
      (''knowledge-service'', ''knowledge_service''), (''image-generation'', ''image_generation'')]"

definition provider_groups :: "(string, string) py_dict" where
  "provider_groups =
     [(''google'', ''google_gemini''), (''gemini'', ''google_gemini''),
      (''google-gemini'', ''google_gemini''), (''dashscope'', ''dashscope_cn''),
      (''dashscope-cn'', ''dashscope_cn''), (''dashscope_intl'', ''dashscope_intl''),
      (''dashscope-intl'', ''dashscope_intl''), (''vertex'', ''google_vertex''),
      (''google-vertex'', ''google_vertex'')]"

section \<open>Group names\<close>

text \<open>The callers pass a string or \<open>None\<close>: \<open>split(".", 1)[1]\<close> is what follows the first dot.\<close>

definition normalize_capacity_group :: "string option \<Rightarrow> string \<Rightarrow> string option" where
  "normalize_capacity_group value pre =
     (case value of None \<Rightarrow> None
      | Some v \<Rightarrow>
          (let normalized = py_replace_char (CHR ''-'') (CHR ''_'') (py_lower (py_strip v))
           in if normalized = [] then None
              else if starts_with normalized (pre @ ''.'')
              then Some (tl (dropWhile (\<lambda>c. c \<noteq> CHR ''.'') normalized))
              else Some normalized))"

definition service_upstream_group :: "string \<Rightarrow> string option \<Rightarrow> string option" where
  "service_upstream_group service_id configured =
     (case normalize_capacity_group configured ''upstream'' of
        Some g \<Rightarrow> if g \<noteq> [] then Some g
                  else dict_get service_upstream_groups (py_lower (py_strip service_id))
      | None \<Rightarrow> dict_get service_upstream_groups (py_lower (py_strip service_id)))"

definition provider_budget_key :: "string option \<Rightarrow> string option" where
  "provider_budget_key provider_id =
     (case normalize_capacity_group provider_id ''provider'' of
        None \<Rightarrow> None
      | Some normalized \<Rightarrow>
          if normalized = [] then None
          else (let grp = (case dict_get provider_groups normalized of
                             Some g \<Rightarrow> g | None \<Rightarrow> normalized);
                    k = ''provider.'' @ grp
                in if dict_get default_uat_capacity_budgets k \<noteq> None then Some k else None))"

section \<open>The configuration of a service\<close>

text \<open>
  The argument of \<open>capacity_config_from_service\<close>: absent, a dictionary, or an object of which it
  reads four attributes with \<open>getattr(_, _, None)\<close> (\<open>so_capacity\<close> is \<open>asdict\<close> of
  \<open>service_config.capacity\<close> where both exist).
\<close>

record service_object =
  so_capacity_config :: pyval
  so_capacity :: "(string, pyval) py_dict option"
  so_metadata :: pyval
  so_concurrency_limit :: pyval

datatype service_source = NoService | ServiceDict "(string, pyval) py_dict" | ServiceObject service_object

definition with_legacy_limit ::
  "(string, pyval) py_dict \<Rightarrow> pyval \<Rightarrow> (string, pyval) py_dict" where
  "with_legacy_limit result legacy =
     (if legacy \<noteq> PNone \<and> get_val result ''concurrency_limit'' = PNone
      then dict_set ''concurrency_limit'' legacy result else result)"

definition service_object_capacity :: "service_object \<Rightarrow> pyval" where
  "service_object_capacity obj =
     (let raw = so_capacity_config obj;
          raw1 = (if is_dict raw then raw
                  else case so_capacity obj of Some c \<Rightarrow> PDict c | None \<Rightarrow> raw)
      in if \<not> is_dict raw1 \<and> is_dict (so_metadata obj)
         then or_val (get_val (dict_of (so_metadata obj)) ''capacity'')
                     (get_val (dict_of (so_metadata obj)) ''capacity_config'')
         else raw1)"

fun capacity_config_from_service :: "service_source \<Rightarrow> (string, pyval) py_dict" where
  "capacity_config_from_service NoService = []"
| "capacity_config_from_service (ServiceDict d) =
     with_legacy_limit
       (dict_of (or_val (or_val (get_val d ''capacity'') (get_val d ''capacity_config'')) (PDict [])))
       (get_val d ''concurrency_limit'')"
| "capacity_config_from_service (ServiceObject obj) =
     with_legacy_limit (dict_of (service_object_capacity obj)) (so_concurrency_limit obj)"

section \<open>Overrides\<close>

definition configured_limit :: "(string, pyval) py_dict \<Rightarrow> pyval" where
  "configured_limit cfg = get_default cfg ''concurrency_limit'' (get_val cfg ''limit'')"

definition int_or :: "pyval \<Rightarrow> int \<Rightarrow> py_exn + int" where
  "int_or v d = (if v \<noteq> PNone then py_int v else Inr d)"

definition override_timeout :: "(string, pyval) py_dict \<Rightarrow> py_exn + pyval" where
  "override_timeout cfg =
     (let timeout = get_val cfg ''queue_timeout_ms'';
          secs = get_val cfg ''queue_timeout_seconds''
      in if timeout = PNone \<and> secs \<noteq> PNone
         then result_bind (py_float secs) (\<lambda>x. Inr (PFloat (x * 1000)))
         else Inr timeout)"

definition apply_override ::
  "capacity_budget \<Rightarrow> (string, pyval) py_dict \<Rightarrow> py_exn + capacity_budget" where
  "apply_override dflt cfg =
     (if cfg = [] then Inr dflt
      else result_bind (override_timeout cfg) (\<lambda>timeout.
           result_bind (int_or (configured_limit cfg) (cb_limit dflt)) (\<lambda>limit.
           result_bind (int_or (get_default cfg ''queue_max'' (get_val cfg ''max_queue_size''))
                               (cb_queue_max dflt)) (\<lambda>qmax.
           result_bind (int_or timeout (cb_queue_timeout_ms dflt)) (\<lambda>tmo.
             Inr \<lparr>cb_key = cb_key dflt, cb_limit = max limit 1, cb_queue_max = max qmax 0,
                  cb_queue_timeout_ms = max tmo 1, cb_scope = cb_scope dflt,
                  cb_source = ''service_config'', cb_enforced = cb_enforced dflt,
                  cb_source_status = cb_source_status dflt, cb_shared = cb_shared dflt\<rparr>)))))"

definition missing_budget :: "string \<Rightarrow> capacity_budget" where
  "missing_budget k =
     \<lparr>cb_key = k, cb_limit = 1, cb_queue_max = 0, cb_queue_timeout_ms = 1,
      cb_scope = (if starts_with k ''service.'' then ''service'' else ''upstream''),
      cb_source = ''missing'', cb_enforced = False, cb_source_status = ''missing'',
      cb_shared = False\<rparr>"

definition configured_or_missing ::
  "string \<Rightarrow> (string, pyval) py_dict \<Rightarrow> py_exn + capacity_budget" where
  "configured_or_missing k cfg =
     (let missing = missing_budget k
      in if configured_limit cfg = PNone then Inr missing
         else apply_override
                (missing\<lparr>cb_enforced := True, cb_shared := True, cb_source_status := ''real'',
                         cb_queue_max := 16, cb_queue_timeout_ms := 3000\<rparr>) cfg)"

definition dedupe_budgets :: "capacity_budget list \<Rightarrow> capacity_budget list" where
  "dedupe_budgets bs = map snd (foldl (\<lambda>d b. dict_set (cb_key b) b d) [] bs)"

section \<open>Resolution\<close>

definition resource_kinds :: "string list" where
  "resource_kinds = [''request'', ''run'', ''provider'', ''capability'', ''job'', ''sse'']"

definition kind_limit :: "string \<Rightarrow> int" where
  "kind_limit kind =
     (if kind = ''run'' then 8 else if kind = ''provider'' then 32
      else if kind = ''capability'' then 16 else if kind = ''job'' then 4 else 64)"

definition default_budget :: "string \<Rightarrow> capacity_budget list" where
  "default_budget k = (case dict_get default_uat_capacity_budgets k of Some b \<Rightarrow> [b] | None \<Rightarrow> [])"

definition base_budgets :: "string \<Rightarrow> string \<Rightarrow> capacity_budget list" where
  "base_budgets request_class kind =
     (if kind = ''request''
      then default_budget ''gateway.total_inflight'' @
           default_budget (if request_class = ''stream'' then ''gateway.stream_inflight''
                           else ''gateway.non_stream_inflight'')
      else [mk_budget (''gateway.'' @ kind @ ''_inflight'') (kind_limit kind) 32 3000 kind
              ''default'' True (kind \<noteq> ''sse'')])"

definition configured_group :: "(string, pyval) py_dict \<Rightarrow> string option \<Rightarrow> string option" where
  "configured_group cfg upstream_group =
     (case get_val cfg ''upstream_group'' of
        PStr s \<Rightarrow> if s \<noteq> [] then Some s else upstream_group
      | _ \<Rightarrow> upstream_group)"

definition upstream_budget ::
  "(string, pyval) py_dict \<Rightarrow> string \<Rightarrow> string option \<Rightarrow> py_exn + capacity_budget" where
  "upstream_budget cfg service_id upstream_group =
     (case service_upstream_group service_id (configured_group cfg upstream_group) of
        Some g \<Rightarrow>
          (case dict_get default_uat_capacity_budgets (''upstream.'' @ g) of
             Some dflt \<Rightarrow> apply_override dflt cfg
           | None \<Rightarrow> configured_or_missing (''upstream.'' @ g) cfg)
      | None \<Rightarrow> configured_or_missing (''service.'' @ or_str service_id ''unknown'') cfg)"

definition scope_to_kind :: "string \<Rightarrow> capacity_budget \<Rightarrow> capacity_budget" where
  "scope_to_kind kind b =
     (if cb_scope b = ''upstream'' \<or> cb_scope b = ''service''
      then b\<lparr>cb_key := kind @ ''.'' @ cb_key b\<rparr> else b)"

definition provider_budgets :: "string option \<Rightarrow> string \<Rightarrow> capacity_budget list" where
  "provider_budgets provider_id kind =
     (case provider_budget_key provider_id of
        Some k \<Rightarrow> if kind = ''request'' \<or> kind = ''provider'' then default_budget k else []
      | None \<Rightarrow> [])"

definition resolve_capacity ::
  "string \<Rightarrow> string \<Rightarrow> string option \<Rightarrow> string option \<Rightarrow> bool \<Rightarrow> service_source \<Rightarrow> string
     \<Rightarrow> py_exn + capacity_budget list" where
  "resolve_capacity service_id request_class upstream_group provider_id is_admin_read svc kind =
     (let cfg = capacity_config_from_service svc
      in if kind \<notin> set resource_kinds then Inl (ValueError ''unknown_capacity_resource_kind'')
         else if kind = ''sse'' then Inr (base_budgets request_class kind)
         else if is_admin_read then Inr (dedupe_budgets (base_budgets request_class kind))
         else result_bind (upstream_budget cfg service_id upstream_group) (\<lambda>up.
           let bs = base_budgets request_class kind @ [up];
               bs' = (if kind \<noteq> ''request'' then map (scope_to_kind kind) bs else bs)
           in Inr (dedupe_budgets (bs' @ provider_budgets provider_id kind))))"

text \<open>\<open>status_budgets\<close>: the table in key order, with the live usage of each key.\<close>

definition usage_count :: "(string, int) py_dict option \<Rightarrow> string \<Rightarrow> int" where
  "usage_count usage field =
     (case usage of None \<Rightarrow> 0
      | Some d \<Rightarrow> (case dict_get d field of None \<Rightarrow> 0 | Some n \<Rightarrow> n))"

definition status_budgets ::
  "(string, (string, int) py_dict) py_dict \<Rightarrow> budget_status list" where
  "status_budgets snapshot =
     concat (map (\<lambda>k. map (\<lambda>b. to_status b
                     (usage_count (dict_get snapshot k) ''inflight'')
                     (usage_count (dict_get snapshot k) ''queue_depth''))
                   (default_budget k))
        (sort (map fst default_uat_capacity_budgets)))"

section \<open>Well-formed budgets\<close>

definition budget_ok :: "capacity_budget \<Rightarrow> bool" where
  "budget_ok b \<longleftrightarrow> 1 \<le> cb_limit b \<and> 0 \<le> cb_queue_max b \<and> 1 \<le> cb_queue_timeout_ms b"

lemma mk_budget_ok [simp]:
  "budget_ok (mk_budget k l q t sc so e sh) \<longleftrightarrow> 1 \<le> l \<and> 0 \<le> q \<and> 1 \<le> t"
  by (simp add: budget_ok_def mk_budget_def)

lemma mk_budget_sel [simp]:
  "cb_key (mk_budget k l q t sc so e sh) = k" "cb_scope (mk_budget k l q t sc so e sh) = sc"
  "cb_enforced (mk_budget k l q t sc so e sh) = e"
  by (simp_all add: mk_budget_def)

lemma default_budget_cases:
  "b \<in> set (default_budget k) \<Longrightarrow>
     b \<in> set (map snd default_uat_capacity_budgets) \<and> cb_key b = k"
  by (auto simp: default_budget_def default_uat_capacity_budgets_def split: if_splits)

lemma default_table_ok: "b \<in> set (map snd default_uat_capacity_budgets) \<Longrightarrow> budget_ok b \<and> cb_enforced b"
  by (auto simp: default_uat_capacity_budgets_def)

lemma apply_override_Inr:
  assumes "apply_override d cfg = Inr b"
  shows "cb_key b = cb_key d" "cb_scope b = cb_scope d" "cb_enforced b = cb_enforced d"
    "budget_ok d \<Longrightarrow> budget_ok b"
  using assms by (auto simp: apply_override_def result_bind_Inr budget_ok_def split: if_splits)

lemma configured_or_missing_Inr:
  assumes "configured_or_missing k cfg = Inr b"
  shows "cb_key b = k" "cb_scope b = cb_scope (missing_budget k)" "budget_ok b"
  using assms
  by (auto simp: configured_or_missing_def Let_def missing_budget_def budget_ok_def
      dest: apply_override_Inr split: if_splits)

lemma upstream_budget_Inr:
  assumes "upstream_budget cfg sid ug = Inr b"
  shows "(\<exists>g. cb_key b = ''upstream.'' @ g \<and> cb_scope b = ''upstream'') \<or>
         (\<exists>g. cb_key b = ''service.'' @ g \<and> cb_scope b = ''service'')"
    and "budget_ok b"
proof -
  have "\<And>g d. dict_get default_uat_capacity_budgets (''upstream.'' @ g) = Some d \<Longrightarrow>
          cb_key d = ''upstream.'' @ g \<and> cb_scope d = ''upstream'' \<and> budget_ok d"
    by (auto simp: default_uat_capacity_budgets_def mk_budget_def budget_ok_def split: if_splits)
  with assms show "(\<exists>g. cb_key b = ''upstream.'' @ g \<and> cb_scope b = ''upstream'') \<or>
         (\<exists>g. cb_key b = ''service.'' @ g \<and> cb_scope b = ''service'')" "budget_ok b"
    by (auto simp: upstream_budget_def missing_budget_def starts_with_def
        dest: apply_override_Inr configured_or_missing_Inr split: option.splits)
qed

subsection \<open>Deduplication\<close>

definition keyed :: "capacity_budget set \<Rightarrow> (string, capacity_budget) py_dict \<Rightarrow> bool" where
  "keyed S d \<longleftrightarrow> dict_ok d \<and> (\<forall>(k, b) \<in> set d. cb_key b = k \<and> b \<in> S)"

lemma keyed_set: "keyed S d \<Longrightarrow> b \<in> S \<Longrightarrow> keyed S (dict_set (cb_key b) b d)"
  unfolding keyed_def
proof (elim conjE, intro conjI ballI, goal_cases)
  case (2 x)
  obtain k b' where x: "x = (k, b')" by (cases x)
  with 2 have "dict_get (dict_set (cb_key b) b d) k = Some b'"
    by (simp only: dict_get_iff dict_ok_set)
  with x 2 show ?case
    by (cases "k = cb_key b") (auto simp: dict_get_set dict_get_iff)
qed simp

lemma keyed_fold:
  "keyed S d \<Longrightarrow> set bs \<subseteq> S \<Longrightarrow> keyed S (foldl (\<lambda>d b. dict_set (cb_key b) b d) d bs)"
  by (induction bs arbitrary: d) (simp_all add: keyed_set)

lemma keys_fold:
  "fst ` set (foldl (\<lambda>d b. dict_set (cb_key b) b d) d bs) = fst ` set d \<union> cb_key ` set bs"
  by (induction bs arbitrary: d) (simp_all add: dom_update)

lemma keyed_keys: "keyed S d \<Longrightarrow> map cb_key (map snd d) = map fst d"
  by (auto simp: keyed_def)

lemma dedupe_keyed: "keyed (set bs) (foldl (\<lambda>d b. dict_set (cb_key b) b d) [] bs)"
  by (rule keyed_fold) (simp_all add: keyed_def)

lemma distinct_dedupe: "distinct (map cb_key (dedupe_budgets bs))"
  unfolding dedupe_budgets_def keyed_keys[OF dedupe_keyed]
  using dedupe_keyed unfolding keyed_def dict_ok_def by blast

lemma keys_dedupe: "cb_key ` set (dedupe_budgets bs) = cb_key ` set bs"
proof -
  have "cb_key ` set (dedupe_budgets bs) = set (map cb_key (dedupe_budgets bs))" by simp
  also have "\<dots> = cb_key ` set bs"
    unfolding dedupe_budgets_def keyed_keys[OF dedupe_keyed] set_map keys_fold by simp
  finally show ?thesis .
qed

lemma keyed_vals: "keyed S d \<Longrightarrow> set (map snd d) \<subseteq> S"
  by (auto simp: keyed_def)

lemma set_dedupe: "set (dedupe_budgets bs) \<subseteq> set bs"
  unfolding dedupe_budgets_def by (rule keyed_vals[OF dedupe_keyed])

subsection \<open>Where the keys of a resolution live\<close>

definition key_head :: "string \<Rightarrow> string" where
  "key_head k = takeWhile (\<lambda>c. c \<noteq> CHR ''.'') k"

text \<open>The keys a resource kind may occupy.\<close>

definition kind_owns :: "string \<Rightarrow> string \<Rightarrow> bool" where
  "kind_owns kind k \<longleftrightarrow>
     (if kind = ''request''
      then k \<in> {''gateway.total_inflight'', ''gateway.stream_inflight'', ''gateway.non_stream_inflight''}
           \<or> key_head k \<in> {''upstream'', ''service'', ''provider''}
      else k = ''gateway.'' @ kind @ ''_inflight'' \<or> key_head k = kind)"

lemma key_head_Cons [simp]:
  "key_head [] = []" "key_head (c # k) = (if c = CHR ''.'' then [] else c # key_head k)"
  by (simp_all add: key_head_def)

lemma key_head_gateway: "key_head (''gateway.'' @ k) = ''gateway''"
  by simp

lemma key_head_kind:
  "kind \<in> set resource_kinds \<Longrightarrow> key_head (kind @ ''.'' @ k) = kind"
  by (auto simp: resource_kinds_def key_head_def)

lemma kind_owns_request: "kind_owns ''request'' k \<Longrightarrow>
    k \<in> {''gateway.total_inflight'', ''gateway.stream_inflight'', ''gateway.non_stream_inflight''}
    \<or> key_head k \<in> {''upstream'', ''service'', ''provider''}"
  by (simp only: kind_owns_def if_True simp_thms)

lemma kind_owns_other: "kind_owns kind k \<Longrightarrow> kind \<noteq> ''request'' \<Longrightarrow>
    k = ''gateway.'' @ kind @ ''_inflight'' \<or> key_head k = kind"
  by (simp only: kind_owns_def if_False)

lemma request_only_keys:
  assumes "kind \<in> set resource_kinds" "kind \<noteq> ''request''" "kind \<noteq> ''provider''"
  shows "\<not> (kind_owns ''request'' k \<and> kind_owns kind k)"
proof
  assume "kind_owns ''request'' k \<and> kind_owns kind k"
  then have r: "k \<in> {''gateway.total_inflight'', ''gateway.stream_inflight'', ''gateway.non_stream_inflight''}
      \<or> key_head k \<in> {''upstream'', ''service'', ''provider''}"
    and o': "k = ''gateway.'' @ kind @ ''_inflight'' \<or> key_head k = kind"
    using assms kind_owns_request kind_owns_other by blast+
  from o' show False
  proof
    assume k: "k = ''gateway.'' @ kind @ ''_inflight''"
    then have "key_head k = ''gateway''" by simp
    with r have "k \<in> {''gateway.total_inflight'', ''gateway.stream_inflight'', ''gateway.non_stream_inflight''}"
      by auto
    with k have "kind @ ''_inflight'' \<in> {''total_inflight'', ''stream_inflight'', ''non_stream_inflight''}"
      by auto
    then show False using assms(1) by (auto simp: resource_kinds_def)
  next
    assume k: "key_head k = kind"
    with r have "kind \<in> {''gateway'', ''upstream'', ''service'', ''provider''}" by auto
    then show False using assms by (auto simp: resource_kinds_def)
  qed
qed

lemma kind_owns_disjoint:
  assumes "k1 \<in> set resource_kinds" "k2 \<in> set resource_kinds" "k1 \<noteq> k2"
    and "{k1, k2} \<noteq> {''request'', ''provider''}"
    and "kind_owns k1 k" "kind_owns k2 k"
  shows False
proof -
  consider "k1 = ''request''" | "k2 = ''request''" | "k1 \<noteq> ''request''" "k2 \<noteq> ''request''" by blast
  then show False
  proof cases
    case 1
    with assms show False using request_only_keys[of k2 k] by auto
  next
    case 2
    with assms show False using request_only_keys[of k1 k] by auto
  next
    case 3
    have gw: "''gateway'' \<notin> set resource_kinds" by (simp add: resource_kinds_def)
    from kind_owns_other[OF assms(5) 3(1)] kind_owns_other[OF assms(6) 3(2)]
    consider "''gateway.'' @ k1 @ ''_inflight'' = ''gateway.'' @ k2 @ ''_inflight''"
      | "key_head k = ''gateway''" "key_head k = k1 \<or> key_head k = k2" | "key_head k = k1" "key_head k = k2"
      using key_head_gateway by metis
    then show False
      using assms(1-3) gw by cases auto
  qed
qed

lemma provider_budgets_set:
  "b \<in> set (provider_budgets pid kind) \<Longrightarrow>
     (kind = ''request'' \<or> kind = ''provider'') \<and> key_head (cb_key b) = ''provider'' \<and> budget_ok b"
  by (auto simp: provider_budgets_def provider_budget_key_def key_head_def Let_def
      dest!: default_budget_cases dest: default_table_ok split: option.splits if_splits)

lemma base_budgets_set:
  "b \<in> set (base_budgets rc kind) \<Longrightarrow> budget_ok b \<and>
     (if kind = ''request''
      then cb_key b \<in> {''gateway.total_inflight'', ''gateway.stream_inflight'', ''gateway.non_stream_inflight''}
      else cb_key b = ''gateway.'' @ kind @ ''_inflight'' \<and> cb_scope b = kind)"
  by (auto simp: base_budgets_def kind_limit_def dest: default_budget_cases default_table_ok
      split: if_splits)

lemma base_budgets_nonempty [simp]: "base_budgets rc kind \<noteq> []"
  by (auto simp: base_budgets_def default_budget_def default_uat_capacity_budgets_def)

lemma scope_to_kind_ok [simp]: "budget_ok (scope_to_kind kind b) = budget_ok b"
  by (simp add: scope_to_kind_def budget_ok_def)

lemma resolve_capacity_full:
  "kind \<in> set resource_kinds \<Longrightarrow> kind \<noteq> ''sse'' \<Longrightarrow> \<not> adm \<Longrightarrow>
     resolve_capacity sid rc ug pid adm svc kind =
       result_bind (upstream_budget (capacity_config_from_service svc) sid ug) (\<lambda>up.
         Inr (dedupe_budgets ((if kind \<noteq> ''request''
                then map (scope_to_kind kind) (base_budgets rc kind @ [up])
                else base_budgets rc kind @ [up]) @ provider_budgets pid kind)))"
  by (simp add: resolve_capacity_def Let_def)

lemma resolve_capacity_sound:
  assumes "resolve_capacity sid rc ug pid adm svc kind = Inr bs" and "b \<in> set bs"
  shows "budget_ok b \<and> kind_owns kind (cb_key b)"
proof -
  let ?base = "base_budgets rc kind"
  from assms have kind: "kind \<in> set resource_kinds"
    by (auto simp: resolve_capacity_def Let_def split: if_splits)
  have base: "budget_ok x \<and> kind_owns kind (cb_key x) \<and> (kind \<noteq> ''request'' \<longrightarrow> cb_scope x = kind)"
    if "x \<in> set ?base" for x
    using base_budgets_set[OF that] by (cases "kind = ''request''") (simp_all add: kind_owns_def)
  have req: "''request'' \<in> set resource_kinds" "''upstream'' \<notin> set resource_kinds"
    "''service'' \<notin> set resource_kinds"
    by (simp_all add: resource_kinds_def)
  show ?thesis
  proof (cases "kind = ''sse'' \<or> adm")
    case True
    with assms kind have "set bs \<subseteq> set ?base"
      using set_dedupe[of ?base] by (auto simp: resolve_capacity_def Let_def split: if_splits)
    with assms(2) base show ?thesis by blast
  next
    case False
    then have "kind \<noteq> ''sse''" "\<not> adm" by blast+
    from assms(1)[unfolded resolve_capacity_full[OF kind this]] obtain up where up: "upstream_budget (capacity_config_from_service svc) sid ug = Inr up"
      and bs: "bs = dedupe_budgets ((if kind \<noteq> ''request'' then map (scope_to_kind kind) (?base @ [up])
                 else ?base @ [up]) @ provider_budgets pid kind)"
      unfolding result_bind_Inr by blast
    have same: "scope_to_kind kind x = x" if "x \<in> set ?base" "kind \<noteq> ''request''" for x
      using base[OF that(1)] that(2) kind req unfolding scope_to_kind_def by auto
    note u = upstream_budget_Inr[OF up]
    from bs assms(2) set_dedupe consider "b \<in> set ?base" | "b = up" "kind = ''request''"
      | x where "x \<in> set ?base" "b = scope_to_kind kind x" "kind \<noteq> ''request''"
      | "b = scope_to_kind kind up" "kind \<noteq> ''request''" | "b \<in> set (provider_budgets pid kind)"
      by (cases "kind = ''request''") fastforce+
    then show ?thesis
    proof cases
      case 1
      with base show ?thesis by blast
    next
      case 2
      from u(1) have "key_head (cb_key b) \<in> {''upstream'', ''service''}"
        using 2(1) by auto
      with u(2) 2 show ?thesis by (auto simp: kind_owns_def)
    next
      case 3
      with base same show ?thesis by metis
    next
      case 4
      from u(1) have "cb_key b = kind @ ''.'' @ cb_key up"
        using 4(1) by (auto simp: scope_to_kind_def)
      with u(2) 4 kind show ?thesis using key_head_kind[OF kind, of "cb_key up"] by (simp add: kind_owns_def)
    next
      case 5
      from provider_budgets_set[OF 5] show ?thesis by (auto simp: kind_owns_def)
    qed
  qed
qed

lemma resolve_capacity_kind:
  assumes "resolve_capacity sid rc ug pid adm svc kind = Inr bs"
  shows "kind \<in> set resource_kinds"
proof (rule ccontr)
  assume "kind \<notin> set resource_kinds"
  with assms show False by (simp add: resolve_capacity_def Let_def)
qed

lemma resolve_capacity_distinct:
  "resolve_capacity sid rc ug pid adm svc kind = Inr bs \<Longrightarrow> distinct (map cb_key bs) \<and> bs \<noteq> []"
proof -
  assume r: "resolve_capacity sid rc ug pid adm svc kind = Inr bs"
  have ne: "dedupe_budgets xs \<noteq> []" if "xs \<noteq> []" for xs
    using keys_dedupe[of xs] that by auto
  show ?thesis
  proof (cases "kind = ''sse''")
    case True
    with r show ?thesis by (auto simp: resolve_capacity_def base_budgets_def resource_kinds_def)
  next
    case False
    with r obtain xs where "bs = dedupe_budgets xs" "xs \<noteq> []"
      by (auto simp: resolve_capacity_def Let_def result_bind_Inr split: if_splits)
    with ne show ?thesis by (simp add: distinct_dedupe)
  qed
qed

section \<open>Properties\<close>

text \<open>
  A resolution names at least one budget, no budget key twice, and every budget it names can
  admit at least one request, has a non-negative queue and a positive queue timeout, whatever the
  service configuration says.
\<close>

theorem resolve_capacity_wellformed:
  assumes "resolve_capacity service_id request_class upstream_group provider_id is_admin_read svc kind
             = Inr bs"
  shows "bs \<noteq> [] \<and> distinct (map cb_key bs) \<and>
         list_all (\<lambda>b. 1 \<le> cb_limit b \<and> 0 \<le> cb_queue_max b \<and> 1 \<le> cb_queue_timeout_ms b) bs"
  using resolve_capacity_distinct[OF assms] resolve_capacity_sound[OF assms]
  by (simp add: list_all_iff budget_ok_def)

theorem resolve_capacity_wellformed_witness:
  "let r = resolve_capacity ''agent'' ''stream'' None (Some ''gemini'') False
             (ServiceDict [(''concurrency_limit'', PInt (- 3))]) ''request'';
       bs = projr r
   in r = Inr bs \<and> bs \<noteq> [] \<and> distinct (map cb_key bs) \<and>
    list_all (\<lambda>b. 1 \<le> cb_limit b \<and> 0 \<le> cb_queue_max b \<and> 1 \<le> cb_queue_timeout_ms b) bs"
proof -
  let ?r = "resolve_capacity ''agent'' ''stream'' None (Some ''gemini'') False
      (ServiceDict [(''concurrency_limit'', PInt (- 3))]) ''request''"
  have "\<not> isl ?r" by code_simp
  from not_isl_Inr[OF this] resolve_capacity_wellformed[OF not_isl_Inr[OF this]] show ?thesis by (simp only: Let_def simp_thms)
qed

text \<open>
  Two resolutions made for different resource kinds never name the same budget, the pair
  request/provider excepted, which shares the provider budgets: a callback of one kind never waits
  for a slot that its parent run of another kind is holding.
\<close>

theorem resolve_capacity_kinds_disjoint:
  assumes "resolve_capacity sid1 rc1 ug1 pid1 adm1 svc1 k1 = Inr bs1"
    and "resolve_capacity sid2 rc2 ug2 pid2 adm2 svc2 k2 = Inr bs2"
    and "k1 \<noteq> k2" and "{k1, k2} \<noteq> {''request'', ''provider''}"
  shows "cb_key ` set bs1 \<inter> cb_key ` set bs2 = {}"
proof -
  have "False" if "b1 \<in> set bs1" "b2 \<in> set bs2" "cb_key b1 = cb_key b2" for b1 b2
    using kind_owns_disjoint[OF resolve_capacity_kind[OF assms(1)] resolve_capacity_kind[OF assms(2)]
        assms(3,4), of "cb_key b1"]
      resolve_capacity_sound[OF assms(1) that(1)] resolve_capacity_sound[OF assms(2) that(2)] that(3)
    by simp
  then show ?thesis by blast
qed

theorem resolve_capacity_kinds_disjoint_witness:
  "let r1 = resolve_capacity ''agent'' ''stream'' None None False NoService ''run'';
       r2 = resolve_capacity ''agent'' ''stream'' None None False NoService ''capability''
   in r1 = Inr (projr r1) \<and> r2 = Inr (projr r2) \<and>
      cb_key ` set (projr r1) \<inter> cb_key ` set (projr r2) = {}"
proof -
  let ?r = "\<lambda>k. resolve_capacity ''agent'' ''stream'' None None False NoService k"
  have "\<not> isl (?r ''run'')" "\<not> isl (?r ''capability'')" by code_simp+
  note r = this[THEN not_isl_Inr]
  have d: "''run'' \<noteq> ''capability''" "{''run'', ''capability''} \<noteq> {''request'', ''provider''}"
    by (simp_all add: doubleton_eq_iff)
  show ?thesis
    unfolding Let_def by (intro conjI r resolve_capacity_kinds_disjoint[OF r d])
qed

end
