(* ===== verification/Redis_Scripts.thy ===== *)
theory Redis_Scripts
  imports Gw_Prelude
begin

text \<open>
  The Lua scripts the gateway evaluates in Redis (\<open>src/src/core/gateway/lua_scripts.py\<close>). The
  sorted-set commands of Redis are not code of the repository: they are the record \<open>redis_ops\<close>, an
  argument of every script, and what the scripts rely on is the predicate \<open>zset_laws\<close>, stated over
  a view \<open>zv\<close> that reads a database as a map from keys to finite maps from members to scores.
  A script runs atomically, so it is a function on databases. The expiry of a whole key is left to
  the environment: \<open>expire\<close> only promises not to change the view.
\<close>

record 'r redis_ops =
  zremrangebyscore :: "string \<Rightarrow> rat \<Rightarrow> rat \<Rightarrow> 'r \<Rightarrow> 'r"
  zcard :: "string \<Rightarrow> 'r \<Rightarrow> int"
  zadd :: "string \<Rightarrow> rat \<Rightarrow> string \<Rightarrow> 'r \<Rightarrow> 'r"
  zadd_xx :: "string \<Rightarrow> rat \<Rightarrow> string \<Rightarrow> 'r \<Rightarrow> 'r"
  zrem :: "string \<Rightarrow> string \<Rightarrow> 'r \<Rightarrow> 'r"
  zscore :: "string \<Rightarrow> string \<Rightarrow> 'r \<Rightarrow> rat option"
  zfirst :: "string \<Rightarrow> 'r \<Rightarrow> (string \<times> rat) option"
  zexpire :: "string \<Rightarrow> rat \<Rightarrow> 'r \<Rightarrow> 'r"

type_synonym zview = "string \<Rightarrow> string \<rightharpoonup> rat"

definition without_scores :: "rat \<Rightarrow> rat \<Rightarrow> (string \<rightharpoonup> rat) \<Rightarrow> (string \<rightharpoonup> rat)" where
  "without_scores lo hi m = (\<lambda>x. case m x of None \<Rightarrow> None
     | Some s \<Rightarrow> if lo \<le> s \<and> s \<le> hi then None else Some s)"

definition zset_laws :: "'r redis_ops \<Rightarrow> ('r \<Rightarrow> zview) \<Rightarrow> bool" where
  "zset_laws ops zv \<longleftrightarrow>
     (\<forall>r k. finite (dom (zv r k))) \<and>
     (\<forall>r k lo hi. zv (zremrangebyscore ops k lo hi r) = (zv r)(k := without_scores lo hi (zv r k))) \<and>
     (\<forall>r k. zcard ops k r = int (card (dom (zv r k)))) \<and>
     (\<forall>r k s m. zv (zadd ops k s m r) = (zv r)(k := (zv r k)(m \<mapsto> s))) \<and>
     (\<forall>r k s m. zv (zadd_xx ops k s m r) =
        (if m \<in> dom (zv r k) then (zv r)(k := (zv r k)(m \<mapsto> s)) else zv r)) \<and>
     (\<forall>r k m. zv (zrem ops k m r) = (zv r)(k := (zv r k)(m := None))) \<and>
     (\<forall>r k m. zscore ops k m r = zv r k m) \<and>
     (\<forall>r k. case zfirst ops k r of None \<Rightarrow> dom (zv r k) = {}
        | Some (m, s) \<Rightarrow> zv r k m = Some s \<and> (\<forall>s' \<in> ran (zv r k). s \<le> s')) \<and>
     (\<forall>r k t. zv (zexpire ops k t r) = zv r)"

lemma zset_lawsD:
  assumes "zset_laws ops zv"
  shows "finite (dom (zv r k))"
    and "zv (zremrangebyscore ops k lo hi r) = (zv r)(k := without_scores lo hi (zv r k))"
    and "zcard ops k r = int (card (dom (zv r k)))"
    and "zv (zadd ops k s m r) = (zv r)(k := (zv r k)(m \<mapsto> s))"
    and "zv (zadd_xx ops k s m r) =
        (if m \<in> dom (zv r k) then (zv r)(k := (zv r k)(m \<mapsto> s)) else zv r)"
    and "zv (zrem ops k m r) = (zv r)(k := (zv r k)(m := None))"
    and "zscore ops k m r = zv r k m"
    and "zv (zexpire ops k t r) = zv r"
  using assms unfolding zset_laws_def by simp_all

lemma zset_laws_zfirst:
  "zset_laws ops zv \<Longrightarrow> case zfirst ops k r of None \<Rightarrow> dom (zv r k) = {}
     | Some (m, s) \<Rightarrow> zv r k m = Some s \<and> (\<forall>s' \<in> ran (zv r k). s \<le> s')"
  by (simp add: zset_laws_def)

lemma zset_laws_first:
  "zset_laws ops zv \<Longrightarrow> zfirst ops k r = Some (m, s) \<Longrightarrow> zv r k m = Some s \<and> (\<forall>s' \<in> ran (zv r k). s \<le> s')"
  "zset_laws ops zv \<Longrightarrow> zfirst ops k r = None \<Longrightarrow> dom (zv r k) = {}"
  using zset_laws_zfirst[where ops = ops and zv = zv and r = r and k = k] by simp_all

section \<open>The scripts\<close>

definition lua_admit ::
  "'r redis_ops \<Rightarrow> rat \<Rightarrow> rat \<Rightarrow> string \<Rightarrow> rat \<Rightarrow> string \<Rightarrow> int \<Rightarrow> 'r \<Rightarrow> int \<times> 'r" where
  "lua_admit ops now expires member ttl key limit r =
     (if limit \<le> 0 then (- 1, r)
      else (let r1 = zremrangebyscore ops key 0 now r;
                count = zcard ops key r1
            in (count, if count < limit then zexpire ops key ttl (zadd ops key expires member r1)
                       else r1)))"

definition capacity_acquire_pair_lua ::
  "'r redis_ops \<Rightarrow> string \<Rightarrow> string \<Rightarrow> rat \<Rightarrow> rat \<Rightarrow> string \<Rightarrow> rat \<Rightarrow> int \<Rightarrow> int \<Rightarrow> 'r
     \<Rightarrow> (int \<times> int) \<times> 'r" where
  "capacity_acquire_pair_lua ops shared_key tenant_key now expires member ttl shared_limit tenant_limit r =
     (let (shared_count, r1) = lua_admit ops now expires member ttl shared_key shared_limit r
      in if shared_count < shared_limit
         then (let (tenant_count, r2) = lua_admit ops now expires member ttl tenant_key tenant_limit r1
               in ((shared_count, tenant_count),
                   if tenant_limit \<le> tenant_count then zrem ops shared_key member r2 else r2))
         else ((shared_count, - 1), r1))"

definition capacity_renew_lua ::
  "'r redis_ops \<Rightarrow> string list \<Rightarrow> rat \<Rightarrow> rat \<Rightarrow> string \<Rightarrow> rat \<Rightarrow> 'r \<Rightarrow> int \<times> 'r" where
  "capacity_renew_lua ops keys now expires member ttl r =
     (if list_ex (\<lambda>k. case zscore ops k member r of None \<Rightarrow> True | Some s \<Rightarrow> s \<le> now) keys
      then (0, r)
      else (1, fold (\<lambda>k r. zexpire ops k ttl (zadd_xx ops k expires member r)) keys r))"

definition capacity_release_lua :: "'r redis_ops \<Rightarrow> string list \<Rightarrow> string \<Rightarrow> 'r \<Rightarrow> int \<times> 'r" where
  "capacity_release_lua ops keys member r =
     (int (length keys), fold (\<lambda>k r. zrem ops k member r) keys r)"

text \<open>
  The sliding-window script: the loop over the keys with its accumulated \<open>min_remaining\<close> and
  \<open>remaining_values\<close>. Redis truncates a Lua number of the reply to an integer, so the earliest
  score is returned truncated; the remaining values of the keys not reached are reported as \<open>-1\<close>.
\<close>

record sliding_reply =
  sr_rejected :: int
  sr_earliest :: int
  sr_min_remaining :: int
  sr_remaining :: "int list"

fun lua_sliding_loop ::
  "'r redis_ops \<Rightarrow> rat \<Rightarrow> rat \<Rightarrow> rat \<Rightarrow> string \<Rightarrow> nat \<Rightarrow> (string \<times> int) list \<Rightarrow> int option \<Rightarrow> int list \<Rightarrow> 'r
     \<Rightarrow> sliding_reply \<times> 'r" where
  "lua_sliding_loop ops now start expire_s member i [] minr rem r =
     (\<lparr>sr_rejected = - 1, sr_earliest = 0,
       sr_min_remaining = (case minr of None \<Rightarrow> 0 | Some m \<Rightarrow> m), sr_remaining = rem\<rparr>, r)"
| "lua_sliding_loop ops now start expire_s member i ((key, limit) # ks) minr rem r =
     (let r1 = zremrangebyscore ops key 0 start r;
          count = zcard ops key r1
      in if limit \<le> count
         then (\<lparr>sr_rejected = int i,
                sr_earliest = py_trunc (case zfirst ops key r1 of Some (_, s) \<Rightarrow> s | None \<Rightarrow> start),
                sr_min_remaining = 0,
                sr_remaining = rem @ replicate (length ((key, limit) # ks)) (- 1)\<rparr>, r1)
         else (let remaining = limit - count - 1
               in lua_sliding_loop ops now start expire_s member (Suc i) ks
                    (case minr of None \<Rightarrow> Some remaining
                     | Some m \<Rightarrow> Some (if remaining < m then remaining else m))
                    (rem @ [remaining])
                    (zexpire ops key expire_s (zadd ops key now member r1))))"

definition sliding_window_check_lua ::
  "'r redis_ops \<Rightarrow> rat \<Rightarrow> rat \<Rightarrow> rat \<Rightarrow> string \<Rightarrow> (string \<times> int) list \<Rightarrow> 'r \<Rightarrow> sliding_reply \<times> 'r" where
  "sliding_window_check_lua ops now start expire_s member ks r =
     lua_sliding_loop ops now start expire_s member 0 ks None [] r"

section \<open>A database of association lists\<close>

text \<open>
  A concrete database on which the laws hold, for the concrete inputs of the witnesses: a dictionary
  of dictionaries from members to scores. It stands for the service, not for code of the repository.
\<close>

type_synonym alist_db = "(string, (string, rat) py_dict) py_dict"

definition db_get :: "string \<Rightarrow> alist_db \<Rightarrow> (string, rat) py_dict" where
  "db_get k r = (case dict_get r k of None \<Rightarrow> [] | Some z \<Rightarrow> z)"

definition min_entry :: "(string, rat) py_dict \<Rightarrow> (string \<times> rat) option" where
  "min_entry z = (case AList.clearjunk z of [] \<Rightarrow> None
     | e # es \<Rightarrow> Some (fold (\<lambda>x best. if snd x < snd best then x else best) es e))"

definition alist_ops :: "alist_db redis_ops" where
  "alist_ops = \<lparr>
     zremrangebyscore = (\<lambda>k lo hi r.
       dict_set k (filter (\<lambda>(m, s). \<not> (lo \<le> s \<and> s \<le> hi)) (AList.clearjunk (db_get k r))) r),
     zcard = (\<lambda>k r. int (length (AList.clearjunk (db_get k r)))),
     zadd = (\<lambda>k s m r. dict_set k (dict_set m s (db_get k r)) r),
     zadd_xx = (\<lambda>k s m r. if dict_get (db_get k r) m = None then r
                          else dict_set k (dict_set m s (db_get k r)) r),
     zrem = (\<lambda>k m r. dict_set k (dict_pop m (db_get k r)) r),
     zscore = (\<lambda>k m r. dict_get (db_get k r) m),
     zfirst = (\<lambda>k r. min_entry (db_get k r)),
     zexpire = (\<lambda>k t r. r)\<rparr>"

definition alist_view :: "alist_db \<Rightarrow> zview" where
  "alist_view r k = dict_get (db_get k r)"

lemma alist_view_set: "alist_view (dict_set k z r) = (alist_view r)(k := dict_get z)"
  by (rule ext) (simp add: alist_view_def db_get_def dict_get_set)

lemma fold_min_entry:
  "fold (\<lambda>x best. if snd x < snd best then x else best) es e \<in> insert e (set es) \<and>
   (\<forall>x \<in> insert e (set es). snd (fold (\<lambda>x best. if snd x < snd best then x else best) es e) \<le> snd (x :: string \<times> rat))"
proof (induction es arbitrary: e)
  case (Cons x es)
  show ?case using Cons.IH[of "if snd x < snd e then x else e"]
    by (cases "snd x < snd e") (auto dest: order.trans[OF _ less_imp_le])
qed simp

lemma min_entry_None: "min_entry z = None \<Longrightarrow> dom (dict_get z) = {}"
  by (auto simp: min_entry_def dom_map_of_conv_image_fst split: list.splits dest: arg_cong[of _ _ "\<lambda>z. fst ` set z"]
      simp del: clearjunk.simps simp: dom_clearjunk)

lemma min_entry_Some:
  assumes "min_entry z = Some (m, s)"
  shows "dict_get z m = Some s \<and> (\<forall>s' \<in> ran (dict_get z). s \<le> s')"
proof -
  obtain e es where c: "AList.clearjunk z = e # es"
    and f: "fold (\<lambda>x best. if snd x < snd best then x else best) es e = (m, s)"
    using assms by (auto simp: min_entry_def split: list.splits)
  have sets: "insert e (set es) = set (AList.clearjunk z)" using c by simp
  have d: "distinct (map fst (AList.clearjunk z))" by (rule distinct_clearjunk)
  note mn = fold_min_entry[of es e, unfolded f sets]
  from mn d have "dict_get (AList.clearjunk z) m = Some s" by simp
  moreover have "s \<le> s'" if s': "s' \<in> ran (dict_get (AList.clearjunk z))" for s'
  proof -
    from s' obtain m' where "dict_get (AList.clearjunk z) m' = Some s'" by (auto simp: ran_def)
    then have "(m', s') \<in> set (AList.clearjunk z)" by (rule map_of_SomeD)
    with mn show ?thesis by force
  qed
  ultimately show ?thesis by (simp add: map_of_clearjunk)
qed

lemma map_of_without:
  "dict_get (filter (\<lambda>(m, s). \<not> (lo \<le> s \<and> s \<le> hi)) (AList.clearjunk z)) = without_scores lo hi (dict_get z)"
proof
  fix m
  have "dict_ok (AList.clearjunk z)" by (simp add: dict_ok_def distinct_clearjunk)
  from dict_get_filter[OF this, of "\<lambda>m s. \<not> (lo \<le> s \<and> s \<le> hi)" m]
  show "dict_get (filter (\<lambda>(m, s). \<not> (lo \<le> s \<and> s \<le> hi)) (AList.clearjunk z)) m =
      without_scores lo hi (dict_get z) m"
    by (auto simp: without_scores_def map_of_clearjunk split: option.splits)
qed

lemma length_clearjunk_card: "length (AList.clearjunk z) = card (dom (dict_get z))"
proof -
  have "distinct (map fst (AList.clearjunk z))" by (rule distinct_clearjunk)
  then have "length (AList.clearjunk z) = card (fst ` set (AList.clearjunk z))"
    by (metis distinct_card length_map list.set_map)
  then show ?thesis by (simp add: dom_clearjunk dom_map_of_conv_image_fst)
qed

lemma alist_zset_laws: "zset_laws alist_ops alist_view"
  unfolding zset_laws_def
proof (intro conjI allI, goal_cases)
  case (2 r k lo hi)
  show ?case
    using map_of_without[of lo hi "db_get k r"] by (simp add: alist_ops_def alist_view_set) (simp add: alist_view_def)
next
  case (8 r k)
  show ?case
    using min_entry_None[of "db_get k r"] min_entry_Some[of "db_get k r"]
    by (auto simp: alist_ops_def alist_view_def split: option.splits)
qed (simp_all add: alist_ops_def alist_view_set map_of_without length_clearjunk_card fun_eq_iff
      finite_dom_map_of alist_view_def db_get_def dict_get_set dict_get_pop domIff split: option.splits)

section \<open>What the scripts do to the view\<close>

text \<open>The members of a key that are still alive at a time.\<close>

definition live :: "rat \<Rightarrow> (string \<rightharpoonup> rat) \<Rightarrow> string set" where
  "live now z = {m. \<exists>s. z m = Some s \<and> now < s}"

lemma without_scores_dom: "dom (without_scores lo hi z) = {m. \<exists>s. z m = Some s \<and> \<not> (lo \<le> s \<and> s \<le> hi)}"
  by (auto simp: without_scores_def dom_def split: option.splits if_splits)

text \<open>Scores are expiry times: none is negative.\<close>

definition scores_ok :: "(string \<rightharpoonup> rat) \<Rightarrow> bool" where
  "scores_ok z \<longleftrightarrow> (\<forall>s \<in> ran z. 0 \<le> s)"

lemma without_dead: "scores_ok z \<Longrightarrow> dom (without_scores 0 now z) = live now z"
proof -
  assume ok: "scores_ok z"
  have "\<not> s < 0" if "z m = Some s" for m s
    using ok ranI[of z, OF that] by (auto simp: scores_ok_def not_less)
  then show ?thesis by (auto simp: without_scores_dom live_def not_le)
qed

lemma lua_admit_view:
  assumes L: "zset_laws ops zv" and ok: "scores_ok (zv r key)" and pos: "0 < limit"
    and a: "lua_admit ops now expires member ttl key limit r = (count, r')"
  shows "count = int (card (live now (zv r key)))"
    and "zv r' = (zv r)(key := (if count < limit
           then (without_scores 0 now (zv r key))(member \<mapsto> expires)
           else without_scores 0 now (zv r key)))"
  using a pos
  by (auto simp: lua_admit_def Let_def zset_lawsD[OF L] without_dead[OF ok] split: if_splits)

lemma live_upd: "live now (z(m \<mapsto> s)) = (if now < s then insert m (live now z) else live now z - {m})"
  by (auto simp: live_def)

lemma live_del: "live now (z(m := None)) = live now z - {m}"
  by (auto simp: live_def)

lemma live_without: "live now (without_scores lo now z) = live now z"
  by (auto simp: live_def without_scores_def split: option.splits)

lemma finite_live: "zset_laws ops zv \<Longrightarrow> finite (live now (zv r k))"
  by (rule finite_subset[OF _ zset_lawsD(1)[of ops zv r k]]) (auto simp: live_def)

text \<open>
  C3: one evaluation of \<open>CAPACITY_ACQUIRE_PAIR_LUA\<close> admits all or nothing. The pair of counts it
  returns is under both limits exactly when the member ends up alive in both keys; otherwise it is
  in neither, so a busy tenant leaves no slot behind in the shared key. No live member of another
  request is lost, and no key grows beyond its limit.
\<close>

theorem capacity_acquire_pair_all_or_nothing:
  assumes "zset_laws ops zv" and "scores_ok (zv r sk)" and "scores_ok (zv r tk)" and "sk \<noteq> tk" and "now < expires"
    and "0 < slim" and "0 < tlim" and "zv r sk m = None" and "zv r tk m = None"
    and "capacity_acquire_pair_lua ops sk tk now expires m ttl slim tlim r = ((sc, tc), r')"
  shows "(if sc < slim \<and> tc < tlim
          then live now (zv r' sk) = insert m (live now (zv r sk)) \<and>
               live now (zv r' tk) = insert m (live now (zv r tk)) \<and>
               int (card (live now (zv r' sk))) \<le> slim \<and> int (card (live now (zv r' tk))) \<le> tlim
          else zv r' sk m = None \<and> zv r' tk m = None \<and>
               live now (zv r' sk) = live now (zv r sk) \<and> live now (zv r' tk) = live now (zv r tk))"
proof -
  note L = assms(1)
  obtain r1 where a1: "lua_admit ops now expires m ttl sk slim r = (sc, r1)"
    using assms(10) by (auto simp: capacity_acquire_pair_lua_def Let_def split: prod.splits if_splits)
  note v1 = lua_admit_view[OF L assms(2) assms(6) a1]
  have wn: "without_scores 0 now z m = None" if "z m = None" for z :: "string \<rightharpoonup> rat"
    using that by (simp add: without_scores_def)
  have new: "m \<notin> live now (zv r sk)" "m \<notin> live now (zv r tk)"
    using assms(8,9) by (simp_all add: live_def)
  show ?thesis
  proof (cases "sc < slim")
    case False
    with assms(10) a1 have "r' = r1" by (simp add: capacity_acquire_pair_lua_def)
    with False v1 assms(4,8,9) show ?thesis by (simp add: live_without wn)
  next
    case True
    obtain r2 where a2: "lua_admit ops now expires m ttl tk tlim r1 = (tc, r2)"
      and r': "r' = (if tlim \<le> tc then zrem ops sk m r2 else r2)"
      using assms(10) a1 True by (auto simp: capacity_acquire_pair_lua_def split: prod.splits)
    have r1: "zv r1 = (zv r)(sk := (without_scores 0 now (zv r sk))(m \<mapsto> expires))"
      using v1 True by simp
    have tk: "zv r1 tk = zv r tk" using r1 assms(4) by simp
    with assms(3) have "scores_ok (zv r1 tk)" by simp
    note v2 = lua_admit_view[OF L this assms(7) a2]
    have cards: "int (card (insert m (live now (zv r sk)))) = sc + 1"
      "int (card (insert m (live now (zv r tk)))) = tc + 1"
      using v1(1) v2(1) tk new finite_live[OF L] by simp_all
    show ?thesis
      using v2(2) r' r1 tk True cards assms(4,5,8,9)
      by (auto simp: zset_lawsD[OF L] live_upd live_del live_without wn new)
  qed
qed

theorem capacity_acquire_pair_witness:
  "let (c, r') = capacity_acquire_pair_lua alist_ops ''s'' ''t'' 10 20 ''m'' 10 4 1 []
   in c = (0, 0) \<and> live 10 (alist_view r' ''s'') = {''m''} \<and> live 10 (alist_view r' ''t'') = {''m''} \<and>
      int (card (live 10 (alist_view r' ''s''))) \<le> 4 \<and> int (card (live 10 (alist_view r' ''t''))) \<le> 1"
proof -
  obtain r' where e: "capacity_acquire_pair_lua alist_ops ''s'' ''t'' 10 20 ''m'' 10 4 1 [] = ((0, 0), r')"
    by (simp add: capacity_acquire_pair_lua_def lua_admit_def alist_ops_def db_get_def)
  have empty: "alist_view [] k = (\<lambda>x. None)" for k
    by (simp add: alist_view_def db_get_def fun_eq_iff)
  from capacity_acquire_pair_all_or_nothing[OF alist_zset_laws _ _ _ _ _ _ _ _ e]
  show ?thesis unfolding e by (simp add: empty scores_ok_def live_def)
qed

lemma renew_fold_view:
  assumes L: "zset_laws ops zv"
  shows "zv (fold (\<lambda>k r. zexpire ops k ttl (zadd_xx ops k e m r)) keys r) =
     (\<lambda>k. if k \<in> set keys \<and> m \<in> dom (zv r k) then (zv r k)(m \<mapsto> e) else zv r k)"
proof (induction keys arbitrary: r)
  case (Cons k keys)
  show ?case
    by (intro ext) (auto simp: Cons.IH zset_lawsD[OF L])
qed simp

text \<open>
  \<open>CAPACITY_RENEW_LUA\<close> answers 1 exactly when the member is still alive in every key, and
  then moves its score in each of them; otherwise it changes nothing. In both cases no member
  appears in a key that did not hold it: an expired or released lease is never resurrected.
\<close>

theorem capacity_renew_never_resurrects:
  assumes "zset_laws ops zv" and "capacity_renew_lua ops keys now expires m ttl r = (a, r')"
  shows "(a = 1 \<longleftrightarrow> list_all (\<lambda>k. m \<in> live now (zv r k)) keys) \<and>
         (a = 1 \<or> a = 0 \<and> r' = r) \<and>
         (\<forall>k. dom (zv r' k) = dom (zv r k)) \<and>
         list_all (\<lambda>k. a = 1 \<longrightarrow> zv r' k m = Some expires) keys"
proof -
  note L = assms(1)
  have live_iff: "list_ex (\<lambda>k. case zscore ops k m r of None \<Rightarrow> True | Some s \<Rightarrow> s \<le> now) keys \<longleftrightarrow>
      \<not> list_all (\<lambda>k. m \<in> live now (zv r k)) keys"
    by (auto simp: list_ex_iff list_all_iff live_def zset_lawsD[OF L] not_less split: option.splits)
  show ?thesis
  proof (cases "list_all (\<lambda>k. m \<in> live now (zv r k)) keys")
    case True
    then have d: "m \<in> dom (zv r k)" if "k \<in> set keys" for k
      using that by (auto simp: list_all_iff live_def)
    from True assms(2) live_iff have r': "a = 1"
      "r' = fold (\<lambda>k r. zexpire ops k ttl (zadd_xx ops k expires m r)) keys r"
      by (simp_all add: capacity_renew_lua_def)
    have "dom (zv r' k) = dom (zv r k)" for k
      unfolding r' renew_fold_view[OF L] by (auto simp: domIff)
    moreover have "zv r' k m = Some expires" if "k \<in> set keys" for k
      unfolding r' renew_fold_view[OF L] using d[OF that] that by simp
    ultimately show ?thesis using True r'(1) by (simp add: list_all_iff)
  next
    case False
    with assms(2) live_iff show ?thesis by (simp add: capacity_renew_lua_def list_all_iff)
  qed
qed

theorem capacity_renew_witness:
  "let r = [(''s'', [(''m'', 20)]), (''t'', [(''m'', 20)])];
       (a, r') = capacity_renew_lua alist_ops [''s'', ''t''] 15 30 ''m'' 10 r
   in a = 1 \<and> alist_view r' ''s'' ''m'' = Some 30 \<and> alist_view r' ''t'' ''m'' = Some 30"
proof -
  let ?r = "[(''s'', [(''m'', 20)]), (''t'', [(''m'', 20)])] :: alist_db"
  obtain r' where e: "capacity_renew_lua alist_ops [''s'', ''t''] 15 30 ''m'' 10 ?r = (1, r')"
    by (simp add: capacity_renew_lua_def alist_ops_def db_get_def)
  from capacity_renew_never_resurrects[OF alist_zset_laws e]
  show ?thesis unfolding Let_def e by simp
qed

lemma capacity_release_view:
  assumes L: "zset_laws ops zv"
  shows "zv (snd (capacity_release_lua ops keys m r)) =
     (\<lambda>k. if k \<in> set keys then (zv r k)(m := None) else zv r k)"
proof -
  have "zv (fold (\<lambda>k r. zrem ops k m r) keys r) =
     (\<lambda>k. if k \<in> set keys then (zv r k)(m := None) else zv r k)"
    by (induction keys arbitrary: r) (auto simp: zset_lawsD[OF L] fun_eq_iff)
  then show ?thesis by (simp add: capacity_release_lua_def)
qed

section \<open>The sliding-window script\<close>

text \<open>The entries of a key inside the window, and whether one more fits.\<close>

definition has_room :: "('r \<Rightarrow> zview) \<Rightarrow> rat \<Rightarrow> 'r \<Rightarrow> string \<times> int \<Rightarrow> bool" where
  "has_room zv start r kl \<longleftrightarrow> int (card (live start (zv r (fst kl)))) < snd kl"

lemma has_room_cong:
  "zv r' (fst kl) = zv r (fst kl) \<Longrightarrow> has_room zv start r' kl = has_room zv start r kl"
  by (simp add: has_room_def)

lemma lua_sliding_loop_spec:
  assumes L: "zset_laws ops zv"
  shows "lua_sliding_loop ops now start ex m i ks minr rem r = (rep, r') \<Longrightarrow>
     distinct (map fst ks) \<Longrightarrow> (\<forall>kl \<in> set ks. scores_ok (zv r (fst kl))) \<Longrightarrow>
     (let ok = takeWhile (has_room zv start r) ks
      in sr_rejected rep = (if length ok = length ks then - 1 else int (i + length ok)) \<and>
         (\<forall>kl \<in> set ok. zv r' (fst kl) = (without_scores 0 start (zv r (fst kl)))(m \<mapsto> now)) \<and>
         (\<forall>k. k \<notin> fst ` set ok \<longrightarrow> live start (zv r' k) = live start (zv r k)) \<and>
         (\<forall>k. k \<notin> fst ` set ks \<longrightarrow> zv r' k = zv r k))"
proof (induction ks arbitrary: i minr rem r)
  case (Cons kl ks)
  obtain key limit where kl: "kl = (key, limit)" by (cases kl)
  let ?r1 = "zremrangebyscore ops key 0 start r"
  have cnt: "zcard ops key ?r1 = int (card (live start (zv r key)))"
    using Cons.prems(3) by (simp add: kl zset_lawsD[OF L] without_dead)
  show ?case
  proof (cases "has_room zv start r kl")
    case False
    with Cons.prems(1) cnt show ?thesis
      by (auto simp: kl Let_def has_room_def zset_lawsD[OF L] live_without
          split: prod.splits if_splits)
  next
    case True
    let ?r2 = "zexpire ops key ex (zadd ops key now m ?r1)"
    have v2: "zv ?r2 = (zv r)(key := (without_scores 0 start (zv r key))(m \<mapsto> now))"
      by (simp add: zset_lawsD[OF L])
    have room: "has_room zv start ?r2 x = has_room zv start r x" if "x \<in> set ks" for x
      using that Cons.prems(2) by (intro has_room_cong) (auto simp: v2 kl)
    have tw: "takeWhile (has_room zv start ?r2) ks = takeWhile (has_room zv start r) ks"
      by (rule takeWhile_cong) (simp_all add: room)
    from True Cons.prems(1) cnt obtain i' mi re where
      rec: "lua_sliding_loop ops now start ex m (Suc i) ks mi re ?r2 = (rep, r')"
      by (auto simp: kl Let_def has_room_def)
    have neq: "fst x \<noteq> key" if "x \<in> set ks" for x
      using Cons.prems(2) that by (auto simp: kl)
    have sub: "x \<in> set ks" if "x \<in> set (takeWhile (has_room zv start r) ks)" for x
      using set_takeWhileD[OF that] by simp
    have "\<forall>kl \<in> set ks. scores_ok (zv ?r2 (fst kl))"
      using Cons.prems(3) neq by (simp add: v2)
    moreover have "distinct (map fst ks)" using Cons.prems(2) by simp
    ultimately have ih:
      "sr_rejected rep = (if length (takeWhile (has_room zv start r) ks) = length ks then - 1
         else int (Suc i + length (takeWhile (has_room zv start r) ks)))"
      "\<forall>x \<in> set (takeWhile (has_room zv start r) ks).
         zv r' (fst x) = (without_scores 0 start (zv ?r2 (fst x)))(m \<mapsto> now)"
      "\<forall>k. k \<notin> fst ` set (takeWhile (has_room zv start r) ks) \<longrightarrow>
         live start (zv r' k) = live start (zv ?r2 k)"
      "\<forall>k. k \<notin> fst ` set ks \<longrightarrow> zv r' k = zv ?r2 k"
      using Cons.IH[OF rec] unfolding Let_def tw by blast+
    have key: "zv r' key = (without_scores 0 start (zv r key))(m \<mapsto> now)"
    proof -
      have "key \<notin> fst ` set ks" using Cons.prems(2) by (simp add: kl)
      with ih(4) have "zv r' key = zv ?r2 key" by blast
      then show ?thesis by (simp only: v2 fun_upd_same)
    qed
    have old: "zv ?r2 k = zv r k" if "k \<noteq> key" for k
      using that by (simp add: v2)
    have "\<forall>x \<in> set (takeWhile (has_room zv start r) ks).
        zv r' (fst x) = (without_scores 0 start (zv r (fst x)))(m \<mapsto> now)"
      using ih(2) neq sub old by metis
    with ih(1,3,4) key old True show ?thesis
      by (simp add: Let_def kl fun_upd_def cong: if_cong)
  qed
qed (auto simp: Let_def)

text \<open>
  The sliding-window script admits (index \<open>-1\<close>) exactly when every key has room in the window;
  otherwise it reports the first key without room. The keys before that one have recorded the
  request by then, although it is rejected, and no other key records it.
\<close>

theorem sliding_script_charges_prefix:
  assumes "zset_laws ops zv" and "distinct (map fst ks)"
    and "list_all (\<lambda>kl. scores_ok (zv r (fst kl)) \<and> zv r (fst kl) m = None) ks" and "start < now"
    and "sliding_window_check_lua ops now start ex m ks r = (rep, r')"
  shows "let ok = takeWhile (has_room zv start r) ks
         in sr_rejected rep = (if length ok = length ks then - 1 else int (length ok)) \<and>
            list_all (\<lambda>kl. (m \<in> live start (zv r' (fst kl))) = (kl \<in> set ok)) ks"
proof -
  let ?ok = "takeWhile (has_room zv start r) ks"
  have "\<forall>kl \<in> set ks. scores_ok (zv r (fst kl))"
    using assms(3) by (simp add: list_all_iff)
  from lua_sliding_loop_spec[OF assms(1) assms(5)[unfolded sliding_window_check_lua_def] assms(2) this]
  have rej: "sr_rejected rep = (if length ?ok = length ks then - 1 else int (length ?ok))"
    and inn: "\<And>kl. kl \<in> set ?ok \<Longrightarrow> zv r' (fst kl) = (without_scores 0 start (zv r (fst kl)))(m \<mapsto> now)"
    and out: "\<And>k. k \<notin> fst ` set ?ok \<Longrightarrow> live start (zv r' k) = live start (zv r k)"
    by (simp_all add: Let_def)
  have "(m \<in> live start (zv r' (fst kl))) = (kl \<in> set ?ok)" if kl: "kl \<in> set ks" for kl
  proof (cases "kl \<in> set ?ok")
    case True
    with inn assms(4) show ?thesis by (simp add: live_def)
  next
    case False
    have "fst kl \<notin> fst ` set ?ok"
    proof
      assume "fst kl \<in> fst ` set ?ok"
      then obtain kl' where "kl' \<in> set ?ok" "fst kl' = fst kl" by auto
      then show False
        using False kl assms(2) set_takeWhileD[of kl'] by (metis eq_key_imp_eq_value prod.collapse)
    qed
    with out have "live start (zv r' (fst kl)) = live start (zv r (fst kl))" by blast
    moreover have "m \<notin> live start (zv r (fst kl))"
      using kl assms(3) by (auto simp: list_all_iff live_def)
    ultimately show ?thesis using False by simp
  qed
  with rej show ?thesis by (simp add: Let_def list_all_iff)
qed

theorem sliding_script_witness:
  "let r = [(''u'', []), (''t'', [(''old'', 95)])];
       (rep, r') = sliding_window_check_lua alist_ops 100 40 61 ''m'' [(''u'', 5), (''t'', 1)] r
   in sr_rejected rep = 1 \<and> ''m'' \<in> live 40 (alist_view r' ''u'') \<and> ''m'' \<notin> live 40 (alist_view r' ''t'')"
proof -
  let ?r = "[(''u'', []), (''t'', [(''old'', 95)])] :: alist_db"
  let ?ks = "[(''u'', 5), (''t'', 1)] :: (string \<times> int) list"
  obtain rep r' where e: "sliding_window_check_lua alist_ops 100 40 61 ''m'' ?ks ?r = (rep, r')"
    by (metis surj_pair)
  have v: "alist_view ?r ''u'' = (\<lambda>x. None)" "alist_view ?r ''t'' = [''old'' \<mapsto> 95]"
    by (simp_all add: alist_view_def db_get_def fun_eq_iff)
  then have "live 40 (alist_view ?r ''u'') = {}" "live 40 (alist_view ?r ''t'') = {''old''}"
    by (auto simp: live_def)
  then have room: "has_room alist_view 40 ?r (''u'', 5)" "\<not> has_room alist_view 40 ?r (''t'', 1)"
    by (simp_all add: has_room_def)
  have "list_all (\<lambda>kl. scores_ok (alist_view ?r (fst kl)) \<and> alist_view ?r (fst kl) ''m'' = None) ?ks"
    by (simp add: v scores_ok_def)
  from sliding_script_charges_prefix[OF alist_zset_laws _ this _ e]
  show ?thesis unfolding Let_def e by (simp add: room)
qed

end
