(* ===== verification/Admission.thy ===== *)
theory Admission
  imports Capacity Redis_Scripts
begin

text \<open>
  The admission controller (\<open>src/src/core/gateway/admission.py\<close>). A request acquires a slot of
  every budget of its list, in order: first the local counter of the process, where it may wait in
  a bounded queue, then the shared counter in Redis together with the tenant share, or the local
  tenant counter. If any step fails, everything acquired so far is released in reverse.

  The controller is one asyncio process: a coroutine runs undisturbed between two awaits, so the
  model is a list of request processes and a step function that executes one such section of one
  process. What the environment decides (the clock, a wake-up, a timeout, a cancellation, the
  outcome of a Redis call) is part of the event.
\<close>

section \<open>Local counters\<close>

record local_state =
  ls_limit :: int
  ls_queue_max :: int
  ls_queue_timeout_ms :: int
  ls_inflight :: int
  ls_queue_depth :: int

type_synonym slots = "(string, local_state) py_dict"

definition local_state_update :: "capacity_budget \<Rightarrow> local_state \<Rightarrow> local_state" where
  "local_state_update b st = st\<lparr>ls_limit := max (cb_limit b) 1, ls_queue_max := max (cb_queue_max b) 0,
     ls_queue_timeout_ms := max (cb_queue_timeout_ms b) 1\<rparr>"

definition local_state_of :: "capacity_budget \<Rightarrow> slots \<Rightarrow> local_state" where
  "local_state_of b sl = local_state_update b
     (case dict_get sl (cb_key b) of Some st \<Rightarrow> st
      | None \<Rightarrow> \<lparr>ls_limit = cb_limit b, ls_queue_max = cb_queue_max b,
          ls_queue_timeout_ms = cb_queue_timeout_ms b, ls_inflight = 0, ls_queue_depth = 0\<rparr>)"

datatype enter_result = Entered | Queued | Full

text \<open>\<open>_acquire_local\<close> up to its first wait.\<close>

definition enter_local :: "capacity_budget \<Rightarrow> slots \<Rightarrow> enter_result \<times> slots" where
  "enter_local b sl =
     (let st = local_state_of b sl
      in if ls_inflight st < ls_limit st
         then (Entered, dict_set (cb_key b) (st\<lparr>ls_inflight := ls_inflight st + 1\<rparr>) sl)
         else if ls_queue_max st \<le> 0 \<or> ls_queue_max st \<le> ls_queue_depth st
         then (Full, dict_set (cb_key b) st sl)
         else (Queued, dict_set (cb_key b) (st\<lparr>ls_queue_depth := ls_queue_depth st + 1\<rparr>) sl))"

text \<open>One turn of its waiting loop (\<open>timed_out\<close>: the wait ended with \<open>TimeoutError\<close>), and the \<open>finally\<close>
  of a waiter that leaves.\<close>

datatype wake_result = GotSlot | StillWaiting | Expired

definition leave_queue :: "string \<Rightarrow> slots \<Rightarrow> slots" where
  "leave_queue k sl = (case dict_get sl k of None \<Rightarrow> sl
     | Some st \<Rightarrow> dict_set k (st\<lparr>ls_queue_depth := max (ls_queue_depth st - 1) 0\<rparr>) sl)"

definition wake_local :: "string \<Rightarrow> py_time \<Rightarrow> py_time \<Rightarrow> bool \<Rightarrow> slots \<Rightarrow> wake_result \<times> slots" where
  "wake_local k deadline now timed_out sl =
     (case dict_get sl k of None \<Rightarrow> (StillWaiting, sl)
      | Some st \<Rightarrow>
          if timed_out then (Expired, leave_queue k sl)
          else if ls_inflight st < ls_limit st
          then (GotSlot, leave_queue k (dict_set k (st\<lparr>ls_inflight := ls_inflight st + 1\<rparr>) sl))
          else if deadline - now \<le> 0 then (Expired, leave_queue k sl)
          else (StillWaiting, sl))"

text \<open>\<open>_release_local\<close> and \<open>_release_tenant_local\<close> decrement alike.\<close>

definition release_slot :: "string \<Rightarrow> slots \<Rightarrow> slots" where
  "release_slot k sl = (case dict_get sl k of None \<Rightarrow> sl
     | Some st \<Rightarrow> dict_set k (st\<lparr>ls_inflight := max (ls_inflight st - 1) 0\<rparr>) sl)"

definition acquire_tenant_local :: "string \<Rightarrow> int \<Rightarrow> slots \<Rightarrow> bool \<times> slots" where
  "acquire_tenant_local k tenant_limit sl =
     (let st = (case dict_get sl k of Some st \<Rightarrow> st
                | None \<Rightarrow> \<lparr>ls_limit = tenant_limit, ls_queue_max = 0, ls_queue_timeout_ms = 1,
                            ls_inflight = 0, ls_queue_depth = 0\<rparr>);
          st1 = st\<lparr>ls_limit := tenant_limit\<rparr>
      in if ls_limit st1 \<le> ls_inflight st1 then (False, dict_set k st1 sl)
         else (True, dict_set k (st1\<lparr>ls_inflight := ls_inflight st1 + 1\<rparr>) sl))"

definition snapshot_slots :: "slots \<Rightarrow> (string, (string, int) py_dict) py_dict" where
  "snapshot_slots sl = map (\<lambda>(k, st). (k, [(''inflight'', ls_inflight st),
     (''queue_depth'', ls_queue_depth st), (''limit'', ls_limit st)])) sl"

section \<open>The load shedder\<close>

record load_shedder =
  sh_window :: rat
  sh_low_ms :: rat
  sh_normal_ms :: rat
  sh_high_ms :: rat
  sh_retry_after :: int
  sh_samples :: "(py_time \<times> rat) list"

definition mk_shedder :: "rat \<Rightarrow> rat \<Rightarrow> rat \<Rightarrow> rat \<Rightarrow> int \<Rightarrow> load_shedder" where
  "mk_shedder window low normal high retry =
     \<lparr>sh_window = max window 1, sh_low_ms = max low 1, sh_normal_ms = max normal 1,
      sh_high_ms = max high 1, sh_retry_after = max retry 1, sh_samples = []\<rparr>"

definition shedder_evict :: "py_time \<Rightarrow> load_shedder \<Rightarrow> load_shedder" where
  "shedder_evict now sh =
     sh\<lparr>sh_samples := dropWhile (\<lambda>(t, _). t < now - sh_window sh) (sh_samples sh)\<rparr>"

definition record_latency :: "py_time \<Rightarrow> rat \<Rightarrow> load_shedder \<Rightarrow> load_shedder" where
  "record_latency now latency sh =
     shedder_evict now (sh\<lparr>sh_samples := sh_samples sh @ [(now, max latency 0)]\<rparr>)"

definition p99_latency_ms :: "load_shedder \<Rightarrow> rat option" where
  "p99_latency_ms sh =
     (if sh_samples sh = [] then None
      else (let values = sort (map snd (sh_samples sh));
                index = max (\<lceil>rat_of_nat (length values) * (99 / 100)\<rceil> - 1) 0
            in Some (values ! nat (min index (int (length values) - 1)))))"

definition threshold_for_priority :: "int \<Rightarrow> load_shedder \<Rightarrow> rat" where
  "threshold_for_priority priority sh =
     (if priority \<le> 1 then sh_high_ms sh else if priority = 2 then sh_normal_ms sh else sh_low_ms sh)"

text \<open>\<open>maybe_reject\<close>: whether it returns a rejection, and the shedder after its eviction.\<close>

definition maybe_reject :: "py_time \<Rightarrow> int \<Rightarrow> load_shedder \<Rightarrow> bool \<times> load_shedder" where
  "maybe_reject now priority sh =
     (if priority \<le> 0 then (False, sh)
      else (let sh1 = shedder_evict now sh
            in (case p99_latency_ms sh1 of None \<Rightarrow> False
                | Some p \<Rightarrow> threshold_for_priority priority sh1 < p, sh1)))"

section \<open>The controller\<close>

record adm_config =
  ac_epoch :: string
  ac_lease_ttl_ms :: int
  ac_tenant_share :: rat
  ac_tenant_limits :: "(string, int) py_dict"
  ac_has_redis :: bool

definition mk_adm_config :: "string \<Rightarrow> int \<Rightarrow> rat \<Rightarrow> (string, int) py_dict \<Rightarrow> bool \<Rightarrow> adm_config" where
  "mk_adm_config epoch ttl share limits redis =
     \<lparr>ac_epoch = epoch, ac_lease_ttl_ms = max ttl 1000, ac_tenant_share = min (max share 0) 1,
      ac_tenant_limits = limits, ac_has_redis = redis\<rparr>"

definition redis_key :: "adm_config \<Rightarrow> string \<Rightarrow> string" where
  "redis_key cfg k = ''gateway:capacity:'' @ ac_epoch cfg @ '':global:'' @ k"

definition tenant_redis_key :: "adm_config \<Rightarrow> string \<Rightarrow> string \<Rightarrow> string" where
  "tenant_redis_key cfg tenant k =
     ''gateway:tenant-capacity:'' @ ac_epoch cfg @ '':'' @ tenant @ '':'' @ k"

definition tenant_local_key :: "string \<Rightarrow> string \<Rightarrow> string" where
  "tenant_local_key tenant k = ''tenant:'' @ tenant @ '':'' @ k"

definition tenant_limit_for :: "adm_config \<Rightarrow> capacity_budget \<Rightarrow> string \<Rightarrow> int" where
  "tenant_limit_for cfg b tenant =
     (case dict_get (ac_tenant_limits cfg) tenant of Some n \<Rightarrow> max n 1
      | None \<Rightarrow>
          (case dict_get (ac_tenant_limits cfg) (tenant_local_key tenant (cb_key b)) of
             Some n \<Rightarrow> max n 1
           | None \<Rightarrow> max \<lceil>of_int (cb_limit b) * ac_tenant_share cfg\<rceil> 1))"

section \<open>Request processes\<close>

record admission_request =
  rq_service :: string
  rq_class :: string
  rq_tenant :: string
  rq_priority :: int
  rq_degraded_open :: bool
  rq_enforced :: "capacity_budget list"
  rq_started :: py_time

text \<open>The three lists \<open>acquired_local\<close>, \<open>acquired_shared\<close> and \<open>acquired_tenant\<close> (whose entries are
  all of the kind \<open>"local"\<close>).\<close>

record holdings =
  hd_local :: "string list"
  hd_shared :: "(string \<times> string \<times> string) list"
  hd_tenant :: "string list"

definition no_holdings :: holdings where
  "no_holdings = \<lparr>hd_local = [], hd_shared = [], hd_tenant = []\<rparr>"

datatype release_op = ReleaseTenant string | ReleaseShared string string string | ReleaseLocal string

text \<open>\<open>_release_many\<close>: tenant leases, shared leases, local budgets, each list in reverse.\<close>

definition release_many :: "holdings \<Rightarrow> release_op list" where
  "release_many h = map ReleaseTenant (rev (hd_tenant h)) @
     map (\<lambda>(sk, tk, m). ReleaseShared sk tk m) (rev (hd_shared h)) @
     map ReleaseLocal (rev (hd_local h))"

datatype outcome = Released | Rejected string string | Cancelled

datatype proc =
    Next admission_request "capacity_budget list" holdings
  | Waiting admission_request capacity_budget py_time "capacity_budget list" holdings
  | TenantStep admission_request capacity_budget "capacity_budget list" holdings
  | Lease admission_request holdings
  | Unwinding "release_op list" outcome
  | Finished outcome

definition lifecycle_budget :: "capacity_budget list \<Rightarrow> bool" where
  "lifecycle_budget bs = list_ex (\<lambda>b.
     cb_scope b \<in> {''run'', ''provider'', ''capability'', ''job'', ''sse''} \<and>
     cb_key b = ''gateway.'' @ cb_scope b @ ''_inflight'') bs"

text \<open>The time a request may still queue: never less than a millisecond.\<close>

definition remaining_ms :: "capacity_budget \<Rightarrow> capacity_budget list \<Rightarrow> rat \<Rightarrow> int" where
  "remaining_ms b enforced elapsed_s =
     max 1 (min (cb_queue_timeout_ms b)
       (Min (set (map cb_queue_timeout_ms enforced)) - py_trunc (elapsed_s * 1000)))"

section \<open>Shared capacity\<close>

text \<open>
  How the Redis call of one request ends: the reply arrives; it fails before Redis ran the script;
  the script ran but the reply was lost (a timeout or a broken connection); or the request is
  cancelled, in which case the call is finished and the pair is released, unless that release
  fails. When the call itself fails while a cancellation is pending, its exception replaces the
  cancellation and is handled like any failed call.
\<close>

datatype eval_outcome = EvalReply | EvalFailed | EvalLost | EvalCancelled bool
  | EvalFailedCancelled

datatype shared_result =
  SharedGot string string string | SharedSkipped | SharedRejected string | SharedCancelled

definition acquire_shared_and_tenant ::
  "'r redis_ops \<Rightarrow> adm_config \<Rightarrow> capacity_budget \<Rightarrow> string \<Rightarrow> bool \<Rightarrow> int \<Rightarrow> string \<Rightarrow> eval_outcome \<Rightarrow> 'r
     \<Rightarrow> shared_result \<times> 'r" where
  "acquire_shared_and_tenant ops cfg b tenant degraded_open now_ms member how r =
     (let sk = redis_key cfg (cb_key b);
          tk = tenant_redis_key cfg tenant (cb_key b);
          tlimit = tenant_limit_for cfg b tenant;
          ((sc, tc), r1) = capacity_acquire_pair_lua ops sk tk (of_int now_ms)
             (of_int (now_ms + ac_lease_ttl_ms cfg)) member (of_int (ac_lease_ttl_ms cfg))
             (cb_limit b) tlimit r;
          released = snd (capacity_release_lua ops [sk, tk] member r1);
          degraded = (if degraded_open then SharedSkipped else SharedRejected ''GATEWAY_CAPACITY_DEGRADED'')
      in case how of
           EvalFailed \<Rightarrow> (degraded, r)
         | EvalLost \<Rightarrow> (degraded, r1)
         | EvalFailedCancelled \<Rightarrow> (degraded, snd (capacity_release_lua ops [sk, tk] member r))
         | EvalCancelled ok \<Rightarrow> (SharedCancelled, if ok then released else r1)
         | EvalReply \<Rightarrow>
             if cb_limit b \<le> sc then (SharedRejected ''GATEWAY_CAPACITY_EXHAUSTED'', r1)
             else if tlimit \<le> tc
             then (SharedRejected ''GATEWAY_TENANT_CAPACITY_EXHAUSTED'', released)
             else (SharedGot sk tk member, r1))"

section \<open>The system\<close>

record 'r adm_sys =
  sy_slots :: slots
  sy_tenants :: slots
  sy_redis :: 'r
  sy_shedder :: "load_shedder option"
  sy_procs :: "proc list"

datatype adm_event =
    EvStart admission_request py_time
  | EvEnter nat py_time
  | EvWake nat py_time bool
  | EvCancel nat
  | EvTenant nat int string eval_outcome
  | EvRelease nat py_time
  | EvUnwind nat bool

definition set_proc :: "nat \<Rightarrow> proc \<Rightarrow> 'r adm_sys \<Rightarrow> 'r adm_sys" where
  "set_proc i p s = s\<lparr>sy_procs := (sy_procs s)[i := p]\<rparr>"

definition unwind :: "holdings \<Rightarrow> outcome \<Rightarrow> proc" where
  "unwind h out = Unwinding (release_many h) out"

text \<open>The start of \<open>acquire\<close>: lifecycle budgets bypass the load shedder.\<close>

definition start_request :: "admission_request \<Rightarrow> py_time \<Rightarrow> 'r adm_sys \<Rightarrow> 'r adm_sys" where
  "start_request rq now s =
     (case (if lifecycle_budget (rq_enforced rq) then None else sy_shedder s) of
        None \<Rightarrow> s\<lparr>sy_procs := sy_procs s @ [Next rq (rq_enforced rq) no_holdings]\<rparr>
      | Some sh \<Rightarrow>
          (let (rejected, sh1) = maybe_reject now (rq_priority rq) sh
           in s\<lparr>sy_shedder := Some sh1,
                sy_procs := sy_procs s @
                  [if rejected then unwind no_holdings (Rejected (''load_shed.'' @ rq_service rq @ ''.'' @ rq_class rq)
                                                          ''GATEWAY_LOAD_SHED'')
                   else Next rq (rq_enforced rq) no_holdings]\<rparr>))"

text \<open>The head of the loop over the budgets: finished, or the next local counter.\<close>

definition enter_budget ::
  "nat \<Rightarrow> admission_request \<Rightarrow> capacity_budget list \<Rightarrow> holdings \<Rightarrow> py_time \<Rightarrow> 'r adm_sys \<Rightarrow> 'r adm_sys" where
  "enter_budget i rq todo h now s =
     (case todo of
        [] \<Rightarrow> set_proc i (Lease rq h) s
      | b # bs \<Rightarrow>
          (let (result, sl) = enter_local b (sy_slots s);
               k = cb_key b
           in set_proc i
                (case result of
                   Entered \<Rightarrow> TenantStep rq b bs (h\<lparr>hd_local := hd_local h @ [k]\<rparr>)
                 | Full \<Rightarrow> unwind h (Rejected k ''GATEWAY_CAPACITY_EXHAUSTED'')
                 | Queued \<Rightarrow> Waiting rq b
                     (now + of_int (remaining_ms b (rq_enforced rq) (now - rq_started rq)) / 1000) bs h)
                (s\<lparr>sy_slots := sl\<rparr>)))"

definition wake_waiter ::
  "nat \<Rightarrow> admission_request \<Rightarrow> capacity_budget \<Rightarrow> py_time \<Rightarrow> capacity_budget list \<Rightarrow> holdings \<Rightarrow> py_time
     \<Rightarrow> bool \<Rightarrow> 'r adm_sys \<Rightarrow> 'r adm_sys" where
  "wake_waiter i rq b deadline todo h now timed_out s =
     (let (result, sl) = wake_local (cb_key b) deadline now timed_out (sy_slots s)
      in set_proc i
           (case result of
              GotSlot \<Rightarrow> TenantStep rq b todo (h\<lparr>hd_local := hd_local h @ [cb_key b]\<rparr>)
            | Expired \<Rightarrow> unwind h (Rejected (cb_key b) ''GATEWAY_CAPACITY_EXHAUSTED'')
            | StillWaiting \<Rightarrow> Waiting rq b deadline todo h)
           (s\<lparr>sy_slots := sl\<rparr>))"

definition tenant_local_step ::
  "adm_config \<Rightarrow> nat \<Rightarrow> admission_request \<Rightarrow> capacity_budget \<Rightarrow> capacity_budget list \<Rightarrow> holdings
     \<Rightarrow> 'r adm_sys \<Rightarrow> 'r adm_sys" where
  "tenant_local_step cfg i rq b todo h s =
     (let tenant = or_str (rq_tenant rq) ''public'';
          k = tenant_local_key tenant (cb_key b);
          (ok, ts) = acquire_tenant_local k (tenant_limit_for cfg b tenant) (sy_tenants s)
      in set_proc i
           (if ok then Next rq todo (h\<lparr>hd_tenant := hd_tenant h @ [k]\<rparr>)
            else unwind h (Rejected (cb_key b) ''GATEWAY_TENANT_CAPACITY_EXHAUSTED''))
           (s\<lparr>sy_tenants := ts\<rparr>))"

definition tenant_step ::
  "'r redis_ops \<Rightarrow> adm_config \<Rightarrow> nat \<Rightarrow> admission_request \<Rightarrow> capacity_budget \<Rightarrow> capacity_budget list
     \<Rightarrow> holdings \<Rightarrow> int \<Rightarrow> string \<Rightarrow> eval_outcome \<Rightarrow> 'r adm_sys \<Rightarrow> 'r adm_sys" where
  "tenant_step ops cfg i rq b todo h now_ms member how s =
     (if ac_has_redis cfg \<and> cb_shared b
      then (let (result, r) = acquire_shared_and_tenant ops cfg b (or_str (rq_tenant rq) ''public'')
                   (rq_degraded_open rq) now_ms member how (sy_redis s);
                s1 = s\<lparr>sy_redis := r\<rparr>
            in case result of
                 SharedGot sk tk m \<Rightarrow>
                   set_proc i (Next rq todo (h\<lparr>hd_shared := hd_shared h @ [(sk, tk, m)]\<rparr>)) s1
               | SharedSkipped \<Rightarrow> tenant_local_step cfg i rq b todo h s1
               | SharedRejected code \<Rightarrow> set_proc i (unwind h (Rejected (cb_key b) code)) s1
               | SharedCancelled \<Rightarrow> set_proc i (unwind h Cancelled) s1)
      else tenant_local_step cfg i rq b todo h s)"

text \<open>\<open>_release\<close>: the latency is recorded (unless the request bypassed the shedder), then everything
  is released.\<close>

definition release_lease ::
  "nat \<Rightarrow> admission_request \<Rightarrow> holdings \<Rightarrow> py_time \<Rightarrow> 'r adm_sys \<Rightarrow> 'r adm_sys" where
  "release_lease i rq h now s =
     set_proc i (unwind h Released)
       (if lifecycle_budget (rq_enforced rq) then s
        else s\<lparr>sy_shedder := map_option (record_latency now ((now - rq_started rq) * 1000)) (sy_shedder s)\<rparr>)"

text \<open>One release of \<open>_release_many\<close>; a failing Redis release is logged and skipped.\<close>

definition unwind_step ::
  "'r redis_ops \<Rightarrow> nat \<Rightarrow> release_op list \<Rightarrow> outcome \<Rightarrow> bool \<Rightarrow> 'r adm_sys \<Rightarrow> 'r adm_sys" where
  "unwind_step ops i rops out redis_ok s =
     (case rops of
        [] \<Rightarrow> set_proc i (Finished out) s
      | op # rest \<Rightarrow> set_proc i (Unwinding rest out)
          (case op of
             ReleaseTenant k \<Rightarrow> s\<lparr>sy_tenants := release_slot k (sy_tenants s)\<rparr>
           | ReleaseLocal k \<Rightarrow> s\<lparr>sy_slots := release_slot k (sy_slots s)\<rparr>
           | ReleaseShared sk tk m \<Rightarrow>
               (if redis_ok
                then s\<lparr>sy_redis := snd (capacity_release_lua ops [sk, tk] m (sy_redis s))\<rparr> else s)))"

definition cancel_proc :: "nat \<Rightarrow> proc \<Rightarrow> 'r adm_sys \<Rightarrow> 'r adm_sys option" where
  "cancel_proc i p s =
     (case p of
        Next rq todo h \<Rightarrow> Some (set_proc i (unwind h Cancelled) s)
      | Waiting rq b deadline todo h \<Rightarrow>
          Some (set_proc i (unwind h Cancelled) (s\<lparr>sy_slots := leave_queue (cb_key b) (sy_slots s)\<rparr>))
      | _ \<Rightarrow> None)"

fun adm_exec :: "'r redis_ops \<Rightarrow> adm_config \<Rightarrow> adm_event \<Rightarrow> 'r adm_sys \<Rightarrow> 'r adm_sys option" where
  "adm_exec ops cfg (EvStart rq now) s = Some (start_request rq now s)"
| "adm_exec ops cfg (EvEnter i now) s =
     (if i < length (sy_procs s)
      then (case sy_procs s ! i of Next rq todo h \<Rightarrow> Some (enter_budget i rq todo h now s) | _ \<Rightarrow> None)
      else None)"
| "adm_exec ops cfg (EvWake i now timed_out) s =
     (if i < length (sy_procs s)
      then (case sy_procs s ! i of
              Waiting rq b deadline todo h \<Rightarrow> Some (wake_waiter i rq b deadline todo h now timed_out s)
            | _ \<Rightarrow> None)
      else None)"
| "adm_exec ops cfg (EvCancel i) s =
     (if i < length (sy_procs s) then cancel_proc i (sy_procs s ! i) s else None)"
| "adm_exec ops cfg (EvTenant i now_ms member how) s =
     (if i < length (sy_procs s)
      then (case sy_procs s ! i of
              TenantStep rq b todo h \<Rightarrow> Some (tenant_step ops cfg i rq b todo h now_ms member how s)
            | _ \<Rightarrow> None)
      else None)"
| "adm_exec ops cfg (EvRelease i now) s =
     (if i < length (sy_procs s)
      then (case sy_procs s ! i of Lease rq h \<Rightarrow> Some (release_lease i rq h now s)
            | Unwinding rops out \<Rightarrow> Some s | Finished out \<Rightarrow> Some s | _ \<Rightarrow> None)
      else None)"
| "adm_exec ops cfg (EvUnwind i redis_ok) s =
     (if i < length (sy_procs s)
      then (case sy_procs s ! i of
              Unwinding rops out \<Rightarrow> Some (unwind_step ops i rops out redis_ok s) | _ \<Rightarrow> None)
      else None)"

text \<open>The reachable systems, when every budget of every request satisfies \<open>P\<close>.\<close>

definition init_sys :: "'r \<Rightarrow> load_shedder option \<Rightarrow> 'r adm_sys" where
  "init_sys r sh = \<lparr>sy_slots = [], sy_tenants = [], sy_redis = r, sy_shedder = sh, sy_procs = []\<rparr>"

fun start_ok :: "(capacity_budget \<Rightarrow> bool) \<Rightarrow> adm_event \<Rightarrow> bool" where
  "start_ok P (EvStart rq now) = list_all P (rq_enforced rq)"
| "start_ok P ev = True"

inductive adm_reach ::
  "'r redis_ops \<Rightarrow> adm_config \<Rightarrow> (capacity_budget \<Rightarrow> bool) \<Rightarrow> 'r adm_sys \<Rightarrow> bool"
  for ops cfg P where
  init: "adm_reach ops cfg P (init_sys r sh)"
| step: "adm_reach ops cfg P s \<Longrightarrow> start_ok P ev \<Longrightarrow> adm_exec ops cfg ev s = Some s' \<Longrightarrow>
    adm_reach ops cfg P s'"

fun adm_run :: "'r redis_ops \<Rightarrow> adm_config \<Rightarrow> adm_event list \<Rightarrow> 'r adm_sys \<Rightarrow> 'r adm_sys option" where
  "adm_run ops cfg [] s = Some s"
| "adm_run ops cfg (ev # evs) s =
     (case adm_exec ops cfg ev s of None \<Rightarrow> None | Some s' \<Rightarrow> adm_run ops cfg evs s')"

lemma adm_run_reach:
  "adm_run ops cfg evs s = Some s' \<Longrightarrow> adm_reach ops cfg P s \<Longrightarrow> list_all (start_ok P) evs \<Longrightarrow>
     adm_reach ops cfg P s'"
  by (induction evs arbitrary: s) (auto split: option.splits intro: adm_reach.step)

section \<open>What the operations do to the counters\<close>

definition inflight_of :: "slots \<Rightarrow> string \<Rightarrow> int" where
  "inflight_of sl k = (case dict_get sl k of None \<Rightarrow> 0 | Some st \<Rightarrow> ls_inflight st)"

definition depth_of :: "slots \<Rightarrow> string \<Rightarrow> int" where
  "depth_of sl k = (case dict_get sl k of None \<Rightarrow> 0 | Some st \<Rightarrow> ls_queue_depth st)"

lemma local_state_of_counts:
  "ls_inflight (local_state_of b sl) = inflight_of sl (cb_key b)"
  "ls_queue_depth (local_state_of b sl) = depth_of sl (cb_key b)"
  "ls_limit (local_state_of b sl) = max (cb_limit b) 1"
  by (simp_all add: local_state_of_def local_state_update_def inflight_of_def depth_of_def
      split: option.splits)

lemma enter_local_counts:
  assumes "enter_local b sl = (res, sl')"
  shows "inflight_of sl' j = inflight_of sl j + (if res = Entered \<and> j = cb_key b then 1 else 0)"
    and "depth_of sl' j = depth_of sl j + (if res = Queued \<and> j = cb_key b then 1 else 0)"
  using assms local_state_of_counts[of b sl]
  by (auto simp: enter_local_def Let_def inflight_of_def depth_of_def dict_get_set
      split: if_splits option.splits)

lemma leave_queue_counts:
  "inflight_of (leave_queue k sl) j = inflight_of sl j"
  "depth_of (leave_queue k sl) j = (if j = k then max (depth_of sl j - 1) 0 else depth_of sl j)"
  by (auto simp: leave_queue_def inflight_of_def depth_of_def dict_get_set split: option.splits)

lemma wake_local_counts:
  assumes "wake_local k deadline now timed_out sl = (res, sl')"
  shows "inflight_of sl' j = inflight_of sl j + (if res = GotSlot \<and> j = k then 1 else 0)"
    and "depth_of sl' j = (if res \<noteq> StillWaiting \<and> j = k then max (depth_of sl j - 1) 0 else depth_of sl j)"
  using assms
  by (auto simp: wake_local_def leave_queue_counts split: option.splits if_splits)
    (auto simp: inflight_of_def depth_of_def dict_get_set)

lemma release_slot_counts:
  "inflight_of (release_slot k sl) j = (if j = k then max (inflight_of sl j - 1) 0 else inflight_of sl j)"
  "depth_of (release_slot k sl) j = depth_of sl j"
  by (auto simp: release_slot_def inflight_of_def depth_of_def dict_get_set split: option.splits)

lemma acquire_tenant_local_counts:
  assumes "acquire_tenant_local k n sl = (ok, sl')"
  shows "inflight_of sl' j = inflight_of sl j + (if ok \<and> j = k then 1 else 0)"
  using assms
  by (auto simp: acquire_tenant_local_def Let_def inflight_of_def dict_get_set
      split: if_splits option.splits)

subsection \<open>The slot pool interface\<close>

text \<open>
  A pool counts the slots in use per key; giving one back decrements a counter that never goes
  below zero. A client that gives back no more than it took finds exactly its slots returned.
\<close>

locale slot_pool =
  fixes used :: "'s \<Rightarrow> 'k \<Rightarrow> int"
    and give :: "'k \<Rightarrow> 's \<Rightarrow> 's"
  assumes used_give: "used (give k s) j = (if j = k then max (used s j - 1) 0 else used s j)"
begin

lemma give_many:
  "(\<And>j. int (count_list ks j) \<le> used s j) \<Longrightarrow>
     used (fold give ks s) j = used s j - int (count_list ks j)"
proof (induction ks arbitrary: s)
  case (Cons k ks)
  have "1 \<le> used s k" using Cons.prems[of k] by simp
  then have g: "used (give k s) j = used s j - (if j = k then 1 else 0)" for j
    by (simp add: used_give)
  have "int (count_list ks j) \<le> used (give k s) j" for j
    using Cons.prems[of j] by (cases "j = k") (simp_all add: g)
  from Cons.IH[OF this] g show ?case by simp
qed simp

lemma give_many_rev:
  "(\<And>j. int (count_list ks j) \<le> used s j) \<Longrightarrow>
     used (fold give (rev ks) s) j = used s j - int (count_list ks j)"
  using give_many[of "rev ks" s j] by simp

end

interpretation pool: slot_pool inflight_of release_slot
  by unfold_locales (rule release_slot_counts(1))

section \<open>Who holds what\<close>

fun proc_local :: "string \<Rightarrow> proc \<Rightarrow> nat" where
  "proc_local k (Next rq todo h) = count_list (hd_local h) k"
| "proc_local k (Waiting rq b deadline todo h) = count_list (hd_local h) k"
| "proc_local k (TenantStep rq b todo h) = count_list (hd_local h) k"
| "proc_local k (Lease rq h) = count_list (hd_local h) k"
| "proc_local k (Unwinding rops out) = count_list rops (ReleaseLocal k)"
| "proc_local k (Finished out) = 0"

fun proc_tenant :: "string \<Rightarrow> proc \<Rightarrow> nat" where
  "proc_tenant k (Next rq todo h) = count_list (hd_tenant h) k"
| "proc_tenant k (Waiting rq b deadline todo h) = count_list (hd_tenant h) k"
| "proc_tenant k (TenantStep rq b todo h) = count_list (hd_tenant h) k"
| "proc_tenant k (Lease rq h) = count_list (hd_tenant h) k"
| "proc_tenant k (Unwinding rops out) = count_list rops (ReleaseTenant k)"
| "proc_tenant k (Finished out) = 0"

fun proc_waits :: "string \<Rightarrow> proc \<Rightarrow> nat" where
  "proc_waits k (Waiting rq b deadline todo h) = (if cb_key b = k then 1 else 0)"
| "proc_waits k p = 0"

definition total :: "(proc \<Rightarrow> nat) \<Rightarrow> proc list \<Rightarrow> int" where
  "total f ps = (\<Sum>p\<leftarrow>ps. int (f p))"

lemma total_append [simp]: "total f (ps @ [p]) = total f ps + int (f p)"
  by (simp add: total_def)

lemma total_Cons [simp]: "total f (p # ps) = int (f p) + total f ps"
  by (simp add: total_def)

lemma total_Nil [simp]: "total f [] = 0"
  by (simp add: total_def)

lemma total_nonneg: "0 \<le> total f ps"
  by (induction ps) simp_all

lemma total_update:
  "i < length ps \<Longrightarrow> total f (ps[i := p]) = total f ps + int (f p) - int (f (ps ! i))"
  by (induction ps arbitrary: i) (auto split: nat.splits)

lemma total_ge: "i < length ps \<Longrightarrow> int (f (ps ! i)) \<le> total f ps"
proof (induction ps arbitrary: i)
  case (Cons p ps)
  then show ?case using total_nonneg[of f ps] by (cases i) (auto intro: add_increasing)
qed simp

lemma count_list_map_inj: "inj f \<Longrightarrow> count_list (map f xs) (f x) = count_list xs x"
  by (induction xs) (auto dest: injD)

lemma count_list_map_other: "(\<And>y. f y \<noteq> x) \<Longrightarrow> count_list (map f xs) x = 0"
  by (induction xs) auto

lemma release_many_counts [simp]:
  "count_list (release_many h) (ReleaseLocal k) = count_list (hd_local h) k"
  "count_list (release_many h) (ReleaseTenant k) = count_list (hd_tenant h) k"
proof -
  have i: "inj ReleaseLocal" "inj ReleaseTenant" by (auto intro: injI)
  show "count_list (release_many h) (ReleaseLocal k) = count_list (hd_local h) k"
    "count_list (release_many h) (ReleaseTenant k) = count_list (hd_tenant h) k"
    by (simp_all add: release_many_def count_list_map_inj[OF i(1)] count_list_map_inj[OF i(2)]
        count_list_map_other split: prod.splits)
qed

lemma unwind_counts [simp]:
  "proc_local k (unwind h out) = count_list (hd_local h) k"
  "proc_tenant k (unwind h out) = count_list (hd_tenant h) k"
  "proc_waits k (unwind h out) = 0"
  by (simp_all add: unwind_def)

definition accounted :: "'r adm_sys \<Rightarrow> bool" where
  "accounted s \<longleftrightarrow> (\<forall>k.
     inflight_of (sy_slots s) k = total (proc_local k) (sy_procs s) \<and>
     depth_of (sy_slots s) k = total (proc_waits k) (sy_procs s) \<and>
     inflight_of (sy_tenants s) k = total (proc_tenant k) (sy_procs s))"

lemma accountedD:
  assumes "accounted s"
  shows "inflight_of (sy_slots s) k = total (proc_local k) (sy_procs s)"
    and "depth_of (sy_slots s) k = total (proc_waits k) (sy_procs s)"
    and "inflight_of (sy_tenants s) k = total (proc_tenant k) (sy_procs s)"
  using assms by (simp_all add: accounted_def)

lemma accounted_set_proc:
  assumes "accounted s" "i < length (sy_procs s)" "sy_procs s ! i = p0"
    and "sy_procs s' = sy_procs s"
    and "\<And>k. inflight_of (sy_slots s') k = inflight_of (sy_slots s) k + int (proc_local k p) - int (proc_local k p0)"
    and "\<And>k. depth_of (sy_slots s') k = depth_of (sy_slots s) k + int (proc_waits k p) - int (proc_waits k p0)"
    and "\<And>k. inflight_of (sy_tenants s') k = inflight_of (sy_tenants s) k + int (proc_tenant k p) - int (proc_tenant k p0)"
  shows "accounted (set_proc i p s')"
  using assms by (simp add: accounted_def set_proc_def total_update)

lemma accounted_start: "accounted s \<Longrightarrow> accounted (start_request rq now s)"
  by (auto simp: accounted_def start_request_def no_holdings_def split: option.splits prod.splits)

lemma accounted_enter:
  assumes "accounted s" "i < length (sy_procs s)" "sy_procs s ! i = Next rq todo h"
  shows "accounted (enter_budget i rq todo h now s)"
proof (cases todo)
  case Nil
  then show ?thesis using assms by (auto simp: enter_budget_def intro!: accounted_set_proc)
next
  case (Cons b bs)
  obtain res sl where e: "enter_local b (sy_slots s) = (res, sl)" by fastforce
  show ?thesis
    using assms
    by (auto simp: Cons enter_budget_def e Let_def enter_local_counts[OF e]
        split: enter_result.split intro!: accounted_set_proc)
qed

lemma accounted_wake:
  assumes acc: "accounted s" and i: "i < length (sy_procs s)"
    and p: "sy_procs s ! i = Waiting rq b deadline todo h"
  shows "accounted (wake_waiter i rq b deadline todo h now timed_out s)"
proof -
  obtain res sl where e: "wake_local (cb_key b) deadline now timed_out (sy_slots s) = (res, sl)" by fastforce
  have "1 \<le> depth_of (sy_slots s) (cb_key b)"
    using total_ge[OF i, of "proc_waits (cb_key b)"] accountedD(2)[OF acc] p by simp
  then show ?thesis
    using acc i p
    by (auto simp: wake_waiter_def e wake_local_counts[OF e] split: wake_result.split
        intro!: accounted_set_proc)
qed

lemma accounted_cancel:
  assumes acc: "accounted s" and i: "i < length (sy_procs s)"
    and c: "cancel_proc i (sy_procs s ! i) s = Some s'"
  shows "accounted s'"
proof (cases "sy_procs s ! i")
  case (Waiting rq b deadline todo h)
  have "1 \<le> depth_of (sy_slots s) (cb_key b)"
    using total_ge[OF i, of "proc_waits (cb_key b)"] accountedD(2)[OF acc] Waiting by simp
  then show ?thesis
    using acc i c Waiting
    by (auto simp: cancel_proc_def leave_queue_counts intro!: accounted_set_proc)
qed (use acc i c in \<open>auto simp: cancel_proc_def intro!: accounted_set_proc\<close>)

lemma accounted_redis [simp]: "accounted (s\<lparr>sy_redis := r\<rparr>) = accounted s"
  by (simp add: accounted_def)

lemma accounted_shedder [simp]: "accounted (s\<lparr>sy_shedder := x\<rparr>) = accounted s"
  by (simp add: accounted_def)

lemma accounted_tenant_local:
  assumes "accounted s" "i < length (sy_procs s)" "sy_procs s ! i = TenantStep rq b todo h"
  shows "accounted (tenant_local_step cfg i rq b todo h s)"
proof -
  let ?k = "tenant_local_key (or_str (rq_tenant rq) ''public'') (cb_key b)"
  obtain ok sl where e: "acquire_tenant_local ?k (tenant_limit_for cfg b (or_str (rq_tenant rq) ''public''))
      (sy_tenants s) = (ok, sl)" by fastforce
  show ?thesis
    using assms
    by (auto simp: tenant_local_step_def Let_def e acquire_tenant_local_counts[OF e]
        intro!: accounted_set_proc)
qed

lemma accounted_tenant:
  assumes "accounted s" "i < length (sy_procs s)" "sy_procs s ! i = TenantStep rq b todo h"
  shows "accounted (tenant_step ops cfg i rq b todo h now_ms member how s)"
  using assms accounted_tenant_local[of "s\<lparr>sy_redis := r\<rparr>" i rq b todo h for r]
  by (auto simp: tenant_step_def Let_def intro!: accounted_set_proc accounted_tenant_local
      split: prod.splits shared_result.split)

lemma accounted_release:
  assumes "accounted s" "i < length (sy_procs s)" "sy_procs s ! i = Lease rq h"
  shows "accounted (release_lease i rq h now s)"
  using assms by (auto simp: release_lease_def intro!: accounted_set_proc)

lemma accounted_unwind:
  assumes acc: "accounted s" and i: "i < length (sy_procs s)" and p: "sy_procs s ! i = Unwinding rops out"
  shows "accounted (unwind_step ops i rops out redis_ok s)"
proof (cases rops)
  case Nil
  then show ?thesis using assms by (auto simp: unwind_step_def intro!: accounted_set_proc)
next
  case (Cons rop rest)
  have "1 \<le> inflight_of (sy_slots s) k" if "rop = ReleaseLocal k" for k
    using total_ge[OF i, of "proc_local k"] accountedD(1)[OF acc] p Cons that by simp
  moreover have "1 \<le> inflight_of (sy_tenants s) k" if "rop = ReleaseTenant k" for k
    using total_ge[OF i, of "proc_tenant k"] accountedD(3)[OF acc] p Cons that by simp
  ultimately show ?thesis
    using assms
    by (cases rop) (auto simp: Cons unwind_step_def release_slot_counts intro!: accounted_set_proc)
qed

lemma accounted_exec:
  assumes "accounted s" "adm_exec ops cfg ev s = Some s'"
  shows "accounted s'"
  using assms
  by (cases ev)
    (auto split: if_splits proc.splits
      intro: accounted_start accounted_enter accounted_wake accounted_cancel accounted_tenant
        accounted_release accounted_unwind)

lemma reach_accounted: "adm_reach ops cfg P s \<Longrightarrow> accounted s"
proof (induction rule: adm_reach.induct)
  case (init r sh)
  show ?case by (simp add: accounted_def init_sys_def inflight_of_def depth_of_def)
next
  case (step s ev s')
  then show ?case by (blast intro: accounted_exec)
qed

section \<open>Bounds\<close>

text \<open>Every budget used stays within given per-key maxima of the limit and of the queue.\<close>

definition budget_within :: "(string \<Rightarrow> int) \<Rightarrow> (string \<Rightarrow> int) \<Rightarrow> capacity_budget \<Rightarrow> bool" where
  "budget_within L Q b \<longleftrightarrow> max (cb_limit b) 1 \<le> L (cb_key b) \<and> max (cb_queue_max b) 0 \<le> Q (cb_key b)"

definition slots_within :: "(string \<Rightarrow> int) \<Rightarrow> (string \<Rightarrow> int) \<Rightarrow> slots \<Rightarrow> bool" where
  "slots_within L Q sl \<longleftrightarrow> (\<forall>k st. dict_get sl k = Some st \<longrightarrow>
     ls_limit st \<le> L k \<and> ls_inflight st \<le> L k \<and> 0 \<le> L k \<and> ls_queue_depth st \<le> Q k \<and> 0 \<le> Q k)"

lemma slots_within_enter:
  assumes "slots_within L Q sl" "budget_within L Q b" "enter_local b sl = (res, sl')"
  shows "slots_within L Q sl'"
proof -
  let ?st = "local_state_of b sl"
  have w: "ls_limit ?st \<le> L (cb_key b)" "ls_inflight ?st \<le> L (cb_key b)" "0 \<le> L (cb_key b)"
    "ls_queue_depth ?st \<le> Q (cb_key b)" "0 \<le> Q (cb_key b)" "ls_queue_max ?st \<le> Q (cb_key b)"
    using assms(1,2)
    by (auto simp: slots_within_def budget_within_def local_state_of_def local_state_update_def
        split: option.splits)
  show ?thesis
    using assms(1,3) w
    by (auto simp: enter_local_def Let_def slots_within_def dict_get_set split: if_splits)
qed

lemma slots_within_leave: "slots_within L Q sl \<Longrightarrow> slots_within L Q (leave_queue k sl)"
  by (fastforce simp: slots_within_def leave_queue_def dict_get_set split: option.splits)

lemma slots_within_release: "slots_within L Q sl \<Longrightarrow> slots_within L Q (release_slot k sl)"
  by (fastforce simp: slots_within_def release_slot_def dict_get_set split: option.splits)

lemma slots_within_wake:
  assumes "slots_within L Q sl" "wake_local k deadline now timed_out sl = (res, sl')"
  shows "slots_within L Q sl'"
proof -
  have "slots_within L Q (dict_set k (st\<lparr>ls_inflight := ls_inflight st + 1\<rparr>) sl)"
    if "dict_get sl k = Some st" "ls_inflight st < ls_limit st" for st
    using assms(1) that by (fastforce simp: slots_within_def dict_get_set)
  with assms show ?thesis
    by (auto simp: wake_local_def slots_within_leave split: option.splits if_splits)
qed

fun proc_todo :: "proc \<Rightarrow> capacity_budget list" where
  "proc_todo (Next rq todo h) = todo"
| "proc_todo (Waiting rq b deadline todo h) = todo"
| "proc_todo (TenantStep rq b todo h) = todo"
| "proc_todo p = []"

lemma proc_todo_unwind [simp]: "proc_todo (unwind h out) = []"
  by (simp add: unwind_def)

definition sys_within :: "(string \<Rightarrow> int) \<Rightarrow> (string \<Rightarrow> int) \<Rightarrow> 'r adm_sys \<Rightarrow> bool" where
  "sys_within L Q s \<longleftrightarrow> slots_within L Q (sy_slots s) \<and>
     (\<forall>p \<in> set (sy_procs s). list_all (budget_within L Q) (proc_todo p))"

lemma sys_within_set_proc:
  assumes "sys_within L Q s" "slots_within L Q (sy_slots s')" "sy_procs s' = sy_procs s"
    and "list_all (budget_within L Q) (proc_todo p)"
  shows "sys_within L Q (set_proc i p s')"
  using assms set_update_subset_insert[of "sy_procs s" i p]
  by (auto simp: sys_within_def set_proc_def)

lemma sys_within_todo:
  "sys_within L Q s \<Longrightarrow> i < length (sy_procs s) \<Longrightarrow> sy_procs s ! i = p \<Longrightarrow>
     list_all (budget_within L Q) (proc_todo p) \<and> slots_within L Q (sy_slots s)"
  by (auto simp: sys_within_def)

lemma sys_within_start:
  "sys_within L Q s \<Longrightarrow> list_all (budget_within L Q) (rq_enforced rq) \<Longrightarrow>
     sys_within L Q (start_request rq now s)"
  by (auto simp: sys_within_def start_request_def split: option.splits prod.splits)

lemma sys_within_tenant_local:
  assumes "sys_within L Q s" "list_all (budget_within L Q) todo"
  shows "sys_within L Q (tenant_local_step cfg i rq b todo h s)"
proof -
  have "slots_within L Q (sy_slots s)" using assms(1) by (simp add: sys_within_def)
  with assms show ?thesis
    by (auto simp: tenant_local_step_def Let_def intro!: sys_within_set_proc[OF assms(1)] split: prod.splits)
qed

lemma sys_within_exec:
  assumes w: "sys_within L Q s" and ok: "start_ok (budget_within L Q) ev"
    and e: "adm_exec ops cfg ev s = Some s'"
  shows "sys_within L Q s'"
proof (cases ev)
  case (EvStart rq now)
  with w ok e show ?thesis by (auto intro: sys_within_start)
next
  case (EvEnter i now)
  with e obtain rq todo h where i: "i < length (sy_procs s)" and p: "sy_procs s ! i = Next rq todo h"
    and s': "s' = enter_budget i rq todo h now s" by (auto split: if_splits proc.splits)
  from sys_within_todo[OF w i p] s' show ?thesis
    by (auto simp: enter_budget_def Let_def intro!: sys_within_set_proc[OF w] dest: slots_within_enter
        split: list.splits prod.splits enter_result.split)
next
  case (EvWake i now timed_out)
  with e obtain rq b dl todo h where i: "i < length (sy_procs s)" and p: "sy_procs s ! i = Waiting rq b dl todo h"
    and s': "s' = wake_waiter i rq b dl todo h now timed_out s" by (auto split: if_splits proc.splits)
  from sys_within_todo[OF w i p] s' show ?thesis
    by (auto simp: wake_waiter_def intro!: sys_within_set_proc[OF w] dest: slots_within_wake
        split: prod.splits wake_result.split)
next
  case (EvCancel i)
  with e have i: "i < length (sy_procs s)" by (auto split: if_splits)
  from EvCancel e i sys_within_todo[OF w i refl] show ?thesis
    by (auto simp: cancel_proc_def slots_within_leave intro!: sys_within_set_proc[OF w] split: proc.splits)
next
  case (EvTenant i now_ms member how)
  with e obtain rq b todo h where i: "i < length (sy_procs s)" and p: "sy_procs s ! i = TenantStep rq b todo h"
    and s': "s' = tenant_step ops cfg i rq b todo h now_ms member how s" by (auto split: if_splits proc.splits)
  have r: "sys_within L Q (s\<lparr>sy_redis := r\<rparr>)" for r using w by (simp add: sys_within_def)
  from sys_within_todo[OF w i p] s' show ?thesis
    by (auto simp: tenant_step_def Let_def intro!: sys_within_set_proc[OF w] sys_within_tenant_local r w
        split: prod.splits shared_result.split)
next
  case (EvRelease i now)
  have "slots_within L Q (sy_slots s)" using w by (simp add: sys_within_def)
  with EvRelease e w show ?thesis
    by (auto simp: release_lease_def intro!: sys_within_set_proc[OF w] split: if_splits proc.splits)
next
  case (EvUnwind i redis_ok)
  with e obtain rops out where i: "i < length (sy_procs s)" and p: "sy_procs s ! i = Unwinding rops out"
    and s': "s' = unwind_step ops i rops out redis_ok s" by (auto split: if_splits proc.splits)
  from sys_within_todo[OF w i p] s' show ?thesis
    by (auto simp: unwind_step_def slots_within_release intro!: sys_within_set_proc[OF w]
        split: list.splits release_op.split)
qed

lemma reach_within: "adm_reach ops cfg (budget_within L Q) s \<Longrightarrow> sys_within L Q s"
proof (induction rule: adm_reach.induct)
  case (init r sh)
  show ?case by (simp add: sys_within_def init_sys_def slots_within_def)
next
  case (step s ev s')
  then show ?case by (blast intro: sys_within_exec)
qed

section \<open>Properties\<close>

text \<open>
  C1: at every moment of every interleaving of arrivals, waits, timeouts, cancellations, failing
  Redis calls and releases, the in-flight counter of a budget is the number of slots its requests
  hold, its queue depth the number of requests waiting, and likewise for the tenant counters: no
  slot is leaked or released twice.
\<close>

theorem admission_slots_accounted:
  assumes "adm_reach ops cfg P s"
  shows "inflight_of (sy_slots s) k = total (proc_local k) (sy_procs s) \<and>
         depth_of (sy_slots s) k = total (proc_waits k) (sy_procs s) \<and>
         inflight_of (sy_tenants s) k = total (proc_tenant k) (sy_procs s)"
  using accountedD[OF reach_accounted[OF assms]] by blast

text \<open>
  C2: when every budget used under a key has a limit of at most \<open>L\<close> and a queue of at most \<open>Q\<close>,
  no more than \<open>L\<close> requests hold a slot of the key and no more than \<open>Q\<close> wait for one.
\<close>

theorem admission_within_limits:
  assumes "adm_reach ops cfg (budget_within L Q) s"
  shows "total (proc_local k) (sy_procs s) \<le> max (L k) 0 \<and>
         total (proc_waits k) (sy_procs s) \<le> max (Q k) 0"
proof -
  have "slots_within L Q (sy_slots s)"
    using reach_within[OF assms] by (simp add: sys_within_def)
  then have "inflight_of (sy_slots s) k \<le> max (L k) 0" "depth_of (sy_slots s) k \<le> max (Q k) 0"
    by (auto simp: slots_within_def inflight_of_def depth_of_def split: option.splits)
  with accountedD[OF reach_accounted[OF assms]] show ?thesis by simp
qed

subsection \<open>Unwinding\<close>

definition local_keys :: "release_op list \<Rightarrow> string list" where
  "local_keys rops = concat (map (\<lambda>rop. case rop of ReleaseLocal k \<Rightarrow> [k] | _ \<Rightarrow> []) rops)"

definition tenant_keys :: "release_op list \<Rightarrow> string list" where
  "tenant_keys rops = concat (map (\<lambda>rop. case rop of ReleaseTenant k \<Rightarrow> [k] | _ \<Rightarrow> []) rops)"

lemma count_local_keys: "count_list (local_keys rops) k = count_list rops (ReleaseLocal k)"
  by (induction rops) (auto simp: local_keys_def split: release_op.splits)

lemma count_tenant_keys: "count_list (tenant_keys rops) k = count_list rops (ReleaseTenant k)"
  by (induction rops) (auto simp: tenant_keys_def split: release_op.splits)

lemma run_unwind:
  "i < length (sy_procs s) \<Longrightarrow> sy_procs s ! i = Unwinding rops out \<Longrightarrow> length oks = Suc (length rops) \<Longrightarrow>
     \<exists>s'. adm_run ops cfg (map (EvUnwind i) oks) s = Some s' \<and>
       sy_procs s' = (sy_procs s)[i := Finished out] \<and>
       sy_slots s' = fold release_slot (local_keys rops) (sy_slots s) \<and>
       sy_tenants s' = fold release_slot (tenant_keys rops) (sy_tenants s)"
proof (induction rops arbitrary: s oks)
  case Nil
  then show ?case
    by (cases oks) (auto simp: unwind_step_def set_proc_def local_keys_def tenant_keys_def)
next
  case (Cons rop rest)
  obtain ok oks' where oks: "oks = ok # oks'" "length oks' = Suc (length rest)"
    using Cons.prems(3) by (cases oks) auto
  let ?s1 = "unwind_step ops i (rop # rest) out ok s"
  have p1: "sy_procs ?s1 = (sy_procs s)[i := Unwinding rest out]"
    by (auto simp: unwind_step_def set_proc_def split: release_op.splits)
  then have "i < length (sy_procs ?s1)" "sy_procs ?s1 ! i = Unwinding rest out"
    using Cons.prems(1) by simp_all
  from Cons.IH[OF this oks(2)] obtain s' where
    r: "adm_run ops cfg (map (EvUnwind i) oks') ?s1 = Some s'"
    and p': "sy_procs s' = (sy_procs s)[i := Finished out]"
    and sl: "sy_slots s' = fold release_slot (local_keys rest) (sy_slots ?s1)"
    and tn: "sy_tenants s' = fold release_slot (tenant_keys rest) (sy_tenants ?s1)"
    unfolding p1 by auto
  from r Cons.prems oks(1) have "adm_run ops cfg (map (EvUnwind i) oks) s = Some s'"
    by simp
  moreover have "sy_slots s' = fold release_slot (local_keys (rop # rest)) (sy_slots s)"
    "sy_tenants s' = fold release_slot (tenant_keys (rop # rest)) (sy_tenants s)"
    unfolding sl tn
    by (simp_all add: unwind_step_def set_proc_def local_keys_def tenant_keys_def split: release_op.splits)
  ultimately show ?case using p' by blast
qed

text \<open>
  Releasing a lease, or unwinding a rejected or cancelled acquisition, always comes to an end,
  one step per entry and a last one, whether or not the Redis releases succeed; when it has ended,
  each counter has dropped by exactly the slots that were held.
\<close>

theorem unwinding_returns_everything:
  assumes "adm_reach ops cfg P s" and "i < length (sy_procs s)"
    and "sy_procs s ! i = Unwinding rops out" and "length oks = Suc (length rops)"
  shows "\<exists>s'. adm_run ops cfg (map (EvUnwind i) oks) s = Some s' \<and>
           sy_procs s' = (sy_procs s)[i := Finished out] \<and>
           inflight_of (sy_slots s') k = inflight_of (sy_slots s) k - int (count_list rops (ReleaseLocal k)) \<and>
           inflight_of (sy_tenants s') k = inflight_of (sy_tenants s) k - int (count_list rops (ReleaseTenant k))"
proof -
  note acc = accountedD[OF reach_accounted[OF assms(1)]]
  have held: "int (count_list (local_keys rops) j) \<le> inflight_of (sy_slots s) j"
    "int (count_list (tenant_keys rops) j) \<le> inflight_of (sy_tenants s) j" for j
    using total_ge[OF assms(2), of "proc_local j"] total_ge[OF assms(2), of "proc_tenant j"]
    by (simp_all add: acc assms(3) count_local_keys count_tenant_keys)
  from run_unwind[OF assms(2-4), of ops cfg] obtain s' where
    "adm_run ops cfg (map (EvUnwind i) oks) s = Some s'" "sy_procs s' = (sy_procs s)[i := Finished out]"
    "sy_slots s' = fold release_slot (local_keys rops) (sy_slots s)"
    "sy_tenants s' = fold release_slot (tenant_keys rops) (sy_tenants s)" by blast
  with pool.give_many[OF held(1), of k] pool.give_many[OF held(2), of k]
  show ?thesis by (simp add: count_local_keys count_tenant_keys)
qed

subsection \<open>A sample run\<close>

definition sample_budget :: capacity_budget where
  "sample_budget = mk_budget ''gateway.total_inflight'' 1 4 3000 ''gateway'' ''default'' True False"

definition sample_request :: admission_request where
  "sample_request = \<lparr>rq_service = ''agent'', rq_class = ''sync'', rq_tenant = ''t1'', rq_priority = 2,
     rq_degraded_open = False, rq_enforced = [sample_budget], rq_started = 0\<rparr>"

definition sample_config :: adm_config where
  "sample_config = mk_adm_config ''e'' 30000 (1 / 5) [] False"

text \<open>The first request gets the slot and its lease, the second one queues, the first one leaves.\<close>

definition sample_events :: "adm_event list" where
  "sample_events = [EvStart sample_request 0, EvStart sample_request 0, EvEnter 0 0, EvEnter 1 0,
     EvTenant 0 0 ''m'' EvalReply, EvEnter 0 0, EvRelease 0 1]"

definition sample_sys :: "alist_db adm_sys" where
  "sample_sys = the (adm_run alist_ops sample_config sample_events (init_sys [] None))"

lemma sample_adm_run: "adm_run alist_ops sample_config sample_events (init_sys [] None) = Some sample_sys"
proof -
  have "adm_run alist_ops sample_config sample_events (init_sys [] None) \<noteq> None" by code_simp
  then show ?thesis by (simp add: sample_sys_def)
qed

lemma sample_reach:
  "P sample_budget \<Longrightarrow> adm_reach alist_ops sample_config P sample_sys"
  by (rule adm_run_reach[OF sample_adm_run adm_reach.init])
    (simp add: sample_events_def sample_request_def)

theorem admission_slots_accounted_witness:
  "let k = ''gateway.total_inflight''; s = sample_sys
   in inflight_of (sy_slots s) k = 1 \<and> total (proc_local k) (sy_procs s) = 1 \<and>
      depth_of (sy_slots s) k = 1 \<and> total (proc_waits k) (sy_procs s) = 1"
proof -
  have "inflight_of (sy_slots sample_sys) ''gateway.total_inflight'' = 1 \<and>
        depth_of (sy_slots sample_sys) ''gateway.total_inflight'' = 1" by code_simp
  with admission_slots_accounted[OF sample_reach[of "\<lambda>b. True"], of "''gateway.total_inflight''"]
  show ?thesis by (simp add: Let_def)
qed

theorem admission_within_limits_witness:
  "total (proc_local ''gateway.total_inflight'') (sy_procs sample_sys) \<le> 1 \<and>
   total (proc_waits ''gateway.total_inflight'') (sy_procs sample_sys) \<le> 4"
proof -
  have "budget_within (\<lambda>k. 1) (\<lambda>k. 4) sample_budget"
    by (simp add: budget_within_def sample_budget_def mk_budget_def)
  from admission_within_limits[OF sample_reach[of "budget_within (\<lambda>k. 1) (\<lambda>k. 4)", OF this]]
  show ?thesis by simp
qed

theorem unwinding_returns_everything_witness:
  "\<exists>s'. adm_run alist_ops sample_config (map (EvUnwind 0) [True, True, True]) sample_sys = Some s' \<and>
     inflight_of (sy_slots s') ''gateway.total_inflight'' = 0"
proof -
  let ?k = "''gateway.total_inflight''"
  let ?rops = "[ReleaseTenant (tenant_local_key ''t1'' ?k), ReleaseLocal ?k]"
  have f: "0 < length (sy_procs sample_sys)" "sy_procs sample_sys ! 0 = Unwinding ?rops Released"
    "inflight_of (sy_slots sample_sys) ?k = 1" by code_simp+
  have "length [True, True, True] = Suc (length ?rops)" by simp
  from unwinding_returns_everything[OF sample_reach[of "\<lambda>b. True"] f(1,2) this, of ?k] f(3)
  show ?thesis by auto
qed

section \<open>The shared counters\<close>

lemma redis_keys_differ: "redis_key cfg k \<noteq> tenant_redis_key cfg t k'"
  by (simp add: redis_key_def tenant_redis_key_def)

lemma tenant_limit_pos: "0 < tenant_limit_for cfg b t"
  by (simp add: tenant_limit_for_def less_max_iff_disj split: option.splits)

text \<open>
  When the reply of the acquire script arrives, the request holds a shared slot and a tenant slot
  in Redis exactly when the code records the pair as acquired; on a rejection neither key keeps its
  member.
\<close>

theorem shared_reply_all_or_nothing:
  assumes "zset_laws ops zv" and "sk = redis_key cfg (cb_key b)" and "tk = tenant_redis_key cfg t (cb_key b)"
    and "scores_ok (zv r sk)" and "scores_ok (zv r tk)" and "zv r sk m = None" and "zv r tk m = None"
    and "0 < cb_limit b" and "0 < ac_lease_ttl_ms cfg"
    and "acquire_shared_and_tenant ops cfg b t degraded now_ms m EvalReply r = (res, r')"
  shows "if res = SharedGot sk tk m
         then m \<in> live (of_int now_ms) (zv r' sk) \<and> m \<in> live (of_int now_ms) (zv r' tk)
         else zv r' sk m = None \<and> zv r' tk m = None"
proof -
  obtain sc tc r1 where script: "capacity_acquire_pair_lua ops sk tk (of_int now_ms)
      (of_int (now_ms + ac_lease_ttl_ms cfg)) m (of_int (ac_lease_ttl_ms cfg)) (cb_limit b)
      (tenant_limit_for cfg b t) r = ((sc, tc), r1)" by (metis surj_pair)
  have neq: "sk \<noteq> tk" using assms(2,3) redis_keys_differ by simp
  have "rat_of_int now_ms < of_int (now_ms + ac_lease_ttl_ms cfg)" using assms(9) by simp
  note pair = capacity_acquire_pair_all_or_nothing[OF assms(1,4,5) neq this assms(8) tenant_limit_pos
      assms(6,7) script]
  show ?thesis
    using assms(10) pair script neq
    by (auto simp: acquire_shared_and_tenant_def Let_def assms(2,3)
        capacity_release_view[OF assms(1)] split: if_splits)
qed

text \<open>
  When Redis has run the script but its reply is lost, the request is rejected as degraded (or
  admitted without the shared slot, when it may degrade open), the pair is never recorded as
  acquired, and the member it left in both keys stays alive until its lease expires, as nothing
  releases it.
\<close>

theorem lost_reply_keeps_shared_slot:
  assumes "zset_laws ops zv" and "sk = redis_key cfg (cb_key b)" and "tk = tenant_redis_key cfg t (cb_key b)"
    and "scores_ok (zv r sk)" and "scores_ok (zv r tk)" and "zv r sk m = None" and "zv r tk m = None"
    and "0 < cb_limit b" and "0 < ac_lease_ttl_ms cfg"
    and "int (card (live (of_int now_ms) (zv r sk))) < cb_limit b"
    and "int (card (live (of_int now_ms) (zv r tk))) < tenant_limit_for cfg b t"
    and "acquire_shared_and_tenant ops cfg b t degraded now_ms m EvalLost r = (res, r')"
  shows "res = (if degraded then SharedSkipped else SharedRejected ''GATEWAY_CAPACITY_DEGRADED'') \<and>
         m \<in> live (of_int now_ms) (zv r' sk) \<and> m \<in> live (of_int now_ms) (zv r' tk)"
proof -
  have neq: "sk \<noteq> tk" using assms(2,3) redis_keys_differ by simp
  obtain sc tc where script: "capacity_acquire_pair_lua ops sk tk (of_int now_ms)
      (of_int (now_ms + ac_lease_ttl_ms cfg)) m (of_int (ac_lease_ttl_ms cfg)) (cb_limit b)
      (tenant_limit_for cfg b t) r = ((sc, tc), r')"
    and res: "res = (if degraded then SharedSkipped else SharedRejected ''GATEWAY_CAPACITY_DEGRADED'')"
    using assms(12)
    by (auto simp: acquire_shared_and_tenant_def Let_def assms(2,3) split: prod.splits)
  have later: "rat_of_int now_ms < of_int (now_ms + ac_lease_ttl_ms cfg)" using assms(9) by simp
  obtain r1 where a1: "lua_admit ops (of_int now_ms) (of_int (now_ms + ac_lease_ttl_ms cfg)) m
      (of_int (ac_lease_ttl_ms cfg)) sk (cb_limit b) r = (sc, r1)"
    using script by (auto simp: capacity_acquire_pair_lua_def split: prod.splits if_splits)
  note v1 = lua_admit_view[OF assms(1,4,8) a1]
  with assms(10) have sc: "sc < cb_limit b" by simp
  obtain r2 where a2: "lua_admit ops (of_int now_ms) (of_int (now_ms + ac_lease_ttl_ms cfg)) m
      (of_int (ac_lease_ttl_ms cfg)) tk (tenant_limit_for cfg b t) r1 = (tc, r2)"
    using script a1 sc by (auto simp: capacity_acquire_pair_lua_def split: prod.splits)
  have tk: "zv r1 tk = zv r tk" using v1(2) neq by simp
  with assms(5) have "scores_ok (zv r1 tk)" by simp
  from lua_admit_view(1)[OF assms(1) this tenant_limit_pos a2] tk assms(11)
  have tc: "tc < tenant_limit_for cfg b t" by simp
  from capacity_acquire_pair_all_or_nothing[OF assms(1,4,5) neq later assms(8) tenant_limit_pos
      assms(6,7) script] sc tc res
  show ?thesis by simp
qed

definition shared_config :: adm_config where
  "shared_config = mk_adm_config ''e'' 30000 (1 / 5) [] True"

definition shared_budget :: capacity_budget where
  "shared_budget = mk_budget ''upstream.agent_runtime'' 8 32 3000 ''upstream'' ''default'' True True"

lemma empty_view: "alist_view [] k = (\<lambda>x. None)"
  by (simp add: alist_view_def db_get_def fun_eq_iff)

lemma shared_sample:
  "0 < cb_limit shared_budget" "0 < ac_lease_ttl_ms shared_config" "scores_ok (\<lambda>x. None)"
  "live n (\<lambda>x. None) = {}"
  by (simp_all add: shared_budget_def shared_config_def mk_budget_def mk_adm_config_def scores_ok_def live_def)

theorem shared_reply_witness:
  "let (res, r') = acquire_shared_and_tenant alist_ops shared_config shared_budget ''t1'' False 5 ''m'' EvalReply [];
       sk = redis_key shared_config (cb_key shared_budget);
       tk = tenant_redis_key shared_config ''t1'' (cb_key shared_budget)
   in if res = SharedGot sk tk ''m''
      then ''m'' \<in> live (of_int 5) (alist_view r' sk) \<and> ''m'' \<in> live (of_int 5) (alist_view r' tk)
      else alist_view r' sk ''m'' = None \<and> alist_view r' tk ''m'' = None"
proof -
  obtain res r' where e: "acquire_shared_and_tenant alist_ops shared_config shared_budget ''t1'' False 5 ''m'' EvalReply [] = (res, r')"
    by (metis surj_pair)
  from shared_reply_all_or_nothing[OF alist_zset_laws refl refl _ _ _ _ shared_sample(1,2) e]
  show ?thesis unfolding e Let_def prod.case by (simp add: empty_view shared_sample(3))
qed

theorem lost_reply_witness:
  "let (res, r') = acquire_shared_and_tenant alist_ops shared_config shared_budget ''t1'' False 5 ''m'' EvalLost []
   in res = SharedRejected ''GATEWAY_CAPACITY_DEGRADED'' \<and>
      ''m'' \<in> live (of_int 5) (alist_view r' (redis_key shared_config (cb_key shared_budget)))"
proof -
  obtain res r' where e: "acquire_shared_and_tenant alist_ops shared_config shared_budget ''t1'' False 5 ''m'' EvalLost [] = (res, r')"
    by (metis surj_pair)
  from lost_reply_keeps_shared_slot[OF alist_zset_laws refl refl _ _ _ _ shared_sample(1,2) _ _ e]
  show ?thesis unfolding e Let_def prod.case
    by (simp add: empty_view shared_sample tenant_limit_pos)
qed

section \<open>The latency window\<close>

lemma sorted_nth_count:
  fixes xs :: "'a :: linorder list"
  assumes "sorted xs" "i < length xs"
  shows "Suc i \<le> length (filter (\<lambda>x. x \<le> xs ! i) xs)"
proof -
  have "\<forall>x \<in> set (take (Suc i) xs). x \<le> xs ! i"
    using assms by (auto simp: in_set_conv_nth less_Suc_eq_le sorted_iff_nth_mono)
  then have "filter (\<lambda>x. x \<le> xs ! i) (take (Suc i) xs) = take (Suc i) xs" by simp
  moreover have "length (filter (\<lambda>x. x \<le> xs ! i) xs) \<ge> length (filter (\<lambda>x. x \<le> xs ! i) (take (Suc i) xs))"
    by (metis append_take_drop_id filter_append le_add1 length_append)
  ultimately show ?thesis using assms(2) by simp
qed

text \<open>
  The latency the shedder compares is one of the samples of the window, and at least 99 percent
  of the samples are no larger.
\<close>

theorem p99_is_percentile:
  assumes "p99_latency_ms sh = Some p"
  shows "p \<in> snd ` set (sh_samples sh) \<and>
    rat_of_nat (length (filter (\<lambda>x. snd x \<le> p) (sh_samples sh))) \<ge> 99 / 100 * rat_of_nat (length (sh_samples sh))"
proof -
  let ?v = "sort (map snd (sh_samples sh))"
  let ?n = "length ?v"
  let ?c = "\<lceil>rat_of_nat ?n * (99 / 100)\<rceil>"
  define i where "i = nat (min (max (?c - 1) 0) (int ?n - 1))"
  have ne: "sh_samples sh \<noteq> []" and p: "p = ?v ! i"
    using assms by (auto simp: p99_latency_ms_def Let_def i_def split: if_splits)
  have n: "0 < ?n" using ne by simp
  have "rat_of_nat ?n * (99 / 100) \<le> rat_of_nat ?n" by simp
  then have c: "?c \<le> int ?n" by (simp add: ceiling_le_iff)
  have "0 < rat_of_nat ?n * (99 / 100)" using n by simp
  then have "1 \<le> ?c" by (simp add: one_le_ceiling)
  then have i: "i < ?n" "?c = int (Suc i)"
    using c n unfolding i_def by linarith+
  have "rat_of_nat ?n * (99 / 100) \<le> of_int ?c" by (rule le_of_int_ceiling)
  also have "\<dots> \<le> rat_of_nat (length (filter (\<lambda>x. x \<le> p) ?v))"
    using sorted_nth_count[OF sorted_sort i(1)] i(2) unfolding p by (metis of_int_of_nat_eq of_nat_le_iff)
  also have "length (filter (\<lambda>x. x \<le> p) ?v) = length (filter (\<lambda>x. snd x \<le> p) (sh_samples sh))"
    by (simp add: filter_sort filter_map comp_def)
  finally have "rat_of_nat (length (filter (\<lambda>x. snd x \<le> p) (sh_samples sh))) \<ge> 99 / 100 * rat_of_nat (length (sh_samples sh))"
    by (simp add: mult.commute)
  moreover have "p \<in> set ?v" unfolding p using i(1) by (rule nth_mem)
  ultimately show ?thesis by simp
qed

theorem p99_is_percentile_witness:
  "let sh = record_latency 2 500 (record_latency 1 20 (mk_shedder 30 5000 10000 20000 1))
   in p99_latency_ms sh = Some 500 \<and> 500 \<in> snd ` set (sh_samples sh)"
proof -
  let ?sh = "record_latency 2 500 (record_latency 1 20 (mk_shedder 30 5000 10000 20000 1))"
  have e: "p99_latency_ms ?sh = Some 500" by code_simp
  from p99_is_percentile[OF this] e show ?thesis unfolding Let_def by blast
qed

end
