(* ===== verification/Mcp_Resilience.thy ===== *)
theory Mcp_Resilience
  imports Gw_Prelude
begin

text \<open>
  Failure semantics of remote tool calls
  (\<open>src/packages/ai-gateway-core/src/ai_gateway_core/mcp/resilience.py\<close> with the vocabulary of
  \<open>outcomes.py\<close>): the classification of error codes, the decision whether a failed call may be
  replayed, and the circuit breaker with its single probe. Each method of the breaker holds its
  lock throughout, so a method is one function on the breaker; the clock and the random probe token
  are arguments.
\<close>

section \<open>Vocabulary\<close>

datatype failure_class = TransientTransport | PolicyUnavailable | InvalidInput | ProviderRefusal
  | SideEffectUnknownClass | PersistenceFailure | ModelError | ToolError | MaxIterations
  | RunBudgetExceeded | ApprovalPending | ResumeRequired | CompensationRequired | CancelledClass
  | InternalError

datatype retry_safety = Safe | NeedsIdempotency | Unsafe | NotApplicable

datatype recovery_action = Retry | Degrade | Pause | Resume | Abort | Compensate

datatype user_visibility = Info | Warning | Blocking

datatype side_effect_state = NoEffect | NotStarted | Committed | UnknownEffect

datatype mcp_failure_kind = Cancellation | Deadline | Transport | Protocol | Application
  | Authorization | SideEffectUnknown

datatype mcp_operation_kind = Read | Write | UnknownOperation

record mcp_policy =
  mp_kind :: mcp_operation_kind
  mp_operation_id :: string
  mp_circuit_scope :: string
  mp_idempotency_key :: "string option"
  mp_idempotency_supported :: bool
  mp_read_back_tool :: "string option"
  mp_read_back_argument :: string
  mp_compensation :: bool
  mp_max_attempts :: int

text \<open>\<open>__post_init__\<close>.\<close>

definition mk_policy :: "mcp_policy \<Rightarrow> mcp_policy" where
  "mk_policy p = p\<lparr>mp_max_attempts := max 1 (min 3 (mp_max_attempts p))\<rparr>"

definition side_effecting :: "mcp_policy \<Rightarrow> bool" where
  "side_effecting p \<longleftrightarrow> mp_kind p \<noteq> Read"

definition str_truthy :: "string option \<Rightarrow> bool" where
  "str_truthy v \<longleftrightarrow> opt_str v \<noteq> []"

definition can_idempotently_retry :: "mcp_policy \<Rightarrow> bool" where
  "can_idempotently_retry p \<longleftrightarrow>
     mp_idempotency_supported p \<and> str_truthy (mp_idempotency_key p) \<and> 1 < mp_max_attempts p"

definition read_back_available :: "mcp_policy \<Rightarrow> bool" where
  "read_back_available p \<longleftrightarrow> str_truthy (mp_read_back_tool p) \<and> mp_operation_id p \<noteq> []"

definition request_meta :: "mcp_policy \<Rightarrow> (string, string) py_dict option" where
  "request_meta p =
     (if mp_idempotency_supported p \<and> str_truthy (mp_idempotency_key p)
      then Some [(''idempotencyKey'', opt_str (mp_idempotency_key p)), (''operationId'', mp_operation_id p)]
      else None)"

record mcp_decision =
  md_failure_kind :: mcp_failure_kind
  md_cause :: mcp_failure_kind
  md_failure_class :: failure_class
  md_retry_safety :: retry_safety
  md_recovery_action :: recovery_action
  md_user_visibility :: user_visibility
  md_side_effect_state :: side_effect_state
  md_recoverable :: bool
  md_auto_retry :: bool
  md_operation_id :: string
  md_key_present :: bool
  md_read_back :: bool
  md_compensation :: bool

section \<open>Classification\<close>

definition deadline_codes :: "string list" where
  "deadline_codes = [''MCP_TIMEOUT'', ''MCP_HOST_DEADLINE'']"

definition transport_codes :: "string list" where
  "transport_codes =
     [''MCP_UPSTREAM_UNAVAILABLE'', ''MCP_DNS_UNAVAILABLE'', ''MCP_NOT_CONNECTED'', ''MCP_CIRCUIT_OPEN'']"

definition cancellation_codes :: "string list" where
  "cancellation_codes = [''MCP_CANCELLED'', ''MCP_CANCELLED_AFTER_DISPATCH'']"

definition application_codes :: "string list" where
  "application_codes = [''MCP_REMOTE_ERROR'', ''MCP_REMOTE_TOOL_ERROR'', ''MCP_UPSTREAM_REJECTED'']"

definition authorization_codes :: "string list" where
  "authorization_codes =
     [''MCP_CAPABILITY_TYPE_INVALID'', ''MCP_CAPABILITY_NOT_BOUND'', ''MCP_CAPABILITY_UNAVAILABLE'',
      ''MCP_CONNECTION_UNAVAILABLE'', ''MCP_SCHEMA_CHANGED'', ''MCP_RISK_CHANGED'',
      ''MCP_PRINCIPAL_POLICY_DENIED'', ''MCP_DELEGATED_PRINCIPAL_DENIED'',
      ''MCP_SERVICE_PRINCIPAL_DENIED'', ''MCP_PUBLIC_CHANNEL_DENIED'', ''MCP_SECRET_UNAVAILABLE'',
      ''MCP_ORIGIN_DENIED'', ''MCP_OAUTH_AUDIENCE_MISMATCH'', ''MCP_APPROVAL_REQUIRED'',
      ''MCP_AUTHORIZATION_UNAVAILABLE'', ''MCP_DNS_REBINDING_BLOCKED'', ''MCP_SSRF_BLOCKED'',
      ''MCP_TLS_REQUIRED'', ''MCP_URL_INVALID'', ''CONNECTOR_CAPABILITY_UNAVAILABLE'',
      ''CONNECTOR_PRINCIPAL_POLICY_DENIED'', ''CONNECTOR_DELEGATED_PRINCIPAL_DENIED'',
      ''CONNECTOR_SERVICE_PRINCIPAL_DENIED'', ''CONNECTOR_CHANNEL_DENIED'',
      ''CONNECTOR_PUBLIC_CHANNEL_DENIED'', ''CONNECTOR_SCOPE_DENIED'']"

definition normalize_code :: "string \<Rightarrow> string" where
  "normalize_code code = py_upper (or_str code ''MCP_ERROR'')"

definition failure_kind_for_code :: "string \<Rightarrow> mcp_failure_kind" where
  "failure_kind_for_code stable_code =
     (let code = normalize_code stable_code
      in if code \<in> set cancellation_codes then Cancellation
         else if code \<in> set deadline_codes then Deadline
         else if code \<in> set transport_codes then Transport
         else if code \<in> set application_codes then Application
         else if code \<in> set authorization_codes \<or> contains_sub code ''AUTH'' \<or> contains_sub code ''DENIED''
         then Authorization
         else Protocol)"

section \<open>The decision\<close>

definition decide_uncertain_write :: "mcp_policy \<Rightarrow> mcp_failure_kind \<Rightarrow> bool \<Rightarrow> mcp_decision" where
  "decide_uncertain_write p cause key_present =
     (let (action, auto, read_back, compensate) =
        (if can_idempotently_retry p then (Retry, True, False, False)
         else if read_back_available p then (Resume, False, True, False)
         else if mp_compensation p then (Compensate, False, False, True)
         else (Pause, False, False, False))
      in \<lparr>md_failure_kind = SideEffectUnknown, md_cause = cause, md_failure_class = SideEffectUnknownClass,
          md_retry_safety = NeedsIdempotency, md_recovery_action = action, md_user_visibility = Blocking,
          md_side_effect_state = UnknownEffect, md_recoverable = True, md_auto_retry = auto,
          md_operation_id = mp_operation_id p, md_key_present = key_present,
          md_read_back = read_back, md_compensation = compensate\<rparr>)"

text \<open>The remaining decisions never ask for a read-back or a compensation.\<close>

definition plain_decision ::
  "mcp_policy \<Rightarrow> bool \<Rightarrow> mcp_failure_kind \<Rightarrow> mcp_failure_kind \<Rightarrow> failure_class \<Rightarrow> retry_safety \<Rightarrow> recovery_action
     \<Rightarrow> user_visibility \<Rightarrow> side_effect_state \<Rightarrow> bool \<Rightarrow> bool \<Rightarrow> mcp_decision" where
  "plain_decision p key_present kind cause cls safety action vis effect recoverable auto =
     \<lparr>md_failure_kind = kind, md_cause = cause, md_failure_class = cls, md_retry_safety = safety,
      md_recovery_action = action, md_user_visibility = vis, md_side_effect_state = effect,
      md_recoverable = recoverable, md_auto_retry = auto, md_operation_id = mp_operation_id p,
      md_key_present = key_present, md_read_back = False, md_compensation = False\<rparr>"

definition decide_mcp_failure :: "string \<Rightarrow> mcp_policy \<Rightarrow> bool \<Rightarrow> mcp_decision" where
  "decide_mcp_failure stable_code p started =
     (let code = normalize_code stable_code;
          cause = failure_kind_for_code code;
          key = (str_truthy (mp_idempotency_key p) \<and> mp_idempotency_supported p)
      in if code = ''MCP_APPROVAL_REQUIRED''
         then plain_decision p key Authorization Authorization ApprovalPending NotApplicable Pause
                Blocking NotStarted True False
         else if cause = Cancellation \<and> (\<not> started \<or> \<not> side_effecting p)
         then plain_decision p key Cancellation Cancellation CancelledClass NotApplicable Abort Info
                (if \<not> started then NotStarted else NoEffect) False False
         else if code \<in> {''MCP_CIRCUIT_OPEN'', ''MCP_DNS_UNAVAILABLE'', ''MCP_NOT_CONNECTED''}
         then plain_decision p key cause cause TransientTransport Safe Retry Warning NotStarted True
                (code \<noteq> ''MCP_CIRCUIT_OPEN'' \<and> 1 < mp_max_attempts p)
         else if \<not> started \<and> cause \<in> {Deadline, Transport, Protocol}
         then plain_decision p key cause cause TransientTransport Safe Retry Warning NotStarted True False
         else if side_effecting p \<and> cause \<in> {Cancellation, Deadline, Transport, Protocol}
         then decide_uncertain_write p cause key
         else if cause \<in> {Deadline, Transport}
         then plain_decision p key cause cause TransientTransport Safe Retry Warning NoEffect True
                (1 < mp_max_attempts p)
         else if cause = Application
         then plain_decision p key cause cause ToolError Unsafe Abort Warning NoEffect False False
         else if cause = Authorization
         then plain_decision p key cause cause PolicyUnavailable Unsafe Abort Blocking NotStarted False False
         else plain_decision p key Protocol cause ToolError Unsafe Abort Warning NoEffect False False)"

definition counts_toward_circuit :: "mcp_decision \<Rightarrow> bool" where
  "counts_toward_circuit d \<longleftrightarrow> md_cause d \<in> {Deadline, Transport, Protocol}"

section \<open>The circuit breaker\<close>

datatype circuit_state = Closed | Open | HalfOpen

record mcp_breaker =
  br_threshold :: int
  br_cooldown :: rat
  br_state :: circuit_state
  br_streak :: int
  br_opened_at :: "py_time option"
  br_probe :: "string option"
  br_healthy_at :: "py_time option"
  br_touched_at :: py_time

record mcp_lease =
  le_state :: circuit_state
  le_probe :: "string option"

text \<open>\<open>MCPCircuitOpen(retry_after, state)\<close>.\<close>

record circuit_open =
  co_retry_after :: rat
  co_state :: circuit_state

definition mk_breaker :: "int \<Rightarrow> rat \<Rightarrow> py_time \<Rightarrow> mcp_breaker" where
  "mk_breaker threshold cooldown now =
     \<lparr>br_threshold = max 1 (min 20 threshold), br_cooldown = max 0 (min 3600 cooldown),
      br_state = Closed, br_streak = 0, br_opened_at = None, br_probe = None,
      br_healthy_at = None, br_touched_at = now\<rparr>"

definition mk_circuit_open :: "rat \<Rightarrow> circuit_state \<Rightarrow> circuit_open" where
  "mk_circuit_open retry st = \<lparr>co_retry_after = max 0 retry, co_state = st\<rparr>"

definition breaker_acquire ::
  "py_time \<Rightarrow> string \<Rightarrow> mcp_breaker \<Rightarrow> (circuit_open + mcp_lease) \<times> mcp_breaker" where
  "breaker_acquire now token br0 =
     (let br = br0\<lparr>br_touched_at := now\<rparr>
      in case br_state br of
           Closed \<Rightarrow> (Inr \<lparr>le_state = Closed, le_probe = None\<rparr>, br)
         | Open \<Rightarrow>
             (let elapsed = now - (case br_opened_at br of None \<Rightarrow> now | Some t \<Rightarrow> t)
              in if elapsed < br_cooldown br
                 then (Inl (mk_circuit_open (br_cooldown br - elapsed) Open), br)
                 else (Inr \<lparr>le_state = HalfOpen, le_probe = Some token\<rparr>,
                       br\<lparr>br_state := HalfOpen, br_probe := Some token\<rparr>))
         | HalfOpen \<Rightarrow> (Inl (mk_circuit_open 0 HalfOpen), br))"

definition owns_probe :: "mcp_lease \<Rightarrow> mcp_breaker \<Rightarrow> bool" where
  "owns_probe le br \<longleftrightarrow> str_truthy (le_probe le) \<and> le_probe le = br_probe br"

definition open_retry_after :: "py_time \<Rightarrow> mcp_breaker \<Rightarrow> rat" where
  "open_retry_after now br =
     (case br_opened_at br of
        Some t \<Rightarrow> if br_state br = Open then max 0 (br_cooldown br - (now - t)) else 0
      | None \<Rightarrow> 0)"

definition breaker_validate ::
  "py_time \<Rightarrow> mcp_lease \<Rightarrow> mcp_breaker \<Rightarrow> (circuit_open + unit) \<times> mcp_breaker" where
  "breaker_validate now le br0 =
     (let br = br0\<lparr>br_touched_at := now\<rparr>
      in if br_state br = Closed \<and> le_probe le = None \<or> br_state br = HalfOpen \<and> owns_probe le br
         then (Inr (), br)
         else (Inl (mk_circuit_open (open_retry_after now br) (br_state br)), br))"

definition record_success :: "py_time \<Rightarrow> mcp_lease \<Rightarrow> mcp_breaker \<Rightarrow> mcp_breaker" where
  "record_success now le br =
     (if br_state br = HalfOpen \<and> \<not> owns_probe le br then br
      else if br_state br = Open \<and> \<not> str_truthy (le_probe le) then br
      else if str_truthy (le_probe le) \<and> le_probe le \<noteq> br_probe br then br
      else br\<lparr>br_state := Closed, br_streak := 0, br_opened_at := None, br_probe := None,
              br_healthy_at := Some now, br_touched_at := now\<rparr>)"

definition record_failure :: "py_time \<Rightarrow> mcp_lease \<Rightarrow> mcp_breaker \<Rightarrow> mcp_breaker" where
  "record_failure now le br0 =
     (let br = br0\<lparr>br_touched_at := now\<rparr>
      in if str_truthy (le_probe le)
         then (if le_probe le \<noteq> br_probe br then br
               else br\<lparr>br_state := Open, br_opened_at := Some now, br_probe := None,
                       br_streak := br_threshold br\<rparr>)
         else if br_state br \<noteq> Closed then br
         else (let br1 = br\<lparr>br_streak := br_streak br + 1\<rparr>
               in if br_threshold br1 \<le> br_streak br1
                  then br1\<lparr>br_state := Open, br_opened_at := Some now\<rparr> else br1))"

definition record_neutral :: "py_time \<Rightarrow> mcp_lease \<Rightarrow> mcp_breaker \<Rightarrow> mcp_breaker" where
  "record_neutral now le br0 =
     (let br = br0\<lparr>br_touched_at := now\<rparr>
      in if br_state br = HalfOpen \<and> owns_probe le br
         then br\<lparr>br_state := Open, br_probe := None\<rparr> else br)"

record breaker_snapshot =
  bn_state :: circuit_state
  bn_streak :: int
  bn_retry_after :: rat
  bn_probe_owned :: bool
  bn_healthy_at :: "py_time option"

definition breaker_snap :: "py_time \<Rightarrow> mcp_breaker \<Rightarrow> breaker_snapshot" where
  "breaker_snap now br =
     \<lparr>bn_state = br_state br, bn_streak = br_streak br, bn_retry_after = open_retry_after now br,
      bn_probe_owned = (br_probe br \<noteq> None), bn_healthy_at = br_healthy_at br\<rparr>"

section \<open>Invariant\<close>

definition breaker_ok :: "mcp_breaker \<Rightarrow> bool" where
  "breaker_ok br \<longleftrightarrow> 1 \<le> br_threshold br \<and> 0 \<le> br_cooldown br \<and>
     (case br_state br of
        Closed \<Rightarrow> br_probe br = None \<and> br_opened_at br = None \<and> 0 \<le> br_streak br \<and> br_streak br < br_threshold br
      | Open \<Rightarrow> br_probe br = None \<and> br_opened_at br \<noteq> None \<and> br_threshold br \<le> br_streak br
      | HalfOpen \<Rightarrow> str_truthy (br_probe br) \<and> br_opened_at br \<noteq> None \<and> br_threshold br \<le> br_streak br)"

datatype breaker_op =
    OpAcquire py_time string
  | OpValidate py_time mcp_lease
  | OpSuccess py_time mcp_lease
  | OpFailure py_time mcp_lease
  | OpNeutral py_time mcp_lease

fun breaker_step :: "breaker_op \<Rightarrow> mcp_breaker \<Rightarrow> mcp_breaker" where
  "breaker_step (OpAcquire now token) br = snd (breaker_acquire now token br)"
| "breaker_step (OpValidate now le) br = snd (breaker_validate now le br)"
| "breaker_step (OpSuccess now le) br = record_success now le br"
| "breaker_step (OpFailure now le) br = record_failure now le br"
| "breaker_step (OpNeutral now le) br = record_neutral now le br"

text \<open>Fresh tokens are not empty.\<close>

fun op_ok :: "breaker_op \<Rightarrow> bool" where
  "op_ok (OpAcquire now token) \<longleftrightarrow> token \<noteq> []"
| "op_ok _ \<longleftrightarrow> True"

lemma str_truthy_Some [simp]: "str_truthy (Some s) \<longleftrightarrow> s \<noteq> []"
  by (simp add: str_truthy_def opt_str_def)

lemma str_truthy_None [simp]: "\<not> str_truthy None"
  by (simp add: str_truthy_def opt_str_def)

lemma mk_breaker_ok: "breaker_ok (mk_breaker threshold cooldown now)"
  by (simp add: breaker_ok_def mk_breaker_def less_max_iff_disj)

lemma breaker_acquire_ok: "breaker_ok br \<Longrightarrow> token \<noteq> [] \<Longrightarrow> breaker_ok (snd (breaker_acquire now token br))"
  by (auto simp: breaker_ok_def breaker_acquire_def Let_def split: circuit_state.splits)

lemma breaker_validate_ok: "breaker_ok br \<Longrightarrow> breaker_ok (snd (breaker_validate now le br))"
  by (simp add: breaker_ok_def breaker_validate_def Let_def split: circuit_state.splits)

lemma record_success_ok: "breaker_ok br \<Longrightarrow> breaker_ok (record_success now le br)"
  by (auto simp: breaker_ok_def record_success_def split: circuit_state.splits)

lemma record_failure_ok: "breaker_ok br \<Longrightarrow> breaker_ok (record_failure now le br)"
  by (cases "br_state br") (auto simp: breaker_ok_def record_failure_def Let_def)

lemma record_neutral_ok: "breaker_ok br \<Longrightarrow> breaker_ok (record_neutral now le br)"
  by (auto simp: breaker_ok_def record_neutral_def Let_def split: circuit_state.splits)

lemmas breaker_ops_ok = breaker_acquire_ok breaker_validate_ok record_success_ok record_failure_ok
  record_neutral_ok

lemma breaker_step_ok: "breaker_ok br \<Longrightarrow> op_ok o' \<Longrightarrow> breaker_ok (breaker_step o' br)"
  by (cases o') (simp_all add: breaker_ops_ok)

lemma breaker_run_ok: "breaker_ok br \<Longrightarrow> list_all op_ok os \<Longrightarrow> breaker_ok (fold breaker_step os br)"
  by (induction os arbitrary: br) (simp_all add: breaker_step_ok)

text \<open>The operation a probe owner ends its probe with.\<close>

fun records_for :: "string \<Rightarrow> breaker_op \<Rightarrow> bool" where
  "records_for t (OpSuccess now le) \<longleftrightarrow> le_probe le = Some t"
| "records_for t (OpFailure now le) \<longleftrightarrow> le_probe le = Some t"
| "records_for t (OpNeutral now le) \<longleftrightarrow> le_probe le = Some t"
| "records_for t _ \<longleftrightarrow> False"

lemma half_open_step:
  assumes "br_state br = HalfOpen" "br_probe br = Some t" "t \<noteq> []" "\<not> records_for t o'"
  shows "br_state (breaker_step o' br) = HalfOpen \<and> br_probe (breaker_step o' br) = Some t"
  using assms
  by (cases o') (auto simp: breaker_acquire_def breaker_validate_def record_success_def
      record_failure_def record_neutral_def owns_probe_def Let_def)

lemma half_open_run:
  "br_state br = HalfOpen \<Longrightarrow> br_probe br = Some t \<Longrightarrow> t \<noteq> [] \<Longrightarrow> \<not> list_ex (records_for t) os \<Longrightarrow>
     br_state (fold breaker_step os br) = HalfOpen \<and> br_probe (fold breaker_step os br) = Some t"
proof (induction os arbitrary: br)
  case (Cons o' os)
  from half_open_step[of br t o'] Cons.prems have
    "br_state (breaker_step o' br) = HalfOpen \<and> br_probe (breaker_step o' br) = Some t" by simp
  with Cons.IH[of "breaker_step o' br"] Cons.prems show ?case by simp
qed simp

section \<open>Properties\<close>

text \<open>
  C9: a failed call is replayed automatically only within a budget of more than one attempt, and
  then it is a read, or it carries an idempotency key its provider honours, or the failure code says
  that the call never left (no name resolution, no connection).
\<close>

theorem auto_retry_is_safe:
  assumes "md_auto_retry (decide_mcp_failure code p started)"
  shows "1 < mp_max_attempts p \<and>
         (mp_kind p = Read \<or> can_idempotently_retry p \<or>
          normalize_code code \<in> {''MCP_DNS_UNAVAILABLE'', ''MCP_NOT_CONNECTED''})"
  using assms
  by (auto simp: decide_mcp_failure_def Let_def plain_decision_def decide_uncertain_write_def
      side_effecting_def can_idempotently_retry_def split: if_splits)

text \<open>
  The effect of a call is reported unknown exactly when it is a started call with side effects
  whose reply may have been lost; the recovery is then the first available of replay under an
  idempotency key, read-back, compensation and pausing, and never a blind replay.
\<close>

theorem uncertain_write_recovery:
  assumes "md_side_effect_state (decide_mcp_failure code p started) = UnknownEffect"
  shows "started \<and> side_effecting p \<and>
    md_cause (decide_mcp_failure code p started) \<in> {Cancellation, Deadline, Transport, Protocol} \<and>
    md_recovery_action (decide_mcp_failure code p started) =
      (if can_idempotently_retry p then Retry else if read_back_available p then Resume
       else if mp_compensation p then Compensate else Pause) \<and>
    md_auto_retry (decide_mcp_failure code p started) = can_idempotently_retry p \<and>
    md_user_visibility (decide_mcp_failure code p started) = Blocking"
  using assms
  by (auto simp: decide_mcp_failure_def Let_def plain_decision_def decide_uncertain_write_def
      split: if_splits)

definition sample_write :: mcp_policy where
  "sample_write = mk_policy \<lparr>mp_kind = Write, mp_operation_id = ''op'', mp_circuit_scope = [],
     mp_idempotency_key = Some ''k'', mp_idempotency_supported = True, mp_read_back_tool = None,
     mp_read_back_argument = ''operation_id'', mp_compensation = False, mp_max_attempts = 2\<rparr>"

theorem auto_retry_is_safe_witness:
  "md_auto_retry (decide_mcp_failure ''mcp_timeout'' sample_write True) \<and>
   1 < mp_max_attempts sample_write \<and> can_idempotently_retry sample_write"
proof -
  have a: "md_auto_retry (decide_mcp_failure ''mcp_timeout'' sample_write True)" by code_simp
  have "mp_kind sample_write \<noteq> Read" by (simp add: sample_write_def mk_policy_def)
  moreover have "normalize_code ''mcp_timeout'' \<notin> {''MCP_DNS_UNAVAILABLE'', ''MCP_NOT_CONNECTED''}"
    by code_simp
  ultimately show ?thesis using auto_retry_is_safe[OF a] a by blast
qed

theorem uncertain_write_recovery_witness:
  "md_side_effect_state (decide_mcp_failure ''mcp_timeout'' (sample_write\<lparr>mp_idempotency_key := None\<rparr>) True)
     = UnknownEffect \<and>
   md_recovery_action (decide_mcp_failure ''mcp_timeout'' (sample_write\<lparr>mp_idempotency_key := None\<rparr>) True) = Pause"
proof -
  let ?p = "sample_write\<lparr>mp_idempotency_key := None\<rparr>"
  have e: "md_side_effect_state (decide_mcp_failure ''mcp_timeout'' ?p True) = UnknownEffect" by code_simp
  have "\<not> can_idempotently_retry ?p" "\<not> read_back_available ?p" "\<not> mp_compensation ?p" by code_simp+
  with uncertain_write_recovery[OF e] e show ?thesis by simp
qed

text \<open>
  C8: while a probe is out, nobody else gets through: whatever the other callers do, until the owner
  of the probe records its outcome every \<open>acquire\<close> is rejected and \<open>validate\<close> accepts only the
  lease of the probe.
\<close>

theorem single_probe_owner:
  assumes "br_state br = HalfOpen" and "br_probe br = Some t" and "t \<noteq> []"
    and "\<not> list_ex (records_for t) os"
  shows "let br' = fold breaker_step os br
         in fst (breaker_acquire now token br') = Inl (mk_circuit_open 0 HalfOpen) \<and>
            (\<not> isl (fst (breaker_validate now le br')) \<longleftrightarrow> le_probe le = Some t)"
proof -
  have "br_state (fold breaker_step os br) = HalfOpen \<and> br_probe (fold breaker_step os br) = Some t"
    by (rule half_open_run[OF assms])
  then show ?thesis
    using assms(3) by (auto simp: Let_def breaker_acquire_def breaker_validate_def owns_probe_def)
qed

definition sample_half_open :: mcp_breaker where
  "sample_half_open = fold breaker_step
     [OpFailure 1 \<lparr>le_state = Closed, le_probe = None\<rparr>, OpAcquire 50 ''tok''] (mk_breaker 1 30 0)"

theorem single_probe_owner_witness:
  "let br' = fold breaker_step [OpAcquire 60 ''other'', OpSuccess 61 \<lparr>le_state = Closed, le_probe = None\<rparr>] sample_half_open
   in fst (breaker_acquire 100 ''x'' br') = Inl (mk_circuit_open 0 HalfOpen) \<and>
      \<not> isl (fst (breaker_validate 100 \<lparr>le_state = HalfOpen, le_probe = Some ''tok''\<rparr> br'))"
proof -
  have h: "br_state sample_half_open = HalfOpen" "br_probe sample_half_open = Some ''tok''" by code_simp+
  have n: "''tok'' \<noteq> []"
    "\<not> list_ex (records_for ''tok'') [OpAcquire 60 ''other'', OpSuccess 61 \<lparr>le_state = Closed, le_probe = None\<rparr>]"
    by simp_all
  from single_probe_owner[OF h n, of 100 "''x''" "\<lparr>le_state = HalfOpen, le_probe = Some ''tok''\<rparr>"]
  show ?thesis by (simp add: Let_def)
qed

text \<open>
  A lease that does not own the current probe cannot change a breaker that has left the closed
  state: neither its success nor its failure nor its cancellation moves the state, the failure
  streak, the opening time or the ownership of the probe.
\<close>

theorem stale_lease_is_ignored:
  assumes "breaker_ok br" and "br_state br \<noteq> Closed" and "\<not> owns_probe le br"
    and "br' \<in> {record_success now le br, record_failure now le br, record_neutral now le br}"
  shows "br_state br' = br_state br \<and> br_streak br' = br_streak br \<and>
         br_opened_at br' = br_opened_at br \<and> br_probe br' = br_probe br"
  using assms
  by (auto simp: breaker_ok_def record_success_def record_failure_def record_neutral_def Let_def
      owns_probe_def split: circuit_state.splits)

theorem stale_lease_is_ignored_witness:
  "br_state (record_success 70 \<lparr>le_state = Closed, le_probe = None\<rparr> sample_half_open) = HalfOpen"
proof -
  have ok: "breaker_ok sample_half_open"
    unfolding sample_half_open_def by (rule breaker_run_ok[OF mk_breaker_ok]) simp
  have st: "br_state sample_half_open = HalfOpen" by code_simp
  then have "br_state sample_half_open \<noteq> Closed" by simp
  moreover have "\<not> owns_probe \<lparr>le_state = Closed, le_probe = None\<rparr> sample_half_open"
    by (simp add: owns_probe_def)
  ultimately show ?thesis
    using stale_lease_is_ignored[OF ok, of "\<lparr>le_state = Closed, le_probe = None\<rparr>" _ 70] st by simp
qed

lemma record_failure_closed:
  assumes "br_state br = Closed" "le_probe le = None"
  shows "br_streak (record_failure now le br) = br_streak br + 1"
    and "br_threshold (record_failure now le br) = br_threshold br"
    and "br_state (record_failure now le br) = (if br_threshold br \<le> br_streak br + 1 then Open else Closed)"
  using assms by (simp_all add: record_failure_def Let_def)

lemma record_failure_open:
  assumes "br_state br = Open" "le_probe le = None"
  shows "br_state (record_failure now le br) = Open" "br_threshold (record_failure now le br) = br_threshold br"
  using assms by (simp_all add: record_failure_def Let_def)

lemma failures_open:
  "br_state br = Open \<Longrightarrow> le_probe le = None \<Longrightarrow>
     br_state (fold (\<lambda>t. record_failure t le) ts br) = Open"
  by (induction ts arbitrary: br) (simp_all add: record_failure_open)

text \<open>
  A closed circuit opens at exactly the configured number of consecutive failures, counting
  those recorded before.
\<close>

theorem circuit_opens_at_threshold:
  assumes "breaker_ok br" and "br_state br = Closed" and "le_probe le = None"
  shows "(br_state (fold (\<lambda>t. record_failure t le) ts br) = Open) = (br_threshold br \<le> br_streak br + int (length ts))"
  using assms
proof (induction ts arbitrary: br)
  case Nil
  then show ?case by (simp add: breaker_ok_def)
next
  case (Cons t ts)
  note f = record_failure_closed[OF Cons.prems(2,3), of t]
  show ?case
  proof (cases "br_threshold br \<le> br_streak br + 1")
    case True
    with f failures_open[OF _ Cons.prems(3)] show ?thesis by simp
  next
    case False
    with f Cons.IH[OF record_failure_ok[OF Cons.prems(1)] _ Cons.prems(3)] show ?thesis
      by (simp add: algebra_simps)
  qed
qed

theorem circuit_opens_at_threshold_witness:
  "br_state (fold (\<lambda>t. record_failure t \<lparr>le_state = Closed, le_probe = None\<rparr>) [1, 2, 3] (mk_breaker 3 30 0)) = Open \<and>
   br_state (fold (\<lambda>t. record_failure t \<lparr>le_state = Closed, le_probe = None\<rparr>) [1, 2] (mk_breaker 3 30 0)) \<noteq> Open"
proof -
  have "br_state (mk_breaker 3 30 0) = Closed" "br_threshold (mk_breaker 3 30 0) = 3"
    "br_streak (mk_breaker 3 30 0) = 0" by (simp_all add: mk_breaker_def)
  with circuit_opens_at_threshold[OF mk_breaker_ok this(1), of "\<lparr>le_state = Closed, le_probe = None\<rparr>" "[1, 2, 3]"]
    circuit_opens_at_threshold[OF mk_breaker_ok this(1), of "\<lparr>le_state = Closed, le_probe = None\<rparr>" "[1, 2]"]
  show ?thesis by simp
qed

lemma open_circuit_waits:
  assumes "br_state br = Open" and "br_opened_at br = Some t"
  shows "fst (breaker_acquire now token br) =
     (if now - t < br_cooldown br then Inl (mk_circuit_open (br_cooldown br - (now - t)) Open)
      else Inr \<lparr>le_state = HalfOpen, le_probe = Some token\<rparr>)"
  using assms by (simp add: breaker_acquire_def Let_def)

end
