(* ===== verification/Rate_Window.thy ===== *)
theory Rate_Window
  imports Gw_Prelude
begin

text \<open>
  The interface of a sliding-window counter, and what every implementation of it guarantees to its
  callers. A counter keeps, per key, the times of the requests it accepted; a check at a time either
  accepts, and records that time, or rejects. The interface speaks only of the entries inside the
  window of a key: what an implementation drops outside of it is its own business.
\<close>

definition in_window :: "rat \<Rightarrow> rat \<Rightarrow> rat list \<Rightarrow> rat list" where
  "in_window w now ts = filter (\<lambda>t. now - w \<le> t) ts"

lemma in_window_later: "now \<le> now' \<Longrightarrow> in_window w now' (in_window w now ts) = in_window w now' ts"
  by (auto simp: in_window_def intro!: filter_cong)

lemma in_window_append: "in_window w now (xs @ ys) = in_window w now xs @ in_window w now ys"
  by (simp add: in_window_def)

text \<open>A run of checks, the log of what it accepted, and the accepted times of a key.\<close>

fun run_checks ::
  "('k \<Rightarrow> rat \<Rightarrow> 's \<Rightarrow> bool \<times> 's) \<Rightarrow> ('k \<times> rat) list \<Rightarrow> 's \<Rightarrow> ('k \<times> rat) list \<times> 's" where
  "run_checks check [] s = ([], s)"
| "run_checks check ((k, now) # cs) s =
     (let (ok, s') = check k now s; (lg, s'') = run_checks check cs s'
      in ((if ok then [(k, now)] else []) @ lg, s''))"

definition accepted :: "'k \<Rightarrow> ('k \<times> rat) list \<Rightarrow> rat list" where
  "accepted k lg = map snd (filter (\<lambda>e. fst e = k) lg)"

text \<open>
  \<open>inv s prev\<close> is the invariant of a state whose latest check was at \<open>prev\<close>; \<open>width\<close> and \<open>cap\<close> are
  the window and the number of requests of a key, and the promise is made for the \<open>valid\<close> keys.
\<close>

locale sliding_window =
  fixes hits :: "'s \<Rightarrow> 'k \<Rightarrow> rat list"
    and inv :: "'s \<Rightarrow> rat \<Rightarrow> bool"
    and check :: "'k \<Rightarrow> rat \<Rightarrow> 's \<Rightarrow> bool \<times> 's"
    and width :: "'k \<Rightarrow> rat"
    and cap :: "'k \<Rightarrow> int"
    and valid :: "'k \<Rightarrow> bool"
  assumes width_nonneg: "valid k \<Longrightarrow> 0 \<le> width k"
    and check_inv: "inv s prev \<Longrightarrow> prev \<le> now \<Longrightarrow> inv (snd (check k now s)) now"
    and check_room: "valid k \<Longrightarrow> inv s prev \<Longrightarrow> prev \<le> now \<Longrightarrow> fst (check k now s) \<Longrightarrow>
          int (length (in_window (width k) now (hits s k))) < cap k"
    and check_hits: "valid j \<Longrightarrow> inv s prev \<Longrightarrow> prev \<le> now \<Longrightarrow>
          in_window (width j) now (hits (snd (check k now s)) j) =
            in_window (width j) now (hits s j) @ (if fst (check k now s) \<and> j = k then [now] else [])"
begin

lemma accepted_append: "accepted k (xs @ ys) = accepted k xs @ accepted k ys"
  by (simp add: accepted_def)

text \<open>
  The log so far agrees with the state inside the window of the prev check, and no window that ended
  so far holds more than the capacity.
\<close>

definition agrees :: "('k \<times> rat) list \<Rightarrow> 's \<Rightarrow> rat \<Rightarrow> bool" where
  "agrees lg s prev \<longleftrightarrow> inv s prev \<and>
     (\<forall>k. valid k \<longrightarrow> in_window (width k) prev (accepted k lg) = in_window (width k) prev (hits s k) \<and>
        (\<forall>a \<in> set (accepted k lg). a \<le> prev) \<and>
        (\<forall>t. int (length (filter (\<lambda>a. a \<le> t) (in_window (width k) t (accepted k lg)))) \<le> max (cap k) 0))"

lemma agrees_check:
  assumes ag: "agrees lg s prev" and le: "prev \<le> now"
  shows "agrees (lg @ (if fst (check k now s) then [(k, now)] else [])) (snd (check k now s)) now"
proof -
  let ?ok = "fst (check k now s)" and ?s' = "snd (check k now s)"
  let ?lg' = "lg @ (if ?ok then [(k, now)] else [])"
  from ag have I: "inv s prev"
    and same: "\<And>j. valid j \<Longrightarrow> in_window (width j) prev (accepted j lg) = in_window (width j) prev (hits s j)"
    and past: "\<And>j a. valid j \<Longrightarrow> a \<in> set (accepted j lg) \<Longrightarrow> a \<le> prev"
    and bnd: "\<And>j t. valid j \<Longrightarrow> int (length (filter (\<lambda>a. a \<le> t) (in_window (width j) t (accepted j lg)))) \<le> max (cap j) 0"
    by (auto simp: agrees_def)
  have acc: "accepted j ?lg' = accepted j lg @ (if ?ok \<and> j = k then [now] else [])" for j
    by (simp add: accepted_append accepted_def)
  have now_in: "in_window (width j) now [now] = [now]" if "valid j" for j
    using width_nonneg[OF that] by (simp add: in_window_def)
  have same_now: "in_window (width j) now (accepted j lg) = in_window (width j) now (hits s j)" if "valid j" for j
    using arg_cong[OF same[OF that], of "in_window (width j) now"] by (simp add: in_window_later[OF le])
  have "in_window (width j) now (accepted j ?lg') = in_window (width j) now (hits ?s' j)" if "valid j" for j
    using that now_in[OF that] by (auto simp: acc in_window_append same_now check_hits[OF _ I le] in_window_def[of _ _ "[]"])
  moreover have "a \<le> now" if "valid j" "a \<in> set (accepted j ?lg')" for j a
    using that past[of j a] le by (auto simp: acc split: if_splits)
  moreover have "int (length (filter (\<lambda>a. a \<le> t) (in_window (width j) t (accepted j ?lg')))) \<le> max (cap j) 0" if v: "valid j" for j t
  proof (cases "?ok \<and> j = k \<and> now \<le> t")
    case False
    then have "filter (\<lambda>a. a \<le> t) (in_window (width j) t (accepted j ?lg')) =
        filter (\<lambda>a. a \<le> t) (in_window (width j) t (accepted j lg))"
      by (auto simp: acc in_window_append in_window_def)
    with bnd[OF v] show ?thesis by simp
  next
    case True
    have "length (in_window (width j) t (accepted j lg)) \<le> length (in_window (width j) now (accepted j lg))"
      using True unfolding in_window_def by (intro length_filter_mono) linarith
    moreover have "length (filter (\<lambda>a. a \<le> t) (in_window (width j) t (accepted j ?lg'))) \<le>
        length (in_window (width j) t (accepted j ?lg'))"
      by (rule length_filter_le)
    moreover have "length (in_window (width j) t (accepted j ?lg')) \<le>
        Suc (length (in_window (width j) t (accepted j lg)))"
      by (simp add: acc in_window_append in_window_def[of _ _ "[now]"] in_window_def[of _ _ "[]"])
    moreover have "int (length (in_window (width j) now (accepted j lg))) < cap j"
      using True v check_room[OF _ I le, of k] by (simp add: same_now)
    ultimately show ?thesis by linarith
  qed
  ultimately show ?thesis
    using check_inv[OF I le] unfolding agrees_def by blast
qed

lemma agrees_run:
  "agrees lg s prev \<Longrightarrow> sorted (prev # map snd cs) \<Longrightarrow>
     agrees (lg @ fst (run_checks check cs s)) (snd (run_checks check cs s)) (last (prev # map snd cs))"
proof (induction cs arbitrary: lg s prev)
  case (Cons c cs)
  obtain k now where c: "c = (k, now)" by (cases c)
  have le: "prev \<le> now" using Cons.prems(2) by (simp add: c)
  from Cons.IH[OF agrees_check[OF Cons.prems(1) le, of k]] Cons.prems(2)
  show ?case by (auto simp: c Let_def split: prod.splits if_splits)
qed simp

text \<open>The promise: no window of a key ever contains more accepted requests than its capacity.\<close>

lemma window_bound:
  assumes "valid k" "inv s prev" "\<And>k. hits s k = []" "sorted (prev # map snd cs)"
  shows "int (length (filter (\<lambda>a. t - width k \<le> a \<and> a \<le> t) (accepted k (fst (run_checks check cs s))))) \<le> max (cap k) 0"
proof -
  have "agrees [] s prev"
    using assms(2,3) by (simp add: agrees_def accepted_def in_window_def)
  from agrees_run[OF this assms(4)] assms(1)
  have "int (length (filter (\<lambda>a. a \<le> t) (in_window (width k) t (accepted k (fst (run_checks check cs s)))))) \<le> max (cap k) 0"
    by (simp add: agrees_def)
  then show ?thesis by (simp add: in_window_def conj_commute)
qed

end

end
