(* ===== verification/Rate_Limiter.thy ===== *)
theory Rate_Limiter
  imports Rate_Window
begin

text \<open>
  The per-process rate limiter (\<open>src/src/core/gateway/rate_limiter.py\<close>): a deque of accepted times
  per key and a periodic cleanup. The section under the lock of a key has no await, and neither has
  the body of the cleanup, so each is one function on the state. Locks are not state of the model.
\<close>

record rate_limit =
  rl_requests :: int
  rl_window :: int
  rl_burst :: int
  rl_strategy :: string

record rate_limit_config =
  rc_global :: "rate_limit option"
  rc_tenants :: "(string, rate_limit) py_dict"
  rc_users :: "(string, rate_limit) py_dict"
  rc_services :: "(string, rate_limit) py_dict"
  rc_ip :: "rate_limit option"

record limiter =
  lm_requests :: "(string, rat list) py_dict"
  lm_last_cleanup :: rat

definition mk_limiter :: "py_time \<Rightarrow> limiter" where
  "mk_limiter now = \<lparr>lm_requests = [], lm_last_cleanup = now\<rparr>"

definition cleanup_interval :: rat where
  "cleanup_interval = 60"

definition option_list :: "'a option \<Rightarrow> 'a list" where
  "option_list x = (case x of None \<Rightarrow> [] | Some y \<Rightarrow> [y])"

text \<open>The largest window the configuration names, and at least 60 seconds.\<close>

definition max_window :: "rate_limit_config \<Rightarrow> int" where
  "max_window cfg = foldl (\<lambda>m l. if m < rl_window l then rl_window l else m) 60
     (option_list (rc_global cfg) @ option_list (rc_ip cfg) @ map snd (rc_tenants cfg) @
      map snd (rc_users cfg) @ map snd (rc_services cfg))"

definition cleanup_expired :: "rate_limit_config \<Rightarrow> py_time \<Rightarrow> limiter \<Rightarrow> limiter" where
  "cleanup_expired cfg now lm =
     (if now - lm_last_cleanup lm < cleanup_interval then lm
      else (let cutoff = now - of_int (max_window cfg)
            in lm\<lparr>lm_requests := filter (\<lambda>(k, ts). \<not> (ts \<noteq> [] \<and> last ts < cutoff)) (lm_requests lm),
                  lm_last_cleanup := now\<rparr>))"

definition deque_of :: "limiter \<Rightarrow> string \<Rightarrow> rat list" where
  "deque_of lm k = (case dict_get (lm_requests lm) k of None \<Rightarrow> [] | Some ts \<Rightarrow> ts)"

text \<open>\<open>_check_key\<close>: \<open>False\<close> stands for the raised \<open>RateLimitExceededError(key)\<close>.\<close>

definition check_key ::
  "rate_limit_config \<Rightarrow> rate_limit \<Rightarrow> string \<Rightarrow> py_time \<Rightarrow> limiter \<Rightarrow> bool \<times> limiter" where
  "check_key cfg limit key now lm0 =
     (let lm = cleanup_expired cfg now lm0;
          ts = dropWhile (\<lambda>t. t < now - of_int (rl_window limit)) (deque_of lm key)
      in if rl_requests limit + rl_burst limit \<le> int (length ts)
         then (False, lm\<lparr>lm_requests := dict_set key ts (lm_requests lm)\<rparr>)
         else (True, lm\<lparr>lm_requests := dict_set key (ts @ [now]) (lm_requests lm)\<rparr>))"

section \<open>The checks of a request\<close>

record service_rate_config =
  sc_enabled :: bool
  sc_limit :: rate_limit

record limited_service =
  sv_id :: string
  sv_config :: service_rate_config
  sv_legacy :: "rate_limit option"

definition keyed_limit ::
  "string \<Rightarrow> string option \<Rightarrow> (string, rate_limit) py_dict \<Rightarrow> (string \<times> rate_limit) list" where
  "keyed_limit prefix ident limits =
     (if opt_str ident = [] then []
      else (case dict_get limits (opt_str ident) of
              None \<Rightarrow> [] | Some l \<Rightarrow> [(prefix @ opt_str ident, l)]))"

definition service_limits :: "limited_service \<Rightarrow> (string \<times> rate_limit) list" where
  "service_limits sv =
     (if sc_enabled (sv_config sv)
      then [(''service:'' @ sv_id sv @ '':config'', sc_limit (sv_config sv))]
      else (case sv_legacy sv of None \<Rightarrow> [] | Some l \<Rightarrow> [(''service:'' @ sv_id sv @ '':local'', l)]))"

definition request_checks ::
  "rate_limit_config \<Rightarrow> string option \<Rightarrow> string option \<Rightarrow> limited_service \<Rightarrow> string option
     \<Rightarrow> (string \<times> rate_limit) list" where
  "request_checks cfg tenant user sv ip =
     map (\<lambda>l. (''global'', l)) (option_list (rc_global cfg)) @
     keyed_limit ''tenant:'' tenant (rc_tenants cfg) @
     keyed_limit ''user:'' user (rc_users cfg) @
     keyed_limit ''service:'' (Some (sv_id sv)) (rc_services cfg) @
     (if opt_str ip = [] then [] else map (\<lambda>l. (''ip:'' @ opt_str ip, l)) (option_list (rc_ip cfg))) @
     service_limits sv"

text \<open>The checks in order, each at its own reading of the clock, up to the first that raises.\<close>

fun enforce_checks ::
  "rate_limit_config \<Rightarrow> (nat \<Rightarrow> py_time) \<Rightarrow> (string \<times> rate_limit) list \<Rightarrow> limiter \<Rightarrow> string option \<times> limiter" where
  "enforce_checks cfg clock [] lm = (None, lm)"
| "enforce_checks cfg clock ((key, limit) # cs) lm =
     (let (ok, lm') = check_key cfg limit key (clock 0) lm
      in if ok then enforce_checks cfg (\<lambda>i. clock (Suc i)) cs lm' else (Some key, lm'))"

definition enforce ::
  "rate_limit_config \<Rightarrow> string option \<Rightarrow> string option \<Rightarrow> limited_service \<Rightarrow> string option
     \<Rightarrow> (nat \<Rightarrow> py_time) \<Rightarrow> limiter \<Rightarrow> string option \<times> limiter" where
  "enforce cfg tenant user sv ip clock lm = enforce_checks cfg clock (request_checks cfg tenant user sv ip) lm"

section \<open>The limiter is a sliding window\<close>

definition limiter_inv :: "limiter \<Rightarrow> rat \<Rightarrow> bool" where
  "limiter_inv lm prev \<longleftrightarrow> dict_ok (lm_requests lm) \<and>
     (\<forall>k. sorted (deque_of lm k) \<and> (\<forall>t \<in> set (deque_of lm k). t \<le> prev))"

lemma deque_set: "deque_of (lm\<lparr>lm_requests := dict_set k ts (lm_requests lm)\<rparr>) j = (if j = k then ts else deque_of lm j)"
  by (simp add: deque_of_def dict_get_set)

lemma deque_cleanup:
  assumes "dict_ok (lm_requests lm)"
  shows "deque_of (cleanup_expired cfg now lm) k =
     (if cleanup_interval \<le> now - lm_last_cleanup lm \<and> deque_of lm k \<noteq> [] \<and>
         last (deque_of lm k) < now - of_int (max_window cfg)
      then [] else deque_of lm k)"
  using dict_get_filter[OF assms, of "\<lambda>k ts. \<not> (ts \<noteq> [] \<and> last ts < now - of_int (max_window cfg))" k]
  by (auto simp: cleanup_expired_def deque_of_def Let_def split: option.splits)

lemma cleanup_inv: "limiter_inv lm prev \<Longrightarrow> limiter_inv (cleanup_expired cfg now lm) prev"
proof -
  assume a: "limiter_inv lm prev"
  then have ok: "dict_ok (lm_requests lm)" by (simp add: limiter_inv_def)
  then have "dict_ok (lm_requests (cleanup_expired cfg now lm))"
    by (simp add: cleanup_expired_def Let_def)
  with a show ?thesis by (auto simp: limiter_inv_def deque_cleanup[OF ok])
qed

lemma sorted_le_last: "sorted ts \<Longrightarrow> t \<in> set ts \<Longrightarrow> t \<le> last ts"
  by (induction ts rule: rev_induct) (auto simp: sorted_append)

lemma cleanup_in_window:
  assumes "limiter_inv lm prev" "w \<le> of_int (max_window cfg)"
  shows "in_window w now (deque_of (cleanup_expired cfg now lm) k) = in_window w now (deque_of lm k)"
proof -
  have ok: "dict_ok (lm_requests lm)" and srt: "sorted (deque_of lm k)"
    using assms(1) by (auto simp: limiter_inv_def)
  have "in_window w now (deque_of lm k) = []"
    if "deque_of lm k \<noteq> []" "last (deque_of lm k) < now - of_int (max_window cfg)"
  proof -
    have "t \<le> last (deque_of lm k)" if "t \<in> set (deque_of lm k)" for t
      using sorted_le_last[OF srt that] .
    with that(2) assms(2) show ?thesis
      by (fastforce simp: in_window_def filter_empty_conv)
  qed
  then show ?thesis by (simp add: deque_cleanup[OF ok] in_window_def[of _ _ "[]"])
qed

lemma drop_old: "sorted ts \<Longrightarrow> dropWhile (\<lambda>t. t < now - w) ts = in_window w now ts"
  by (simp add: in_window_def dropWhile_sorted_filter)

lemma in_window_sub: "set (in_window w now ts) \<subseteq> set ts"
  by (auto simp: in_window_def)

lemma in_window_idem [simp]: "in_window w now (in_window w now ts) = in_window w now ts"
  by (simp add: in_window_def)

lemma sorted_in_window: "sorted ts \<Longrightarrow> sorted (in_window w now ts)"
  by (simp add: in_window_def sorted_wrt_filter)

lemma in_window_wider: "w' \<le> w \<Longrightarrow> in_window w' now (in_window w now ts) = in_window w' now ts"
  by (auto simp: in_window_def intro!: filter_cong)

lemma check_key_deques:
  assumes inv: "limiter_inv lm0 prev"
  shows "check_key cfg limit key now lm0 =
     (let lm = cleanup_expired cfg now lm0; ts = in_window (of_int (rl_window limit)) now (deque_of lm key);
          ok = (int (length ts) < rl_requests limit + rl_burst limit)
      in (ok, lm\<lparr>lm_requests := dict_set key (if ok then ts @ [now] else ts) (lm_requests lm)\<rparr>))"
  using cleanup_inv[OF inv, of cfg now]
  by (auto simp: check_key_def Let_def drop_old limiter_inv_def)

lemma check_key_inv:
  assumes "limiter_inv lm prev" "prev \<le> now"
  shows "limiter_inv (snd (check_key cfg limit key now lm)) now"
proof -
  let ?lm = "cleanup_expired cfg now lm"
  let ?ts = "in_window (of_int (rl_window limit)) now (deque_of ?lm key)"
  have c: "limiter_inv ?lm prev" using assms(1) by (rule cleanup_inv)
  then have ok: "dict_ok (lm_requests ?lm)" and s: "sorted (deque_of ?lm j)"
    and le: "t \<in> set (deque_of ?lm j) \<Longrightarrow> t \<le> now" for j t
    using assms(2) by (force simp: limiter_inv_def)+
  have le': "t \<in> set ?ts \<Longrightarrow> t \<le> now" for t
    using in_window_sub le by blast
  show ?thesis
    using ok s le le' sorted_in_window[OF s]
    by (auto simp: check_key_deques[OF assms(1)] Let_def limiter_inv_def deque_set sorted_append)
qed

definition key_valid :: "rate_limit_config \<Rightarrow> (string \<Rightarrow> rate_limit) \<Rightarrow> string \<Rightarrow> bool" where
  "key_valid cfg lims k \<longleftrightarrow> 0 \<le> rl_window (lims k) \<and> rl_window (lims k) \<le> max_window cfg"

definition checked_one ::
  "rate_limit_config \<Rightarrow> (string \<Rightarrow> rate_limit) \<Rightarrow> string \<Rightarrow> py_time \<Rightarrow> limiter \<Rightarrow> bool \<times> limiter" where
  "checked_one cfg lims k now lm = check_key cfg (lims k) k now lm"

interpretation key_limiter: sliding_window deque_of limiter_inv "checked_one cfg lims"
    "\<lambda>k. of_int (rl_window (lims k))" "\<lambda>k. rl_requests (lims k) + rl_burst (lims k)" "key_valid cfg lims"
  for cfg lims
proof (unfold_locales, goal_cases)
  case (1 k)
  then show ?case by (simp add: key_valid_def)
next
  case (2 s prev now k)
  then show ?case by (simp add: checked_one_def check_key_inv)
next
  case (3 k s prev now)
  then have "rat_of_int (rl_window (lims k)) \<le> of_int (max_window cfg)" by (simp add: key_valid_def)
  from 3(4) cleanup_in_window[OF 3(2) this, of now k] show ?case
    by (simp add: checked_one_def check_key_deques[OF 3(2)] Let_def)
next
  case (4 j s prev now k)
  then have w: "rat_of_int (rl_window (lims j)) \<le> of_int (max_window cfg)" "0 \<le> rat_of_int (rl_window (lims j))"
    by (simp_all add: key_valid_def)
  show ?case
    using cleanup_in_window[OF 4(2) w(1), of now j] w(2)
    by (auto simp: checked_one_def check_key_deques[OF 4(2)] Let_def deque_set in_window_append
        in_window_def[of _ _ "[now]"] in_window_def[of _ _ "[]"])
qed

section \<open>Properties\<close>

lemma fresh_limiter: "limiter_inv (mk_limiter now) now" "deque_of (mk_limiter now) k = []"
  by (simp_all add: limiter_inv_def mk_limiter_def deque_of_def)

text \<open>
  C11: whatever the keys and times of the checks, as long as the clock does not go back, no window of
  a key holds more accepted requests than \<open>requests + burst\<close>, provided the window of the key is no
  longer than the largest window the limiter's configuration names.
\<close>

theorem limiter_window_bound:
  assumes "key_valid cfg lims k" and "sorted (t0 # map snd cs)"
  shows "int (length (filter (\<lambda>a. t - of_int (rl_window (lims k)) \<le> a \<and> a \<le> t)
           (accepted k (fst (run_checks (checked_one cfg lims) cs (mk_limiter t0))))))
         \<le> max (rl_requests (lims k) + rl_burst (lims k)) 0"
  by (rule key_limiter.window_bound[OF assms(1) fresh_limiter assms(2)])

definition sample_limits :: "string \<Rightarrow> rate_limit" where
  "sample_limits k = \<lparr>rl_requests = 1, rl_window = 60, rl_burst = 0, rl_strategy = ''sliding_window''\<rparr>"

definition empty_config :: rate_limit_config where
  "empty_config = \<lparr>rc_global = None, rc_tenants = [], rc_users = [], rc_services = [], rc_ip = None\<rparr>"

theorem limiter_window_bound_witness:
  "let lg = fst (run_checks (checked_one empty_config sample_limits) [(''k'', 10), (''k'', 30), (''k'', 90)] (mk_limiter 0))
   in accepted ''k'' lg = [10, 90] \<and>
      int (length (filter (\<lambda>a. 90 - of_int (rl_window (sample_limits ''k'')) \<le> a \<and> a \<le> 90) (accepted ''k'' lg))) \<le> 1"
proof -
  have v: "key_valid empty_config sample_limits ''k''"
    by (simp add: key_valid_def sample_limits_def max_window_def empty_config_def option_list_def)
  have s: "sorted (0 # map snd [(''k'', 10 :: rat), (''k'', 30), (''k'', 90)])" by simp
  have e: "accepted ''k'' (fst (run_checks (checked_one empty_config sample_limits)
      [(''k'', 10), (''k'', 30), (''k'', 90)] (mk_limiter 0))) = [10, 90]" by code_simp
  have "rl_requests (sample_limits ''k'') + rl_burst (sample_limits ''k'') = 1"
    by (simp add: sample_limits_def)
  with limiter_window_bound[OF v s, of 90] show ?thesis
    unfolding Let_def e by simp
qed

text \<open>
  The windows of the per-service configuration are not among those the cleanup considers. When
  a cleanup is due and the newest entry of a key is older than the largest configured window (60
  seconds by default), a check of the key is accepted, however many requests its own, longer window
  still contains.
\<close>

theorem cleanup_forgets_long_windows:
  assumes "limiter_inv lm prev" and "deque_of lm k \<noteq> []"
    and "last (deque_of lm k) < now - of_int (max_window cfg)"
    and "cleanup_interval \<le> now - lm_last_cleanup lm" and "0 < rl_requests limit + rl_burst limit"
  shows "fst (check_key cfg limit k now lm)"
proof -
  have "dict_ok (lm_requests lm)" using assms(1) by (simp add: limiter_inv_def)
  with assms show ?thesis
    by (simp add: check_key_deques[OF assms(1)] Let_def deque_cleanup in_window_def)
qed

definition hourly_service :: limited_service where
  "hourly_service = \<lparr>sv_id = ''svc'', sv_config = \<lparr>sc_enabled = True,
     sc_limit = \<lparr>rl_requests = 1, rl_window = 3600, rl_burst = 0, rl_strategy = ''sliding_window''\<rparr>\<rparr>,
     sv_legacy = None\<rparr>"

theorem cleanup_forgets_long_windows_witness:
  "let lm = snd (enforce empty_config None None hourly_service None (\<lambda>i. 10) (mk_limiter 0))
   in deque_of lm ''service:svc:config'' = [10] \<and>
      fst (check_key empty_config (sc_limit (sv_config hourly_service)) ''service:svc:config'' 100 lm)"
proof -
  let ?lm = "snd (enforce empty_config None None hourly_service None (\<lambda>i. 10) (mk_limiter 0))"
  let ?k = "''service:svc:config''"
  have lm: "?lm = \<lparr>lm_requests = [(?k, [10])], lm_last_cleanup = 0\<rparr>"
    by (simp add: enforce_def request_checks_def option_list_def empty_config_def keyed_limit_def
        opt_str_def service_limits_def hourly_service_def check_key_def cleanup_expired_def
        cleanup_interval_def mk_limiter_def deque_of_def Let_def)
  have d: "deque_of ?lm ?k = [10]" unfolding lm by (simp add: deque_of_def)
  have m: "max_window empty_config = 60"
    by (simp add: max_window_def empty_config_def option_list_def)
  have i: "limiter_inv ?lm 10"
    unfolding lm by (simp add: limiter_inv_def dict_ok_def deque_of_def)
  have "fst (check_key empty_config (sc_limit (sv_config hourly_service)) ?k 100 ?lm)"
    by (rule cleanup_forgets_long_windows[OF i])
      (simp_all only: m lm, simp_all add: deque_of_def cleanup_interval_def hourly_service_def)
  with d show ?thesis by (simp add: Let_def)
qed

end
