(* ===== verification/Multi_Rate_Limiter.thy ===== *)
theory Multi_Rate_Limiter
  imports Rate_Window Redis_Scripts Py_Value
begin

text \<open>
  The multi-dimensional rate limiter (\<open>src/src/core/gateway/multi_dimension_rate_limiter.py\<close>):
  the configuration with its environment overrides, the choice of the checks of a request, the
  in-memory sliding window, the batched Redis window with its fallback, and the response headers.
\<close>

section \<open>Configuration\<close>

definition get_bool_env :: "(string \<rightharpoonup> string) \<Rightarrow> string \<Rightarrow> bool \<Rightarrow> bool" where
  "get_bool_env env key dflt =
     (let v = py_lower (opt_str (env key))
      in if v \<in> {''true'', ''1'', ''yes''} then True
         else if v \<in> {''false'', ''0'', ''no''} then False else dflt)"

definition get_int_env :: "(string \<rightharpoonup> string) \<Rightarrow> string \<Rightarrow> int \<Rightarrow> int" where
  "get_int_env env key dflt =
     (let v = opt_str (env key)
      in if v = [] then dflt else (case parse_int v of Some n \<Rightarrow> n | None \<Rightarrow> dflt))"

record tier_limit =
  tl_requests :: int
  tl_window :: int
  tl_burst :: int

definition minute_limit :: "int \<Rightarrow> tier_limit" where
  "minute_limit n = \<lparr>tl_requests = n, tl_window = 60, tl_burst = 0\<rparr>"

record md_config =
  mc_global_enabled :: bool
  mc_global_limit :: int
  mc_global_window :: int
  mc_ip_enabled :: bool
  mc_ip_limit :: int
  mc_ip_window :: int
  mc_tiers :: "(string, tier_limit) py_dict"
  mc_tenant_enabled :: bool
  mc_tenant_default :: int
  mc_tenant_window :: int
  mc_tenant_limits :: "(string, int) py_dict"
  mc_assistant_enabled :: bool
  mc_assistant_default :: int
  mc_assistant_window :: int
  mc_assistant_limits :: "(string, int) py_dict"
  mc_operations :: "(string, tier_limit) py_dict"

definition default_md_config :: "(string \<rightharpoonup> string) \<Rightarrow> md_config" where
  "default_md_config env =
     \<lparr>mc_global_enabled = True, mc_global_limit = 10000, mc_global_window = 60,
      mc_ip_enabled = get_bool_env env ''RATE_LIMIT_IP_ENABLED'' True,
      mc_ip_limit = get_int_env env ''RATE_LIMIT_IP_LIMIT'' 30, mc_ip_window = 60,
      mc_tiers =
        [(''anonymous'', minute_limit (get_int_env env ''RATE_LIMIT_ANONYMOUS_LIMIT'' 10)),
         (''normal'', minute_limit (get_int_env env ''RATE_LIMIT_NORMAL_LIMIT'' 60)),
         (''premium'', minute_limit (get_int_env env ''RATE_LIMIT_PREMIUM_LIMIT'' 300)),
         (''enterprise'', minute_limit (get_int_env env ''RATE_LIMIT_ENTERPRISE_LIMIT'' 1000)),
         (''admin'', minute_limit (get_int_env env ''RATE_LIMIT_ADMIN_LIMIT'' 10000))],
      mc_tenant_enabled = True, mc_tenant_default = 5000, mc_tenant_window = 60, mc_tenant_limits = [],
      mc_assistant_enabled = True, mc_assistant_default = 1000, mc_assistant_window = 60,
      mc_assistant_limits = [],
      mc_operations =
        [(''run_create'', minute_limit 100), (''thread_create'', minute_limit 50),
         (''store_write'', minute_limit 200),
         (''assistant_chat'', minute_limit (get_int_env env ''RATE_LIMIT_ASSISTANT_CHAT_LIMIT'' 60)),
         (''quiz_generate'', minute_limit (get_int_env env ''RATE_LIMIT_QUIZ_GENERATE_LIMIT'' 10)),
         (''image_generate'', minute_limit (get_int_env env ''RATE_LIMIT_IMAGE_GENERATE_LIMIT'' 20)),
         (''file_upload'', minute_limit (get_int_env env ''RATE_LIMIT_FILE_UPLOAD_LIMIT'' 30)),
         (''code_execute'', minute_limit (get_int_env env ''RATE_LIMIT_CODE_EXECUTE_LIMIT'' 30)),
         (''quiz_submit_public'', minute_limit (get_int_env env ''RATE_LIMIT_QUIZ_SUBMIT_PUBLIC_LIMIT'' 10))]\<rparr>"

definition create_rate_limit_config :: "(string \<rightharpoonup> string) \<Rightarrow> (string, tier_limit) py_dict \<Rightarrow> md_config" where
  "create_rate_limit_config env overrides =
     (let cfg = default_md_config env
      in cfg\<lparr>mc_tiers := fold (\<lambda>(k, v). dict_set k v) overrides (mc_tiers cfg)\<rparr>)"

record md_context =
  mx_ip :: string
  mx_user :: "string option"
  mx_tier :: string
  mx_tenant :: "string option"
  mx_assistant :: "string option"
  mx_operation :: "string option"

record md_result =
  mr_allowed :: bool
  mr_dimension :: string
  mr_limit :: int
  mr_remaining :: int
  mr_reset_at :: int
  mr_retry_after :: int

section \<open>The checks of a request\<close>

text \<open>A check: its key, limit, window and dimension.\<close>

record md_check =
  mk_key :: string
  mk_limit :: int
  mk_window :: int
  mk_dimension :: string

definition str_given :: "string option \<Rightarrow> bool" where
  "str_given v \<longleftrightarrow> opt_str v \<noteq> []"

definition check_global :: "md_config \<Rightarrow> md_context \<Rightarrow> md_check" where
  "check_global cfg cx = \<lparr>mk_key = ''ratelimit:global'', mk_limit = mc_global_limit cfg,
     mk_window = mc_global_window cfg, mk_dimension = ''global''\<rparr>"

definition check_ip :: "md_config \<Rightarrow> md_context \<Rightarrow> md_check" where
  "check_ip cfg cx = \<lparr>mk_key = ''ratelimit:ip:'' @ mx_ip cx, mk_limit = mc_ip_limit cfg,
     mk_window = mc_ip_window cfg, mk_dimension = ''ip''\<rparr>"

text \<open>An unknown tier is limited like an anonymous user; a configuration without that tier raises
  \<open>KeyError\<close>.\<close>

definition check_user :: "md_config \<Rightarrow> md_context \<Rightarrow> py_exn + md_check" where
  "check_user cfg cx =
     (case dict_get (mc_tiers cfg) ''anonymous'' of
        None \<Rightarrow> Inl (KeyError ''anonymous'')
      | Some anon \<Rightarrow>
          (let t = (case dict_get (mc_tiers cfg) (mx_tier cx) of Some t \<Rightarrow> t | None \<Rightarrow> anon)
           in Inr \<lparr>mk_key = ''ratelimit:user:'' @ opt_str (mx_user cx), mk_limit = tl_requests t + tl_burst t,
                mk_window = tl_window t, mk_dimension = ''user''\<rparr>))"

definition named_limit :: "(string, int) py_dict \<Rightarrow> string option \<Rightarrow> int \<Rightarrow> int" where
  "named_limit limits name dflt = (case dict_get limits (opt_str name) of Some n \<Rightarrow> n | None \<Rightarrow> dflt)"

definition check_tenant :: "md_config \<Rightarrow> md_context \<Rightarrow> md_check" where
  "check_tenant cfg cx = \<lparr>mk_key = ''ratelimit:tenant:'' @ opt_str (mx_tenant cx),
     mk_limit = named_limit (mc_tenant_limits cfg) (mx_tenant cx) (mc_tenant_default cfg),
     mk_window = mc_tenant_window cfg, mk_dimension = ''tenant''\<rparr>"

definition check_assistant :: "md_config \<Rightarrow> md_context \<Rightarrow> md_check" where
  "check_assistant cfg cx = \<lparr>mk_key = ''ratelimit:assistant:'' @ opt_str (mx_assistant cx),
     mk_limit = named_limit (mc_assistant_limits cfg) (mx_assistant cx) (mc_assistant_default cfg),
     mk_window = mc_assistant_window cfg, mk_dimension = ''assistant''\<rparr>"

definition check_operation :: "md_context \<Rightarrow> tier_limit \<Rightarrow> md_check" where
  "check_operation cx t = (let o' = opt_str (mx_operation cx) in
     \<lparr>mk_key = ''ratelimit:op:'' @ o' @ '':'' @ or_str (opt_str (mx_user cx)) (mx_ip cx),
      mk_limit = tl_requests t + tl_burst t, mk_window = tl_window t, mk_dimension = ''operation:'' @ o'\<rparr>)"

definition request_dimensions :: "md_config \<Rightarrow> md_context \<Rightarrow> string set \<Rightarrow> (py_exn + md_check) list" where
  "request_dimensions cfg cx skip =
     (if mc_global_enabled cfg \<and> ''global'' \<notin> skip then [Inr (check_global cfg cx)] else []) @
     (if mc_ip_enabled cfg \<and> mx_ip cx \<noteq> [] \<and> ''ip'' \<notin> skip then [Inr (check_ip cfg cx)] else []) @
     (if str_given (mx_user cx) \<and> ''user'' \<notin> skip then [check_user cfg cx] else []) @
     (if mc_tenant_enabled cfg \<and> str_given (mx_tenant cx) \<and> ''tenant'' \<notin> skip
      then [Inr (check_tenant cfg cx)] else []) @
     (if mc_assistant_enabled cfg \<and> str_given (mx_assistant cx) \<and> ''assistant'' \<notin> skip
      then [Inr (check_assistant cfg cx)] else []) @
     (if str_given (mx_operation cx) \<and> ''operation'' \<notin> skip
      then (case dict_get (mc_operations cfg) (opt_str (mx_operation cx)) of
              Some t \<Rightarrow> [Inr (check_operation cx t)] | None \<Rightarrow> [])
      else [])"

section \<open>The in-memory window\<close>

type_synonym md_memory = "(string, rat list) py_dict"

definition times_of :: "md_memory \<Rightarrow> string \<Rightarrow> rat list" where
  "times_of mem k = (case dict_get mem k of None \<Rightarrow> [] | Some ts \<Rightarrow> ts)"

definition memory_sliding_window ::
  "string \<Rightarrow> int \<Rightarrow> int \<Rightarrow> string \<Rightarrow> py_time \<Rightarrow> md_memory \<Rightarrow> md_result \<times> md_memory" where
  "memory_sliding_window key limit window dimension now mem =
     (let window_start = now - of_int window;
          ts = dropWhile (\<lambda>t. t < window_start) (times_of mem key);
          count = int (length ts);
          reset_at = py_trunc (now + of_int window)
      in if limit \<le> count
         then (\<lparr>mr_allowed = False, mr_dimension = dimension, mr_limit = limit, mr_remaining = 0,
                mr_reset_at = reset_at,
                mr_retry_after = (if ts \<noteq> [] then py_trunc (hd ts - window_start) + 1 else window)\<rparr>,
               dict_set key ts mem)
         else (\<lparr>mr_allowed = True, mr_dimension = dimension, mr_limit = limit,
                mr_remaining = max 0 (limit - count - 1), mr_reset_at = reset_at, mr_retry_after = 0\<rparr>,
               dict_set key (ts @ [now]) mem))"

section \<open>The Redis window\<close>

text \<open>
  The results the caller builds from the reply of the script: one per policy up to the rejected one.
\<close>

fun results_from_reply ::
  "sliding_reply \<Rightarrow> int \<Rightarrow> py_time \<Rightarrow> nat \<Rightarrow> md_check list \<Rightarrow> md_result list" where
  "results_from_reply rep window now i [] = []"
| "results_from_reply rep window now i (c # cs) =
     (let window_start = now - of_int window;
          reset_at = py_trunc (now + of_int window);
          earliest = rat_of_int (sr_earliest rep)
      in if 0 \<le> sr_rejected rep \<and> sr_rejected rep < int i then []
         else if int i = sr_rejected rep
         then [\<lparr>mr_allowed = False, mr_dimension = mk_dimension c, mr_limit = mk_limit c, mr_remaining = 0,
                mr_reset_at = reset_at,
                mr_retry_after = (if window_start < earliest then py_trunc (earliest - window_start) + 1
                                  else window)\<rparr>]
         else \<lparr>mr_allowed = True, mr_dimension = mk_dimension c, mr_limit = mk_limit c,
                mr_remaining = (if i < length (sr_remaining rep) \<and> 0 \<le> sr_remaining rep ! i
                                then max (sr_remaining rep ! i) 0 else max (sr_min_remaining rep) 0),
                mr_reset_at = reset_at, mr_retry_after = 0\<rparr>
              # results_from_reply rep window now (Suc i) cs)"

text \<open>The same checks against the memory, in order, up to the first rejection.\<close>

fun memory_many :: "int \<Rightarrow> py_time \<Rightarrow> md_check list \<Rightarrow> md_memory \<Rightarrow> md_result list \<times> md_memory" where
  "memory_many window now [] mem = ([], mem)"
| "memory_many window now (c # cs) mem =
     (let (res, mem1) = memory_sliding_window (mk_key c) (mk_limit c) window (mk_dimension c) now mem
      in if mr_allowed res
         then (let (rs, mem2) = memory_many window now cs mem1 in (res # rs, mem2))
         else ([res], mem1))"

text \<open>
  The state of the limiter: its memory, and the database when a Redis client was given. \<open>up\<close> says
  whether the call of the script succeeds; when it does not, the memory answers.
\<close>

record 'r md_state =
  ms_memory :: md_memory
  ms_redis :: "'r option"

definition redis_sliding_window_many ::
  "'r redis_ops \<Rightarrow> bool \<Rightarrow> string \<Rightarrow> 'r \<Rightarrow> int \<Rightarrow> py_time \<Rightarrow> md_check list \<Rightarrow> 'r md_state
     \<Rightarrow> md_result list \<times> 'r md_state" where
  "redis_sliding_window_many ops up member r window now cs st =
     (if up
      then (let (rep, r') = sliding_window_check_lua ops now (now - of_int window) (of_int (window + 1)) member
                  (map (\<lambda>c. (mk_key c, mk_limit c)) cs) r
            in (results_from_reply rep window now 0 cs, st\<lparr>ms_redis := Some r'\<rparr>))
      else (let (rs, mem) = memory_many window now cs (ms_memory st)
            in (rs, st\<lparr>ms_memory := mem\<rparr>)))"

definition sliding_window_check ::
  "'r redis_ops \<Rightarrow> bool \<Rightarrow> string \<Rightarrow> py_time \<Rightarrow> md_check \<Rightarrow> 'r md_state \<Rightarrow> md_result \<times> 'r md_state" where
  "sliding_window_check ops up member now c st =
     (case ms_redis st of
        Some r \<Rightarrow>
          (let (rs, st') = redis_sliding_window_many ops up member r (mk_window c) now [c] st
           in (last rs, st'))
      | None \<Rightarrow>
          (let (res, mem) = memory_sliding_window (mk_key c) (mk_limit c) (mk_window c) (mk_dimension c)
                 now (ms_memory st)
           in (res, st\<lparr>ms_memory := mem\<rparr>)))"

text \<open>\<open>check\<close>: the first rejected dimension, or the last allowed one that has a limit. The \<open>i\<close>-th check
  reads the clock, draws its member and finds Redis up or down as \<open>env i\<close> says.\<close>

definition allowed_result :: md_result where
  "allowed_result = \<lparr>mr_allowed = True, mr_dimension = [], mr_limit = 0, mr_remaining = 0,
     mr_reset_at = 0, mr_retry_after = 0\<rparr>"

fun run_dimensions ::
  "'r redis_ops \<Rightarrow> (nat \<Rightarrow> bool \<times> string \<times> py_time) \<Rightarrow> (py_exn + md_check) list \<Rightarrow> md_result \<Rightarrow> 'r md_state
     \<Rightarrow> (py_exn + md_result) \<times> 'r md_state" where
  "run_dimensions ops env [] best st = (Inr best, st)"
| "run_dimensions ops env (Inl e # cs) best st = (Inl e, st)"
| "run_dimensions ops env (Inr c # cs) best st =
     (case env 0 of (up, member, now) \<Rightarrow>
        (let (res, st') = sliding_window_check ops up member now c st
         in if \<not> mr_allowed res then (Inr res, st')
            else run_dimensions ops (\<lambda>i. env (Suc i)) cs (if 0 < mr_limit res then res else best) st'))"

definition md_check_request ::
  "'r redis_ops \<Rightarrow> (nat \<Rightarrow> bool \<times> string \<times> py_time) \<Rightarrow> md_config \<Rightarrow> md_context \<Rightarrow> string set \<Rightarrow> 'r md_state
     \<Rightarrow> (py_exn + md_result) \<times> 'r md_state" where
  "md_check_request ops env cfg cx skip st =
     run_dimensions ops env (request_dimensions cfg cx skip) allowed_result st"

section \<open>Custom policies\<close>

definition check_custom_limits ::
  "'r redis_ops \<Rightarrow> bool \<Rightarrow> string \<Rightarrow> py_time \<Rightarrow> md_check list \<Rightarrow> 'r md_state
     \<Rightarrow> (py_exn + md_result list) \<times> 'r md_state" where
  "check_custom_limits ops up member now policies st =
     (if policies = [] then (Inr [], st)
      else (let windows = remdups (map (\<lambda>p. max (mk_window p) 1) policies);
                window = hd windows;
                normalized = map (\<lambda>p. p\<lparr>mk_limit := max (mk_limit p) 1\<rparr>) policies
            in if length windows \<noteq> 1
               then (Inl (ValueError ''custom rate-limit batch must share one window''), st)
               else case ms_redis st of
                      Some r \<Rightarrow>
                        (let (rs, st') = redis_sliding_window_many ops up member r window now normalized st
                         in (Inr rs, st'))
                    | None \<Rightarrow>
                        (let (rs, mem) = memory_many window now normalized (ms_memory st)
                         in (Inr rs, st\<lparr>ms_memory := mem\<rparr>))))"

definition check_custom_limit ::
  "'r redis_ops \<Rightarrow> bool \<Rightarrow> py_time \<Rightarrow> string \<Rightarrow> md_check \<Rightarrow> 'r md_state \<Rightarrow> (py_exn + md_result) \<times> 'r md_state" where
  "check_custom_limit ops up now member p st =
     (let p1 = p\<lparr>mk_limit := max (mk_limit p) 1, mk_window := max (mk_window p) 1\<rparr>;
          (r, st') = check_custom_limits ops up member now [p1] st
      in (result_bind r (\<lambda>rs. Inr (last rs)), st'))"

section \<open>Response headers\<close>

definition rate_limit_headers :: "md_result \<Rightarrow> (string, string) py_dict" where
  "rate_limit_headers r =
     [(''X-RateLimit-Limit'', string_of_int (mr_limit r)),
      (''X-RateLimit-Remaining'', string_of_int (mr_remaining r)),
      (''X-RateLimit-Reset'', string_of_int (mr_reset_at r)),
      (''X-RateLimit-Dimension'', mr_dimension r)] @
     (if 0 < mr_retry_after r then [(''Retry-After'', string_of_int (mr_retry_after r))] else [])"

section \<open>The memory is a sliding window\<close>

definition memory_inv :: "md_memory \<Rightarrow> rat \<Rightarrow> bool" where
  "memory_inv mem prev \<longleftrightarrow> (\<forall>k. sorted (times_of mem k) \<and> (\<forall>t \<in> set (times_of mem k). t \<le> prev))"

lemma times_set: "times_of (dict_set k ts mem) j = (if j = k then ts else times_of mem j)"
  by (simp add: times_of_def dict_get_set)

lemma memory_window_eq:
  assumes "memory_inv mem prev"
  shows "memory_sliding_window key limit window dimension now mem =
     (let ts = in_window (of_int window) now (times_of mem key)
      in if limit \<le> int (length ts)
         then (\<lparr>mr_allowed = False, mr_dimension = dimension, mr_limit = limit, mr_remaining = 0,
                mr_reset_at = py_trunc (now + of_int window),
                mr_retry_after = (if ts \<noteq> [] then py_trunc (hd ts - (now - of_int window)) + 1 else window)\<rparr>,
               dict_set key ts mem)
         else (\<lparr>mr_allowed = True, mr_dimension = dimension, mr_limit = limit,
                mr_remaining = max 0 (limit - int (length ts) - 1),
                mr_reset_at = py_trunc (now + of_int window), mr_retry_after = 0\<rparr>,
               dict_set key (ts @ [now]) mem))"
proof -
  have "sorted (times_of mem key)" using assms by (simp add: memory_inv_def)
  then have "dropWhile (\<lambda>t. t < now - of_int window) (times_of mem key) = in_window (of_int window) now (times_of mem key)"
    by (simp add: in_window_def dropWhile_sorted_filter)
  then show ?thesis by (simp add: memory_sliding_window_def Let_def)
qed

lemma memory_window_times:
  assumes "memory_inv mem prev"
  shows "times_of (snd (memory_sliding_window key limit window dimension now mem)) j =
     (if j = key then in_window (of_int window) now (times_of mem key) @
          (if mr_allowed (fst (memory_sliding_window key limit window dimension now mem)) then [now] else [])
      else times_of mem j)"
    and "mr_allowed (fst (memory_sliding_window key limit window dimension now mem)) =
     (int (length (in_window (of_int window) now (times_of mem key))) < limit)"
  by (simp_all add: memory_window_eq[OF assms] Let_def times_set)

lemma memory_window_inv:
  assumes "memory_inv mem prev" "prev \<le> now"
  shows "memory_inv (snd (memory_sliding_window key limit window dimension now mem)) now"
proof -
  have s: "sorted (times_of mem j)" and le: "t \<in> set (times_of mem j) \<Longrightarrow> t \<le> now" for j t
    using assms by (force simp: memory_inv_def)+
  have "sorted (in_window (of_int window) now (times_of mem key))"
    using s by (simp add: in_window_def sorted_wrt_filter)
  moreover have "t \<le> now" if "t \<in> set (in_window (of_int window) now (times_of mem key))" for t
    using le that by (auto simp: in_window_def)
  ultimately show ?thesis
    using s le by (auto simp: memory_inv_def memory_window_times(1)[OF assms(1)] sorted_append)
qed

definition memory_check :: "(string \<Rightarrow> md_check) \<Rightarrow> string \<Rightarrow> py_time \<Rightarrow> md_memory \<Rightarrow> bool \<times> md_memory" where
  "memory_check cs k now mem =
     (let (res, mem') = memory_sliding_window k (mk_limit (cs k)) (mk_window (cs k)) (mk_dimension (cs k)) now mem
      in (mr_allowed res, mem'))"

interpretation md_window: sliding_window times_of memory_inv "memory_check cs"
    "\<lambda>k. of_int (mk_window (cs k))" "\<lambda>k. mk_limit (cs k)" "\<lambda>k. 0 \<le> mk_window (cs k)"
  for cs
proof (unfold_locales, goal_cases)
  case (1 k)
  then show ?case by simp
next
  case (2 s prev now k)
  then show ?case by (simp add: memory_check_def case_prod_beta memory_window_inv)
next
  case (3 k s prev now)
  then show ?case by (simp add: memory_check_def case_prod_beta memory_window_times(2))
next
  case (4 j s prev now k)
  then show ?case
    by (auto simp: memory_check_def case_prod_beta memory_window_times(1) in_window_append
        in_window_def[of _ _ "[now]"] in_window_def[of _ _ "[]"]) (simp add: in_window_def)+
qed

section \<open>Properties\<close>

text \<open>
  The in-memory limiter never lets more requests of a key through in any of its windows than the
  limit of the key, as long as the clock does not go back.
\<close>

theorem memory_window_bound:
  assumes "0 \<le> mk_window (cs k)" and "sorted (t0 # map snd checks)"
  shows "int (length (filter (\<lambda>a. t - of_int (mk_window (cs k)) \<le> a \<and> a \<le> t)
           (accepted k (fst (run_checks (memory_check cs) checks []))))) \<le> max (mk_limit (cs k)) 0"
proof -
  have "memory_inv [] t0" "\<And>k. times_of [] k = []" by (simp_all add: memory_inv_def times_of_def)
  from md_window.window_bound[where csa = cs and k = k, OF assms(1) this assms(2)] show ?thesis by simp
qed

definition sample_check :: "string \<Rightarrow> md_check" where
  "sample_check k = \<lparr>mk_key = k, mk_limit = 2, mk_window = 60, mk_dimension = ''ip''\<rparr>"

theorem memory_window_bound_witness:
  "let lg = fst (run_checks (memory_check sample_check) [(''k'', 1), (''k'', 2), (''k'', 3)] [])
   in accepted ''k'' lg = [1, 2] \<and>
      int (length (filter (\<lambda>a. 3 - of_int (mk_window (sample_check ''k'')) \<le> a \<and> a \<le> 3) (accepted ''k'' lg))) \<le> 2"
proof -
  have v: "0 \<le> mk_window (sample_check ''k'')" "mk_limit (sample_check ''k'') = 2"
    by (simp_all add: sample_check_def)
  have s: "sorted (0 # map snd [(''k'', 1 :: rat), (''k'', 2), (''k'', 3)])" by simp
  have e: "accepted ''k'' (fst (run_checks (memory_check sample_check) [(''k'', 1), (''k'', 2), (''k'', 3)] [])) = [1, 2]"
    by code_simp
  from memory_window_bound[where cs = sample_check and k = "''k''" and t = 3, OF v(1) s] v(2) show ?thesis unfolding Let_def e by simp
qed

lemma py_trunc_plus_one: "0 \<le> x \<Longrightarrow> x < of_int (py_trunc x) + 1"
  unfolding py_trunc_def by simp linarith

text \<open>
  The \<open>retry_after\<close> of an in-memory rejection is long enough: when the window holds exactly the
  limit, a caller that waits that many seconds, with nobody else asking meanwhile, is let through.
\<close>

theorem memory_retry_after_suffices:
  assumes "memory_inv mem prev" and "prev \<le> now" and "0 \<le> window" and "0 < limit"
    and "int (length (in_window (of_int window) now (times_of mem k))) = limit"
    and "memory_sliding_window k limit window dimen now mem = (res, mem')"
    and "now + of_int (mr_retry_after res) \<le> later"
  shows "\<not> mr_allowed res \<and> mr_allowed (fst (memory_sliding_window k limit window dimen later mem'))"
proof -
  let ?ts = "in_window (of_int window) now (times_of mem k)"
  from assms(4,5) obtain t ts where ts: "?ts = t # ts" by (cases ?ts) auto
  have res: "\<not> mr_allowed res" "mr_retry_after res = py_trunc (t - (now - of_int window)) + 1"
    "times_of mem' k = t # ts"
    using assms(5,6) by (auto simp: memory_window_eq[OF assms(1)] Let_def ts times_set)
  have inv: "memory_inv mem' now"
    using memory_window_inv[OF assms(1,2), of k limit window dimen] assms(6) by simp
  have "t \<in> set ?ts" by (simp add: ts)
  then have "0 \<le> t - (now - of_int window)" by (simp add: in_window_def)
  from py_trunc_plus_one[OF this] assms(7) res(2) have "t < later - of_int window" by simp
  then have "length (in_window (of_int window) later (t # ts)) \<le> length ts"
    by (simp add: in_window_def)
  with assms(5) res show ?thesis
    by (simp add: memory_window_times(2)[OF inv] ts)
qed

theorem memory_retry_after_witness:
  "let (res, mem') = memory_sliding_window ''k'' 1 60 ''ip'' 100 [(''k'', [45])]
   in \<not> mr_allowed res \<and> mr_allowed (fst (memory_sliding_window ''k'' 1 60 ''ip'' 106 mem'))"
proof -
  let ?mem = "[(''k'', [45])] :: md_memory"
  obtain res mem' where e: "memory_sliding_window ''k'' 1 60 ''ip'' 100 ?mem = (res, mem')"
    and r: "mr_retry_after res = 6"
    by (simp add: memory_sliding_window_def Let_def times_of_def py_trunc_def)
  have i: "memory_inv ?mem 45" by (simp add: memory_inv_def times_of_def)
  have l: "int (length (in_window (of_int 60) 100 (times_of ?mem ''k''))) = 1"
    by (simp add: in_window_def times_of_def)
  from memory_retry_after_suffices[OF i _ _ _ l e, of 106] r show ?thesis
    unfolding e by simp
qed

definition busy_db :: alist_db where
  "busy_db = [(''k'', [(''old'', 459 / 10)])]"

definition one_per_minute :: md_check where
  "one_per_minute = \<lparr>mk_key = ''k'', mk_limit = 1, mk_window = 60, mk_dimension = ''ip''\<rparr>"

text \<open>
  Over Redis the advised wait can be too short. The reply of the script carries the earliest
  score truncated to whole seconds, so here a caller that is rejected and told to wait 5 seconds is
  rejected again after exactly 5 seconds.
\<close>

theorem redis_retry_after_too_short:
  "let (res, st) = sliding_window_check alist_ops True ''m'' (1005 / 10) one_per_minute
                     \<lparr>ms_memory = [], ms_redis = Some busy_db\<rparr>;
       (res2, st2) = sliding_window_check alist_ops True ''m2'' (1005 / 10 + of_int (mr_retry_after res))
                     one_per_minute st
   in \<not> mr_allowed res \<and> mr_retry_after res = 5 \<and> \<not> mr_allowed res2"
  by code_simp

end
