(* ===== verification/Idempotency.thy ===== *)
theory Idempotency
  imports Gw_Prelude
begin

text \<open>
  Idempotent internal HTTP calls
  (\<open>src/packages/ai-gateway-core/src/ai_gateway_core/comm/idempotency.py\<close>): the two stores and the
  middleware. Python \<open>bytes\<close> are strings here (a character is one byte), so \<open>latin-1\<close> decoding is the
  identity. SHA-256 and the commands of Redis are not code of the repository: the digest function and
  a record of key-value commands are arguments. \<open>json.dumps\<close> and \<open>json.loads\<close> of the stored payload
  are taken as inverse, so the payload is a record.
\<close>

record cached_response =
  cr_status :: int
  cr_headers :: "(string \<times> string) list"
  cr_body :: string
  cr_digest :: "string option"

text \<open>The operations of a store, the protocol \<open>IdempotencyStore\<close>; each takes the clock.\<close>

record 's idem_ops =
  io_get :: "string \<Rightarrow> py_time \<Rightarrow> 's \<Rightarrow> cached_response option \<times> 's"
  io_begin :: "string \<Rightarrow> int \<Rightarrow> py_time \<Rightarrow> 's \<Rightarrow> bool \<times> 's"
  io_store :: "string \<Rightarrow> cached_response \<Rightarrow> int \<Rightarrow> py_time \<Rightarrow> 's \<Rightarrow> 's"
  io_abort :: "string \<Rightarrow> py_time \<Rightarrow> 's \<Rightarrow> 's"

section \<open>The in-memory store\<close>

type_synonym mem_records = "(string, cached_response option \<times> rat) py_dict"

definition evict_expired :: "py_time \<Rightarrow> mem_records \<Rightarrow> mem_records" where
  "evict_expired now rs = filter (\<lambda>(k, v). \<not> snd v \<le> now) rs"

definition mem_get_cached :: "string \<Rightarrow> py_time \<Rightarrow> mem_records \<Rightarrow> cached_response option \<times> mem_records" where
  "mem_get_cached k now rs0 =
     (let rs = evict_expired now rs0
      in (case dict_get rs k of None \<Rightarrow> None | Some (resp, _) \<Rightarrow> resp, rs))"

definition mem_try_begin :: "string \<Rightarrow> int \<Rightarrow> py_time \<Rightarrow> mem_records \<Rightarrow> bool \<times> mem_records" where
  "mem_try_begin k ttl now rs0 =
     (let rs = evict_expired now rs0
      in if dict_get rs k \<noteq> None then (False, rs)
         else (True, dict_set k (None, now + of_int (max ttl 1)) rs))"

definition mem_store_response :: "string \<Rightarrow> cached_response \<Rightarrow> int \<Rightarrow> py_time \<Rightarrow> mem_records \<Rightarrow> mem_records" where
  "mem_store_response k resp ttl now rs = dict_set k (Some resp, now + of_int (max ttl 1)) rs"

definition mem_abort :: "string \<Rightarrow> py_time \<Rightarrow> mem_records \<Rightarrow> mem_records" where
  "mem_abort k now rs = dict_pop k rs"

definition mem_ops :: "mem_records idem_ops" where
  "mem_ops = \<lparr>io_get = mem_get_cached, io_begin = mem_try_begin, io_store = mem_store_response,
     io_abort = mem_abort\<rparr>"

section \<open>The Redis store\<close>

record response_payload =
  rp_status :: int
  rp_headers :: "(string \<times> string) list"
  rp_body_hex :: string
  rp_digest :: "string option"

datatype kv_value = LockValue | ResponseValue response_payload

record 'kv kv_ops =
  kv_get :: "string \<Rightarrow> py_time \<Rightarrow> 'kv \<Rightarrow> kv_value option"
  kv_set :: "string \<Rightarrow> kv_value \<Rightarrow> int \<Rightarrow> py_time \<Rightarrow> 'kv \<Rightarrow> 'kv"
  kv_set_nx :: "string \<Rightarrow> kv_value \<Rightarrow> int \<Rightarrow> py_time \<Rightarrow> 'kv \<Rightarrow> bool \<times> 'kv"
  kv_del :: "string \<Rightarrow> py_time \<Rightarrow> 'kv \<Rightarrow> 'kv"

definition hex_digit :: "nat \<Rightarrow> char" where
  "hex_digit n = (if n < 10 then char_of (48 + n) else char_of (87 + n))"

definition hex_value :: "char \<Rightarrow> nat option" where
  "hex_value c = (let n = of_char c in
     if 48 \<le> n \<and> n \<le> 57 then Some (n - 48)
     else if 97 \<le> n \<and> n \<le> 102 then Some (n - 87)
     else if 65 \<le> n \<and> n \<le> 70 then Some (n - 55) else None)"

definition bytes_hex :: "string \<Rightarrow> string" where
  "bytes_hex bs = concat (map (\<lambda>b. [hex_digit (of_char b div 16), hex_digit (of_char b mod 16)]) bs)"

text \<open>\<open>bytes.fromhex\<close> on text without blanks; \<open>None\<close> is its \<open>ValueError\<close>.\<close>

fun bytes_fromhex :: "string \<Rightarrow> string option" where
  "bytes_fromhex [] = Some []"
| "bytes_fromhex [c] = None"
| "bytes_fromhex (c # d # cs) =
     (case (hex_value c, hex_value d, bytes_fromhex cs) of
        (Some x, Some y, Some bs) \<Rightarrow> Some (char_of (16 * x + y) # bs) | _ \<Rightarrow> None)"

definition encode_response :: "cached_response \<Rightarrow> response_payload" where
  "encode_response r = \<lparr>rp_status = cr_status r, rp_headers = cr_headers r,
     rp_body_hex = bytes_hex (cr_body r), rp_digest = cr_digest r\<rparr>"

definition decode_response :: "response_payload \<Rightarrow> cached_response option" where
  "decode_response p = map_option (\<lambda>body. \<lparr>cr_status = rp_status p, cr_headers = rp_headers p,
     cr_body = body, cr_digest = rp_digest p\<rparr>) (bytes_fromhex (rp_body_hex p))"

definition lock_key :: "string \<Rightarrow> string \<Rightarrow> string" where
  "lock_key prefix k = prefix @ '':lock:'' @ k"

definition response_key :: "string \<Rightarrow> string \<Rightarrow> string" where
  "response_key prefix k = prefix @ '':response:'' @ k"

definition redis_get_cached ::
  "'kv kv_ops \<Rightarrow> string \<Rightarrow> string \<Rightarrow> py_time \<Rightarrow> 'kv \<Rightarrow> cached_response option \<times> 'kv" where
  "redis_get_cached kv prefix k now st =
     (case kv_get kv (response_key prefix k) now st of
        Some (ResponseValue p) \<Rightarrow> (decode_response p, st) | _ \<Rightarrow> (None, st))"

definition redis_try_begin :: "'kv kv_ops \<Rightarrow> string \<Rightarrow> string \<Rightarrow> int \<Rightarrow> py_time \<Rightarrow> 'kv \<Rightarrow> bool \<times> 'kv" where
  "redis_try_begin kv prefix k ttl now st = kv_set_nx kv (lock_key prefix k) LockValue (max ttl 1) now st"

definition redis_store_response ::
  "'kv kv_ops \<Rightarrow> string \<Rightarrow> string \<Rightarrow> cached_response \<Rightarrow> int \<Rightarrow> py_time \<Rightarrow> 'kv \<Rightarrow> 'kv" where
  "redis_store_response kv prefix k resp ttl now st =
     kv_del kv (lock_key prefix k) now
       (kv_set kv (response_key prefix k) (ResponseValue (encode_response resp)) (max ttl 1) now st)"

definition redis_abort :: "'kv kv_ops \<Rightarrow> string \<Rightarrow> string \<Rightarrow> py_time \<Rightarrow> 'kv \<Rightarrow> 'kv" where
  "redis_abort kv prefix k now st = kv_del kv (lock_key prefix k) now st"

definition redis_ops :: "'kv kv_ops \<Rightarrow> string \<Rightarrow> 'kv idem_ops" where
  "redis_ops kv prefix = \<lparr>io_get = redis_get_cached kv prefix, io_begin = redis_try_begin kv prefix,
     io_store = redis_store_response kv prefix, io_abort = redis_abort kv prefix\<rparr>"

section \<open>Requests\<close>

definition header_value :: "(string \<times> string) list \<Rightarrow> string \<Rightarrow> string" where
  "header_value hs name =
     (case find (\<lambda>(k, v). py_lower k = py_lower name) hs of Some (k, v) \<Rightarrow> v | None \<Rightarrow> [])"

record http_scope =
  hs_type :: string
  hs_method :: string
  hs_path :: string
  hs_headers :: "(string \<times> string) list"

definition key_parts :: "http_scope \<Rightarrow> string \<Rightarrow> string list" where
  "key_parts scope idem_key =
     [py_upper (or_str (hs_method scope) ''GET''), or_str (hs_path scope) ''/'',
      header_value (hs_headers scope) ''x-tenant-id'', header_value (hs_headers scope) ''x-user-id'', idem_key]"

definition store_key :: "(string \<Rightarrow> string) \<Rightarrow> http_scope \<Rightarrow> string \<Rightarrow> string" where
  "store_key sha256 scope idem_key = sha256 (join_with [CHR 0x0A] (key_parts scope idem_key))"

datatype asgi_message = Disconnect | RequestBody string bool | OtherMessage

datatype body_error = BodyTooLarge | Disconnected

text \<open>\<open>_read_body\<close> on the messages received so far: \<open>None\<close> while it waits for another one.\<close>

fun read_body :: "int \<Rightarrow> int \<Rightarrow> string list \<Rightarrow> asgi_message list \<Rightarrow> (body_error + string) option" where
  "read_body max_bytes seen chunks [] = None"
| "read_body max_bytes seen chunks (Disconnect # ms) = Some (Inl Disconnected)"
| "read_body max_bytes seen chunks (OtherMessage # ms) = read_body max_bytes seen chunks ms"
| "read_body max_bytes seen chunks (RequestBody chunk again # ms) =
     (let seen' = seen + int (length chunk)
      in if max_bytes < seen' then Some (Inl BodyTooLarge)
         else if again then read_body max_bytes seen' (chunks @ [chunk]) ms
         else Some (Inr (concat (chunks @ [chunk]))))"

datatype reply = Replayed cached_response | Plain int string | FromApp | AppFailed

definition send_cached :: "cached_response \<Rightarrow> cached_response" where
  "send_cached r = r\<lparr>cr_headers :=
     filter (\<lambda>(name, v). py_lower name \<notin> {''content-length'', ''transfer-encoding''}) (cr_headers r)
       @ [(''x-idempotency-replayed'', ''true'')]\<rparr>"

definition send_cached_or_conflict :: "cached_response \<Rightarrow> string \<Rightarrow> reply" where
  "send_cached_or_conflict r digest =
     (if cr_digest r \<noteq> Some digest
      then Plain 409 ''Idempotency key was already used with a different request body''
      else Replayed (send_cached r))"

section \<open>The middleware\<close>

record mw_config =
  mw_ttl :: int
  mw_wait_timeout :: rat
  mw_wait_poll :: rat
  mw_max_body :: int
  mw_header :: string

definition mk_mw_config :: "int \<Rightarrow> rat \<Rightarrow> rat \<Rightarrow> int \<Rightarrow> string \<Rightarrow> mw_config" where
  "mk_mw_config ttl timeout poll max_body header =
     \<lparr>mw_ttl = max ttl 1, mw_wait_timeout = max timeout 0, mw_wait_poll = max poll (1 / 1000),
      mw_max_body = max max_body 0, mw_header = py_lower header\<rparr>"

text \<open>What the middleware does with a request before it touches the store.\<close>

datatype front = PassThrough | TooLarge | GoneAway | Pending | Guarded string string

definition mw_front ::
  "mw_config \<Rightarrow> (string \<Rightarrow> string) \<Rightarrow> http_scope \<Rightarrow> asgi_message list \<Rightarrow> front" where
  "mw_front cfg sha256 scope msgs =
     (if hs_type scope \<noteq> ''http'' then PassThrough
      else if py_upper (or_str (hs_method scope) ''GET'') \<in> {''GET'', ''HEAD'', ''OPTIONS''} then PassThrough
      else (let k = header_value (hs_headers scope) (mw_header cfg)
            in if k = [] then PassThrough
               else case read_body (mw_max_body cfg) 0 [] msgs of
                      None \<Rightarrow> Pending
                    | Some (Inl BodyTooLarge) \<Rightarrow> TooLarge
                    | Some (Inl Disconnected) \<Rightarrow> GoneAway
                    | Some (Inr body) \<Rightarrow> Guarded (store_key sha256 scope k) (sha256 body)))"

text \<open>A guarded request: the sections of \<open>__call__\<close> between its awaits on the store.\<close>

datatype mw_proc =
    Lookup string string
  | Claim string string
  | Waiting string string py_time
  | Running string string
  | Replied reply

text \<open>How the application ends, as \<open>wrapped_send\<close> saw it: status, headers, body, streaming or not.\<close>

datatype app_result = AppReturned int "(string \<times> string) list" string | AppRaised

definition is_streaming :: "(string \<times> string) list \<Rightarrow> bool" where
  "is_streaming hs = starts_with (py_lower (header_value hs ''content-type'')) ''text/event-stream''"

datatype mw_event = MwArrive string string | MwStep nat | MwFinish nat app_result

record 's mw_sys =
  my_store :: 's
  my_procs :: "mw_proc list"
  my_runs :: "string list"
  my_stored :: "(string \<times> cached_response) list"

definition mw_lookup :: "'s idem_ops \<Rightarrow> string \<Rightarrow> string \<Rightarrow> py_time \<Rightarrow> 's mw_sys \<Rightarrow> mw_proc \<times> 's mw_sys" where
  "mw_lookup ops k digest now s =
     (let (cached, st) = io_get ops k now (my_store s)
      in (case cached of Some r \<Rightarrow> Replied (send_cached_or_conflict r digest) | None \<Rightarrow> Claim k digest,
          s\<lparr>my_store := st\<rparr>))"

definition mw_claim ::
  "'s idem_ops \<Rightarrow> mw_config \<Rightarrow> string \<Rightarrow> string \<Rightarrow> py_time \<Rightarrow> 's mw_sys \<Rightarrow> mw_proc \<times> 's mw_sys" where
  "mw_claim ops cfg k digest now s =
     (let (owns, st) = io_begin ops k (mw_ttl cfg) now (my_store s)
      in if owns then (Running k digest, s\<lparr>my_store := st, my_runs := my_runs s @ [k]\<rparr>)
         else (Waiting k digest (now + mw_wait_timeout cfg), s\<lparr>my_store := st\<rparr>))"

text \<open>One round of \<open>wait_for_cached\<close>; the last one, after the deadline, decides.\<close>

definition mw_poll ::
  "'s idem_ops \<Rightarrow> string \<Rightarrow> string \<Rightarrow> py_time \<Rightarrow> py_time \<Rightarrow> 's mw_sys \<Rightarrow> mw_proc \<times> 's mw_sys" where
  "mw_poll ops k digest deadline now s =
     (let (cached, st) = io_get ops k now (my_store s)
      in (case cached of
            Some r \<Rightarrow> Replied (send_cached_or_conflict r digest)
          | None \<Rightarrow> if deadline \<le> now then Replied (Plain 409 ''Idempotency request still in progress'')
                     else Waiting k digest deadline,
          s\<lparr>my_store := st\<rparr>))"

definition mw_finish ::
  "'s idem_ops \<Rightarrow> mw_config \<Rightarrow> string \<Rightarrow> string \<Rightarrow> app_result \<Rightarrow> py_time \<Rightarrow> 's mw_sys \<Rightarrow> mw_proc \<times> 's mw_sys" where
  "mw_finish ops cfg k digest res now s =
     (case res of
        AppRaised \<Rightarrow> (Replied AppFailed, s\<lparr>my_store := io_abort ops k now (my_store s)\<rparr>)
      | AppReturned status hs body \<Rightarrow>
          if is_streaming hs \<or> 500 \<le> status
          then (Replied FromApp, s\<lparr>my_store := io_abort ops k now (my_store s)\<rparr>)
          else (let r = \<lparr>cr_status = status, cr_headers = hs, cr_body = body, cr_digest = Some digest\<rparr>
                in (Replied FromApp, s\<lparr>my_store := io_store ops k r (mw_ttl cfg) now (my_store s),
                      my_stored := my_stored s @ [(k, r)]\<rparr>)))"

definition put_proc :: "nat \<Rightarrow> mw_proc \<times> 's mw_sys \<Rightarrow> 's mw_sys" where
  "put_proc i ps = (snd ps)\<lparr>my_procs := (my_procs (snd ps))[i := fst ps]\<rparr>"

fun mw_exec :: "'s idem_ops \<Rightarrow> mw_config \<Rightarrow> py_time \<Rightarrow> mw_event \<Rightarrow> 's mw_sys \<Rightarrow> 's mw_sys" where
  "mw_exec ops cfg now (MwArrive k digest) s = s\<lparr>my_procs := my_procs s @ [Lookup k digest]\<rparr>"
| "mw_exec ops cfg now (MwStep i) s =
     (if i < length (my_procs s)
      then (case my_procs s ! i of
              Lookup k d \<Rightarrow> put_proc i (mw_lookup ops k d now s)
            | Claim k d \<Rightarrow> put_proc i (mw_claim ops cfg k d now s)
            | Waiting k d dl \<Rightarrow> put_proc i (mw_poll ops k d dl now s)
            | _ \<Rightarrow> s)
      else s)"
| "mw_exec ops cfg now (MwFinish i res) s =
     (if i < length (my_procs s)
      then (case my_procs s ! i of Running k d \<Rightarrow> put_proc i (mw_finish ops cfg k d res now s) | _ \<Rightarrow> s)
      else s)"

definition mw_init :: "'s \<Rightarrow> 's mw_sys" where
  "mw_init st = \<lparr>my_store = st, my_procs = [], my_runs = [], my_stored = []\<rparr>"

fun mw_run :: "'s idem_ops \<Rightarrow> mw_config \<Rightarrow> (py_time \<times> mw_event) list \<Rightarrow> 's mw_sys \<Rightarrow> 's mw_sys" where
  "mw_run ops cfg [] s = s"
| "mw_run ops cfg ((now, ev) # evs) s = mw_run ops cfg evs (mw_exec ops cfg now ev s)"

section \<open>The store interface\<close>

datatype key_state = KeyFree | KeyBusy | KeyDone cached_response

text \<open>
  What the middleware needs of a store: \<open>state_of\<close> reads the state of a key at a time. A lookup tells
  a finished key and nothing else; \<open>try_begin\<close> succeeds exactly on a free key and makes it busy for
  the time to live; a stored response makes it done for that long; an abort frees it; no
  operation on one key disturbs another; and only storing a response makes a key done, at any time.
\<close>

locale idem_store =
  fixes ops :: "'s idem_ops"
    and state_of :: "'s \<Rightarrow> rat \<Rightarrow> string \<Rightarrow> key_state"
    and inv :: "'s \<Rightarrow> bool"
  assumes inv_ops: "inv s \<Longrightarrow> inv (snd (io_get ops k now s))" "inv s \<Longrightarrow> inv (snd (io_begin ops k ttl now s))"
      "inv s \<Longrightarrow> inv (io_store ops k r ttl now s)" "inv s \<Longrightarrow> inv (io_abort ops k now s)"
    and get_result: "inv s \<Longrightarrow> fst (io_get ops k now s) =
          (case state_of s now k of KeyDone r \<Rightarrow> Some r | _ \<Rightarrow> None)"
    and get_state: "inv s \<Longrightarrow> now \<le> t \<Longrightarrow> state_of (snd (io_get ops k now s)) t j = state_of s t j"
    and begin_result: "inv s \<Longrightarrow> fst (io_begin ops k ttl now s) = (state_of s now k = KeyFree)"
    and begin_state: "inv s \<Longrightarrow> now \<le> t \<Longrightarrow> t < now + of_int (max ttl 1) \<Longrightarrow>
          state_of (snd (io_begin ops k ttl now s)) t j =
            (if j = k \<and> state_of s now k = KeyFree then KeyBusy else state_of s t j)"
    and store_state: "inv s \<Longrightarrow> now \<le> t \<Longrightarrow> t < now + of_int (max ttl 1) \<Longrightarrow>
          state_of (io_store ops k r ttl now s) t j = (if j = k then KeyDone r else state_of s t j)"
    and abort_state: "inv s \<Longrightarrow> now \<le> t \<Longrightarrow>
          state_of (io_abort ops k now s) t j = (if j = k then KeyFree else state_of s t j)"
    and begin_done: "inv s \<Longrightarrow> now \<le> t \<Longrightarrow> state_of (snd (io_begin ops k ttl now s)) t j = KeyDone r \<Longrightarrow>
          state_of s t j = KeyDone r"
    and store_done: "inv s \<Longrightarrow> now \<le> t \<Longrightarrow> state_of (io_store ops k r ttl now s) t j = KeyDone r' \<Longrightarrow>
          if j = k then r' = r else state_of s t j = KeyDone r'"

definition runs_key :: "string \<Rightarrow> mw_proc \<Rightarrow> bool" where
  "runs_key k p = (case p of Running j d \<Rightarrow> j = k | _ \<Rightarrow> False)"

definition running :: "string \<Rightarrow> mw_proc list \<Rightarrow> nat" where
  "running k ps = length (filter (runs_key k) ps)"

definition stored_for :: "string \<Rightarrow> (string \<times> cached_response) list \<Rightarrow> cached_response list" where
  "stored_for k st = map snd (filter (\<lambda>e. fst e = k) st)"

lemma running_update:
  "i < length ps \<Longrightarrow> running k (ps[i := p]) + (if runs_key k (ps ! i) then 1 else 0) =
     running k ps + (if runs_key k p then 1 else 0)"
proof (induction ps arbitrary: i)
  case (Cons q ps)
  show ?case
  proof (cases i)
    case (Suc j)
    with Cons.IH[of j] Cons.prems show ?thesis by (simp add: running_def split: if_splits)
  qed (simp add: running_def)
qed simp

lemma running_append [simp]: "running k (ps @ [p]) = running k ps + (if runs_key k p then 1 else 0)"
  by (simp add: running_def)

lemma stored_for_append [simp]: "stored_for k (xs @ [(j, r)]) = stored_for k xs @ (if j = k then [r] else [])"
  by (simp add: stored_for_def)

lemma running_pos: "i < length ps \<Longrightarrow> runs_key k (ps ! i) \<Longrightarrow> 1 \<le> running k ps"
  using nth_mem[of i ps] by (auto simp: running_def Suc_le_eq filter_empty_conv)

context idem_store
begin

text \<open>
  One key up to the horizon \<open>H\<close>, counted from a state with \<open>n\<close> stored responses of it. Either no execution
  of it is going on and nothing was stored since; or exactly one is, and the store says so; or one has
  stored its response, and the store holds it.
\<close>

definition phase :: "string \<Rightarrow> rat \<Rightarrow> nat \<Rightarrow> rat \<Rightarrow> 's mw_sys \<Rightarrow> bool" where
  "phase k H n prev s \<longleftrightarrow> inv (my_store s) \<and>
     (running k (my_procs s) = 0 \<and> length (stored_for k (my_stored s)) = n \<or>
      running k (my_procs s) = 1 \<and> length (stored_for k (my_stored s)) = n \<and>
        (\<forall>t. prev \<le> t \<longrightarrow> t < H \<longrightarrow> state_of (my_store s) t k = KeyBusy) \<or>
      running k (my_procs s) = 0 \<and> length (stored_for k (my_stored s)) = Suc n \<and>
        (\<forall>t. prev \<le> t \<longrightarrow> t < H \<longrightarrow> state_of (my_store s) t k = KeyDone (last (stored_for k (my_stored s)))))"

text \<open>Whatever the store would replay is the response that was stored last.\<close>

definition replays_last :: "string \<Rightarrow> rat \<Rightarrow> 's mw_sys \<Rightarrow> bool" where
  "replays_last k prev s \<longleftrightarrow> (\<forall>t r. prev \<le> t \<longrightarrow> state_of (my_store s) t k = KeyDone r \<longrightarrow>
     stored_for k (my_stored s) \<noteq> [] \<and> r = last (stored_for k (my_stored s)))"

lemma phase_inv: "phase k H n prev s \<Longrightarrow> inv (my_store s)"
  by (simp add: phase_def)

lemma phase_mono: "phase k H n prev s \<Longrightarrow> prev \<le> now \<Longrightarrow> phase k H n now s"
  unfolding phase_def by (meson order_trans)

lemma phase_cong:
  assumes "phase k H n prev s" "prev \<le> now" "inv (my_store s')"
    and "running k (my_procs s') = running k (my_procs s)" "my_stored s' = my_stored s"
    and "\<And>t. now \<le> t \<Longrightarrow> t < H \<Longrightarrow> state_of (my_store s') t k = state_of (my_store s) t k"
  shows "phase k H n now s'"
  using phase_mono[OF assms(1,2)] assms(3-6) unfolding phase_def by auto

lemma phase_le: "phase k H n prev s \<Longrightarrow> running k (my_procs s) + length (stored_for k (my_stored s)) \<le> Suc n"
  by (auto simp: phase_def)

lemma running_set:
  assumes "i < length (my_procs s)" "runs_key k (my_procs s ! i) = runs_key k p"
  shows "running k ((my_procs s)[i := p]) = running k (my_procs s)"
  using running_update[OF assms(1), of k p] assms(2) by (simp split: if_splits)

lemma phase_claim:
  assumes ph: "phase k H n prev s" and le: "prev \<le> now" and H: "now < H" "H \<le> now + of_int (max (mw_ttl cfg) 1)"
    and i: "i < length (my_procs s)" and p: "my_procs s ! i = Claim j d"
  shows "phase k H n now (put_proc i (mw_claim ops cfg j d now s))"
proof -
  note I = phase_inv[OF ph]
  let ?st = "snd (io_begin ops j (mw_ttl cfg) now (my_store s))"
  have st: "state_of ?st t k = (if k = j \<and> state_of (my_store s) now j = KeyFree then KeyBusy else state_of (my_store s) t k)"
    if "now \<le> t" "t < H" for t
    using begin_state[OF I that(1), of "mw_ttl cfg" j k] that(2) H by auto
  note rb = begin_result[OF I, of j "mw_ttl cfg" now]
  show ?thesis
  proof (cases "k = j \<and> state_of (my_store s) now j = KeyFree")
    case False
    then show ?thesis
      using rb by (intro phase_cong[OF ph le])
        (auto simp: mw_claim_def put_proc_def case_prod_beta inv_ops I st runs_key_def p intro!: running_set[OF i])
  next
    case True
    have "running k (my_procs s) = 0 \<and> length (stored_for k (my_stored s)) = n"
      using ph True le H(1) unfolding phase_def by auto
    moreover have "running k ((my_procs s)[i := Running k d]) = Suc (running k (my_procs s))"
      using running_update[OF i, of k "Running k d"] by (simp add: p runs_key_def)
    ultimately show ?thesis
      using True rb st inv_ops(2)[OF I] by (simp add: phase_def mw_claim_def put_proc_def case_prod_beta)
  qed
qed

lemma phase_finish:
  assumes ph: "phase k H n prev s" and le: "prev \<le> now" and H: "H \<le> now + of_int (max (mw_ttl cfg) 1)"
    and i: "i < length (my_procs s)" and p: "my_procs s ! i = Running j d"
  shows "phase k H n now (put_proc i (mw_finish ops cfg j d res now s))"
proof (cases "j = k")
  case False
  note I = phase_inv[OF ph]
  have r: "running k ((my_procs s)[i := Replied x]) = running k (my_procs s)" for x
    using False by (intro running_set[OF i]) (simp add: p runs_key_def)
  have st: "state_of (io_store ops j r (mw_ttl cfg) now (my_store s)) t k = state_of (my_store s) t k"
    if "now \<le> t" "t < H" for t r
    using store_state[OF I that(1), of "mw_ttl cfg" j r k] that(2) H False by auto
  from False phase_mono[OF ph le] show ?thesis
    by (cases res) (simp_all add: mw_finish_def put_proc_def phase_def Let_def r st inv_ops abort_state)
next
  case True
  note I = phase_inv[OF ph]
  have "1 \<le> running k (my_procs s)"
    using running_pos[OF i, of k] by (simp add: p runs_key_def True)
  then have one: "running k (my_procs s) = 1" "length (stored_for k (my_stored s)) = n"
    using ph by (auto simp: phase_def)
  have r: "running k ((my_procs s)[i := Replied x]) = 0" for x
    using running_update[OF i, of k "Replied x"] one(1) by (simp add: p runs_key_def True)
  have st: "state_of (io_store ops k r (mw_ttl cfg) now (my_store s)) t k = KeyDone r"
    if "now \<le> t" "t < H" for t r
    using store_state[OF I that(1), of "mw_ttl cfg" k r k] that(2) H by auto
  show ?thesis
    by (cases res) (simp_all add: mw_finish_def put_proc_def phase_def Let_def r one st inv_ops I True)
qed

lemma phase_exec:
  assumes ph: "phase k H n prev s" and le: "prev \<le> now" and H: "now < H" "H \<le> now + of_int (max (mw_ttl cfg) 1)"
  shows "phase k H n now (mw_exec ops cfg now ev s)"
proof (cases ev)
  case (MwArrive j d)
  with phase_mono[OF ph le] show ?thesis by (simp add: phase_def runs_key_def)
next
  case (MwFinish i res)
  with phase_mono[OF ph le] phase_finish[OF ph le H(2)] show ?thesis by (auto split: mw_proc.splits)
next
  case (MwStep i)
  note I = phase_inv[OF ph]
  have idle: "phase k H n now (put_proc i (p, s\<lparr>my_store := snd (io_get ops j now (my_store s))\<rparr>))"
    if "i < length (my_procs s)" "\<not> runs_key k (my_procs s ! i)" "\<not> runs_key k p" for p j
    using that by (intro phase_cong[OF ph le])
      (simp_all add: put_proc_def inv_ops I get_state[OF I] running_set)
  show ?thesis
  proof (cases "i < length (my_procs s)")
    case False
    with MwStep phase_mono[OF ph le] show ?thesis by simp
  next
    case i: True
    show ?thesis
    proof (cases "my_procs s ! i")
      case (Claim j d)
      with MwStep i phase_claim[OF ph le H i] show ?thesis by simp
    next
      case (Lookup j d)
      with MwStep i show ?thesis
        by (auto simp: mw_lookup_def case_prod_beta runs_key_def split: option.split intro!: idle)
    next
      case (Waiting j d dl)
      with MwStep i show ?thesis
        by (auto simp: mw_poll_def case_prod_beta runs_key_def split: option.split intro!: idle)
    qed (use MwStep phase_mono[OF ph le] in simp_all)
  qed
qed

lemma phase_run:
  assumes "phase k H n prev s" "sorted (prev # map fst evs)"
    and "list_all (\<lambda>e. fst e < H) evs" "H \<le> prev + of_int (max (mw_ttl cfg) 1)"
  shows "phase k H n (last (prev # map fst evs)) (mw_run ops cfg evs s)"
  using assms
proof (induction evs arbitrary: s prev)
  case (Cons ev evs)
  obtain now e where ev: "ev = (now, e)" by (cases ev)
  have "phase k H n now (mw_exec ops cfg now e s)"
    using Cons.prems by (intro phase_exec[of k H n prev]) (auto simp: ev)
  from Cons.IH[OF this] Cons.prems(2-4) show ?case by (auto simp: ev)
qed simp

lemma replays_exec:
  assumes rl: "replays_last k prev s" and I: "inv (my_store s)" and le: "prev \<le> now"
  shows "replays_last k now (mw_exec ops cfg now ev s) \<and> inv (my_store (mw_exec ops cfg now ev s))"
proof -
  have mono: "replays_last k now s" using rl le unfolding replays_last_def by (meson order_trans)
  have keep: "replays_last k now s'" if "my_stored s' = my_stored s"
    "\<And>t r. now \<le> t \<Longrightarrow> state_of (my_store s') t k = KeyDone r \<Longrightarrow> state_of (my_store s) t k = KeyDone r" for s'
    using mono that unfolding replays_last_def by metis
  have finish: "replays_last k now (put_proc i (mw_finish ops cfg j d res now s)) \<and>
      inv (my_store (put_proc i (mw_finish ops cfg j d res now s)))" for i j d res
  proof (cases "\<exists>st hs b. res = AppReturned st hs b \<and> \<not> (is_streaming hs \<or> 500 \<le> st)")
    case False
    then have "my_store (put_proc i (mw_finish ops cfg j d res now s)) = io_abort ops j now (my_store s)"
      "my_stored (put_proc i (mw_finish ops cfg j d res now s)) = my_stored s"
      by (cases res; auto simp: mw_finish_def put_proc_def)+
    then show ?thesis using abort_state[OF I] inv_ops(4)[OF I]
      by (auto intro!: keep split: if_splits)
  next
    case True
    then obtain r where "my_store (put_proc i (mw_finish ops cfg j d res now s)) = io_store ops j r (mw_ttl cfg) now (my_store s)"
      "my_stored (put_proc i (mw_finish ops cfg j d res now s)) = my_stored s @ [(j, r)]"
      by (auto simp: mw_finish_def put_proc_def Let_def)
    then show ?thesis using store_done[OF I] mono inv_ops(3)[OF I]
      by (auto simp: replays_last_def split: if_splits)
  qed
  have get: "replays_last k now (put_proc i (p, s\<lparr>my_store := snd (io_get ops j now (my_store s))\<rparr>)) \<and>
      inv (my_store (put_proc i (p, s\<lparr>my_store := snd (io_get ops j now (my_store s))\<rparr>)))" for i j p
    using get_state[OF I] inv_ops(1)[OF I] by (auto intro!: keep simp: put_proc_def)
  have claim: "replays_last k now (put_proc i (mw_claim ops cfg j d now s)) \<and>
      inv (my_store (put_proc i (mw_claim ops cfg j d now s)))" for i j d
    using begin_done[OF I] inv_ops(2)[OF I]
    by (auto intro!: keep simp: put_proc_def mw_claim_def case_prod_beta)
  show ?thesis
  proof (cases ev)
    case (MwArrive j d)
    with mono I show ?thesis by (simp add: replays_last_def)
  next
    case (MwFinish i res)
    with mono I finish show ?thesis by (auto split: mw_proc.splits)
  next
    case (MwStep i)
    with mono I get claim show ?thesis
      by (auto simp: mw_lookup_def mw_poll_def case_prod_beta split: mw_proc.splits)
  qed
qed

lemma replays_run:
  assumes "replays_last k prev s" "inv (my_store s)" "sorted (prev # map fst evs)"
  shows "replays_last k (last (prev # map fst evs)) (mw_run ops cfg evs s) \<and> inv (my_store (mw_run ops cfg evs s))"
  using assms
proof (induction evs arbitrary: s prev)
  case (Cons ev evs)
  obtain now e where ev: "ev = (now, e)" by (cases ev)
  have "replays_last k now (mw_exec ops cfg now e s) \<and> inv (my_store (mw_exec ops cfg now e s))"
    using Cons.prems by (intro replays_exec[of k prev]) (auto simp: ev)
  with Cons.IH[of now "mw_exec ops cfg now e s"] Cons.prems(3) show ?case by (auto simp: ev)
qed simp

end

section \<open>The in-memory store provides the interface\<close>

definition mem_state :: "mem_records \<Rightarrow> rat \<Rightarrow> string \<Rightarrow> key_state" where
  "mem_state rs t k =
     (case dict_get rs k of None \<Rightarrow> KeyFree
      | Some (resp, e) \<Rightarrow> if e \<le> t then KeyFree
          else (case resp of None \<Rightarrow> KeyBusy | Some r \<Rightarrow> KeyDone r))"

lemma evict_get:
  "dict_ok rs \<Longrightarrow> dict_get (evict_expired now rs) k =
     (case dict_get rs k of None \<Rightarrow> None | Some v \<Rightarrow> if snd v \<le> now then None else Some v)"
  using dict_get_filter[of rs "\<lambda>k v. \<not> snd v \<le> now" k]
  by (auto simp: evict_expired_def split: option.splits)

lemma evict_ok [simp]: "dict_ok rs \<Longrightarrow> dict_ok (evict_expired now rs)"
  by (simp add: evict_expired_def)

lemma evict_state: "dict_ok rs \<Longrightarrow> now \<le> t \<Longrightarrow> mem_state (evict_expired now rs) t k = mem_state rs t k"
  by (auto simp: mem_state_def evict_get split: option.splits)

interpretation mem: idem_store mem_ops mem_state dict_ok
proof (unfold_locales, goal_cases)
  case (5 s k now)
  then show ?case
    by (auto simp: mem_ops_def mem_get_cached_def Let_def evict_get mem_state_def split: option.splits)
next
  case (6 s now t k j)
  then show ?case by (simp add: mem_ops_def mem_get_cached_def Let_def evict_state)
next
  case (7 s k ttl now)
  then show ?case
    by (auto simp: mem_ops_def mem_try_begin_def Let_def evict_get mem_state_def split: option.splits)
next
  case (8 s now t ttl k j)
  have g: "(dict_get (evict_expired now s) k = None) = (mem_state s now k = KeyFree)"
    using 8(1) by (auto simp: evict_get mem_state_def split: option.splits)
  have "mem_state (dict_set k (None, now + rat_of_int (max ttl 1)) (evict_expired now s)) t j =
      (if j = k then KeyBusy else mem_state (evict_expired now s) t j)"
    using 8(3) by (auto simp: mem_state_def dict_get_set)
  with g 8 show ?case
    by (auto simp: mem_ops_def mem_try_begin_def Let_def evict_state)
next
  case (11 s now t k ttl j r)
  have "mem_state (dict_set k (None, now + rat_of_int (max ttl 1)) (evict_expired now s)) t j = KeyDone r \<Longrightarrow>
      mem_state (evict_expired now s) t j = KeyDone r"
    by (auto simp: mem_state_def dict_get_set split: if_splits)
  with 11 show ?case
    by (auto simp: mem_ops_def mem_try_begin_def Let_def evict_state split: if_splits)
next
  case (12 s now t k r ttl r' j)
  then show ?case
    by (auto simp: mem_ops_def mem_store_response_def mem_state_def dict_get_set split: if_splits option.splits)
qed (auto simp: mem_ops_def mem_get_cached_def mem_try_begin_def mem_store_response_def mem_abort_def
      Let_def mem_state_def dict_get_set dict_get_pop split: option.splits)

section \<open>Properties\<close>

lemma mem_run_store:
  "sorted (map fst evs @ [t]) \<Longrightarrow>
     mem.replays_last k t (mw_run mem_ops cfg evs (mw_init [])) \<and> dict_ok (my_store (mw_run mem_ops cfg evs (mw_init [])))"
proof (cases evs)
  case (Cons e es)
  assume s: "sorted (map fst evs @ [t])"
  have "mem.replays_last k (fst e) (mw_init [])"
    by (simp add: mem.replays_last_def mw_init_def mem_state_def)
  moreover have "dict_ok (my_store (mw_init ([] :: mem_records)))" by (simp add: mw_init_def)
  ultimately have r: "mem.replays_last k (last (map fst evs)) (mw_run mem_ops cfg evs (mw_init [])) \<and>
      dict_ok (my_store (mw_run mem_ops cfg evs (mw_init [])))"
    using mem.replays_run[of k "fst e" "mw_init []" evs cfg] s Cons by (auto simp: sorted_append)
  have "\<forall>x \<in> set (map fst evs). x \<le> t" using s unfolding sorted_append by simp
  then have "last (map fst evs) \<le> t" by (rule bspec) (rule last_in_set, use Cons in simp)
  with r show ?thesis unfolding mem.replays_last_def by (meson order_trans)
qed (simp add: mem.replays_last_def mw_init_def mem_state_def)

lemma mw_run_append: "mw_run ops cfg (as @ bs) s = mw_run ops cfg bs (mw_run ops cfg as s)"
  by (induction as arbitrary: s) auto

lemma mem_phase_stored:
  assumes "dict_ok (my_store s)" "running k (my_procs (mw_exec mem_ops cfg t (MwFinish i res) s)) = 0"
    and "length (stored_for k (my_stored (mw_exec mem_ops cfg t (MwFinish i res) s))) = Suc n"
      "length (stored_for k (my_stored s)) = n"
  shows "mem.phase k (t + of_int (max (mw_ttl cfg) 1)) n t (mw_exec mem_ops cfg t (MwFinish i res) s)"
proof -
  let ?s = "mw_exec mem_ops cfg t (MwFinish i res) s"
  have "?s \<noteq> s" using assms(3,4) by (metis n_not_Suc_n)
  then obtain j d where i: "i < length (my_procs s)" "my_procs s ! i = Running j d"
    by (cases "i < length (my_procs s)"; cases "my_procs s ! i") simp_all
  with assms(3,4) obtain r where st: "my_store ?s = mem_store_response j r (mw_ttl cfg) t (my_store s)"
      "my_stored ?s = my_stored s @ [(j, r)]"
    by (cases res) (auto simp: mw_finish_def put_proc_def mem_ops_def Let_def split: if_splits)
  then have j: "j = k" using assms(3,4) by (auto split: if_splits)
  have "mem_state (my_store ?s) t' k = KeyDone (last (stored_for k (my_stored ?s)))"
    if "t' < t + of_int (max (mw_ttl cfg) 1)" for t'
    using that unfolding st j by (simp add: mem_store_response_def mem_state_def dict_get_set)
  moreover have "dict_ok (my_store ?s)"
    using assms(1) unfolding st mem_store_response_def by simp
  ultimately show ?thesis using assms(2,3) by (simp add: mem.phase_def)
qed

text \<open>
  C4: over the in-memory store, in any window no longer than the time to live that starts, after any history,
  while a key is not being executed, the key is executed at most once at a time, and not again once an execution
  in the window has stored its response, however the requests interleave; if a response was stored as the
  window starts, the key is not executed in it at all. And whatever is replayed to a request, at its lookup or
  while it waits, is the response that was stored last for its key, and only to the body it was stored for.
\<close>

theorem idempotent_at_most_once:
  assumes "sorted (map fst evs0 @ t0 # map fst evs)"
    and "list_all (\<lambda>e. fst e < t0 + of_int (max (mw_ttl cfg) 1)) evs"
    and "s0 = mw_run mem_ops cfg evs0 (mw_init [])" and "running k (my_procs s0) = 0"
    and "s = mw_run mem_ops cfg evs s0"
  shows "running k (my_procs s) + length (stored_for k (my_stored s)) \<le> Suc (length (stored_for k (my_stored s0))) \<and>
    (\<forall>pre i res. evs0 = pre @ [(t0, MwFinish i res)] \<longrightarrow>
       length (stored_for k (my_stored s0)) = Suc (length (stored_for k (my_stored (mw_run mem_ops cfg pre (mw_init []))))) \<longrightarrow>
       running k (my_procs s) + length (stored_for k (my_stored s)) \<le> length (stored_for k (my_stored s0))) \<and>
    (\<forall>now i d dl r. last (t0 # map fst evs) \<le> now \<longrightarrow> i < length (my_procs s) \<longrightarrow>
       my_procs s ! i \<in> {Lookup k d, Waiting k d dl} \<longrightarrow>
       my_procs (mw_exec mem_ops cfg now (MwStep i) s) ! i = Replied (Replayed r) \<longrightarrow>
       stored_for k (my_stored s) \<noteq> [] \<and> r = send_cached (last (stored_for k (my_stored s))) \<and>
       cr_digest (last (stored_for k (my_stored s))) = Some d)"
proof (intro conjI allI impI)
  have s0: "mem.replays_last k t0 s0" "dict_ok (my_store s0)"
    using mem_run_store[of evs0 t0 k cfg] assms(1,3) by (auto simp: sorted_append)
  have so: "sorted (t0 # map fst evs)" using assms(1) by (auto simp: sorted_append)
  have run: "mem.phase k (t0 + of_int (max (mw_ttl cfg) 1)) n (last (t0 # map fst evs)) s"
    if "mem.phase k (t0 + of_int (max (mw_ttl cfg) 1)) n t0 s0" for n
    using mem.phase_run[OF that so assms(2)] assms(5) by simp
  show "running k (my_procs s) + length (stored_for k (my_stored s)) \<le> Suc (length (stored_for k (my_stored s0)))"
    by (rule mem.phase_le[OF run]) (simp add: mem.phase_def s0 assms(4))
  show "running k (my_procs s) + length (stored_for k (my_stored s)) \<le> length (stored_for k (my_stored s0))"
    if e: "evs0 = pre @ [(t0, MwFinish i res)]"
      and l: "length (stored_for k (my_stored s0)) = Suc (length (stored_for k (my_stored (mw_run mem_ops cfg pre (mw_init [])))))"
    for pre i res
  proof -
    have "sorted (map fst pre @ [t0])" using assms(1) by (simp add: e sorted_append)
    then have "dict_ok (my_store (mw_run mem_ops cfg pre (mw_init [])))" by (simp add: mem_run_store)
    note p = mem_phase_stored[OF this, of k cfg t0 i res, OF _ _ refl]
    have s: "s0 = mw_exec mem_ops cfg t0 (MwFinish i res) (mw_run mem_ops cfg pre (mw_init []))"
      by (simp only: assms(3) e mw_run_append mw_run.simps)
    show ?thesis
      unfolding l by (rule mem.phase_le[OF run]) (use p assms(4) l in \<open>simp only: s\<close>)
  qed
  fix now i d dl r
  assume n: "last (t0 # map fst evs) \<le> now" and i: "i < length (my_procs s)"
    and p: "my_procs s ! i \<in> {Lookup k d, Waiting k d dl}"
    and r: "my_procs (mw_exec mem_ops cfg now (MwStep i) s) ! i = Replied (Replayed r)"
  have s: "mem.replays_last k (last (t0 # map fst evs)) s" "dict_ok (my_store s)"
    using mem.replays_run[OF s0 so, of cfg] assms(5) by auto
  obtain c where c: "fst (io_get mem_ops k now (my_store s)) = Some c" "send_cached_or_conflict c d = Replayed r"
    using r p i by (auto simp: mw_lookup_def mw_poll_def put_proc_def case_prod_beta split: option.splits if_splits)
  have "mem_state (my_store s) now k = KeyDone c"
    using mem.get_result[OF s(2), of k now] c(1) by (simp split: key_state.splits)
  then show "stored_for k (my_stored s) \<noteq> []" "r = send_cached (last (stored_for k (my_stored s)))"
      "cr_digest (last (stored_for k (my_stored s))) = Some d"
    using s(1) n c(2) unfolding mem.replays_last_def send_cached_or_conflict_def by (auto split: if_splits)
qed

definition sample_mw :: mw_config where
  "sample_mw = mk_mw_config 60 5 (1 / 20) 1000 ''idempotency-key''"

text \<open>Two requests with one key: the second looks the key up while the first is running, and claims it
  after the first has stored its response.\<close>

definition racing_events :: "(py_time \<times> mw_event) list" where
  "racing_events =
     [(0, MwArrive ''k'' ''d''), (0, MwStep 0), (0, MwStep 0), (1, MwArrive ''k'' ''d''), (1, MwStep 1),
      (2, MwFinish 0 (AppReturned 200 [] ''ok'')), (3, MwStep 1)]"

theorem idempotent_at_most_once_witness:
  "let s = mw_run mem_ops sample_mw racing_events (mw_init [])
   in running ''k'' (my_procs s) + length (stored_for ''k'' (my_stored s)) \<le> 1 \<and> my_runs s = [''k''] \<and>
      my_procs (mw_exec mem_ops sample_mw 4 (MwStep 1) s) ! 1 =
        Replied (Replayed (send_cached (last (stored_for ''k'' (my_stored s)))))"
proof -
  let ?s = "mw_run mem_ops sample_mw racing_events (mw_init [])"
  let ?r = "\<lparr>cr_status = 200, cr_headers = [(''x-idempotency-replayed'', ''true'')], cr_body = ''ok'', cr_digest = Some ''d''\<rparr>"
  have s: "sorted (map fst [] @ 0 # map fst racing_events)"
    "list_all (\<lambda>e. fst e < 0 + of_int (max (mw_ttl sample_mw) 1)) racing_events"
    by (simp_all add: racing_events_def sample_mw_def mk_mw_config_def)
  have i: "running ''k'' (my_procs (mw_run mem_ops sample_mw [] (mw_init []))) = 0"
    by (simp add: mw_init_def running_def)
  have r: "my_runs ?s = [''k'']" by code_simp
  have p: "my_procs ?s ! 1 = Waiting ''k'' ''d'' 8" "1 < length (my_procs ?s)"
      "my_procs (mw_exec mem_ops sample_mw 4 (MwStep 1) ?s) ! 1 = Replied (Replayed ?r)"
      "last (0 # map fst racing_events) \<le> 4" by code_simp+
  note t = idempotent_at_most_once[OF s refl i refl]
  from p t have "?r = send_cached (last (stored_for ''k'' (my_stored ?s)))"
    by (metis insertCI mw_run.simps(1))
  moreover have "running ''k'' (my_procs ?s) + length (stored_for ''k'' (my_stored ?s)) \<le> 1"
    using t by (simp add: mw_init_def stored_for_def)
  ultimately show ?thesis using r p(3) by (simp only: Let_def simp_thms)
qed

text \<open>A key-value database of the kind the Redis store talks to.\<close>

type_synonym alist_kv = "(string, kv_value \<times> rat) py_dict"

definition alive :: "alist_kv \<Rightarrow> string \<Rightarrow> py_time \<Rightarrow> kv_value option" where
  "alive st k now = (case dict_get st k of None \<Rightarrow> None | Some (v, e) \<Rightarrow> if e \<le> now then None else Some v)"

definition alist_kv_ops :: "alist_kv kv_ops" where
  "alist_kv_ops = \<lparr>kv_get = (\<lambda>k now st. alive st k now),
     kv_set = (\<lambda>k v ex now st. dict_set k (v, now + of_int ex) st),
     kv_set_nx = (\<lambda>k v ex now st. if alive st k now \<noteq> None then (False, st)
                                  else (True, dict_set k (v, now + of_int ex) st)),
     kv_del = (\<lambda>k now st. dict_pop k st)\<rparr>"

text \<open>
  C15: over the Redis store a stored response does not stop the next execution. Whenever one request runs a key
  and another with the same key has already looked it up in vain, then the first one storing its response
  also deletes the lock, so that the second one's \<open>SET NX\<close> succeeds and the key is executed once more:
  nothing reads the response again after the lock was taken. This holds for all keys, bodies, responses that
  are stored at all, times and contents of the database; of Redis only that a deleted key can be set with \<open>NX\<close>.
\<close>

theorem redis_idempotency_race:
  assumes "\<And>key v ttl st. fst (kv_set_nx kv key v ttl t' (kv_del kv key t st))"
    and "i < length (my_procs s)" "my_procs s ! i = Running k d1"
    and "j < length (my_procs s)" "my_procs s ! j = Claim k d2"
    and "\<not> is_streaming hs" "status < 500"
    and "s1 = mw_exec (redis_ops kv prefix) cfg t (MwFinish i (AppReturned status hs body)) s"
    and "s2 = mw_exec (redis_ops kv prefix) cfg t' (MwStep j) s1"
  shows "stored_for k (my_stored s1) = stored_for k (my_stored s) @
         [\<lparr>cr_status = status, cr_headers = hs, cr_body = body, cr_digest = Some d1\<rparr>] \<and>
     my_procs s1 ! i = Replied FromApp \<and>
     my_procs s2 ! j = Running k d2 \<and> my_runs s2 = my_runs s @ [k]"
proof -
  have ij: "i \<noteq> j" using assms(3,5) by auto
  show ?thesis
    using assms(2-7) ij unfolding assms(8,9)
    by (simp add: mw_finish_def mw_claim_def put_proc_def redis_ops_def redis_store_response_def redis_try_begin_def
        Let_def case_prod_beta assms(1) not_le)
qed

theorem redis_idempotency_race_witness:
  "let s = mw_run (redis_ops alist_kv_ops ''idem'') sample_mw racing_events (mw_init [])
   in my_runs s = [''k'', ''k''] \<and> my_procs s ! 1 = Running ''k'' ''d''"
proof -
  let ?e = "butlast (butlast racing_events)"
  let ?ops = "redis_ops alist_kv_ops ''idem''"
  let ?s = "mw_run ?ops sample_mw ?e (mw_init [])"
  have free: "fst (kv_set_nx alist_kv_ops key v ttl 3 (kv_del alist_kv_ops key 2 st))" for key v ttl st
    by (simp add: alist_kv_ops_def alive_def dict_get_pop)
  have p: "my_procs ?s = [Running ''k'' ''d'', Claim ''k'' ''d'']" "my_runs ?s = [''k'']" by code_simp+
  have e: "racing_events = ?e @ [(2, MwFinish 0 (AppReturned 200 [] ''ok'')), (3, MwStep 1)]"
    by (simp add: racing_events_def)
  have "my_procs (mw_run ?ops sample_mw racing_events (mw_init [])) ! 1 = Running ''k'' ''d'' \<and>
      my_runs (mw_run ?ops sample_mw racing_events (mw_init [])) = [''k''] @ [''k'']"
    using redis_idempotency_race[OF free, of 0 ?s "''k''" "''d''" 1 "''d''" "[]" 200 _ "''idem''" sample_mw "''ok''", OF _ _ _ _ _ _ refl refl] p
    by (subst (1 2) e) (simp add: mw_run_append is_streaming_def header_value_def py_lower_def starts_with_def)
  then show ?thesis by (simp only: Let_def append.simps simp_thms)
qed

section \<open>Codec and keys\<close>

lemma hex_value_digit: "n < 16 \<Longrightarrow> hex_value (hex_digit n) = Some n"
  by (auto simp: hex_value_def hex_digit_def Let_def)

lemma bytes_fromhex_hex: "bytes_fromhex (bytes_hex bs) = Some bs"
proof (induction bs)
  case (Cons b bs)
  have "of_char b < (256 :: nat)" by (metis char_of_char of_char_of mod_less_divisor zero_less_numeral)
  then have "of_char b div 16 < (16 :: nat)" "of_char b mod 16 < (16 :: nat)"
    by (simp_all add: div_less_iff_less_mult)
  with Cons show ?case by (simp add: bytes_hex_def hex_value_digit)
qed (simp add: bytes_hex_def)

text \<open>
  A response survives its journey through Redis: decoding the stored payload gives back the
  status, the headers, the body byte for byte and the digest.
\<close>

theorem cached_response_roundtrip:
  "decode_response (encode_response r) = Some r"
  by (simp add: decode_response_def encode_response_def bytes_fromhex_hex)

lemma cut_inject:
  "s @ c # a = u @ c # b \<Longrightarrow> c \<notin> set s \<Longrightarrow> c \<notin> set u \<Longrightarrow> s = u \<and> a = b"
proof (induction s arbitrary: u)
  case Nil
  then show ?case by (cases u) auto
next
  case (Cons x s)
  then show ?case by (cases u) auto
qed

lemma join_lines_inject:
  "list_all (\<lambda>s. c \<notin> set s) xs \<Longrightarrow> list_all (\<lambda>s. c \<notin> set s) ys \<Longrightarrow> length xs = length ys \<Longrightarrow>
     join_with [c] xs = join_with [c] ys \<Longrightarrow> xs = ys"
proof (induction xs arbitrary: ys)
  case (Cons s xs)
  then obtain u us where ys: "ys = u # us" by (cases ys) auto
  show ?case
  proof (cases xs)
    case Nil
    with Cons.prems ys show ?thesis by (cases us) auto
  next
    case (Cons t ts)
    with Cons.prems ys obtain v vs where us: "us = v # vs" by (cases us) auto
    have "s @ c # join_with [c] xs = u @ c # join_with [c] us"
      using Cons.prems(4) by (simp add: ys us Cons)
    with cut_inject[OF this] Cons.prems ys have "s = u" "join_with [c] xs = join_with [c] us" by auto
    with Cons.IH[of us] Cons.prems ys show ?thesis by simp
  qed
qed simp

text \<open>
  Two guarded requests share a record only if they agree on the method, the path, the tenant, the
  user and the idempotency key, as far as the digest is free of collisions and none of these contains
  a line break (which HTTP forbids in a request line and in a header).
\<close>

theorem store_key_separates:
  assumes "inj sha256" and "store_key sha256 sc1 k1 = store_key sha256 sc2 k2"
    and "list_all (\<lambda>s. CHR 0x0A \<notin> set s) (key_parts sc1 k1)"
    and "list_all (\<lambda>s. CHR 0x0A \<notin> set s) (key_parts sc2 k2)"
  shows "key_parts sc1 k1 = key_parts sc2 k2"
proof -
  have "join_with [CHR 0x0A] (key_parts sc1 k1) = join_with [CHR 0x0A] (key_parts sc2 k2)"
    using assms(1,2) by (auto simp: store_key_def dest: injD)
  with join_lines_inject[OF assms(3,4)] show ?thesis by (simp add: key_parts_def)
qed

theorem store_key_separates_witness:
  "let sc = \<lparr>hs_type = ''http'', hs_method = ''post'', hs_path = ''/x'', hs_headers = []\<rparr>;
       sc' = \<lparr>hs_type = ''http'', hs_method = ''POST'', hs_path = ''/x'', hs_headers = []\<rparr>
   in store_key id sc ''k'' = store_key id sc' ''k'' \<and> key_parts sc ''k'' = key_parts sc' ''k''"
proof -
  let ?sc = "\<lparr>hs_type = ''http'', hs_method = ''post'', hs_path = ''/x'', hs_headers = []\<rparr>"
  let ?sc' = "\<lparr>hs_type = ''http'', hs_method = ''POST'', hs_path = ''/x'', hs_headers = []\<rparr>"
  have e: "store_key id ?sc ''k'' = store_key id ?sc' ''k''" by code_simp
  have "list_all (\<lambda>s. CHR 0x0A \<notin> set s) (key_parts ?sc ''k'')"
    "list_all (\<lambda>s. CHR 0x0A \<notin> set s) (key_parts ?sc' ''k'')" by code_simp+
  from store_key_separates[OF inj_on_id e this] e show ?thesis unfolding Let_def by blast
qed

lemma read_body_spec:
  "read_body max_bytes seen chunks ms = Some (Inr body) \<Longrightarrow> seen = int (length (concat chunks)) \<Longrightarrow>
     int (length body) \<le> max_bytes \<and>
     (\<exists>n. body = concat chunks @ concat (map (\<lambda>m. case m of RequestBody c a \<Rightarrow> c | _ \<Rightarrow> []) (take n ms)))"
proof (induction max_bytes seen chunks ms rule: read_body.induct)
  case (3 max_bytes seen chunks ms)
  then obtain n where "int (length body) \<le> max_bytes"
    "body = concat chunks @ concat (map (\<lambda>m. case m of RequestBody c a \<Rightarrow> c | _ \<Rightarrow> []) (take n ms))" by auto
  then show ?case by (intro conjI exI[of _ "Suc n"]) simp_all
next
  case (4 max_bytes seen chunks chunk again ms)
  show ?case
  proof (cases again)
    case True
    with 4 obtain n where "int (length body) \<le> max_bytes"
      "body = concat (chunks @ [chunk]) @ concat (map (\<lambda>m. case m of RequestBody c a \<Rightarrow> c | _ \<Rightarrow> []) (take n ms))"
      by (auto simp: Let_def split: if_splits)
    then show ?thesis by (intro conjI exI[of _ "Suc n"]) simp_all
  next
    case False
    with 4 show ?thesis
      by (intro conjI exI[of _ 1]) (auto simp: Let_def split: if_splits)
  qed
qed simp_all

end
