(* ===== verification/Comm_Retry.thy ===== *)
theory Comm_Retry
  imports Gw_Prelude
begin

text \<open>
  Retries of internal HTTP calls (\<open>src/packages/ai-gateway-core/src/ai_gateway_core/comm/retry.py\<close>):
  which failures may be retried, with what delay, and the budget that bounds their number. The
  exception classes of \<open>httpx\<close> the code tests for are a datatype; a random number in the unit interval
  stands for \<open>random.uniform\<close>.
\<close>

datatype http_failure = ConnectError | RemoteProtocolError | PoolTimeout | ReadTimeout | WriteTimeout
  | ReadError | WriteError | StatusError int | OtherFailure

definition retriable_exception :: "http_failure \<Rightarrow> bool" where
  "retriable_exception e \<longleftrightarrow> e \<in> {ConnectError, RemoteProtocolError, PoolTimeout}"

definition outcome_is_unknown :: "http_failure \<Rightarrow> string \<Rightarrow> bool" where
  "outcome_is_unknown e http_method =
     (if py_upper http_method \<in> {''GET'', ''HEAD'', ''OPTIONS''} then False
      else if e \<in> {ReadTimeout, WriteTimeout, ReadError, WriteError, RemoteProtocolError} then True
      else (case e of StatusError n \<Rightarrow> 500 \<le> n | _ \<Rightarrow> False))"

record retry_policy =
  ry_max_attempts :: int
  ry_base_delay_ms :: int
  ry_max_delay_ms :: int
  ry_status_codes :: "int list"
  ry_idempotent_methods :: "string list"
  ry_jitter :: bool
  ry_idempotency_guaranteed :: bool

definition default_retry_policy :: retry_policy where
  "default_retry_policy = \<lparr>ry_max_attempts = 2, ry_base_delay_ms = 50, ry_max_delay_ms = 500,
     ry_status_codes = [502, 503, 504], ry_idempotent_methods = [''GET'', ''HEAD'', ''OPTIONS''],
     ry_jitter = True, ry_idempotency_guaranteed = False\<rparr>"

definition method_can_retry :: "retry_policy \<Rightarrow> string \<Rightarrow> bool \<Rightarrow> bool \<Rightarrow> bool" where
  "method_can_retry p http_method body_replayable idempotency_key =
     (py_upper http_method \<in> set (ry_idempotent_methods p) \<or>
      body_replayable \<and> idempotency_key \<and> ry_idempotency_guaranteed p)"

definition can_retry_exception :: "retry_policy \<Rightarrow> http_failure \<Rightarrow> string \<Rightarrow> bool \<Rightarrow> bool \<Rightarrow> bool \<Rightarrow> bool" where
  "can_retry_exception p e http_method body_replayable stream_started idempotency_key =
     (if stream_started \<or> ry_max_attempts p \<le> 1 then False
      else if \<not> retriable_exception e then False
      else method_can_retry p http_method body_replayable idempotency_key)"

definition can_retry_response :: "retry_policy \<Rightarrow> int \<Rightarrow> string \<Rightarrow> bool \<Rightarrow> bool \<Rightarrow> bool \<Rightarrow> bool" where
  "can_retry_response p status http_method body_replayable stream_started idempotency_key =
     (if stream_started \<or> ry_max_attempts p \<le> 1 then False
      else if status \<notin> set (ry_status_codes p) then False
      else method_can_retry p http_method body_replayable idempotency_key)"

definition delay_seconds :: "retry_policy \<Rightarrow> rat \<Rightarrow> int \<Rightarrow> rat" where
  "delay_seconds p unit_random retry_index =
     (if ry_base_delay_ms p \<le> 0 \<or> ry_max_delay_ms p \<le> 0 then 0
      else (let delay = min (ry_max_delay_ms p) (ry_base_delay_ms p * 2 ^ nat (max (retry_index - 1) 0));
                delay_ms = (if ry_jitter p then unit_random * of_int delay else of_int delay)
            in delay_ms / 1000))"

section \<open>The budget\<close>

record retry_budget =
  rb_ratio :: rat
  rb_min_tokens :: int
  rb_originals :: int
  rb_retries :: int

definition mk_retry_budget :: "rat \<Rightarrow> int \<Rightarrow> retry_budget" where
  "mk_retry_budget ratio min_tokens =
     \<lparr>rb_ratio = max ratio 0, rb_min_tokens = max min_tokens 0, rb_originals = 0, rb_retries = 0\<rparr>"

definition record_original :: "retry_budget \<Rightarrow> retry_budget" where
  "record_original b = b\<lparr>rb_originals := rb_originals b + 1\<rparr>"

definition retry_allowance :: "retry_budget \<Rightarrow> int" where
  "retry_allowance b = max (rb_min_tokens b) (py_trunc (of_int (rb_originals b) * rb_ratio b))"

definition try_acquire_retry :: "retry_budget \<Rightarrow> bool \<times> retry_budget" where
  "try_acquire_retry b =
     (if retry_allowance b \<le> rb_retries b then (False, b)
      else (True, b\<lparr>rb_retries := rb_retries b + 1\<rparr>))"

text \<open>The calls on a budget: \<open>True\<close> is an original request, \<open>False\<close> an attempt to retry.\<close>

fun budget_run :: "bool list \<Rightarrow> retry_budget \<Rightarrow> retry_budget" where
  "budget_run [] b = b"
| "budget_run (original # os) b =
     budget_run os (if original then record_original b else snd (try_acquire_retry b))"

definition budget_sound :: "retry_budget \<Rightarrow> bool" where
  "budget_sound b \<longleftrightarrow> 0 \<le> rb_ratio b \<and> 0 \<le> rb_min_tokens b \<and> 0 \<le> rb_originals b \<and>
     0 \<le> rb_retries b \<and> rb_retries b \<le> retry_allowance b"

lemma py_trunc_mono: "0 \<le> x \<Longrightarrow> x \<le> y \<Longrightarrow> py_trunc x \<le> py_trunc y"
  by (simp add: py_trunc_def floor_mono)

lemma record_original_sound: "budget_sound b \<Longrightarrow> budget_sound (record_original b)"
proof -
  assume b: "budget_sound b"
  then have "py_trunc (of_int (rb_originals b) * rb_ratio b) \<le> py_trunc (of_int (rb_originals b + 1) * rb_ratio b)"
    by (intro py_trunc_mono mult_right_mono) (auto simp: budget_sound_def)
  with b show ?thesis
    by (auto simp: budget_sound_def record_original_def retry_allowance_def)
qed

lemma try_acquire_sound: "budget_sound b \<Longrightarrow> budget_sound (snd (try_acquire_retry b))"
  by (auto simp: budget_sound_def try_acquire_retry_def retry_allowance_def)

lemma budget_run_sound: "budget_sound b \<Longrightarrow> budget_sound (budget_run os b)"
  by (induction os arbitrary: b) (simp_all add: record_original_sound try_acquire_sound)

lemma budget_run_const:
  "rb_ratio (budget_run os b) = rb_ratio b \<and> rb_min_tokens (budget_run os b) = rb_min_tokens b \<and>
   rb_originals (budget_run os b) = rb_originals b + int (count_list os True)"
  by (induction os arbitrary: b) (auto simp: record_original_def try_acquire_retry_def)

text \<open>
  In any sequence of requests and retries, the retries granted never exceed the larger of the
  minimum tokens and the configured share of the original requests seen so far.
\<close>

theorem retry_budget_bound:
  "rb_retries (budget_run os (mk_retry_budget ratio min_tokens))
     \<le> max (max min_tokens 0) (py_trunc (rat_of_nat (count_list os True) * max ratio 0))"
proof -
  have "budget_sound (mk_retry_budget ratio min_tokens)"
    by (simp add: budget_sound_def mk_retry_budget_def retry_allowance_def)
  from budget_run_sound[OF this, of os] budget_run_const[of os "mk_retry_budget ratio min_tokens"]
  show ?thesis
    by (simp add: budget_sound_def retry_allowance_def mk_retry_budget_def)
qed

text \<open>
  A request is retried only while nothing of its response has been streamed and within more than
  one attempt, and then its method is one of the idempotent ones, or its body can be replayed under an
  idempotency key whose deduplication the upstream documents. Under the default policy the outcome of
  a retried call is never in doubt.
\<close>

theorem retry_is_safe:
  assumes "can_retry_exception p e http_method replayable started key \<or>
           can_retry_response p status http_method replayable started key"
  shows "\<not> started \<and> 1 < ry_max_attempts p \<and>
     (py_upper http_method \<in> set (ry_idempotent_methods p) \<or>
      replayable \<and> key \<and> ry_idempotency_guaranteed p) \<and>
     (p = default_retry_policy \<longrightarrow> \<not> outcome_is_unknown e http_method)"
  using assms
  by (auto simp: can_retry_exception_def can_retry_response_def method_can_retry_def
      outcome_is_unknown_def default_retry_policy_def split: if_splits)

theorem retry_is_safe_witness:
  "can_retry_exception default_retry_policy ConnectError ''get'' False False False \<and>
   \<not> outcome_is_unknown ConnectError ''get''"
proof -
  have c: "can_retry_exception default_retry_policy ConnectError ''get'' False False False" by code_simp
  from retry_is_safe[OF disjI1, OF c] c show ?thesis by blast
qed

text \<open>
  The delay before a retry never exceeds the configured maximum and is never negative.
\<close>

theorem delay_is_bounded:
  assumes "0 \<le> u" and "u \<le> 1"
  shows "0 \<le> delay_seconds p u i \<and> delay_seconds p u i \<le> max 0 (of_int (ry_max_delay_ms p) / 1000)"
proof (cases "ry_base_delay_ms p \<le> 0 \<or> ry_max_delay_ms p \<le> 0")
  case True
  then show ?thesis by (auto simp: delay_seconds_def)
next
  case False
  let ?d = "min (ry_max_delay_ms p) (ry_base_delay_ms p * 2 ^ nat (max (i - 1) 0))"
  have d: "0 \<le> ?d" "?d \<le> ry_max_delay_ms p" using False by auto
  define x where "x = rat_of_int ?d"
  have x: "0 \<le> x" "x \<le> of_int (ry_max_delay_ms p)"
    unfolding x_def using d by (simp_all only: of_int_0_le_iff of_int_le_iff)
  have "u * x \<le> 1 * x" using assms x(1) by (intro mult_right_mono)
  moreover have "0 \<le> u * x" using assms(1) x(1) by simp
  moreover have "delay_seconds p u i = (if ry_jitter p then u * x else x) / 1000"
    unfolding x_def using False by (simp add: delay_seconds_def Let_def)
  ultimately show ?thesis using x by (cases "ry_jitter p") (simp_all add: le_max_iff_disj)
qed

theorem delay_is_bounded_witness:
  "0 \<le> delay_seconds default_retry_policy (1 / 2) 3 \<and> delay_seconds default_retry_policy (1 / 2) 3 \<le> 1 / 2"
proof -
  have "ry_max_delay_ms default_retry_policy = 500" by (simp add: default_retry_policy_def)
  with delay_is_bounded[of "1 / 2" default_retry_policy 3] show ?thesis by simp
qed

end
