(* ===== verification/Service_Breakers.thy ===== *)
theory Service_Breakers
  imports Gw_Prelude
begin

text \<open>
  The two breakers in front of the upstream services: the gateway's counting breaker
  (\<open>src/src/core/gateway/circuit_breaker.py\<close>) and the probing breaker of the service proxy with its
  process-local counter store (\<open>src/packages/ai-gateway-core/src/ai_gateway_core/proxy/base.py\<close>).
  Every method runs under its lock, so it is a function on the state; the clock is an argument.
\<close>

section \<open>The counting breaker\<close>

datatype gate_state = GateClosed | GateOpen | GateHalfOpen

record gate_breaker =
  gb_failure_threshold :: int
  gb_success_threshold :: int
  gb_timeout :: rat
  gb_state :: gate_state
  gb_failures :: int
  gb_successes :: int
  gb_last_failure :: "py_time option"

definition mk_gate_breaker :: "int \<Rightarrow> int \<Rightarrow> rat \<Rightarrow> gate_breaker" where
  "mk_gate_breaker failure_threshold success_threshold timeout =
     \<lparr>gb_failure_threshold = failure_threshold, gb_success_threshold = success_threshold,
      gb_timeout = timeout, gb_state = GateClosed, gb_failures = 0, gb_successes = 0,
      gb_last_failure = None\<rparr>"

definition should_attempt_reset :: "py_time \<Rightarrow> gate_breaker \<Rightarrow> bool" where
  "should_attempt_reset now gb =
     (case gb_last_failure gb of None \<Rightarrow> False | Some t \<Rightarrow> gb_timeout gb \<le> now - t)"

definition gate_on_success :: "gate_breaker \<Rightarrow> gate_breaker" where
  "gate_on_success gb =
     (case gb_state gb of
        GateHalfOpen \<Rightarrow>
          (let gb1 = gb\<lparr>gb_successes := gb_successes gb + 1\<rparr>
           in if gb_success_threshold gb1 \<le> gb_successes gb1
              then gb1\<lparr>gb_state := GateClosed, gb_failures := 0, gb_successes := 0\<rparr> else gb1)
      | GateClosed \<Rightarrow> gb\<lparr>gb_failures := 0\<rparr>
      | GateOpen \<Rightarrow> gb)"

text \<open>\<open>excluded\<close>: the exception is one of \<open>excluded_exceptions\<close>.\<close>

definition gate_on_failure :: "py_time \<Rightarrow> bool \<Rightarrow> gate_breaker \<Rightarrow> gate_breaker" where
  "gate_on_failure now excluded gb =
     (if excluded then gb
      else (let gb1 = gb\<lparr>gb_failures := gb_failures gb + 1, gb_last_failure := Some now\<rparr>
            in if gb_failure_threshold gb1 \<le> gb_failures gb1
               then gb1\<lparr>gb_state := GateOpen, gb_successes := 0\<rparr> else gb1))"

definition gate_allow :: "py_time \<Rightarrow> gate_breaker \<Rightarrow> bool \<times> gate_breaker" where
  "gate_allow now gb =
     (if gb_state gb = GateOpen
      then (if should_attempt_reset now gb then (True, gb\<lparr>gb_state := GateHalfOpen\<rparr>) else (False, gb))
      else (True, gb))"

text \<open>\<open>call\<close>, for one caller alone: \<open>outcome\<close> is the result of the function, run from \<open>start\<close> to
  \<open>finish\<close>; \<open>Inl True\<close> is an excluded exception.\<close>

datatype 'a call_result = BreakerOpen | CallRaised | CallReturned 'a

definition gate_call ::
  "py_time \<Rightarrow> py_time \<Rightarrow> bool + 'a \<Rightarrow> gate_breaker \<Rightarrow> 'a call_result \<times> gate_breaker" where
  "gate_call start finish outcome gb =
     (let (ok, gb1) = gate_allow start gb
      in if \<not> ok then (BreakerOpen, gb1)
         else (case outcome of
                 Inl excluded \<Rightarrow> (CallRaised, gate_on_failure finish excluded gb1)
               | Inr x \<Rightarrow> (CallReturned x, gate_on_success gb1)))"

text \<open>Concurrent callers interleave these three steps.\<close>

datatype gate_op = GateAllow py_time | GateSuccess | GateFailure py_time bool

fun gate_step :: "gate_op \<Rightarrow> gate_breaker \<Rightarrow> gate_breaker" where
  "gate_step (GateAllow now) gb = snd (gate_allow now gb)"
| "gate_step GateSuccess gb = gate_on_success gb"
| "gate_step (GateFailure now excluded) gb = gate_on_failure now excluded gb"

definition gate_ok :: "gate_breaker \<Rightarrow> bool" where
  "gate_ok gb \<longleftrightarrow> 1 \<le> gb_failure_threshold gb \<and> 1 \<le> gb_success_threshold gb \<and>
     (case gb_state gb of
        GateClosed \<Rightarrow> 0 \<le> gb_failures gb \<and> gb_failures gb < gb_failure_threshold gb \<and> gb_successes gb = 0
      | GateOpen \<Rightarrow> gb_failure_threshold gb \<le> gb_failures gb \<and> gb_last_failure gb \<noteq> None \<and> gb_successes gb = 0
      | GateHalfOpen \<Rightarrow> gb_failure_threshold gb \<le> gb_failures gb \<and> gb_last_failure gb \<noteq> None \<and>
          0 \<le> gb_successes gb \<and> gb_successes gb < gb_success_threshold gb)"

lemma gate_step_ok: "gate_ok gb \<Longrightarrow> gate_ok (gate_step op' gb)"
  by (cases op'; cases "gb_state gb")
    (auto simp: gate_ok_def gate_allow_def gate_on_success_def gate_on_failure_def Let_def)

lemma gate_run_ok: "gate_ok gb \<Longrightarrow> gate_ok (fold gate_step os gb)"
  by (induction os arbitrary: gb) (simp_all add: gate_step_ok)

lemma mk_gate_ok: "1 \<le> f \<Longrightarrow> 1 \<le> s \<Longrightarrow> gate_ok (mk_gate_breaker f s t)"
  by (simp add: gate_ok_def mk_gate_breaker_def)

text \<open>
  Once the breaker has opened, whatever the interleaving of later calls, it closes only after
  \<open>success_threshold\<close> successes in a row: a run of fewer successes and of admissions never closes it,
  and one counted failure at any point opens it again.
\<close>

theorem breaker_recovery:
  assumes "gate_ok gb" and "gb_state gb \<noteq> GateClosed"
    and "list_all (\<lambda>p. case p of GateFailure now ex \<Rightarrow> ex | _ \<Rightarrow> True) os"
    and "gb_successes gb + int (count_list os GateSuccess) < gb_success_threshold gb"
  shows "gb_state (fold gate_step os gb) \<noteq> GateClosed \<and>
         gb_state (gate_on_failure now False (fold gate_step os gb)) = GateOpen"
  using assms
proof (induction os arbitrary: gb)
  case Nil
  then show ?case
    by (cases "gb_state gb") (auto simp: gate_ok_def gate_on_failure_def Let_def)
next
  case (Cons o' os)
  have st: "gb_state (gate_step o' gb) \<noteq> GateClosed \<and>
      gb_successes (gate_step o' gb) \<le> gb_successes gb + (if o' = GateSuccess then 1 else 0) \<and>
      gb_success_threshold (gate_step o' gb) = gb_success_threshold gb"
    using Cons.prems
    by (cases o'; cases "gb_state gb")
      (auto simp: gate_ok_def gate_allow_def gate_on_success_def gate_on_failure_def Let_def)
  moreover have "gb_successes (gate_step o' gb) + int (count_list os GateSuccess) <
      gb_success_threshold (gate_step o' gb)"
    using st Cons.prems(4) by (cases "o' = GateSuccess") simp_all
  ultimately show ?case
    using Cons.IH[OF gate_step_ok[OF Cons.prems(1)]] Cons.prems(3) by simp
qed

theorem breaker_recovery_witness:
  "let gb = fold gate_step [GateFailure 1 False, GateFailure 2 False] (mk_gate_breaker 2 3 30)
   in gb_state gb = GateOpen \<and>
      gb_state (fold gate_step [GateAllow 40, GateSuccess, GateSuccess] gb) = GateHalfOpen \<and>
      gb_state (gate_on_failure 50 False (fold gate_step [GateAllow 40, GateSuccess, GateSuccess] gb)) = GateOpen"
proof -
  let ?gb = "fold gate_step [GateFailure 1 False, GateFailure 2 False] (mk_gate_breaker 2 3 30)"
  let ?os = "[GateAllow 40, GateSuccess, GateSuccess]"
  have ok: "gate_ok ?gb" by (rule gate_run_ok, rule mk_gate_ok) simp_all
  have o': "gb_state ?gb = GateOpen" "gb_state (fold gate_step ?os ?gb) = GateHalfOpen" by code_simp+
  have "gb_state ?gb \<noteq> GateClosed" "list_all (\<lambda>p. case p of GateFailure now ex \<Rightarrow> ex | _ \<Rightarrow> True) ?os"
    "gb_successes ?gb + int (count_list ?os GateSuccess) < gb_success_threshold ?gb" by code_simp+
  from breaker_recovery[OF ok this, of 50] o' show ?thesis unfolding Let_def by blast
qed

section \<open>The probing breaker of the proxy\<close>

record counter_store =
  cs_fails :: int
  cs_probe :: bool
  cs_probe_started :: rat
  cs_opened_at :: rat

definition new_counter :: counter_store where
  "new_counter = \<lparr>cs_fails = 0, cs_probe = False, cs_probe_started = 0, cs_opened_at = 0\<rparr>"

definition store_set_probe :: "py_time \<Rightarrow> bool \<Rightarrow> counter_store \<Rightarrow> counter_store" where
  "store_set_probe now flag cs = cs\<lparr>cs_probe := flag, cs_probe_started := (if flag then now else 0)\<rparr>"

definition store_on_success :: "counter_store \<Rightarrow> counter_store" where
  "store_on_success cs = new_counter"

definition store_on_failure :: "counter_store \<Rightarrow> int \<times> counter_store" where
  "store_on_failure cs =
     (cs_fails cs + 1, cs\<lparr>cs_fails := cs_fails cs + 1, cs_probe := False, cs_probe_started := 0\<rparr>)"

definition store_set_opened :: "rat \<Rightarrow> counter_store \<Rightarrow> counter_store" where
  "store_set_opened t cs = (if cs_opened_at cs \<le> 0 then cs\<lparr>cs_opened_at := t\<rparr> else cs)"

text \<open>\<open>gate\<close>: \<open>False\<close> is the 503. Its reads and its write of the store are separate calls without an
  await between them, so they are one step within a worker.\<close>

definition proxy_gate :: "int \<Rightarrow> rat \<Rightarrow> py_time \<Rightarrow> counter_store \<Rightarrow> bool \<times> counter_store" where
  "proxy_gate threshold recovery now cs =
     (if cs_fails cs < threshold then (True, cs)
      else if cs_probe cs
      then (if 0 < recovery \<and> 0 < cs_probe_started cs \<and> recovery \<le> now - cs_probe_started cs
            then (True, store_set_probe now True cs) else (False, cs))
      else (True, store_set_probe now True cs))"

definition proxy_on_failure :: "int \<Rightarrow> py_time \<Rightarrow> counter_store \<Rightarrow> counter_store" where
  "proxy_on_failure threshold now cs =
     (let (fails, cs1) = store_on_failure cs
      in if threshold \<le> fails then store_set_opened now cs1 else cs1)"

definition proxy_on_response :: "int \<Rightarrow> int \<Rightarrow> py_time \<Rightarrow> counter_store \<Rightarrow> counter_store" where
  "proxy_on_response threshold status now cs =
     (if 200 \<le> status \<and> status < 300 then store_on_success cs
      else if 500 \<le> status then proxy_on_failure threshold now cs
      else if cs_probe cs then store_set_probe now False cs else cs)"

definition proxy_open :: "int \<Rightarrow> counter_store \<Rightarrow> bool" where
  "proxy_open threshold cs \<longleftrightarrow> threshold \<le> cs_fails cs"

text \<open>
  A probe that never reports back does not wedge the proxy breaker: once the recovery timeout has
  passed since it started, the next request takes the probe over; before that every request is turned
  away, and with the timeout switched off, for good.
\<close>

theorem lost_probe_is_taken_over:
  assumes "proxy_open threshold cs" and "cs_probe cs" and "0 < cs_probe_started cs"
  shows "fst (proxy_gate threshold recovery now cs) =
           (0 < recovery \<and> cs_probe_started cs + recovery \<le> now) \<and>
         (fst (proxy_gate threshold recovery now cs) \<longrightarrow>
           cs_probe (snd (proxy_gate threshold recovery now cs)) \<and>
           cs_probe_started (snd (proxy_gate threshold recovery now cs)) = now)"
  using assms by (auto simp: proxy_gate_def proxy_open_def store_set_probe_def)

theorem lost_probe_is_taken_over_witness:
  "let cs = snd (proxy_gate 1 30 5 (proxy_on_failure 1 3 new_counter))
   in fst (proxy_gate 1 30 20 cs) = False \<and> fst (proxy_gate 1 30 35 cs) = True \<and> fst (proxy_gate 1 0 1000 cs) = False"
proof -
  let ?cs = "snd (proxy_gate 1 30 5 (proxy_on_failure 1 3 new_counter))"
  have c: "proxy_open 1 ?cs" "cs_probe ?cs" "cs_probe_started ?cs = 5"
    by (simp_all add: proxy_gate_def proxy_on_failure_def store_on_failure_def new_counter_def
        store_set_opened_def store_set_probe_def proxy_open_def)
  have "0 < cs_probe_started ?cs" by (simp only: c(3))
  note t = lost_probe_is_taken_over[OF c(1,2) this, unfolded c(3)]
  show ?thesis using t[of 30 20] t[of 30 35] t[of 0 1000] unfolding Let_def by simp
qed

text \<open>What ends a probe: a success closes the breaker, a server error or a broken stream keeps it open
  and frees the slot, and any other status frees the slot and nothing else.\<close>

lemma proxy_on_response_effects:
  "200 \<le> status \<Longrightarrow> status < 300 \<Longrightarrow> proxy_on_response threshold status now cs = new_counter"
  "500 \<le> status \<Longrightarrow> proxy_on_response threshold status now cs = proxy_on_failure threshold now cs"
  "\<not> (200 \<le> status \<and> status < 300) \<Longrightarrow> status < 500 \<Longrightarrow>
     cs_fails (proxy_on_response threshold status now cs) = cs_fails cs \<and>
     \<not> cs_probe (proxy_on_response threshold status now cs)"
  by (auto simp: proxy_on_response_def store_on_success_def store_set_probe_def)

end
