(* ===== verification/Event_Consumer.thy ===== *)
theory Event_Consumer
  imports Py_Value
begin

text \<open>
  The consumer of an event stream
  (\<open>src/packages/ai-gateway-core/src/ai_gateway_core/events/consumer.py\<close> with the claim table of
  \<open>events/idempotency.py\<close>). Redis and the event handler are the environment: a step of the consumer is
  a function of their answers, and yields the commands it sends, in order. \<open>parse_envelope\<close> lives in
  the contracts package and is an argument.
\<close>

record consumer_config =
  ec_stream :: string
  ec_group :: string
  ec_consumer :: string
  ec_prefix :: string

definition max_deliveries :: int where
  "max_deliveries = 3"

definition read_count :: nat where
  "read_count = 32"

definition reclaim_max_passes :: nat where
  "reclaim_max_passes = 10"

definition delivery_counter_key :: "consumer_config \<Rightarrow> string" where
  "delivery_counter_key c = ''events:deliveries:'' @ ec_stream c @ '':'' @ ec_group c"

definition dlq_for :: "string \<Rightarrow> string" where
  "dlq_for stream = stream @ '':dlq''"

text \<open>\<open>IdempotencyStore._key\<close>: the consumer passes its own name, not its group.\<close>

definition claim_key :: "string \<Rightarrow> string \<Rightarrow> string \<Rightarrow> string" where
  "claim_key prefix consumer event_id = prefix @ '':'' @ consumer @ '':'' @ event_id"

record dlq_entry =
  dq_original_id :: string
  dq_error :: string
  dq_attempts :: string
  dq_stream :: string
  dq_group :: string
  dq_consumer :: string

datatype command =
    Xadd string dlq_entry
  | Xack string string string
  | Hdel string string
  | Hincrby string string
  | SetNx string
  | Del string
  | RunHandler string

definition send_to_dlq :: "consumer_config \<Rightarrow> string \<Rightarrow> string \<Rightarrow> int \<Rightarrow> command" where
  "send_to_dlq c original_id err attempts =
     Xadd (dlq_for (ec_stream c))
       \<lparr>dq_original_id = original_id, dq_error = err, dq_attempts = string_of_int attempts,
        dq_stream = ec_stream c, dq_group = ec_group c, dq_consumer = ec_consumer c\<rparr>"

definition ack_and_clear :: "consumer_config \<Rightarrow> string \<Rightarrow> command list" where
  "ack_and_clear c msg_id =
     [Xack (ec_stream c) (ec_group c) msg_id, Hdel (delivery_counter_key c) msg_id]"

text \<open>An entry: its id and its payload field, under either spelling of the key. An empty payload under
  the bytes key falls through to the other one, as \<open>or\<close> does.\<close>

record stream_message =
  sm_id :: string
  sm_payload_bytes :: "string option"
  sm_payload_str :: "string option"

definition raw_payload :: "stream_message \<Rightarrow> string option" where
  "raw_payload m = (if opt_str (sm_payload_bytes m) \<noteq> [] then sm_payload_bytes m else sm_payload_str m)"

text \<open>The handler ends, raises, or is cancelled: a \<open>CancelledError\<close> is no \<open>Exception\<close> and passes through.\<close>

datatype handler_outcome = HandlerDone | HandlerRaised string string | HandlerCancelled

text \<open>The answers of the environment: of \<open>SET NX\<close>, of \<open>HINCRBY\<close>, and of the handler.\<close>

record answers =
  an_claimed :: bool
  an_attempts :: int
  an_outcome :: handler_outcome

definition on_handler_failure ::
  "consumer_config \<Rightarrow> string \<Rightarrow> string \<Rightarrow> string \<Rightarrow> int \<Rightarrow> command list" where
  "on_handler_failure c msg_id exc_type msg attempts =
     (if max_deliveries \<le> attempts
      then send_to_dlq c msg_id (exc_type @ '': '' @ msg) attempts # ack_and_clear c msg_id
      else [])"

text \<open>\<open>_handle_one\<close>; \<open>parse raw\<close> is the id of the event, or the text of the deserialisation error.\<close>

definition handle_one ::
  "(string \<Rightarrow> string + string) \<Rightarrow> consumer_config \<Rightarrow> stream_message \<Rightarrow> answers \<Rightarrow> command list" where
  "handle_one parse c m ans =
     (case raw_payload m of
        None \<Rightarrow> send_to_dlq c (sm_id m) ''missing payload field'' 1 # ack_and_clear c (sm_id m)
      | Some raw \<Rightarrow>
          (case parse raw of
             Inl err \<Rightarrow> send_to_dlq c (sm_id m) (''deserialize: '' @ err) 1 # ack_and_clear c (sm_id m)
           | Inr event_id \<Rightarrow>
               (let k = claim_key (ec_prefix c) (ec_consumer c) event_id
                in SetNx k #
                   (if \<not> an_claimed ans then ack_and_clear c (sm_id m)
                    else [Hincrby (delivery_counter_key c) (sm_id m), RunHandler event_id] @
                         (case an_outcome ans of
                            HandlerDone \<Rightarrow> ack_and_clear c (sm_id m)
                          | HandlerRaised ty msg \<Rightarrow>
                              Del k # on_handler_failure c (sm_id m) ty msg (an_attempts ans)
                          | HandlerCancelled \<Rightarrow> [])))))"

text \<open>\<open>_dispatch_entries\<close>: \<open>stop i\<close> is the stop flag at the \<open>i\<close>-th message boundary.\<close>

fun dispatch_messages :: "(nat \<Rightarrow> bool) \<Rightarrow> nat \<Rightarrow> stream_message list \<Rightarrow> stream_message list" where
  "dispatch_messages stop i [] = []"
| "dispatch_messages stop i (m # ms) = (if stop i then [] else m # dispatch_messages stop (Suc i) ms)"

section \<open>Reclaiming\<close>

text \<open>A reply of \<open>XAUTOCLAIM\<close>: the next cursor and the claimed entries; \<open>None\<close> is an error or an empty
  reply. The cursor \<open>0-0\<close> ends the walk.\<close>

type_synonym autoclaim = "(string \<times> stream_message list) option"

fun claim_new :: "string list \<Rightarrow> stream_message list \<Rightarrow> stream_message list" where
  "claim_new seen [] = []"
| "claim_new seen (m # ms) =
     (if sm_id m \<in> set seen then claim_new seen ms else m # claim_new (sm_id m # seen) ms)"

fun reclaim_loop ::
  "nat \<Rightarrow> string \<Rightarrow> stream_message list \<Rightarrow> (string \<Rightarrow> nat \<Rightarrow> autoclaim) \<Rightarrow> stream_message list" where
  "reclaim_loop 0 cursor out xautoclaim = out"
| "reclaim_loop (Suc n) cursor out xautoclaim =
     (case xautoclaim cursor n of
        None \<Rightarrow> out
      | Some (next_cursor, claimed) \<Rightarrow>
          (let new = claim_new (map sm_id out) claimed;
               out' = out @ new
           in if new = [] \<or> next_cursor = ''0-0'' \<or> next_cursor = cursor then out'
              else reclaim_loop n next_cursor out' xautoclaim))"

definition reclaim_pending :: "(string \<Rightarrow> nat \<Rightarrow> autoclaim) \<Rightarrow> stream_message list" where
  "reclaim_pending xautoclaim = reclaim_loop reclaim_max_passes ''0-0'' [] xautoclaim"

lemma claim_new_distinct:
  "distinct (map sm_id (claim_new seen ms)) \<and> set seen \<inter> sm_id ` set (claim_new seen ms) = {}"
proof (induction ms arbitrary: seen)
  case (Cons m ms)
  from Cons.IH[of seen] Cons.IH[of "sm_id m # seen"] show ?case by auto
qed simp

lemma claim_new_subset: "set (claim_new seen ms) \<subseteq> set ms"
proof (induction ms arbitrary: seen)
  case (Cons m ms)
  from Cons.IH[of seen] Cons.IH[of "sm_id m # seen"] show ?case by auto
qed simp

lemma reclaim_loop_distinct:
  "distinct (map sm_id out) \<Longrightarrow> distinct (map sm_id (reclaim_loop n cursor out xautoclaim))"
proof (induction n arbitrary: cursor out)
  case (Suc n)
  have "distinct (map sm_id (out @ claim_new (map sm_id out) claimed))" for claimed
    using Suc.prems claim_new_distinct[of "map sm_id out" claimed] by auto
  with Suc show ?case by (auto simp: Let_def split: option.split)
qed simp

text \<open>
  A restarting consumer handles every reclaimed message once: whatever the server answers, the
  list it dispatches names no message twice.
\<close>

theorem reclaim_no_duplicates:
  "distinct (map sm_id (reclaim_pending xautoclaim))"
  by (simp add: reclaim_pending_def reclaim_loop_distinct)

section \<open>Acknowledgements\<close>

definition acks :: "command list \<Rightarrow> string list" where
  "acks cmds = concat (map (\<lambda>c. case c of Xack s g i \<Rightarrow> [i] | _ \<Rightarrow> []) cmds)"

definition dead_letters :: "command list \<Rightarrow> string list" where
  "dead_letters cmds = concat (map (\<lambda>c. case c of Xadd s e \<Rightarrow> [dq_original_id e] | _ \<Rightarrow> []) cmds)"

lemma acks_simps [simp]:
  "acks [] = []" "acks (Xadd s e # cs) = acks cs" "acks (Xack s g i # cs) = i # acks cs"
  "acks (Hdel k f # cs) = acks cs" "acks (Hincrby k f # cs) = acks cs" "acks (SetNx k # cs) = acks cs"
  "acks (Del k # cs) = acks cs" "acks (RunHandler ev # cs) = acks cs"
  by (simp_all add: acks_def)

lemma dead_letters_simps [simp]:
  "dead_letters [] = []" "dead_letters (Xadd s e # cs) = dq_original_id e # dead_letters cs"
  "dead_letters (Xack s g i # cs) = dead_letters cs" "dead_letters (Hdel k f # cs) = dead_letters cs"
  "dead_letters (Hincrby k f # cs) = dead_letters cs" "dead_letters (SetNx k # cs) = dead_letters cs"
  "dead_letters (Del k # cs) = dead_letters cs" "dead_letters (RunHandler ev # cs) = dead_letters cs"
  by (simp_all add: dead_letters_def)



text \<open>
  A message whose handler keeps failing is dispatched exactly \<open>MAX_DELIVERIES\<close> times: on the
  earlier deliveries it stays pending, and on the last it goes to the dead-letter stream and is
  acknowledged. A payload that cannot be parsed goes there on the first delivery, without a handler
  call.
\<close>

theorem dead_letter_on_last_delivery:
  assumes "raw_payload m = Some raw"
  shows "(case parse raw of
       Inr event_id \<Rightarrow> an_claimed ans \<longrightarrow> an_outcome ans = HandlerRaised ty msg \<longrightarrow>
         (dead_letters (handle_one parse c m ans) = [sm_id m] \<longleftrightarrow> 3 \<le> an_attempts ans) \<and>
         (acks (handle_one parse c m ans) = [sm_id m] \<longleftrightarrow> 3 \<le> an_attempts ans)
     | Inl err \<Rightarrow> dead_letters (handle_one parse c m ans) = [sm_id m] \<and>
         acks (handle_one parse c m ans) = [sm_id m] \<and>
         \<not> list_ex (\<lambda>cmd. case cmd of RunHandler e \<Rightarrow> True | _ \<Rightarrow> False) (handle_one parse c m ans))"
  using assms
  by (auto simp: handle_one_def Let_def send_to_dlq_def ack_and_clear_def on_handler_failure_def
      max_deliveries_def split: sum.splits)

definition sample_consumer :: "string \<Rightarrow> string \<Rightarrow> consumer_config" where
  "sample_consumer grp name = \<lparr>ec_stream = ''s'', ec_group = grp, ec_consumer = name, ec_prefix = ''events:idem''\<rparr>"

definition sample_message :: stream_message where
  "sample_message = \<lparr>sm_id = ''1-0'', sm_payload_bytes = Some ''ev'', sm_payload_str = None\<rparr>"


theorem dead_letter_on_last_delivery_witness:
  "let cmds = handle_one Inr (sample_consumer ''g'' ''w'') sample_message
                \<lparr>an_claimed = True, an_attempts = 3, an_outcome = HandlerRaised ''E'' ''boom''\<rparr>
   in dead_letters cmds = [''1-0''] \<and> acks cmds = [''1-0'']"
proof -
  let ?a = "\<lparr>an_claimed = True, an_attempts = 3, an_outcome = HandlerRaised ''E'' ''boom''\<rparr>"
  have "raw_payload sample_message = Some ''ev''"
    by (simp add: raw_payload_def sample_message_def opt_str_def)
  from dead_letter_on_last_delivery[where parse = Inr and ans = ?a and ty = "''E''" and msg = "''boom''"
      and c = "sample_consumer ''g'' ''w''", OF this]
  show ?thesis by (simp add: Let_def) (simp add: sample_message_def)
qed

section \<open>The claim table\<close>

text \<open>\<open>SET NX\<close> and \<open>DEL\<close> on the set of claimed keys.\<close>

fun claim_effect :: "command \<Rightarrow> string list \<Rightarrow> string list" where
  "claim_effect (SetNx k) claims = (if k \<in> set claims then claims else k # claims)"
| "claim_effect (Del k) claims = removeAll k claims"
| "claim_effect _ claims = claims"

text \<open>A delivery with the claim answered from the table.\<close>

definition deliver ::
  "(string \<Rightarrow> string + string) \<Rightarrow> consumer_config \<Rightarrow> stream_message \<Rightarrow> int \<Rightarrow> handler_outcome \<Rightarrow> string list
     \<Rightarrow> command list \<times> string list" where
  "deliver parse c m attempts outcome claims =
     (let fresh = (case raw_payload m of None \<Rightarrow> True
         | Some raw \<Rightarrow> (case parse raw of Inl e \<Rightarrow> True
             | Inr ev \<Rightarrow> claim_key (ec_prefix c) (ec_consumer c) ev \<notin> set claims));
          cmds = handle_one parse c m \<lparr>an_claimed = fresh, an_attempts = attempts, an_outcome = outcome\<rparr>
      in (cmds, fold claim_effect cmds claims))"

text \<open>
  The claim of an event is kept per consumer name and not per group. When a consumer of one group
  has handled an event, the consumer of the same name in another group acknowledges its own delivery
  of that event without ever calling its handler.
\<close>

theorem same_name_in_other_group_skips:
  assumes "raw_payload m = Some raw" and "parse raw = Inr event_id"
    and "ec_consumer c1 = ec_consumer c2" and "ec_prefix c1 = ec_prefix c2"
    and "claim_key (ec_prefix c1) (ec_consumer c1) event_id \<notin> set claims"
  shows "RunHandler event_id \<in> set (fst (deliver parse c1 m n1 HandlerDone claims)) \<and>
         fst (deliver parse c2 m n2 out2 (snd (deliver parse c1 m n1 HandlerDone claims))) =
           SetNx (claim_key (ec_prefix c2) (ec_consumer c2) event_id) # ack_and_clear c2 (sm_id m)"
  using assms by (simp add: deliver_def Let_def handle_one_def ack_and_clear_def)

theorem same_name_in_other_group_skips_witness:
  "let c1 = sample_consumer ''billing'' ''worker-0''; c2 = sample_consumer ''audit'' ''worker-0'';
       (cmds1, claims) = deliver Inr c1 sample_message 1 HandlerDone [];
       (cmds2, claims') = deliver Inr c2 sample_message 1 HandlerDone claims
   in RunHandler ''ev'' \<in> set cmds1 \<and> RunHandler ''ev'' \<notin> set cmds2 \<and> acks cmds2 = [''1-0'']"
proof -
  have r: "raw_payload sample_message = Some ''ev''" "sm_id sample_message = ''1-0''"
    by (simp_all add: raw_payload_def sample_message_def opt_str_def)
  have e: "(Inr :: string \<Rightarrow> string + string) ''ev'' = Inr ''ev''" by simp
  let ?c = "\<lambda>g. sample_consumer g ''worker-0''"
  have n: "ec_consumer (?c ''billing'') = ec_consumer (?c ''audit'')"
    "ec_prefix (?c ''billing'') = ec_prefix (?c ''audit'')"
    "claim_key (ec_prefix (?c ''billing'')) (ec_consumer (?c ''billing'')) ''ev'' \<notin> set []"
    by (simp_all add: sample_consumer_def)
  from same_name_in_other_group_skips[where parse = Inr, OF r(1) e n, of 1 1 HandlerDone]
  show ?thesis by (simp add: Let_def case_prod_beta ack_and_clear_def r(2))
qed

text \<open>
  Conversely the claim does not protect a group against its own workers: when a worker dies after
  its handler has finished and before the acknowledgement, the peer of another name that reclaims the
  message runs the handler again.
\<close>

theorem peer_reclaim_runs_twice:
  assumes "raw_payload m = Some raw" and "parse raw = Inr event_id"
    and "claim_key (ec_prefix c2) (ec_consumer c2) event_id \<notin> set claims"
    and "claim_key (ec_prefix c1) (ec_consumer c1) event_id \<noteq> claim_key (ec_prefix c2) (ec_consumer c2) event_id"
  shows "RunHandler event_id \<in>
           set (fst (deliver parse c2 m n2 out2 (snd (deliver parse c1 m n1 HandlerDone claims))))"
  using assms
  by (simp add: deliver_def Let_def handle_one_def ack_and_clear_def split: handler_outcome.splits)

theorem peer_reclaim_runs_twice_witness:
  "RunHandler ''ev'' \<in> set (fst (deliver Inr (sample_consumer ''g'' ''worker-1'') sample_message 2 HandlerDone
     (snd (deliver Inr (sample_consumer ''g'' ''worker-0'') sample_message 1 HandlerDone []))))"
proof -
  have r: "raw_payload sample_message = Some ''ev''"
    by (simp add: raw_payload_def sample_message_def opt_str_def)
  have e: "(Inr :: string \<Rightarrow> string + string) ''ev'' = Inr ''ev''" by simp
  show ?thesis
    by (rule peer_reclaim_runs_twice[where parse = Inr, OF r e])
      (simp_all add: sample_consumer_def claim_key_def)
qed

end
