(* ===== verification/Local_Actions.thy ===== *)
theory Local_Actions
  imports Py_Value
begin

text \<open>
  Authority on the local node (\<open>src/apps/local-node/src/local_node/\<close>): the signed action envelope and
  the approval proof (\<open>models.py\<close>), the one-use approval verifier (\<open>approvals.py\<close>) and the directory
  grants (\<open>grants.py\<close>). SHA-256, the JSON encoder, the signature checks and the file system are
  arguments: \<open>digest\<close> maps the canonical JSON of a value to its digest, \<open>canon\<close> a value to its canonical
  JSON text, and a verifier that raises answers \<open>None\<close>. Times are finite numbers of the model, so the
  tests for \<open>isfinite\<close> hold.
\<close>

datatype node_error =
    CapabilityDenied string
  | ApprovalRequired string
  | StaleTarget string
  | PathEscape string
  | IdempotencyConflict string
  | LedgerIntegrity string
  | UnknownAction string
  | BadArgument string
  | OutboxError string
  | TransportProtocolError string
  | BoundaryViolation string

section \<open>Approvals\<close>

record approval_proof =
  ap_id :: string
  ap_action_id :: string
  ap_device_id :: string
  ap_arguments_digest :: string
  ap_target_digest :: string
  ap_policy_digest :: string
  ap_nonce :: string
  ap_expires_at :: rat
  ap_signature :: string

definition canonical_local_payload :: "(pyval \<Rightarrow> string) \<Rightarrow> approval_proof \<Rightarrow> string" where
  "canonical_local_payload canon p = canon (PDict
     [(''approval_id'', PStr (ap_id p)), (''action_id'', PStr (ap_action_id p)),
      (''device_id'', PStr (ap_device_id p)), (''arguments_digest'', PStr (ap_arguments_digest p)),
      (''target_snapshot_digest'', PStr (ap_target_digest p)),
      (''policy_snapshot_digest'', PStr (ap_policy_digest p)),
      (''nonce'', PStr (ap_nonce p)), (''expires_at'', PFloat (ap_expires_at p))])"

text \<open>The verifier of \<open>approvals.py\<close>: the device it belongs to and its table of consumed nonces, with the
  digest of the payload and the time of consumption.\<close>

record approval_store =
  as_device :: string
  as_consumed :: "(string, string \<times> py_time) py_dict"

definition verify_and_consume ::
  "(string \<Rightarrow> string) \<Rightarrow> (string \<Rightarrow> string \<Rightarrow> bool option) \<Rightarrow> py_time \<Rightarrow> string \<Rightarrow> string \<Rightarrow> string
     \<Rightarrow> approval_store \<Rightarrow> bool \<times> approval_store" where
  "verify_and_consume sha256 check now payload signature nonce st =
     (if nonce = [] \<or> 512 < length nonce \<or> signature = [] \<or> 8192 < length signature then (False, st)
      else if check payload signature \<noteq> Some True then (False, st)
      else if dict_get (as_consumed st) nonce \<noteq> None then (False, st)
      else (True, st\<lparr>as_consumed := as_consumed st @ [(nonce, sha256 payload, now)]\<rparr>))"

text \<open>\<open>validate_and_consume\<close>, with this verifier or none.\<close>

definition validate_and_consume ::
  "(pyval \<Rightarrow> string) \<Rightarrow> (string \<Rightarrow> string) \<Rightarrow> (string \<Rightarrow> string \<Rightarrow> bool option) \<Rightarrow> py_time \<Rightarrow> approval_proof
     \<Rightarrow> string \<Rightarrow> string \<Rightarrow> string \<Rightarrow> string \<Rightarrow> string \<Rightarrow> approval_store option
     \<Rightarrow> (node_error + unit) \<times> approval_store option" where
  "validate_and_consume canon sha256 check now p action_id device_id args target policy verifier =
     (if ap_expires_at p \<le> now then (Inl (ApprovalRequired ''approval expired''), verifier)
      else if ap_action_id p \<noteq> action_id \<or> ap_device_id p \<noteq> device_id
      then (Inl (ApprovalRequired ''approval action or device changed''), verifier)
      else if ap_arguments_digest p \<noteq> args
      then (Inl (ApprovalRequired ''approval arguments changed''), verifier)
      else if ap_policy_digest p \<noteq> policy then (Inl (ApprovalRequired ''approval policy changed''), verifier)
      else if ap_target_digest p \<noteq> target then (Inl (StaleTarget ''approval target changed''), verifier)
      else (case verifier of
              None \<Rightarrow> (Inl (ApprovalRequired ''trusted local approval verifier is unavailable''), verifier)
            | Some st \<Rightarrow>
                if as_device st \<noteq> device_id
                then (Inl (ApprovalRequired ''trusted local approval verifier belongs to another device''), verifier)
                else if ap_nonce p = [] \<or> 512 < length (ap_nonce p) \<or> ap_signature p = []
                then (Inl (ApprovalRequired ''trusted local approval receipt is invalid''), verifier)
                else (let (ok, st') = verify_and_consume sha256 check now (canonical_local_payload canon p)
                                        (ap_signature p) (ap_nonce p) st
                      in (if ok then Inr ()
                          else Inl (ApprovalRequired ''trusted local approval verification failed''), Some st'))))"

section \<open>Action envelopes\<close>

record action_context =
  ax_action_id :: string
  ax_idempotency_key :: string
  ax_tenant_id :: string
  ax_user_id :: string
  ax_session_id :: string
  ax_run_id :: string
  ax_agent_id :: string
  ax_agent_version :: string
  ax_call_id :: string
  ax_device_id :: string
  ax_envelope_version :: int
  ax_capability :: string
  ax_tool_name :: string
  ax_operation :: string
  ax_lease_id :: string
  ax_resource_refs :: "string list"
  ax_arguments_digest :: string
  ax_target_digest :: string
  ax_policy_digest :: string
  ax_nonce :: string
  ax_issued_at :: rat
  ax_expires_at :: rat
  ax_key_id :: string
  ax_signature :: string
  ax_approval :: "approval_proof option"

definition digest_payload :: "(pyval \<Rightarrow> string) \<Rightarrow> (string \<Rightarrow> string) \<Rightarrow> pyval \<Rightarrow> string" where
  "digest_payload canon sha256 v = sha256 (canon v)"

definition approval_value :: "approval_proof option \<Rightarrow> pyval" where
  "approval_value ap = (case ap of None \<Rightarrow> PNone | Some p \<Rightarrow> PDict
     [(''approval_id'', PStr (ap_id p)), (''action_id'', PStr (ap_action_id p)),
      (''device_id'', PStr (ap_device_id p)), (''arguments_digest'', PStr (ap_arguments_digest p)),
      (''target_snapshot_digest'', PStr (ap_target_digest p)),
      (''policy_snapshot_digest'', PStr (ap_policy_digest p)), (''nonce'', PStr (ap_nonce p)),
      (''expires_at'', PFloat (ap_expires_at p)), (''local_signature'', PStr (ap_signature p))])"

definition signed_value :: "(pyval \<Rightarrow> string) \<Rightarrow> (string \<Rightarrow> string) \<Rightarrow> action_context \<Rightarrow> pyval" where
  "signed_value canon sha256 a = PDict
     [(''action_id'', PStr (ax_action_id a)), (''idempotency_key'', PStr (ax_idempotency_key a)),
      (''tenant_id'', PStr (ax_tenant_id a)), (''user_id'', PStr (ax_user_id a)),
      (''session_id'', PStr (ax_session_id a)), (''run_id'', PStr (ax_run_id a)),
      (''agent_id'', PStr (ax_agent_id a)), (''agent_version'', PStr (ax_agent_version a)),
      (''call_id'', PStr (ax_call_id a)), (''device_id'', PStr (ax_device_id a)),
      (''envelope_version'', PInt (ax_envelope_version a)), (''capability'', PStr (ax_capability a)),
      (''tool_name'', PStr (ax_tool_name a)), (''operation'', PStr (ax_operation a)),
      (''capability_lease_id'', PStr (ax_lease_id a)),
      (''resource_refs'', PList (map PStr (ax_resource_refs a))),
      (''resource_refs_digest'', PStr (digest_payload canon sha256 (PList (map PStr (ax_resource_refs a))))),
      (''arguments_digest'', PStr (ax_arguments_digest a)),
      (''target_snapshot_digest'', PStr (ax_target_digest a)),
      (''policy_snapshot_digest'', PStr (ax_policy_digest a)), (''nonce'', PStr (ax_nonce a)),
      (''issued_at'', PFloat (ax_issued_at a)), (''expires_at'', PFloat (ax_expires_at a)),
      (''platform_key_id'', PStr (ax_key_id a)), (''approval'', approval_value (ax_approval a))]"

definition canonical_signed_payload :: "(pyval \<Rightarrow> string) \<Rightarrow> (string \<Rightarrow> string) \<Rightarrow> action_context \<Rightarrow> string" where
  "canonical_signed_payload canon sha256 a = canon (signed_value canon sha256 a)"

definition identifier_ok :: "string \<Rightarrow> bool" where
  "identifier_ok s \<longleftrightarrow> s \<noteq> [] \<and> length s \<le> 512"

definition action_identifiers :: "action_context \<Rightarrow> string list" where
  "action_identifiers a =
     [ax_action_id a, ax_idempotency_key a, ax_tenant_id a, ax_user_id a, ax_session_id a, ax_run_id a,
      ax_agent_id a, ax_agent_version a, ax_call_id a, ax_device_id a, ax_capability a, ax_tool_name a,
      ax_operation a, ax_lease_id a, ax_nonce a, ax_key_id a, ax_arguments_digest a, ax_target_digest a,
      ax_policy_digest a]"

definition approval_identifiers :: "approval_proof \<Rightarrow> string list" where
  "approval_identifiers p =
     [ap_id p, ap_action_id p, ap_device_id p, ap_arguments_digest p, ap_target_digest p,
      ap_policy_digest p, ap_nonce p, ap_signature p]"

definition validate_envelope_metadata :: "py_time \<Rightarrow> action_context \<Rightarrow> node_error + unit" where
  "validate_envelope_metadata now a =
     guard_else (list_all identifier_ok (action_identifiers a))
       (CapabilityDenied ''action envelope identity is invalid'')
    (guard_else (ax_envelope_version a = 1)
       (CapabilityDenied ''action envelope version is unsupported'')
    (guard_else (ax_resource_refs a \<noteq> [] \<and> length (ax_resource_refs a) \<le> 64 \<and>
         list_all (\<lambda>r. r \<noteq> [] \<and> length r \<le> 1024) (ax_resource_refs a) \<and> distinct (ax_resource_refs a))
       (CapabilityDenied ''action envelope resource references are invalid'')
    (guard_else (ax_issued_at a \<le> now + 30 \<and> ax_issued_at a < ax_expires_at a)
       (CapabilityDenied ''action envelope lifetime is invalid'')
    (guard_else (now < ax_expires_at a) (CapabilityDenied ''action envelope expired'')
    (case ax_approval a of
       None \<Rightarrow> Inr ()
     | Some p \<Rightarrow>
         guard_else (list_all identifier_ok (approval_identifiers p))
           (CapabilityDenied ''action approval metadata is invalid'')
        (guard_else (ap_expires_at p \<le> ax_expires_at a)
           (CapabilityDenied ''action approval exceeds envelope lifetime'') (Inr ())))))))"

type_synonym platform_verifier = "string \<Rightarrow> string \<Rightarrow> string \<Rightarrow> bool option"

definition verify_platform_signature ::
  "(pyval \<Rightarrow> string) \<Rightarrow> (string \<Rightarrow> string) \<Rightarrow> py_time \<Rightarrow> platform_verifier option \<Rightarrow> action_context
     \<Rightarrow> node_error + unit" where
  "verify_platform_signature canon sha256 now verifier a =
     result_bind (validate_envelope_metadata now a) (\<lambda>_.
       case verifier of
         None \<Rightarrow> Inl (CapabilityDenied ''platform signature verifier is unavailable'')
       | Some verify \<Rightarrow>
           guard_else (ax_signature a \<noteq> [] \<and> length (ax_signature a) \<le> 8192)
             (CapabilityDenied ''platform-signed action envelope is required'')
          (guard_else (verify (ax_key_id a) (canonical_signed_payload canon sha256 a) (ax_signature a) = Some True)
             (CapabilityDenied ''platform action signature verification failed'') (Inr ())))"

definition validate_payload ::
  "(pyval \<Rightarrow> string) \<Rightarrow> (string \<Rightarrow> string) \<Rightarrow> py_time \<Rightarrow> platform_verifier option \<Rightarrow> pyval \<Rightarrow> string option
     \<Rightarrow> string list option \<Rightarrow> action_context \<Rightarrow> node_error + unit" where
  "validate_payload canon sha256 now verifier arguments lease refs a =
     result_bind (validate_envelope_metadata now a) (\<lambda>_.
       guard_else (case lease of None \<Rightarrow> True | Some l \<Rightarrow> ax_lease_id a = l)
         (CapabilityDenied ''action capability lease does not match local scope'')
      (guard_else (case refs of None \<Rightarrow> True | Some rs \<Rightarrow> ax_resource_refs a = rs)
         (CapabilityDenied ''action resources do not match local scope'')
      (guard_else (digest_payload canon sha256 arguments = ax_arguments_digest a)
         (CapabilityDenied ''action arguments do not match signed envelope'')
      (verify_platform_signature canon sha256 now verifier a))))"

definition require_approval ::
  "(pyval \<Rightarrow> string) \<Rightarrow> (string \<Rightarrow> string) \<Rightarrow> (string \<Rightarrow> string \<Rightarrow> bool option) \<Rightarrow> py_time \<Rightarrow> string
     \<Rightarrow> action_context \<Rightarrow> approval_store option \<Rightarrow> (node_error + unit) \<times> approval_store option" where
  "require_approval canon sha256 check now target a verifier =
     (if ax_target_digest a \<noteq> target then (Inl (StaleTarget ''action envelope target changed''), verifier)
      else (case ax_approval a of
              None \<Rightarrow> (Inl (ApprovalRequired ''local approval is required''), verifier)
            | Some p \<Rightarrow> validate_and_consume canon sha256 check now p (ax_action_id a) (ax_device_id a)
                 (ax_arguments_digest a) target (ax_policy_digest a) verifier))"

section \<open>One-use registries\<close>

text \<open>A registry accepts a token only while it has not been spent, and remembers it from then on.\<close>

fun spend_all :: "('x \<Rightarrow> 's \<Rightarrow> bool \<times> 's) \<Rightarrow> ('x \<Rightarrow> 'k) \<Rightarrow> 'x list \<Rightarrow> 's \<Rightarrow> 'k list \<times> 's" where
  "spend_all spend token_of [] s = ([], s)"
| "spend_all spend token_of (x # xs) s =
     (let (ks, s') = spend_all spend token_of xs (snd (spend x s))
      in ((if fst (spend x s) then [token_of x] else []) @ ks, s'))"

locale one_use =
  fixes spend :: "'x \<Rightarrow> 's \<Rightarrow> bool \<times> 's"
    and token_of :: "'x \<Rightarrow> 'k"
    and spent :: "'s \<Rightarrow> 'k set"
  assumes spend_ok: "fst (spend x s) \<Longrightarrow> token_of x \<notin> spent s \<and> spent (snd (spend x s)) = insert (token_of x) (spent s)"
    and spend_no: "\<not> fst (spend x s) \<Longrightarrow> spent (snd (spend x s)) = spent s"
begin

lemma spend_all_once:
  "distinct (fst (spend_all spend token_of xs s)) \<and> set (fst (spend_all spend token_of xs s)) \<inter> spent s = {}"
proof (induction xs arbitrary: s)
  case (Cons x xs)
  show ?case
    using Cons.IH[of "snd (spend x s)"] spend_ok[of x s] spend_no[of x s]
    by (cases "fst (spend x s)") (auto simp: case_prod_beta Let_def)
qed simp

end

text \<open>A use of an approval: the payload, signature and nonce presented, and the time.\<close>

type_synonym approval_use = "string \<times> string \<times> string \<times> py_time"

definition consume_use ::
  "(string \<Rightarrow> string) \<Rightarrow> (string \<Rightarrow> string \<Rightarrow> bool option) \<Rightarrow> approval_use \<Rightarrow> approval_store \<Rightarrow> bool \<times> approval_store" where
  "consume_use sha256 check u st =
     (case u of (payload, signature, nonce, now) \<Rightarrow> verify_and_consume sha256 check now payload signature nonce st)"

definition use_nonce :: "approval_use \<Rightarrow> string" where
  "use_nonce u = fst (snd (snd u))"

definition consumed_nonces :: "approval_store \<Rightarrow> string set" where
  "consumed_nonces st = dom (dict_get (as_consumed st))"

interpretation approvals: one_use "consume_use sha256 check" use_nonce consumed_nonces
  for sha256 check
  by unfold_locales
    (auto simp: consume_use_def use_nonce_def consumed_nonces_def verify_and_consume_def
      dom_map_of_conv_image_fst map_of_eq_None_iff split: prod.splits if_splits)

section \<open>Directory grants\<close>

text \<open>What the file system says of a path: nothing there, or its kind, device and inode, and the path
  it resolves to.\<close>

datatype path_kind = Symlink | Directory | OtherFile

record path_stat =
  pt_kind :: path_kind
  pt_device :: int
  pt_inode :: int
  pt_resolved :: string

record directory_grant =
  dg_id :: string
  dg_root :: string
  dg_capabilities :: "string list"
  dg_tenant :: string
  dg_user :: string
  dg_issued_at :: rat
  dg_expires_at :: "rat option"
  dg_device :: int
  dg_inode :: int

record grant_store =
  gs_grants :: "(string, directory_grant) py_dict"
  gs_revoked :: "string list"

definition file_capabilities :: "string list" where
  "file_capabilities = [''list'', ''read'', ''search'', ''watch'', ''write'', ''rollback'']"

definition is_alnum :: "char \<Rightarrow> bool" where
  "is_alnum c = (let n = of_char c :: nat in
     (48 \<le> n \<and> n \<le> 57) \<or> (65 \<le> n \<and> n \<le> 90) \<or> (97 \<le> n \<and> n \<le> 122))"

text \<open>\<open>[A-Za-z0-9][A-Za-z0-9._:-]{0,199}\<close>\<close>

definition grant_id_ok :: "string \<Rightarrow> bool" where
  "grant_id_ok s = (case s of [] \<Rightarrow> False
     | c # cs \<Rightarrow> is_alnum c \<and> length cs \<le> 199 \<and>
         list_all (\<lambda>d. is_alnum d \<or> d \<in> set ''._:-'') cs)"

text \<open>\<open>issue\<close>: the supplied path, what is there, the random id that is used when none is given.\<close>

definition issue_grant ::
  "py_time \<Rightarrow> string \<Rightarrow> string \<Rightarrow> path_stat option \<Rightarrow> string list \<Rightarrow> int option \<Rightarrow> string \<Rightarrow> string \<Rightarrow> string option
     \<Rightarrow> grant_store \<Rightarrow> (node_error + directory_grant) \<times> grant_store" where
  "issue_grant now random_id supplied st caps ttl tenant user grant_id gs =
     (if \<not> starts_with supplied ''/'' then (Inl (PathEscape ''grant root must be absolute''), gs)
      else case st of None \<Rightarrow> (Inl (PathEscape ''grant root does not exist''), gs)
      | Some ps \<Rightarrow>
         if pt_kind ps = Symlink then (Inl (PathEscape ''grant root cannot be a symlink''), gs)
         else if pt_kind ps \<noteq> Directory then (Inl (PathEscape ''grant root must be a directory''), gs)
         else if \<not> set caps \<subseteq> set file_capabilities \<or> caps = []
         then (Inl (CapabilityDenied ''unsupported or empty grant capabilities''), gs)
         else if ''rollback'' \<in> set caps \<and> ''write'' \<notin> set caps
         then (Inl (CapabilityDenied ''rollback cannot be granted without file write authority''), gs)
         else if (case ttl of None \<Rightarrow> False | Some t \<Rightarrow> t \<le> 0)
         then (Inl (CapabilityDenied ''grant lifetime must be positive''), gs)
         else (let gid = or_str (opt_str grant_id) (''grant_'' @ random_id)
               in if \<not> grant_id_ok gid \<or> dict_get (gs_grants gs) gid \<noteq> None
                  then (Inl (CapabilityDenied ''directory grant id is invalid or already in use''), gs)
                  else (let g = \<lparr>dg_id = gid, dg_root = pt_resolved ps,
                          dg_capabilities = (if ''write'' \<in> set caps then List.insert ''rollback'' caps else caps),
                          dg_tenant = tenant, dg_user = user, dg_issued_at = now,
                          dg_expires_at = map_option (\<lambda>t. now + of_int t) ttl,
                          dg_device = pt_device ps, dg_inode = pt_inode ps\<rparr>
                        in (Inr g, gs\<lparr>gs_grants := dict_set gid g (gs_grants gs)\<rparr>))))"

text \<open>\<open>get\<close>; \<open>current\<close> is \<open>os.stat\<close> of a root, without following symlinks.\<close>

definition get_grant ::
  "py_time \<Rightarrow> (string \<Rightarrow> path_stat option) \<Rightarrow> string \<Rightarrow> string \<Rightarrow> string option \<Rightarrow> string option
     \<Rightarrow> grant_store \<Rightarrow> node_error + directory_grant" where
  "get_grant now current grant_id capability tenant user gs =
     (case dict_get (gs_grants gs) grant_id of
        None \<Rightarrow> Inl (CapabilityDenied ''directory grant unavailable'')
      | Some g \<Rightarrow>
          guard_else (grant_id \<notin> set (gs_revoked gs)) (CapabilityDenied ''directory grant unavailable'')
         (guard_else (case dg_expires_at g of None \<Rightarrow> True | Some e \<Rightarrow> now < e)
            (CapabilityDenied ''directory grant expired'')
         (guard_else (capability \<in> set (dg_capabilities g))
            (CapabilityDenied (''directory grant does not allow '' @ capability))
         (guard_else (case tenant of None \<Rightarrow> True | Some t \<Rightarrow> t = dg_tenant g)
            (CapabilityDenied ''directory grant belongs to another tenant'')
         (guard_else (case user of None \<Rightarrow> True | Some u \<Rightarrow> u = dg_user g)
            (CapabilityDenied ''directory grant belongs to another user'')
         (case current (dg_root g) of
            None \<Rightarrow> Inl (CapabilityDenied ''directory grant root is unavailable'')
          | Some ps \<Rightarrow>
              guard_else ((pt_device ps, pt_inode ps) = (dg_device g, dg_inode g))
                (CapabilityDenied ''directory grant root identity changed'') (Inr g)))))))"

definition revoke_grant :: "string \<Rightarrow> grant_store \<Rightarrow> grant_store" where
  "revoke_grant grant_id gs =
     (if dict_get (gs_grants gs) grant_id \<noteq> None
      then gs\<lparr>gs_revoked := List.insert grant_id (gs_revoked gs)\<rparr> else gs)"

definition active_grants :: "py_time \<Rightarrow> (string \<Rightarrow> path_stat option) \<Rightarrow> grant_store \<Rightarrow> directory_grant list" where
  "active_grants now current gs =
     map snd (filter (\<lambda>(gid, g). case dg_capabilities g of [] \<Rightarrow> False
        | c # cs \<Rightarrow> \<not> isl (get_grant now current gid c None None gs)) (gs_grants gs))"

datatype grant_op =
    OpIssue py_time string string "path_stat option" "string list" "int option" string string "string option"
  | OpRevoke string

fun grant_step :: "grant_op \<Rightarrow> grant_store \<Rightarrow> grant_store" where
  "grant_step (OpIssue now rnd supplied st caps ttl tenant user gid) gs =
     snd (issue_grant now rnd supplied st caps ttl tenant user gid gs)"
| "grant_step (OpRevoke gid) gs = revoke_grant gid gs"

lemma grant_step_revoked: "gid \<in> set (gs_revoked gs) \<Longrightarrow> gid \<in> set (gs_revoked (grant_step op' gs))"
  by (cases op') (auto simp: issue_grant_def revoke_grant_def Let_def split: option.splits)

lemma grant_run_revoked: "gid \<in> set (gs_revoked gs) \<Longrightarrow> gid \<in> set (gs_revoked (fold grant_step os gs))"
  by (induction os arbitrary: gs) (simp_all add: grant_step_revoked)

section \<open>Properties\<close>

text \<open>
  An approval works once. Over any sequence of uses, of the same or of different payloads, no
  nonce is accepted twice, and none that was consumed before.
\<close>

theorem approvals_are_one_use:
  "distinct (fst (spend_all (consume_use sha256 check) use_nonce uses st)) \<and>
   set (fst (spend_all (consume_use sha256 check) use_nonce uses st)) \<inter> consumed_nonces st = {}"
  by (rule approvals.spend_all_once)

text \<open>
  C10: an action passes its approval gate only if the device has a trusted verifier at all, and then only with
  an unexpired proof that names this action, device, arguments, policy and target, whose signature that
  verifier accepted, and whose nonce is consumed by that very call; any other outcome, a missing verifier
  included, is a refusal that leaves the verifier as it was.
\<close>

theorem approval_gate_is_bound:
  assumes "require_approval canon sha256 check now target a verifier = (res, verifier')"
  shows "case res of
      Inl e \<Rightarrow> verifier' = verifier
    | Inr _ \<Rightarrow> (\<exists>p st st'. ax_approval a = Some p \<and> verifier = Some st \<and> verifier' = Some st' \<and>
         now < ap_expires_at p \<and> ap_action_id p = ax_action_id a \<and> ap_device_id p = ax_device_id a \<and>
         as_device st = ax_device_id a \<and> ap_arguments_digest p = ax_arguments_digest a \<and>
         ap_policy_digest p = ax_policy_digest a \<and> ap_target_digest p = ax_target_digest a \<and>
         target = ax_target_digest a \<and>
         check (canonical_local_payload canon p) (ap_signature p) = Some True \<and>
         ap_nonce p \<notin> consumed_nonces st \<and> consumed_nonces st' = insert (ap_nonce p) (consumed_nonces st))"
  using assms
  by (auto simp: require_approval_def validate_and_consume_def verify_and_consume_def consumed_nonces_def
      not_le dom_map_of_conv_image_fst map_of_eq_None_iff split: option.splits if_splits sum.splits prod.splits)

definition sample_proof :: approval_proof where
  "sample_proof = \<lparr>ap_id = ''p'', ap_action_id = ''a'', ap_device_id = ''d'', ap_arguments_digest = ''x'',
     ap_target_digest = ''t'', ap_policy_digest = ''y'', ap_nonce = ''n'', ap_expires_at = 50,
     ap_signature = ''sig''\<rparr>"

definition sample_action :: action_context where
  "sample_action = \<lparr>ax_action_id = ''a'', ax_idempotency_key = ''k'', ax_tenant_id = ''t'', ax_user_id = ''u'',
     ax_session_id = ''s'', ax_run_id = ''r'', ax_agent_id = ''g'', ax_agent_version = ''1'', ax_call_id = ''c'',
     ax_device_id = ''d'', ax_envelope_version = 1, ax_capability = ''file'', ax_tool_name = ''w'',
     ax_operation = ''write'', ax_lease_id = ''l'', ax_resource_refs = [''f''], ax_arguments_digest = ''x'',
     ax_target_digest = ''t'', ax_policy_digest = ''y'', ax_nonce = ''m'', ax_issued_at = 0, ax_expires_at = 60,
     ax_key_id = ''key'', ax_signature = ''sig'', ax_approval = Some sample_proof\<rparr>"

theorem approval_gate_is_bound_witness:
  "let (res, v) = require_approval (\<lambda>v. ''j'') id (\<lambda>p s. Some True) 10 ''t'' sample_action
                    (Some \<lparr>as_device = ''d'', as_consumed = []\<rparr>)
   in res = Inr () \<and> (\<exists>st'. v = Some st' \<and> consumed_nonces st' = {''n''})"
proof -
  let ?st = "\<lparr>as_device = ''d'', as_consumed = []\<rparr>"
  obtain v where e: "require_approval (\<lambda>v. ''j'') id (\<lambda>p s. Some True) 10 ''t'' sample_action (Some ?st) = (Inr (), v)"
    by (simp add: require_approval_def validate_and_consume_def verify_and_consume_def sample_action_def
        sample_proof_def)
  have n: "consumed_nonces ?st = {}" "ax_approval sample_action = Some sample_proof" "ap_nonce sample_proof = ''n''"
    by (simp_all add: consumed_nonces_def sample_action_def sample_proof_def)
  from approval_gate_is_bound[OF e] show ?thesis unfolding e by (auto simp: n)
qed

text \<open>
  An envelope passes the platform check only if its metadata are well formed, it is within its
  lifetime and its signature over exactly its canonical payload was accepted under the key it names;
  an approval it carries does not outlive it.
\<close>

theorem platform_check_is_sound:
  assumes "verify_platform_signature canon sha256 now verifier a = Inr ()"
  shows "list_all identifier_ok (action_identifiers a) \<and> ax_envelope_version a = 1 \<and>
    distinct (ax_resource_refs a) \<and> ax_resource_refs a \<noteq> [] \<and>
    ax_issued_at a \<le> now + 30 \<and> now < ax_expires_at a \<and>
    (\<forall>p. ax_approval a = Some p \<longrightarrow> ap_expires_at p \<le> ax_expires_at a) \<and>
    (\<exists>verify. verifier = Some verify \<and>
       verify (ax_key_id a) (canonical_signed_payload canon sha256 a) (ax_signature a) = Some True)"
  using assms
  by (auto simp: verify_platform_signature_def validate_envelope_metadata_def result_bind_Inr
      split: option.splits)

theorem platform_check_is_sound_witness:
  "verify_platform_signature (\<lambda>v. ''j'') id 10 (Some (\<lambda>k p s. Some (k = ''key''))) sample_action = Inr () \<and>
   ax_envelope_version sample_action = 1"
proof -
  have e: "verify_platform_signature (\<lambda>v. ''j'') id 10 (Some (\<lambda>k p s. Some (k = ''key''))) sample_action = Inr ()"
    by code_simp
  from platform_check_is_sound[OF e] e show ?thesis by blast
qed

text \<open>
  Revoking a directory grant is final: whatever is issued or revoked afterwards, the grant is
  never handed out again, for no capability and at no time.
\<close>

theorem revoked_grant_stays_revoked:
  assumes "dict_get (gs_grants gs) gid \<noteq> None"
  shows "isl (get_grant now current gid capability tenant user (fold grant_step os (revoke_grant gid gs)))"
proof -
  have "gid \<in> set (gs_revoked (revoke_grant gid gs))" using assms by (simp add: revoke_grant_def)
  from grant_run_revoked[OF this, of os] show ?thesis
    by (auto simp: get_grant_def guard_else_def split: option.splits)
qed

definition sample_grants :: grant_store where
  "sample_grants = snd (issue_grant 0 ''r'' ''/home''
     (Some \<lparr>pt_kind = Directory, pt_device = 1, pt_inode = 2, pt_resolved = ''/home''\<rparr>)
     [''read'', ''write''] (Some 60) ''t'' ''u'' (Some ''g1'') \<lparr>gs_grants = [], gs_revoked = []\<rparr>)"

theorem revoked_grant_stays_revoked_witness:
  "isl (get_grant 1 (\<lambda>p. Some \<lparr>pt_kind = Directory, pt_device = 1, pt_inode = 2, pt_resolved = p\<rparr>)
     ''g1'' ''read'' None None (fold grant_step [OpRevoke ''g2''] (revoke_grant ''g1'' sample_grants)))"
proof -
  have "dict_get (gs_grants sample_grants) ''g1'' \<noteq> None" by code_simp
  then show ?thesis by (rule revoked_grant_stays_revoked)
qed

end
