(* ===== verification/Local_Ledger.thy ===== *)
theory Local_Ledger
  imports Local_Actions
begin

text \<open>
  The action ledger of the local node (\<open>src/apps/local-node/src/local_node/ledger.py\<close>): an index of
  claimed actions and a hash chain of events in one SQLite database. The tables are lists of rows in
  insertion order; a statement that raises rolls its transaction back, so an error leaves the ledger as
  it was, and the ledger's lock serialises the operations. \<open>canon\<close> is \<open>canonical_json\<close>, \<open>parse\<close> is
  \<open>json.loads\<close> (\<open>None\<close>: it raises) and \<open>sha256\<close> the hexadecimal SHA-256 of a text; each reading of the
  clock is an argument.
\<close>

section \<open>Statuses\<close>

datatype action_status =
    Proposed | PolicyCheck | AwaitingApproval | Dispatched | Running | Observed
  | Succeeded | Failed | Cancelled | Interrupted | Unknown

fun status_value :: "action_status \<Rightarrow> string" where
  "status_value Proposed = ''proposed''"
| "status_value PolicyCheck = ''policy_check''"
| "status_value AwaitingApproval = ''awaiting_approval''"
| "status_value Dispatched = ''dispatched''"
| "status_value Running = ''running''"
| "status_value Observed = ''observed''"
| "status_value Succeeded = ''succeeded''"
| "status_value Failed = ''failed''"
| "status_value Cancelled = ''cancelled''"
| "status_value Interrupted = ''interrupted''"
| "status_value Unknown = ''unknown''"

definition all_statuses :: "action_status list" where
  "all_statuses = [Proposed, PolicyCheck, AwaitingApproval, Dispatched, Running, Observed, Succeeded,
     Failed, Cancelled, Interrupted, Unknown]"

text \<open>\<open>ActionStatus(text)\<close>\<close>

definition status_of :: "string \<Rightarrow> action_status option" where
  "status_of s = find (\<lambda>st. status_value st = s) all_statuses"

definition terminal_statuses :: "action_status list" where
  "terminal_statuses = [Succeeded, Failed, Cancelled, Interrupted, Unknown]"

fun allowed_transitions :: "action_status \<Rightarrow> action_status list" where
  "allowed_transitions Proposed = [PolicyCheck]"
| "allowed_transitions PolicyCheck = [AwaitingApproval, Dispatched, Failed, Cancelled, Interrupted]"
| "allowed_transitions AwaitingApproval = [Dispatched, Failed, Cancelled, Interrupted]"
| "allowed_transitions Dispatched =
     [Running, Observed, Succeeded, Failed, Cancelled, Interrupted, Unknown]"
| "allowed_transitions Running = [Observed, Succeeded, Failed, Cancelled, Interrupted, Unknown]"
| "allowed_transitions Observed = [Succeeded, Failed, Cancelled, Interrupted, Unknown]"
| "allowed_transitions _ = []"

lemma status_of_value [simp]: "status_of (status_value st) = Some st"
  by (cases st) (simp_all add: status_of_def all_statuses_def)

lemma status_value_inj [simp]: "status_value s = status_value t \<longleftrightarrow> s = t"
  by (metis option.inject status_of_value)

lemma status_of_Some: "status_of s = Some st \<longleftrightarrow> s = status_value st"
  by (auto simp: status_of_def find_Some_iff)
    (metis status_of_def status_of_value find_Some_iff)

section \<open>Sanitising\<close>

definition redacted :: string where
  "redacted = ''[REDACTED]''"

definition sensitive_key_parts :: "string list" where
  "sensitive_key_parts = [''secret'', ''token'', ''password'', ''passwd'', ''credential'',
     ''authorization'', ''cookie'', ''private_key'', ''error_detail'']"

definition sensitive_value_markers :: "string list" where
  "sensitive_value_markers = [''-----begin private key-----'', ''-----begin rsa private key-----'',
     ''bearer '', ''sk-'', ''ghp_'', ''secret_canary'', ''secret-canary'']"

definition sensitive_key :: "string \<Rightarrow> bool" where
  "sensitive_key key =
     (list_ex (contains_sub (py_lower key)) sensitive_key_parts \<or>
      py_lower key \<in> set [''stdout'', ''stderr'', ''content'', ''raw_content''])"

definition marked :: "string \<Rightarrow> bool" where
  "marked s = list_ex (contains_sub (py_lower s)) sensitive_value_markers"

fun sanitize_payload :: "string \<Rightarrow> pyval \<Rightarrow> pyval" where
  "sanitize_payload key v =
     (if sensitive_key key then PStr redacted
      else case v of
             PDict d \<Rightarrow> PDict (map (\<lambda>(k, x). (k, sanitize_payload k x)) d)
           | PList vs \<Rightarrow> PList (map (sanitize_payload []) vs)
           | PStr s \<Rightarrow> if marked s then PStr redacted else v
           | _ \<Rightarrow> v)"

declare sanitize_payload.simps [simp del]

lemma redacted_not_marked [simp]: "\<not> marked redacted"
  by code_simp

lemma empty_key_not_sensitive [simp]: "\<not> sensitive_key []"
  by code_simp

lemma sanitize_cases:
  "sensitive_key key \<Longrightarrow> sanitize_payload key v = PStr redacted"
  "\<not> sensitive_key key \<Longrightarrow> sanitize_payload key (PDict d) = PDict (map (\<lambda>(k, x). (k, sanitize_payload k x)) d)"
  "\<not> sensitive_key key \<Longrightarrow> sanitize_payload key (PList vs) = PList (map (sanitize_payload []) vs)"
  "\<not> sensitive_key key \<Longrightarrow> sanitize_payload key (PStr s) = PStr (if marked s then redacted else s)"
  "\<not> sensitive_key key \<Longrightarrow> sanitize_payload key PNone = PNone"
  "\<not> sensitive_key key \<Longrightarrow> sanitize_payload key (PBool b) = PBool b"
  "\<not> sensitive_key key \<Longrightarrow> sanitize_payload key (PInt n) = PInt n"
  "\<not> sensitive_key key \<Longrightarrow> sanitize_payload key (PFloat x) = PFloat x"
  by (simp_all add: sanitize_payload.simps)

lemma sanitize_idem [simp]: "sanitize_payload key (sanitize_payload key v) = sanitize_payload key v"
proof (induction key v rule: sanitize_payload.induct)
  case (1 key v)
  show ?case
  proof (cases "sensitive_key key")
    case False
    then show ?thesis using 1 by (cases v) (auto simp: sanitize_cases)
  qed (simp add: sanitize_cases)
qed

text \<open>What a stored value must not contain: text under a sensitive key, or a marked text anywhere.\<close>

fun leaks :: "string \<Rightarrow> pyval \<Rightarrow> bool" where
  "leaks key (PDict d) = (sensitive_key key \<or> list_ex (\<lambda>(k, x). leaks k x) d)"
| "leaks key (PList vs) = (sensitive_key key \<or> list_ex (leaks []) vs)"
| "leaks key (PStr s) = (if sensitive_key key then s \<noteq> redacted else marked s)"
| "leaks key _ = sensitive_key key"

lemma sanitize_no_leak: "\<not> leaks key (sanitize_payload key v)"
proof (induction key v rule: sanitize_payload.induct)
  case (1 key v)
  show ?case
  proof (cases "sensitive_key key")
    case False
    then show ?thesis using 1 by (cases v) (auto simp: sanitize_cases list_ex_iff)
  qed (simp add: sanitize_cases)
qed

section \<open>Equality of JSON values\<close>

text \<open>\<open>==\<close> on values: numbers by value, dictionaries without regard to order.\<close>

fun py_num :: "pyval \<Rightarrow> rat option" where
  "py_num (PBool b) = Some (if b then 1 else 0)"
| "py_num (PInt n) = Some (of_int n)"
| "py_num (PFloat x) = Some x"
| "py_num _ = None"

function py_eq :: "pyval \<Rightarrow> pyval \<Rightarrow> bool" where
  "py_eq v w =
     (case (v, w) of
        (PDict a, PDict b) \<Rightarrow> length a = length b \<and>
          list_all (\<lambda>(k, x). case dict_get b k of None \<Rightarrow> False | Some y \<Rightarrow> py_eq x y) a
      | (PList a, PList b) \<Rightarrow> length a = length b \<and> list_all (\<lambda>(x, y). py_eq x y) (zip a b)
      | (PStr s, PStr t) \<Rightarrow> s = t
      | (PNone, PNone) \<Rightarrow> True
      | _ \<Rightarrow> py_num v \<noteq> None \<and> py_num v = py_num w)"
  by pat_completeness auto

lemma size_zip_member: "(x, y) \<in> set (zip a b) \<Longrightarrow> size x < Suc (size_list size a)"
  by (meson less_Suc_eq_le set_zip_leftD size_list_estimation' order_refl)

termination py_eq
  by (relation "measure (\<lambda>p. size (fst p))") (auto dest: size_list_member size_zip_member)

declare py_eq.simps [simp del]

section \<open>The ledger\<close>

record action_row =
  ar_action :: string
  ar_key :: string
  ar_arguments :: string
  ar_envelope :: string
  ar_status :: string
  ar_result :: "string option"
  ar_created :: rat
  ar_updated :: rat

record ledger_event =
  le_action :: string
  le_type :: string
  le_payload :: string
  le_created :: rat
  le_prev :: string
  le_hash :: string

text \<open>The three tables; \<open>ld_meta\<close> is the row of \<open>ledger_meta\<close>, the number of events and the head hash.\<close>

record ledger =
  ld_actions :: "action_row list"
  ld_events :: "ledger_event list"
  ld_meta :: "(int \<times> string) option"

definition genesis_hash :: string where
  "genesis_hash = replicate 64 (CHR ''0'')"

definition head_hash :: "ledger_event list \<Rightarrow> string" where
  "head_hash es = (case es of [] \<Rightarrow> genesis_hash | _ \<Rightarrow> le_hash (last es))"

text \<open>\<open>__init__\<close> on a database whose table of actions has the column \<open>envelope_digest\<close> or not.\<close>

definition open_ledger :: "bool \<Rightarrow> ledger \<Rightarrow> ledger" where
  "open_ledger has_envelope db =
     (let db1 = (if has_envelope then db
                 else db\<lparr>ld_actions := map (\<lambda>r. r\<lparr>ar_envelope := ''legacy-unbound''\<rparr>) (ld_actions db)\<rparr>)
      in case ld_meta db1 of
           Some _ \<Rightarrow> db1
         | None \<Rightarrow> db1\<lparr>ld_meta := Some (int (length (ld_events db1)), head_hash (ld_events db1))\<rparr>)"

definition empty_db :: ledger where
  "empty_db = \<lparr>ld_actions = [], ld_events = [], ld_meta = None\<rparr>"

definition event_value :: "ledger_event \<Rightarrow> pyval" where
  "event_value v = PDict
     [(''action_id'', PStr (le_action v)), (''event_type'', PStr (le_type v)),
      (''payload'', PStr (le_payload v)), (''created_at'', PFloat (le_created v)),
      (''prev_hash'', PStr (le_prev v))]"

definition event_material :: "(pyval \<Rightarrow> string) \<Rightarrow> ledger_event \<Rightarrow> string" where
  "event_material canon v = canon (event_value v)"

definition append_event ::
  "(pyval \<Rightarrow> string) \<Rightarrow> (string \<Rightarrow> string) \<Rightarrow> py_time \<Rightarrow> string \<Rightarrow> string \<Rightarrow> pyval \<Rightarrow> ledger \<Rightarrow> ledger" where
  "append_event canon sha256 now action_id event_type payload ld =
     (let v = \<lparr>le_action = action_id, le_type = event_type,
                le_payload = canon (sanitize_payload [] payload), le_created = now,
                le_prev = head_hash (ld_events ld), le_hash = []\<rparr>;
          v' = v\<lparr>le_hash := sha256 (event_material canon v)\<rparr>
      in ld\<lparr>ld_events := ld_events ld @ [v'],
             ld_meta := map_option (\<lambda>(n, h). (n + 1, le_hash v')) (ld_meta ld)\<rparr>)"

record action_record =
  rc_action :: string
  rc_key :: string
  rc_arguments :: string
  rc_envelope :: string
  rc_status :: action_status
  rc_result :: "pyval option"

definition row_record :: "(string \<Rightarrow> pyval option) \<Rightarrow> action_row \<Rightarrow> node_error + action_record" where
  "row_record parse r =
     (case (case ar_result r of None \<Rightarrow> Some None | Some t \<Rightarrow> map_option Some (parse t)) of
        None \<Rightarrow> Inl (BadArgument ''stored result is not JSON'')
      | Some res \<Rightarrow>
         (case status_of (ar_status r) of
            None \<Rightarrow> Inl (BadArgument ''not a valid ActionStatus'')
          | Some st \<Rightarrow> Inr \<lparr>rc_action = ar_action r, rc_key = ar_key r, rc_arguments = ar_arguments r,
              rc_envelope = ar_envelope r, rc_status = st, rc_result = res\<rparr>))"

definition action_row_of :: "string \<Rightarrow> ledger \<Rightarrow> action_row option" where
  "action_row_of aid ld = find (\<lambda>r. ar_action r = aid) (ld_actions ld)"

definition key_row_of :: "string \<Rightarrow> ledger \<Rightarrow> action_row option" where
  "key_row_of key ld = find (\<lambda>r. ar_key r = key) (ld_actions ld)"

definition opening_payload :: "(pyval \<Rightarrow> string) \<Rightarrow> (string \<Rightarrow> string) \<Rightarrow> string \<Rightarrow> action_context \<Rightarrow> pyval" where
  "opening_payload canon sha256 envelope_digest a = PDict
     [(''tenant_id'', PStr (ax_tenant_id a)), (''user_id'', PStr (ax_user_id a)),
      (''device_id'', PStr (ax_device_id a)), (''session_id'', PStr (ax_session_id a)),
      (''run_id'', PStr (ax_run_id a)), (''agent_id'', PStr (ax_agent_id a)),
      (''agent_version'', PStr (ax_agent_version a)), (''call_id'', PStr (ax_call_id a)),
      (''envelope_version'', PInt (ax_envelope_version a)), (''capability'', PStr (ax_capability a)),
      (''tool_name'', PStr (ax_tool_name a)), (''operation'', PStr (ax_operation a)),
      (''capability_lease_id'', PStr (ax_lease_id a)),
      (''resource_refs_digest'', PStr (digest_payload canon sha256 (PList (map PStr (ax_resource_refs a))))),
      (''arguments_digest'', PStr (ax_arguments_digest a)),
      (''target_snapshot_digest'', PStr (ax_target_digest a)),
      (''policy_snapshot_digest'', PStr (ax_policy_digest a)),
      (''envelope_digest'', PStr envelope_digest), (''nonce'', PStr (ax_nonce a)),
      (''platform_key_id'', PStr (ax_key_id a)),
      (''approval_id'', case ax_approval a of None \<Rightarrow> PNone | Some p \<Rightarrow> PStr (ap_id p))]"

section \<open>Operations\<close>

text \<open>\<open>begin\<close>: the Boolean is \<open>BeginResult.created\<close>.\<close>

definition begin_action ::
  "(pyval \<Rightarrow> string) \<Rightarrow> (string \<Rightarrow> pyval option) \<Rightarrow> (string \<Rightarrow> string) \<Rightarrow> platform_verifier option
     \<Rightarrow> py_time \<Rightarrow> py_time \<Rightarrow> action_context \<Rightarrow> ledger \<Rightarrow> (node_error + bool \<times> action_record) \<times> ledger" where
  "begin_action canon parse sha256 verifier now now' a ld =
     (case verify_platform_signature canon sha256 now verifier a of
        Inl err \<Rightarrow> (Inl err, ld)
      | Inr _ \<Rightarrow>
         (let digest = sha256 (canonical_signed_payload canon sha256 a);
              by_key = key_row_of (ax_idempotency_key a) ld;
              by_action = action_row_of (ax_action_id a) ld
          in if by_key \<noteq> None \<and> by_action \<noteq> None \<and> by_key \<noteq> by_action
             then (Inl (IdempotencyConflict ''action id and idempotency key refer to different actions''), ld)
             else (case (case by_key of Some r \<Rightarrow> Some r | None \<Rightarrow> by_action) of
                Some r \<Rightarrow>
                  (case row_record parse r of
                     Inl err \<Rightarrow> (Inl err, ld)
                   | Inr rc \<Rightarrow>
                       if rc_action rc \<noteq> ax_action_id a \<or> rc_key rc \<noteq> ax_idempotency_key a \<or>
                          rc_arguments rc \<noteq> ax_arguments_digest a \<or> rc_envelope rc \<noteq> digest
                       then (Inl (IdempotencyConflict ''idempotency key or action id reused with new intent''), ld)
                       else (Inr (False, rc), ld))
              | None \<Rightarrow>
                  (let ld1 = ld\<lparr>ld_actions := ld_actions ld @ [\<lparr>ar_action = ax_action_id a,
                         ar_key = ax_idempotency_key a, ar_arguments = ax_arguments_digest a,
                         ar_envelope = digest, ar_status = status_value PolicyCheck, ar_result = None,
                         ar_created = now, ar_updated = now\<rparr>]\<rparr>
                   in (Inr (True, \<lparr>rc_action = ax_action_id a, rc_key = ax_idempotency_key a,
                         rc_arguments = ax_arguments_digest a, rc_envelope = digest,
                         rc_status = PolicyCheck, rc_result = None\<rparr>),
                       append_event canon sha256 now' (ax_action_id a) (status_value PolicyCheck)
                         (opening_payload canon sha256 digest a) ld1)))))"

definition transition ::
  "(pyval \<Rightarrow> string) \<Rightarrow> (string \<Rightarrow> pyval option) \<Rightarrow> (string \<Rightarrow> string) \<Rightarrow> py_time \<Rightarrow> py_time \<Rightarrow> string
     \<Rightarrow> action_status \<Rightarrow> (string, pyval) py_dict option \<Rightarrow> ledger \<Rightarrow> (node_error + action_record) \<times> ledger" where
  "transition canon parse sha256 now now' aid status result ld =
     (case action_row_of aid ld of
        None \<Rightarrow> (Inl (UnknownAction aid), ld)
      | Some r \<Rightarrow>
         (case row_record parse r of
            Inl err \<Rightarrow> (Inl err, ld)
          | Inr before \<Rightarrow>
              if rc_status before \<in> set terminal_statuses
              then (if rc_status before = status \<and>
                       (case (rc_result before, result) of
                          (None, None) \<Rightarrow> True | (Some v, Some d) \<Rightarrow> py_eq v (PDict d) | _ \<Rightarrow> False)
                    then (Inr before, ld)
                    else (Inl (IdempotencyConflict ''action already has a different terminal result''), ld))
              else if status \<notin> set (allowed_transitions (rc_status before))
              then (Inl (IdempotencyConflict (''invalid action transition '' @ status_value (rc_status before)
                      @ '' -> '' @ status_value status)), ld)
              else (let safe = map_option (\<lambda>d. sanitize_payload [] (PDict d)) result;
                        ld1 = ld\<lparr>ld_actions := map (\<lambda>r. if ar_action r = aid
                                then r\<lparr>ar_status := status_value status, ar_result := map_option canon safe,
                                       ar_updated := now\<rparr> else r) (ld_actions ld)\<rparr>
                    in (Inr (before\<lparr>rc_status := status, rc_result := safe\<rparr>),
                        append_event canon sha256 now' aid (status_value status)
                          (case safe of None \<Rightarrow> PDict [] | Some v \<Rightarrow> v) ld1))))"

definition mark_awaiting_approval ::
  "(pyval \<Rightarrow> string) \<Rightarrow> (string \<Rightarrow> pyval option) \<Rightarrow> (string \<Rightarrow> string) \<Rightarrow> py_time \<Rightarrow> py_time \<Rightarrow> string
     \<Rightarrow> ledger \<Rightarrow> (node_error + action_record) \<times> ledger" where
  "mark_awaiting_approval canon parse sha256 now now' aid ld =
     transition canon parse sha256 now now' aid AwaitingApproval None ld"

definition mark_dispatched ::
  "(pyval \<Rightarrow> string) \<Rightarrow> (string \<Rightarrow> pyval option) \<Rightarrow> (string \<Rightarrow> string) \<Rightarrow> py_time \<Rightarrow> py_time \<Rightarrow> string
     \<Rightarrow> ledger \<Rightarrow> (node_error + action_record) \<times> ledger" where
  "mark_dispatched canon parse sha256 now now' aid ld =
     transition canon parse sha256 now now' aid Dispatched None ld"

definition mark_running ::
  "(pyval \<Rightarrow> string) \<Rightarrow> (string \<Rightarrow> pyval option) \<Rightarrow> (string \<Rightarrow> string) \<Rightarrow> py_time \<Rightarrow> py_time \<Rightarrow> string
     \<Rightarrow> ledger \<Rightarrow> (node_error + action_record) \<times> ledger" where
  "mark_running canon parse sha256 now now' aid ld =
     transition canon parse sha256 now now' aid Running None ld"

definition mark_observed ::
  "(pyval \<Rightarrow> string) \<Rightarrow> (string \<Rightarrow> pyval option) \<Rightarrow> (string \<Rightarrow> string) \<Rightarrow> py_time \<Rightarrow> py_time \<Rightarrow> string
     \<Rightarrow> ledger \<Rightarrow> (node_error + action_record) \<times> ledger" where
  "mark_observed canon parse sha256 now now' aid ld =
     transition canon parse sha256 now now' aid Observed None ld"

definition finish_action ::
  "(pyval \<Rightarrow> string) \<Rightarrow> (string \<Rightarrow> pyval option) \<Rightarrow> (string \<Rightarrow> string) \<Rightarrow> py_time \<Rightarrow> py_time \<Rightarrow> string
     \<Rightarrow> action_status \<Rightarrow> (string, pyval) py_dict \<Rightarrow> ledger \<Rightarrow> (node_error + action_record) \<times> ledger" where
  "finish_action canon parse sha256 now now' aid status result ld =
     (if status \<notin> set terminal_statuses then (Inl (BadArgument ''finish requires a terminal status''), ld)
      else transition canon parse sha256 now now' aid status (Some result) ld)"

definition get_action :: "(string \<Rightarrow> pyval option) \<Rightarrow> string \<Rightarrow> ledger \<Rightarrow> node_error + action_record option" where
  "get_action parse aid ld =
     (case action_row_of aid ld of None \<Rightarrow> Inr None
      | Some r \<Rightarrow> result_bind (row_record parse r) (\<lambda>rc. Inr (Some rc)))"

definition get_by_idempotency_key ::
  "(string \<Rightarrow> pyval option) \<Rightarrow> string \<Rightarrow> ledger \<Rightarrow> node_error + action_record option" where
  "get_by_idempotency_key parse key ld =
     (case key_row_of key ld of None \<Rightarrow> Inr None
      | Some r \<Rightarrow> result_bind (row_record parse r) (\<lambda>rc. Inr (Some rc)))"

definition unfinished :: "action_status list" where
  "unfinished = [PolicyCheck, AwaitingApproval, Dispatched, Running, Observed]"

definition disconnect_status :: "string \<Rightarrow> action_status" where
  "disconnect_status prior =
     (if prior \<in> set [status_value PolicyCheck, status_value AwaitingApproval] then Interrupted else Unknown)"

definition disconnect_result :: "action_status \<Rightarrow> (string, pyval) py_dict" where
  "disconnect_result terminal = [(''error_code'', PStr ''transport_disconnected''),
     (''replay_allowed'', PBool False), (''side_effect_unknown'', PBool (terminal = Unknown))]"

text \<open>
  \<open>interrupt_running\<close>: the rows are read under the lock, which is then released; every row that is not
  excluded is finished on its own, and the first one that raises ends the loop. Other threads may use
  the ledger between the read and the loop, so the two are separate definitions; \<open>clock\<close> is the two
  readings of the clock for each action.
\<close>

definition unfinished_rows :: "ledger \<Rightarrow> (string \<times> string) list" where
  "unfinished_rows ld = map (\<lambda>r. (ar_action r, ar_status r))
     (filter (\<lambda>r. ar_status r \<in> set (map status_value unfinished)) (ld_actions ld))"

fun interrupt_rows ::
  "(pyval \<Rightarrow> string) \<Rightarrow> (string \<Rightarrow> pyval option) \<Rightarrow> (string \<Rightarrow> string) \<Rightarrow> (string \<Rightarrow> py_time \<times> py_time)
     \<Rightarrow> string list \<Rightarrow> (string \<times> string) list \<Rightarrow> ledger \<Rightarrow> (node_error + string list) \<times> ledger" where
  "interrupt_rows canon parse sha256 clock exclude [] ld = (Inr [], ld)"
| "interrupt_rows canon parse sha256 clock exclude ((aid, prior) # rows) ld =
     (if aid \<in> set exclude then interrupt_rows canon parse sha256 clock exclude rows ld
      else (case finish_action canon parse sha256 (fst (clock aid)) (snd (clock aid)) aid
                   (disconnect_status prior) (disconnect_result (disconnect_status prior)) ld of
              (Inl err, ld') \<Rightarrow> (Inl err, ld')
            | (Inr _, ld') \<Rightarrow>
                (case interrupt_rows canon parse sha256 clock exclude rows ld' of
                   (Inl err, ld'') \<Rightarrow> (Inl err, ld'')
                 | (Inr ids, ld'') \<Rightarrow> (Inr (aid # ids), ld''))))"

definition interrupt_running ::
  "(pyval \<Rightarrow> string) \<Rightarrow> (string \<Rightarrow> pyval option) \<Rightarrow> (string \<Rightarrow> string) \<Rightarrow> (string \<Rightarrow> py_time \<times> py_time)
     \<Rightarrow> string list \<Rightarrow> ledger \<Rightarrow> (node_error + string list) \<times> ledger" where
  "interrupt_running canon parse sha256 clock exclude ld =
     interrupt_rows canon parse sha256 clock exclude (unfinished_rows ld) ld"

section \<open>Verification\<close>

fun chain_ok :: "(pyval \<Rightarrow> string) \<Rightarrow> (string \<Rightarrow> string) \<Rightarrow> string \<Rightarrow> ledger_event list \<Rightarrow> bool" where
  "chain_ok canon sha256 previous [] = True"
| "chain_ok canon sha256 previous (v # vs) =
     (le_prev v = previous \<and> sha256 (event_material canon v) = le_hash v \<and>
      chain_ok canon sha256 (le_hash v) vs)"

definition last_hash :: "string \<Rightarrow> ledger_event list \<Rightarrow> string" where
  "last_hash previous vs = (if vs = [] then previous else le_hash (last vs))"

definition events_of :: "string \<Rightarrow> ledger_event list \<Rightarrow> (string \<times> string) list" where
  "events_of aid vs = map (\<lambda>v. (le_type v, le_payload v)) (filter (\<lambda>v. le_action v = aid) vs)"

definition verify_row ::
  "(pyval \<Rightarrow> string) \<Rightarrow> (string \<Rightarrow> pyval option) \<Rightarrow> ledger_event list \<Rightarrow> action_row \<Rightarrow> node_error + unit" where
  "verify_row canon parse vs r =
     (if ar_envelope r = ''legacy-unbound'' then Inr ()
      else guard_else (length (ar_envelope r) = 64) (LedgerIntegrity ''action envelope digest is invalid'')
        (let (last_type, last_payload) = last (events_of (ar_action r) vs)
         in guard_else (last_type = ar_status r)
              (LedgerIntegrity ''action state does not match its last ledger event'')
             (if ar_status r \<in> set (map status_value terminal_statuses)
              then (case ar_result r of
                      None \<Rightarrow> Inl (LedgerIntegrity ''action terminal result does not match its ledger event'')
                    | Some t \<Rightarrow>
                       (case parse t of None \<Rightarrow> Inl (BadArgument ''stored result is not JSON'')
                        | Some v \<Rightarrow> guard_else (canon v = last_payload)
                            (LedgerIntegrity ''action terminal result does not match its ledger event'') (Inr ())))
              else Inr ())))"

fun verify_rows ::
  "(pyval \<Rightarrow> string) \<Rightarrow> (string \<Rightarrow> pyval option) \<Rightarrow> ledger_event list \<Rightarrow> action_row list \<Rightarrow> node_error + unit" where
  "verify_rows canon parse vs [] = Inr ()"
| "verify_rows canon parse vs (r # rs) = result_bind (verify_row canon parse vs r) (\<lambda>_. verify_rows canon parse vs rs)"

definition verify_ledger ::
  "(pyval \<Rightarrow> string) \<Rightarrow> (string \<Rightarrow> pyval option) \<Rightarrow> (string \<Rightarrow> string) \<Rightarrow> ledger \<Rightarrow> node_error + unit" where
  "verify_ledger canon parse sha256 ld =
     (case ld_meta ld of
        None \<Rightarrow> Inl (LedgerIntegrity ''action ledger tail/count seal is invalid'')
      | Some (n, head) \<Rightarrow>
          guard_else (n = int (length (ld_events ld))) (LedgerIntegrity ''action ledger tail/count seal is invalid'')
         (guard_else (chain_ok canon sha256 genesis_hash (ld_events ld))
            (LedgerIntegrity ''action ledger integrity check failed'')
         (guard_else (head = last_hash genesis_hash (ld_events ld))
            (LedgerIntegrity ''action ledger head seal is invalid'')
         (guard_else (set (map le_action (ld_events ld)) = set (map ar_action (ld_actions ld)))
            (LedgerIntegrity ''action index and event chain disagree'')
         (verify_rows canon parse (ld_events ld) (ld_actions ld))))))"

section \<open>The hash chain\<close>

lemma head_hash_last: "head_hash vs = last_hash genesis_hash vs"
  by (cases vs) (simp_all add: head_hash_def last_hash_def)

lemma last_hash_snoc [simp]: "last_hash p (vs @ [v]) = le_hash v"
  by (simp add: last_hash_def)

lemma last_hash_Cons: "last_hash p (v # vs) = last_hash (le_hash v) vs"
  by (simp add: last_hash_def)

lemma chain_ok_append:
  "chain_ok canon sha256 p (us @ vs) \<longleftrightarrow>
     chain_ok canon sha256 p us \<and> chain_ok canon sha256 (last_hash p us) vs"
  by (induction us arbitrary: p) (auto simp: last_hash_Cons last_hash_def)

lemma events_of_snoc:
  "events_of aid (vs @ [v]) = events_of aid vs @ (if le_action v = aid then [(le_type v, le_payload v)] else [])"
  by (simp add: events_of_def)

lemma verify_rows_Inr:
  "verify_rows canon parse vs rs = Inr () \<longleftrightarrow> (\<forall>r \<in> set rs. verify_row canon parse vs r = Inr ())"
  by (induction rs) (auto simp: result_bind_Inr)

lemma verify_row_other:
  "le_action v \<noteq> ar_action r \<Longrightarrow> verify_row canon parse (vs @ [v]) r = verify_row canon parse vs r"
  by (simp add: verify_row_def events_of_snoc)

text \<open>A verified ledger, whose index has one row for each action and each idempotency key.\<close>

definition ledger_ok ::
  "(pyval \<Rightarrow> string) \<Rightarrow> (string \<Rightarrow> pyval option) \<Rightarrow> (string \<Rightarrow> string) \<Rightarrow> ledger \<Rightarrow> bool" where
  "ledger_ok canon parse sha256 ld \<longleftrightarrow>
     verify_ledger canon parse sha256 ld = Inr () \<and>
     distinct (map ar_action (ld_actions ld)) \<and> distinct (map ar_key (ld_actions ld))"

lemma verify_ledger_Inr:
  "verify_ledger canon parse sha256 ld = Inr () \<longleftrightarrow>
     ld_meta ld = Some (int (length (ld_events ld)), last_hash genesis_hash (ld_events ld)) \<and>
     chain_ok canon sha256 genesis_hash (ld_events ld) \<and>
     set (map le_action (ld_events ld)) = set (map ar_action (ld_actions ld)) \<and>
     (\<forall>r \<in> set (ld_actions ld). verify_row canon parse (ld_events ld) r = Inr ())"
  by (auto simp: verify_ledger_def verify_rows_Inr split: option.splits)

lemma append_event_actions [simp]:
  "ld_actions (append_event canon sha256 now aid etype payload ld) = ld_actions ld"
  by (simp add: append_event_def Let_def)

lemma append_event_snoc:
  obtains v where "ld_events (append_event canon sha256 now aid etype payload ld) = ld_events ld @ [v]"
    and "le_action v = aid" "le_type v = etype" "le_payload v = canon (sanitize_payload [] payload)"
  by (simp add: append_event_def Let_def)

lemma append_event_chain:
  assumes "ld_meta ld = Some (int (length (ld_events ld)), last_hash genesis_hash (ld_events ld))"
    and "chain_ok canon sha256 genesis_hash (ld_events ld)"
  shows "let ld' = append_event canon sha256 now aid etype payload ld in
    ld_meta ld' = Some (int (length (ld_events ld')), last_hash genesis_hash (ld_events ld')) \<and>
    chain_ok canon sha256 genesis_hash (ld_events ld')"
  using assms by (simp add: append_event_def Let_def chain_ok_append head_hash_last event_material_def event_value_def)

section \<open>Preservation\<close>

text \<open>What is relied on of \<open>json\<close> and \<open>hashlib\<close>: a printed value parses, to one that prints alike, and a
  digest has 64 characters.\<close>

definition json_laws :: "(pyval \<Rightarrow> string) \<Rightarrow> (string \<Rightarrow> pyval option) \<Rightarrow> bool" where
  "json_laws canon parse \<longleftrightarrow> (\<forall>v. \<exists>w. parse (canon v) = Some w \<and> canon w = canon v)"

definition digest_law :: "(string \<Rightarrow> string) \<Rightarrow> bool" where
  "digest_law sha256 \<longleftrightarrow> (\<forall>s. length (sha256 s) = 64)"

lemma verify_row_last:
  assumes "le_action v = ar_action r" and "le_type v = ar_status r"
    and "ar_envelope r = ''legacy-unbound'' \<or> length (ar_envelope r) = 64"
    and "ar_status r \<in> set (map status_value terminal_statuses) \<Longrightarrow>
      \<exists>w. ar_result r = Some (canon w) \<and> le_payload v = canon w"
    and "json_laws canon parse"
  shows "verify_row canon parse (vs @ [v]) r = Inr ()"
  using assms unfolding verify_row_def events_of_snoc json_laws_def
  by (auto split: option.splits) (metis option.distinct(1), metis option.inject)

lemma ledger_ok_append:
  assumes ok: "ledger_ok canon parse sha256 ld"
    and tables: "ld_events ld1 = ld_events ld" "ld_meta ld1 = ld_meta ld"
    and ids: "set (map ar_action (ld_actions ld1)) = insert aid (set (map ar_action (ld_actions ld)))"
    and dist: "distinct (map ar_action (ld_actions ld1))" "distinct (map ar_key (ld_actions ld1))"
    and other: "\<And>r. r \<in> set (ld_actions ld1) \<Longrightarrow> ar_action r \<noteq> aid \<Longrightarrow> r \<in> set (ld_actions ld)"
    and this_row: "\<And>r. r \<in> set (ld_actions ld1) \<Longrightarrow> ar_action r = aid \<Longrightarrow> ar_status r = etype \<and>
      (ar_envelope r = ''legacy-unbound'' \<or> length (ar_envelope r) = 64) \<and>
      (ar_status r \<in> set (map status_value terminal_statuses) \<longrightarrow>
         ar_result r = Some (canon (sanitize_payload [] payload)))"
    and js: "json_laws canon parse"
  shows "ledger_ok canon parse sha256 (append_event canon sha256 now aid etype payload ld1)"
proof -
  let ?ld' = "append_event canon sha256 now aid etype payload ld1"
  obtain v where f: "ld_events ?ld' = ld_events ld @ [v]" "le_action v = aid" "le_type v = etype"
      "le_payload v = canon (sanitize_payload [] payload)"
    using append_event_snoc[of canon sha256 now aid etype payload ld1] tables by metis
  have ver: "verify_ledger canon parse sha256 ld = Inr ()" using ok by (simp add: ledger_ok_def)
  have "ld_meta ?ld' = Some (int (length (ld_events ?ld')), last_hash genesis_hash (ld_events ?ld')) \<and>
      chain_ok canon sha256 genesis_hash (ld_events ?ld')"
    using append_event_chain[of ld1 canon sha256] ver tables unfolding verify_ledger_Inr by (simp add: Let_def)
  moreover have "set (map le_action (ld_events ?ld')) = set (map ar_action (ld_actions ?ld'))"
    using ver ids f by (simp add: verify_ledger_Inr)
  moreover have "verify_row canon parse (ld_events ?ld') r = Inr ()" if r: "r \<in> set (ld_actions ?ld')" for r
  proof (cases "ar_action r = aid")
    case True
    then show ?thesis unfolding f(1) using this_row[of r] r f js by (intro verify_row_last) auto
  next
    case False
    then show ?thesis using other[of r] r ver f by (simp add: verify_ledger_Inr verify_row_other)
  qed
  ultimately show ?thesis using dist unfolding ledger_ok_def verify_ledger_Inr append_event_actions by blast
qed

lemma verify_row_envelope:
  "verify_row canon parse vs r = Inr () \<Longrightarrow> ar_envelope r = ''legacy-unbound'' \<or> length (ar_envelope r) = 64"
  by (auto simp: verify_row_def split: if_splits)

lemma row_record_Inr:
  "row_record parse r = Inr rc \<Longrightarrow> ar_status r = status_value (rc_status rc) \<and> rc_action rc = ar_action r \<and>
     rc_key rc = ar_key r \<and> rc_arguments rc = ar_arguments r \<and> rc_envelope rc = ar_envelope r"
  by (auto simp: row_record_def status_of_Some split: option.splits)

lemma row_record_Inr_result:
  "row_record parse r = Inr rc \<Longrightarrow>
     (case ar_result r of None \<Rightarrow> rc_result rc = None | Some t \<Rightarrow> rc_result rc = parse t \<and> rc_result rc \<noteq> None)"
  by (auto simp: row_record_def eq_commute[of "Some _" "parse _"] split: option.splits)

lemma action_row_of_Some:
  "action_row_of aid ld = Some r \<Longrightarrow> r \<in> set (ld_actions ld) \<and> ar_action r = aid"
  by (auto simp: action_row_of_def find_Some_iff)

lemma action_row_of_None: "action_row_of aid ld = None \<longleftrightarrow> aid \<notin> ar_action ` set (ld_actions ld)"
  by (auto simp: action_row_of_def find_None_iff)

lemma key_row_of_None: "key_row_of key ld = None \<longleftrightarrow> key \<notin> ar_key ` set (ld_actions ld)"
  by (auto simp: key_row_of_def find_None_iff)

lemma key_row_of_Some:
  "key_row_of key ld = Some r \<Longrightarrow> r \<in> set (ld_actions ld) \<and> ar_key r = key"
  by (auto simp: key_row_of_def find_Some_iff)

lemma begin_action_cases:
  obtains (unchanged) r where "begin_action canon parse sha256 verifier now now' a ld = (r, ld)"
      and "\<And>rc. r \<noteq> Inr (True, rc)"
    | (created) rc row payload where
      "begin_action canon parse sha256 verifier now now' a ld =
         (Inr (True, rc), append_event canon sha256 now' (ax_action_id a) (status_value PolicyCheck) payload
            (ld\<lparr>ld_actions := ld_actions ld @ [row]\<rparr>))"
      and "ax_idempotency_key a \<notin> ar_key ` set (ld_actions ld)"
      and "ax_action_id a \<notin> ar_action ` set (ld_actions ld)"
      and "ar_action row = ax_action_id a" "ar_key row = ax_idempotency_key a"
      and "ar_envelope row = sha256 (canonical_signed_payload canon sha256 a)"
      and "ar_arguments row = ax_arguments_digest a"
      and "ar_status row = status_value PolicyCheck" "ar_result row = None"
proof (cases "key_row_of (ax_idempotency_key a) ld = None \<and> action_row_of (ax_action_id a) ld = None \<and>
    verify_platform_signature canon sha256 now verifier a = Inr ()")
  case False
  then show ?thesis
    by (intro unchanged[of "fst (begin_action canon parse sha256 verifier now now' a ld)"])
      (auto simp: begin_action_def Let_def split: sum.splits option.splits if_splits)
next
  case True
  then have "begin_action canon parse sha256 verifier now now' a ld = (Inr (True, \<lparr>rc_action = ax_action_id a,
      rc_key = ax_idempotency_key a, rc_arguments = ax_arguments_digest a,
      rc_envelope = sha256 (canonical_signed_payload canon sha256 a), rc_status = PolicyCheck, rc_result = None\<rparr>),
      append_event canon sha256 now' (ax_action_id a) (status_value PolicyCheck)
        (opening_payload canon sha256 (sha256 (canonical_signed_payload canon sha256 a)) a)
        (ld\<lparr>ld_actions := ld_actions ld @ [\<lparr>ar_action = ax_action_id a,
           ar_key = ax_idempotency_key a, ar_arguments = ax_arguments_digest a,
           ar_envelope = sha256 (canonical_signed_payload canon sha256 a),
           ar_status = status_value PolicyCheck, ar_result = None, ar_created = now, ar_updated = now\<rparr>]\<rparr>))"
    by (simp add: begin_action_def Let_def)
  then show ?thesis by (rule created) (use True in \<open>simp_all add: action_row_of_None key_row_of_None\<close>)
qed

lemma begin_action_ok:
  assumes "ledger_ok canon parse sha256 ld" and "json_laws canon parse" and "digest_law sha256"
  shows "ledger_ok canon parse sha256 (snd (begin_action canon parse sha256 verifier now now' a ld))"
proof (cases rule: begin_action_cases[of canon parse sha256 verifier now now' a ld])
  case (created rc row payload)
  have other_row: "ar_action r \<noteq> ax_action_id a" if "r \<in> set (ld_actions ld)" for r
    using that created(3) by (force simp: image_iff)
  show ?thesis unfolding created(1) snd_conv
    by (rule ledger_ok_append[OF assms(1)])
      (use assms created in \<open>auto simp: ledger_ok_def digest_law_def terminal_statuses_def dest: other_row\<close>)
qed (use assms in auto)

text \<open>A transition either leaves the ledger alone, or moves one unfinished action along the graph.\<close>

definition moved_row :: "(pyval \<Rightarrow> string) \<Rightarrow> string \<Rightarrow> action_status \<Rightarrow> pyval option \<Rightarrow> py_time \<Rightarrow> action_row \<Rightarrow> action_row" where
  "moved_row canon aid status safe now r =
     (if ar_action r = aid
      then r\<lparr>ar_status := status_value status, ar_result := map_option canon safe, ar_updated := now\<rparr> else r)"

lemma moved_row_id [simp]:
  "ar_action (moved_row canon aid status safe now r) = ar_action r"
  "ar_key (moved_row canon aid status safe now r) = ar_key r"
  "ar_envelope (moved_row canon aid status safe now r) = ar_envelope r"
  "ar_arguments (moved_row canon aid status safe now r) = ar_arguments r"
  "(ar_action \<circ> moved_row canon aid status safe now) = ar_action"
  "(ar_key \<circ> moved_row canon aid status safe now) = ar_key"
  by (simp_all add: moved_row_def fun_eq_iff)

lemma find_map_id: "find P (map f xs) = map_option f (find (\<lambda>x. P (f x)) xs)"
  by (induction xs) simp_all

lemma transition_cases:
  obtains (unchanged) "snd (transition canon parse sha256 now now' aid status result ld) = ld"
    | (moved) r before where
      "action_row_of aid ld = Some r" and "ar_status r = status_value before"
      and "before \<notin> set terminal_statuses" and "status \<in> set (allowed_transitions before)"
      and "\<exists>rc. fst (transition canon parse sha256 now now' aid status result ld) = Inr rc \<and>
             rc_status rc = status \<and> rc_result rc = map_option (\<lambda>d. sanitize_payload [] (PDict d)) result"
      and "snd (transition canon parse sha256 now now' aid status result ld) =
         append_event canon sha256 now' aid (status_value status)
           (case map_option (\<lambda>d. sanitize_payload [] (PDict d)) result of None \<Rightarrow> PDict [] | Some v \<Rightarrow> v)
           (ld\<lparr>ld_actions := map (moved_row canon aid status
              (map_option (\<lambda>d. sanitize_payload [] (PDict d)) result) now) (ld_actions ld)\<rparr>)"
proof (cases "action_row_of aid ld")
  case None
  then show ?thesis by (intro unchanged) (simp add: transition_def)
next
  case (Some r)
  show ?thesis
  proof (cases "row_record parse r")
    case (Inl err)
    then show ?thesis by (intro unchanged) (simp add: transition_def Some)
  next
    case (Inr rc)
    show ?thesis
    proof (cases "rc_status rc \<notin> set terminal_statuses \<and> status \<in> set (allowed_transitions (rc_status rc))")
      case True
      then show ?thesis
        by (intro moved[of r "rc_status rc"])
          (simp_all add: transition_def Some Inr row_record_Inr[OF Inr] Let_def moved_row_def[abs_def])
    next
      case False
      then show ?thesis by (intro unchanged) (auto simp: transition_def Some Inr)
    qed
  qed
qed

lemma transition_ok:
  assumes ok: "ledger_ok canon parse sha256 ld" and js: "json_laws canon parse"
    and res: "status \<in> set terminal_statuses \<Longrightarrow> result \<noteq> None"
  shows "ledger_ok canon parse sha256 (snd (transition canon parse sha256 now now' aid status result ld))"
proof (cases rule: transition_cases[of canon parse sha256 now now' aid status result ld])
  case (moved r before)
  note r = action_row_of_Some[OF moved(1)]
  let ?safe = "map_option (\<lambda>d. sanitize_payload [] (PDict d)) result"
  have env: "ar_envelope r = ''legacy-unbound'' \<or> length (ar_envelope r) = 64"
    if "r \<in> set (ld_actions ld)" for r
    using ok that verify_row_envelope[of canon parse "ld_events ld" r]
    by (simp add: ledger_ok_def verify_ledger_Inr)
  show ?thesis unfolding moved(6)
  proof (rule ledger_ok_append[OF ok])
    fix r' assume "r' \<in> set (ld_actions (ld\<lparr>ld_actions := map (moved_row canon aid status ?safe now) (ld_actions ld)\<rparr>))"
      and "ar_action r' = aid"
    then obtain r0 where r0: "r0 \<in> set (ld_actions ld)" "r' = moved_row canon aid status ?safe now r0" by auto
    moreover have "ar_action r0 = aid" using r0(2) \<open>ar_action r' = aid\<close> by simp
    ultimately show "ar_status r' = status_value status \<and>
        (ar_envelope r' = ''legacy-unbound'' \<or> length (ar_envelope r') = 64) \<and>
        (ar_status r' \<in> set (map status_value terminal_statuses) \<longrightarrow>
           ar_result r' = Some (canon (sanitize_payload [] (case ?safe of None \<Rightarrow> PDict [] | Some v \<Rightarrow> v))))"
      using env[OF r0(1)] res by (auto simp: moved_row_def image_iff)
  qed (use ok r js in \<open>auto simp: ledger_ok_def moved_row_def image_iff\<close>)
qed (use ok in simp)

section \<open>Runs\<close>

text \<open>The operations of all threads in the order their transactions take effect; the list of a run is
  the idempotency keys for which \<open>begin\<close> answered \<open>created\<close>.\<close>

datatype ledger_op =
    DoBegin py_time py_time action_context
  | DoAwait py_time py_time string
  | DoDispatch py_time py_time string
  | DoRun py_time py_time string
  | DoObserve py_time py_time string
  | DoFinish py_time py_time string action_status "(string, pyval) py_dict"

fun ledger_step ::
  "(pyval \<Rightarrow> string) \<Rightarrow> (string \<Rightarrow> pyval option) \<Rightarrow> (string \<Rightarrow> string) \<Rightarrow> platform_verifier option
     \<Rightarrow> ledger_op \<Rightarrow> ledger \<Rightarrow> bool \<times> ledger" where
  "ledger_step canon parse sha256 verifier (DoBegin t t' a) ld =
     (case begin_action canon parse sha256 verifier t t' a ld of
        (Inr (True, rc), ld') \<Rightarrow> (True, ld') | (_, ld') \<Rightarrow> (False, ld'))"
| "ledger_step canon parse sha256 verifier (DoAwait t t' aid) ld =
     (False, snd (mark_awaiting_approval canon parse sha256 t t' aid ld))"
| "ledger_step canon parse sha256 verifier (DoDispatch t t' aid) ld =
     (False, snd (mark_dispatched canon parse sha256 t t' aid ld))"
| "ledger_step canon parse sha256 verifier (DoRun t t' aid) ld =
     (False, snd (mark_running canon parse sha256 t t' aid ld))"
| "ledger_step canon parse sha256 verifier (DoObserve t t' aid) ld =
     (False, snd (mark_observed canon parse sha256 t t' aid ld))"
| "ledger_step canon parse sha256 verifier (DoFinish t t' aid status result) ld =
     (False, snd (finish_action canon parse sha256 t t' aid status result ld))"

fun op_key :: "ledger_op \<Rightarrow> string" where
  "op_key (DoBegin t t' a) = ax_idempotency_key a"
| "op_key _ = []"

definition ledger_run ::
  "(pyval \<Rightarrow> string) \<Rightarrow> (string \<Rightarrow> pyval option) \<Rightarrow> (string \<Rightarrow> string) \<Rightarrow> platform_verifier option
     \<Rightarrow> ledger_op list \<Rightarrow> ledger \<Rightarrow> string list \<times> ledger" where
  "ledger_run canon parse sha256 verifier = spend_all (ledger_step canon parse sha256 verifier) op_key"

lemma ledger_run_Nil [simp]: "ledger_run canon parse sha256 verifier [] ld = ([], ld)"
  by (simp add: ledger_run_def)

lemma ledger_run_Cons:
  "snd (ledger_run canon parse sha256 verifier (x # xs) ld) =
     snd (ledger_run canon parse sha256 verifier xs (snd (ledger_step canon parse sha256 verifier x ld)))"
  by (simp add: ledger_run_def split: prod.splits)

text \<open>Every operation is \<open>begin\<close>, a transition, or refused before it reaches the tables.\<close>

lemma ledger_step_cases:
  obtains (begin_op) t t' a where "snd (ledger_step canon parse sha256 verifier x ld) =
        snd (begin_action canon parse sha256 verifier t t' a ld)"
      and "fst (ledger_step canon parse sha256 verifier x ld) \<longleftrightarrow>
        (\<exists>rc. fst (begin_action canon parse sha256 verifier t t' a ld) = Inr (True, rc))"
      and "op_key x = ax_idempotency_key a"
    | (transition_op) t t' aid status result where "ledger_step canon parse sha256 verifier x ld =
        (False, snd (transition canon parse sha256 t t' aid status result ld))"
      and "status \<in> set terminal_statuses \<Longrightarrow> result \<noteq> None"
    | (refused) "ledger_step canon parse sha256 verifier x ld = (False, ld)"
proof (cases x)
  case (DoBegin t t' a)
  show ?thesis by (rule begin_op[of t t' a]) (simp_all add: DoBegin split: prod.splits sum.splits bool.splits)
next
  case (DoFinish t t' aid status result)
  show ?thesis
  proof (cases "status \<in> set terminal_statuses")
    case True
    show ?thesis
      by (rule transition_op[of t t' aid status "Some result"]) (simp_all add: DoFinish finish_action_def True)
  next
    case False
    show ?thesis by (rule refused) (simp add: DoFinish finish_action_def False)
  qed
next
  case (DoAwait t t' aid)
  show ?thesis
    by (rule transition_op[of t t' aid AwaitingApproval None]) (simp_all add: DoAwait mark_awaiting_approval_def terminal_statuses_def)
next
  case (DoDispatch t t' aid)
  show ?thesis
    by (rule transition_op[of t t' aid Dispatched None]) (simp_all add: DoDispatch mark_dispatched_def terminal_statuses_def)
next
  case (DoRun t t' aid)
  show ?thesis
    by (rule transition_op[of t t' aid Running None]) (simp_all add: DoRun mark_running_def terminal_statuses_def)
next
  case (DoObserve t t' aid)
  show ?thesis
    by (rule transition_op[of t t' aid Observed None]) (simp_all add: DoObserve mark_observed_def terminal_statuses_def)
qed

lemma ledger_step_ok:
  assumes "ledger_ok canon parse sha256 ld" and "json_laws canon parse" and "digest_law sha256"
  shows "ledger_ok canon parse sha256 (snd (ledger_step canon parse sha256 verifier x ld))"
  by (cases rule: ledger_step_cases[of canon parse sha256 verifier x ld])
    (use assms in \<open>simp_all add: begin_action_ok transition_ok\<close>)

lemma ledger_run_ok:
  assumes "ledger_ok canon parse sha256 ld" and "json_laws canon parse" and "digest_law sha256"
  shows "ledger_ok canon parse sha256 (snd (ledger_run canon parse sha256 verifier xs ld))"
  using assms(1)
proof (induction xs arbitrary: ld)
  case (Cons x xs)
  from Cons.IH[OF ledger_step_ok[OF Cons.prems assms(2,3), of verifier x]]
  show ?case by (simp only: ledger_run_Cons)
qed simp

lemma open_empty_ok: "ledger_ok canon parse sha256 (open_ledger flag empty_db)"
  by (simp add: ledger_ok_def verify_ledger_Inr open_ledger_def empty_db_def head_hash_def last_hash_def)

text \<open>Interruption is a run of finishing operations.\<close>

lemma interrupt_rows_run:
  "\<exists>xs. snd (interrupt_rows canon parse sha256 clock exclude rows ld) =
     snd (ledger_run canon parse sha256 verifier xs ld)"
proof (induction rows arbitrary: ld)
  case Nil
  show ?case by (rule exI[of _ "[]"]) simp
next
  case (Cons row rows)
  obtain aid prior where row: "row = (aid, prior)" by (cases row)
  show ?case
  proof (cases "aid \<in> set exclude")
    case True
    then show ?thesis using Cons.IH[of ld] by (simp add: row)
  next
    case False
    let ?x = "DoFinish (fst (clock aid)) (snd (clock aid)) aid (disconnect_status prior)
      (disconnect_result (disconnect_status prior))"
    obtain r ld1 where fin: "finish_action canon parse sha256 (fst (clock aid)) (snd (clock aid)) aid
        (disconnect_status prior) (disconnect_result (disconnect_status prior)) ld = (r, ld1)"
      by (cases "finish_action canon parse sha256 (fst (clock aid)) (snd (clock aid)) aid
        (disconnect_status prior) (disconnect_result (disconnect_status prior)) ld")
    obtain xs where xs: "snd (interrupt_rows canon parse sha256 clock exclude rows ld1) =
        snd (ledger_run canon parse sha256 verifier xs ld1)"
      using Cons.IH by blast
    show ?thesis
    proof (cases r)
      case (Inl err)
      then show ?thesis by (intro exI[of _ "[?x]"]) (simp add: row False fin ledger_run_Cons)
    next
      case (Inr rc)
      then show ?thesis
        using xs by (intro exI[of _ "?x # xs"], unfold ledger_run_Cons)
          (auto simp: row False fin split: prod.splits sum.splits)
    qed
  qed
qed

section \<open>Claims and progress\<close>

definition claimed_keys :: "ledger \<Rightarrow> string set" where
  "claimed_keys ld = ar_key ` set (ld_actions ld)"

lemma transition_keys: "claimed_keys (snd (transition canon parse sha256 t t' aid status result ld)) = claimed_keys ld"
  by (cases rule: transition_cases[of canon parse sha256 t t' aid status result ld])
    (auto simp: claimed_keys_def image_image)

lemma ledger_step_keys:
  "if fst (ledger_step canon parse sha256 verifier x ld)
   then op_key x \<notin> claimed_keys ld \<and>
     claimed_keys (snd (ledger_step canon parse sha256 verifier x ld)) = insert (op_key x) (claimed_keys ld)
   else claimed_keys (snd (ledger_step canon parse sha256 verifier x ld)) = claimed_keys ld"
proof (cases rule: ledger_step_cases[of canon parse sha256 verifier x ld])
  case (begin_op t t' a)
  show ?thesis
    by (cases rule: begin_action_cases[of canon parse sha256 verifier t t' a ld])
      (auto simp: begin_op claimed_keys_def)
qed (simp_all add: transition_keys)

interpretation ledger_claims: one_use "ledger_step canon parse sha256 verifier" op_key claimed_keys
  for canon parse sha256 verifier
  by unfold_locales (use ledger_step_keys[of canon parse sha256 verifier] in \<open>metis\<close>)+

definition status_graph :: "(action_status \<times> action_status) set" where
  "status_graph = {(s, t). t \<in> set (allowed_transitions s)}"

definition row_progress :: "action_row \<Rightarrow> action_row \<Rightarrow> bool" where
  "row_progress r r' \<longleftrightarrow>
     r' = r \<or>
     ar_action r' = ar_action r \<and> ar_key r' = ar_key r \<and> ar_arguments r' = ar_arguments r \<and>
     ar_envelope r' = ar_envelope r \<and>
     (\<exists>s t. ar_status r = status_value s \<and> ar_status r' = status_value t \<and> (s, t) \<in> status_graph\<^sup>+)"

lemma row_progress_trans: "row_progress r r' \<Longrightarrow> row_progress r' r'' \<Longrightarrow> row_progress r r''"
  unfolding row_progress_def by (metis status_value_inj trancl_trans)

lemma transition_progress:
  assumes "distinct (map ar_action (ld_actions ld))" and "r \<in> set (ld_actions ld)"
  shows "\<exists>r' \<in> set (ld_actions (snd (transition canon parse sha256 t t' aid status result ld))). row_progress r r'"
proof (cases rule: transition_cases[of canon parse sha256 t t' aid status result ld])
  case unchanged
  then show ?thesis using assms(2) by (auto simp: row_progress_def)
next
  case (moved r0 before)
  let ?m = "moved_row canon aid status (map_option (\<lambda>d. sanitize_payload [] (PDict d)) result) t"
  have "row_progress r (?m r)"
  proof (cases "ar_action r = aid")
    case True
    then have "r = r0"
      using action_row_of_Some[OF moved(1)] assms by (auto simp: distinct_map inj_on_def)
    then have "(before, status) \<in> status_graph" "ar_status r = status_value before"
      using moved by (simp_all add: status_graph_def)
    then show ?thesis unfolding row_progress_def using True by (auto simp: moved_row_def)
  qed (simp add: row_progress_def moved_row_def)
  then show ?thesis unfolding moved(6) using assms(2) by auto
qed

lemma ledger_step_progress:
  assumes "distinct (map ar_action (ld_actions ld))" and "r \<in> set (ld_actions ld)"
  shows "\<exists>r' \<in> set (ld_actions (snd (ledger_step canon parse sha256 verifier x ld))). row_progress r r'"
proof (cases rule: ledger_step_cases[of canon parse sha256 verifier x ld])
  case (begin_op t t' a)
  show ?thesis unfolding begin_op
    by (cases rule: begin_action_cases[of canon parse sha256 verifier t t' a ld])
      (use assms(2) in \<open>auto simp: row_progress_def\<close>)
qed (use assms transition_progress in \<open>auto simp: row_progress_def\<close>)

lemma ledger_run_progress:
  assumes "ledger_ok canon parse sha256 ld" and "json_laws canon parse" and "digest_law sha256"
    and "r \<in> set (ld_actions ld)"
  shows "\<exists>r' \<in> set (ld_actions (snd (ledger_run canon parse sha256 verifier xs ld))). row_progress r r'"
  using assms(1,4)
proof (induction xs arbitrary: ld r)
  case (Cons x xs)
  obtain r1 where "r1 \<in> set (ld_actions (snd (ledger_step canon parse sha256 verifier x ld)))" "row_progress r r1"
    using ledger_step_progress Cons.prems unfolding ledger_ok_def by blast
  then show ?case
    using Cons.IH[OF ledger_step_ok[OF Cons.prems(1) assms(2,3)]] row_progress_trans
    unfolding ledger_run_Cons by blast
qed (auto simp: row_progress_def)

lemma terminal_row_progress:
  assumes "row_progress r r'" and "ar_status r = status_value s" and "s \<in> set terminal_statuses"
  shows "r' = r"
proof -
  have "(s, t) \<notin> status_graph\<^sup>+" for t
    using assms(3) by (auto simp: status_graph_def terminal_statuses_def dest: tranclD)
  then show ?thesis using assms by (auto simp: row_progress_def)
qed

section \<open>The seal\<close>

definition digest_collision ::
  "(pyval \<Rightarrow> string) \<Rightarrow> (string \<Rightarrow> string) \<Rightarrow> ledger_event list \<Rightarrow> ledger_event list \<Rightarrow> bool" where
  "digest_collision canon sha256 vs ws \<longleftrightarrow>
     (\<exists>v \<in> set vs. \<exists>w \<in> set ws. event_value v \<noteq> event_value w \<and>
        sha256 (event_material canon v) = sha256 (event_material canon w))"

lemma event_value_hash_eq: "event_value v = event_value w \<Longrightarrow> le_hash v = le_hash w \<Longrightarrow> v = w"
  by (simp add: event_value_def)

lemma chain_determined:
  assumes "length vs = length ws" and "chain_ok canon sha256 p vs" and "chain_ok canon sha256 p ws"
    and "last_hash p vs = last_hash p ws" and "\<not> digest_collision canon sha256 vs ws"
  shows "vs = ws"
  using assms
proof (induction vs arbitrary: ws rule: rev_induct)
  case (snoc v vs)
  then obtain ws' w where ws: "ws = ws' @ [w]" by (cases ws rule: rev_cases) auto
  have h: "le_hash v = le_hash w" "sha256 (event_material canon v) = le_hash v"
      "sha256 (event_material canon w) = le_hash w" "le_prev v = last_hash p vs" "le_prev w = last_hash p ws'"
    using snoc.prems by (simp_all add: ws chain_ok_append)
  then have val: "event_value v = event_value w"
    using snoc.prems(5) by (force simp: ws digest_collision_def)
  then have "le_prev v = le_prev w" by (simp add: event_value_def)
  then have "vs = ws'"
    using snoc.prems h by (intro snoc.IH) (auto simp: ws chain_ok_append digest_collision_def)
  then show ?case using event_value_hash_eq[OF val h(1)] by (simp add: ws)
qed simp

section \<open>What is stored\<close>

definition tidy_text :: "(pyval \<Rightarrow> string) \<Rightarrow> string \<Rightarrow> bool" where
  "tidy_text canon t \<longleftrightarrow> (\<exists>v. t = canon v \<and> \<not> leaks [] v)"

definition ledger_tidy :: "(pyval \<Rightarrow> string) \<Rightarrow> ledger \<Rightarrow> bool" where
  "ledger_tidy canon ld \<longleftrightarrow>
     (\<forall>v \<in> set (ld_events ld). tidy_text canon (le_payload v)) \<and>
     (\<forall>r \<in> set (ld_actions ld). case ar_result r of None \<Rightarrow> True | Some t \<Rightarrow> tidy_text canon t)"

lemma tidy_sanitized: "tidy_text canon (canon (sanitize_payload [] v))"
  unfolding tidy_text_def using sanitize_no_leak by blast

lemma append_event_tidy:
  "ledger_tidy canon ld \<Longrightarrow> ledger_tidy canon (append_event canon sha256 now aid etype payload ld)"
  by (simp add: ledger_tidy_def append_event_def Let_def tidy_sanitized)

lemma ledger_step_tidy:
  assumes "ledger_tidy canon ld"
  shows "ledger_tidy canon (snd (ledger_step canon parse sha256 verifier x ld))"
proof (cases rule: ledger_step_cases[of canon parse sha256 verifier x ld])
  case (begin_op t t' a)
  show ?thesis unfolding begin_op
  proof (cases rule: begin_action_cases[of canon parse sha256 verifier t t' a ld])
    case (created rc row payload)
    show "ledger_tidy canon (snd (begin_action canon parse sha256 verifier t t' a ld))"
      unfolding created(1) snd_conv
      by (rule append_event_tidy) (use assms created in \<open>auto simp: ledger_tidy_def\<close>)
  qed (use assms in simp)
next
  case (transition_op t t' aid status result)
  show ?thesis unfolding transition_op snd_conv
  proof (cases rule: transition_cases[of canon parse sha256 t t' aid status result ld])
    case (moved r before)
    show "ledger_tidy canon (snd (transition canon parse sha256 t t' aid status result ld))"
      unfolding moved(6)
      by (rule append_event_tidy)
        (use assms in \<open>auto simp: ledger_tidy_def moved_row_def tidy_sanitized split: option.splits\<close>)
  qed (use assms in simp)
qed (use assms in simp)

lemma ledger_run_tidy:
  "ledger_tidy canon ld \<Longrightarrow> ledger_tidy canon (snd (ledger_run canon parse sha256 verifier xs ld))"
  by (induction xs arbitrary: ld) (simp_all add: ledger_run_Cons ledger_step_tidy)

section \<open>Properties of the ledger\<close>

text \<open>
  C6: a ledger always verifies. Whatever the threads do to a ledger that has been opened on an empty
  database, and wherever an interruption of the running actions stops, the count, the chain, the head,
  and the agreement of the index with the last event of every action pass \<open>verify\<close>.
\<close>

theorem ledger_always_verifies:
  assumes "json_laws canon parse" and "digest_law sha256"
    and "ld = snd (ledger_run canon parse sha256 verifier xs (open_ledger flag empty_db))"
  shows "verify_ledger canon parse sha256 ld = Inr () \<and>
    verify_ledger canon parse sha256 (snd (interrupt_rows canon parse sha256 clock exclude rows ld)) = Inr ()"
proof -
  have ok: "ledger_ok canon parse sha256 ld"
    unfolding assms(3) by (rule ledger_run_ok[OF open_empty_ok assms(1,2)])
  obtain ys where "snd (interrupt_rows canon parse sha256 clock exclude rows ld) =
      snd (ledger_run canon parse sha256 verifier ys ld)"
    using interrupt_rows_run by blast
  then show ?thesis using ok ledger_run_ok[OF ok assms(1,2), of verifier ys] by (simp add: ledger_ok_def)
qed

text \<open>
  C5: an idempotency key is claimed at most once, and a claimed action only moves forward. The keys for
  which \<open>begin\<close> answers \<open>created\<close> in a run are distinct and were not in the ledger; an action in the
  ledger keeps its identity and envelope and its status follows the transition graph, so that a finished
  action is never touched again.
\<close>

theorem actions_are_claimed_once:
  assumes "ledger_ok canon parse sha256 ld" and "json_laws canon parse" and "digest_law sha256"
    and "ledger_run canon parse sha256 verifier xs ld = (keys, ld')"
  shows "distinct keys \<and> set keys \<inter> claimed_keys ld = {} \<and>
    (\<forall>r \<in> set (ld_actions ld). \<exists>r' \<in> set (ld_actions ld'). row_progress r r' \<and>
       (ar_status r \<in> set (map status_value terminal_statuses) \<longrightarrow> r' = r))"
proof (intro conjI ballI)
  show "distinct keys" "set keys \<inter> claimed_keys ld = {}"
    using ledger_claims.spend_all_once[of canon parse sha256 verifier xs ld] assms(4)
    by (simp_all add: ledger_run_def)
  fix r assume "r \<in> set (ld_actions ld)"
  from ledger_run_progress[OF assms(1-3) this, of verifier xs]
  show "\<exists>r' \<in> set (ld_actions ld'). row_progress r r' \<and>
      (ar_status r \<in> set (map status_value terminal_statuses) \<longrightarrow> r' = r)"
    using terminal_row_progress by (auto simp: assms(4))
qed

text \<open>
  C7: the ledger is tamper evident. Two ledgers that verify and whose seals (count and head hash) agree
  hold the same events, field by field, unless two of their own events are a collision of the digest.
\<close>

theorem ledger_tamper_evident:
  assumes "verify_ledger canon parse sha256 ld = Inr ()" and "verify_ledger canon parse sha256 ld' = Inr ()"
    and "ld_meta ld = ld_meta ld'"
  shows "ld_events ld = ld_events ld' \<or> digest_collision canon sha256 (ld_events ld) (ld_events ld')"
  using chain_determined[of "ld_events ld" "ld_events ld'" canon sha256 genesis_hash] assms
  unfolding verify_ledger_Inr by auto

text \<open>
  No secret reaches the database. Every payload and every result a ledger stores is the text of a
  value without text under a sensitive key and without marked text.
\<close>

theorem no_secret_is_stored:
  "ledger_tidy canon (snd (ledger_run canon parse sha256 verifier xs (open_ledger flag empty_db)))"
  by (rule ledger_run_tidy) (simp add: ledger_tidy_def open_ledger_def empty_db_def)

text \<open>
  Repeating a finish is idempotent only for results that need no redaction. The stored result is the
  sanitised one and the repetition compares it with the raw one, so the repetition of a successful finish
  returns the recorded action exactly when the sanitised result equals the result, and reports a conflict
  otherwise.
\<close>

theorem repeated_finish:
  assumes "action_row_of aid ld = Some r" and "ar_status r = status_value before"
    and "before \<notin> set terminal_statuses"
    and "finish_action canon parse sha256 t t' aid status result ld = (Inr rc, ld')"
    and "parse (canon (sanitize_payload [] (PDict result))) = Some w"
  shows "fst (finish_action canon parse sha256 u u' aid status result ld') =
    (if py_eq w (PDict result) then Inr (rc\<lparr>rc_result := Some w\<rparr>)
     else Inl (IdempotencyConflict ''action already has a different terminal result''))"
proof -
  let ?safe = "Some (sanitize_payload [] (PDict result))"
  from assms(4) have st: "status \<in> set terminal_statuses" by (auto simp: finish_action_def split: if_splits)
  obtain rc0 where rc0: "row_record parse r = Inr rc0"
    using assms by (auto simp: finish_action_def transition_def split: if_splits sum.splits)
  note rr = row_record_Inr[OF rc0] action_row_of_Some[OF assms(1)]
  have tr: "transition canon parse sha256 t t' aid status (Some result) ld = (Inr rc, ld')"
    using assms(4) st by (simp add: finish_action_def)
  have "rc_status rc0 = before" using rr assms(2) by simp
  then have ld': "ld' = append_event canon sha256 t' aid (status_value status) (sanitize_payload [] (PDict result))
      (ld\<lparr>ld_actions := map (moved_row canon aid status ?safe t) (ld_actions ld)\<rparr>)"
    and rc: "rc = rc0\<lparr>rc_status := status, rc_result := ?safe\<rparr>"
    using tr assms(3) by (auto simp: transition_def assms(1) rc0 Let_def moved_row_def[abs_def] split: if_splits)
  have "action_row_of aid ld' = Some (moved_row canon aid status ?safe t r)"
    using assms(1) unfolding ld' action_row_of_def append_event_actions by (simp add: find_map_id)
  moreover have "row_record parse (moved_row canon aid status ?safe t r) = Inr (rc\<lparr>rc_result := Some w\<rparr>)"
    using rr assms(5) rc0 by (simp add: row_record_def moved_row_def rc split: option.splits)
  ultimately show ?thesis using st by (simp add: finish_action_def transition_def rc)
qed

section \<open>Witnesses\<close>

text \<open>A small printer, a parser of its texts and a digest that satisfy the laws.\<close>

fun sample_canon :: "pyval \<Rightarrow> string" where
  "sample_canon PNone = ''null''"
| "sample_canon (PBool b) = (if b then ''true'' else ''false'')"
| "sample_canon (PInt n) = string_of_int n"
| "sample_canon (PFloat x) = string_of_int \<lfloor>x\<rfloor>"
| "sample_canon (PStr s) = s"
| "sample_canon (PList vs) = ''['' @ join_with '','' (map sample_canon vs) @ '']''"
| "sample_canon (PDict d) = ''{'' @ join_with '','' (map (\<lambda>(k, v). k @ '':'' @ sample_canon v) d) @ ''}''"

definition sample_parse :: "string \<Rightarrow> pyval option" where
  "sample_parse t = Some (PStr t)"

definition sample_digest :: "string \<Rightarrow> string" where
  "sample_digest s = take 64 (s @ replicate 64 (CHR ''0''))"

definition flat_digest :: "string \<Rightarrow> string" where
  "flat_digest s = replicate 64 (CHR ''0'')"

lemma sample_laws: "json_laws sample_canon sample_parse" "digest_law sample_digest" "digest_law flat_digest"
  by (simp_all add: json_laws_def digest_law_def sample_parse_def sample_digest_def flat_digest_def min_def)

definition sample_verifier :: "platform_verifier option" where
  "sample_verifier = Some (\<lambda>k p s. Some True)"

lemma sample_signed: "verify_platform_signature sample_canon d 10 sample_verifier sample_action = Inr ()"
proof -
  have "validate_envelope_metadata 10 sample_action = Inr ()" by code_simp
  moreover have "ax_signature sample_action \<noteq> [] \<and> length (ax_signature sample_action) \<le> 8192" by code_simp
  ultimately show ?thesis by (simp add: verify_platform_signature_def sample_verifier_def guard_else_def)
qed

lemma sample_ids: "ax_action_id sample_action = ''a''" "ax_idempotency_key sample_action = ''k''"
  "ax_arguments_digest sample_action = ''x''"
  by (simp_all add: sample_action_def)

lemma sample_begin:
  "\<exists>rc row p. begin_action sample_canon sample_parse d sample_verifier 10 u sample_action (open_ledger True empty_db) =
     (Inr (True, rc), append_event sample_canon d u ''a'' (status_value PolicyCheck) p
        (open_ledger True empty_db\<lparr>ld_actions := [row]\<rparr>)) \<and> ar_action row = ''a'' \<and> ar_key row = ''k''"
  by (simp add: begin_action_def sample_signed sample_ids Let_def key_row_of_def action_row_of_def
      open_ledger_def empty_db_def del: status_value.simps, rule exI, rule conjI, rule exI, rule refl, simp)

definition sample_run :: "ledger_op list" where
  "sample_run = [DoBegin 10 11 sample_action, DoDispatch 14 15 ''a'']"

lemma sample_run_keys:
  "fst (ledger_run sample_canon sample_parse sample_digest sample_verifier sample_run
     (open_ledger True empty_db)) = [''k'']"
  using sample_begin[of sample_digest 11]
  by (auto simp: ledger_run_def sample_run_def sample_ids split: prod.splits)

theorem ledger_always_verifies_witness:
  "verify_ledger sample_canon sample_parse sample_digest
     (snd (ledger_run sample_canon sample_parse sample_digest sample_verifier sample_run
        (open_ledger True empty_db))) = Inr ()"
  using ledger_always_verifies[OF sample_laws(1,2) refl] by blast

theorem actions_are_claimed_once_witness:
  "\<exists>keys ld'. ledger_run sample_canon sample_parse sample_digest sample_verifier sample_run
     (open_ledger True empty_db) = (keys, ld') \<and> distinct keys \<and> set keys = {''k''}"
proof -
  obtain keys ld' where run: "ledger_run sample_canon sample_parse sample_digest sample_verifier sample_run
      (open_ledger True empty_db) = (keys, ld')"
    by (cases "ledger_run sample_canon sample_parse sample_digest sample_verifier sample_run
      (open_ledger True empty_db)")
  from actions_are_claimed_once[OF open_empty_ok sample_laws(1,2) run] sample_run_keys run
  show ?thesis by auto
qed

definition flat_ledger :: "py_time \<Rightarrow> ledger" where
  "flat_ledger u = snd (ledger_run sample_canon sample_parse flat_digest sample_verifier
     [DoBegin 10 u sample_action] (open_ledger True empty_db))"

lemma flat_ledger_facts:
  "verify_ledger sample_canon sample_parse flat_digest (flat_ledger u) = Inr ()"
  "ld_meta (flat_ledger u) = Some (1, replicate 64 (CHR ''0''))"
  "map le_created (ld_events (flat_ledger u)) = [u]"
proof -
  show "verify_ledger sample_canon sample_parse flat_digest (flat_ledger u) = Inr ()"
    using ledger_run_ok[OF open_empty_ok sample_laws(1,3)] by (simp add: ledger_ok_def flat_ledger_def)
  obtain rc row p where b: "begin_action sample_canon sample_parse flat_digest sample_verifier 10 u sample_action
      (open_ledger True empty_db) = (Inr (True, rc), append_event sample_canon flat_digest u ''a''
        (status_value PolicyCheck) p (open_ledger True empty_db\<lparr>ld_actions := [row]\<rparr>))"
    using sample_begin[of flat_digest u] by blast
  have "flat_ledger u = append_event sample_canon flat_digest u ''a'' (status_value PolicyCheck) p
      (open_ledger True empty_db\<lparr>ld_actions := [row]\<rparr>)"
    by (simp add: flat_ledger_def ledger_run_def b)
  then show "ld_meta (flat_ledger u) = Some (1, replicate 64 (CHR ''0''))"
    "map le_created (ld_events (flat_ledger u)) = [u]"
    by (simp_all add: append_event_def Let_def open_ledger_def empty_db_def flat_digest_def)
qed

theorem ledger_tamper_evident_witness:
  "ld_events (flat_ledger 11) \<noteq> ld_events (flat_ledger 12) \<and>
   ld_meta (flat_ledger 11) = ld_meta (flat_ledger 12) \<and>
   digest_collision sample_canon flat_digest (ld_events (flat_ledger 11)) (ld_events (flat_ledger 12))"
proof -
  have differs: "ld_events (flat_ledger 11) \<noteq> ld_events (flat_ledger 12)"
    using flat_ledger_facts(3)[of 11] flat_ledger_facts(3)[of 12] by auto
  have meta: "ld_meta (flat_ledger 11) = ld_meta (flat_ledger 12)" by (simp only: flat_ledger_facts)
  from ledger_tamper_evident[OF flat_ledger_facts(1) flat_ledger_facts(1) meta] differs meta
  show ?thesis by blast
qed

definition dispatched_ledger :: ledger where
  "dispatched_ledger = \<lparr>ld_actions = [\<lparr>ar_action = ''a'', ar_key = ''k'', ar_arguments = ''x'', ar_envelope = ''y'',
     ar_status = status_value Dispatched, ar_result = None, ar_created = 0, ar_updated = 0\<rparr>],
     ld_events = [], ld_meta = Some (0, genesis_hash)\<rparr>"

definition token_result :: "(string, pyval) py_dict" where
  "token_result = [(''output_token'', PStr ''t'')]"

theorem repeated_finish_witness:
  "\<exists>rc ld'. finish_action sample_canon sample_parse sample_digest 16 17 ''a'' Succeeded token_result dispatched_ledger =
       (Inr rc, ld') \<and>
     fst (finish_action sample_canon sample_parse sample_digest 18 19 ''a'' Succeeded token_result ld') =
     Inl (IdempotencyConflict ''action already has a different terminal result'')"
proof -
  obtain r where r: "action_row_of ''a'' dispatched_ledger = Some r" "ar_status r = status_value Dispatched"
    by (simp add: action_row_of_def dispatched_ledger_def del: status_value.simps)
  have t: "Dispatched \<notin> set terminal_statuses" "Succeeded \<in> set terminal_statuses"
    by (simp_all add: terminal_statuses_def)
  obtain rc ld' where fin: "finish_action sample_canon sample_parse sample_digest 16 17 ''a'' Succeeded token_result
      dispatched_ledger = (Inr rc, ld')"
    by (simp add: finish_action_def transition_def row_record_def action_row_of_def dispatched_ledger_def t Let_def
        del: status_value.simps)
  have p: "sample_parse (sample_canon (sanitize_payload [] (PDict token_result))) =
      Some (PStr ''{output_token:[REDACTED]}'')"
    by code_simp
  from repeated_finish[OF r t(1) fin p, of 18 19] fin
  show ?thesis by (intro exI[of _ rc] exI[of _ ld']) (simp add: py_eq.simps)
qed

end
