(* ===== verification/Outbox.thy ===== *)
theory Outbox
  imports Local_Ledger
begin

text \<open>
  The receipt outbox of the local node (\<open>src/apps/local-node/src/local_node/outbox.py\<close>) and the part of
  one control-channel exchange that works on it (\<open>ControlChannelClient.run_once\<close> of \<open>transport.py\<close>).
  The SQLite tables are lists of rows in insertion order; a statement that raises rolls its transaction
  back, and the outbox's lock serialises the operations. As in the ledger, \<open>canon\<close> is
  \<open>canonical_json\<close>, \<open>parse\<close> is \<open>json.loads\<close> and \<open>sha256\<close> the hexadecimal digest of a text.
\<close>

section \<open>Receipts\<close>

text \<open>A row of \<open>receipt_events\<close> holds its result as JSON text, a \<open>ReceiptEvent\<close> as a value; the other
  nine fields are the same.\<close>

record 'r receipt =
  re_sequence :: int
  re_event_id :: string
  re_action_id :: "string option"
  re_event_type :: string
  re_status :: "string option"
  re_occurred_at :: rat
  re_result_digest :: "string option"
  re_error_code :: "string option"
  re_summary :: "string option"
  re_result :: "'r option"

type_synonym receipt_row = "string receipt"
type_synonym receipt_event = "pyval receipt"

definition with_result :: "'b option \<Rightarrow> 'a receipt \<Rightarrow> 'b receipt" where
  "with_result x r = \<lparr>re_sequence = re_sequence r, re_event_id = re_event_id r,
     re_action_id = re_action_id r, re_event_type = re_event_type r, re_status = re_status r,
     re_occurred_at = re_occurred_at r, re_result_digest = re_result_digest r,
     re_error_code = re_error_code r, re_summary = re_summary r, re_result = x\<rparr>"

text \<open>\<open>_event\<close>\<close>

definition receipt_of :: "(string \<Rightarrow> pyval option) \<Rightarrow> receipt_row \<Rightarrow> node_error + receipt_event" where
  "receipt_of parse r =
     (case re_result r of
        None \<Rightarrow> Inr (with_result None r)
      | Some t \<Rightarrow> (case parse t of
                    None \<Rightarrow> Inl (BadArgument ''stored result is not JSON'')
                  | Some v \<Rightarrow> Inr (with_result (Some v) r)))"

text \<open>The database: the rows, the largest row number SQLite has handed out (\<open>AUTOINCREMENT\<close>), and the
  acknowledgement seal (\<open>None\<close>: its row is missing).\<close>

record outbox =
  ox_rows :: "receipt_row list"
  ox_seq :: int
  ox_acked :: "int option"

text \<open>The constructor's script: a missing seal is inserted, an existing one is left alone.\<close>

definition open_outbox :: "outbox \<Rightarrow> outbox" where
  "open_outbox ob = ob\<lparr>ox_acked := (case ox_acked ob of None \<Rightarrow> Some 0 | Some k \<Rightarrow> Some k)\<rparr>"

definition new_outbox :: outbox where
  "new_outbox = open_outbox \<lparr>ox_rows = [], ox_seq = 0, ox_acked = None\<rparr>"

section \<open>Appending\<close>

record receipt_args =
  ra_event_id :: string
  ra_event_type :: string
  ra_action_id :: "string option"
  ra_status :: "string option"
  ra_result :: "(string, pyval) py_dict option"
  ra_result_digest :: "string option"
  ra_retain_result :: bool
  ra_error_code :: "string option"
  ra_summary :: "string option"
  ra_occurred_at :: "rat option"

definition is_control :: "char \<Rightarrow> bool" where
  "is_control c = ((of_char c :: nat) < 32)"

definition safe_identifier :: "string \<Rightarrow> nat \<Rightarrow> string \<Rightarrow> node_error + unit" where
  "safe_identifier field max_length value =
     guard_else (\<not> (value = [] \<or> max_length < length value \<or> list_ex is_control value))
       (OutboxError (field @ '' is invalid'')) (Inr ())"

definition safe_optional :: "string \<Rightarrow> nat \<Rightarrow> string option \<Rightarrow> node_error + unit" where
  "safe_optional field max_length value =
     (case value of None \<Rightarrow> Inr () | Some s \<Rightarrow> safe_identifier field max_length s)"

definition is_hex64 :: "string \<Rightarrow> bool" where
  "is_hex64 s = (length s = 64 \<and> list_all (\<lambda>c. c \<in> set ''0123456789abcdef'') s)"

definition safe_summary :: "string \<Rightarrow> bool" where
  "safe_summary s = (length s \<le> 500 \<and> \<not> list_ex (\<lambda>c. is_control c \<and> c \<noteq> CHR 0x09) s)"

text \<open>The checks of \<open>append\<close> before the transaction: the digest to store and the result to retain.
  The strings are ASCII, so the encoded length is the length of the text.\<close>

definition check_receipt ::
  "(pyval \<Rightarrow> string) \<Rightarrow> (string \<Rightarrow> string) \<Rightarrow> receipt_args
     \<Rightarrow> node_error + (string option \<times> (string, pyval) py_dict option)" where
  "check_receipt canon sha256 a =
     result_bind (safe_identifier ''event id'' 512 (ra_event_id a)) (\<lambda>_.
     result_bind (safe_identifier ''event type'' 80 (ra_event_type a)) (\<lambda>_.
     result_bind (safe_optional ''action id'' 512 (ra_action_id a)) (\<lambda>_.
     guard_else (case ra_status a of None \<Rightarrow> True | Some s \<Rightarrow> status_of s \<noteq> None)
       (OutboxError ''receipt status is invalid'')
     (guard_else (ra_result a = None \<or> ra_result_digest a = None)
       (OutboxError ''receipt cannot include both result and result digest'')
     (result_bind
       (case ra_result a of
          Some d \<Rightarrow>
            guard_else (length (canon (PDict d)) \<le> 2 * 1024 * 1024)
              (OutboxError ''receipt result exceeds digest budget'')
              (Inr (Some (digest_payload canon sha256 (PDict d)),
                    if ra_retain_result a then Some d else None))
        | None \<Rightarrow>
            guard_else (\<not> ra_retain_result a) (OutboxError ''retained receipt result is missing'')
              (Inr (ra_result_digest a, None))) (\<lambda>(digest, stored).
     guard_else (case digest of None \<Rightarrow> True | Some h \<Rightarrow> is_hex64 h)
       (OutboxError ''receipt result digest is invalid'')
     (result_bind (safe_optional ''error code'' 80 (ra_error_code a)) (\<lambda>_.
     guard_else (case ra_summary a of None \<Rightarrow> True | Some s \<Rightarrow> safe_summary s)
       (OutboxError ''receipt summary is invalid'')
     (Inr (digest, stored))))))))))"

definition receipt_for ::
  "int \<Rightarrow> receipt_args \<Rightarrow> rat \<Rightarrow> string option \<Rightarrow> 'r option \<Rightarrow> 'r receipt" where
  "receipt_for n a t digest stored = \<lparr>re_sequence = n, re_event_id = ra_event_id a,
     re_action_id = ra_action_id a, re_event_type = ra_event_type a, re_status = ra_status a,
     re_occurred_at = t, re_result_digest = digest, re_error_code = ra_error_code a,
     re_summary = ra_summary a, re_result = stored\<rparr>"

text \<open>\<open>asdict(event) | {"occurred_at": timestamp} == asdict(expected)\<close>: every field but the time.\<close>

definition same_receipt :: "receipt_event \<Rightarrow> receipt_event \<Rightarrow> bool" where
  "same_receipt r s \<longleftrightarrow>
     re_sequence r = re_sequence s \<and> re_event_id r = re_event_id s \<and> re_action_id r = re_action_id s \<and>
     re_event_type r = re_event_type s \<and> re_status r = re_status s \<and>
     re_result_digest r = re_result_digest s \<and> re_error_code r = re_error_code s \<and>
     re_summary r = re_summary s \<and>
     (case (re_result r, re_result s) of
        (None, None) \<Rightarrow> True | (Some v, Some w) \<Rightarrow> py_eq v w | _ \<Rightarrow> False)"

definition append_receipt ::
  "(pyval \<Rightarrow> string) \<Rightarrow> (string \<Rightarrow> pyval option) \<Rightarrow> (string \<Rightarrow> string) \<Rightarrow> rat \<Rightarrow> receipt_args \<Rightarrow> outbox
     \<Rightarrow> (node_error + receipt_event) \<times> outbox" where
  "append_receipt canon parse sha256 now a ob =
     (case check_receipt canon sha256 a of
        Inl e \<Rightarrow> (Inl e, ob)
      | Inr (digest, stored) \<Rightarrow>
          (let t = (case ra_occurred_at a of None \<Rightarrow> now | Some t \<Rightarrow> t) in
           case find (\<lambda>r. re_event_id r = ra_event_id a) (ox_rows ob) of
             Some row \<Rightarrow>
               (case receipt_of parse row of
                  Inl e \<Rightarrow> (Inl e, ob)
                | Inr ev \<Rightarrow>
                    (if same_receipt ev (receipt_for (re_sequence ev) a t digest (map_option PDict stored))
                     then (Inr ev, ob)
                     else (Inl (OutboxError ''receipt event id was reused with different data''), ob)))
           | None \<Rightarrow>
               (let n = ox_seq ob + 1
                in (Inr (receipt_for n a t digest (map_option PDict stored)),
                    ob\<lparr>ox_rows := ox_rows ob @ [receipt_for n a t digest (map_option (\<lambda>d. canon (PDict d)) stored)],
                       ox_seq := n\<rparr>))))"

section \<open>Reading and acknowledging\<close>

definition acked_through :: "outbox \<Rightarrow> node_error + int" where
  "acked_through ob =
     (case ox_acked ob of
        None \<Rightarrow> Inl (OutboxError ''receipt acknowledgement seal is missing'') | Some k \<Rightarrow> Inr k)"

fun receipts_of :: "(string \<Rightarrow> pyval option) \<Rightarrow> receipt_row list \<Rightarrow> node_error + receipt_event list" where
  "receipts_of parse [] = Inr []"
| "receipts_of parse (r # rs) =
     result_bind (receipt_of parse r) (\<lambda>ev. result_bind (receipts_of parse rs) (\<lambda>evs. Inr (ev # evs)))"

definition rows_after :: "int \<Rightarrow> outbox \<Rightarrow> receipt_row list" where
  "rows_after k ob = sort_key re_sequence (filter (\<lambda>r. k < re_sequence r) (ox_rows ob))"

definition pending ::
  "(string \<Rightarrow> pyval option) \<Rightarrow> int \<Rightarrow> outbox \<Rightarrow> node_error + receipt_event list" where
  "pending parse limit ob =
     guard_else (\<not> (limit \<le> 0 \<or> 200 < limit)) (OutboxError ''receipt batch limit is invalid'')
       (result_bind (acked_through ob) (\<lambda>k. receipts_of parse (take (nat limit) (rows_after k ob))))"

text \<open>\<open>acknowledge\<close> writes with two statements of their own: the seal moves, then the results go.\<close>

definition ack_seal :: "int \<Rightarrow> outbox \<Rightarrow> outbox" where
  "ack_seal k ob = ob\<lparr>ox_acked := map_option (\<lambda>_. k) (ox_acked ob)\<rparr>"

definition ack_erase :: "int \<Rightarrow> outbox \<Rightarrow> outbox" where
  "ack_erase k ob =
     ob\<lparr>ox_rows := map (\<lambda>r. if re_sequence r \<le> k then r\<lparr>re_result := None\<rparr> else r) (ox_rows ob)\<rparr>"

definition max_sequence :: "receipt_row list \<Rightarrow> int" where
  "max_sequence rows = (case map re_sequence rows of [] \<Rightarrow> 0 | n # ns \<Rightarrow> fold max ns n)"

definition ack_checks :: "int \<Rightarrow> outbox \<Rightarrow> node_error + unit" where
  "ack_checks k ob =
     result_bind (acked_through ob) (\<lambda>current.
       guard_else (\<not> (k < current \<or> max_sequence (ox_rows ob) < k))
         (OutboxError ''receipt acknowledgement is outside the local sequence range'')
       (guard_else (int (length (filter (\<lambda>r. current < re_sequence r \<and> re_sequence r \<le> k) (ox_rows ob)))
            = k - current)
         (OutboxError ''receipt acknowledgement would cross an event gap'')
         (Inr ())))"

definition acknowledge :: "int \<Rightarrow> outbox \<Rightarrow> (node_error + unit) \<times> outbox" where
  "acknowledge k ob =
     (case ack_checks k ob of
        Inl e \<Rightarrow> (Inl e, ob) | Inr _ \<Rightarrow> (Inr (), ack_erase k (ack_seal k ob)))"

text \<open>The receipts' part of \<open>run_once\<close>: the pending receipts go out, the control plane answers with the
  number it has accepted through, and a number outside of what was sent is a protocol error. The reply
  is a function of the receipts sent; what the exchange raises and the commands it returns are not part
  of the step.\<close>

definition exchange_receipts ::
  "(string \<Rightarrow> pyval option) \<Rightarrow> (receipt_event list \<Rightarrow> int) \<Rightarrow> outbox \<Rightarrow> (node_error + unit) \<times> outbox" where
  "exchange_receipts parse reply ob =
     (case pending parse 200 ob of
        Inl e \<Rightarrow> (Inl e, ob)
      | Inr evs \<Rightarrow>
          (let k = reply evs in
           if evs \<noteq> []
           then (if re_sequence (hd evs) - 1 \<le> k \<and> k \<le> re_sequence (List.last evs) then acknowledge k ob
                 else (Inl (TransportProtocolError
                         ''control plane acknowledged outside the transmitted receipt range''), ob))
           else (case acked_through ob of
                   Inl e \<Rightarrow> (Inl e, ob)
                 | Inr c \<Rightarrow>
                     (if k \<noteq> c
                      then (Inl (TransportProtocolError ''control plane acknowledged unsent receipts''), ob)
                      else acknowledge k ob))))"

section \<open>Well-formed outboxes\<close>

text \<open>The states the operations produce: row numbers count from 1 without a hole, event ids are unique,
  the seal lies inside, and every retained result is readable.\<close>

definition outbox_ok :: "(string \<Rightarrow> pyval option) \<Rightarrow> outbox \<Rightarrow> bool" where
  "outbox_ok parse ob \<longleftrightarrow>
     map re_sequence (ox_rows ob) = [1..ox_seq ob] \<and> 0 \<le> ox_seq ob \<and>
     distinct (map re_event_id (ox_rows ob)) \<and>
     (\<exists>k. ox_acked ob = Some k \<and> 0 \<le> k \<and> k \<le> ox_seq ob) \<and>
     (\<forall>r \<in> set (ox_rows ob). \<forall>t. re_result r = Some t \<longrightarrow> parse t \<noteq> None)"

datatype outbox_op =
    AppendReceipt rat receipt_args
  | Acknowledge int
  | CrashedAcknowledge int
  | Reopen

text \<open>A process that dies between the two statements of \<open>acknowledge\<close> leaves the seal moved and the
  results in place, and the next process opens that file.\<close>

fun outbox_exec ::
  "(pyval \<Rightarrow> string) \<Rightarrow> (string \<Rightarrow> pyval option) \<Rightarrow> (string \<Rightarrow> string) \<Rightarrow> outbox_op \<Rightarrow> outbox \<Rightarrow> outbox" where
  "outbox_exec canon parse sha256 (AppendReceipt now a) ob = snd (append_receipt canon parse sha256 now a ob)"
| "outbox_exec canon parse sha256 (Acknowledge k) ob = snd (acknowledge k ob)"
| "outbox_exec canon parse sha256 (CrashedAcknowledge k) ob =
     (case ack_checks k ob of Inl e \<Rightarrow> ob | Inr _ \<Rightarrow> open_outbox (ack_seal k ob))"
| "outbox_exec canon parse sha256 Reopen ob = open_outbox ob"

definition outbox_run ::
  "(pyval \<Rightarrow> string) \<Rightarrow> (string \<Rightarrow> pyval option) \<Rightarrow> (string \<Rightarrow> string) \<Rightarrow> outbox_op list \<Rightarrow> outbox" where
  "outbox_run canon parse sha256 ops = fold (outbox_exec canon parse sha256) ops new_outbox"

lemma max_sequence_upto: "map re_sequence rows = [1..n] \<Longrightarrow> 0 \<le> n \<Longrightarrow> max_sequence rows = n"
proof -
  assume m: "map re_sequence rows = [1..n]" "0 \<le> n"
  show ?thesis
  proof (cases "n = 0")
    case False
    then have "[1..n] = 1 # [2..n]" using m(2) by (simp add: upto_rec1)
    moreover have "fold max [2..n] 1 = Max (set (1 # [2..n]))"
      by (metis Max.set_eq_fold)
    moreover have "Max (set (1 # [2..n])) = n"
      using m(2) False by (intro Max_eqI) auto
    ultimately show ?thesis using m by (simp add: max_sequence_def)
  qed (use m in \<open>simp add: max_sequence_def\<close>)
qed

lemma with_result_simps [simp]:
  "re_sequence (with_result x r) = re_sequence r" "re_event_id (with_result x r) = re_event_id r"
  "re_result (with_result x r) = x"
  by (simp_all add: with_result_def)

lemma receipt_for_simps [simp]:
  "re_sequence (receipt_for n a t digest stored) = n"
  "re_event_id (receipt_for n a t digest stored) = ra_event_id a"
  "re_result (receipt_for n a t digest stored) = stored"
  by (simp_all add: receipt_for_def)

lemma outbox_rowsD:
  assumes "outbox_ok parse ob"
  shows "length (ox_rows ob) = nat (ox_seq ob)"
    and "i < length (ox_rows ob) \<Longrightarrow> re_sequence (ox_rows ob ! i) = int i + 1"
    and "sorted (map re_sequence (ox_rows ob))"
    and "r \<in> set (ox_rows ob) \<Longrightarrow> 1 \<le> re_sequence r \<and> re_sequence r \<le> ox_seq ob"
proof -
  have m: "map re_sequence (ox_rows ob) = [1..ox_seq ob]" using assms by (simp add: outbox_ok_def)
  show l: "length (ox_rows ob) = nat (ox_seq ob)" using arg_cong[OF m, of length] by simp
  show "re_sequence (ox_rows ob ! i) = int i + 1" if "i < length (ox_rows ob)"
    using that arg_cong[OF m, of "\<lambda>xs. xs ! i"] l by simp
  show "sorted (map re_sequence (ox_rows ob))" by (simp add: m)
  show "1 \<le> re_sequence r \<and> re_sequence r \<le> ox_seq ob" if "r \<in> set (ox_rows ob)"
    using that arg_cong[OF m, of set] by auto
qed

text \<open>The rows beyond a number are the rows after as many positions.\<close>

lemma rows_after_drop:
  assumes "outbox_ok parse ob" "0 \<le> k"
  shows "rows_after k ob = drop (nat k) (ox_rows ob)"
proof -
  have "filter (\<lambda>r. k < re_sequence r) (ox_rows ob) = drop (nat k) (ox_rows ob)"
  proof -
    have "filter (\<lambda>r. k < re_sequence r) (take (nat k) (ox_rows ob)) = []"
      using outbox_rowsD(2)[OF assms(1)] assms(2) by (auto simp: filter_empty_conv in_set_conv_nth)
    moreover have "filter (\<lambda>r. k < re_sequence r) (drop (nat k) (ox_rows ob)) = drop (nat k) (ox_rows ob)"
      using outbox_rowsD(1,2)[OF assms(1)] assms(2) by (auto simp: filter_id_conv in_set_conv_nth)
    ultimately show ?thesis
      by (metis append_take_drop_id filter_append self_append_conv2)
  qed
  moreover have "sorted (map re_sequence (drop (nat k) (ox_rows ob)))"
    using outbox_rowsD(3)[OF assms(1)] by (simp add: drop_map[symmetric] sorted_wrt_drop)
  ultimately show ?thesis by (simp add: rows_after_def sorted_sort_id sort_key_id_if_sorted)
qed

lemma ack_checks_ok:
  assumes "outbox_ok parse ob" "ox_acked ob = Some c"
  shows "ack_checks k ob = Inr () \<longleftrightarrow> c \<le> k \<and> k \<le> ox_seq ob"
    and "ack_checks k ob = Inr u \<Longrightarrow> c \<le> k \<and> k \<le> ox_seq ob"
proof -
  have m: "max_sequence (ox_rows ob) = ox_seq ob"
    using assms(1) by (intro max_sequence_upto) (auto simp: outbox_ok_def)
  have len: "int (length (filter (\<lambda>r. c < re_sequence r \<and> re_sequence r \<le> k) (ox_rows ob))) = k - c"
    if "c \<le> k" "k \<le> ox_seq ob"
  proof -
    have eq: "map re_sequence (filter (\<lambda>r. c < re_sequence r \<and> re_sequence r \<le> k) (ox_rows ob))
        = filter (\<lambda>n. c < n \<and> n \<le> k) [1..ox_seq ob]"
    proof -
      have m': "[1..ox_seq ob] = map re_sequence (ox_rows ob)" using assms(1) by (simp add: outbox_ok_def)
      show ?thesis by (simp add: m' filter_map comp_def)
    qed
    moreover have "length (filter (\<lambda>n. c < n \<and> n \<le> k) [1..ox_seq ob]) = nat (k - c)"
    proof -
      have "0 \<le> c" using assms by (auto simp: outbox_ok_def)
      then have "{n \<in> {1..ox_seq ob}. c < n \<and> n \<le> k} = {c<..k}" using that by auto
      then show ?thesis
        using distinct_card[of "filter (\<lambda>n. c < n \<and> n \<le> k) [1..ox_seq ob]"] by simp
    qed
    moreover have "length (filter (\<lambda>r. c < re_sequence r \<and> re_sequence r \<le> k) (ox_rows ob))
        = length (filter (\<lambda>n. c < n \<and> n \<le> k) [1..ox_seq ob])"
      using arg_cong[OF eq, of length] by (simp only: length_map)
    ultimately show ?thesis using that(1) by (simp only: int_nat_eq) simp
  qed
  show "ack_checks k ob = Inr () \<longleftrightarrow> c \<le> k \<and> k \<le> ox_seq ob"
    using len assms(2)
    by (cases "c \<le> k \<and> k \<le> ox_seq ob")
      (simp_all add: ack_checks_def acked_through_def guard_else_def m not_le)
  then show "ack_checks k ob = Inr u \<Longrightarrow> c \<le> k \<and> k \<le> ox_seq ob" by simp
qed

lemma receipt_of_total:
  "re_result r = None \<or> (\<exists>t. re_result r = Some t \<and> parse t \<noteq> None) \<Longrightarrow> \<exists>ev. receipt_of parse r = Inr ev"
  by (auto simp: receipt_of_def split: option.splits)

lemma receipt_of_fields:
  "receipt_of parse r = Inr ev \<Longrightarrow> re_sequence ev = re_sequence r \<and> re_event_id ev = re_event_id r"
  by (auto simp: receipt_of_def split: option.splits)

lemma receipts_of_total:
  "(\<And>r. r \<in> set rs \<Longrightarrow> \<exists>ev. receipt_of parse r = Inr ev) \<Longrightarrow>
     \<exists>evs. receipts_of parse rs = Inr evs \<and> map re_sequence evs = map re_sequence rs"
proof (induction rs)
  case (Cons r rs)
  then obtain ev evs where "receipt_of parse r = Inr ev" "receipts_of parse rs = Inr evs"
    "map re_sequence evs = map re_sequence rs" by fastforce
  then show ?case by (simp add: receipt_of_fields)
qed simp

lemma outbox_ok_readable:
  "outbox_ok parse ob \<Longrightarrow> r \<in> set (ox_rows ob) \<Longrightarrow> \<exists>ev. receipt_of parse r = Inr ev"
  by (rule receipt_of_total) (auto simp: outbox_ok_def)

lemma outbox_ok_new [simp, wf_intros]: "outbox_ok parse new_outbox"
  by (simp add: outbox_ok_def new_outbox_def open_outbox_def)

lemma outbox_ok_open: "outbox_ok parse ob \<Longrightarrow> open_outbox ob = ob"
  by (auto simp: outbox_ok_def open_outbox_def split: option.splits)

lemma append_receipt_cases:
  obtains (refused) e where "append_receipt canon parse sha256 now a ob = (Inl e, ob)"
  | (known) row ev where "append_receipt canon parse sha256 now a ob = (Inr ev, ob)"
      "find (\<lambda>r. re_event_id r = ra_event_id a) (ox_rows ob) = Some row" "receipt_of parse row = Inr ev"
  | (fresh) digest stored t where
      "check_receipt canon sha256 a = Inr (digest, stored)"
      "t = (case ra_occurred_at a of None \<Rightarrow> now | Some t \<Rightarrow> t)"
      "ra_event_id a \<notin> re_event_id ` set (ox_rows ob)"
      "append_receipt canon parse sha256 now a ob =
         (Inr (receipt_for (ox_seq ob + 1) a t digest (map_option PDict stored)),
          ob\<lparr>ox_rows := ox_rows ob @
               [receipt_for (ox_seq ob + 1) a t digest (map_option (\<lambda>d. canon (PDict d)) stored)],
             ox_seq := ox_seq ob + 1\<rparr>)"
proof (cases "check_receipt canon sha256 a")
  case (Inl e)
  then show ?thesis by (intro refused[of e]) (simp add: append_receipt_def)
next
  case (Inr ds)
  obtain digest stored where ds: "ds = (digest, stored)" by force
  show ?thesis
  proof (cases "find (\<lambda>r. re_event_id r = ra_event_id a) (ox_rows ob)")
    case None
    then have "ra_event_id a \<notin> re_event_id ` set (ox_rows ob)" by (auto simp: find_None_iff)
    with None show ?thesis using Inr ds
      by (intro fresh[of digest stored "case ra_occurred_at a of None \<Rightarrow> now | Some t \<Rightarrow> t"])
        (simp_all add: append_receipt_def Let_def)
  next
    case (Some row)
    show ?thesis
    proof (cases "receipt_of parse row")
      case (Inl e)
      then show ?thesis using Some Inr ds by (intro refused[of e]) (simp add: append_receipt_def)
    next
      case (Inr ev)
      let ?t = "case ra_occurred_at a of None \<Rightarrow> now | Some t \<Rightarrow> t"
      show ?thesis
        using Some Inr ds \<open>check_receipt canon sha256 a = Inr ds\<close>
          known[of ev row] refused[of "OutboxError ''receipt event id was reused with different data''"]
        by (cases "same_receipt ev (receipt_for (re_sequence ev) a ?t digest (map_option PDict stored))")
          (simp_all add: append_receipt_def)
    qed
  qed
qed

lemma outbox_ok_append [wf_intros]:
  assumes "outbox_ok parse ob" "\<And>d. parse (canon (PDict d)) \<noteq> None"
  shows "outbox_ok parse (snd (append_receipt canon parse sha256 now a ob))"
proof (cases rule: append_receipt_cases[of canon parse sha256 now a ob])
  case (fresh digest stored t)
  have "[1..ox_seq ob + 1] = [1..ox_seq ob] @ [ox_seq ob + 1]"
    using assms(1) upto_rec2[of 1 "ox_seq ob + 1"] by (simp add: outbox_ok_def)
  then show ?thesis using fresh(3,4) assms by (auto simp: outbox_ok_def)
qed (use assms in simp_all)

lemma ack_fields [simp]:
  "ox_seq (ack_seal k ob) = ox_seq ob" "ox_rows (ack_seal k ob) = ox_rows ob"
  "ox_seq (ack_erase k ob) = ox_seq ob" "ox_acked (ack_erase k ob) = ox_acked ob"
  "ox_acked (ack_seal k ob) = map_option (\<lambda>_. k) (ox_acked ob)"
  "map re_sequence (ox_rows (ack_erase k ob)) = map re_sequence (ox_rows ob)"
  "map re_event_id (ox_rows (ack_erase k ob)) = map re_event_id (ox_rows ob)"
  by (simp_all add: ack_seal_def ack_erase_def)

lemma outbox_ok_seal:
  assumes "outbox_ok parse ob" "ack_checks k ob = Inr u" shows "outbox_ok parse (ack_seal k ob)"
proof -
  obtain c where "ox_acked ob = Some c" "0 \<le> c" using assms(1) by (auto simp: outbox_ok_def)
  with ack_checks_ok(2)[OF assms(1) this(1) assms(2)] assms(1) show ?thesis
    by (auto simp: outbox_ok_def)
qed

lemma outbox_ok_erase: "outbox_ok parse ob \<Longrightarrow> outbox_ok parse (ack_erase k ob)"
  unfolding outbox_ok_def ack_fields by (auto simp: ack_erase_def)

lemma outbox_ok_exec [wf_intros]:
  assumes "outbox_ok parse ob" "\<And>d. parse (canon (PDict d)) \<noteq> None"
  shows "outbox_ok parse (outbox_exec canon parse sha256 op ob)"
proof (cases op)
  case (CrashedAcknowledge k)
  show ?thesis
  proof (cases "ack_checks k ob")
    case (Inr u)
    note ok = outbox_ok_seal[OF assms(1) this]
    then show ?thesis using Inr CrashedAcknowledge outbox_ok_open[OF ok] by simp
  qed (use CrashedAcknowledge assms(1) in simp)
qed (use assms in \<open>auto simp: outbox_ok_append outbox_ok_open outbox_ok_seal outbox_ok_erase acknowledge_def split: sum.splits\<close>)

lemma outbox_run_ok:
  "(\<And>d. parse (canon (PDict d)) \<noteq> None) \<Longrightarrow> outbox_ok parse (outbox_run canon parse sha256 ops)"
proof -
  assume p: "\<And>d. parse (canon (PDict d)) \<noteq> None"
  have "outbox_ok parse ob \<Longrightarrow> outbox_ok parse (fold (outbox_exec canon parse sha256) ops ob)" for ob
  proof (induction ops arbitrary: ob)
    case (Cons op ops)
    then show ?case using outbox_ok_exec[of parse ob canon sha256 op, OF _ p] by simp
  qed simp
  then show ?thesis by (simp add: outbox_run_def)
qed

section \<open>A queue of receipts\<close>

text \<open>The abstract contract: a first-in first-out queue that numbers what enters it, knows every id it
  has ever seen, and lets go of a prefix.\<close>

record fifo =
  fq_known :: "string list"
  fq_queue :: "receipt_row list"

definition fifo_put :: "receipt_row \<Rightarrow> fifo \<Rightarrow> fifo" where
  "fifo_put r q =
     (if re_event_id r \<in> set (fq_known q) then q
      else q\<lparr>fq_known := fq_known q @ [re_event_id r],
             fq_queue := fq_queue q @ [r\<lparr>re_sequence := int (length (fq_known q)) + 1\<rparr>]\<rparr>)"

definition fifo_accept :: "int \<Rightarrow> fifo \<Rightarrow> fifo option" where
  "fifo_accept k q =
     (let gone = int (length (fq_known q)) - int (length (fq_queue q))
      in if gone \<le> k \<and> k \<le> int (length (fq_known q))
         then Some (q\<lparr>fq_queue := drop (nat (k - gone)) (fq_queue q)\<rparr>) else None)"

definition fifo_peek :: "nat \<Rightarrow> fifo \<Rightarrow> receipt_row list" where
  "fifo_peek n q = take n (fq_queue q)"

definition the_seal :: "outbox \<Rightarrow> int" where
  "the_seal ob = (case ox_acked ob of None \<Rightarrow> 0 | Some k \<Rightarrow> k)"

definition abs_outbox :: "outbox \<Rightarrow> fifo" where
  "abs_outbox ob = \<lparr>fq_known = map re_event_id (ox_rows ob), fq_queue = rows_after (the_seal ob) ob\<rparr>"

lemma the_seal_ok:
  assumes "outbox_ok parse ob"
  shows "ox_acked ob = Some (the_seal ob)" "0 \<le> the_seal ob" "the_seal ob \<le> ox_seq ob"
  using assms by (auto simp: outbox_ok_def the_seal_def)

lemma abs_queue:
  assumes "outbox_ok parse ob"
  shows "fq_queue (abs_outbox ob) = drop (nat (the_seal ob)) (ox_rows ob)"
    and "int (length (fq_known (abs_outbox ob))) = ox_seq ob"
    and "int (length (fq_queue (abs_outbox ob))) = ox_seq ob - the_seal ob"
  using rows_after_drop[OF assms] the_seal_ok[OF assms] outbox_rowsD(1)[OF assms]
  by (simp_all add: abs_outbox_def)

lemma append_abs:
  assumes ok: "outbox_ok parse ob" and p: "\<And>d. parse (canon (PDict d)) \<noteq> None"
    and app: "append_receipt canon parse sha256 now a ob = (Inr ev, ob')"
    and chk: "check_receipt canon sha256 a = Inr (digest, stored)"
  shows "abs_outbox ob' = fifo_put (receipt_for 0 a (case ra_occurred_at a of None \<Rightarrow> now | Some t \<Rightarrow> t)
           digest (map_option (\<lambda>d. canon (PDict d)) stored)) (abs_outbox ob)"
proof (cases rule: append_receipt_cases[of canon parse sha256 now a ob])
  case (refused e)
  then show ?thesis using app by simp
next
  case (known row ev')
  then have "ra_event_id a \<in> re_event_id ` set (ox_rows ob)"
    by (auto simp: find_Some_iff) (metis image_eqI nth_mem)
  then show ?thesis using known app by (simp add: fifo_put_def abs_outbox_def)
next
  case (fresh digest' stored' t)
  have ok': "outbox_ok parse ob'" using outbox_ok_append[of parse ob canon sha256 now a, OF ok p] app by simp
  have seal: "the_seal ob' = the_seal ob" using fresh(4) app by (auto simp: the_seal_def)
  have len: "nat (the_seal ob) \<le> length (ox_rows ob)"
    using the_seal_ok[OF ok] outbox_rowsD(1)[OF ok] by simp
  have n: "ox_seq ob + 1 = int (length (ox_rows ob)) + 1"
    using outbox_rowsD(1)[OF ok] ok by (simp add: outbox_ok_def)
  have q: "fq_queue (abs_outbox ob') = drop (nat (the_seal ob)) (ox_rows ob')"
    using abs_queue(1)[OF ok'] seal by simp
  have rows: "ox_rows ob' = ox_rows ob @ [receipt_for (ox_seq ob + 1) a t digest
      (map_option (\<lambda>d. canon (PDict d)) stored)]"
    using fresh(1,4) app chk by auto
  have "fq_queue (abs_outbox ob') = fq_queue (abs_outbox ob) @ [receipt_for (ox_seq ob + 1) a t digest
      (map_option (\<lambda>d. canon (PDict d)) stored)]"
    using q rows len abs_queue(1)[OF ok] by simp
  moreover have "fq_known (abs_outbox ob') = fq_known (abs_outbox ob) @ [ra_event_id a]"
    using rows by (simp add: abs_outbox_def)
  moreover have "ra_event_id a \<notin> set (fq_known (abs_outbox ob))" using fresh(3) by (simp add: abs_outbox_def)
  moreover have "length (fq_known (abs_outbox ob)) = length (ox_rows ob)" by (simp add: abs_outbox_def)
  ultimately show ?thesis using n fresh(2)
    by (intro fifo.equality) (simp_all add: fifo_put_def receipt_for_def)
qed

lemma acknowledge_abs:
  assumes ok: "outbox_ok parse ob"
  shows "case fifo_accept k (abs_outbox ob) of
           None \<Rightarrow> (\<exists>e. acknowledge k ob = (Inl e, ob))
         | Some q \<Rightarrow> (\<exists>ob'. acknowledge k ob = (Inr (), ob') \<and> abs_outbox ob' = q)"
proof (cases "ack_checks k ob")
  case (Inl e)
  then have "\<not> (the_seal ob \<le> k \<and> k \<le> ox_seq ob)"
    using ack_checks_ok(1)[OF ok the_seal_ok(1)[OF ok], of k] by simp
  then show ?thesis using Inl abs_queue(2,3)[OF ok] by (auto simp: fifo_accept_def acknowledge_def Let_def)
next
  case (Inr u)
  then have k: "the_seal ob \<le> k" "k \<le> ox_seq ob"
    using ack_checks_ok(2)[OF ok the_seal_ok(1)[OF ok]] by blast+
  let ?ob = "ack_erase k (ack_seal k ob)"
  have ok': "outbox_ok parse ?ob" by (rule outbox_ok_erase) (rule outbox_ok_seal[OF ok Inr])
  have seal: "the_seal ?ob = k"
    using ok by (auto simp: outbox_ok_def the_seal_def)
  have "drop (nat k) (ox_rows ?ob) = drop (nat k) (ox_rows ob)"
  proof (rule nth_equalityI)
    fix i assume "i < length (drop (nat k) (ox_rows ?ob))"
    then have i: "nat k + i < length (ox_rows ob)" by (simp add: ack_erase_def)
    then have "re_sequence (ox_rows ob ! (nat k + i)) = int (nat k + i) + 1"
      by (rule outbox_rowsD(2)[OF ok])
    then show "drop (nat k) (ox_rows ?ob) ! i = drop (nat k) (ox_rows ob) ! i"
      using i by (simp add: ack_erase_def)
  qed (simp add: ack_erase_def)
  then have "fq_queue (abs_outbox ?ob) = drop (nat k) (ox_rows ob)"
    using abs_queue(1)[OF ok'] seal by simp
  moreover have "fq_queue (abs_outbox ob) = drop (nat (the_seal ob)) (ox_rows ob)" by (rule abs_queue(1)[OF ok])
  moreover have "nat (k - the_seal ob) + nat (the_seal ob) = nat k" using k the_seal_ok(2)[OF ok] by simp
  ultimately have "abs_outbox ?ob = (abs_outbox ob)\<lparr>fq_queue := drop (nat (k - the_seal ob)) (fq_queue (abs_outbox ob))\<rparr>"
    by (intro fifo.equality) (simp_all add: abs_outbox_def add.commute)
  then show ?thesis using Inr k abs_queue(2,3)[OF ok] by (simp add: fifo_accept_def acknowledge_def Let_def)
qed

lemma pending_abs:
  assumes ok: "outbox_ok parse ob" and n: "0 < n" "n \<le> 200"
  shows "\<exists>evs. pending parse n ob = Inr evs \<and> receipts_of parse (fifo_peek (nat n) (abs_outbox ob)) = Inr evs \<and>
           map re_sequence evs = map re_sequence (fifo_peek (nat n) (abs_outbox ob))"
proof -
  have "set (fifo_peek (nat n) (abs_outbox ob)) \<subseteq> set (ox_rows ob)"
    using abs_queue(1)[OF ok] by (auto simp: fifo_peek_def dest: in_set_takeD in_set_dropD)
  then have "\<exists>ev. receipt_of parse r = Inr ev" if "r \<in> set (fifo_peek (nat n) (abs_outbox ob))" for r
    using that outbox_ok_readable[OF ok] by blast
  from receipts_of_total[OF this] obtain evs where
    evs: "receipts_of parse (fifo_peek (nat n) (abs_outbox ob)) = Inr evs"
      "map re_sequence evs = map re_sequence (fifo_peek (nat n) (abs_outbox ob))" by blast
  moreover have "pending parse n ob = receipts_of parse (fifo_peek (nat n) (abs_outbox ob))"
    using n the_seal_ok(1)[OF ok] by (simp add: pending_def acked_through_def fifo_peek_def abs_outbox_def guard_else_def)
  ultimately show ?thesis by simp
qed

section \<open>Exchanges\<close>

text \<open>A control plane that, whenever receipts arrive, accepts at least the first of them and nothing it
  was not sent.\<close>

definition accepts_some :: "(receipt_event list \<Rightarrow> int) \<Rightarrow> bool" where
  "accepts_some reply \<longleftrightarrow>
     (\<forall>evs. evs \<noteq> [] \<and> sorted (map re_sequence evs) \<longrightarrow>
        re_sequence (hd evs) \<le> reply evs \<and> reply evs \<le> re_sequence (List.last evs))"

definition exchange_step ::
  "(string \<Rightarrow> pyval option) \<Rightarrow> (receipt_event list \<Rightarrow> int) \<Rightarrow> outbox \<Rightarrow> outbox" where
  "exchange_step parse reply ob = snd (exchange_receipts parse reply ob)"

definition backlog_size :: "outbox \<Rightarrow> nat" where
  "backlog_size ob = length (fq_queue (abs_outbox ob))"

lemma acknowledge_ok:
  assumes "outbox_ok parse ob" shows "outbox_ok parse (snd (acknowledge k ob))"
  using assms by (auto simp: acknowledge_def outbox_ok_seal outbox_ok_erase split: sum.splits)

lemma exchange_step_ok: "outbox_ok parse ob \<Longrightarrow> outbox_ok parse (exchange_step parse reply ob)"
  by (auto simp: exchange_step_def exchange_receipts_def acknowledge_ok Let_def split: sum.splits)

lemma acknowledge_backlog:
  "outbox_ok parse ob \<Longrightarrow> the_seal ob \<le> k \<Longrightarrow> k \<le> ox_seq ob \<Longrightarrow>
     fst (acknowledge k ob) = Inr () \<and> int (backlog_size (snd (acknowledge k ob))) = ox_seq ob - k"
  using acknowledge_abs[of parse ob k] abs_queue(2,3)[of parse ob]
  by (auto simp: fifo_accept_def Let_def backlog_size_def)

lemma exchange_progress:
  assumes ok: "outbox_ok parse ob" and r: "accepts_some reply" and "0 < backlog_size ob"
  shows "fst (exchange_receipts parse reply ob) = Inr ()"
    and "backlog_size (exchange_step parse reply ob) < backlog_size ob"
proof -
  obtain evs where evs: "pending parse 200 ob = Inr evs"
      "map re_sequence evs = map re_sequence (fifo_peek 200 (abs_outbox ob))"
    using pending_abs[OF ok, of 200] by auto
  let ?q = "fq_queue (abs_outbox ob)"
  have q: "?q = drop (nat (the_seal ob)) (ox_rows ob)" by (rule abs_queue(1)[OF ok])
  have ne: "fifo_peek 200 (abs_outbox ob) \<noteq> []" using assms(3) by (simp add: backlog_size_def fifo_peek_def)
  with evs(2) have ne': "evs \<noteq> []" by auto
  have seqs: "re_sequence r \<in> {the_seal ob + 1..ox_seq ob}" if "r \<in> set (fifo_peek 200 (abs_outbox ob))" for r
  proof -
    have "r \<in> set ?q" using that by (auto simp: fifo_peek_def dest: in_set_takeD)
    then show ?thesis
      using outbox_rowsD(4)[OF ok, of r] by (auto simp: abs_outbox_def rows_after_def)
  qed
  have hd: "re_sequence (hd evs) = re_sequence (hd (fifo_peek 200 (abs_outbox ob)))"
    using evs(2) ne ne' by (metis list.map_sel(1))
  have la: "re_sequence (List.last evs) = re_sequence (List.last (fifo_peek 200 (abs_outbox ob)))"
    using evs(2) ne ne' by (metis last_map)
  define k where "k = reply evs"
  have "sorted (map re_sequence evs)"
    using outbox_rowsD(3)[OF ok]
    by (simp add: evs(2) fifo_peek_def q take_map[symmetric] drop_map[symmetric] sorted_wrt_take sorted_wrt_drop)
  then have k: "re_sequence (hd evs) \<le> k" "k \<le> re_sequence (List.last evs)"
    using r ne' by (auto simp: accepts_some_def k_def)
  then have k': "the_seal ob + 1 \<le> k" "k \<le> ox_seq ob"
    using seqs[OF hd_in_set[OF ne]] seqs[OF last_in_set[OF ne]] hd la by auto
  have ex: "exchange_receipts parse reply ob = acknowledge k ob"
    using evs(1) ne' k by (simp add: exchange_receipts_def k_def[symmetric])
  show "fst (exchange_receipts parse reply ob) = Inr ()"
    using acknowledge_backlog[OF ok, of k] k' ex by simp
  have "int (backlog_size (exchange_step parse reply ob)) = ox_seq ob - k"
    using acknowledge_backlog[OF ok, of k] k' ex by (simp add: exchange_step_def)
  moreover have "int (backlog_size ob) = ox_seq ob - the_seal ob"
    using abs_queue(3)[OF ok] by (simp add: backlog_size_def)
  ultimately show "backlog_size (exchange_step parse reply ob) < backlog_size ob" using k' by simp
qed

lemma exchange_idle:
  assumes "outbox_ok parse ob" "backlog_size ob = 0"
  shows "backlog_size (exchange_step parse reply ob) = 0"
proof -
  obtain evs where evs: "pending parse 200 ob = Inr evs"
      "map re_sequence evs = map re_sequence (fifo_peek 200 (abs_outbox ob))"
    using pending_abs[OF assms(1), of 200] by auto
  then have "evs = []" using assms(2) by (simp add: backlog_size_def fifo_peek_def)
  with evs(1) show ?thesis
    using assms(2) the_seal_ok[OF assms(1)] acknowledge_backlog[OF assms(1), of "the_seal ob"]
      abs_queue(3)[OF assms(1)]
    by (auto simp: exchange_step_def exchange_receipts_def acked_through_def backlog_size_def Let_def)
qed

interpretation outbox_drain: draining
  "\<lambda>ob. outbox_ok parse ob \<and> accepts_some reply" backlog_size "exchange_step parse reply"
  for parse reply
  by unfold_locales (auto simp: exchange_step_ok exchange_progress(2) exchange_idle)

section \<open>Properties\<close>

lemma run_abs:
  assumes "\<And>d. parse (canon (PDict d)) \<noteq> None" "ob = outbox_run canon parse sha256 ops"
  shows "outbox_ok parse ob"
  using outbox_run_ok[of parse canon sha256 ops] assms by simp

text \<open>
  C16: The outbox implements the queue. In every reachable outbox, crashes included, a successful append
  puts the receipt into the queue once per event id, an acknowledgement removes exactly the prefix the
  queue's contract removes and is refused (leaving the outbox alone) exactly where the contract refuses
  it, and the pending receipts are the front of the queue.\<close>

theorem outbox_refines_fifo:
  assumes "\<And>d. parse (canon (PDict d)) \<noteq> None"
    and "ob = outbox_run canon parse sha256 ops"
  shows "(\<forall>now a ev ob'. append_receipt canon parse sha256 now a ob = (Inr ev, ob') \<longrightarrow>
            (\<exists>digest stored. check_receipt canon sha256 a = Inr (digest, stored) \<and>
               abs_outbox ob' = fifo_put
                 (receipt_for 0 a (case ra_occurred_at a of None \<Rightarrow> now | Some t \<Rightarrow> t) digest
                    (map_option (\<lambda>d. canon (PDict d)) stored)) (abs_outbox ob))) \<and>
         (\<forall>k. case fifo_accept k (abs_outbox ob) of
                None \<Rightarrow> (\<exists>e. acknowledge k ob = (Inl e, ob))
              | Some q \<Rightarrow> (\<exists>ob'. acknowledge k ob = (Inr (), ob') \<and> abs_outbox ob' = q)) \<and>
         (\<forall>n. 0 < n \<and> n \<le> 200 \<longrightarrow>
            (\<exists>evs. pending parse n ob = Inr evs \<and>
               receipts_of parse (fifo_peek (nat n) (abs_outbox ob)) = Inr evs))"
proof (intro conjI allI impI)
  note ok = run_abs[OF assms]
  fix now a ev ob'
  assume app: "append_receipt canon parse sha256 now a ob = (Inr ev, ob')"
  show "\<exists>digest stored. check_receipt canon sha256 a = Inr (digest, stored) \<and>
               abs_outbox ob' = fifo_put
                 (receipt_for 0 a (case ra_occurred_at a of None \<Rightarrow> now | Some t \<Rightarrow> t) digest
                    (map_option (\<lambda>d. canon (PDict d)) stored)) (abs_outbox ob)"
  proof (cases "check_receipt canon sha256 a")
    case (Inl e)
    then show ?thesis using app by (simp add: append_receipt_def)
  next
    case (Inr ds)
    then show ?thesis using append_abs[OF ok assms(1) app] by (cases ds) auto
  qed
next
  show "case fifo_accept k (abs_outbox ob) of None \<Rightarrow> (\<exists>e. acknowledge k ob = (Inl e, ob))
        | Some q \<Rightarrow> (\<exists>ob'. acknowledge k ob = (Inr (), ob') \<and> abs_outbox ob' = q)" for k
    by (rule acknowledge_abs[OF run_abs[OF assms]])
next
  show "\<exists>evs. pending parse n ob = Inr evs \<and> receipts_of parse (fifo_peek (nat n) (abs_outbox ob)) = Inr evs"
    if "0 < n \<and> n \<le> 200" for n
    using pending_abs[OF run_abs[OF assms], of n] that by blast
qed

definition sample_receipt :: "string \<Rightarrow> receipt_args" where
  "sample_receipt i = \<lparr>ra_event_id = i, ra_event_type = ''action.done'', ra_action_id = None,
     ra_status = None, ra_result = Some [(''size'', PInt 3)], ra_result_digest = None,
     ra_retain_result = True, ra_error_code = None, ra_summary = None, ra_occurred_at = Some 7\<rparr>"

definition outbox_canon :: "pyval \<Rightarrow> string" where
  "outbox_canon v = ''{}''"

definition outbox_parse :: "string \<Rightarrow> pyval option" where
  "outbox_parse t = Some (PDict [(''size'', PInt 3)])"

definition sample_sha :: "string \<Rightarrow> string" where
  "sample_sha t = replicate 64 (CHR ''a'')"

definition sample_outbox :: outbox where
  "sample_outbox = outbox_run outbox_canon outbox_parse sample_sha
     [AppendReceipt 1 (sample_receipt ''a''), AppendReceipt 2 (sample_receipt ''b''), CrashedAcknowledge 1]"

lemma outbox_check:
  "check_receipt outbox_canon sample_sha (sample_receipt ''a'')
     = Inr (Some (replicate 64 (CHR ''a'')), Some [(''size'', PInt 3)])"
  "check_receipt outbox_canon sample_sha (sample_receipt ''b'')
     = Inr (Some (replicate 64 (CHR ''a'')), Some [(''size'', PInt 3)])"
  by (simp_all add: check_receipt_def sample_receipt_def safe_identifier_def is_control_def
      safe_optional_def guard_else_def outbox_canon_def digest_payload_def sample_sha_def is_hex64_def
      list_all_iff)

lemma sample_outbox_eval:
  "sample_outbox = \<lparr>ox_rows =
     [receipt_for 1 (sample_receipt ''a'') 7 (Some (replicate 64 (CHR ''a''))) (Some ''{}''),
      receipt_for 2 (sample_receipt ''b'') 7 (Some (replicate 64 (CHR ''a''))) (Some ''{}'')],
     ox_seq = 2, ox_acked = Some 1\<rparr>"
  by (simp add: sample_outbox_def outbox_run_def new_outbox_def open_outbox_def append_receipt_def
      outbox_check Let_def receipt_for_def ack_checks_def acked_through_def max_sequence_def guard_else_def
      ack_seal_def, simp add: sample_receipt_def outbox_canon_def)

lemma outbox_refines_fifo_witness:
  "(\<exists>ob'. acknowledge 2 sample_outbox = (Inr (), ob') \<and> fq_queue (abs_outbox ob') = []) \<and>
   (\<exists>e. acknowledge 0 sample_outbox = (Inl e, sample_outbox))"
proof -
  have q: "abs_outbox sample_outbox = \<lparr>fq_known = [''a'', ''b''], fq_queue =
     [receipt_for 2 (sample_receipt ''b'') 7 (Some (replicate 64 (CHR ''a''))) (Some ''{}'')]\<rparr>"
    by (simp add: abs_outbox_def sample_outbox_eval the_seal_def rows_after_def, simp add: sample_receipt_def)
  have all: "\<forall>k. case fifo_accept k (abs_outbox sample_outbox) of
                None \<Rightarrow> (\<exists>e. acknowledge k sample_outbox = (Inl e, sample_outbox))
              | Some q \<Rightarrow> (\<exists>ob'. acknowledge k sample_outbox = (Inr (), ob') \<and> abs_outbox ob' = q)"
    using outbox_refines_fifo[of outbox_parse outbox_canon sample_outbox sample_sha, OF _ sample_outbox_def]
    by (simp add: outbox_parse_def)
  from all[rule_format, of 2] all[rule_format, of 0] show ?thesis
    by (auto simp: q fifo_accept_def Let_def)
qed

text \<open>
  C17: The outbox drains. If every exchange gets through and the control plane accepts at least the first
  receipt it is sent and none it was not, then as many exchanges as there are unacknowledged receipts
  empty the outbox, and the receipts pending after them are none.\<close>

theorem outbox_drains:
  assumes "\<And>d. parse (canon (PDict d)) \<noteq> None"
    and "ob = outbox_run canon parse sha256 ops"
    and "accepts_some reply"
    and "backlog_size ob \<le> n"
  shows "pending parse 200 ((exchange_step parse reply ^^ n) ob) = Inr []"
proof -
  note ok = run_abs[OF assms(1,2)]
  let ?ob = "(exchange_step parse reply ^^ n) ob"
  have "backlog_size ?ob = 0" "outbox_ok parse ?ob"
    using outbox_drain.drains[of parse ob reply n] outbox_drain.inv_steps[of parse ob reply n] ok assms(3,4)
    by blast+
  then show ?thesis using pending_abs[of parse ?ob 200] by (auto simp: backlog_size_def fifo_peek_def)
qed

definition take_first :: "receipt_event list \<Rightarrow> int" where
  "take_first evs = re_sequence (hd evs)"

lemma sample_reply: "accepts_some take_first"
proof -
  have "re_sequence (hd evs) \<le> re_sequence (List.last evs)"
    if "evs \<noteq> []" "sorted (map re_sequence evs)" for evs :: "receipt_event list"
    using that by (cases evs) auto
  then show ?thesis by (simp add: accepts_some_def take_first_def)
qed

lemma outbox_drains_witness:
  "pending outbox_parse 200 ((exchange_step outbox_parse take_first ^^ 1) sample_outbox) = Inr []"
  by (rule outbox_drains[OF _ sample_outbox_def sample_reply])
    (simp_all add: outbox_parse_def backlog_size_def abs_outbox_def sample_outbox_eval the_seal_def rows_after_def)

text \<open>
  Retained file results do not outlive their acknowledgement. After every successful acknowledgement,
  in any outbox whatever, no receipt up to the acknowledged number holds a result; and in an outbox that
  never died inside an acknowledgement none up to the seal does, at any time.\<close>

theorem acked_results_are_erased:
  assumes "\<And>d. parse (canon (PDict d)) \<noteq> None"
    and "\<And>k. CrashedAcknowledge k \<notin> set ops"
  shows "(\<forall>k ob ob'. acknowledge k ob = (Inr (), ob') \<longrightarrow>
            (\<forall>r \<in> set (ox_rows ob'). re_sequence r \<le> k \<longrightarrow> re_result r = None)) \<and>
         (\<forall>r \<in> set (ox_rows (outbox_run canon parse sha256 ops)).
            re_sequence r \<le> the_seal (outbox_run canon parse sha256 ops) \<longrightarrow> re_result r = None)"
proof -
  let ?erased = "\<lambda>ob. \<forall>r \<in> set (ox_rows ob). re_sequence r \<le> the_seal ob \<longrightarrow> re_result r = None"
  have ack: "acknowledge k ob = (Inr (), ob') \<Longrightarrow>
      \<forall>r \<in> set (ox_rows ob'). re_sequence r \<le> k \<longrightarrow> re_result r = None" for k ob ob'
    by (auto simp: acknowledge_def ack_erase_def split: sum.splits)
  have step: "?erased (outbox_exec canon parse sha256 op ob)"
    if ok: "outbox_ok parse ob" and e: "?erased ob" and op: "\<And>k. op \<noteq> CrashedAcknowledge k" for op ob
  proof (cases op)
    case (AppendReceipt now a)
    show ?thesis
    proof (cases rule: append_receipt_cases[of canon parse sha256 now a ob])
      case (fresh digest stored t)
      define row where "row = receipt_for (ox_seq ob + 1) a t digest (map_option (\<lambda>d. canon (PDict d)) stored)"
      have x: "outbox_exec canon parse sha256 op ob = ob\<lparr>ox_rows := ox_rows ob @ [row], ox_seq := ox_seq ob + 1\<rparr>"
        using fresh(4) AppendReceipt by (simp add: row_def)
      have "the_seal (ob\<lparr>ox_rows := ox_rows ob @ [row], ox_seq := ox_seq ob + 1\<rparr>) = the_seal ob"
        by (simp add: the_seal_def)
      moreover have "re_sequence row = ox_seq ob + 1" by (simp add: row_def)
      ultimately show ?thesis using e the_seal_ok(3)[OF ok] unfolding x by auto
    qed (use AppendReceipt e in simp_all)
  next
    case (Acknowledge k)
    show ?thesis
    proof (cases "ack_checks k ob")
      case (Inr u)
      then have a: "acknowledge k ob = (Inr (), ack_erase k (ack_seal k ob))" by (simp add: acknowledge_def)
      have "the_seal (ack_erase k (ack_seal k ob)) = k" using ok by (auto simp: outbox_ok_def the_seal_def)
      then show ?thesis using ack[OF a] a Acknowledge by simp
    qed (use Acknowledge e in \<open>simp add: acknowledge_def\<close>)
  qed (use e op outbox_ok_open[OF ok] in simp_all)
  have gen: "outbox_ok parse ob \<Longrightarrow> ?erased ob \<Longrightarrow> (\<And>k. CrashedAcknowledge k \<notin> set xs) \<Longrightarrow>
      ?erased (fold (outbox_exec canon parse sha256) xs ob)" for xs ob
  proof (induction xs arbitrary: ob)
    case (Cons x xs)
    have "x \<noteq> CrashedAcknowledge k" for k using Cons.prems(3)[of k] by auto
    then show ?case
      using Cons.IH[OF outbox_ok_exec[of parse ob canon sha256 x, OF Cons.prems(1) assms(1)]
          step[OF Cons.prems(1,2)]] Cons.prems(3) by simp
  qed simp
  have e0: "?erased new_outbox" by (simp add: new_outbox_def open_outbox_def)
  have "?erased (outbox_run canon parse sha256 ops)"
    unfolding outbox_run_def by (rule gen[OF outbox_ok_new e0 assms(2)])
  then show ?thesis using ack by blast
qed

definition sample_acked_outbox :: outbox where
  "sample_acked_outbox = outbox_run outbox_canon outbox_parse sample_sha
     [AppendReceipt 1 (sample_receipt ''a''), Acknowledge 1]"

lemma sample_acked_eval:
  "sample_acked_outbox = \<lparr>ox_rows =
     [receipt_for 1 (sample_receipt ''a'') 7 (Some (replicate 64 (CHR ''a''))) None], ox_seq = 1, ox_acked = Some 1\<rparr>"
  by (simp add: sample_acked_outbox_def outbox_run_def new_outbox_def open_outbox_def append_receipt_def
      outbox_check Let_def receipt_for_def acknowledge_def ack_checks_def acked_through_def max_sequence_def
      guard_else_def ack_seal_def ack_erase_def, simp add: sample_receipt_def)

lemma sample_acked:
  "map re_sequence (ox_rows sample_acked_outbox) = [1]" "the_seal sample_acked_outbox = 1"
  by (simp_all add: sample_acked_eval receipt_for_def the_seal_def)

lemma acked_results_are_erased_witness:
  "map re_result (ox_rows sample_acked_outbox) = [None]"
proof -
  have "\<forall>r \<in> set (ox_rows sample_acked_outbox). re_sequence r \<le> 1 \<longrightarrow> re_result r = None"
    by (rule acked_results_are_erased[THEN conjunct2, of outbox_parse outbox_canon
          "[AppendReceipt 1 (sample_receipt ''a''), Acknowledge 1]" sample_sha,
          folded sample_acked_outbox_def, unfolded sample_acked(2)])
      (simp_all add: outbox_parse_def)
  moreover obtain r where "ox_rows sample_acked_outbox = [r]" "re_sequence r = 1"
    using sample_acked(1) by blast
  ultimately show ?thesis by simp
qed

text \<open>
  An acknowledgement never skips evidence: in any table with the primary key SQLite enforces, rows
  missing or not, a successful acknowledgement finds a receipt under every number it passes.\<close>

theorem acknowledge_never_skips:
  assumes "distinct (map re_sequence (ox_rows ob))"
    and "ox_acked ob = Some c"
    and "acknowledge k ob = (Inr (), ob')"
    and "c < n" "n \<le> k"
  shows "n \<in> re_sequence ` set (ox_rows ob)"
proof -
  let ?P = "\<lambda>r. c < re_sequence r \<and> re_sequence r \<le> k"
  let ?rows = "filter ?P (ox_rows ob)"
  have "ack_checks k ob = Inr ()" using assms(3) by (simp add: acknowledge_def split: sum.splits)
  then have len: "int (length ?rows) = k - c"
    using assms(2) by (auto simp: ack_checks_def acked_through_def)
  have "distinct (map re_sequence ?rows)" using assms(1) by (simp add: distinct_map_filter)
  then have "card (re_sequence ` set ?rows) = length ?rows"
    using distinct_card[of "map re_sequence ?rows"] by (simp only: set_map length_map)
  moreover have "re_sequence ` set ?rows \<subseteq> {c<..k}" by auto
  ultimately have "re_sequence ` set ?rows = {c<..k}"
    using len assms(4,5) by (intro card_subset_eq) auto
  then have "n \<in> re_sequence ` set ?rows" using assms(4,5) by simp
  then show ?thesis by auto
qed

lemma acknowledge_never_skips_witness:
  "2 \<in> re_sequence ` set (ox_rows sample_outbox)"
  by (rule acknowledge_never_skips[where c = 1 and k = 2 and ob' = "snd (acknowledge 2 sample_outbox)"])
    (simp add: sample_outbox_eval,
     simp add: sample_outbox_eval,
     simp add: sample_outbox_eval acknowledge_def ack_checks_def acked_through_def max_sequence_def guard_else_def,
     simp, simp)

lemma check_receipt_fresh_row:
  assumes app: "append_receipt canon parse sha256 now a ob = (Inr ev, ob')"
  obtains row digest stored where
    "check_receipt canon sha256 a = Inr (digest, stored)"
    "find (\<lambda>r. re_event_id r = ra_event_id a) (ox_rows ob') = Some row"
    "re_sequence row = re_sequence ev"
    "(\<exists>t. row = receipt_for (re_sequence ev) a t digest (map_option (\<lambda>d. canon (PDict d)) stored)) \<or>
     (receipt_of parse row = Inr ev \<and>
      (\<exists>t. same_receipt ev (receipt_for (re_sequence ev) a t digest (map_option PDict stored))))"
proof (cases rule: append_receipt_cases[of canon parse sha256 now a ob])
  case (refused e)
  then show ?thesis using app by simp
next
  case (known row ev')
  obtain digest stored where chk: "check_receipt canon sha256 a = Inr (digest, stored)"
    using known(1) by (auto simp: append_receipt_def split: sum.splits)
  have "same_receipt ev' (receipt_for (re_sequence ev') a
      (case ra_occurred_at a of None \<Rightarrow> now | Some t \<Rightarrow> t) digest (map_option PDict stored))"
    using known chk by (auto simp: append_receipt_def Let_def split: if_splits)
  then show ?thesis using known app receipt_of_fields[OF known(3)] by (intro that[OF chk, of row]) auto
next
  case (fresh digest stored t)
  have "find (\<lambda>r. re_event_id r = ra_event_id a) (ox_rows ob) = None"
    using fresh(3) unfolding find_None_iff by (metis imageI)
  moreover have "find P xs = None \<Longrightarrow> find P (xs @ [x]) = (if P x then Some x else None)"
    for P xs and x :: receipt_row by (induction xs) (auto split: if_splits)
  ultimately show ?thesis using fresh(1,4) app by (intro that) auto
qed

text \<open>
  Appending is idempotent before the acknowledgement: the same call again, at whatever time, returns a
  receipt with the same number and leaves the outbox as it is, if \<open>json.loads\<close> reads a retained result
  back as the value it was.\<close>

theorem append_retry_is_idempotent:
  assumes "append_receipt canon parse sha256 now a ob = (Inr ev, ob')"
    and "\<And>d. ra_result a = Some d \<Longrightarrow> \<exists>w. parse (canon (PDict d)) = Some w \<and> py_eq w (PDict d)"
  shows "\<exists>ev'. append_receipt canon parse sha256 now' a ob' = (Inr ev', ob') \<and> re_sequence ev' = re_sequence ev"
proof -
  obtain row digest stored where r: "check_receipt canon sha256 a = Inr (digest, stored)"
      "find (\<lambda>r. re_event_id r = ra_event_id a) (ox_rows ob') = Some row" "re_sequence row = re_sequence ev"
      "(\<exists>t. row = receipt_for (re_sequence ev) a t digest (map_option (\<lambda>d. canon (PDict d)) stored)) \<or>
       (receipt_of parse row = Inr ev \<and>
        (\<exists>t. same_receipt ev (receipt_for (re_sequence ev) a t digest (map_option PDict stored))))"
    by (rule check_receipt_fresh_row[OF assms(1)])
  have "stored = None \<or> stored = ra_result a"
    using r(1) by (cases "ra_result a") (auto simp: check_receipt_def result_bind_Inr split: if_splits)
  then have stored_back: "stored = Some d \<Longrightarrow> \<exists>w. parse (canon (PDict d)) = Some w \<and> py_eq w (PDict d)" for d
    using assms(2) by auto
  have "\<exists>ev'. receipt_of parse row = Inr ev' \<and> re_sequence ev' = re_sequence ev \<and>
      (\<forall>t. same_receipt ev' (receipt_for (re_sequence ev) a t digest (map_option PDict stored)))"
    using r(4)
  proof (elim disjE exE conjE)
    fix t assume row: "row = receipt_for (re_sequence ev) a t digest (map_option (\<lambda>d. canon (PDict d)) stored)"
    show ?thesis
    proof (cases stored)
      case None
      then show ?thesis using row
        by (intro exI[of _ "with_result None row"])
          (simp add: receipt_of_def same_receipt_def with_result_def receipt_for_def)
    next
      case (Some d)
      with stored_back obtain w where "parse (canon (PDict d)) = Some w" "py_eq w (PDict d)" by blast
      then show ?thesis using row Some
        by (intro exI[of _ "with_result (Some w) row"])
          (simp add: receipt_of_def same_receipt_def with_result_def receipt_for_def)
    qed
  next
    fix t assume "receipt_of parse row = Inr ev"
      "same_receipt ev (receipt_for (re_sequence ev) a t digest (map_option PDict stored))"
    then show ?thesis by (intro exI[of _ ev]) (simp add: same_receipt_def receipt_for_def)
  qed
  then obtain ev' where "receipt_of parse row = Inr ev'" "re_sequence ev' = re_sequence ev"
      "\<And>t. same_receipt ev' (receipt_for (re_sequence ev') a t digest (map_option PDict stored))" by auto
  then show ?thesis using r(1,2) by (auto simp: append_receipt_def Let_def)
qed

lemma append_retry_is_idempotent_witness:
  "\<exists>ev'. append_receipt outbox_canon outbox_parse sample_sha 9 (sample_receipt ''a'')
      (snd (append_receipt outbox_canon outbox_parse sample_sha 1 (sample_receipt ''a'') new_outbox))
      = (Inr ev', snd (append_receipt outbox_canon outbox_parse sample_sha 1 (sample_receipt ''a'') new_outbox)) \<and>
     re_sequence ev' = 1"
proof -
  have a: "append_receipt outbox_canon outbox_parse sample_sha 1 (sample_receipt ''a'') new_outbox =
      (Inr (receipt_for 1 (sample_receipt ''a'') 7 (Some (replicate 64 (CHR ''a''))) (Some (PDict [(''size'', PInt 3)]))),
       snd (append_receipt outbox_canon outbox_parse sample_sha 1 (sample_receipt ''a'') new_outbox))"
    by (simp add: append_receipt_def outbox_check new_outbox_def open_outbox_def Let_def, simp add: sample_receipt_def)
  show ?thesis
    using append_retry_is_idempotent[OF a, of 9]
    by (simp add: sample_receipt_def outbox_parse_def py_eq.simps)
qed

text \<open>
  A retry of an append whose result was retained fails once the receipt is acknowledged: the stored
  result was erased, so the same call is taken for a reuse of the event id with different data.\<close>

theorem retry_after_ack_conflicts:
  assumes "append_receipt canon parse sha256 now a ob = (Inr ev, ob1)"
    and "check_receipt canon sha256 a = Inr (digest, Some d)"
    and "acknowledge k ob1 = (Inr (), ob2)"
    and "re_sequence ev \<le> k"
  shows "append_receipt canon parse sha256 now' a ob2
    = (Inl (OutboxError ''receipt event id was reused with different data''), ob2)"
proof -
  obtain row where row: "find (\<lambda>r. re_event_id r = ra_event_id a) (ox_rows ob1) = Some row"
      "re_sequence row = re_sequence ev"
    by (rule check_receipt_fresh_row[OF assms(1)]) blast
  let ?f = "\<lambda>r. if re_sequence r \<le> k then r\<lparr>re_result := None\<rparr> else (r :: receipt_row)"
  have rows: "ox_rows ob2 = map ?f (ox_rows ob1)"
    using assms(3) by (auto simp: acknowledge_def ack_erase_def ack_seal_def split: sum.splits)
  have "find (\<lambda>r. re_event_id r = i) (map ?f rs) = map_option ?f (find (\<lambda>r. re_event_id r = i) rs)" for i rs
    by (induction rs) auto
  then have "find (\<lambda>r. re_event_id r = ra_event_id a) (ox_rows ob2) = Some (row\<lparr>re_result := None\<rparr>)"
    using rows row assms(4) by simp
  then show ?thesis using assms(2)
    by (simp add: append_receipt_def Let_def receipt_of_def same_receipt_def)
qed

lemma retry_after_ack_conflicts_witness:
  "append_receipt outbox_canon outbox_parse sample_sha 9 (sample_receipt ''b'') (snd (acknowledge 2
      (snd (append_receipt outbox_canon outbox_parse sample_sha 1 (sample_receipt ''b'') sample_outbox))))
    = (Inl (OutboxError ''receipt event id was reused with different data''),
       snd (acknowledge 2 (snd (append_receipt outbox_canon outbox_parse sample_sha 1 (sample_receipt ''b'') sample_outbox))))"
proof (rule retry_after_ack_conflicts)
  let ?a = "append_receipt outbox_canon outbox_parse sample_sha 1 (sample_receipt ''b'') sample_outbox"
  have a: "?a = (Inr (receipt_for 2 (sample_receipt ''b'') 7 (Some (replicate 64 (CHR ''a'')))
      (Some (PDict [(''size'', PInt 3)]))), sample_outbox)"
    by (simp add: append_receipt_def outbox_check sample_outbox_eval Let_def receipt_of_def outbox_parse_def
        same_receipt_def with_result_def receipt_for_def, simp add: sample_receipt_def py_eq.simps)
  show "?a = (Inr (receipt_for 2 (sample_receipt ''b'') 7 (Some (replicate 64 (CHR ''a'')))
      (Some (PDict [(''size'', PInt 3)]))), snd ?a)" by (simp add: a)
  show "acknowledge 2 (snd ?a) = (Inr (), snd (acknowledge 2 (snd ?a)))"
    by (simp add: a, simp add: sample_outbox_eval acknowledge_def ack_checks_def acked_through_def
        max_sequence_def guard_else_def)
qed (simp_all add: outbox_check)

end
