(* ===== verification/Drain.thy ===== *)
theory Drain
  imports Gw_Prelude
begin

text \<open>
  Graceful shutdown (\<open>src/packages/ai-gateway-core/src/ai_gateway_core/proxy/drain.py\<close>): the state of
  \<open>DrainState\<close>, its middleware and the signal handlers. The critical sections under the lock contain no
  suspension point, so entering and leaving are single steps; what other requests do while one is being
  served is the state transformer \<open>call\<close> of \<open>drain_dispatch\<close>, and the event sequences below give every
  interleaving.
\<close>

record drain_state =
  dr_draining :: bool
  dr_inflight :: int
  dr_zero :: bool

definition new_drain :: drain_state where
  "new_drain = \<lparr>dr_draining = False, dr_inflight = 0, dr_zero = True\<rparr>"

text \<open>An outcome of the application: an answer, an \<open>HTTPException\<close> with status, detail and headers,
  another exception, or the JSON response the middleware makes of a 503.\<close>

datatype http_exception = HTTPException int string "(string, string) py_dict"

datatype 'r app_outcome =
    Answer 'r
  | JSONResponse int string "(string, string) py_dict"
  | HttpError http_exception
  | Raised string

definition drain_enter :: "drain_state \<Rightarrow> http_exception option \<times> drain_state" where
  "drain_enter st =
     (if dr_draining st then (Some (HTTPException 503 ''shutting down'' [(''Retry-After'', ''5'')]), st)
      else (None, st\<lparr>dr_inflight := dr_inflight st + 1, dr_zero := False\<rparr>))"

definition drain_exit :: "drain_state \<Rightarrow> drain_state" where
  "drain_exit st =
     (let n = dr_inflight st - 1
      in if n \<le> 0 then st\<lparr>dr_inflight := 0, dr_zero := True\<rparr> else st\<lparr>dr_inflight := n\<rparr>)"

definition begin_drain :: "drain_state \<Rightarrow> drain_state" where
  "begin_drain st = (if dr_draining st then st else st\<lparr>dr_draining := True\<rparr>)"

text \<open>\<open>wait_drained\<close>: the states of the event at the moments the waiter looks, until the deadline.\<close>

definition wait_drained :: "drain_state list \<Rightarrow> bool" where
  "wait_drained seen = list_ex dr_zero seen"

definition default_exclude_paths :: "string list" where
  "default_exclude_paths = [''/health'', ''/health/live'', ''/health/ready'', ''/metrics'']"

fun render_error :: "'r app_outcome \<Rightarrow> 'r app_outcome" where
  "render_error (HttpError (HTTPException status detail headers)) =
     (if status = 503 then JSONResponse 503 (or_str detail ''shutting down'')
        (if headers = [] then [(''Retry-After'', ''5'')] else headers)
      else HttpError (HTTPException status detail headers))"
| "render_error out = out"

definition drain_dispatch ::
  "string list \<Rightarrow> string \<Rightarrow> (drain_state \<Rightarrow> 'r app_outcome \<times> drain_state) \<Rightarrow> drain_state
     \<Rightarrow> 'r app_outcome \<times> drain_state" where
  "drain_dispatch exclude path call st =
     (if path \<in> set exclude then call st
      else (case drain_enter st of
              (Some exc, st1) \<Rightarrow> (render_error (HttpError exc), st1)
            | (None, st1) \<Rightarrow> (case call st1 of (out, st2) \<Rightarrow> (render_error out, drain_exit st2))))"

text \<open>Signal handlers: the previous one is called after the flag is set, unless it is not callable.\<close>

datatype 'w signal_handler = Callable "'w \<Rightarrow> 'w" | Ignored | DefaultAction | OnSignal "'w signal_handler"

fun run_handler :: "'w signal_handler \<Rightarrow> drain_state \<times> 'w \<Rightarrow> drain_state \<times> 'w" where
  "run_handler (Callable f) (st, w) = (st, f w)"
| "run_handler (OnSignal previous) (st, w) = run_handler previous (begin_drain st, w)"
| "run_handler _ (st, w) = (st, w)"

datatype signal_name = SIGTERM | SIGINT

text \<open>\<open>settable\<close> tells whether \<open>signal.signal\<close> accepts a handler for the signal.\<close>

definition install_signal_handlers ::
  "bool \<Rightarrow> (signal_name \<Rightarrow> bool) \<Rightarrow> (signal_name \<Rightarrow> 'w signal_handler) \<Rightarrow> signal_name \<Rightarrow> 'w signal_handler" where
  "install_signal_handlers win32 settable handlers =
     (\<lambda>sig. if \<not> win32 \<and> settable sig then OnSignal (handlers sig) else handlers sig)"

section \<open>Interleavings\<close>

datatype drain_event = Arrive string string | Leave string | Signal

fun drain_step :: "string list \<Rightarrow> drain_event \<Rightarrow> drain_state \<times> string list \<Rightarrow> drain_state \<times> string list" where
  "drain_step exclude (Arrive rid path) (st, inside) =
     (if path \<in> set exclude then (st, inside)
      else (case drain_enter st of (Some _, st1) \<Rightarrow> (st1, inside) | (None, st1) \<Rightarrow> (st1, rid # inside)))"
| "drain_step exclude (Leave rid) (st, inside) =
     (if rid \<in> set inside then (drain_exit st, remove1 rid inside) else (st, inside))"
| "drain_step exclude Signal (st, inside) = (begin_drain st, inside)"

definition drain_inv :: "drain_state \<times> string list \<Rightarrow> bool" where
  "drain_inv s \<longleftrightarrow> dr_inflight (fst s) = int (length (snd s)) \<and> (dr_zero (fst s) \<longleftrightarrow> snd s = [])"

lemma exit_count:
  assumes "rid \<in> set inside" and "dr_inflight st = int (length inside)"
  shows "dr_inflight (drain_exit st) = int (length (remove1 rid inside)) \<and>
    (dr_zero (drain_exit st) \<longleftrightarrow> remove1 rid inside = [] \<or> (1 < length inside \<and> dr_zero st))"
proof -
  have "length (remove1 rid inside) = length inside - 1" using assms(1) by (simp add: length_remove1)
  then show ?thesis
    using assms by (cases "length inside"; cases "remove1 rid inside") (auto simp: drain_exit_def Let_def)
qed

lemma drain_step_inv: "drain_inv s \<Longrightarrow> drain_inv (drain_step exclude ev s)"
proof (cases s)
  case (Pair st inside)
  assume "drain_inv s"
  then show ?thesis
  proof (cases ev)
    case (Leave rid)
    show ?thesis using \<open>drain_inv s\<close>
    proof (cases "rid \<in> set inside")
      case True
      then show ?thesis
        using \<open>drain_inv s\<close> True
        using \<open>drain_inv s\<close> True exit_count[of rid inside st] by (auto simp: drain_inv_def Pair Leave)
    qed (simp add: Pair Leave)
  qed (auto simp: drain_inv_def Pair drain_enter_def begin_drain_def)
qed

lemma drain_run_inv: "drain_inv s \<Longrightarrow> drain_inv (fold (drain_step exclude) evs s)"
  by (induction evs arbitrary: s) (simp_all add: drain_step_inv)

lemma drain_step_shrinks:
  "dr_draining (fst s) \<Longrightarrow> dr_draining (fst (drain_step exclude ev s)) \<and>
     set (snd (drain_step exclude ev s)) \<subseteq> set (snd s)"
  by (cases s; cases ev)
    (auto simp: drain_enter_def drain_exit_def begin_drain_def Let_def dest: set_mp[OF set_remove1_subset] split: if_splits)

lemma drain_run_shrinks:
  "dr_draining (fst s) \<Longrightarrow> set (snd (fold (drain_step exclude) evs s)) \<subseteq> set (snd s)"
proof (induction evs arbitrary: s)
  case (Cons ev evs)
  from Cons.IH[of "drain_step exclude ev s"] drain_step_shrinks[OF Cons.prems, of exclude ev]
  show ?case by auto
qed simp

section \<open>Properties\<close>

text \<open>
  C13: draining is exact and final. In every interleaving the counter is the number of requests inside and
  the event is set exactly when nobody is; from the first signal on no further request is let in, so that
  a drained service stays drained.
\<close>

theorem drain_is_exact_and_final:
  assumes "s = fold (drain_step exclude) evs (new_drain, [])"
    and "s' = fold (drain_step exclude) evs' (drain_step exclude Signal s)"
  shows "dr_inflight (fst s) = int (length (snd s)) \<and> (dr_zero (fst s) \<longleftrightarrow> snd s = []) \<and>
    set (snd s') \<subseteq> set (snd s) \<and> (dr_zero (fst s) \<longrightarrow> dr_zero (fst s') \<and> dr_inflight (fst s') = 0)"
proof -
  have inv: "drain_inv s" unfolding assms(1) by (rule drain_run_inv) (simp add: drain_inv_def new_drain_def)
  then have inv': "drain_inv s'" unfolding assms(2) by (intro drain_run_inv drain_step_inv)
  have "dr_draining (fst (drain_step exclude Signal s))"
    by (cases s) (simp add: begin_drain_def)
  from drain_run_shrinks[OF this, of exclude evs'] have "set (snd s') \<subseteq> set (snd s)"
    unfolding assms(2) by (cases s) simp
  then show ?thesis using inv inv' by (auto simp: drain_inv_def)
qed

theorem drain_is_exact_and_final_witness:
  "let s' = fold (drain_step default_exclude_paths) [Arrive ''r2'' ''/v1/chat'', Leave ''r1'']
             (drain_step default_exclude_paths Signal
               (fold (drain_step default_exclude_paths) [Arrive ''r1'' ''/v1/chat'', Arrive ''p'' ''/health''] (new_drain, [])))
   in set (snd s') \<subseteq> {''r1''} \<and> dr_zero (fst s')"
proof -
  have "snd (fold (drain_step default_exclude_paths) [Arrive ''r1'' ''/v1/chat'', Arrive ''p'' ''/health''] (new_drain, [])) = [''r1'']"
    by code_simp
  with drain_is_exact_and_final[OF refl refl, of default_exclude_paths
      "[Arrive ''r1'' ''/v1/chat'', Arrive ''p'' ''/health'']" "[Arrive ''r2'' ''/v1/chat'', Leave ''r1'']"]
  have "set (snd (fold (drain_step default_exclude_paths) [Arrive ''r2'' ''/v1/chat'', Leave ''r1'']
             (drain_step default_exclude_paths Signal
               (fold (drain_step default_exclude_paths) [Arrive ''r1'' ''/v1/chat'', Arrive ''p'' ''/health''] (new_drain, [])))))
      \<subseteq> {''r1''}"
    by (simp only: list.set)
  moreover have "dr_zero (fst (fold (drain_step default_exclude_paths) [Arrive ''r2'' ''/v1/chat'', Leave ''r1'']
             (drain_step default_exclude_paths Signal
               (fold (drain_step default_exclude_paths) [Arrive ''r1'' ''/v1/chat'', Arrive ''p'' ''/health''] (new_drain, [])))))"
    by code_simp
  ultimately show ?thesis by (simp only: Let_def)
qed

end
