(* ===== verification/Access_Control.thy ===== *)
theory Access_Control
  imports Py_Value
begin

text \<open>
  Roles, permissions and capabilities of the gateway: the permission matcher of
  \<open>src/src/core/auth/rbac.py\<close> and the capability layer over it, \<open>src/src/core/auth/permissions.py\<close>. A
  permission is a colon-separated code such as \<open>console:services:edit\<close>, and \<open>console:*\<close> stands for
  everything below \<open>console\<close>. Sets of permissions are lists here, of which only membership is used.
\<close>

section \<open>The permission matcher\<close>

text \<open>The wildcards the loop tries, the longest first: the segments before the cut, then \<open>:*\<close>.\<close>

definition wildcards_of :: "string \<Rightarrow> string list" where
  "wildcards_of permission =
     (let parts = split_on (CHR '':'') permission
      in map (\<lambda>i. join_with '':'' (take i parts) @ '':*'') (rev [1..<length parts]))"

definition matches_permission :: "string list \<Rightarrow> string \<Rightarrow> bool" where
  "matches_permission permissions permission =
     (if ''admin:*'' \<in> set permissions then True
      else if permission \<in> set permissions then True
      else list_ex (\<lambda>w. w \<in> set permissions) (wildcards_of permission))"

type_synonym role_table = "(string, string list) py_dict"

definition permissions_for_roles :: "role_table \<Rightarrow> string list \<Rightarrow> string list" where
  "permissions_for_roles table roles =
     concat (map (\<lambda>role. case dict_get table role of None \<Rightarrow> [] | Some ps \<Rightarrow> ps) roles)"

definition has_permission :: "role_table \<Rightarrow> string list \<Rightarrow> string \<Rightarrow> bool" where
  "has_permission table roles permission =
     (if matches_permission roles permission then True
      else matches_permission (permissions_for_roles table roles) permission)"

datatype access_error = PermissionDeniedError string

definition rbac_require :: "role_table \<Rightarrow> string list \<Rightarrow> string \<Rightarrow> access_error + unit" where
  "rbac_require table roles permission =
     guard_else (has_permission table roles permission)
       (PermissionDeniedError (''Missing permission: '' @ permission)) (Inr ())"

section \<open>Capabilities\<close>

datatype capability =
    AgentInvoke | ServiceListRead | ServiceConfigWrite | GatewayMetricsRead | GatewayUsageRead
  | GatewayQuotaRead | GatewayQuotaWrite | GatewayRateLimitWrite | GatewayProviderConfigRead
  | GatewayProviderConfigWrite | GatewaySkillRead | GatewaySkillWrite | GatewayMcpRead | GatewayMcpWrite
  | GatewayModelConfigWrite | GatewayServiceConfigWrite | GatewayEvalTraceRead | GatewayEvalRun
  | GatewayConnectorConfigRead | GatewayConnectorConfigWrite

fun capability_value :: "capability \<Rightarrow> string" where
  "capability_value AgentInvoke = ''AgentInvoke''"
| "capability_value ServiceListRead = ''ServiceListRead''"
| "capability_value ServiceConfigWrite = ''ServiceConfigWrite''"
| "capability_value GatewayMetricsRead = ''GatewayMetricsRead''"
| "capability_value GatewayUsageRead = ''GatewayUsageRead''"
| "capability_value GatewayQuotaRead = ''GatewayQuotaRead''"
| "capability_value GatewayQuotaWrite = ''GatewayQuotaWrite''"
| "capability_value GatewayRateLimitWrite = ''GatewayRateLimitWrite''"
| "capability_value GatewayProviderConfigRead = ''GatewayProviderConfigRead''"
| "capability_value GatewayProviderConfigWrite = ''GatewayProviderConfigWrite''"
| "capability_value GatewaySkillRead = ''GatewaySkillRead''"
| "capability_value GatewaySkillWrite = ''GatewaySkillWrite''"
| "capability_value GatewayMcpRead = ''GatewayMcpRead''"
| "capability_value GatewayMcpWrite = ''GatewayMcpWrite''"
| "capability_value GatewayModelConfigWrite = ''GatewayModelConfigWrite''"
| "capability_value GatewayServiceConfigWrite = ''GatewayServiceConfigWrite''"
| "capability_value GatewayEvalTraceRead = ''GatewayEvalTraceRead''"
| "capability_value GatewayEvalRun = ''GatewayEvalRun''"
| "capability_value GatewayConnectorConfigRead = ''GatewayConnectorConfigRead''"
| "capability_value GatewayConnectorConfigWrite = ''GatewayConnectorConfigWrite''"

fun canonical_permission :: "capability \<Rightarrow> string" where
  "canonical_permission AgentInvoke = ''conversation:playground:access''"
| "canonical_permission ServiceListRead = ''console:services:view''"
| "canonical_permission ServiceConfigWrite = ''console:services:edit''"
| "canonical_permission GatewayMetricsRead = ''console:metrics:view''"
| "canonical_permission GatewayUsageRead = ''console:usage:view''"
| "canonical_permission GatewayQuotaRead = ''console:quota:view''"
| "canonical_permission GatewayQuotaWrite = ''console:quota:edit''"
| "canonical_permission GatewayRateLimitWrite = ''console:rate_limits:edit''"
| "canonical_permission GatewayProviderConfigRead = ''console:providers:view''"
| "canonical_permission GatewayProviderConfigWrite = ''console:providers:edit''"
| "canonical_permission GatewaySkillRead = ''console:skills:view''"
| "canonical_permission GatewaySkillWrite = ''console:skills:edit''"
| "canonical_permission GatewayMcpRead = ''console:mcp:view''"
| "canonical_permission GatewayMcpWrite = ''console:mcp:edit''"
| "canonical_permission GatewayModelConfigWrite = ''console:models:edit''"
| "canonical_permission GatewayServiceConfigWrite = ''console:services:edit''"
| "canonical_permission GatewayEvalTraceRead = ''console:eval:view''"
| "canonical_permission GatewayEvalRun = ''console:eval:run''"
| "canonical_permission GatewayConnectorConfigRead = ''console:settings:view''"
| "canonical_permission GatewayConnectorConfigWrite = ''console:settings:edit''"

fun legacy_aliases :: "capability \<Rightarrow> string list" where
  "legacy_aliases AgentInvoke = [''service:invoke'']"
| "legacy_aliases ServiceListRead = [''service:view'']"
| "legacy_aliases ServiceConfigWrite = [''service:manage'']"
| "legacy_aliases GatewayMetricsRead = [''metrics:view'']"
| "legacy_aliases GatewayUsageRead = [''usage:view'']"
| "legacy_aliases GatewayQuotaRead = [''quota:view'']"
| "legacy_aliases GatewayQuotaWrite = [''quota:manage'']"
| "legacy_aliases GatewayRateLimitWrite = [''rate_limits:manage'']"
| "legacy_aliases GatewayProviderConfigRead =
     [''providers:view'', ''console:providers:edit'', ''providers:manage'']"
| "legacy_aliases GatewayProviderConfigWrite = [''providers:manage'']"
| "legacy_aliases GatewaySkillRead = [''skills:view'', ''console:skills:edit'', ''skills:manage'']"
| "legacy_aliases GatewaySkillWrite = [''skills:manage'']"
| "legacy_aliases GatewayMcpRead = [''mcp:view'', ''console:mcp:edit'', ''mcp:manage'']"
| "legacy_aliases GatewayMcpWrite = [''mcp:manage'']"
| "legacy_aliases GatewayConnectorConfigRead = [''console:settings:edit'']"
| "legacy_aliases GatewayModelConfigWrite = [''models:manage'']"
| "legacy_aliases GatewayServiceConfigWrite = [''service:manage'']"
| "legacy_aliases GatewayEvalTraceRead = []"
| "legacy_aliases GatewayEvalRun = []"
| "legacy_aliases GatewayConnectorConfigWrite = []"

definition accepted_permissions :: "capability \<Rightarrow> string list" where
  "accepted_permissions c = canonical_permission c # legacy_aliases c"

record capability_decision =
  cd_capability :: capability
  cd_required :: string
  cd_accepted :: "string list"
  cd_matched :: "string option"

definition decision_allowed :: "capability_decision \<Rightarrow> bool" where
  "decision_allowed d = (case cd_matched d of None \<Rightarrow> False | Some p \<Rightarrow> p \<noteq> [])"

text \<open>Roles and permissions are strings here (\<open>str(raw or "")\<close> is the identity on them), and \<open>None\<close> for
  the permissions is the empty list.\<close>

definition merge_subjects :: "string list \<Rightarrow> string list \<Rightarrow> string list" where
  "merge_subjects roles permissions =
     dedupe_onto [] (filter (\<lambda>v. v \<noteq> []) (map py_strip (roles @ permissions)))"

definition check_capability ::
  "role_table \<Rightarrow> string list \<Rightarrow> string list \<Rightarrow> capability \<Rightarrow> capability_decision" where
  "check_capability table roles permissions c =
     (let subjects = merge_subjects roles permissions
      in \<lparr>cd_capability = c, cd_required = canonical_permission c, cd_accepted = accepted_permissions c,
          cd_matched = find (has_permission table subjects) (accepted_permissions c)\<rparr>)"

definition require_capability ::
  "role_table \<Rightarrow> string list \<Rightarrow> string list \<Rightarrow> capability \<Rightarrow> access_error + capability_decision" where
  "require_capability table roles permissions c =
     (let decision = check_capability table roles permissions c
      in if decision_allowed decision then Inr decision
         else Inl (PermissionDeniedError
           (''Missing capability '' @ capability_value c @ '': '' @ cd_required decision)))"

definition permission_denied_detail :: "capability \<Rightarrow> string \<Rightarrow> string option \<Rightarrow> (string, pyval) py_dict" where
  "permission_denied_detail c trace_id message =
     [(''message'', PStr (or_str (opt_str message)
          (''Permission denied: '' @ canonical_permission c @ '' required''))),
      (''required_capability'', PStr (capability_value c)),
      (''required_permission'', PStr (canonical_permission c)),
      (''accepted_permissions'', PList (map PStr (accepted_permissions c))),
      (''trace_id'', PStr trace_id)]"

section \<open>What a granted permission covers\<close>

text \<open>The reading of the codes, without segments: a grant covers itself, \<open>admin:*\<close> covers everything,
  and \<open>q:*\<close> covers what begins with \<open>q:\<close>.\<close>

definition covers :: "string \<Rightarrow> string \<Rightarrow> bool" where
  "covers g p \<longleftrightarrow>
     g = ''admin:*'' \<or> g = p \<or> (\<exists>q. g = q @ '':*'' \<and> starts_with p (q @ '':''))"

lemma wildcard_iff:
  "w \<in> set (wildcards_of p) \<longleftrightarrow> (\<exists>q. w = q @ '':*'' \<and> starts_with p (q @ '':''))"
proof
  assume "w \<in> set (wildcards_of p)"
  then obtain i where i: "1 \<le> i" "i < length (split_on (CHR '':'') p)"
    and w: "w = join_with '':'' (take i (split_on (CHR '':'') p)) @ '':*''"
    by (auto simp: wildcards_of_def Let_def)
  have "p = join_with '':'' (take i (split_on (CHR '':'') p) @ drop i (split_on (CHR '':'') p))" by simp
  also have "\<dots> = join_with '':'' (take i (split_on (CHR '':'') p)) @ '':'' @
      join_with '':'' (drop i (split_on (CHR '':'') p))"
    using i by (intro join_with_append) auto
  finally show "\<exists>q. w = q @ '':*'' \<and> starts_with p (q @ '':'')"
    using w by (metis append.assoc starts_with_iff)
next
  assume "\<exists>q. w = q @ '':*'' \<and> starts_with p (q @ '':'')"
  then obtain q r where w: "w = q @ '':*''" and p: "p = q @ CHR '':'' # r"
    by (auto simp: starts_with_iff)
  let ?s = "split_on (CHR '':'') q"
  have s: "split_on (CHR '':'') p = ?s @ split_on (CHR '':'') r" by (simp add: p split_on_append)
  have "length ?s \<in> set (rev [1..<length (split_on (CHR '':'') p)])"
    using s by (simp add: Suc_le_eq)
  moreover have "w = join_with '':'' (take (length ?s) (split_on (CHR '':'') p)) @ '':*''"
    by (simp add: s w)
  ultimately show "w \<in> set (wildcards_of p)" by (auto simp: wildcards_of_def Let_def)
qed

lemma matches_covers: "matches_permission ps p \<longleftrightarrow> (\<exists>g \<in> set ps. covers g p)"
  using wildcard_iff[of _ p] by (auto simp: matches_permission_def covers_def list_ex_iff)

lemma has_permission_covers:
  "has_permission table roles p \<longleftrightarrow>
     (\<exists>g. covers g p \<and> (g \<in> set roles \<or>
        (\<exists>role \<in> set roles. \<exists>ps. dict_get table role = Some ps \<and> g \<in> set ps)))"
proof -
  have "g \<in> set (permissions_for_roles table roles) \<longleftrightarrow>
      (\<exists>role \<in> set roles. \<exists>ps. dict_get table role = Some ps \<and> g \<in> set ps)" for g
    by (force simp: permissions_for_roles_def split: option.splits)
  then show ?thesis by (auto simp: has_permission_def matches_covers)
qed

lemma canonical_nonempty [simp]: "canonical_permission c \<noteq> []"
  by (cases c) simp_all

lemma legacy_nonempty: "p \<in> set (legacy_aliases c) \<Longrightarrow> p \<noteq> []"
  by (cases c) auto

lemma allowed_iff:
  "decision_allowed (check_capability table roles permissions c) \<longleftrightarrow>
     (\<exists>p \<in> set (accepted_permissions c). has_permission table (merge_subjects roles permissions) p)"
proof -
  have "p \<in> set (accepted_permissions c) \<Longrightarrow> p \<noteq> []" for p
    using legacy_nonempty[of p c] canonical_nonempty[of c] unfolding accepted_permissions_def
    by (metis set_ConsD)
  then show ?thesis
    by (auto simp: decision_allowed_def check_capability_def Let_def find_None_iff find_Some_iff
        split: option.splits)
qed

lemma set_merge_subjects:
  "set (merge_subjects roles permissions) = py_strip ` (set roles \<union> set permissions) - {[]}"
  by (auto simp: merge_subjects_def)

section \<open>Properties\<close>

text \<open>
  The segment loop is the prefix reading of wildcards: a subject has a permission exactly when one of
  its role names, or one of the permissions listed for one of its roles, covers it.\<close>

theorem rbac_matches_prefix_reading:
  "has_permission table roles p \<longleftrightarrow>
     (\<exists>g. covers g p \<and> (g \<in> set roles \<or>
        (\<exists>role \<in> set roles. \<exists>ps. dict_get table role = Some ps \<and> g \<in> set ps)))"
  by (rule has_permission_covers)

text \<open>
  A capability is required to the letter: the call passes exactly when some subject, cleaned of
  blanks, covers the canonical permission or one of its legacy aliases by itself or through its role, the
  decision names the permission that matched, and otherwise the error names what is missing.\<close>

theorem capability_gate_exact:
  "case require_capability table roles permissions c of
     Inr d \<Rightarrow> cd_capability d = c \<and> cd_required d = canonical_permission c \<and>
       (\<exists>p g. cd_matched d = Some p \<and> p \<in> set (accepted_permissions c) \<and> covers g p \<and>
          (g \<in> py_strip ` (set roles \<union> set permissions) \<or>
           (\<exists>r \<in> py_strip ` (set roles \<union> set permissions). \<exists>ps. dict_get table r = Some ps \<and> g \<in> set ps)))
   | Inl e \<Rightarrow>
       e = PermissionDeniedError (''Missing capability '' @ capability_value c @ '': '' @ canonical_permission c) \<and>
       (\<forall>p \<in> set (accepted_permissions c). \<forall>r \<in> py_strip ` (set roles \<union> set permissions) - {[]}.
          \<not> covers r p \<and> (\<forall>ps. dict_get table r = Some ps \<longrightarrow> (\<forall>g \<in> set ps. \<not> covers g p)))"
proof (cases "decision_allowed (check_capability table roles permissions c)")
  case True
  let ?d = "check_capability table roles permissions c"
  obtain p where p: "cd_matched ?d = Some p" using True by (auto simp: decision_allowed_def split: option.splits)
  then have "p \<in> set (accepted_permissions c)" "has_permission table (merge_subjects roles permissions) p"
    by (auto simp: check_capability_def Let_def find_Some_iff)
  moreover have "cd_capability ?d = c" "cd_required ?d = canonical_permission c"
    by (simp_all add: check_capability_def Let_def)
  moreover have "require_capability table roles permissions c = Inr ?d"
    using True by (simp add: require_capability_def Let_def)
  ultimately show ?thesis using p
    by (simp add: has_permission_covers set_merge_subjects) blast
next
  case False
  then have "\<forall>p \<in> set (accepted_permissions c). \<not> has_permission table (merge_subjects roles permissions) p"
    by (simp add: allowed_iff)
  moreover have "require_capability table roles permissions c = Inl (PermissionDeniedError
      (''Missing capability '' @ capability_value c @ '': '' @ canonical_permission c))"
    using False by (simp add: require_capability_def Let_def check_capability_def)
  ultimately show ?thesis by (simp add: has_permission_covers set_merge_subjects) blast
qed

text \<open>Concrete roles: a viewer of services, a power user of everything below \<open>console\<close>.\<close>

definition sample_roles :: role_table where
  "sample_roles = [(''viewer'', [''console:services:view'']), (''power'', [''console:*''])]"

lemma capability_gate_exact_witness:
  "(case require_capability sample_roles ['' viewer ''] [] ServiceListRead of
      Inr d \<Rightarrow> cd_capability d = ServiceListRead | Inl e \<Rightarrow> False) \<and>
   require_capability sample_roles [''viewer''] [] ServiceConfigWrite
     = Inl (PermissionDeniedError ''Missing capability ServiceConfigWrite: console:services:edit'')"
proof -
  have 1: "\<exists>d. require_capability sample_roles ['' viewer ''] [] ServiceListRead = Inr d"
    by (simp add: require_capability_def check_capability_def Let_def decision_allowed_def
        accepted_permissions_def) code_simp
  have 2: "\<exists>e. require_capability sample_roles [''viewer''] [] ServiceConfigWrite = Inl e"
    by (simp add: require_capability_def check_capability_def Let_def decision_allowed_def
        accepted_permissions_def) code_simp
  show ?thesis
    using 1 2 capability_gate_exact[where table = sample_roles and roles = "['' viewer '']" and permissions = "[]"
        and c = ServiceListRead]
      capability_gate_exact[where table = sample_roles and roles = "[''viewer'']" and permissions = "[]"
        and c = ServiceConfigWrite]
    by auto
qed

text \<open>
  Whoever may change providers, skills, MCP servers or connectors may also read them: the write
  capability of each never holds without its read capability.\<close>

theorem write_implies_read:
  assumes "(w, r) \<in> {(GatewayProviderConfigWrite, GatewayProviderConfigRead), (GatewaySkillWrite, GatewaySkillRead),
             (GatewayMcpWrite, GatewayMcpRead), (GatewayConnectorConfigWrite, GatewayConnectorConfigRead)}"
    and "decision_allowed (check_capability table roles permissions w)"
  shows "decision_allowed (check_capability table roles permissions r)"
proof -
  have "set (accepted_permissions w) \<subseteq> set (accepted_permissions r)"
    using assms(1) by (auto simp: accepted_permissions_def)
  then show ?thesis using assms(2) by (auto simp: allowed_iff)
qed

lemma write_implies_read_witness:
  "decision_allowed (check_capability sample_roles [''power''] [] GatewayMcpRead)"
proof (rule write_implies_read[of GatewayMcpWrite])
  show "decision_allowed (check_capability sample_roles [''power''] [] GatewayMcpWrite)" by code_simp
qed simp

end
