(* ===== verification/Service_Access.thy ===== *)
theory Service_Access
  imports Access_Control
begin

text \<open>
  Which services a caller may use: the scope language of \<open>src/src/core/auth/service_access.py\<close>, the
  loader and its process-wide cache (\<open>service_access_resolver.py\<close>), and the authorization of a proxied
  request, \<open>check_service_authorization\<close> of \<open>src/src/api/v1/proxy.py\<close>, which also uses the capability gate.
  The database is an argument; its reads may raise (\<open>None\<close>). Logging, the security events and the trace
  ids are left out.
\<close>

section \<open>Tokens and scopes\<close>

definition clean_token :: "string \<Rightarrow> string" where
  "clean_token s = py_lower (py_strip s)"

definition normalize_token :: "(pyval \<Rightarrow> string) \<Rightarrow> pyval \<Rightarrow> string" where
  "normalize_token repr v = clean_token (py_str repr (or_val v (PStr [])))"

definition dedupe_tokens :: "string list \<Rightarrow> string list" where
  "dedupe_tokens items = dedupe_onto [] (filter (\<lambda>t. t \<noteq> []) items)"

definition normalize_service_scope :: "(pyval \<Rightarrow> string) \<Rightarrow> pyval \<Rightarrow> string list" where
  "normalize_service_scope repr v =
     (if \<not> truthy v then []
      else (case v of
              PStr s \<Rightarrow> dedupe_tokens (map (\<lambda>p. clean_token (py_strip p)) (split_on (CHR '','') s))
            | PList vs \<Rightarrow> dedupe_tokens (map (normalize_token repr) vs)
            | _ \<Rightarrow> []))"

text \<open>The same on a sequence of strings, and \<open>normalize_service_candidates\<close>.\<close>

definition normalize_names :: "string list \<Rightarrow> string list" where
  "normalize_names ss = dedupe_tokens (map clean_token ss)"

definition rule_matches :: "string \<Rightarrow> string \<Rightarrow> bool" where
  "rule_matches rule c = (if ends_with rule ''*'' then starts_with c (butlast rule) else rule = c)"

definition service_scope_matches :: "string list \<Rightarrow> string list \<Rightarrow> bool" where
  "service_scope_matches scope candidates =
     (let rules = normalize_names scope; names = filter (\<lambda>t. t \<noteq> []) (map clean_token candidates)
      in if rules = [] then True
         else if names = [] then False
         else if ''*'' \<in> set rules then True
         else list_ex (\<lambda>rule. list_ex (rule_matches rule) names) rules)"

section \<open>Policies\<close>

datatype access_mode = AccessAll | AccessAllowlist

record access_policy =
  sp_mode :: access_mode
  sp_allowed :: "string list"
  sp_denied :: "string list"

definition open_policy :: access_policy where
  "open_policy = \<lparr>sp_mode = AccessAll, sp_allowed = [], sp_denied = []\<rparr>"

definition policy_from_metadata :: "(pyval \<Rightarrow> string) \<Rightarrow> pyval \<Rightarrow> access_policy" where
  "policy_from_metadata repr metadata =
     (if \<not> is_dict metadata then open_policy
      else (let payload = dict_of (get_val (dict_of metadata) ''service_access'');
                allowed = normalize_service_scope repr (get_val payload ''allowed_services'');
                denied = normalize_service_scope repr (get_val payload ''denied_services'');
                mode_raw = normalize_token repr (get_val payload ''mode'')
            in \<lparr>sp_mode = (if mode_raw = ''all'' then AccessAll
                          else if mode_raw = ''allowlist'' then AccessAllowlist
                          else if allowed \<noteq> [] then AccessAllowlist else AccessAll),
                sp_allowed = allowed, sp_denied = denied\<rparr>))"

definition evaluate_service_access :: "access_policy \<Rightarrow> string list \<Rightarrow> bool \<times> string" where
  "evaluate_service_access p candidates =
     (let names = normalize_names candidates
      in if sp_denied p \<noteq> [] \<and> service_scope_matches (sp_denied p) names
         then (False, ''denied_by_user_policy'')
         else if sp_mode p = AccessAllowlist \<and> sp_allowed p = [] then (False, ''user_allowlist_empty'')
         else if sp_mode p = AccessAllowlist \<and> \<not> service_scope_matches (sp_allowed p) names
         then (False, ''not_in_user_allowlist'')
         else (True, ''allowed''))"

section \<open>Loading the constraints of a request\<close>

type_synonym constraints = "(string \<times> string list) list \<times> access_policy"
type_synonym constraint_cache = "(string, py_time \<times> constraints) py_dict"

text \<open>The part of the request and of the user that is read. The database's answers: \<open>None\<close> for a read
  that raises, \<open>Some None\<close> for a record that is absent.\<close>

record access_request =
  aq_api_key_hash :: string
  aq_api_key_info :: "(string, pyval) py_dict option"
  aq_cached :: "constraints option"

record access_user =
  au_user_id :: string
  au_tenant_id :: string
  au_roles :: "string list"
  au_authenticated :: bool

type_synonym db_read = "string \<Rightarrow> (string, pyval) py_dict option option"

record access_db =
  db_identity :: int
  db_module :: string
  db_present :: bool
  db_enabled :: bool
  db_get_tenant :: db_read
  db_get_user :: db_read

definition cache_max_size :: nat where "cache_max_size = 5000"

definition cache_key :: "(pyval \<Rightarrow> string) \<Rightarrow> access_db \<Rightarrow> access_request \<Rightarrow> access_user \<Rightarrow> string" where
  "cache_key repr db rq u = join_with ''|''
     [string_of_int (db_identity db), au_user_id u, au_tenant_id u, aq_api_key_hash rq,
      (case aq_api_key_info rq of
         None \<Rightarrow> [] | Some info \<Rightarrow>
           join_with '','' (normalize_service_scope repr (get_val info ''allowed_services''))),
      join_with '','' (sort (au_roles u))]"

definition cache_ttl_seconds :: "access_db \<Rightarrow> pyval \<Rightarrow> rat" where
  "cache_ttl_seconds db setting =
     (if db_module db \<in> {''types'', ''unittest.mock''} then 0
      else (case py_float (or_val setting (PFloat 0)) of Inl e \<Rightarrow> 0 | Inr x \<Rightarrow> max x 0))"

definition get_cached_constraints ::
  "rat \<Rightarrow> string \<Rightarrow> py_time \<Rightarrow> constraint_cache \<Rightarrow> constraints option \<times> constraint_cache" where
  "get_cached_constraints ttl key now cache =
     (if ttl \<le> 0 then (None, cache)
      else (case dict_get cache key of
              None \<Rightarrow> (None, cache)
            | Some (expires_at, cs) \<Rightarrow>
                (if expires_at \<le> now then (None, dict_pop key cache) else (Some cs, cache))))"

text \<open>\<open>while len(cache) >= MAX: cache.pop(next(iter(cache)))\<close>\<close>

definition make_room :: "constraint_cache \<Rightarrow> constraint_cache" where
  "make_room cache = drop (length cache + 1 - cache_max_size) cache"

definition set_cached_constraints ::
  "rat \<Rightarrow> string \<Rightarrow> py_time \<Rightarrow> constraints \<Rightarrow> constraint_cache \<Rightarrow> constraint_cache" where
  "set_cached_constraints ttl key now cs cache =
     (if ttl \<le> 0 then cache else dict_set key (now + ttl, cs) (make_room cache))"

definition api_key_sources :: "(pyval \<Rightarrow> string) \<Rightarrow> access_request \<Rightarrow> (string \<times> string list) list" where
  "api_key_sources repr rq =
     (case aq_api_key_info rq of
        None \<Rightarrow> []
      | Some info \<Rightarrow>
          (let allowed = normalize_service_scope repr (get_val info ''allowed_services'')
           in if info \<noteq> [] \<and> allowed \<noteq> [] then [(''api_key'', allowed)] else []))"

definition tenant_sources :: "(pyval \<Rightarrow> string) \<Rightarrow> access_db \<Rightarrow> access_user \<Rightarrow> (string \<times> string list) list" where
  "tenant_sources repr db u =
     (if au_tenant_id u = [] then []
      else (case db_get_tenant db (au_tenant_id u) of
              Some (Some tenant) \<Rightarrow>
                (let allowed = normalize_service_scope repr (get_val tenant ''allowed_services'')
                 in if tenant \<noteq> [] \<and> allowed \<noteq> [] then [(''tenant'', allowed)] else [])
            | _ \<Rightarrow> []))"

definition user_policy_of :: "(pyval \<Rightarrow> string) \<Rightarrow> access_db \<Rightarrow> access_user \<Rightarrow> access_policy" where
  "user_policy_of repr db u =
     (if au_user_id u = [] then open_policy
      else (case db_get_user db (au_user_id u) of
              Some (Some record') \<Rightarrow>
                (if record' \<noteq> [] then policy_from_metadata repr (get_val record' ''metadata'') else open_policy)
            | _ \<Rightarrow> open_policy))"

definition load_service_access_constraints ::
  "(pyval \<Rightarrow> string) \<Rightarrow> access_db \<Rightarrow> pyval \<Rightarrow> py_time \<Rightarrow> py_time \<Rightarrow> access_user \<Rightarrow> access_request
     \<Rightarrow> constraint_cache \<Rightarrow> constraints \<times> access_request \<times> constraint_cache" where
  "load_service_access_constraints repr db setting now now' u rq cache =
     (case aq_cached rq of
        Some cs \<Rightarrow> (cs, rq, cache)
      | None \<Rightarrow>
          (let ttl = cache_ttl_seconds db setting; key = cache_key repr db rq u
           in (case get_cached_constraints ttl key now cache of
                 (Some cs, cache1) \<Rightarrow> (cs, rq\<lparr>aq_cached := Some cs\<rparr>, cache1)
               | (None, cache1) \<Rightarrow>
                   (let cs = (if \<not> db_present db \<or> \<not> db_enabled db \<or> \<not> au_authenticated u
                              then (api_key_sources repr rq, open_policy)
                              else (api_key_sources repr rq @ tenant_sources repr db u,
                                    user_policy_of repr db u))
                    in (cs, rq\<lparr>aq_cached := Some cs\<rparr>, set_cached_constraints ttl key now' cs cache1)))))"

section \<open>Authorizing a proxied request\<close>

record service_auth =
  sa_enabled :: bool
  sa_public :: bool
  sa_require_auth :: bool
  sa_allowed_roles :: "string list"
  sa_allowed_api_keys :: "string list"

text \<open>A service definition of the registry: its id, its name and the \<open>auth\<close> block of its configuration.\<close>

record service_entry =
  se_id :: string
  se_name :: string
  se_auth :: "service_auth option"

datatype auth_denial =
    MissingCapability | AuthenticationRequired | RoleNotAllowed | ApiKeyRequired | ApiKeyNotAllowed
  | NotInAllowedServices string | BlockedByUserPolicy string

text \<open>\<open>_enforce_service_access_constraints\<close>\<close>

definition enforce_constraints ::
  "constraints \<Rightarrow> string list \<Rightarrow> string list \<Rightarrow> auth_denial + unit" where
  "enforce_constraints cs aliases roles =
     (case find (\<lambda>(source, allowed). \<not> service_scope_matches allowed aliases) (fst cs) of
        Some (source, allowed) \<Rightarrow> Inl (NotInAllowedServices source)
      | None \<Rightarrow>
          (if ''admin'' \<in> set roles then Inr ()
           else (case evaluate_service_access (snd cs) aliases of
                   (permitted, reason) \<Rightarrow> if permitted then Inr () else Inl (BlockedByUserPolicy reason))))"

text \<open>The service's own authentication settings, for a service that has them enabled and is not public.
  \<open>key\<close> is the value of the configured API key header, if there is one.\<close>

definition check_service_auth ::
  "service_auth \<Rightarrow> bool \<Rightarrow> string list \<Rightarrow> string option \<Rightarrow> auth_denial + unit" where
  "check_service_auth sa authenticated roles key =
     (if \<not> sa_enabled sa \<or> sa_public sa then Inr ()
      else if sa_require_auth sa \<and> \<not> authenticated then Inl AuthenticationRequired
      else if sa_allowed_roles sa \<noteq> [] \<and> \<not> list_ex (\<lambda>r. r \<in> set roles) (sa_allowed_roles sa) \<and>
              ''admin'' \<notin> set roles then Inl RoleNotAllowed
      else if sa_allowed_api_keys sa = [] then Inr ()
      else if opt_str key = [] then Inl ApiKeyRequired
      else if ''*'' \<notin> set (sa_allowed_api_keys sa) \<and>
              \<not> list_ex (starts_with (opt_str key)) (sa_allowed_api_keys sa) then Inl ApiKeyNotAllowed
      else Inr ())"

definition service_aliases :: "string \<Rightarrow> service_entry option \<Rightarrow> string list" where
  "service_aliases name svc =
     name # (case svc of None \<Rightarrow> []
             | Some s \<Rightarrow> (if se_id s \<noteq> [] then [se_id s] else []) @ (if se_name s \<noteq> [] then [se_name s] else []))"

definition check_service_authorization ::
  "role_table \<Rightarrow> string list \<Rightarrow> string list \<Rightarrow> string \<Rightarrow> service_entry option \<Rightarrow> bool \<Rightarrow> string option
     \<Rightarrow> constraints \<Rightarrow> auth_denial + unit" where
  "check_service_authorization table roles permissions name svc authenticated key cs =
     (if \<not> decision_allowed (check_capability table roles permissions AgentInvoke) then Inl MissingCapability
      else result_bind
        (case svc of
           None \<Rightarrow> Inr ()
         | Some s \<Rightarrow> (case se_auth s of None \<Rightarrow> Inr () | Some sa \<Rightarrow> check_service_auth sa authenticated roles key))
        (\<lambda>_. enforce_constraints cs (service_aliases name svc) roles))"

section \<open>Tokens are clean\<close>

lemma of_char_lower: "(of_char (lower_char c) :: nat) =
    (if 65 \<le> (of_char c :: nat) \<and> (of_char c :: nat) \<le> 90 then of_char c + 32 else of_char c)"
  by (simp add: lower_char_def Let_def)

lemma is_space_lower [simp]: "is_space (lower_char c) = is_space c"
  by (simp add: is_space_def Let_def of_char_lower)

lemma lower_lower [simp]: "lower_char (lower_char c) = lower_char c"
proof -
  have "\<not> (65 \<le> (of_char (lower_char c) :: nat) \<and> (of_char (lower_char c) :: nat) \<le> 90)"
    by (simp add: of_char_lower)
  then show ?thesis unfolding lower_char_def[of "lower_char c"] by (simp only: Let_def if_False)
qed

lemma dropWhile_dropWhile [simp]: "dropWhile P (dropWhile P xs) = dropWhile P xs"
  by (induction xs) auto

lemma strip_map: "(\<And>c. is_space (f c) = is_space c) \<Longrightarrow> py_strip (map f s) = map f (py_strip s)"
  by (simp add: py_strip_def dropWhile_map rev_map comp_def)

lemma clean_clean [simp]: "clean_token (clean_token s) = clean_token s"
  by (simp add: clean_token_def py_lower_def strip_map comp_def)

lemma clean_strip [simp]: "clean_token (py_strip s) = clean_token s"
  by (simp add: clean_token_def)

lemma clean_Nil [simp]: "clean_token [] = []"
  by (simp add: clean_token_def py_lower_def py_strip_def)

definition tokens_ok :: "string list \<Rightarrow> bool" where
  "tokens_ok ts \<longleftrightarrow> distinct ts \<and> (\<forall>t \<in> set ts. t \<noteq> [] \<and> clean_token t = t)"

lemma set_dedupe_tokens: "set (dedupe_tokens ts) = set ts - {[]}"
  by (auto simp: dedupe_tokens_def)

lemma tokens_ok_dedupe: "(\<And>t. t \<in> set ts \<Longrightarrow> clean_token t = t) \<Longrightarrow> tokens_ok (dedupe_tokens ts)"
  by (auto simp: tokens_ok_def set_dedupe_tokens) (simp add: dedupe_tokens_def)

lemma dedupe_onto_id: "distinct (out @ ts) \<Longrightarrow> dedupe_onto out ts = out @ ts"
  by (induction ts arbitrary: out) auto

lemma normalize_names_id: "tokens_ok ts \<Longrightarrow> normalize_names ts = ts"
  by (simp add: normalize_names_def tokens_ok_def dedupe_tokens_def map_idI dedupe_onto_id filter_True)

lemma tokens_ok_scope: "tokens_ok (normalize_service_scope repr v)"
  by (cases v) (auto simp: normalize_service_scope_def normalize_token_def tokens_ok_def
      intro!: tokens_ok_dedupe[unfolded tokens_ok_def])

lemma tokens_ok_names: "tokens_ok (normalize_names ss)"
  unfolding normalize_names_def by (rule tokens_ok_dedupe) auto

lemma set_normalize_names: "set (normalize_names ss) = clean_token ` set ss - {[]}"
  by (auto simp: normalize_names_def set_dedupe_tokens)

lemma normalize_names_empty: "normalize_names ss = [] \<longleftrightarrow> (\<forall>s \<in> set ss. clean_token s = [])"
  using set_normalize_names[of ss] by (auto simp flip: set_empty)

lemma star_matches [simp]: "rule_matches ''*'' c"
  by (simp add: rule_matches_def ends_with_def starts_with_def)

lemma scope_matches_iff:
  "service_scope_matches scope candidates \<longleftrightarrow>
     (\<forall>s \<in> set scope. clean_token s = []) \<or>
     (\<exists>rule \<in> clean_token ` set scope - {[]}. \<exists>c \<in> clean_token ` set candidates - {[]}. rule_matches rule c)"
proof -
  let ?names = "filter (\<lambda>t. t \<noteq> []) (map clean_token candidates)"
  have names: "set ?names = clean_token ` set candidates - {[]}" by auto
  have rules: "set (normalize_names scope) = clean_token ` set scope - {[]}" by (rule set_normalize_names)
  show ?thesis
  proof (cases "normalize_names scope = []")
    case True
    then have "\<forall>s \<in> set scope. clean_token s = []" by (simp only: normalize_names_empty)
    then show ?thesis using True by (simp add: service_scope_matches_def)
  next
    case False
    then have no: "\<not> (\<forall>s \<in> set scope. clean_token s = [])" by (simp only: normalize_names_empty simp_thms)
    show ?thesis
    proof (cases "?names = []")
      case True
      then have "clean_token ` set candidates - {[]} = {}" using names by (metis empty_set)
      moreover have "\<not> service_scope_matches scope candidates"
        using False True by (simp only: service_scope_matches_def Let_def if_False if_True not_False_eq_True refl)
      ultimately show ?thesis using no by blast
    next
      case nonempty: False
      then obtain c where "c \<in> set ?names" by (metis list.set_intros(1) neq_Nil_conv)
      then have star: "list_ex (\<lambda>rule. list_ex (rule_matches rule) ?names) (normalize_names scope)"
        if "''*'' \<in> set (normalize_names scope)"
      proof -
        have "list_ex (rule_matches ''*'') ?names"
          using \<open>c \<in> set ?names\<close> star_matches unfolding list_ex_iff by blast
        then show ?thesis using that unfolding list_ex_iff[of _ "normalize_names scope"] by blast
      qed
      have "service_scope_matches scope candidates \<longleftrightarrow>
          list_ex (\<lambda>rule. list_ex (rule_matches rule) ?names) (normalize_names scope)"
        using False nonempty star by (simp only: service_scope_matches_def Let_def if_False) auto
      then show ?thesis using no unfolding list_ex_iff names rules by blast
    qed
  qed
qed

section \<open>Properties\<close>

text \<open>
  The scope language means what its rules say: a scope without a rule lets everything through, any
  other one exactly the services of which some cleaned name equals a rule or begins with the text before a
  rule's final star; the shortcut for a bare star changes nothing.\<close>

theorem scope_is_the_union_of_its_rules:
  "service_scope_matches scope candidates \<longleftrightarrow>
     (\<forall>s \<in> set scope. clean_token s = []) \<or>
     (\<exists>rule \<in> clean_token ` set scope - {[]}. \<exists>c \<in> clean_token ` set candidates - {[]}. rule_matches rule c)"
  by (rule scope_matches_iff)

lemma scope_is_the_union_of_its_rules_witness:
  "service_scope_matches ['' Agent-* ''] [''agent-7''] \<and> \<not> service_scope_matches [''agent''] [''agent-7'']"
  unfolding scope_is_the_union_of_its_rules by code_simp

text \<open>
  Policies built from a user's metadata are well formed whatever the metadata is: both lists hold
  distinct, non-empty, stripped lower-case tokens on which normalising again does nothing, and a list of
  allowed services is enforced unless the mode says \<open>all\<close>.\<close>

theorem policy_wellformed:
  "tokens_ok (sp_allowed (policy_from_metadata repr metadata)) \<and>
   tokens_ok (sp_denied (policy_from_metadata repr metadata)) \<and>
   normalize_names (sp_allowed (policy_from_metadata repr metadata)) = sp_allowed (policy_from_metadata repr metadata) \<and>
   normalize_names (sp_denied (policy_from_metadata repr metadata)) = sp_denied (policy_from_metadata repr metadata) \<and>
   (sp_mode (policy_from_metadata repr metadata) = AccessAll \<longrightarrow>
      sp_allowed (policy_from_metadata repr metadata) = [] \<or>
      normalize_token repr (get_val (dict_of (get_val (dict_of metadata) ''service_access'')) ''mode'') = ''all'')"
proof -
  have "tokens_ok (sp_allowed (policy_from_metadata repr metadata))"
      "tokens_ok (sp_denied (policy_from_metadata repr metadata))"
    by (simp_all add: policy_from_metadata_def Let_def tokens_ok_scope open_policy_def) (simp_all add: tokens_ok_def)
  then show ?thesis
    by (auto simp: normalize_names_id) (auto simp: policy_from_metadata_def Let_def open_policy_def split: if_splits)
qed

lemma policy_wellformed_witness:
  "tokens_ok (sp_allowed (policy_from_metadata (\<lambda>v. []) (PDict [(''service_access'',
      PDict [(''allowed_services'', PStr '' Agent,flash,agent''), (''mode'', PStr ''ALLOWLIST'')])])))"
  using policy_wellformed[of "\<lambda>v. []"] by blast

definition policy_permits :: "access_policy \<Rightarrow> string list \<Rightarrow> bool" where
  "policy_permits p aliases \<longleftrightarrow>
     \<not> (\<exists>rule \<in> clean_token ` set (sp_denied p) - {[]}. \<exists>c \<in> clean_token ` set aliases - {[]}. rule_matches rule c) \<and>
     (sp_mode p = AccessAllowlist \<longrightarrow>
        (\<exists>rule \<in> clean_token ` set (sp_allowed p) - {[]}. \<exists>c \<in> clean_token ` set aliases - {[]}. rule_matches rule c))"

lemma clean_names: "clean_token ` set (normalize_names ss) = clean_token ` set ss - {[]}"
proof -
  have "clean_token ` A = A" if "\<forall>t \<in> A. clean_token t = t" for A
    using that by force
  moreover have "\<forall>t \<in> clean_token ` set ss - {[]}. clean_token t = t" by auto
  ultimately show ?thesis unfolding set_normalize_names by blast
qed

lemma evaluate_permits:
  assumes "tokens_ok (sp_allowed p)" "tokens_ok (sp_denied p)"
  shows "fst (evaluate_service_access p aliases) = policy_permits p aliases"
proof -
  have m: "service_scope_matches scope (normalize_names aliases) \<longleftrightarrow>
      (\<exists>rule \<in> clean_token ` set scope - {[]}. \<exists>c \<in> clean_token ` set aliases - {[]}. rule_matches rule c)"
    if "tokens_ok scope" "scope \<noteq> []" for scope
  proof -
    have "\<not> (\<forall>s \<in> set scope. clean_token s = [])"
      using that by (cases scope) (auto simp: tokens_ok_def)
    then show ?thesis unfolding scope_matches_iff clean_names by blast
  qed
  show ?thesis
    using m[OF assms(1)] m[OF assms(2)]
    by (cases "sp_denied p = []"; cases "sp_allowed p = []"; cases "sp_mode p")
      (simp_all add: evaluate_service_access_def Let_def policy_permits_def)
qed

text \<open>
  C18: A proxied request is authorized exactly when the caller holds the invoke capability, the service's
  own settings let it pass, every configured scope (of the API key, of the tenant) matches one of the
  service's names, and the caller is an administrator or the user's policy permits: no denied rule matches
  and, with an allowlist, some allowed one does. A public service skips only its own settings, an
  administrator only the user's policy and the list of roles.\<close>

theorem authorization_exact:
  assumes "tokens_ok (sp_allowed (snd cs))" "tokens_ok (sp_denied (snd cs))"
  shows "check_service_authorization table roles permissions name svc authenticated key cs = Inr () \<longleftrightarrow>
     decision_allowed (check_capability table roles permissions AgentInvoke) \<and>
     (\<forall>s sa. svc = Some s \<and> se_auth s = Some sa \<and> sa_enabled sa \<and> \<not> sa_public sa \<longrightarrow>
        (sa_require_auth sa \<longrightarrow> authenticated) \<and>
        (sa_allowed_roles sa = [] \<or> ''admin'' \<in> set roles \<or> set (sa_allowed_roles sa) \<inter> set roles \<noteq> {}) \<and>
        (sa_allowed_api_keys sa = [] \<or>
           (\<exists>k. key = Some k \<and> k \<noteq> [] \<and>
              (''*'' \<in> set (sa_allowed_api_keys sa) \<or> (\<exists>p \<in> set (sa_allowed_api_keys sa). starts_with k p))))) \<and>
     (\<forall>(source, allowed) \<in> set (fst cs). service_scope_matches allowed (service_aliases name svc)) \<and>
     (''admin'' \<in> set roles \<or> policy_permits (snd cs) (service_aliases name svc))"
proof -
  let ?al = "service_aliases name svc"
  have enf: "enforce_constraints cs ?al roles = Inr () \<longleftrightarrow>
      (\<forall>(source, allowed) \<in> set (fst cs). service_scope_matches allowed ?al) \<and>
      (''admin'' \<in> set roles \<or> policy_permits (snd cs) ?al)"
  proof (cases "find (\<lambda>(source, allowed). \<not> service_scope_matches allowed ?al) (fst cs)")
    case None
    then have "\<forall>(source, allowed) \<in> set (fst cs). service_scope_matches allowed ?al"
      by (auto simp: find_None_iff)
    moreover have "enforce_constraints cs ?al roles = Inr () \<longleftrightarrow>
        ''admin'' \<in> set roles \<or> fst (evaluate_service_access (snd cs) ?al)"
      unfolding enforce_constraints_def None by (simp split: prod.splits)
    ultimately show ?thesis using evaluate_permits[OF assms, of ?al] by simp
  next
    case (Some x)
    then have "\<exists>y \<in> set (fst cs). \<not> service_scope_matches (snd y) ?al"
      by (auto simp: find_Some_iff) (metis nth_mem snd_conv)
    then show ?thesis using Some by (auto simp: enforce_constraints_def split: prod.splits)
  qed
  have sa: "check_service_auth sa authenticated roles key = Inr () \<longleftrightarrow>
      (sa_enabled sa \<and> \<not> sa_public sa \<longrightarrow>
        (sa_require_auth sa \<longrightarrow> authenticated) \<and>
        (sa_allowed_roles sa = [] \<or> ''admin'' \<in> set roles \<or> set (sa_allowed_roles sa) \<inter> set roles \<noteq> {}) \<and>
        (sa_allowed_api_keys sa = [] \<or>
           (\<exists>k. key = Some k \<and> k \<noteq> [] \<and>
              (''*'' \<in> set (sa_allowed_api_keys sa) \<or> (\<exists>p \<in> set (sa_allowed_api_keys sa). starts_with k p)))))"
    for sa
    by (cases key) (auto simp: check_service_auth_def opt_str_def list_ex_iff)
  show ?thesis
    unfolding check_service_authorization_def enf[symmetric]
    by (cases svc; cases "decision_allowed (check_capability table roles permissions AgentInvoke)")
      (auto simp: result_bind_Inr sa split: option.splits)
qed

definition sample_policy :: access_policy where
  "sample_policy = \<lparr>sp_mode = AccessAllowlist, sp_allowed = [''agent-*''], sp_denied = [''agent-9'']\<rparr>"

lemma sample_tokens: "tokens_ok (sp_allowed sample_policy)" "tokens_ok (sp_denied sample_policy)"
  by code_simp+

lemma authorization_exact_witness:
  "check_service_authorization [] [''service:*''] [] ''agent-7'' None True None ([(''api_key'', [''agent-7''])], sample_policy)
     = Inr ()"
proof -
  have "policy_permits sample_policy [''agent-7'']"
    using evaluate_permits[OF sample_tokens, of "[''agent-7'']"] by code_simp
  moreover have "decision_allowed (check_capability [] [''service:*''] [] AgentInvoke)" by code_simp
  moreover have "service_scope_matches [''agent-7''] [''agent-7'']" by code_simp
  ultimately show ?thesis
    using authorization_exact[of "([(''api_key'', [''agent-7''])], sample_policy)"] sample_tokens
    by (simp add: service_aliases_def)
qed

text \<open>
  The constraints fail open. When the database cannot read the user, the caller gets the policy that
  permits every service, and the process keeps that answer: while it is cached, every other request under
  the same key gets it too, even if the user's policy can be read again and denies the service.\<close>

theorem constraints_fail_open:
  assumes "db_get_user db (au_user_id u) = None" "aq_cached rq = None"
    and "0 < cache_ttl_seconds db setting"
    and "fst (get_cached_constraints (cache_ttl_seconds db setting) (cache_key repr db rq u) now cache) = None"
    and "load_service_access_constraints repr db setting now now' u rq cache = (cs, rq', cache')"
    and "t < now' + cache_ttl_seconds db setting"
  shows "snd cs = open_policy \<and> policy_permits (snd cs) aliases \<and>
     fst (load_service_access_constraints repr (db\<lparr>db_get_user := get_user\<rparr>) setting t t' u rq cache') = cs"
proof -
  let ?ttl = "cache_ttl_seconds db setting" and ?key = "cache_key repr db rq u"
  obtain cache1 where c1: "get_cached_constraints ?ttl ?key now cache = (None, cache1)"
    using assms(4) by (metis prod.collapse)
  have "user_policy_of repr db u = open_policy" using assms(1) by (simp add: user_policy_of_def)
  then have cs: "snd cs = open_policy" "cache' = set_cached_constraints ?ttl ?key now' cs cache1"
    using assms(2,5) c1 by (auto simp: load_service_access_constraints_def Let_def split: if_splits)
  have "dict_get cache' ?key = Some (now' + ?ttl, cs)"
    using cs(2) assms(3) by (simp add: set_cached_constraints_def dict_get_set)
  moreover have "cache_key repr (db\<lparr>db_get_user := get_user\<rparr>) rq u = ?key"
    "cache_ttl_seconds (db\<lparr>db_get_user := get_user\<rparr>) setting = ?ttl"
    by (simp_all add: cache_key_def cache_ttl_seconds_def)
  ultimately have "fst (load_service_access_constraints repr (db\<lparr>db_get_user := get_user\<rparr>) setting t t' u rq cache') = cs"
    using assms(2,3,6) by (simp add: load_service_access_constraints_def get_cached_constraints_def Let_def)
  then show ?thesis using cs(1) by (simp add: policy_permits_def open_policy_def)
qed

definition sample_db :: access_db where
  "sample_db = \<lparr>db_identity = 1, db_module = ''database'', db_present = True, db_enabled = True,
     db_get_tenant = (\<lambda>_. Some None), db_get_user = (\<lambda>_. None)\<rparr>"

definition sample_user :: access_user where
  "sample_user = \<lparr>au_user_id = ''u'', au_tenant_id = [], au_roles = [], au_authenticated = True\<rparr>"

definition access_sample_request :: access_request where
  "access_sample_request = \<lparr>aq_api_key_hash = [], aq_api_key_info = None, aq_cached = None\<rparr>"

lemma constraints_fail_open_witness:
  "fst (load_service_access_constraints (\<lambda>v. []) (sample_db\<lparr>db_get_user := (\<lambda>_. Some (Some [(''metadata'', PDict [
       (''service_access'', PDict [(''denied_services'', PStr ''*'')])])]))\<rparr>) (PInt 30) 20 20 sample_user access_sample_request
     (snd (snd (load_service_access_constraints (\<lambda>v. []) sample_db (PInt 30) 1 2 sample_user access_sample_request []))))
   = ([], open_policy)"
proof -
  let ?l = "load_service_access_constraints (\<lambda>v. []) sample_db (PInt 30) 1 2 sample_user access_sample_request []"
  have ttl: "cache_ttl_seconds sample_db (PInt 30) = 30"
    by (simp add: cache_ttl_seconds_def sample_db_def or_val_def)
  have f: "fst ?l = ([], open_policy)" by code_simp
  obtain rq' cache' where l: "?l = (([], open_policy), rq', cache')"
    using f by (metis prod.collapse)
  show ?thesis
    using constraints_fail_open[OF _ _ _ _ l, of 20] ttl
    by (simp add: l, simp add: sample_db_def access_sample_request_def get_cached_constraints_def)
qed

text \<open>
  The cache of constraints stays a dictionary of at most 5000 entries, whatever is loaded, and an
  answer served from it was stored under the caller's own key and has not expired.\<close>

theorem constraint_cache_bounded:
  assumes "dict_ok cache" "length cache \<le> cache_max_size" "aq_cached rq = None"
    and "load_service_access_constraints repr db setting now now' u rq cache = (cs, rq', cache')"
  shows "dict_ok cache' \<and> length cache' \<le> cache_max_size \<and>
     (\<forall>cs0 cache1. get_cached_constraints (cache_ttl_seconds db setting) (cache_key repr db rq u) now cache = (Some cs0, cache1) \<longrightarrow>
        cs = cs0 \<and> (\<exists>e. (cache_key repr db rq u, e, cs0) \<in> set cache \<and> now < e))"
proof -
  let ?ttl = "cache_ttl_seconds db setting" and ?key = "cache_key repr db rq u"
  obtain r cache1 where c1: "get_cached_constraints ?ttl ?key now cache = (r, cache1)" by force
  have "length (dict_pop k cache) \<le> length cache" for k :: string by (simp add: length_delete_le)
  then have ok1: "dict_ok cache1" "length cache1 \<le> cache_max_size"
    using c1 assms(1,2) order_trans
    by (fastforce simp: get_cached_constraints_def split: if_splits option.splits)+
  have "length (dict_set k v c) \<le> Suc (length c)" for k and v and c :: constraint_cache
    by (induction c) auto
  moreover have "length (make_room cache1) < cache_max_size"
    by (simp add: make_room_def cache_max_size_def)
  ultimately have room: "length (dict_set k v (make_room cache1)) \<le> cache_max_size" for k v
    by (meson Suc_leI order_trans)
  have "dict_ok (make_room cache1)"
    using ok1(1) by (simp add: make_room_def dict_ok_def drop_map[symmetric])
  then have "dict_ok (set_cached_constraints ?ttl ?key now' cs' cache1)"
      "length (set_cached_constraints ?ttl ?key now' cs' cache1) \<le> cache_max_size" for cs'
    using ok1 room by (simp_all add: set_cached_constraints_def)
  then have "dict_ok cache' \<and> length cache' \<le> cache_max_size"
    using assms(3,4) c1 ok1 by (auto simp: load_service_access_constraints_def Let_def split: option.splits)
  moreover have "cs = cs0 \<and> (\<exists>e. (?key, e, cs0) \<in> set cache \<and> now < e)"
    if "get_cached_constraints ?ttl ?key now cache = (Some cs0, cache2)" for cs0 cache2
    using that assms(3,4)
    by (auto simp: load_service_access_constraints_def get_cached_constraints_def Let_def split: if_splits option.splits)
      (meson map_of_SomeD not_le)
  ultimately show ?thesis by blast
qed

lemma constraint_cache_bounded_witness:
  "length (snd (snd (load_service_access_constraints (\<lambda>v. []) sample_db (PInt 30) 1 2 sample_user access_sample_request [])))
     \<le> cache_max_size"
proof -
  obtain cs rq' cache' where l: "load_service_access_constraints (\<lambda>v. []) sample_db (PInt 30) 1 2 sample_user
      access_sample_request [] = (cs, rq', cache')" by (rule prod_cases3)
  show ?thesis
    using constraint_cache_bounded[OF _ _ _ l] unfolding l by (simp add: access_sample_request_def)
qed

end
