(* ===== verification/Rate_Policy.thy ===== *)
theory Rate_Policy
  imports Service_Access "HOL-Library.Product_Lexorder" "HOL-Library.Multiset"
begin

text \<open>
  The rate policies of the gateway (\<open>src/src/core/gateway/rate_policy.py\<close>): a resolver that turns the
  rules of the database, or of the application's state, into the concrete checks of one request, and keeps
  the compiled rules for a while. Rules are dictionaries of dynamically typed values. Strings in them are
  read with \<open>str\<close> and numbers with \<open>int\<close>, which may raise.

  The cache is modelled by what happens to it: \<open>load_decision\<close> and \<open>refresh_check\<close> are the reads up to
  the point where the database is asked, \<open>refresh_commit\<close> what is done with its answer. Between the two
  other coroutines run, and \<open>invalidate\<close> among them; a refresh carries the cache key it started with.
\<close>

section \<open>Rules and policies\<close>

type_synonym rule = "(string, pyval) py_dict"

record rate_policy =
  rp_key :: string
  rp_dimension :: string
  rp_requests :: int
  rp_window :: int
  rp_burst :: int
  rp_strategy :: string

record rate_user =
  ru_tenant_id :: string
  ru_user_id :: string
  ru_ip :: string
  ru_service_id :: string

record rate_request =
  rr_api_key_hash :: string
  rr_api_key_info :: "(string, pyval) py_dict"

record rate_service_config =
  rc_service_id :: string
  rc_enabled :: bool
  rc_requests :: int
  rc_window :: int

definition scope_precedence :: "string \<Rightarrow> int" where
  "scope_precedence scope =
     (if scope = ''service'' then 10 else if scope = ''api_key'' then 20 else if scope = ''tenant'' then 30
      else if scope = ''user'' then 40 else if scope = ''operation'' then 50
      else if scope = ''global'' then 60 else 999)"

definition burst_strategies :: "string list" where
  "burst_strategies = [''token_bucket'', ''sliding_window_with_burst'']"

definition safe_segment :: "string \<Rightarrow> string" where
  "safe_segment value =
     py_replace_char (CHR ''|'') (CHR ''_'')
       (py_replace_char (CHR '':'') (CHR ''_'') (or_str (py_strip value) ''unknown''))"

definition subject_of :: "rate_user \<Rightarrow> string" where
  "subject_of u = safe_segment (or_str (ru_user_id u) (or_str (ru_ip u) ''anonymous''))"

definition tenant_of :: "rate_user \<Rightarrow> string" where
  "tenant_of u = safe_segment (or_str (ru_tenant_id u) ''public'')"

definition bucket_key :: "string \<Rightarrow> string \<Rightarrow> rate_user \<Rightarrow> string \<Rightarrow> string" where
  "bucket_key scope target u operation =
     ''ratelimit:'' @ scope @ '':'' @ safe_segment target @ '':'' @ tenant_of u @ '':'' @ subject_of u @ '':'' @
     safe_segment (or_str operation ''proxy'')"

definition service_config_policy ::
  "rate_user \<Rightarrow> string \<Rightarrow> string \<Rightarrow> rate_service_config option \<Rightarrow> rate_policy option" where
  "service_config_policy u service_name operation config =
     (case config of
        None \<Rightarrow> None
      | Some c \<Rightarrow>
          (if rc_enabled c \<and> 0 < rc_requests c \<and> 0 < rc_window c
           then (let service = safe_segment (or_str service_name (rc_service_id c))
                 in Some \<lparr>rp_key = bucket_key ''service'' (or_str service_name (rc_service_id c)) u operation,
                          rp_dimension = ''service:'' @ service, rp_requests = rc_requests c,
                          rp_window = rc_window c, rp_burst = 0, rp_strategy = ''sliding_window''\<rparr>)
           else None))"

text \<open>\<open>str(rule.get(name) or "").strip()\<close> and \<open>int(rule.get(name) or 0)\<close>\<close>

definition rule_str :: "(pyval \<Rightarrow> string) \<Rightarrow> rule \<Rightarrow> string \<Rightarrow> string" where
  "rule_str repr rule name = py_strip (py_str repr (or_val (get_val rule name) (PStr [])))"

definition rule_int :: "rule \<Rightarrow> string \<Rightarrow> py_exn + int" where
  "rule_int rule name = py_int (or_val (get_val rule name) (PInt 0))"

definition rule_scope :: "(pyval \<Rightarrow> string) \<Rightarrow> rule \<Rightarrow> string" where
  "rule_scope repr rule = py_lower (rule_str repr rule ''scope'')"

definition api_key_candidates :: "(pyval \<Rightarrow> string) \<Rightarrow> rate_request \<Rightarrow> string list" where
  "api_key_candidates repr rq =
     rr_api_key_hash rq # map (\<lambda>k. py_str repr (or_val (get_val (rr_api_key_info rq) k) (PStr [])))
       [''id'', ''key_id'', ''api_key_id'']"

definition rule_matches_request ::
  "(pyval \<Rightarrow> string) \<Rightarrow> string \<Rightarrow> string \<Rightarrow> rate_request \<Rightarrow> rate_user \<Rightarrow> string \<Rightarrow> string \<Rightarrow> bool" where
  "rule_matches_request repr scope scope_id rq u service_name operation =
     (if scope = ''global'' then True
      else if scope = ''service'' then scope_id = service_name \<or> scope_id = ru_service_id u
      else if scope = ''api_key'' then scope_id \<noteq> [] \<and> scope_id \<in> set (api_key_candidates repr rq)
      else if scope = ''tenant'' then scope_id \<noteq> [] \<and> scope_id = ru_tenant_id u
      else if scope = ''user'' then scope_id \<noteq> [] \<and> scope_id = ru_user_id u
      else if scope = ''operation'' then scope_id \<noteq> [] \<and> scope_id = operation
      else False)"

definition rule_dimension :: "string \<Rightarrow> string \<Rightarrow> string \<Rightarrow> string \<Rightarrow> string" where
  "rule_dimension scope scope_id service_name operation =
     (if scope = ''global'' then ''global''
      else if scope = ''service'' then ''service:'' @ or_str scope_id service_name
      else if scope = ''tenant'' then ''tenant:'' @ scope_id
      else if scope = ''user'' then ''user:'' @ scope_id
      else if scope = ''operation'' then ''operation:'' @ or_str scope_id operation
      else scope)"

definition policy_from_rule ::
  "(pyval \<Rightarrow> string) \<Rightarrow> rule \<Rightarrow> rate_request \<Rightarrow> rate_user \<Rightarrow> string \<Rightarrow> string \<Rightarrow> py_exn + rate_policy option" where
  "policy_from_rule repr rule rq u service_name operation =
     (if \<not> truthy (get_default rule ''enabled'' (PBool True)) then Inr None
      else (let scope = rule_scope repr rule; scope_id = rule_str repr rule ''scope_id'' in
        if \<not> rule_matches_request repr scope scope_id rq u service_name operation then Inr None
        else result_bind (rule_int rule ''requests'') (\<lambda>requests.
          result_bind (py_int (or_val (get_val rule ''window'')
              (or_val (get_val rule ''window_seconds'') (PInt 0)))) (\<lambda>window.
          result_bind (rule_int rule ''burst'') (\<lambda>burst.
            let strategy = or_str (py_strip (py_str repr (or_val (get_val rule ''strategy'') (PStr ''sliding_window''))))
                  ''sliding_window'';
                requests' = max requests 1; burst' = max burst 0;
                dimension = rule_dimension scope scope_id service_name operation
            in Inr (Some \<lparr>rp_key = bucket_key scope (or_str scope_id dimension) u operation,
                  rp_dimension = dimension,
                  rp_requests = (if strategy \<in> set burst_strategies then requests' + burst' else requests'),
                  rp_window = max window 1, rp_burst = burst', rp_strategy = strategy\<rparr>))))))"

fun policies_from_rules ::
  "(pyval \<Rightarrow> string) \<Rightarrow> rule list \<Rightarrow> rate_request \<Rightarrow> rate_user \<Rightarrow> string \<Rightarrow> string \<Rightarrow> py_exn + rate_policy list" where
  "policies_from_rules repr [] rq u service_name operation = Inr []"
| "policies_from_rules repr (rule # rules) rq u service_name operation =
     result_bind (policy_from_rule repr rule rq u service_name operation) (\<lambda>p.
     result_bind (policies_from_rules repr rules rq u service_name operation) (\<lambda>ps.
       Inr (case p of None \<Rightarrow> ps | Some q \<Rightarrow> q # ps)))"

section \<open>Compiling the rules\<close>

definition rule_sort_key :: "(pyval \<Rightarrow> string) \<Rightarrow> rule \<Rightarrow> py_exn + int \<times> int" where
  "rule_sort_key repr rule =
     result_bind (rule_int rule ''priority'') (\<lambda>priority. Inr (scope_precedence (rule_scope repr rule), priority))"

fun keyed_rules :: "(pyval \<Rightarrow> string) \<Rightarrow> rule list \<Rightarrow> py_exn + ((int \<times> int) \<times> rule) list" where
  "keyed_rules repr [] = Inr []"
| "keyed_rules repr (r # rs) =
     result_bind (rule_sort_key repr r) (\<lambda>k. result_bind (keyed_rules repr rs) (\<lambda>krs. Inr ((k, r) # krs)))"

text \<open>\<open>sorted(rules, key=self._rule_sort_key)\<close>\<close>

definition compile_rules :: "(pyval \<Rightarrow> string) \<Rightarrow> rule list \<Rightarrow> py_exn + rule list" where
  "compile_rules repr rules = result_bind (keyed_rules repr rules) (\<lambda>krs. Inr (map snd (sort_key fst krs)))"

section \<open>The cache of compiled rules\<close>

text \<open>A cache key is the identity of the database and the epoch.\<close>

type_synonym rules_key = "int \<times> nat"

record rule_snapshot =
  sn_key :: rules_key
  sn_expires_at :: py_time
  sn_stale_until :: py_time
  sn_rules :: "rule list"

record resolver =
  rs_ttl :: rat
  rs_max_stale :: rat
  rs_snapshot :: "rule_snapshot option"
  rs_failure :: "(rules_key \<times> py_time \<times> string) option"
  rs_epoch :: nat

definition mk_resolver :: "rat \<Rightarrow> rat \<Rightarrow> resolver" where
  "mk_resolver ttl max_stale = \<lparr>rs_ttl = max ttl 0, rs_max_stale = max max_stale 0,
     rs_snapshot = None, rs_failure = None, rs_epoch = 0\<rparr>"

definition invalidate :: "resolver \<Rightarrow> resolver" where
  "invalidate st = st\<lparr>rs_epoch := rs_epoch st + 1, rs_snapshot := None, rs_failure := None\<rparr>"

datatype load_step = ServeFresh "rule list" | ServeStale "rule list" | RefreshNow

text \<open>\<open>_load_rules\<close>; a stale answer also schedules a refresh in the background.\<close>

definition load_decision :: "int \<Rightarrow> py_time \<Rightarrow> resolver \<Rightarrow> load_step" where
  "load_decision db now st =
     (case rs_snapshot st of
        None \<Rightarrow> RefreshNow
      | Some sn \<Rightarrow>
          (if sn_key sn \<noteq> (db, rs_epoch st) then RefreshNow
           else if now < sn_expires_at sn then ServeFresh (sn_rules sn)
           else if now \<le> sn_stale_until sn then ServeStale (sn_rules sn)
           else RefreshNow))"

datatype refresh_step = AlreadyFresh "rule list" | RaiseCached string | AskSource

text \<open>\<open>_refresh_rules\<close> under the lock, up to the query.\<close>

definition refresh_check :: "rules_key \<Rightarrow> py_time \<Rightarrow> resolver \<Rightarrow> refresh_step" where
  "refresh_check key now st =
     (case rs_snapshot st of
        Some sn \<Rightarrow>
          (if sn_key sn = key \<and> now < sn_expires_at sn then AlreadyFresh (sn_rules sn)
           else (case rs_failure st of
                   Some (k, until, e) \<Rightarrow> if k = key \<and> now < until then RaiseCached e else AskSource
                 | None \<Rightarrow> AskSource))
      | None \<Rightarrow>
          (case rs_failure st of
             Some (k, until, e) \<Rightarrow> if k = key \<and> now < until then RaiseCached e else AskSource
           | None \<Rightarrow> AskSource))"

datatype refresh_error = SourceFailed string | BadRule py_exn

text \<open>\<open>_refresh_rules\<close> from the answer on: the exception of the query (only a database raises), or the
  rules that were read. \<open>now\<close> is the clock when the answer is there.\<close>

definition refresh_commit ::
  "(pyval \<Rightarrow> string) \<Rightarrow> rules_key \<Rightarrow> int \<Rightarrow> py_time \<Rightarrow> string + rule list \<Rightarrow> resolver
     \<Rightarrow> (refresh_error + rule list) \<times> resolver" where
  "refresh_commit repr key db now answer st =
     (case answer of
        Inl e \<Rightarrow>
          (Inl (SourceFailed e),
           if key = (db, rs_epoch st) then st\<lparr>rs_failure := Some (key, now + 1, e)\<rparr> else st)
      | Inr raw \<Rightarrow>
          (case compile_rules repr raw of
             Inl e \<Rightarrow> (Inl (BadRule e), st)
           | Inr compiled \<Rightarrow>
               (Inr compiled,
                if key = (db, rs_epoch st)
                then st\<lparr>rs_failure := None,
                        rs_snapshot := Some \<lparr>sn_key = key, sn_expires_at = now + rs_ttl st,
                          sn_stale_until = now + rs_ttl st + rs_max_stale st, sn_rules = compiled\<rparr>\<rparr>
                else st)))"

text \<open>\<open>resolve\<close> with the rules at hand: the service's own limit replaces all rules.\<close>

definition resolve_policies ::
  "(pyval \<Rightarrow> string) \<Rightarrow> rule list \<Rightarrow> rate_request \<Rightarrow> rate_user \<Rightarrow> string \<Rightarrow> string \<Rightarrow> rate_service_config option
     \<Rightarrow> py_exn + rate_policy list" where
  "resolve_policies repr rules rq u service_name operation config =
     (case service_config_policy u service_name operation config of
        Some p \<Rightarrow> Inr [p]
      | None \<Rightarrow> policies_from_rules repr rules rq u service_name operation)"

section \<open>Runs of the cache\<close>

text \<open>What can happen: an invalidation, or the answer to a refresh that was started at some epoch for some
  database. Any number of refreshes may be under way, and their answers come in any order.\<close>

datatype cache_event =
    Invalidated
  | Answered rules_key int py_time "string + rule list"

fun cache_exec :: "(pyval \<Rightarrow> string) \<Rightarrow> cache_event \<Rightarrow> resolver \<Rightarrow> resolver" where
  "cache_exec repr Invalidated st = invalidate st"
| "cache_exec repr (Answered key db now answer) st = snd (refresh_commit repr key db now answer st)"

definition cache_run :: "(pyval \<Rightarrow> string) \<Rightarrow> rat \<Rightarrow> rat \<Rightarrow> cache_event list \<Rightarrow> resolver" where
  "cache_run repr ttl max_stale evs = fold (cache_exec repr) evs (mk_resolver ttl max_stale)"

section \<open>Compiled rules\<close>

lemma keyed_rules_Inr:
  "keyed_rules repr rs = Inr krs \<longleftrightarrow>
     map snd krs = rs \<and> (\<forall>(k, r) \<in> set krs. rule_sort_key repr r = Inr k)"
proof (induction rs arbitrary: krs)
  case (Cons r rs)
  then show ?case by (cases krs) (auto simp: result_bind_Inr)
qed auto

definition sorted_by_key :: "(pyval \<Rightarrow> string) \<Rightarrow> rule list \<Rightarrow> bool" where
  "sorted_by_key repr rs \<longleftrightarrow> (\<exists>ks. map (rule_sort_key repr) rs = map Inr ks \<and> sorted ks)"

text \<open>
  Compiling keeps every rule and puts them in order of precedence and then of priority, rules of equal
  rank as they came; it fails exactly when some rule's priority is not a number.\<close>

theorem compiled_rules_sorted:
  "(\<forall>compiled. compile_rules repr rules = Inr compiled \<longrightarrow>
      mset compiled = mset rules \<and> sorted_by_key repr compiled \<and>
      (\<forall>k. filter (\<lambda>r. rule_sort_key repr r = Inr k) compiled = filter (\<lambda>r. rule_sort_key repr r = Inr k) rules)) \<and>
   ((\<exists>e. compile_rules repr rules = Inl e) \<longleftrightarrow> (\<exists>r \<in> set rules. \<exists>e. rule_int r ''priority'' = Inl e))"
proof (intro conjI allI impI)
  fix compiled assume "compile_rules repr rules = Inr compiled"
  then obtain krs where krs: "keyed_rules repr rules = Inr krs" "compiled = map snd (sort_key fst krs)"
    by (auto simp: compile_rules_def result_bind_Inr)
  have m: "map snd krs = rules" and k: "\<And>p. p \<in> set krs \<Longrightarrow> rule_sort_key repr (snd p) = Inr (fst p)"
    using krs(1) by (auto simp: keyed_rules_Inr)
  show "mset compiled = mset rules" unfolding krs(2) m[symmetric] by (simp only: mset_map mset_sort)
  have "map (rule_sort_key repr) compiled = map Inr (map fst (sort_key fst krs))"
    by (simp add: krs(2) k)
  then show "sorted_by_key repr compiled" unfolding sorted_by_key_def
    by (intro exI[of _ "map fst (sort_key fst krs)"]) simp
  fix key
  have f: "filter (\<lambda>r. rule_sort_key repr r = Inr key) (map snd xs) = map snd (filter (\<lambda>p. fst p = key) xs)"
    if "set xs \<subseteq> set krs" for xs
    using that by (induction xs) (auto simp: k)
  show "filter (\<lambda>r. rule_sort_key repr r = Inr key) compiled = filter (\<lambda>r. rule_sort_key repr r = Inr key) rules"
    unfolding krs(2) m[symmetric] by (simp add: f sort_key_stable)
next
  have ok: "(\<exists>e. keyed_rules repr rs = Inl e) \<longleftrightarrow> (\<exists>r \<in> set rs. \<exists>e. rule_int r ''priority'' = Inl e)" for rs
  proof (induction rs)
    case (Cons r rs)
    show ?case
      using Cons by (cases "rule_int r ''priority''"; cases "keyed_rules repr rs") (auto simp: rule_sort_key_def)
  qed simp
  show "(\<exists>e. compile_rules repr rules = Inl e) \<longleftrightarrow> (\<exists>r \<in> set rules. \<exists>e. rule_int r ''priority'' = Inl e)"
    unfolding compile_rules_def ok[symmetric] by (cases "keyed_rules repr rules") simp_all
qed

definition sample_rules :: "rule list" where
  "sample_rules = [[(''scope'', PStr ''global''), (''requests'', PInt 10)],
     [(''scope'', PStr '' Service ''), (''scope_id'', PStr ''agent''), (''requests'', PInt 5),
      (''burst'', PInt 2), (''strategy'', PStr ''token_bucket'')]]"

lemma compiled_rules_sorted_witness:
  "\<exists>compiled. compile_rules (\<lambda>v. []) sample_rules = Inr compiled \<and> mset compiled = mset sample_rules \<and>
     sorted_by_key (\<lambda>v. []) compiled"
proof -
  have "\<not> (\<exists>e. compile_rules (\<lambda>v. []) sample_rules = Inl e)"
    using compiled_rules_sorted[of "\<lambda>v. []" sample_rules]
    by (simp add: sample_rules_def rule_int_def get_val_def or_val_def)
  then show ?thesis using compiled_rules_sorted[of "\<lambda>v. []" sample_rules]
    by (cases "compile_rules (\<lambda>v. []) sample_rules") auto
qed

section \<open>Policies\<close>

definition policy_ok :: "rate_policy \<Rightarrow> bool" where
  "policy_ok p \<longleftrightarrow> 1 \<le> rp_requests p \<and> 1 \<le> rp_window p \<and> 0 \<le> rp_burst p \<and> rp_strategy p \<noteq> []"

lemma policy_from_rule_ok:
  "policy_from_rule repr rule rq u service_name operation = Inr (Some p) \<Longrightarrow>
     policy_ok p \<and> rule_scope repr rule \<in> {''global'', ''service'', ''api_key'', ''tenant'', ''user'', ''operation''} \<and>
     (\<exists>target. rp_key p = bucket_key (rule_scope repr rule) target u operation)"
  by (auto simp: policy_from_rule_def Let_def result_bind_Inr policy_ok_def rule_matches_request_def
      split: if_splits)

lemma policies_from_rules_ok:
  "policies_from_rules repr rules rq u service_name operation = Inr ps \<Longrightarrow> p \<in> set ps \<Longrightarrow>
     \<exists>rule \<in> set rules. policy_from_rule repr rule rq u service_name operation = Inr (Some p)"
proof (induction rules arbitrary: ps)
  case (Cons rule rules)
  then show ?case by (auto simp: result_bind_Inr split: option.splits)
qed simp

text \<open>
  Whatever the rules say, a policy that comes out of the resolver is usable: it allows at least one
  request in a window of at least one second, its burst is not negative and its strategy is named.\<close>

theorem resolved_policies_ok:
  assumes "resolve_policies repr rules rq u service_name operation config = Inr ps" "p \<in> set ps"
  shows "policy_ok p"
proof (cases "service_config_policy u service_name operation config")
  case None
  then show ?thesis using assms policies_from_rules_ok policy_from_rule_ok
    by (fastforce simp: resolve_policies_def)
next
  case (Some q)
  then show ?thesis using assms
    by (auto simp: resolve_policies_def service_config_policy_def policy_ok_def Let_def split: option.splits if_splits)
qed

definition sample_rate_user :: rate_user where
  "sample_rate_user = \<lparr>ru_tenant_id = ''acme:eu'', ru_user_id = ''u1'', ru_ip = [], ru_service_id = []\<rparr>"

definition sample_rate_request :: rate_request where
  "sample_rate_request = \<lparr>rr_api_key_hash = [], rr_api_key_info = []\<rparr>"

definition sample_policies :: "rate_policy list" where
  "sample_policies = [\<lparr>rp_key = ''ratelimit:global:global:acme_eu:u1:chat'', rp_dimension = ''global'', rp_requests = 10,
     rp_window = 1, rp_burst = 0, rp_strategy = ''sliding_window''\<rparr>,
   \<lparr>rp_key = ''ratelimit:service:agent:acme_eu:u1:chat'', rp_dimension = ''service:agent'', rp_requests = 7,
     rp_window = 1, rp_burst = 2, rp_strategy = ''token_bucket''\<rparr>]"

lemma sample_resolve:
  "resolve_policies (\<lambda>v. []) sample_rules sample_rate_request sample_rate_user ''agent'' ''chat'' None
     = Inr sample_policies"
  by code_simp

lemma resolved_policies_ok_witness: "list_all policy_ok sample_policies"
  using resolved_policies_ok[OF sample_resolve] by (simp add: list_all_iff)

section \<open>Buckets\<close>


lemma split_on_append_free: "c \<notin> set s \<Longrightarrow> split_on c (s @ c # t) = s # split_on c t"
  by (simp add: split_on_append split_on_free)

lemma safe_segment_free: "CHR '':'' \<notin> set (safe_segment v)" "CHR ''|'' \<notin> set (safe_segment v)"
  by (auto simp: safe_segment_def py_replace_char_def split: if_splits)

lemma bucket_key_split:
  "CHR '':'' \<notin> set scope \<Longrightarrow> split_on (CHR '':'') (bucket_key scope target u operation) =
     [''ratelimit'', scope, safe_segment target, tenant_of u, subject_of u, safe_segment (or_str operation ''proxy'')]"
proof -
  assume s: "CHR '':'' \<notin> set scope"
  have "bucket_key scope target u operation =
      ''ratelimit'' @ CHR '':'' # scope @ CHR '':'' # safe_segment target @ CHR '':'' # tenant_of u @ CHR '':'' #
      subject_of u @ CHR '':'' # safe_segment (or_str operation ''proxy'')"
    by (simp add: bucket_key_def)
  then show ?thesis
    using s by (simp add: split_on_append_free split_on_free safe_segment_free tenant_of_def subject_of_def
        del: append.append_Cons)
qed

text \<open>
  When two names are the same to the buckets: without blanks around them and with \<open>unknown\<close> for nothing, they
  are equal but that a colon, a bar and an underscore are not told apart.\<close>

definition named :: "string \<Rightarrow> string" where
  "named s = (if py_strip s = [] then ''unknown'' else py_strip s)"

definition same_name :: "string \<Rightarrow> string \<Rightarrow> bool" where
  "same_name a b \<longleftrightarrow>
     list_all2 (\<lambda>x y. x = y \<or> x \<in> set '':|_'' \<and> y \<in> set '':|_'') (named a) (named b)"

definition segment_char :: "char \<Rightarrow> char" where
  "segment_char c = (if c \<in> set '':|'' then CHR ''_'' else c)"

lemma segment_char_eq: "segment_char x = segment_char y \<longleftrightarrow> x = y \<or> x \<in> set '':|_'' \<and> y \<in> set '':|_''"
  unfolding segment_char_def by (cases "x \<in> set '':|''"; cases "y \<in> set '':|''") auto

lemma safe_segment_named: "safe_segment v = map segment_char (named v)"
  by (simp add: safe_segment_def py_replace_char_def named_def or_str_def segment_char_def)

lemma safe_segment_eq: "safe_segment a = safe_segment b \<longleftrightarrow> same_name a b"
  unfolding safe_segment_named same_name_def segment_char_eq[symmetric]
  by (auto simp: list_all2_conv_all_nth list_eq_iff_nth_eq)

text \<open>The scope and the target of a policy, from the rule or the service configuration it was made of.\<close>

definition names_bucket ::
  "(pyval \<Rightarrow> string) \<Rightarrow> rate_request \<Rightarrow> rate_user \<Rightarrow> string \<Rightarrow> string \<Rightarrow> rate_policy \<Rightarrow> string \<Rightarrow> string \<Rightarrow> bool" where
  "names_bucket repr rq u service_name operation p scope target \<longleftrightarrow>
     (\<exists>rule. policy_from_rule repr rule rq u service_name operation = Inr (Some p) \<and> scope = rule_scope repr rule \<and>
        target = (if rule_str repr rule ''scope_id'' \<noteq> [] then rule_str repr rule ''scope_id''
                  else if scope = ''global'' then ''global'' else ''service:'' @ service_name)) \<or>
     (\<exists>c. service_config_policy u service_name operation (Some c) = Some p \<and> scope = ''service'' \<and>
        target = (if service_name \<noteq> [] then service_name else rc_service_id c))"

lemma names_bucket_key:
  assumes "names_bucket repr rq u service_name operation p scope target"
  shows "rp_key p = bucket_key scope target u operation \<and> CHR '':'' \<notin> set scope"
  using assms unfolding names_bucket_def
proof (elim disjE exE conjE)
  fix rule assume p: "policy_from_rule repr rule rq u service_name operation = Inr (Some p)" "scope = rule_scope repr rule"
    "target = (if rule_str repr rule ''scope_id'' \<noteq> [] then rule_str repr rule ''scope_id''
       else if scope = ''global'' then ''global'' else ''service:'' @ service_name)"
  from policy_from_rule_ok[OF p(1)]
  have "rule_scope repr rule \<in> {''global'', ''service'', ''api_key'', ''tenant'', ''user'', ''operation''}" by blast
  then have "CHR '':'' \<notin> set scope" unfolding p(2) by auto
  moreover
  let ?id = "rule_str repr rule ''scope_id''"
  have k: "rp_key p = bucket_key scope (or_str ?id (rule_dimension scope ?id service_name operation)) u operation"
      "rule_matches_request repr scope ?id rq u service_name operation"
    using p(1) unfolding p(2) by (auto simp: policy_from_rule_def Let_def result_bind_Inr split: if_splits)
  have "?id = [] \<Longrightarrow> scope = ''global'' \<or> scope = ''service''"
    using k(2) unfolding rule_matches_request_def by (simp split: if_splits)
  then have "rp_key p = bucket_key scope target u operation"
    using k(1) unfolding p(3) by (auto simp: or_str_def rule_dimension_def)
  ultimately show ?thesis by simp
next
  fix c assume "service_config_policy u service_name operation (Some c) = Some p" "scope = ''service''"
    "target = (if service_name \<noteq> [] then service_name else rc_service_id c)"
  then show ?thesis by (auto simp: service_config_policy_def Let_def or_str_def split: if_splits)
qed

text \<open>Every policy of a request is of this kind.\<close>

lemma resolved_names_bucket:
  assumes "resolve_policies repr rules rq u service_name operation config = Inr ps" "p \<in> set ps"
  shows "\<exists>scope target. names_bucket repr rq u service_name operation p scope target"
proof (cases "service_config_policy u service_name operation config")
  case None
  then have "policies_from_rules repr rules rq u service_name operation = Inr ps"
    using assms(1) by (simp add: resolve_policies_def)
  from policies_from_rules_ok[OF this assms(2)] show ?thesis unfolding names_bucket_def by blast
next
  case (Some q)
  moreover from Some have "p = q" using assms by (auto simp: resolve_policies_def)
  moreover from Some obtain c where "config = Some c" by (cases config) (simp_all add: service_config_policy_def)
  ultimately show ?thesis unfolding names_bucket_def by blast
qed

text \<open>
  C19: Which requests share a bucket, exactly. The keys of two policies, made of any rules or service limits for any
  requests, are equal if and only if the policies have the same scope, the same target, that is the scope id or
  the service, and their callers the same tenant, the same subject (user id, else address) and operation, where
  names count as the same if they differ only in surrounding blanks and in colons, bars and underscores. So
  \<open>a:b\<close> and \<open>a_b\<close> share a bucket, and no id can spell itself into another field of the key.\<close>

theorem buckets_shared_iff:
  assumes "names_bucket repr rq1 u1 service1 op1 p1 scope1 target1"
    and "names_bucket repr rq2 u2 service2 op2 p2 scope2 target2"
  shows "rp_key p1 = rp_key p2 \<longleftrightarrow> scope1 = scope2 \<and> same_name target1 target2 \<and>
     same_name (or_str (ru_tenant_id u1) ''public'') (or_str (ru_tenant_id u2) ''public'') \<and>
     same_name (or_str (ru_user_id u1) (or_str (ru_ip u1) ''anonymous''))
       (or_str (ru_user_id u2) (or_str (ru_ip u2) ''anonymous'')) \<and>
     same_name (or_str op1 ''proxy'') (or_str op2 ''proxy'')"
proof -
  note k1 = names_bucket_key[OF assms(1)] and k2 = names_bucket_key[OF assms(2)]
  have "rp_key p1 = rp_key p2 \<longleftrightarrow> split_on (CHR '':'') (rp_key p1) = split_on (CHR '':'') (rp_key p2)"
    by (metis join_split)
  also have "\<dots> \<longleftrightarrow> scope1 = scope2 \<and> safe_segment target1 = safe_segment target2 \<and> tenant_of u1 = tenant_of u2 \<and>
      subject_of u1 = subject_of u2 \<and> safe_segment (or_str op1 ''proxy'') = safe_segment (or_str op2 ''proxy'')"
    using k1 k2 by (simp add: bucket_key_split)
  finally show ?thesis unfolding tenant_of_def subject_of_def safe_segment_eq .
qed

lemma buckets_shared_iff_witness:
  "let rule = [(''scope'', PStr ''user''), (''scope_id'', PStr ''a:b''), (''requests'', PInt 1)];
       rule' = [(''scope'', PStr ''user''), (''scope_id'', PStr ''a_b''), (''requests'', PInt 9)];
       u = \<lparr>ru_tenant_id = ''t'', ru_user_id = ''a:b'', ru_ip = [], ru_service_id = []\<rparr>;
       key = (\<lambda>r u. case policy_from_rule (\<lambda>v. []) r sample_rate_request u ''agent'' ''chat'' of
                Inr (Some p) \<Rightarrow> rp_key p | _ \<Rightarrow> [])
   in key rule u = key rule' (u\<lparr>ru_user_id := ''a_b''\<rparr>)"
proof -
  let ?rule = "\<lambda>i n. [(''scope'', PStr ''user''), (''scope_id'', PStr i), (''requests'', PInt n)]"
  let ?u = "\<lambda>i. \<lparr>ru_tenant_id = ''t'', ru_user_id = i, ru_ip = [], ru_service_id = []\<rparr>"
  let ?p = "\<lambda>i n. \<lparr>rp_key = bucket_key ''user'' i (?u i) ''chat'', rp_dimension = ''user:'' @ i, rp_requests = n,
     rp_window = 1, rp_burst = 0, rp_strategy = ''sliding_window''\<rparr>"
  have p: "policy_from_rule (\<lambda>v. []) (?rule ''a:b'' 1) sample_rate_request (?u ''a:b'') ''agent'' ''chat'' = Inr (Some (?p ''a:b'' 1))"
    "policy_from_rule (\<lambda>v. []) (?rule ''a_b'' 9) sample_rate_request (?u ''a_b'') ''agent'' ''chat'' = Inr (Some (?p ''a_b'' 9))"
    by code_simp+
  have s: "rule_scope (\<lambda>v. []) (?rule ''a:b'' 1) = ''user''" "rule_scope (\<lambda>v. []) (?rule ''a_b'' 9) = ''user''"
    "rule_str (\<lambda>v. []) (?rule ''a:b'' 1) ''scope_id'' = ''a:b''" "rule_str (\<lambda>v. []) (?rule ''a_b'' 9) ''scope_id'' = ''a_b''"
    by code_simp+
  have n: "names_bucket (\<lambda>v. []) sample_rate_request (?u ''a:b'') ''agent'' ''chat'' (?p ''a:b'' 1) ''user'' ''a:b''"
    unfolding names_bucket_def using p(1) s(1,3) by (intro disjI1 exI[of _ "?rule ''a:b'' 1"]) simp
  have n': "names_bucket (\<lambda>v. []) sample_rate_request (?u ''a_b'') ''agent'' ''chat'' (?p ''a_b'' 9) ''user'' ''a_b''"
    unfolding names_bucket_def using p(2) s(2,4) by (intro disjI1 exI[of _ "?rule ''a_b'' 9"]) simp
  have "same_name ''a:b'' ''a_b''" "same_name ''t'' ''t''" "same_name ''chat'' ''chat''" by code_simp+
  with buckets_shared_iff[OF n n'] have "rp_key (?p ''a:b'' 1) = rp_key (?p ''a_b'' 9)" by (simp add: or_str_def)
  with p show ?thesis by (simp add: Let_def)
qed

section \<open>Freshness\<close>

definition epoch_after :: "cache_event list \<Rightarrow> nat" where
  "epoch_after evs = length (filter (\<lambda>e. e = Invalidated) evs)"

text \<open>What the snapshot of a run is: the compiled answer to a refresh that was started after the last
  invalidation, with the deadlines counted from the moment it arrived.\<close>

definition snapshot_from :: "(pyval \<Rightarrow> string) \<Rightarrow> resolver \<Rightarrow> cache_event list \<Rightarrow> rule_snapshot \<Rightarrow> bool" where
  "snapshot_from repr st evs sn \<longleftrightarrow>
     (\<exists>pre post db t raw. evs = pre @ Answered (db, epoch_after pre) db t (Inr raw) # post \<and>
        Invalidated \<notin> set post \<and> compile_rules repr raw = Inr (sn_rules sn) \<and>
        sn_key sn = (db, epoch_after pre) \<and> sn_expires_at sn = t + rs_ttl st \<and>
        sn_stale_until sn = t + rs_ttl st + rs_max_stale st)"

lemma epoch_after_simps [simp]:
  "epoch_after [] = 0" "epoch_after (evs @ [e]) = epoch_after evs + (if e = Invalidated then 1 else 0)"
  by (simp_all add: epoch_after_def)

lemma cache_run_fields:
  "rs_epoch (cache_run repr ttl max_stale evs) = epoch_after evs \<and>
   rs_ttl (cache_run repr ttl max_stale evs) = max ttl 0 \<and>
   rs_max_stale (cache_run repr ttl max_stale evs) = max max_stale 0"
proof (induction evs rule: rev_induct)
  case (snoc e evs)
  then show ?case
    by (cases e) (auto simp: cache_run_def invalidate_def refresh_commit_def split: sum.splits)
qed (simp add: cache_run_def mk_resolver_def)

lemma snapshot_from_snoc:
  "snapshot_from repr st evs sn \<Longrightarrow> e \<noteq> Invalidated \<Longrightarrow> rs_ttl st' = rs_ttl st \<Longrightarrow>
     rs_max_stale st' = rs_max_stale st \<Longrightarrow> snapshot_from repr st' (evs @ [e]) sn"
  unfolding snapshot_from_def by fastforce

lemma cache_run_snapshot:
  "rs_snapshot (cache_run repr ttl max_stale evs) = Some sn \<Longrightarrow>
     snapshot_from repr (cache_run repr ttl max_stale evs) evs sn"
proof (induction evs arbitrary: sn rule: rev_induct)
  case (snoc e evs)
  let ?st = "cache_run repr ttl max_stale evs" and ?st' = "cache_run repr ttl max_stale (evs @ [e])"
  have st': "?st' = cache_exec repr e ?st" by (simp add: cache_run_def)
  note f = cache_run_fields[of repr ttl max_stale evs] cache_run_fields[of repr ttl max_stale "evs @ [e]"]
  show ?case
  proof (cases "rs_snapshot ?st' = rs_snapshot ?st \<and> e \<noteq> Invalidated")
    case True
    then show ?thesis using snoc.prems f by (intro snapshot_from_snoc[OF snoc.IH]) auto
  next
    case False
    show ?thesis
    proof (cases e)
      case Invalidated
      then show ?thesis using snoc.prems st' by (simp add: invalidate_def)
    next
      case (Answered key db t answer)
      then obtain raw compiled where r: "answer = Inr raw" "compile_rules repr raw = Inr compiled"
          "key = (db, rs_epoch ?st)" "sn = \<lparr>sn_key = key, sn_expires_at = t + rs_ttl ?st,
             sn_stale_until = t + rs_ttl ?st + rs_max_stale ?st, sn_rules = compiled\<rparr>"
        using False snoc.prems st' by (auto simp: refresh_commit_def split: sum.splits if_splits)
      then show ?thesis unfolding snapshot_from_def
        by (intro exI[of _ evs] exI[of _ "[]"] exI[of _ db] exI[of _ t] exI[of _ raw])
          (use Answered f in simp)
    qed
  qed
qed (simp add: cache_run_def mk_resolver_def)

lemma served_snapshot:
  assumes "rs_snapshot (cache_run repr ttl max_stale evs) = Some sn" "sn_key sn = (db, e)"
  shows "\<exists>pre post t raw. evs = pre @ Answered (db, epoch_after evs) db t (Inr raw) # post \<and>
     Invalidated \<notin> set post \<and> compile_rules repr raw = Inr (sn_rules sn) \<and> e = epoch_after evs \<and>
     sn_expires_at sn = t + max ttl 0 \<and> sn_stale_until sn = t + max ttl 0 + max max_stale 0"
proof -
  let ?st = "cache_run repr ttl max_stale evs"
  from cache_run_snapshot[OF assms(1)] obtain pre post t raw d where
    ev: "evs = pre @ Answered (d, epoch_after pre) d t (Inr raw) # post" "Invalidated \<notin> set post"
      "compile_rules repr raw = Inr (sn_rules sn)" "sn_key sn = (d, epoch_after pre)"
      "sn_expires_at sn = t + rs_ttl ?st" "sn_stale_until sn = t + rs_ttl ?st + rs_max_stale ?st"
    by (auto simp: snapshot_from_def)
  have "filter (\<lambda>e. e = Invalidated) post = []" using ev(2) by (auto simp: filter_empty_conv)
  then have e: "epoch_after evs = epoch_after pre" by (simp add: ev(1) epoch_after_def)
  have d: "db = d" "e = epoch_after evs" using ev(4) assms(2) e by simp_all
  show ?thesis
    by (intro exI[of _ pre] exI[of _ post] exI[of _ t] exI[of _ raw], unfold e d)
      (use ev cache_run_fields[of repr ttl max_stale evs] in simp)
qed

text \<open>
  C20: No request is limited by cached rules that are too old. Rules that come from the cache, to a request or to a
  refresh that finds the work done when it gets the lock, are the compiled answer to a query of this database
  that was started after the last invalidation, whatever refreshes of earlier epochs still come in. They are
  served as fresh, and reused by the refresh, less than the time to live after that answer, and as stale at
  most the stale budget longer.\<close>

theorem served_rules_are_recent:
  assumes "load_decision db now (cache_run repr ttl max_stale evs) = ServeFresh rules \<or>
           load_decision db now (cache_run repr ttl max_stale evs) = ServeStale rules \<or>
           refresh_check (db, e) now (cache_run repr ttl max_stale evs) = AlreadyFresh rules"
  shows "\<exists>pre post t raw. evs = pre @ Answered (db, epoch_after evs) db t (Inr raw) # post \<and>
     Invalidated \<notin> set post \<and> compile_rules repr raw = Inr rules \<and>
     now \<le> t + max ttl 0 + max max_stale 0 \<and>
     (load_decision db now (cache_run repr ttl max_stale evs) = ServeFresh rules \<longrightarrow> now < t + max ttl 0) \<and>
     (refresh_check (db, e) now (cache_run repr ttl max_stale evs) = AlreadyFresh rules \<longrightarrow>
        e = epoch_after evs \<and> now < t + max ttl 0)"
proof -
  let ?st = "cache_run repr ttl max_stale evs"
  obtain sn where sn: "rs_snapshot ?st = Some sn"
    using assms by (cases "rs_snapshot ?st")
      (simp_all add: load_decision_def refresh_check_def split: option.splits prod.splits if_splits)
  have dec: "load_decision db now ?st =
      (if sn_key sn \<noteq> (db, rs_epoch ?st) then RefreshNow
       else if now < sn_expires_at sn then ServeFresh (sn_rules sn)
       else if now \<le> sn_stale_until sn then ServeStale (sn_rules sn) else RefreshNow)"
    by (simp add: load_decision_def sn)
  have chk: "refresh_check (db, e) now ?st = AlreadyFresh r \<longleftrightarrow>
      sn_key sn = (db, e) \<and> now < sn_expires_at sn \<and> r = sn_rules sn" for r
    by (auto simp: refresh_check_def sn split: option.splits if_splits)
  obtain e' where e': "sn_key sn = (db, e')" using assms unfolding dec chk by (auto split: if_splits)
  from served_snapshot[OF sn e'] obtain pre post t raw where
    ev: "evs = pre @ Answered (db, epoch_after evs) db t (Inr raw) # post" "Invalidated \<notin> set post"
      "compile_rules repr raw = Inr (sn_rules sn)" "e' = epoch_after evs"
      "sn_expires_at sn = t + max ttl 0" "sn_stale_until sn = t + max ttl 0 + max max_stale 0" by blast
  have "rules = sn_rules sn" "now \<le> sn_stale_until sn \<or> now < sn_expires_at sn"
    using assms unfolding dec chk by (auto split: if_splits)
  moreover have "load_decision db now ?st = ServeFresh rules \<Longrightarrow> now < sn_expires_at sn"
    unfolding dec by (simp split: if_splits)
  ultimately show ?thesis
    using ev e' chk[of rules]
    by (intro exI[of _ pre] exI[of _ post] exI[of _ t] exI[of _ raw]) (auto intro: order_trans[OF less_imp_le])
qed

definition sample_answers :: "cache_event list" where
  "sample_answers = [Answered (1, 0) 1 10 (Inr sample_rules), Invalidated, Answered (1, 0) 1 12 (Inr []),
     Answered (1, 1) 1 13 (Inr sample_rules)]"

lemma sample_answers_stale:
  "load_decision 1 16 (cache_run (\<lambda>v. []) 1 5 sample_answers) = ServeStale (rev sample_rules)"
  by code_simp

lemma sample_answers_fresh:
  "refresh_check (1, 1) (27 / 2) (cache_run (\<lambda>v. []) 1 5 sample_answers) = AlreadyFresh (rev sample_rules)"
  by code_simp

lemma served_rules_are_recent_witness:
  "(\<exists>pre post t raw. sample_answers = pre @ Answered (1, epoch_after sample_answers) 1 t (Inr raw) # post \<and>
     Invalidated \<notin> set post \<and> compile_rules (\<lambda>v. []) raw = Inr (rev sample_rules) \<and> 16 \<le> t + 6) \<and>
   (\<exists>pre post t raw. sample_answers = pre @ Answered (1, epoch_after sample_answers) 1 t (Inr raw) # post \<and>
     Invalidated \<notin> set post \<and> compile_rules (\<lambda>v. []) raw = Inr (rev sample_rules) \<and> 27 / 2 < t + 1)"
proof
  show "\<exists>pre post t raw. sample_answers = pre @ Answered (1, epoch_after sample_answers) 1 t (Inr raw) # post \<and>
     Invalidated \<notin> set post \<and> compile_rules (\<lambda>v. []) raw = Inr (rev sample_rules) \<and> 16 \<le> t + 6"
    using served_rules_are_recent[OF disjI2[OF disjI1[OF sample_answers_stale]]] by (simp, blast)
  show "\<exists>pre post t raw. sample_answers = pre @ Answered (1, epoch_after sample_answers) 1 t (Inr raw) # post \<and>
     Invalidated \<notin> set post \<and> compile_rules (\<lambda>v. []) raw = Inr (rev sample_rules) \<and> 27 / 2 < t + 1"
    using served_rules_are_recent[OF disjI2[OF disjI2[OF sample_answers_fresh]]] sample_answers_fresh by (simp, blast)
qed

end
