(* ===== verification/Replay.thy ===== *)
theory Replay
  imports Gw_Prelude
begin

text \<open>
  Replay protection (\<open>src/packages/ai-gateway-contracts/src/ai_gateway_contracts/replay.py\<close>): the
  process-local store of seen request ids, an \<open>OrderedDict\<close> from the id to its expiry in milliseconds,
  oldest first.
\<close>

record replay_store =
  rp_seen :: "(string, int) py_dict"
  rp_capacity :: nat

definition evict_stale :: "int \<Rightarrow> (string, int) py_dict \<Rightarrow> (string, int) py_dict" where
  "evict_stale now seen = fold (\<lambda>(rid, _). dict_pop rid) (takeWhile (\<lambda>(_, expires). expires \<le> now) seen) seen"

text \<open>\<open>while len(seen) > capacity: seen.popitem(last=False)\<close>, for a capacity that is not negative.\<close>

definition trim_oldest :: "nat \<Rightarrow> (string, int) py_dict \<Rightarrow> (string, int) py_dict" where
  "trim_oldest capacity seen = drop (length seen - capacity) seen"

text \<open>Assignment followed by \<open>move_to_end\<close> puts the id last.\<close>

definition seen_or_record :: "int \<Rightarrow> string \<Rightarrow> int \<Rightarrow> replay_store \<Rightarrow> bool \<times> replay_store" where
  "seen_or_record now rid ttl st =
     (let seen = evict_stale now (rp_seen st)
      in case dict_get seen rid of
           Some expires \<Rightarrow>
             if now < expires then (True, st\<lparr>rp_seen := seen\<rparr>)
             else (False, st\<lparr>rp_seen := trim_oldest (rp_capacity st) (dict_pop rid seen @ [(rid, now + ttl)])\<rparr>)
         | None \<Rightarrow> (False, st\<lparr>rp_seen := trim_oldest (rp_capacity st) (dict_pop rid seen @ [(rid, now + ttl)])\<rparr>))"

section \<open>Lemmas\<close>

lemma pop_all_Cons:
  "k \<notin> set (map fst ps) \<Longrightarrow> fold (\<lambda>(rid, _). dict_pop rid) ps ((k, v) # d) = (k, v) # fold (\<lambda>(rid, _). dict_pop rid) ps d"
  by (induction ps arbitrary: d) (auto simp: split_beta)

lemma evict_stale_dropWhile:
  "dict_ok seen \<Longrightarrow> evict_stale now seen = dropWhile (\<lambda>(_, expires). expires \<le> now) seen"
proof (induction seen)
  case (Cons p seen)
  obtain k v where p: "p = (k, v)" by (cases p)
  have "dict_pop k seen = seen" using Cons.prems by (simp add: p dict_ok_def)
  then show ?case using Cons by (simp add: evict_stale_def p dict_ok_def)
qed (simp add: evict_stale_def)

lemma dict_ok_dropWhile: "dict_ok d \<Longrightarrow> dict_ok (dropWhile P d)"
  unfolding dict_ok_def by (metis distinct_append map_append takeWhile_dropWhile_id)

lemma dict_ok_drop: "dict_ok d \<Longrightarrow> dict_ok (drop n d)"
  by (simp add: dict_ok_def drop_map[symmetric])

definition replay_ok :: "replay_store \<Rightarrow> bool" where
  "replay_ok st \<longleftrightarrow> dict_ok (rp_seen st) \<and> length (rp_seen st) \<le> rp_capacity st"

lemma recorded_ok: "dict_ok seen \<Longrightarrow> dict_ok (dict_pop rid seen @ [(rid, x)])"
  by (simp add: dict_ok_def distinct_delete delete_notin_dom)

lemma trim_ok: "dict_ok d \<Longrightarrow> dict_ok (trim_oldest n d)" "length (trim_oldest n d) \<le> n"
  by (simp_all add: trim_oldest_def dict_ok_drop)

lemma seen_or_record_ok: "replay_ok st \<Longrightarrow> replay_ok (snd (seen_or_record now rid ttl st))"
  using length_dropWhile_le[of "\<lambda>(_, expires). expires \<le> now" "rp_seen st"]
  by (auto simp: seen_or_record_def replay_ok_def Let_def evict_stale_dropWhile
      intro!: trim_ok recorded_ok dict_ok_dropWhile split: option.splits)

text \<open>An unexpired entry with only ids of \<open>S\<close> behind it.\<close>

definition held :: "string \<Rightarrow> int \<Rightarrow> string set \<Rightarrow> replay_store \<Rightarrow> bool" where
  "held rid expires S st \<longleftrightarrow> replay_ok st \<and>
     (\<exists>a b. rp_seen st = a @ (rid, expires) # b \<and> fst ` set b \<subseteq> S)"

text \<open>The ids that a sequence of calls is about, other than one of them.\<close>

definition other_ids :: "string \<Rightarrow> (int \<times> string \<times> int) list \<Rightarrow> string set" where
  "other_ids rid calls = (fst \<circ> snd) ` set calls - {rid}"

lemma evict_keeps:
  assumes "dict_ok (a @ (rid, expires) # b)" and "now < expires"
  shows "\<exists>a'. evict_stale now (a @ (rid, expires) # b) = a' @ (rid, expires) # b"
  using assms(2) unfolding evict_stale_dropWhile[OF assms(1)]
  by (induction a) auto

lemma held_detects:
  assumes "held rid expires S st" and "now < expires"
  shows "fst (seen_or_record now rid ttl st)"
proof -
  obtain a b where "rp_seen st = a @ (rid, expires) # b" "dict_ok (rp_seen st)"
    using assms(1) by (auto simp: held_def replay_ok_def)
  moreover then obtain a' where "evict_stale now (rp_seen st) = a' @ (rid, expires) # b"
    using evict_keeps assms(2) by metis
  moreover have "dict_ok (evict_stale now (rp_seen st))"
    using calculation(2) by (simp add: evict_stale_dropWhile dict_ok_dropWhile)
  ultimately have "dict_get (evict_stale now (rp_seen st)) rid = Some expires"
    by (metis dict_get_iff in_set_conv_decomp)
  then show ?thesis using assms(2) by (simp add: seen_or_record_def Let_def)
qed

lemma held_step:
  assumes h: "held rid expires S st" and now: "now < expires"
    and S: "finite S" "card S < rp_capacity st" "rid' \<in> insert rid S"
  shows "held rid expires S (snd (seen_or_record now rid' ttl st))"
proof -
  obtain a b where st: "rp_seen st = a @ (rid, expires) # b" "fst ` set b \<subseteq> S" and ok: "replay_ok st"
    using h by (auto simp: held_def)
  then have dok: "dict_ok (rp_seen st)" by (simp add: replay_ok_def)
  obtain a' where a': "evict_stale now (rp_seen st) = a' @ (rid, expires) # b"
    using evict_keeps now st(1) dok by metis
  note ok' = seen_or_record_ok[OF ok, of now rid' ttl]
  show ?thesis
  proof (cases "fst (seen_or_record now rid' ttl st)")
    case True
    then have "snd (seen_or_record now rid' ttl st) = st\<lparr>rp_seen := a' @ (rid, expires) # b\<rparr>"
      by (auto simp: seen_or_record_def Let_def a' split: option.splits if_splits)
    then show ?thesis using ok' st(2) unfolding held_def by (intro conjI exI[of _ a'] exI[of _ b]) auto
  next
    case False
    then have ne: "rid' \<noteq> rid" using held_detects[OF h now, of ttl] by blast
    let ?a = "dict_pop rid' a'" and ?b = "dict_pop rid' b @ [(rid', now + ttl)]"
    have pop: "dict_pop rid' (a' @ (rid, expires) # b) = ?a @ (rid, expires) # dict_pop rid' b"
      using ne by (simp add: AList.delete_eq)
    have "set (dict_pop rid' b) \<subseteq> set b" by (auto simp: AList.delete_eq)
    then have sub: "fst ` set ?b \<subseteq> S" using st(2) ne S(3) by auto
    have "distinct (map fst b)" using dok by (simp add: st(1) dict_ok_def)
    then have "distinct (map fst ?b)" by (simp add: distinct_delete delete_notin_dom)
    then have "length ?b = card (fst ` set ?b)"
      by (metis distinct_card length_map set_map)
    then have len: "length ?b < rp_capacity st"
      using card_mono[OF S(1) sub] S(2) by linarith
    have "snd (seen_or_record now rid' ttl st) =
        st\<lparr>rp_seen := trim_oldest (rp_capacity st) (?a @ (rid, expires) # ?b)\<rparr>"
      using False by (auto simp: seen_or_record_def Let_def a' pop split: option.splits if_splits)
    moreover have "trim_oldest (rp_capacity st) (?a @ (rid, expires) # ?b) =
        drop (length (?a @ (rid, expires) # ?b) - rp_capacity st) ?a @ (rid, expires) # ?b"
      using len by (simp add: trim_oldest_def)
    ultimately have "rp_seen (snd (seen_or_record now rid' ttl st)) =
        drop (length (?a @ (rid, expires) # ?b) - rp_capacity st) ?a @ (rid, expires) # ?b" by simp
    then show ?thesis using ok' sub unfolding held_def by blast
  qed
qed

lemma seen_or_record_capacity [simp]: "rp_capacity (snd (seen_or_record now rid ttl st)) = rp_capacity st"
  by (simp add: seen_or_record_def Let_def split: option.splits)

lemma held_run:
  "held rid expires S st \<Longrightarrow> finite S \<Longrightarrow> card S < rp_capacity st \<Longrightarrow> other_ids rid calls \<subseteq> S \<Longrightarrow>
   \<forall>(now, _, _) \<in> set calls. now < expires \<Longrightarrow>
   held rid expires S (fold (\<lambda>(now, r, ttl) s. snd (seen_or_record now r ttl s)) calls st)"
proof (induction calls arbitrary: st)
  case (Cons c calls)
  obtain now r ttl where c: "c = (now, r, ttl)" by (cases c)
  have "held rid expires S (snd (seen_or_record now r ttl st))"
    using Cons.prems by (intro held_step) (auto simp: c other_ids_def)
  from Cons.IH[OF this] Cons.prems show ?case by (auto simp: c other_ids_def)
qed simp

lemma recorded_held:
  assumes "replay_ok st" and "0 < rp_capacity st" and "seen_or_record now rid ttl st = (False, st')"
  shows "held rid (now + ttl) S st'"
proof -
  let ?d = "dict_pop rid (evict_stale now (rp_seen st))"
  have "st' = st\<lparr>rp_seen := trim_oldest (rp_capacity st) (?d @ [(rid, now + ttl)])\<rparr>"
    using assms(3) by (auto simp: seen_or_record_def Let_def split: option.splits if_splits)
  moreover have "trim_oldest (rp_capacity st) (?d @ [(rid, now + ttl)]) =
      drop (Suc (length ?d) - rp_capacity st) ?d @ [(rid, now + ttl)]"
    using assms(2) by (simp add: trim_oldest_def)
  ultimately have "rp_seen st' = drop (Suc (length ?d) - rp_capacity st) ?d @ (rid, now + ttl) # []" by simp
  then show ?thesis
    using seen_or_record_ok[OF assms(1), of now rid ttl] assms(3) unfolding held_def
    by (metis empty_subsetI image_empty list.set(1) snd_conv)
qed

text \<open>A recorded id is held until it expires, whatever calls about fewer other ids than \<open>rp_capacity\<close> do in between.\<close>

lemma recorded_stays:
  assumes "replay_ok st" "seen_or_record now rid ttl st = (False, st')" "card (other_ids rid calls) < rp_capacity st"
    and "\<forall>(t, _, _) \<in> set calls. t < now + ttl"
  shows "held rid (now + ttl) (other_ids rid calls) (fold (\<lambda>(t, r, l) s. snd (seen_or_record t r l s)) calls st')"
proof -
  have cap: "rp_capacity st' = rp_capacity st" using assms(2) seen_or_record_capacity by (metis snd_conv)
  have "0 < rp_capacity st" using assms(3) by linarith
  from recorded_held[OF assms(1) this assms(2)] have "held rid (now + ttl) (other_ids rid calls) st'" .
  then show ?thesis
    using assms(3,4) cap by (intro held_run) (simp_all add: other_ids_def)
qed

lemma other_ids_le: "card (other_ids rid calls) \<le> length calls"
proof -
  have "card (other_ids rid calls) \<le> card ((fst \<circ> snd) ` set calls)"
    by (rule card_mono) (auto simp: other_ids_def)
  also have "\<dots> \<le> length calls" using card_image_le[of "set calls" "fst \<circ> snd"] card_length[of calls] by simp
  finally show ?thesis .
qed

lemma recorded_then_refused:
  assumes "replay_ok st" "seen_or_record now rid ttl st = (False, st')" "card (other_ids rid calls) < rp_capacity st"
    and "\<forall>(t, _, _) \<in> set calls. t \<le> now'" "now' < now + ttl"
  shows "fst (seen_or_record now' rid ttl' (fold (\<lambda>(t, r, l) s. snd (seen_or_record t r l s)) calls st'))"
  using recorded_stays[OF assms(1-3)] held_detects assms(4,5) by fastforce

section \<open>Properties\<close>

text \<open>
  C14: a replay is detected. An id that was recorded is reported as seen at any time before it expires,
  as long as the calls that came in between were about fewer other ids than the capacity, however many they
  were and at whatever times before the expiry; and the store never exceeds its capacity.
\<close>

theorem replay_is_detected:
  assumes "replay_ok st" and "seen_or_record now rid ttl st = (False, st')"
    and "card (other_ids rid calls) < rp_capacity st" and "\<forall>(t, _, _) \<in> set calls. t < now + ttl" and "now' < now + ttl"
    and "st'' = fold (\<lambda>(t, r, l) s. snd (seen_or_record t r l s)) calls st'"
  shows "fst (seen_or_record now' rid ttl' st'') \<and> length (rp_seen st'') \<le> rp_capacity st"
proof -
  have held: "held rid (now + ttl) (other_ids rid calls) st''"
    using recorded_stays[OF assms(1-4)] by (simp add: assms(6))
  have "rp_capacity (fold (\<lambda>(t, r, l) s. snd (seen_or_record t r l s)) calls s) = rp_capacity s" for s
    by (induction calls arbitrary: s) auto
  moreover have "rp_capacity st' = rp_capacity st" using assms(2) seen_or_record_capacity by (metis snd_conv)
  ultimately have "rp_capacity st'' = rp_capacity st" by (simp add: assms(6))
  then show ?thesis
    using held_detects[OF held assms(5)] held by (simp add: held_def replay_ok_def)
qed

theorem replay_is_detected_witness:
  "fst (seen_or_record 90 ''r1'' 100 (fold (\<lambda>(t, r, l) s. snd (seen_or_record t r l s))
     [(10, ''r2'', 5), (20, ''r3'', 100), (30, ''r3'', 100), (40, ''r1'', 100)]
     (snd (seen_or_record 0 ''r1'' 100 \<lparr>rp_seen = [], rp_capacity = 3\<rparr>))))"
proof -
  let ?st = "\<lparr>rp_seen = [], rp_capacity = 3\<rparr> :: replay_store"
  have ok: "replay_ok ?st" by (simp add: replay_ok_def)
  have rec: "seen_or_record 0 ''r1'' 100 ?st = (False, snd (seen_or_record 0 ''r1'' 100 ?st))"
    by (simp add: seen_or_record_def evict_stale_def)
  have "other_ids ''r1'' [(10, ''r2'', 5), (20, ''r3'', 100), (30, ''r3'', 100), (40, ''r1'', 100)] = {''r2'', ''r3''}"
    by (auto simp: other_ids_def)
  then show ?thesis
    by (intro replay_is_detected[OF ok rec _ _ _ refl, THEN conjunct1]) simp_all
qed

end
