(* ===== verification/Gateway_Secret.thy ===== *)
theory Gateway_Secret
  imports Replay Py_Value
begin

text \<open>
  The signature between the gateway and its services
  (\<open>src/packages/ai-gateway-core/src/ai_gateway_core/auth/gateway_secret.py\<close>) and the middleware that checks
  it (\<open>gateway_secret_middleware.py\<close>), over the replay store of \<open>Replay\<close>. The arguments \<open>mac\<close> and
  \<open>sha\<close> are HMAC-SHA256 of a secret and a text, and SHA-256 of a body, as hexadecimal texts; texts are
  ASCII, so a character is a byte. Environment variables and clock readings are arguments.
\<close>

section \<open>Configuration\<close>

datatype secret_error = ConfigError string | InvalidGatewaySecret string

record gateway_secret =
  gs_secret :: string
  gs_max_skew :: int
  gs_replay_ttl :: int
  gs_version :: string
  gs_key_id :: string
  gs_keys :: "(string, string) py_dict"
  gs_caller :: string
  gs_audience :: string
  gs_prefixes :: "string list"

definition default_max_skew_ms :: int where "default_max_skew_ms = 60000"
definition default_replay_ttl_ms :: int where "default_replay_ttl_ms = 120000"

definition binding_chars :: string where
  "binding_chars = ''abcdefghijklmnopqrstuvwxyzABCDEFGHIJKLMNOPQRSTUVWXYZ0123456789-_.''"

definition validated_binding :: "string \<Rightarrow> string \<Rightarrow> secret_error + string" where
  "validated_binding name value =
     (let s = py_strip value
      in guard_else (\<not> (s = [] \<or> 64 < length s \<or> list_ex (\<lambda>c. c \<notin> set binding_chars) s))
           (ConfigError (name @ '' must be a non-empty service identifier'')) (Inr s))"

definition rstrip_char :: "char \<Rightarrow> string \<Rightarrow> string" where
  "rstrip_char c s = rev (dropWhile (\<lambda>d. d = c) (rev s))"

definition validated_path_prefix :: "string \<Rightarrow> secret_error + string" where
  "validated_path_prefix value =
     (let s = or_str (rstrip_char (CHR ''/'') (py_strip value)) ''/''
      in guard_else (starts_with s ''/'' \<and> \<not> list_ex (\<lambda>c. c \<in> {CHR 0x0D, CHR 0x0A, CHR ''?'', CHR ''#''}) s)
           (ConfigError ''internal auth path prefixes must be absolute paths'') (Inr s))"

definition path_matches_prefix :: "string \<Rightarrow> string \<Rightarrow> bool" where
  "path_matches_prefix path prefix =
     (if prefix = ''/'' then starts_with path ''/'' else path = prefix \<or> starts_with path (prefix @ ''/''))"

text \<open>\<open>item.split(":", 1)\<close> of an item with a colon.\<close>

definition split_once :: "char \<Rightarrow> string \<Rightarrow> string \<times> string" where
  "split_once c s = (takeWhile (\<lambda>d. d \<noteq> c) s, tl (dropWhile (\<lambda>d. d \<noteq> c) s))"

definition parse_auth_keys :: "string \<Rightarrow> (string, string) py_dict" where
  "parse_auth_keys raw =
     fold (\<lambda>item keys.
         let t = py_strip item in
         if t = [] \<or> CHR '':'' \<notin> set t then keys
         else (let key_id = py_strip (fst (split_once (CHR '':'') t)); secret = py_strip (snd (split_once (CHR '':'') t))
               in if key_id \<noteq> [] \<and> secret \<noteq> [] then dict_set key_id secret keys else keys))
       (split_on (CHR '','') raw) []"

definition checked_binding :: "string \<times> string \<Rightarrow> secret_error + unit" where
  "checked_binding kv =
     guard_else (fst kv \<noteq> [] \<and> CHR '':'' \<notin> set (fst kv))
       (ConfigError ''internal auth key ids must be non-empty and colon-free'')
     (guard_else (16 \<le> length (snd kv)) (ConfigError ''internal auth secrets must be at least 16 chars'') (Inr ()))"

text \<open>The constructor: \<open>env_keys\<close> and \<open>env_active\<close> are \<open>INTERNAL_AUTH_KEYS\<close> and
  \<open>INTERNAL_AUTH_ACTIVE_KEY_ID\<close>; \<open>keys\<close> is \<open>None\<close> where the caller gives none.\<close>

definition mk_gateway_secret ::
  "string \<Rightarrow> string \<Rightarrow> string \<Rightarrow> int \<Rightarrow> int \<Rightarrow> string option \<Rightarrow> string option \<Rightarrow> (string, string) py_dict option
     \<Rightarrow> string \<Rightarrow> string \<Rightarrow> string list \<Rightarrow> secret_error + gateway_secret" where
  "mk_gateway_secret env_keys env_active secret skew replay_ttl version key_id keys caller audience prefixes =
     guard_else (16 \<le> length secret) (ConfigError ''internal service secret must be at least 16 chars'')
     (let version' = py_lower (py_strip (or_str (opt_str version) ''v2'')) in
      guard_else (version' = ''v1'' \<or> version' = ''v2'') (ConfigError ''INTERNAL_AUTH_VERSION must be v1 or v2'')
     (result_bind (validated_binding ''caller_service'' caller) (\<lambda>caller'.
      result_bind (validated_binding ''audience'' audience) (\<lambda>audience'.
      result_bind (map_results validated_path_prefix prefixes) (\<lambda>prefixes'.
        let keys1 = (case keys of None \<Rightarrow> parse_auth_keys env_keys | Some ks \<Rightarrow> ks);
            kid = or_str (opt_str key_id) (or_str (py_strip env_active) ''local'');
            keys2 = (if keys1 = [] then [(kid, secret)] else keys1);
            kid2 = (if dict_get keys2 kid = None then fst (hd keys2) else kid)
        in result_bind (map_results checked_binding keys2) (\<lambda>_.
          Inr \<lparr>gs_secret = secret, gs_max_skew = skew, gs_replay_ttl = replay_ttl, gs_version = version',
                gs_key_id = kid2, gs_keys = keys2, gs_caller = caller', gs_audience = audience',
                gs_prefixes = prefixes'\<rparr>))))))"

section \<open>The signed text\<close>

definition signed_identity_headers :: "string list" where
  "signed_identity_headers = [''x-user-id'', ''x-tenant-id'', ''x-user-tier'', ''x-user-type'', ''x-user-roles'',
     ''x-user-email'', ''x-user-name'', ''x-app-user-id'', ''x-app-tenant-id'']"

definition signed_headers :: "(string \<times> string) list \<Rightarrow> (string, string) py_dict" where
  "signed_headers headers =
     fold (\<lambda>(k, v) d. if py_lower k \<in> set signed_identity_headers then dict_set (py_lower k) v d else d) headers []"

definition canonical_identity_headers :: "(string \<times> string) list \<Rightarrow> string" where
  "canonical_identity_headers headers =
     (let d = signed_headers headers
      in join_with [CHR 0x0A] (map (\<lambda>k. k @ '':'' @ opt_str (dict_get d k)) (sort (map fst d))))"

record signed_request =
  sr_method :: string
  sr_path :: string
  sr_query :: string
  sr_body :: string
  sr_headers :: "(string \<times> string) list"

definition canonical_text ::
  "gateway_secret \<Rightarrow> signed_request \<Rightarrow> string \<Rightarrow> string \<Rightarrow> string \<Rightarrow> string \<Rightarrow> string" where
  "canonical_text gs rq body_hash rid ts key_id =
     join_with [CHR 0x0A] [gs_caller gs, gs_audience gs, py_upper (sr_method rq), sr_path rq, sr_query rq, body_hash,
       canonical_identity_headers (sr_headers rq), rid, ts, key_id]"

definition hmac_v2 ::
  "(string \<Rightarrow> string \<Rightarrow> string) \<Rightarrow> gateway_secret \<Rightarrow> signed_request \<Rightarrow> string \<Rightarrow> string \<Rightarrow> string \<Rightarrow> string
     \<Rightarrow> secret_error + string" where
  "hmac_v2 mac gs rq body_hash rid ts key_id =
     (case dict_get (gs_keys gs) key_id of
        None \<Rightarrow> Inl (InvalidGatewaySecret ''unknown key id'')
      | Some secret \<Rightarrow>
          if secret = [] then Inl (InvalidGatewaySecret ''unknown key id'')
          else Inr (mac secret (canonical_text gs rq body_hash rid ts key_id)))"

definition hmac_v1 :: "(string \<Rightarrow> string \<Rightarrow> string) \<Rightarrow> gateway_secret \<Rightarrow> string \<Rightarrow> string \<Rightarrow> string" where
  "hmac_v1 mac gs rid ts = mac (gs_secret gs) (rid @ '':'' @ ts)"

definition require_allowed_path :: "gateway_secret \<Rightarrow> string \<Rightarrow> secret_error + unit" where
  "require_allowed_path gs path =
     guard_else (gs_prefixes gs = [] \<or> list_ex (path_matches_prefix path) (gs_prefixes gs))
       (InvalidGatewaySecret ''path outside key scope'') (Inr ())"

section \<open>Signing\<close>

definition sign_header ::
  "(string \<Rightarrow> string \<Rightarrow> string) \<Rightarrow> (string \<Rightarrow> string) \<Rightarrow> gateway_secret \<Rightarrow> int \<Rightarrow> string \<Rightarrow> signed_request
     \<Rightarrow> secret_error + string" where
  "sign_header mac sha gs now rid rq =
     (let ts = string_of_int now in
      if gs_version gs = ''v2''
      then result_bind (require_allowed_path gs (sr_path rq)) (\<lambda>_.
        let kid = or_str (gs_key_id gs) ''local''; body_hash = sha (sr_body rq)
        in result_bind (hmac_v2 mac gs rq body_hash rid ts kid) (\<lambda>sg.
             Inr (join_with '':'' [''v2'', kid, rid, ts, body_hash, sg])))
      else Inr (join_with '':'' [''v1'', rid, ts, hmac_v1 mac gs rid ts]))"

section \<open>Verifying\<close>

text \<open>The last step: the id is recorded only now. \<open>now'\<close> is the store's own reading of the clock; the
  store is the process-local one, which does not raise.\<close>

definition check_replay ::
  "gateway_secret \<Rightarrow> int \<Rightarrow> string \<Rightarrow> replay_store \<Rightarrow> (secret_error + string) \<times> replay_store" where
  "check_replay gs now' rid st =
     (case seen_or_record now' rid (gs_replay_ttl gs) st of
        (replayed, st') \<Rightarrow>
          ((if replayed then Inl (InvalidGatewaySecret ''replay detected'') else Inr rid), st'))"

text \<open>The checks before it: the request id of a header that is in order.\<close>

definition check_v2 ::
  "(string \<Rightarrow> string \<Rightarrow> string) \<Rightarrow> (string \<Rightarrow> string) \<Rightarrow> gateway_secret \<Rightarrow> int \<Rightarrow> signed_request \<Rightarrow> string list
     \<Rightarrow> secret_error + string" where
  "check_v2 mac sha gs now rq parts =
     result_bind (require_allowed_path gs (sr_path rq)) (\<lambda>_.
       (case parts of
          [_, key_id, rid, ts_str, body_hash, sg] \<Rightarrow>
            (case parse_int ts_str of
               None \<Rightarrow> Inl (InvalidGatewaySecret ''bad timestamp'')
             | Some ts \<Rightarrow>
                 guard_else (\<bar>now - ts\<bar> \<le> gs_max_skew gs) (InvalidGatewaySecret ''timestamp skew'')
                (guard_else (sha (sr_body rq) = body_hash) (InvalidGatewaySecret ''body hash mismatch'')
                (result_bind (hmac_v2 mac gs rq body_hash rid ts_str key_id) (\<lambda>expected.
                 guard_else (expected = sg) (InvalidGatewaySecret ''signature mismatch'') (Inr rid)))))
        | _ \<Rightarrow> Inl (InvalidGatewaySecret ''malformed header'')))"

definition check_v1 ::
  "(string \<Rightarrow> string \<Rightarrow> string) \<Rightarrow> gateway_secret \<Rightarrow> int \<Rightarrow> string list \<Rightarrow> secret_error + string" where
  "check_v1 mac gs now parts =
     (case parts of
        [_, rid, ts_str, sg] \<Rightarrow>
          (case parse_int ts_str of
             None \<Rightarrow> Inl (InvalidGatewaySecret ''bad timestamp'')
           | Some ts \<Rightarrow>
               guard_else (\<bar>now - ts\<bar> \<le> gs_max_skew gs) (InvalidGatewaySecret ''timestamp skew'')
              (guard_else (hmac_v1 mac gs rid ts_str = sg) (InvalidGatewaySecret ''signature mismatch'') (Inr rid)))
      | _ \<Rightarrow> Inl (InvalidGatewaySecret ''malformed header''))"

definition check_header ::
  "(string \<Rightarrow> string \<Rightarrow> string) \<Rightarrow> (string \<Rightarrow> string) \<Rightarrow> gateway_secret \<Rightarrow> int \<Rightarrow> signed_request \<Rightarrow> string option
     \<Rightarrow> secret_error + string" where
  "check_header mac sha gs now rq header =
     (if opt_str header = [] then Inl (InvalidGatewaySecret ''missing header'')
      else (let parts = split_on (CHR '':'') (opt_str header) in
        if hd parts \<noteq> ''v1'' \<and> hd parts \<noteq> ''v2'' then Inl (InvalidGatewaySecret ''malformed header'')
        else if hd parts \<noteq> gs_version gs then Inl (InvalidGatewaySecret ''version mismatch'')
        else if hd parts = ''v2'' then check_v2 mac sha gs now rq parts
        else check_v1 mac gs now parts))"

definition verify_header ::
  "(string \<Rightarrow> string \<Rightarrow> string) \<Rightarrow> (string \<Rightarrow> string) \<Rightarrow> gateway_secret \<Rightarrow> int \<Rightarrow> int \<Rightarrow> signed_request
     \<Rightarrow> string option \<Rightarrow> replay_store \<Rightarrow> (secret_error + string) \<times> replay_store" where
  "verify_header mac sha gs now now' rq header st =
     (case check_header mac sha gs now rq header of
        Inl e \<Rightarrow> (Inl e, st) | Inr rid \<Rightarrow> check_replay gs now' rid st)"

text \<open>The store that several workers share: one \<open>SET key 1 NX PX ttl\<close>. Redis keeps the key until its
  time is over; the dictionary maps the id to the end of its life.\<close>

definition redis_seen_or_record :: "int \<Rightarrow> string \<Rightarrow> int \<Rightarrow> (string, int) py_dict \<Rightarrow> bool \<times> (string, int) py_dict" where
  "redis_seen_or_record now rid ttl db =
     (case dict_get db rid of
        Some expires \<Rightarrow> if now < expires then (True, db) else (False, dict_set rid (now + ttl) db)
      | None \<Rightarrow> (False, dict_set rid (now + ttl) db))"

section \<open>The middleware\<close>

definition safe_paths :: "string list" where
  "safe_paths = [''/health'', ''/health/live'', ''/health/ready'', ''/metrics'']"

datatype middleware_answer = PassThrough | Unauthorized | PassVerified

text \<open>One HTTP request with its header and buffered body.\<close>

definition gateway_middleware ::
  "(string \<Rightarrow> string \<Rightarrow> string) \<Rightarrow> (string \<Rightarrow> string) \<Rightarrow> gateway_secret \<Rightarrow> bool \<Rightarrow> string list \<Rightarrow> string list
     \<Rightarrow> int \<Rightarrow> int \<Rightarrow> signed_request \<Rightarrow> string option \<Rightarrow> replay_store \<Rightarrow> middleware_answer \<times> replay_store" where
  "gateway_middleware mac sha gs allow_anonymous paths prefixes now now' rq header st =
     (if sr_path rq \<in> set safe_paths \<or> sr_path rq \<in> set paths \<or> list_ex (starts_with (sr_path rq)) prefixes
      then (PassThrough, st)
      else (case header of
              None \<Rightarrow> ((if allow_anonymous then PassThrough else Unauthorized), st)
            | Some h \<Rightarrow>
                (case verify_header mac sha gs now now'
                        (if starts_with h ''v2:'' then rq else rq\<lparr>sr_body := []\<rparr>) (Some h) st of
                   (Inl e, st') \<Rightarrow> (Unauthorized, st')
                 | (Inr rid, st') \<Rightarrow> (PassVerified, st'))))"

definition validate_auth_configuration :: "string \<Rightarrow> bool \<Rightarrow> string option \<Rightarrow> string option" where
  "validate_auth_configuration secret allow_anonymous environment =
     (if py_strip secret \<noteq> [] \<and> allow_anonymous then Some ''anonymous mode with a secret''
      else if allow_anonymous \<and> environment \<noteq> None \<and>
              py_lower (py_strip (opt_str environment)) \<notin> {''local'', ''dev'', ''development'', ''test'', ''testing''}
      then Some ''anonymous mode outside development''
      else None)"

section \<open>Joining and splitting\<close>

lemma split_join: "xs \<noteq> [] \<Longrightarrow> (\<And>x. x \<in> set xs \<Longrightarrow> c \<notin> set x) \<Longrightarrow> split_on c (join_with [c] xs) = xs"
proof (induction xs)
  case (Cons x xs)
  show ?case
  proof (cases xs)
    case Nil
    then show ?thesis using Cons.prems by (simp add: split_on_free)
  next
    case (Cons y ys)
    then have "split_on c (join_with [c] (x # xs)) = split_on c x @ split_on c (join_with [c] xs)"
      by (simp add: split_on_append)
    then show ?thesis using Cons.IH Cons.prems Cons by (simp add: split_on_free)
  qed
qed simp

lemma split_join_list: "xs \<noteq> [] \<Longrightarrow> split_on c (join_with [c] xs) = concat (map (split_on c) xs)"
proof (induction xs)
  case (Cons x xs)
  then show ?case by (cases xs) (simp_all add: split_on_append)
qed simp

lemma parts_of_joined:
  "xs \<noteq> [] \<Longrightarrow> \<forall>x \<in> set xs. CHR '':'' \<notin> set x \<Longrightarrow> split_on (CHR '':'') (join_with '':'' xs) = xs"
  by (rule split_join) auto

section \<open>Handlers the constructor accepts\<close>

definition secret_ok :: "gateway_secret \<Rightarrow> bool" where
  "secret_ok gs \<longleftrightarrow> (gs_version gs = ''v1'' \<or> gs_version gs = ''v2'') \<and>
     16 \<le> length (gs_secret gs) \<and> gs_key_id gs \<noteq> [] \<and> CHR '':'' \<notin> set (gs_key_id gs) \<and>
     (\<exists>s. dict_get (gs_keys gs) (gs_key_id gs) = Some s) \<and>
     (\<forall>k s. dict_get (gs_keys gs) k = Some s \<longrightarrow> 16 \<le> length s) \<and>
     (\<forall>c \<in> set (gs_caller gs) \<union> set (gs_audience gs). c \<in> set binding_chars)"

lemma validated_binding_chars: "validated_binding name v = Inr s \<Longrightarrow> c \<in> set s \<Longrightarrow> c \<in> set binding_chars"
  by (auto simp: validated_binding_def Let_def list_ex_iff)

lemma mk_gateway_secret_ok:
  assumes "mk_gateway_secret env_keys env_active secret skew replay_ttl version key_id keys caller audience prefixes = Inr gs"
  shows "secret_ok gs" "gs_max_skew gs = skew" "gs_replay_ttl gs = replay_ttl"
proof -
  define keys1 where "keys1 = (case keys of None \<Rightarrow> parse_auth_keys env_keys | Some ks \<Rightarrow> ks)"
  define kid where "kid = or_str (opt_str key_id) (or_str (py_strip env_active) ''local'')"
  define keys2 where "keys2 = (if keys1 = [] then [(kid, secret)] else keys1)"
  define version' where "version' = py_lower (py_strip (or_str (opt_str version) ''v2''))"
  have "\<exists>caller' audience' prefixes' us. 16 \<le> length secret \<and> (version' = ''v1'' \<or> version' = ''v2'') \<and>
      validated_binding ''caller_service'' caller = Inr caller' \<and> validated_binding ''audience'' audience = Inr audience' \<and>
      map_results checked_binding keys2 = Inr us \<and>
      gs = \<lparr>gs_secret = secret, gs_max_skew = skew, gs_replay_ttl = replay_ttl, gs_version = version',
         gs_key_id = (if dict_get keys2 kid = None then fst (hd keys2) else kid), gs_keys = keys2,
         gs_caller = caller', gs_audience = audience', gs_prefixes = prefixes'\<rparr>"
    using assms unfolding mk_gateway_secret_def Let_def keys1_def[symmetric] kid_def[symmetric]
      keys2_def[symmetric] version'_def[symmetric] result_bind_Inr guard_else_Inr by blast
  then obtain caller' audience' prefixes' us where f: "16 \<le> length secret" "version' = ''v1'' \<or> version' = ''v2''"
      "validated_binding ''caller_service'' caller = Inr caller'" "validated_binding ''audience'' audience = Inr audience'"
      "map_results checked_binding keys2 = Inr us"
      "gs = \<lparr>gs_secret = secret, gs_max_skew = skew, gs_replay_ttl = replay_ttl, gs_version = version',
         gs_key_id = (if dict_get keys2 kid = None then fst (hd keys2) else kid), gs_keys = keys2,
         gs_caller = caller', gs_audience = audience', gs_prefixes = prefixes'\<rparr>" by blast
  have keys: "fst kv \<noteq> [] \<and> CHR '':'' \<notin> set (fst kv) \<and> 16 \<le> length (snd kv)" if "kv \<in> set keys2" for kv
    using map_results_all[OF f(5) that] by (auto simp: checked_binding_def)
  have ne: "keys2 \<noteq> []" by (simp add: keys2_def)
  define kid2 where "kid2 = (if dict_get keys2 kid = None then fst (hd keys2) else kid)"
  have "\<exists>s. dict_get keys2 kid2 = Some s"
    using ne by (cases keys2) (auto simp: kid2_def)
  moreover from this have "kid2 \<noteq> [] \<and> CHR '':'' \<notin> set kid2" using keys by (force dest: map_of_SomeD)
  moreover have "dict_get keys2 k = Some s \<Longrightarrow> 16 \<le> length s" for k s using keys by (force dest: map_of_SomeD)
  ultimately show "secret_ok gs"
    using f(1,2) validated_binding_chars[OF f(3)] validated_binding_chars[OF f(4)]
    unfolding secret_ok_def f(6) kid2_def[symmetric] by auto
  show "gs_max_skew gs = skew" "gs_replay_ttl gs = replay_ttl" by (simp_all add: f(6))
qed

section \<open>Properties\<close>

text \<open>
  C21: A header that was signed verifies: at any clock within the allowed skew, for the same request and an
  id the store does not hold, \<open>verify\<close> returns the id, in either version of the protocol. The id must be
  free of colons, as the digests are.\<close>

theorem signed_header_verifies:
  assumes "mk_gateway_secret env_keys env_active secret skew replay_ttl version key_id keys caller audience prefixes = Inr gs"
    and "sign_header mac sha gs now rid rq = Inr h"
    and "CHR '':'' \<notin> set rid" "\<And>s t. CHR '':'' \<notin> set (mac s t)" "\<And>b. CHR '':'' \<notin> set (sha b)"
    and "\<bar>now2 - now\<bar> \<le> skew"
    and "\<not> fst (seen_or_record now2' rid replay_ttl st)"
  shows "verify_header mac sha gs now2 now2' rq (Some h) st =
    (Inr rid, snd (seen_or_record now2' rid replay_ttl st))"
proof -
  note ok = mk_gateway_secret_ok[OF assms(1)]
  have replay: "check_replay gs now2' rid st = (Inr rid, snd (seen_or_record now2' rid replay_ttl st))"
    using assms(7) ok(3) by (cases "seen_or_record now2' rid replay_ttl st") (simp add: check_replay_def)
  have "check_header mac sha gs now2 rq (Some h) = Inr rid"
  proof (cases "gs_version gs = ''v2''")
    case True
    let ?kid = "or_str (gs_key_id gs) ''local''" and ?ts = "string_of_int now"
    obtain sg where sg: "require_allowed_path gs (sr_path rq) = Inr ()"
        "hmac_v2 mac gs rq (sha (sr_body rq)) rid ?ts ?kid = Inr sg"
        "h = join_with '':'' [''v2'', ?kid, rid, ?ts, sha (sr_body rq), sg]"
      using assms(2) True by (auto simp: sign_header_def Let_def result_bind_Inr)
    have "?kid = gs_key_id gs" using ok(1) by (simp add: secret_ok_def or_str_def)
    moreover have "CHR '':'' \<notin> set sg"
      using sg(2) assms(4) by (auto simp: hmac_v2_def split: option.splits if_splits)
    ultimately have "split_on (CHR '':'') h = [''v2'', ?kid, rid, ?ts, sha (sr_body rq), sg]"
      unfolding sg(3) using assms(3,5) ok(1) string_of_int_no_colon
      by (intro parts_of_joined) (auto simp: secret_ok_def)
    moreover have "h \<noteq> []" using sg(3) by simp
    ultimately show ?thesis
      using True sg(1,2) assms(6) ok(2) by (simp add: check_header_def opt_str_def check_v2_def guard_else_def)
  next
    case False
    then have v1: "gs_version gs = ''v1''" using ok(1) by (simp add: secret_ok_def)
    let ?ts = "string_of_int now" and ?sg = "hmac_v1 mac gs rid (string_of_int now)"
    have h: "h = join_with '':'' [''v1'', rid, ?ts, ?sg]" using assms(2) v1 by (simp add: sign_header_def Let_def)
    have "split_on (CHR '':'') h = [''v1'', rid, ?ts, ?sg]"
      unfolding h using assms(3,4) string_of_int_no_colon by (intro parts_of_joined) (auto simp: hmac_v1_def)
    moreover have "h \<noteq> []" by (simp add: h)
    ultimately show ?thesis
      using v1 assms(6) ok(2) by (simp add: check_header_def opt_str_def check_v1_def guard_else_def)
  qed
  then show ?thesis using replay by (simp add: verify_header_def)
qed

definition sample_secret :: gateway_secret where
  "sample_secret = projr (mk_gateway_secret [] [] ''0123456789abcdef'' 60000 120000 None None None ''gateway'' ''internal'' [])"

lemma sample_secret_mk:
  "mk_gateway_secret [] [] ''0123456789abcdef'' 60000 120000 None None None ''gateway'' ''internal'' [] = Inr sample_secret"
  "sample_secret = \<lparr>gs_secret = ''0123456789abcdef'', gs_max_skew = 60000, gs_replay_ttl = 120000, gs_version = ''v2'',
     gs_key_id = ''local'', gs_keys = [(''local'', ''0123456789abcdef'')], gs_caller = ''gateway'',
     gs_audience = ''internal'', gs_prefixes = []\<rparr>"
proof -
  show e: "sample_secret = \<lparr>gs_secret = ''0123456789abcdef'', gs_max_skew = 60000, gs_replay_ttl = 120000, gs_version = ''v2'',
     gs_key_id = ''local'', gs_keys = [(''local'', ''0123456789abcdef'')], gs_caller = ''gateway'',
     gs_audience = ''internal'', gs_prefixes = []\<rparr>"
    by code_simp
  have "\<not> isl (mk_gateway_secret [] [] ''0123456789abcdef'' 60000 120000 None None None ''gateway'' ''internal'' [])"
    by code_simp
  then show "mk_gateway_secret [] [] ''0123456789abcdef'' 60000 120000 None None None ''gateway'' ''internal'' [] = Inr sample_secret"
    using not_isl_Inr by (simp add: sample_secret_def)
qed

definition sample_signed_request :: signed_request where
  "sample_signed_request = \<lparr>sr_method = ''post'', sr_path = ''/a'', sr_query = [], sr_body = ''{}'',
     sr_headers = [(''X-User-Id'', ''u1''), (''Accept'', ''*'')]\<rparr>"

definition sample_store :: replay_store where
  "sample_store = \<lparr>rp_seen = [], rp_capacity = 10\<rparr>"

lemma sample_header:
  "sign_header (\<lambda>s t. ''m'') (\<lambda>b. ''b'') sample_secret 100000 ''r1'' sample_signed_request = Inr ''v2:local:r1:100000:b:m''"
  by (simp add: sample_secret_mk(2) sign_header_def Let_def require_allowed_path_def guard_else_def hmac_v2_def or_str_def
      string_of_int_def string_of_nat.simps, code_simp)

lemma sample_timestamp: "parse_int ''100000'' = Some 100000"
proof -
  have "string_of_int 100000 = ''100000''" by (simp add: string_of_int_def string_of_nat.simps, code_simp)
  then show ?thesis using parse_int_string[of 100000] by simp
qed

lemma sample_header_check:
  "\<bar>t - 100000\<bar> \<le> 60000 \<Longrightarrow> check_header (\<lambda>s t. ''m'') (\<lambda>b. ''b'') (sample_secret\<lparr>gs_replay_ttl := l\<rparr>) t sample_signed_request
     (Some ''v2:local:r1:100000:b:m'') = Inr ''r1''"
  by (simp add: sample_secret_mk(2) check_header_def opt_str_def Let_def check_v2_def require_allowed_path_def
      guard_else_def sample_timestamp hmac_v2_def)

lemma signed_header_verifies_witness:
  "fst (verify_header (\<lambda>s t. ''m'') (\<lambda>b. ''b'') sample_secret 130000 130001 sample_signed_request
     (Some ''v2:local:r1:100000:b:m'') sample_store) = Inr ''r1''"
  using signed_header_verifies[OF sample_secret_mk(1) sample_header, of 130000 130001 sample_store]
  by (simp add: sample_store_def seen_or_record_def evict_stale_def)

lemma check_replay_Inr:
  "check_replay gs now rid st = (Inr r, st') \<longleftrightarrow> r = rid \<and> seen_or_record now rid (gs_replay_ttl gs) st = (False, st')"
  by (auto simp: check_replay_def split: prod.splits)

lemma verify_header_Inr:
  "verify_header mac sha gs now now' rq h st = (Inr rid, st') \<longleftrightarrow>
     check_header mac sha gs now rq h = Inr rid \<and> seen_or_record now' rid (gs_replay_ttl gs) st = (False, st')"
  by (auto simp: verify_header_def check_replay_Inr split: sum.splits)

lemma check_v2_Inr:
  "check_v2 mac sha gs now rq parts = Inr rid \<longleftrightarrow>
     (\<exists>v kid ts n bh sg secret. parts = [v, kid, rid, ts, bh, sg] \<and> require_allowed_path gs (sr_path rq) = Inr () \<and>
        parse_int ts = Some n \<and> \<bar>now - n\<bar> \<le> gs_max_skew gs \<and> bh = sha (sr_body rq) \<and>
        dict_get (gs_keys gs) kid = Some secret \<and> secret \<noteq> [] \<and>
        sg = mac secret (canonical_text gs rq bh rid ts kid))"
  by (auto simp: check_v2_def result_bind_Inr hmac_v2_def split: list.splits option.splits if_splits)

text \<open>What a header of version 2 says once it is accepted.\<close>

lemma check_header_v2:
  assumes "check_header mac sha gs now rq (Some h) = Inr rid" "gs_version gs = ''v2''"
  obtains kid ts n sg secret where
    "split_on (CHR '':'') h = [''v2'', kid, rid, ts, sha (sr_body rq), sg]"
    "require_allowed_path gs (sr_path rq) = Inr ()" "parse_int ts = Some n" "\<bar>now - n\<bar> \<le> gs_max_skew gs"
    "dict_get (gs_keys gs) kid = Some secret" "sg = mac secret (canonical_text gs rq (sha (sr_body rq)) rid ts kid)"
proof -
  let ?parts = "split_on (CHR '':'') h"
  have hd: "hd ?parts = ''v2''" and chk: "check_v2 mac sha gs now rq ?parts = Inr rid"
    using assms by (auto simp: check_header_def Let_def opt_str_def split: if_splits)
  from chk obtain v kid ts n sg secret where p: "?parts = [v, kid, rid, ts, sha (sr_body rq), sg]"
      "require_allowed_path gs (sr_path rq) = Inr ()" "parse_int ts = Some n" "\<bar>now - n\<bar> \<le> gs_max_skew gs"
      "dict_get (gs_keys gs) kid = Some secret"
      "sg = mac secret (canonical_text gs rq (sha (sr_body rq)) rid ts kid)"
    unfolding check_v2_Inr by blast
  moreover have "v = ''v2''" using hd p(1) by simp
  ultimately show ?thesis using that by blast
qed

section \<open>What a signature binds\<close>

definition newline_free :: "signed_request \<Rightarrow> bool" where
  "newline_free rq \<longleftrightarrow> CHR 0x0A \<notin> set (sr_method rq) \<union> set (sr_path rq) \<union> set (sr_query rq) \<and>
     (\<forall>(k, v) \<in> set (sr_headers rq). CHR 0x0A \<notin> set v)"

lemma upper_newline: "upper_char c = CHR 0x0A \<longleftrightarrow> c = CHR 0x0A"
proof (cases "97 \<le> (of_char c :: nat) \<and> (of_char c :: nat) \<le> 122")
  case True
  then have "(of_char (upper_char c) :: nat) = of_char c - 32"
    by (simp add: upper_char_def Let_def) (rule mod_less, linarith)
  then have "upper_char c \<noteq> CHR 0x0A" "c \<noteq> CHR 0x0A" using True by auto
  then show ?thesis by simp
next
  case False
  then show ?thesis by (auto simp: upper_char_def Let_def)
qed

lemma binding_no_newline: "CHR 0x0A \<notin> set binding_chars"
  by (simp add: binding_chars_def)

lemma signed_headers_keys: "k \<in> set (map fst (signed_headers headers)) \<Longrightarrow> k \<in> set signed_identity_headers"
proof -
  have "set (map fst d) \<subseteq> set signed_identity_headers \<Longrightarrow>
    set (map fst (fold (\<lambda>(k, v) d. if py_lower k \<in> set signed_identity_headers then dict_set (py_lower k) v d else d)
      headers d)) \<subseteq> set signed_identity_headers" for d
  proof (induction headers arbitrary: d)
    case (Cons kv headers)
    obtain k v where kv: "kv = (k, v)" by (cases kv)
    let ?d = "if py_lower k \<in> set signed_identity_headers then dict_set (py_lower k) v d else d"
    have "set (map fst ?d) \<subseteq> set signed_identity_headers"
      using Cons.prems by (auto simp: dom_update)
    from Cons.IH[OF this] show ?case by (simp add: kv)
  qed simp
  from this[of "[]"] show "k \<in> set (map fst (signed_headers headers)) \<Longrightarrow> k \<in> set signed_identity_headers"
    by (auto simp: signed_headers_def)
qed

lemma signed_headers_values:
  "dict_get (signed_headers headers) k = Some v \<Longrightarrow> \<exists>k'. (k', v) \<in> set headers"
proof -
  have "dict_get (fold (\<lambda>(k, v) d. if py_lower k \<in> set signed_identity_headers then dict_set (py_lower k) v d else d)
      headers d) k = Some v \<Longrightarrow> (\<exists>k'. (k', v) \<in> set headers) \<or> dict_get d k = Some v" for d
  proof (induction headers arbitrary: d)
    case (Cons kv headers)
    obtain k' v' where kv: "kv = (k', v')" by (cases kv)
    let ?d = "if py_lower k' \<in> set signed_identity_headers then dict_set (py_lower k') v' d else d"
    from Cons.IH[of ?d] Cons.prems have "(\<exists>k'. (k', v) \<in> set headers) \<or> dict_get ?d k = Some v"
      by (simp add: kv)
    then show ?case by (auto simp: kv dict_get_set split: if_splits)
  qed simp
  from this[of "[]"] show "dict_get (signed_headers headers) k = Some v \<Longrightarrow> \<exists>k'. (k', v) \<in> set headers"
    by (simp add: signed_headers_def)
qed

definition header_lines :: "(string, string) py_dict \<Rightarrow> string list" where
  "header_lines d = map (\<lambda>k. k @ '':'' @ opt_str (dict_get d k)) (sort (map fst d))"

lemma header_lines_inj:
  assumes "header_lines d = header_lines e"
    and "\<And>k. k \<in> set (map fst d) \<union> set (map fst e) \<Longrightarrow> CHR '':'' \<notin> set k"
  shows "dict_get d k = dict_get e k"
proof -
  let ?key = "takeWhile (\<lambda>c. c \<noteq> CHR '':'')" and ?val = "\<lambda>l. tl (dropWhile (\<lambda>c. c \<noteq> CHR '':'') l)"
  have key: "?key (k @ CHR '':'' # v) = k" "?val (k @ CHR '':'' # v) = v" if "CHR '':'' \<notin> set k" for k v
    using that by (induction k) auto
  have keys: "map ?key (header_lines x) = sort (map fst x)" and
       vals: "map ?val (header_lines x) = map (\<lambda>k. opt_str (dict_get x k)) (sort (map fst x))"
    if "\<And>k. k \<in> set (map fst x) \<Longrightarrow> CHR '':'' \<notin> set k" for x
    unfolding header_lines_def using that by (auto simp: key intro!: map_idI)
  have d: "map ?key (header_lines d) = sort (map fst d)" "map ?val (header_lines d) = map (\<lambda>k. opt_str (dict_get d k)) (sort (map fst d))"
    using keys[of d] vals[of d] assms(2) by auto
  have e: "map ?key (header_lines e) = sort (map fst e)" "map ?val (header_lines e) = map (\<lambda>k. opt_str (dict_get e k)) (sort (map fst e))"
    using keys[of e] vals[of e] assms(2) by auto
  have s: "sort (map fst d) = sort (map fst e)" using d(1) e(1) assms(1) by simp
  then have "set (map fst d) = set (map fst e)" by (metis set_sort)
  moreover have "opt_str (dict_get d k) = opt_str (dict_get e k)" if "k \<in> set (map fst d)" for k
  proof -
    have "map (\<lambda>k. opt_str (dict_get d k)) (sort (map fst d)) = map (\<lambda>k. opt_str (dict_get e k)) (sort (map fst d))"
      using d(2) e(2) assms(1) s by simp
    then show ?thesis using that by auto
  qed
  moreover have none: "dict_get x k = None \<longleftrightarrow> k \<notin> set (map fst x)" for x :: "(string, string) py_dict"
    by (simp add: map_of_eq_None_iff)
  ultimately show ?thesis
  proof (cases "k \<in> set (map fst d)")
    case True
    then obtain v w where "dict_get d k = Some v" "dict_get e k = Some w"
      using none[of d] none[of e] \<open>set (map fst d) = set (map fst e)\<close> by fastforce
    moreover have "opt_str (dict_get d k) = opt_str (dict_get e k)"
      using True \<open>\<And>k. k \<in> set (map fst d) \<Longrightarrow> opt_str (dict_get d k) = opt_str (dict_get e k)\<close> by blast
    ultimately show ?thesis by (simp add: opt_str_def)
  next
    case False
    then have "dict_get d k = None" "dict_get e k = None"
      using none[of d] none[of e] \<open>set (map fst d) = set (map fst e)\<close> by blast+
    then show ?thesis by simp
  qed
qed

lemma identity_text_inj:
  assumes "canonical_identity_headers h1 = canonical_identity_headers h2"
    and nl: "\<forall>(k, v) \<in> set h1 \<union> set h2. CHR 0x0A \<notin> set v"
  shows "dict_get (signed_headers h1) k = dict_get (signed_headers h2) k"
proof (rule header_lines_inj)
  have fixed: "CHR '':'' \<notin> set k \<and> CHR 0x0A \<notin> set k" if "k \<in> set signed_identity_headers" for k
    using that by (auto simp: signed_identity_headers_def)
  show "CHR '':'' \<notin> set k"
    if "k \<in> set (map fst (signed_headers h1)) \<union> set (map fst (signed_headers h2))" for k
    using that signed_headers_keys fixed by blast
  have free: "CHR 0x0A \<notin> set l \<and> l \<noteq> []"
    if "l \<in> set (header_lines (signed_headers h))" "h = h1 \<or> h = h2" for l h
  proof -
    note l = that(1)
    obtain k where k: "k \<in> set (map fst (signed_headers h))" "l = k @ '':'' @ opt_str (dict_get (signed_headers h) k)"
      using l unfolding header_lines_def set_map[of _ "sort _"] set_sort by blast
    obtain v where v: "dict_get (signed_headers h) k = Some v"
      using k(1) by (metis map_of_eq_None_iff not_None_eq set_map)
    obtain k' where "(k', v) \<in> set h" using signed_headers_values[OF v] by blast
    then have "CHR 0x0A \<notin> set v" using nl that(2) by auto
    then show ?thesis using k v fixed[OF signed_headers_keys[OF k(1)]] by (auto simp: opt_str_def)
  qed
  have canon: "canonical_identity_headers h = join_with [CHR 0x0A] (header_lines (signed_headers h))" for h
    by (simp add: canonical_identity_headers_def header_lines_def Let_def)
  have split: "header_lines (signed_headers h) =
      (let s = split_on (CHR 0x0A) (canonical_identity_headers h) in if s = [[]] then [] else s)"
    if "h = h1 \<or> h = h2" for h
  proof (cases "header_lines (signed_headers h) = []")
    case False
    have "split_on (CHR 0x0A) (canonical_identity_headers h) = header_lines (signed_headers h)"
      unfolding canon using free that by (intro split_join[OF False]) blast
    moreover have "header_lines (signed_headers h) \<noteq> [[]]"
      using free[of "[]" h] that by (metis list.set_intros(1))
    ultimately show ?thesis by simp
  qed (simp add: canon)
  show "header_lines (signed_headers h1) = header_lines (signed_headers h2)"
    using split[of h1] split[of h2] assms(1) by simp
qed

lemma canonical_text_inj:
  assumes eq: "canonical_text gs r1 bh rid ts kid = canonical_text gs r2 bh rid ts kid"
    and ok: "secret_ok gs" and nl: "newline_free r1" "newline_free r2"
  shows "py_upper (sr_method r1) = py_upper (sr_method r2) \<and> sr_path r1 = sr_path r2 \<and> sr_query r1 = sr_query r2 \<and>
     dict_get (signed_headers (sr_headers r1)) k = dict_get (signed_headers (sr_headers r2)) k"
proof -
  let ?sp = "split_on (CHR 0x0A)"
  have bind: "CHR 0x0A \<notin> set (gs_caller gs)" "CHR 0x0A \<notin> set (gs_audience gs)"
    using ok binding_no_newline by (auto simp: secret_ok_def)
  have free: "CHR 0x0A \<notin> set (py_upper (sr_method r))" "CHR 0x0A \<notin> set (sr_path r)" "CHR 0x0A \<notin> set (sr_query r)"
    if "newline_free r" for r
  proof -
    have "CHR 0x0A \<in> upper_char ` A \<longleftrightarrow> CHR 0x0A \<in> A" for A
      by (metis imageE image_eqI upper_newline)
    then show "CHR 0x0A \<notin> set (py_upper (sr_method r))" "CHR 0x0A \<notin> set (sr_path r)" "CHR 0x0A \<notin> set (sr_query r)"
      using that by (simp_all add: newline_free_def py_upper_def)
  qed
  have sp: "?sp (canonical_text gs r bh rid ts kid) =
      [gs_caller gs, gs_audience gs, py_upper (sr_method r), sr_path r, sr_query r] @
      (?sp bh @ ?sp (canonical_identity_headers (sr_headers r)) @ ?sp rid @ ?sp ts @ ?sp kid)"
    if "newline_free r" for r
    unfolding canonical_text_def using free[OF that] bind
    by (subst split_join_list) (simp_all add: split_on_free)
  have "?sp (canonical_text gs r1 bh rid ts kid) = ?sp (canonical_text gs r2 bh rid ts kid)"
    using eq by simp
  then have e: "[gs_caller gs, gs_audience gs, py_upper (sr_method r1), sr_path r1, sr_query r1] @
      (?sp bh @ ?sp (canonical_identity_headers (sr_headers r1)) @ ?sp rid @ ?sp ts @ ?sp kid) =
      [gs_caller gs, gs_audience gs, py_upper (sr_method r2), sr_path r2, sr_query r2] @
      (?sp bh @ ?sp (canonical_identity_headers (sr_headers r2)) @ ?sp rid @ ?sp ts @ ?sp kid)"
    unfolding sp[OF nl(1)] sp[OF nl(2)] .
  then have "?sp (canonical_identity_headers (sr_headers r1)) = ?sp (canonical_identity_headers (sr_headers r2))"
    by simp
  then have "canonical_identity_headers (sr_headers r1) = canonical_identity_headers (sr_headers r2)"
    by (metis join_split)
  then have "dict_get (signed_headers (sr_headers r1)) k = dict_get (signed_headers (sr_headers r2)) k"
    using nl by (intro identity_text_inj) (auto simp: newline_free_def)
  then show ?thesis using e by simp
qed

text \<open>
  A signature of version 2 binds the request. An accepted header names a configured key and carries,
  within the allowed skew, the signature of this very request under that key; and if it is accepted with
  two requests free of line breaks, then these agree in method, path, query, body and every signed identity
  header, or HMAC-SHA256 or SHA-256 has a collision.\<close>

theorem accepted_header_binds:
  assumes "mk_gateway_secret env_keys env_active secret skew replay_ttl version key_id keys caller audience prefixes = Inr gs"
    and "gs_version gs = ''v2''"
    and "verify_header mac sha gs now1 now1' r1 (Some h) st1 = (Inr rid1, st1')"
    and "verify_header mac sha gs now2 now2' r2 (Some h) st2 = (Inr rid2, st2')"
    and "newline_free r1" "newline_free r2"
  shows "\<exists>kid ts n key. h = join_with '':'' [''v2'', kid, rid1, ts, sha (sr_body r1),
            mac key (canonical_text gs r1 (sha (sr_body r1)) rid1 ts kid)] \<and>
         dict_get (gs_keys gs) kid = Some key \<and> parse_int ts = Some n \<and> \<bar>now1 - n\<bar> \<le> skew \<and> rid2 = rid1 \<and>
         ((py_upper (sr_method r1) = py_upper (sr_method r2) \<and> sr_path r1 = sr_path r2 \<and> sr_query r1 = sr_query r2 \<and>
           (\<forall>k. dict_get (signed_headers (sr_headers r1)) k = dict_get (signed_headers (sr_headers r2)) k)) \<or>
          (\<exists>a b. a \<noteq> b \<and> mac key a = mac key b)) \<and>
         (sr_body r1 = sr_body r2 \<or> (sr_body r1 \<noteq> sr_body r2 \<and> sha (sr_body r1) = sha (sr_body r2)))"
proof -
  note ok = mk_gateway_secret_ok[OF assms(1)]
  obtain kid ts n sg key where p: "split_on (CHR '':'') h = [''v2'', kid, rid1, ts, sha (sr_body r1), sg]"
      "parse_int ts = Some n" "\<bar>now1 - n\<bar> \<le> gs_max_skew gs" "dict_get (gs_keys gs) kid = Some key"
      "sg = mac key (canonical_text gs r1 (sha (sr_body r1)) rid1 ts kid)"
    using check_header_v2[OF _ assms(2), of mac sha now1 r1 h rid1] assms(3) unfolding verify_header_Inr by metis
  obtain kid2 ts2 n2 sg2 key2 where q: "split_on (CHR '':'') h = [''v2'', kid2, rid2, ts2, sha (sr_body r2), sg2]"
      "dict_get (gs_keys gs) kid2 = Some key2"
      "sg2 = mac key2 (canonical_text gs r2 (sha (sr_body r2)) rid2 ts2 kid2)"
    using check_header_v2[OF _ assms(2), of mac sha now2 r2 h rid2] assms(4) unfolding verify_header_Inr by metis
  have same: "kid2 = kid" "rid2 = rid1" "ts2 = ts" "sha (sr_body r2) = sha (sr_body r1)" "sg2 = sg" "key2 = key"
    using p q by auto
  have "h = join_with '':'' [''v2'', kid, rid1, ts, sha (sr_body r1), sg]"
    using p(1) join_split by metis
  moreover have "(py_upper (sr_method r1) = py_upper (sr_method r2) \<and> sr_path r1 = sr_path r2 \<and> sr_query r1 = sr_query r2 \<and>
           (\<forall>k. dict_get (signed_headers (sr_headers r1)) k = dict_get (signed_headers (sr_headers r2)) k)) \<or>
          (\<exists>a b. a \<noteq> b \<and> mac key a = mac key b)"
  proof (cases "canonical_text gs r1 (sha (sr_body r1)) rid1 ts kid = canonical_text gs r2 (sha (sr_body r1)) rid1 ts kid")
    case True
    then show ?thesis using canonical_text_inj[OF True ok(1) assms(5,6)] by blast
  next
    case False
    then show ?thesis using p(5) q(3) same by metis
  qed
  ultimately show ?thesis using p ok(2) same by metis
qed

lemma accepted_header_binds_witness:
  "\<exists>kid ts. ''v2:local:r1:100000:b:m'' = join_with '':'' [''v2'', kid, ''r1'', ts, ''b'', ''m'']"
proof -
  have v: "verify_header (\<lambda>s t. ''m'') (\<lambda>b. ''b'') sample_secret 130000 130001 sample_signed_request
     (Some ''v2:local:r1:100000:b:m'') sample_store = (Inr ''r1'', snd (seen_or_record 130001 ''r1'' 120000 sample_store))"
    using signed_header_verifies[OF sample_secret_mk(1) sample_header, of 130000 130001 sample_store]
    by (simp add: sample_store_def seen_or_record_def evict_stale_def)
  have "newline_free sample_signed_request" by (simp add: newline_free_def sample_signed_request_def)
  from accepted_header_binds[OF sample_secret_mk(1) _ v v this this] show ?thesis
    by (auto simp: sample_secret_mk(2))
qed

text \<open>
  C22: A header is accepted once, within the room of the store. If the replay memory is kept longer than the window
  in which a timestamp is accepted, that is twice the skew plus the delay between the check of the time and the
  look into the store, if no clock reading in between is later than the second look, and if the store was asked
  about fewer other ids than it has room for, then a header that was accepted is refused with any request. (A
  store that took in as many other ids as its capacity has dropped the oldest, and would accept it again.)\<close>

theorem header_accepted_once:
  assumes "verify_header mac sha gs now1 now1' r1 (Some h) st = (Inr rid, st')"
    and "st'' = fold (\<lambda>(t, r, l) s. snd (seen_or_record t r l s)) calls st'"
    and "replay_ok st" "card (other_ids rid calls) < rp_capacity st" "\<forall>(t, _, _) \<in> set calls. t \<le> now2'"
    and "now1 \<le> now1'" "now2' \<le> now2 + delay" "2 * gs_max_skew gs + delay < gs_replay_ttl gs"
  shows "\<exists>e. fst (verify_header mac sha gs now2 now2' r2 (Some h) st'') = Inl e"
proof (cases "check_header mac sha gs now2 r2 (Some h)")
  case (Inl e)
  then show ?thesis by (simp add: verify_header_def)
next
  case (Inr rid2)
  have first: "check_header mac sha gs now1 r1 (Some h) = Inr rid"
      "seen_or_record now1' rid (gs_replay_ttl gs) st = (False, st')"
    using assms(1) by (simp_all add: verify_header_Inr)
  have "\<exists>n. rid2 = rid \<and> \<bar>now1 - n\<bar> \<le> gs_max_skew gs \<and> \<bar>now2 - n\<bar> \<le> gs_max_skew gs"
  proof (cases "gs_version gs = ''v2''")
    case True
    obtain kid ts n sg where p: "split_on (CHR '':'') h = [''v2'', kid, rid, ts, sha (sr_body r1), sg]"
        "parse_int ts = Some n" "\<bar>now1 - n\<bar> \<le> gs_max_skew gs"
      using check_header_v2[OF first(1) True] by metis
    obtain kid2 ts2 n2 sg2 where q: "split_on (CHR '':'') h = [''v2'', kid2, rid2, ts2, sha (sr_body r2), sg2]"
        "parse_int ts2 = Some n2" "\<bar>now2 - n2\<bar> \<le> gs_max_skew gs"
      using check_header_v2[OF Inr True] by metis
    show ?thesis using p q by auto
  next
    case False
    have v1: "check_v1 mac gs t (split_on (CHR '':'') h) = Inr r" if "check_header mac sha gs t rq (Some h) = Inr r" for t rq r
      using that False by (auto simp: check_header_def Let_def opt_str_def split: if_splits)
    show ?thesis
      using v1[OF first(1)] v1[OF Inr] by (auto simp: check_v1_def split: list.splits option.splits)
  qed
  then obtain n where n: "rid2 = rid" "\<bar>now1 - n\<bar> \<le> gs_max_skew gs" "\<bar>now2 - n\<bar> \<le> gs_max_skew gs" by blast
  then have window: "now2' < now1' + gs_replay_ttl gs" using assms(6-8) by linarith
  have "fst (seen_or_record now2' rid (gs_replay_ttl gs) st'')"
    unfolding assms(2) by (rule recorded_then_refused[OF assms(3) first(2) assms(4,5) window])
  then show ?thesis
    using Inr n(1) by (cases "seen_or_record now2' rid (gs_replay_ttl gs) st''")
      (simp add: verify_header_def check_replay_def)
qed

lemma header_accepted_once_witness:
  "\<exists>e. fst (verify_header (\<lambda>s t. ''m'') (\<lambda>b. ''b'') (sample_secret\<lparr>gs_replay_ttl := 121000\<rparr>) 160000 160001 sample_signed_request
     (Some ''v2:local:r1:100000:b:m'') (snd (verify_header (\<lambda>s t. ''m'') (\<lambda>b. ''b'') (sample_secret\<lparr>gs_replay_ttl := 121000\<rparr>)
       40000 40001 sample_signed_request (Some ''v2:local:r1:100000:b:m'') sample_store))) = Inl e"
proof -
  let ?gs = "sample_secret\<lparr>gs_replay_ttl := 121000\<rparr>"
  let ?v = "verify_header (\<lambda>s t. ''m'') (\<lambda>b. ''b'') ?gs 40000 40001 sample_signed_request (Some ''v2:local:r1:100000:b:m'') sample_store"
  have "fst ?v = Inr ''r1''"
    by (simp add: verify_header_def sample_header_check check_replay_def seen_or_record_def sample_store_def evict_stale_def)
  then have v: "?v = (Inr ''r1'', snd ?v)" by (metis prod.collapse)
  show ?thesis
    by (rule header_accepted_once[OF v, where calls = "[]" and delay = 1])
      (simp_all add: sample_secret_mk(2) sample_store_def replay_ok_def other_ids_def)
qed

text \<open>
  The default window lets one replay through. With a replay memory of at most twice the skew, as the
  defaults have it, a header that is accepted when it is as early as allowed is accepted again when the
  memory is over, which is still inside the window.\<close>

theorem boundary_replay:
  assumes "check_header mac sha gs now r (Some h) = Inr rid"
    and "check_header mac sha gs (now + gs_replay_ttl gs) r (Some h) = Inr rid"
    and "replay_ok st" "\<not> fst (seen_or_record now rid (gs_replay_ttl gs) st)"
  shows "fst (verify_header mac sha gs now now r (Some h) st) = Inr rid \<and>
     fst (verify_header mac sha gs (now + gs_replay_ttl gs) (now + gs_replay_ttl gs) r (Some h)
        (snd (verify_header mac sha gs now now r (Some h) st))) = Inr rid"
proof -
  let ?ttl = "gs_replay_ttl gs"
  obtain st' where st': "seen_or_record now rid ?ttl st = (False, st')"
    using assms(4) by (cases "seen_or_record now rid ?ttl st") auto
  have ok: "replay_ok st'" using seen_or_record_ok[OF assms(3), of now rid ?ttl] st' by simp
  have "dict_get (rp_seen st') rid = Some e \<Longrightarrow> e = now + ?ttl" for e
  proof -
    have "rp_seen st' = trim_oldest (rp_capacity st) (dict_pop rid (evict_stale now (rp_seen st)) @ [(rid, now + ?ttl)])"
      using st' by (auto simp: seen_or_record_def Let_def split: option.splits if_splits)
    then have "(rid, e) \<in> set (dict_pop rid (evict_stale now (rp_seen st)) @ [(rid, now + ?ttl)])"
      if "dict_get (rp_seen st') rid = Some e"
      using that by (auto simp: trim_oldest_def dest!: map_of_SomeD in_set_dropD)
    then show "dict_get (rp_seen st') rid = Some e \<Longrightarrow> e = now + ?ttl"
      by (auto simp: AList.delete_eq)
  qed
  then have late: "dict_get (evict_stale (now + ?ttl) (rp_seen st')) rid = Some e \<Longrightarrow> e = now + ?ttl" for e
    using ok unfolding replay_ok_def evict_stale_dropWhile[OF conjunct1[OF ok[unfolded replay_ok_def]]]
    by (metis (no_types, lifting) dict_get_iff dict_ok_dropWhile set_dropWhileD)
  have "\<not> fst (seen_or_record (now + ?ttl) rid ?ttl st')"
    using late by (auto simp: seen_or_record_def Let_def split: option.splits)
  then show ?thesis
    using assms(1,2) st' by (auto simp: verify_header_def check_replay_def split: prod.splits)
qed

lemma boundary_replay_witness:
  "fst (verify_header (\<lambda>s t. ''m'') (\<lambda>b. ''b'') sample_secret 160000 160000 sample_signed_request
     (Some ''v2:local:r1:100000:b:m'') (snd (verify_header (\<lambda>s t. ''m'') (\<lambda>b. ''b'') sample_secret
       40000 40000 sample_signed_request (Some ''v2:local:r1:100000:b:m'') sample_store))) = Inr ''r1''"
proof -
  have 1: "check_header (\<lambda>s t. ''m'') (\<lambda>b. ''b'') sample_secret 40000 sample_signed_request (Some ''v2:local:r1:100000:b:m'') = Inr ''r1''"
    using sample_header_check[of 40000 "gs_replay_ttl sample_secret"] by simp
  have 2: "check_header (\<lambda>s t. ''m'') (\<lambda>b. ''b'') sample_secret (40000 + gs_replay_ttl sample_secret) sample_signed_request
      (Some ''v2:local:r1:100000:b:m'') = Inr ''r1''"
    using sample_header_check[of "40000 + gs_replay_ttl sample_secret" "gs_replay_ttl sample_secret"]
    by (simp add: sample_secret_mk(2))
  have 3: "replay_ok sample_store" by (simp add: replay_ok_def sample_store_def)
  have 4: "\<not> fst (seen_or_record 40000 ''r1'' (gs_replay_ttl sample_secret) sample_store)"
    by (simp add: sample_store_def seen_or_record_def evict_stale_def)
  show ?thesis using boundary_replay[OF 1 2 3 4] by (simp add: sample_secret_mk(2))
qed

text \<open>
  Line breaks are not escaped in the signed text: a path that ends in one field's worth of text and the
  query that follows it can be cut anywhere, so one signature covers different requests.\<close>

theorem signed_text_ambiguous:
  "canonical_text gs (rq\<lparr>sr_path := p @ [CHR 0x0A] @ q, sr_query := r\<rparr>) bh rid ts kid =
   canonical_text gs (rq\<lparr>sr_path := p, sr_query := q @ [CHR 0x0A] @ r\<rparr>) bh rid ts kid"
  by (simp add: canonical_text_def)

end
