(* ===== verification/Runtime_Envelope.thy ===== *)
theory Runtime_Envelope
  imports Replay Py_Value
begin

text \<open>
  The snapshot and the signed envelope of the agent runtime
  (\<open>src/packages/ai-gateway-contracts/src/ai_gateway_contracts/agent_runtime.py\<close>), with the replay store of
  \<open>Replay\<close>. Snapshots and envelopes are dynamically typed values, so what the validator guarantees is a
  theorem. \<open>canon\<close> is the canonical JSON text of a value, \<open>sha\<close> and \<open>mac\<close> are SHA-256 and HMAC-SHA256 as
  hexadecimal texts.
\<close>

section \<open>Checks\<close>

text \<open>The error with its code; testing whether a list or a dictionary is in a set raises \<open>TypeError\<close>.\<close>

datatype envelope_error = EnvelopeError string | UnhashableType

definition demand :: "bool \<Rightarrow> string \<Rightarrow> envelope_error + unit" where
  "demand ok code = (if ok then Inr () else Inl (EnvelopeError code))"

definition snapshot_invalid :: string where "snapshot_invalid = ''AGENT_RUNTIME_SNAPSHOT_INVALID''"
definition envelope_invalid :: string where "envelope_invalid = ''AGENT_RUNTIME_ENVELOPE_INVALID''"
definition identity_invalid :: string where "identity_invalid = ''AGENT_RUNTIME_IDENTITY_INVALID''"

definition closed_mapping :: "pyval \<Rightarrow> string list \<Rightarrow> string \<Rightarrow> envelope_error + (string, pyval) py_dict" where
  "closed_mapping v keys code =
     (if is_dict v \<and> set (map fst (dict_of v)) = set keys then Inr (dict_of v) else Inl (EnvelopeError code))"

definition filled :: "pyval \<Rightarrow> bool" where
  "filled v = (case v of PStr s \<Rightarrow> py_strip s \<noteq> [] | _ \<Rightarrow> False)"

definition non_empty_string :: "pyval \<Rightarrow> string \<Rightarrow> envelope_error + unit" where
  "non_empty_string v code = demand (filled v) code"

definition optional_string :: "pyval \<Rightarrow> string \<Rightarrow> envelope_error + unit" where
  "optional_string v code = (if v = PNone then Inr () else non_empty_string v code)"

definition member_of :: "pyval \<Rightarrow> string list \<Rightarrow> envelope_error + bool" where
  "member_of v names =
     (case v of PStr s \<Rightarrow> Inr (s \<in> set names) | PList _ \<Rightarrow> Inl UnhashableType | PDict _ \<Rightarrow> Inl UnhashableType
      | _ \<Rightarrow> Inr False)"

definition in_names :: "pyval \<Rightarrow> string list \<Rightarrow> bool" where
  "in_names v names = (case v of PStr s \<Rightarrow> s \<in> set names | _ \<Rightarrow> False)"

definition demand_member :: "pyval \<Rightarrow> string list \<Rightarrow> string \<Rightarrow> envelope_error + unit" where
  "demand_member v names code = result_bind (member_of v names) (\<lambda>b. demand b code)"

section \<open>Snapshots\<close>

definition snapshot_keys :: "string list" where
  "snapshot_keys = [''schema_version'', ''tenant_id'', ''agent_id'', ''agent_version_id'', ''publication'', ''model'',
     ''instructions'', ''capabilities'', ''knowledge'', ''memory'', ''channel_policy'', ''fingerprints'']"

definition channels :: "string list" where
  "channels = [''preview'', ''hosted'', ''embed'', ''api'', ''builtin'']"
definition auth_modes :: "string list" where
  "auth_modes = [''private'', ''tenant'', ''public'', ''token'']"
definition capability_types :: "string list" where
  "capability_types = [''platform'', ''mcp'', ''skill'', ''connector'']"
definition risks :: "string list" where
  "risks = [''low'', ''medium'', ''high'', ''critical'']"
definition memory_modes :: "string list" where
  "memory_modes = [''off'', ''session'', ''user'']"

definition sensitive_keys :: "string list" where
  "sensitive_keys = [''apikey'', ''apitoken'', ''authorization'', ''bearertoken'', ''clientsecret'', ''credential'',
     ''credentialref'', ''password'', ''privatekey'', ''refreshtoken'', ''secret'', ''secretref'', ''tokenhash'', ''tokenref'']"

definition canonical_key :: "string \<Rightarrow> string" where
  "canonical_key k = filter (\<lambda>c. is_digit c \<or> c \<in> set ''abcdefghijklmnopqrstuvwxyz'') (py_lower k)"

function has_sensitive_key :: "pyval \<Rightarrow> bool" where
  "has_sensitive_key v =
     (case v of
        PDict d \<Rightarrow> list_ex (\<lambda>(k, x). canonical_key k \<in> set sensitive_keys \<or> has_sensitive_key x) d
      | PList vs \<Rightarrow> list_ex has_sensitive_key vs
      | _ \<Rightarrow> False)"
  by pat_completeness auto

termination has_sensitive_key
  by (relation "measure size") (auto dest: size_list_member simp: size_list_estimation' less_Suc_eq_le)

declare has_sensitive_key.simps [simp del]

definition publication_check :: "pyval \<Rightarrow> envelope_error + unit" where
  "publication_check v =
     result_bind (closed_mapping v [''id'', ''channel'', ''auth_mode''] snapshot_invalid) (\<lambda>p.
     result_bind (optional_string (get_val p ''id'') snapshot_invalid) (\<lambda>_.
     result_bind (demand_member (get_val p ''channel'') channels snapshot_invalid) (\<lambda>_.
       demand_member (get_val p ''auth_mode'') auth_modes snapshot_invalid)))"

definition model_check :: "pyval \<Rightarrow> envelope_error + unit" where
  "model_check v =
     result_bind (closed_mapping v [''id'', ''provider'', ''parameters''] snapshot_invalid) (\<lambda>m.
     result_bind (non_empty_string (get_val m ''id'') snapshot_invalid) (\<lambda>_.
     result_bind (non_empty_string (get_val m ''provider'') snapshot_invalid) (\<lambda>_.
       demand (is_dict (get_val m ''parameters'')) snapshot_invalid)))"

definition instructions_check :: "pyval \<Rightarrow> envelope_error + unit" where
  "instructions_check v =
     result_bind (closed_mapping v [''agent'', ''prompt_hash''] snapshot_invalid) (\<lambda>i.
     result_bind (demand (is_str (get_val i ''agent'')) snapshot_invalid) (\<lambda>_.
       non_empty_string (get_val i ''prompt_hash'') snapshot_invalid))"

definition capability_keys :: "string list" where
  "capability_keys = [''type'', ''id'', ''version'', ''schema_hash'', ''risk'', ''config'']"

text \<open>One round of the loop: \<open>type\<close> is tested before \<open>risk\<close>, and \<open>or\<close> stops at the first that fails.\<close>

definition capability_check :: "pyval list \<Rightarrow> pyval \<Rightarrow> envelope_error + pyval" where
  "capability_check seen raw =
     result_bind (closed_mapping raw capability_keys snapshot_invalid) (\<lambda>item.
     result_bind (demand_member (get_val item ''type'') capability_types snapshot_invalid) (\<lambda>_.
     result_bind (demand_member (get_val item ''risk'') risks snapshot_invalid) (\<lambda>_.
     result_bind (non_empty_string (get_val item ''id'') snapshot_invalid) (\<lambda>_.
     result_bind (demand (get_val item ''id'' \<notin> set seen) snapshot_invalid) (\<lambda>_.
     result_bind (optional_string (get_val item ''version'') snapshot_invalid) (\<lambda>_.
     result_bind (optional_string (get_val item ''schema_hash'') snapshot_invalid) (\<lambda>_.
     result_bind (demand (is_dict (get_val item ''config'')) snapshot_invalid) (\<lambda>_.
       Inr (get_val item ''id'')))))))))"

fun capabilities_loop :: "pyval list \<Rightarrow> pyval list \<Rightarrow> envelope_error + unit" where
  "capabilities_loop seen [] = Inr ()"
| "capabilities_loop seen (raw # rest) =
     result_bind (capability_check seen raw) (\<lambda>cid. capabilities_loop (cid # seen) rest)"

definition capabilities_check :: "pyval \<Rightarrow> envelope_error + unit" where
  "capabilities_check v =
     result_bind (demand (is_list v) snapshot_invalid) (\<lambda>_. capabilities_loop [] (list_of v))"

definition knowledge_check :: "pyval \<Rightarrow> envelope_error + unit" where
  "knowledge_check v =
     result_bind (closed_mapping v [''datasets'', ''retrieval''] snapshot_invalid) (\<lambda>k.
     result_bind (demand (is_list (get_val k ''datasets'') \<and>
         list_all (\<lambda>x. is_str x \<and> truthy x) (list_of (get_val k ''datasets''))) snapshot_invalid) (\<lambda>_.
       demand (is_dict (get_val k ''retrieval'')) snapshot_invalid))"

definition memory_mode_check :: "pyval \<Rightarrow> envelope_error + unit" where
  "memory_mode_check v =
     result_bind (closed_mapping v [''mode''] snapshot_invalid) (\<lambda>m.
       demand_member (get_val m ''mode'') memory_modes snapshot_invalid)"

definition channel_policy_check :: "pyval \<Rightarrow> envelope_error + unit" where
  "channel_policy_check v =
     result_bind (closed_mapping v [''attachments'', ''high_risk_tools'', ''allowed_origins''] snapshot_invalid) (\<lambda>p.
     result_bind (demand (is_bool (get_val p ''attachments'') \<and> is_bool (get_val p ''high_risk_tools''))
         snapshot_invalid) (\<lambda>_.
       demand (is_list (get_val p ''allowed_origins'') \<and> list_all is_str (list_of (get_val p ''allowed_origins'')))
         snapshot_invalid))"

definition fingerprint_keys :: "string list" where
  "fingerprint_keys = [''spec'', ''tool_schema'', ''skills'', ''knowledge_revision'']"

definition fingerprints_check :: "pyval \<Rightarrow> envelope_error + unit" where
  "fingerprints_check v =
     result_bind (closed_mapping v fingerprint_keys snapshot_invalid) (\<lambda>f.
       demand (list_all (\<lambda>(k, x). filled x) f) snapshot_invalid)"

definition validate_snapshot :: "pyval \<Rightarrow> envelope_error + (string, pyval) py_dict" where
  "validate_snapshot v =
     result_bind (closed_mapping v snapshot_keys snapshot_invalid) (\<lambda>s.
     result_bind (demand (get_val s ''schema_version'' = PStr ''agent-runtime/v1'')
         ''AGENT_RUNTIME_SNAPSHOT_VERSION_UNSUPPORTED'') (\<lambda>_.
     result_bind (non_empty_string (get_val s ''tenant_id'') snapshot_invalid) (\<lambda>_.
     result_bind (non_empty_string (get_val s ''agent_id'') snapshot_invalid) (\<lambda>_.
     result_bind (optional_string (get_val s ''agent_version_id'') snapshot_invalid) (\<lambda>_.
     result_bind (publication_check (get_val s ''publication'')) (\<lambda>_.
     result_bind (model_check (get_val s ''model'')) (\<lambda>_.
     result_bind (instructions_check (get_val s ''instructions'')) (\<lambda>_.
     result_bind (capabilities_check (get_val s ''capabilities'')) (\<lambda>_.
     result_bind (knowledge_check (get_val s ''knowledge'')) (\<lambda>_.
     result_bind (memory_mode_check (get_val s ''memory'')) (\<lambda>_.
     result_bind (channel_policy_check (get_val s ''channel_policy'')) (\<lambda>_.
     result_bind (fingerprints_check (get_val s ''fingerprints'')) (\<lambda>_.
     result_bind (demand (\<not> has_sensitive_key v) ''AGENT_RUNTIME_SECRET_FORBIDDEN'') (\<lambda>_.
       Inr s))))))))))))))"

section \<open>Envelopes\<close>

definition envelope_keys :: "string list" where
  "envelope_keys = [''schema_version'', ''issuer'', ''tenant_id'', ''caller_principal'', ''agent_id'', ''agent_version_id'',
     ''draft_revision'', ''publication_id'', ''channel'', ''session_id'', ''resolved_snapshot'', ''request_body_hash'',
     ''snapshot_hash'', ''spec_hash'', ''issued_at_ms'', ''expires_at_ms'', ''nonce'', ''signature'']"

record runtime_signer =
  sg_secret :: string
  sg_issuer :: string
  sg_max_ttl :: int
  sg_max_skew :: int

datatype signer_error = SignerConfig string

definition mk_runtime_signer :: "string \<Rightarrow> string \<Rightarrow> int \<Rightarrow> int \<Rightarrow> signer_error + runtime_signer" where
  "mk_runtime_signer secret issuer max_ttl max_skew =
     guard_else (16 \<le> length secret) (SignerConfig ''signing secret must be at least 16 chars'')
    (guard_else (issuer \<noteq> [] \<and> CHR '':'' \<notin> set issuer) (SignerConfig ''issuer must be non-empty and colon-free'')
    (guard_else (\<not> (max_ttl \<le> 0 \<or> max_skew < 0)) (SignerConfig ''time bounds must be positive'')
    (Inr \<lparr>sg_secret = secret, sg_issuer = issuer, sg_max_ttl = max_ttl, sg_max_skew = max_skew\<rparr>)))"

text \<open>The pins a channel needs: a preview has exactly one of draft and version and no publication, a
  built-in agent has none of the three, the others have a version and a publication.\<close>

definition pins_ok :: "(string, pyval) py_dict \<Rightarrow> bool" where
  "pins_ok e =
     (let draft = get_val e ''draft_revision''; version = get_val e ''agent_version_id'';
          publication = get_val e ''publication_id''
      in if get_val e ''channel'' = PStr ''preview''
         then \<not> ((draft \<noteq> PNone) = (version \<noteq> PNone) \<or> publication \<noteq> PNone)
         else if get_val e ''channel'' = PStr ''builtin''
         then \<not> (draft \<noteq> PNone \<or> version \<noteq> PNone \<or> publication \<noteq> PNone)
         else \<not> (draft \<noteq> PNone \<or> version = PNone \<or> publication = PNone))"

definition validate_unsigned ::
  "runtime_signer \<Rightarrow> int \<Rightarrow> (string, pyval) py_dict \<Rightarrow> envelope_error + unit" where
  "validate_unsigned sg now e =
     result_bind (demand (set (map fst e) = set envelope_keys - {''signature''}) envelope_invalid) (\<lambda>_.
     result_bind (demand (get_val e ''schema_version'' = PStr ''agent-runtime-envelope/v1'')
         ''AGENT_RUNTIME_ENVELOPE_VERSION_UNSUPPORTED'') (\<lambda>_.
     result_bind (demand (list_all (\<lambda>k. filled (get_val e k)) [''issuer'', ''tenant_id'', ''caller_principal'', ''agent_id'',
         ''session_id'', ''spec_hash'', ''nonce'']) envelope_invalid) (\<lambda>_.
     result_bind (optional_string (get_val e ''agent_version_id'') envelope_invalid) (\<lambda>_.
     result_bind (optional_string (get_val e ''publication_id'') envelope_invalid) (\<lambda>_.
     result_bind (demand_member (get_val e ''channel'') channels envelope_invalid) (\<lambda>_.
     result_bind (demand (get_val e ''draft_revision'' = PNone \<or>
         is_int (get_val e ''draft_revision'') \<and> 1 \<le> the_int (get_val e ''draft_revision'')) envelope_invalid) (\<lambda>_.
     result_bind (demand (pins_ok e) envelope_invalid) (\<lambda>_.
     result_bind (demand (is_int (get_val e ''issued_at_ms'') \<and> is_int (get_val e ''expires_at_ms'')) envelope_invalid) (\<lambda>_.
       let issued = the_int (get_val e ''issued_at_ms''); expires = the_int (get_val e ''expires_at_ms'') in
     result_bind (demand (\<not> (expires \<le> issued \<or> sg_max_ttl sg < expires - issued)) ''AGENT_RUNTIME_TTL_INVALID'') (\<lambda>_.
     result_bind (demand (\<not> now < issued - sg_max_skew sg) ''AGENT_RUNTIME_NOT_YET_VALID'') (\<lambda>_.
     result_bind (demand (\<not> expires < now) ''AGENT_RUNTIME_EXPIRED'') (\<lambda>_.
     result_bind (non_empty_string (get_val e ''request_body_hash'') envelope_invalid) (\<lambda>_.
     result_bind (non_empty_string (get_val e ''snapshot_hash'') envelope_invalid) (\<lambda>_.
     result_bind (validate_snapshot (get_val e ''resolved_snapshot'')) (\<lambda>_.
       Inr ())))))))))))))))"

definition runtime_sha256 :: "(pyval \<Rightarrow> string) \<Rightarrow> (string \<Rightarrow> string) \<Rightarrow> pyval \<Rightarrow> string" where
  "runtime_sha256 canon sha v = ''sha256:'' @ sha (canon v)"

definition unsigned_of :: "(string, pyval) py_dict \<Rightarrow> (string, pyval) py_dict" where
  "unsigned_of e = filter (\<lambda>(k, v). k \<noteq> ''signature'') e"

definition envelope_signature ::
  "(pyval \<Rightarrow> string) \<Rightarrow> (string \<Rightarrow> string \<Rightarrow> string) \<Rightarrow> runtime_signer \<Rightarrow> (string, pyval) py_dict \<Rightarrow> string" where
  "envelope_signature canon mac sg e = ''sha256:'' @ mac (sg_secret sg) (canon (PDict (unsigned_of e)))"

record sign_args =
  sn_tenant :: string
  sn_caller :: string
  sn_agent :: string
  sn_version :: "string option"
  sn_draft :: "int option"
  sn_publication :: "string option"
  sn_channel :: string
  sn_session :: string
  sn_snapshot :: pyval
  sn_body :: pyval
  sn_spec :: string
  sn_issued :: int
  sn_expires :: int
  sn_nonce :: string

definition opt_pystr :: "string option \<Rightarrow> pyval" where
  "opt_pystr x = (case x of None \<Rightarrow> PNone | Some s \<Rightarrow> PStr s)"

definition unsigned_envelope ::
  "(pyval \<Rightarrow> string) \<Rightarrow> (string \<Rightarrow> string) \<Rightarrow> runtime_signer \<Rightarrow> sign_args \<Rightarrow> (string, pyval) py_dict" where
  "unsigned_envelope canon sha sg a =
     [(''schema_version'', PStr ''agent-runtime-envelope/v1''), (''issuer'', PStr (sg_issuer sg)),
      (''tenant_id'', PStr (sn_tenant a)), (''caller_principal'', PStr (sn_caller a)), (''agent_id'', PStr (sn_agent a)),
      (''agent_version_id'', opt_pystr (sn_version a)),
      (''draft_revision'', case sn_draft a of None \<Rightarrow> PNone | Some n \<Rightarrow> PInt n),
      (''publication_id'', opt_pystr (sn_publication a)), (''channel'', PStr (sn_channel a)),
      (''session_id'', PStr (sn_session a)), (''resolved_snapshot'', sn_snapshot a),
      (''request_body_hash'', PStr (runtime_sha256 canon sha (sn_body a))),
      (''snapshot_hash'', PStr (runtime_sha256 canon sha (sn_snapshot a))), (''spec_hash'', PStr (sn_spec a)),
      (''issued_at_ms'', PInt (sn_issued a)), (''expires_at_ms'', PInt (sn_expires a)), (''nonce'', PStr (sn_nonce a))]"

text \<open>\<open>sign\<close>, with the times and the nonce its defaults have chosen.\<close>

definition sign_envelope ::
  "(pyval \<Rightarrow> string) \<Rightarrow> (string \<Rightarrow> string) \<Rightarrow> (string \<Rightarrow> string \<Rightarrow> string) \<Rightarrow> runtime_signer \<Rightarrow> sign_args
     \<Rightarrow> envelope_error + (string, pyval) py_dict" where
  "sign_envelope canon sha mac sg a =
     result_bind (validate_snapshot (sn_snapshot a)) (\<lambda>_.
     result_bind (demand (list_all (\<lambda>s. filled (PStr s)) [sn_tenant a, sn_caller a, sn_agent a]) identity_invalid) (\<lambda>_.
     result_bind (optional_string (opt_pystr (sn_version a)) identity_invalid) (\<lambda>_.
     result_bind (optional_string (opt_pystr (sn_publication a)) identity_invalid) (\<lambda>_.
     result_bind (demand (filled (PStr (sn_session a)) \<and> filled (PStr (sn_spec a))) identity_invalid) (\<lambda>_.
       let e = unsigned_envelope canon sha sg a in
     result_bind (validate_unsigned sg (sn_issued a) e) (\<lambda>_.
       Inr (e @ [(''signature'', PStr (envelope_signature canon mac sg e))])))))))"

record verified_runtime =
  vr_tenant :: pyval
  vr_caller :: pyval
  vr_agent :: pyval
  vr_version :: pyval
  vr_draft :: pyval
  vr_publication :: pyval
  vr_channel :: pyval
  vr_session :: pyval
  vr_fingerprint :: pyval
  vr_spec :: pyval
  vr_capabilities :: "pyval list"
  vr_snapshot :: pyval

text \<open>The identity the envelope claims and the one its snapshot was resolved for.\<close>

definition identity_matches :: "(string, pyval) py_dict \<Rightarrow> (string, pyval) py_dict \<Rightarrow> bool" where
  "identity_matches e s =
     (let publication = dict_of (get_val s ''publication'')
      in get_val s ''tenant_id'' = get_val e ''tenant_id'' \<and> get_val s ''agent_id'' = get_val e ''agent_id'' \<and>
         get_val s ''agent_version_id'' = get_val e ''agent_version_id'' \<and>
         get_val publication ''id'' = get_val e ''publication_id'' \<and>
         get_val publication ''channel'' = get_val e ''channel'' \<and>
         get_val (dict_of (get_val s ''fingerprints'')) ''spec'' = get_val e ''spec_hash'')"

definition replay_key :: "(string, pyval) py_dict \<Rightarrow> string" where
  "replay_key e = join_with '':'' [the_str (get_val e ''issuer''), the_str (get_val e ''tenant_id''), the_str (get_val e ''nonce'')]"

text \<open>Everything \<open>verify\<close> checks before the replay store: the unsigned envelope.\<close>

definition check_envelope ::
  "(pyval \<Rightarrow> string) \<Rightarrow> (string \<Rightarrow> string) \<Rightarrow> (string \<Rightarrow> string \<Rightarrow> string) \<Rightarrow> runtime_signer \<Rightarrow> int \<Rightarrow> pyval \<Rightarrow> string
     \<Rightarrow> string \<Rightarrow> string \<Rightarrow> pyval \<Rightarrow> envelope_error + (string, pyval) py_dict" where
  "check_envelope canon sha mac sg now body tenant caller session envelope =
     result_bind (closed_mapping envelope envelope_keys envelope_invalid) (\<lambda>env.
       let e = unsigned_of env; s = get_val e ''resolved_snapshot'' in
     result_bind (validate_unsigned sg now e) (\<lambda>_.
     result_bind (demand (runtime_sha256 canon sha s = the_str (get_val e ''snapshot_hash''))
         ''AGENT_RUNTIME_SNAPSHOT_HASH_MISMATCH'') (\<lambda>_.
     result_bind (demand (runtime_sha256 canon sha body = the_str (get_val e ''request_body_hash''))
         ''AGENT_RUNTIME_BODY_HASH_MISMATCH'') (\<lambda>_.
     result_bind (demand (get_val env ''signature'' = PStr (envelope_signature canon mac sg e))
         ''AGENT_RUNTIME_SIGNATURE_INVALID'') (\<lambda>_.
     result_bind (demand (get_val e ''issuer'' = PStr (sg_issuer sg)) ''AGENT_RUNTIME_ISSUER_INVALID'') (\<lambda>_.
     result_bind (demand (get_val e ''tenant_id'' = PStr tenant) ''AGENT_RUNTIME_TENANT_MISMATCH'') (\<lambda>_.
     result_bind (demand (get_val e ''caller_principal'' = PStr caller) ''AGENT_RUNTIME_CALLER_MISMATCH'') (\<lambda>_.
     result_bind (demand (get_val e ''session_id'' = PStr session) ''AGENT_RUNTIME_SESSION_MISMATCH'') (\<lambda>_.
     result_bind (demand (identity_matches e (dict_of s)) ''AGENT_RUNTIME_IDENTITY_MISMATCH'') (\<lambda>_.
       Inr e))))))))))"

definition envelope_replay_ttl :: "runtime_signer \<Rightarrow> int \<Rightarrow> (string, pyval) py_dict \<Rightarrow> int" where
  "envelope_replay_ttl sg now e = max 1 (the_int (get_val e ''expires_at_ms'') - now + sg_max_skew sg)"

definition verified_of :: "(string, pyval) py_dict \<Rightarrow> verified_runtime" where
  "verified_of e =
     \<lparr>vr_tenant = get_val e ''tenant_id'', vr_caller = get_val e ''caller_principal'', vr_agent = get_val e ''agent_id'',
      vr_version = get_val e ''agent_version_id'', vr_draft = get_val e ''draft_revision'',
      vr_publication = get_val e ''publication_id'', vr_channel = get_val e ''channel'',
      vr_session = get_val e ''session_id'', vr_fingerprint = get_val e ''snapshot_hash'',
      vr_spec = get_val e ''spec_hash'',
      vr_capabilities = map (\<lambda>c. get_val (dict_of c) ''id'')
        (list_of (get_val (dict_of (get_val e ''resolved_snapshot'')) ''capabilities'')),
      vr_snapshot = get_val e ''resolved_snapshot''\<rparr>"

definition verify_envelope ::
  "(pyval \<Rightarrow> string) \<Rightarrow> (string \<Rightarrow> string) \<Rightarrow> (string \<Rightarrow> string \<Rightarrow> string) \<Rightarrow> runtime_signer \<Rightarrow> int \<Rightarrow> int \<Rightarrow> pyval
     \<Rightarrow> string \<Rightarrow> string \<Rightarrow> string \<Rightarrow> pyval \<Rightarrow> replay_store \<Rightarrow> (envelope_error + verified_runtime) \<times> replay_store" where
  "verify_envelope canon sha mac sg now now' body tenant caller session envelope st =
     (case check_envelope canon sha mac sg now body tenant caller session envelope of
        Inl e \<Rightarrow> (Inl e, st)
      | Inr e \<Rightarrow>
          (case seen_or_record now' (replay_key e) (envelope_replay_ttl sg now e) st of
             (replayed, st') \<Rightarrow>
               ((if replayed then Inl (EnvelopeError ''AGENT_RUNTIME_REPLAYED'') else Inr (verified_of e)), st')))"

section \<open>What the checks mean\<close>

definition has_shape :: "pyval \<Rightarrow> string list \<Rightarrow> bool" where
  "has_shape v keys \<longleftrightarrow> is_dict v \<and> set (map fst (dict_of v)) = set keys"

abbreviation field :: "pyval \<Rightarrow> string \<Rightarrow> pyval" where
  "field v k \<equiv> get_val (dict_of v) k"

abbreviation filled_or_none :: "pyval \<Rightarrow> bool" where
  "filled_or_none v \<equiv> v = PNone \<or> filled v"

lemma demand_Inr [simp]: "demand ok code = Inr u \<longleftrightarrow> ok"
  by (simp add: demand_def)

lemma closed_mapping_Inr [simp]:
  "closed_mapping v keys code = Inr d \<longleftrightarrow> has_shape v keys \<and> d = dict_of v"
  by (auto simp: closed_mapping_def has_shape_def)

lemma non_empty_string_Inr [simp]: "non_empty_string v code = Inr u \<longleftrightarrow> filled v"
  by (simp add: non_empty_string_def)

lemma optional_string_Inr [simp]: "optional_string v code = Inr u \<longleftrightarrow> filled_or_none v"
  by (simp add: optional_string_def)

lemma demand_member_Inr [simp]: "demand_member v names code = Inr u \<longleftrightarrow> in_names v names"
  by (cases v) (simp_all add: demand_member_def member_of_def in_names_def)

definition capability_wf :: "pyval \<Rightarrow> bool" where
  "capability_wf c \<longleftrightarrow> has_shape c capability_keys \<and> in_names (field c ''type'') capability_types \<and>
     in_names (field c ''risk'') risks \<and> filled (field c ''id'') \<and> filled_or_none (field c ''version'') \<and>
     filled_or_none (field c ''schema_hash'') \<and> is_dict (field c ''config'')"

lemma capability_check_Inr:
  "capability_check seen c = Inr cid \<longleftrightarrow> capability_wf c \<and> field c ''id'' \<notin> set seen \<and> cid = field c ''id''"
  by (auto simp: capability_check_def result_bind_Inr capability_wf_def)

lemma capabilities_loop_Inr:
  "capabilities_loop seen cs = Inr u \<longleftrightarrow>
     list_all capability_wf cs \<and> distinct (map (\<lambda>c. field c ''id'') cs) \<and>
     set (map (\<lambda>c. field c ''id'') cs) \<inter> set seen = {}"
  by (induction cs arbitrary: seen) (auto simp: result_bind_Inr capability_check_Inr)

definition publication_wf :: "pyval \<Rightarrow> bool" where
  "publication_wf p \<longleftrightarrow> has_shape p [''id'', ''channel'', ''auth_mode''] \<and> filled_or_none (field p ''id'') \<and>
     in_names (field p ''channel'') channels \<and> in_names (field p ''auth_mode'') auth_modes"

definition policy_wf :: "pyval \<Rightarrow> bool" where
  "policy_wf p \<longleftrightarrow> has_shape p [''attachments'', ''high_risk_tools'', ''allowed_origins''] \<and>
     is_bool (field p ''attachments'') \<and> is_bool (field p ''high_risk_tools'') \<and>
     is_list (field p ''allowed_origins'') \<and> list_all is_str (list_of (field p ''allowed_origins''))"

definition model_wf :: "pyval \<Rightarrow> bool" where
  "model_wf m \<longleftrightarrow> has_shape m [''id'', ''provider'', ''parameters''] \<and> filled (field m ''id'') \<and>
     filled (field m ''provider'') \<and> is_dict (field m ''parameters'')"

definition knowledge_wf :: "pyval \<Rightarrow> bool" where
  "knowledge_wf k \<longleftrightarrow> has_shape k [''datasets'', ''retrieval''] \<and> is_list (field k ''datasets'') \<and>
     list_all (\<lambda>x. is_str x \<and> truthy x) (list_of (field k ''datasets'')) \<and> is_dict (field k ''retrieval'')"

text \<open>A snapshot of the documented type, with distinct capabilities and no secret in it.\<close>

definition snapshot_wf :: "pyval \<Rightarrow> bool" where
  "snapshot_wf v \<longleftrightarrow> has_shape v snapshot_keys \<and> field v ''schema_version'' = PStr ''agent-runtime/v1'' \<and>
     filled (field v ''tenant_id'') \<and> filled (field v ''agent_id'') \<and> filled_or_none (field v ''agent_version_id'') \<and>
     publication_wf (field v ''publication'') \<and> model_wf (field v ''model'') \<and>
     has_shape (field v ''instructions'') [''agent'', ''prompt_hash''] \<and>
     is_str (field (field v ''instructions'') ''agent'') \<and> filled (field (field v ''instructions'') ''prompt_hash'') \<and>
     is_list (field v ''capabilities'') \<and> list_all capability_wf (list_of (field v ''capabilities'')) \<and>
     distinct (map (\<lambda>c. field c ''id'') (list_of (field v ''capabilities''))) \<and>
     knowledge_wf (field v ''knowledge'') \<and>
     has_shape (field v ''memory'') [''mode''] \<and> in_names (field (field v ''memory'') ''mode'') memory_modes \<and>
     policy_wf (field v ''channel_policy'') \<and>
     has_shape (field v ''fingerprints'') fingerprint_keys \<and>
     list_all (\<lambda>(k, x). filled x) (dict_of (field v ''fingerprints'')) \<and>
     \<not> has_sensitive_key v"

lemma parts_Inr:
  "publication_check v = Inr u \<longleftrightarrow> publication_wf v"
  "model_check v = Inr u \<longleftrightarrow> model_wf v"
  "instructions_check v = Inr u \<longleftrightarrow> has_shape v [''agent'', ''prompt_hash''] \<and>
     is_str (field v ''agent'') \<and> filled (field v ''prompt_hash'')"
  "capabilities_check v = Inr u \<longleftrightarrow> is_list v \<and> list_all capability_wf (list_of v) \<and>
     distinct (map (\<lambda>c. field c ''id'') (list_of v))"
  "knowledge_check v = Inr u \<longleftrightarrow> knowledge_wf v"
  "memory_mode_check v = Inr u \<longleftrightarrow> has_shape v [''mode''] \<and> in_names (field v ''mode'') memory_modes"
  "channel_policy_check v = Inr u \<longleftrightarrow> policy_wf v"
  "fingerprints_check v = Inr u \<longleftrightarrow> has_shape v fingerprint_keys \<and> list_all (\<lambda>(k, x). filled x) (dict_of v)"
proof -
  note bind = result_bind_Inr demand_Inr closed_mapping_Inr non_empty_string_Inr optional_string_Inr demand_member_Inr
  show "publication_check v = Inr u \<longleftrightarrow> publication_wf v"
    unfolding publication_check_def publication_wf_def bind by blast
  show "model_check v = Inr u \<longleftrightarrow> model_wf v" unfolding model_check_def model_wf_def bind by blast
  show "instructions_check v = Inr u \<longleftrightarrow> has_shape v [''agent'', ''prompt_hash''] \<and>
      is_str (field v ''agent'') \<and> filled (field v ''prompt_hash'')"
    unfolding instructions_check_def bind by blast
  show "capabilities_check v = Inr u \<longleftrightarrow> is_list v \<and> list_all capability_wf (list_of v) \<and>
      distinct (map (\<lambda>c. field c ''id'') (list_of v))"
    unfolding capabilities_check_def bind capabilities_loop_Inr by simp
  show "knowledge_check v = Inr u \<longleftrightarrow> knowledge_wf v" unfolding knowledge_check_def knowledge_wf_def bind by blast
  show "memory_mode_check v = Inr u \<longleftrightarrow> has_shape v [''mode''] \<and> in_names (field v ''mode'') memory_modes"
    unfolding memory_mode_check_def bind by blast
  show "channel_policy_check v = Inr u \<longleftrightarrow> policy_wf v"
    unfolding channel_policy_check_def policy_wf_def bind by blast
  show "fingerprints_check v = Inr u \<longleftrightarrow> has_shape v fingerprint_keys \<and> list_all (\<lambda>(k, x). filled x) (dict_of v)"
    unfolding fingerprints_check_def bind by blast
qed

lemma validate_snapshot_Inr: "validate_snapshot v = Inr d \<longleftrightarrow> snapshot_wf v \<and> d = dict_of v"
  unfolding validate_snapshot_def result_bind_Inr demand_Inr closed_mapping_Inr non_empty_string_Inr
    optional_string_Inr parts_Inr snapshot_wf_def
  by (simp only: ex_simps simp_thms conj_assoc) (auto simp only: sum.inject)

section \<open>Properties\<close>

text \<open>
  The documented type of a snapshot, as data: closed dictionaries with a schema for each field, closed
  dictionaries and lists of like entries, one of some words, texts that are not blank or not empty.\<close>

datatype schema =
    Shape "(string \<times> schema) list"
  | Entries "string list" schema
  | Items schema
  | OneOf "string list"
  | Optional schema
  | Nonblank
  | Nonempty
  | AnyText
  | AnyBool
  | AnyDict

function conforms :: "schema \<Rightarrow> pyval \<Rightarrow> bool" where
  "conforms (Shape fs) v = (case v of
     PDict d \<Rightarrow> set (map fst d) = set (map fst fs) \<and> list_all (\<lambda>f. conforms (snd f) (get_val d (fst f))) fs | _ \<Rightarrow> False)"
| "conforms (Entries ks s) v = (case v of
     PDict d \<Rightarrow> set (map fst d) = set ks \<and> list_all (\<lambda>e. conforms s (snd e)) d | _ \<Rightarrow> False)"
| "conforms (Items s) v = (case v of PList vs \<Rightarrow> list_all (conforms s) vs | _ \<Rightarrow> False)"
| "conforms (OneOf ws) v = (case v of PStr w \<Rightarrow> w \<in> set ws | _ \<Rightarrow> False)"
| "conforms (Optional s) v = (v = PNone \<or> conforms s v)"
| "conforms Nonblank v = (case v of PStr w \<Rightarrow> py_strip w \<noteq> [] | _ \<Rightarrow> False)"
| "conforms Nonempty v = (case v of PStr w \<Rightarrow> w \<noteq> [] | _ \<Rightarrow> False)"
| "conforms AnyText v = (case v of PStr w \<Rightarrow> True | _ \<Rightarrow> False)"
| "conforms AnyBool v = (case v of PBool b \<Rightarrow> True | _ \<Rightarrow> False)"
| "conforms AnyDict v = (case v of PDict d \<Rightarrow> True | _ \<Rightarrow> False)"
  by pat_completeness auto

termination conforms
  by (relation "measure (\<lambda>(s, v). size s)")
    (auto dest!: size_list_member simp: size_list_estimation' less_Suc_eq_le)

definition capability_schema :: schema where
  "capability_schema = Shape [(''type'', OneOf [''platform'', ''mcp'', ''skill'', ''connector'']), (''id'', Nonblank),
     (''version'', Optional Nonblank), (''schema_hash'', Optional Nonblank),
     (''risk'', OneOf [''low'', ''medium'', ''high'', ''critical'']), (''config'', AnyDict)]"

definition snapshot_schema :: schema where
  "snapshot_schema = Shape
     [(''schema_version'', OneOf [''agent-runtime/v1'']), (''tenant_id'', Nonblank), (''agent_id'', Nonblank),
      (''agent_version_id'', Optional Nonblank),
      (''publication'', Shape [(''id'', Optional Nonblank),
         (''channel'', OneOf [''preview'', ''hosted'', ''embed'', ''api'', ''builtin'']),
         (''auth_mode'', OneOf [''private'', ''tenant'', ''public'', ''token''])]),
      (''model'', Shape [(''id'', Nonblank), (''provider'', Nonblank), (''parameters'', AnyDict)]),
      (''instructions'', Shape [(''agent'', AnyText), (''prompt_hash'', Nonblank)]),
      (''capabilities'', Items capability_schema),
      (''knowledge'', Shape [(''datasets'', Items Nonempty), (''retrieval'', AnyDict)]),
      (''memory'', Shape [(''mode'', OneOf [''off'', ''session'', ''user''])]),
      (''channel_policy'', Shape [(''attachments'', AnyBool), (''high_risk_tools'', AnyBool),
         (''allowed_origins'', Items AnyText)]),
      (''fingerprints'', Entries [''spec'', ''tool_schema'', ''skills'', ''knowledge_revision''] Nonblank)]"

lemma conforms_Shape:
  "conforms (Shape fs) v \<longleftrightarrow> has_shape v (map fst fs) \<and> list_all (\<lambda>f. conforms (snd f) (field v (fst f))) fs"
  by (cases v) (simp_all add: has_shape_def is_dict_def dict_of_def)

lemma conforms_atoms:
  "conforms (OneOf ws) v \<longleftrightarrow> in_names v ws" "conforms Nonblank v \<longleftrightarrow> filled v" "conforms AnyText v \<longleftrightarrow> is_str v"
  "conforms AnyBool v \<longleftrightarrow> is_bool v" "conforms AnyDict v \<longleftrightarrow> is_dict v" "conforms Nonempty v \<longleftrightarrow> is_str v \<and> truthy v"
  by (simp_all add: in_names_def filled_def is_str_def is_bool_def is_dict_def split: pyval.split)

lemma conforms_Optional: "conforms (Optional s) v \<longleftrightarrow> v = PNone \<or> conforms s v"
  by (rule conforms.simps)

lemma conforms_Items: "conforms (Items s) v \<longleftrightarrow> is_list v \<and> list_all (conforms s) (list_of v)"
  by (simp add: is_list_def list_of_def split: pyval.split)

lemma conforms_Entries:
  "conforms (Entries ks s) v \<longleftrightarrow> has_shape v ks \<and> list_all (\<lambda>(k, x). conforms s x) (dict_of v)"
  by (simp add: has_shape_def is_dict_def dict_of_def split_def split: pyval.split)

lemmas conforms_simps = conforms_atoms conforms_Optional conforms_Items conforms_Entries

declare conforms.simps [simp del]

lemma capability_conforms: "conforms capability_schema c \<longleftrightarrow> capability_wf c"
  unfolding capability_schema_def capability_wf_def capability_types_def risks_def capability_keys_def conforms_Shape
  by (simp only: conforms_simps list.map list.pred_inject fst_conv snd_conv simp_thms) (intro iffI; elim conjE; intro conjI; assumption)

lemma is_version: "in_names v [''agent-runtime/v1''] \<longleftrightarrow> v = PStr ''agent-runtime/v1''"
  by (cases v) (simp_all add: in_names_def)

text \<open>The dictionaries inside a value.\<close>

inductive part_of :: "pyval \<Rightarrow> pyval \<Rightarrow> bool" where
  part_self: "part_of v v"
| part_dict: "(k, x) \<in> set d \<Longrightarrow> part_of w x \<Longrightarrow> part_of w (PDict d)"
| part_list: "x \<in> set vs \<Longrightarrow> part_of w x \<Longrightarrow> part_of w (PList vs)"

lemma sensitive_part:
  "part_of w v \<Longrightarrow> w = PDict d \<Longrightarrow> (k, x) \<in> set d \<Longrightarrow> canonical_key k \<in> set sensitive_keys \<Longrightarrow> has_sensitive_key v"
proof (induction rule: part_of.induct)
  case (part_self v)
  then show ?case by (subst has_sensitive_key.simps) (auto simp: list_ex_iff)
next
  case (part_dict k' x' d' w)
  then show ?case by (subst has_sensitive_key.simps) (auto simp: list_ex_iff)
next
  case (part_list x' vs w)
  then show ?case by (subst has_sensitive_key.simps) (auto simp: list_ex_iff)
qed

lemma sensitive_iff:
  "has_sensitive_key v \<longleftrightarrow> (\<exists>d k x. part_of (PDict d) v \<and> (k, x) \<in> set d \<and> canonical_key k \<in> set sensitive_keys)"
proof
  show "has_sensitive_key v \<Longrightarrow> \<exists>d k x. part_of (PDict d) v \<and> (k, x) \<in> set d \<and> canonical_key k \<in> set sensitive_keys"
  proof (induction v rule: has_sensitive_key.induct)
    case (1 v)
    note s = 1(3)[unfolded has_sensitive_key.simps[of v]]
    show ?case
    proof (cases v)
      case (PDict d)
      then obtain k x where k: "(k, x) \<in> set d" "canonical_key k \<in> set sensitive_keys \<or> has_sensitive_key x"
        using s by (auto simp: list_ex_iff)
      show ?thesis
      proof (cases "canonical_key k \<in> set sensitive_keys")
        case True
        with k PDict show ?thesis by (meson part_self)
      next
        case False
        with k 1(2)[OF PDict k(1) refl] PDict show ?thesis by (meson part_dict)
      qed
    next
      case (PList vs)
      then obtain x where "x \<in> set vs" "has_sensitive_key x"
        using s by (auto simp: list_ex_iff)
      with 1(1)[OF PList] PList show ?thesis by (meson part_list)
    qed (use s in simp_all)
  qed
qed (blast intro: sensitive_part)

text \<open>
  C23: The validator of snapshots is exact: it accepts a value exactly when it conforms to the documented schema,
  its capabilities have distinct ids, and no dictionary that can be reached in it, through dictionaries and
  lists at any depth, has a key that spells a credential. What it returns is the dictionary itself.\<close>

theorem snapshot_validator_exact:
  "validate_snapshot v = Inr d \<longleftrightarrow> v = PDict d \<and> conforms snapshot_schema v \<and>
     distinct (map (\<lambda>c. field c ''id'') (list_of (field v ''capabilities''))) \<and>
     \<not> (\<exists>d' k x. part_of (PDict d') v \<and> (k, x) \<in> set d' \<and> canonical_key k \<in> set sensitive_keys)"
proof -
  have "conforms snapshot_schema v \<and> distinct (map (\<lambda>c. field c ''id'') (list_of (field v ''capabilities''))) \<and>
      \<not> has_sensitive_key v \<longleftrightarrow> snapshot_wf v"
    unfolding snapshot_schema_def snapshot_wf_def conforms_Shape list.map list.pred_inject fst_conv snd_conv conforms_simps
      publication_wf_def model_wf_def knowledge_wf_def policy_wf_def channels_def auth_modes_def memory_modes_def
      snapshot_keys_def fingerprint_keys_def capability_conforms is_version
    by (simp only: simp_thms conj_assoc eta_contract_eq list.pred_inject) (intro iffI; elim conjE; intro conjI; assumption)
  moreover have "conforms snapshot_schema v \<Longrightarrow> d = dict_of v \<longleftrightarrow> v = PDict d"
    by (cases v) (auto simp: snapshot_schema_def dict_of_def conforms.simps)
  ultimately show ?thesis unfolding validate_snapshot_Inr sensitive_iff[symmetric] by blast
qed

text \<open>
  No validated snapshot carries a secret by name: at any depth, through lists and dictionaries, no key
  of it spells a credential, whatever its case and punctuation.\<close>

theorem validated_snapshot_has_no_secret_key:
  assumes "validate_snapshot v = Inr s" and "part_of (PDict d) v" and "(k, x) \<in> set d"
  shows "canonical_key k \<notin> set sensitive_keys"
  using assms sensitive_part[OF assms(2) refl assms(3)] by (auto simp: validate_snapshot_Inr snapshot_wf_def)

definition sample_snapshot :: pyval where
  "sample_snapshot = PDict
     [(''schema_version'', PStr ''agent-runtime/v1''), (''tenant_id'', PStr ''t''), (''agent_id'', PStr ''a''),
      (''agent_version_id'', PStr ''v1''),
      (''publication'', PDict [(''id'', PStr ''p''), (''channel'', PStr ''api''), (''auth_mode'', PStr ''tenant'')]),
      (''model'', PDict [(''id'', PStr ''m''), (''provider'', PStr ''x''), (''parameters'', PDict [])]),
      (''instructions'', PDict [(''agent'', PStr []), (''prompt_hash'', PStr ''h'')]),
      (''capabilities'', PList []),
      (''knowledge'', PDict [(''datasets'', PList []), (''retrieval'', PDict [])]),
      (''memory'', PDict [(''mode'', PStr ''off'')]),
      (''channel_policy'', PDict [(''attachments'', PBool False), (''high_risk_tools'', PBool False),
         (''allowed_origins'', PList [])]),
      (''fingerprints'', PDict [(''spec'', PStr ''s''), (''tool_schema'', PStr ''t''), (''skills'', PStr ''k''),
         (''knowledge_revision'', PStr ''r'')])]"

lemma sample_snapshot_valid: "validate_snapshot sample_snapshot = Inr (dict_of sample_snapshot)"
  by code_simp

lemma snapshot_validator_exact_witness:
  "conforms snapshot_schema sample_snapshot \<and>
   \<not> (\<exists>d k x. part_of (PDict d) sample_snapshot \<and> (k, x) \<in> set d \<and> canonical_key k \<in> set sensitive_keys)"
  using snapshot_validator_exact[THEN iffD1, OF sample_snapshot_valid] by blast

lemma validated_snapshot_has_no_secret_key_witness:
  "canonical_key ''prompt_hash'' \<notin> set sensitive_keys"
proof (rule validated_snapshot_has_no_secret_key[OF sample_snapshot_valid])
  show "part_of (PDict [(''agent'', PStr []), (''prompt_hash'', PStr ''h'')]) sample_snapshot"
    unfolding sample_snapshot_def by (rule part_dict[OF _ part_self]) simp
qed simp

lemma has_shape_PDict: "has_shape (PDict d) keys \<longleftrightarrow> set (map fst d) = set keys"
  by (simp add: has_shape_def is_dict_def dict_of_def)

lemma validate_unsigned_mono:
  assumes "validate_unsigned sg t e = Inr u"
    and "the_int (get_val e ''issued_at_ms'') - sg_max_skew sg \<le> now" "now \<le> the_int (get_val e ''expires_at_ms'')"
  shows "validate_unsigned sg now e = Inr ()"
  using assms unfolding validate_unsigned_def Let_def result_bind_Inr demand_Inr by (simp add: not_less)

lemma validate_unsignedD:
  assumes "validate_unsigned sg now e = Inr u"
  shows "snapshot_wf (get_val e ''resolved_snapshot'')"
    and "the_int (get_val e ''issued_at_ms'') - sg_max_skew sg \<le> now" "now \<le> the_int (get_val e ''expires_at_ms'')"
    and "the_int (get_val e ''issued_at_ms'') < the_int (get_val e ''expires_at_ms'')"
    and "the_int (get_val e ''expires_at_ms'') - the_int (get_val e ''issued_at_ms'') \<le> sg_max_ttl sg"
    and "pins_ok e" "in_names (get_val e ''channel'') channels"
  using assms unfolding validate_unsigned_def Let_def result_bind_Inr demand_Inr demand_member_Inr validate_snapshot_Inr
  by (simp_all add: not_less not_le)

lemma check_envelope_Inr:
  "check_envelope canon sha mac sg now body tenant caller session envelope = Inr e \<longleftrightarrow>
     has_shape envelope envelope_keys \<and> e = unsigned_of (dict_of envelope) \<and> validate_unsigned sg now e = Inr () \<and>
     the_str (get_val e ''snapshot_hash'') = runtime_sha256 canon sha (get_val e ''resolved_snapshot'') \<and>
     the_str (get_val e ''request_body_hash'') = runtime_sha256 canon sha body \<and>
     get_val (dict_of envelope) ''signature'' = PStr (envelope_signature canon mac sg e) \<and>
     get_val e ''issuer'' = PStr (sg_issuer sg) \<and> get_val e ''tenant_id'' = PStr tenant \<and>
     get_val e ''caller_principal'' = PStr caller \<and> get_val e ''session_id'' = PStr session \<and>
     identity_matches e (dict_of (get_val e ''resolved_snapshot''))"
  unfolding check_envelope_def Let_def result_bind_Inr demand_Inr closed_mapping_Inr by auto

text \<open>
  C24: A verified envelope is what the gateway signed for this request: a closed dictionary whose snapshot is
  well formed, hashed and resolved for the identity it claims, bound to the body, the tenant, the caller
  and the session of the request, within its lifetime (never longer than allowed) and within the skew of
  its issue, with its pins in order and with the issuer's signature over exactly its other fields.\<close>

theorem verified_envelope_is_bound:
  assumes "verify_envelope canon sha mac sg now now' body tenant caller session envelope st = (Inr r, st')"
  shows "\<exists>e issued expires. has_shape envelope envelope_keys \<and> e = unsigned_of (dict_of envelope) \<and> r = verified_of e \<and>
     snapshot_wf (vr_snapshot r) \<and> identity_matches e (dict_of (vr_snapshot r)) \<and>
     the_str (vr_fingerprint r) = runtime_sha256 canon sha (vr_snapshot r) \<and>
     the_str (get_val e ''request_body_hash'') = runtime_sha256 canon sha body \<and>
     vr_tenant r = PStr tenant \<and> vr_caller r = PStr caller \<and> vr_session r = PStr session \<and>
     issued = the_int (get_val e ''issued_at_ms'') \<and> expires = the_int (get_val e ''expires_at_ms'') \<and>
     issued < expires \<and> expires - issued \<le> sg_max_ttl sg \<and> issued - sg_max_skew sg \<le> now \<and> now \<le> expires \<and>
     pins_ok e \<and> get_val (dict_of envelope) ''signature'' = PStr (envelope_signature canon mac sg e) \<and>
     \<not> fst (seen_or_record now' (replay_key e) (envelope_replay_ttl sg now e) st)"
proof -
  obtain e where e: "check_envelope canon sha mac sg now body tenant caller session envelope = Inr e"
      "r = verified_of e" "\<not> fst (seen_or_record now' (replay_key e) (envelope_replay_ttl sg now e) st)"
    using assms by (auto simp: verify_envelope_def split: sum.splits prod.splits if_splits)
  have c: "has_shape envelope envelope_keys" "e = unsigned_of (dict_of envelope)" "validate_unsigned sg now e = Inr ()"
      "the_str (get_val e ''snapshot_hash'') = runtime_sha256 canon sha (get_val e ''resolved_snapshot'')"
      "the_str (get_val e ''request_body_hash'') = runtime_sha256 canon sha body"
      "get_val (dict_of envelope) ''signature'' = PStr (envelope_signature canon mac sg e)"
      "get_val e ''tenant_id'' = PStr tenant" "get_val e ''caller_principal'' = PStr caller"
      "get_val e ''session_id'' = PStr session" "identity_matches e (dict_of (get_val e ''resolved_snapshot''))"
    using e(1) unfolding check_envelope_Inr by blast+
  have r: "vr_snapshot r = get_val e ''resolved_snapshot''" "vr_fingerprint r = get_val e ''snapshot_hash''"
      "vr_tenant r = get_val e ''tenant_id''" "vr_caller r = get_val e ''caller_principal''"
      "vr_session r = get_val e ''session_id''"
    by (simp_all add: e(2) verified_of_def)
  note v = validate_unsignedD[OF c(3)]
  show ?thesis unfolding r
    by (intro exI[of _ e] exI[of _ "the_int (get_val e ''issued_at_ms'')"] exI[of _ "the_int (get_val e ''expires_at_ms'')"]
        conjI) (fact c v e refl)+
qed

lemma unsigned_of_envelope: "unsigned_of (unsigned_envelope canon sha sg a @ [(''signature'', s)]) = unsigned_envelope canon sha sg a"
  "unsigned_of (unsigned_envelope canon sha sg a) = unsigned_envelope canon sha sg a"
  by (simp_all add: unsigned_of_def unsigned_envelope_def)

text \<open>
  What the gateway signs verifies: for the request it was signed for, at any time from the skew before
  its issue to its expiry, if the snapshot was resolved for the identity it is signed with and the store
  does not hold its nonce.\<close>

theorem signed_envelope_verifies:
  assumes "sign_envelope canon sha mac sg a = Inr env"
    and "sn_issued a - sg_max_skew sg \<le> now" "now \<le> sn_expires a"
    and "identity_matches (unsigned_of env) (dict_of (sn_snapshot a))"
    and "\<not> fst (seen_or_record now' (replay_key (unsigned_of env)) (envelope_replay_ttl sg now (unsigned_of env)) st)"
  shows "fst (verify_envelope canon sha mac sg now now' (sn_body a) (sn_tenant a) (sn_caller a) (sn_session a) (PDict env) st)
     = Inr (verified_of (unsigned_of env)) \<and> vr_snapshot (verified_of (unsigned_of env)) = sn_snapshot a"
proof -
  define e where "e = unsigned_envelope canon sha sg a"
  define sig where "sig = PStr (envelope_signature canon mac sg e)"
  have s: "validate_unsigned sg (sn_issued a) e = Inr ()" "env = e @ [(''signature'', sig)]"
    using assms(1) unfolding sign_envelope_def Let_def result_bind_Inr e_def sig_def by auto
  have u: "unsigned_of env = e" unfolding s(2) e_def by (rule unsigned_of_envelope)
  have shape: "has_shape (PDict env) envelope_keys"
    by (simp add: has_shape_PDict s(2) e_def unsigned_envelope_def envelope_keys_def insert_commute)
  have f: "get_val e ''issued_at_ms'' = PInt (sn_issued a)" "get_val e ''expires_at_ms'' = PInt (sn_expires a)"
    "get_val e ''resolved_snapshot'' = sn_snapshot a" "get_val e ''issuer'' = PStr (sg_issuer sg)"
    "get_val e ''tenant_id'' = PStr (sn_tenant a)" "get_val e ''caller_principal'' = PStr (sn_caller a)"
    "get_val e ''session_id'' = PStr (sn_session a)"
    "get_val e ''snapshot_hash'' = PStr (runtime_sha256 canon sha (sn_snapshot a))"
    "get_val e ''request_body_hash'' = PStr (runtime_sha256 canon sha (sn_body a))"
    by (simp_all add: e_def unsigned_envelope_def get_val_def)
  have "get_val env ''signature'' = sig"
    by (simp add: s(2) e_def unsigned_envelope_def get_val_def)
  moreover have "validate_unsigned sg now e = Inr ()"
    using validate_unsigned_mono[OF s(1)] assms(2,3) f by (simp add: the_int_def)
  ultimately have "check_envelope canon sha mac sg now (sn_body a) (sn_tenant a) (sn_caller a) (sn_session a) (PDict env) = Inr e"
    using shape u f assms(4) by (simp add: check_envelope_Inr dict_of_def the_str_def sig_def)
  then show ?thesis
    using assms(5) f u by (auto simp: verify_envelope_def verified_of_def split: prod.splits)
qed

definition sample_signer :: runtime_signer where
  "sample_signer = \<lparr>sg_secret = ''0123456789abcdef'', sg_issuer = ''ai-gateway'', sg_max_ttl = 60000, sg_max_skew = 5000\<rparr>"

definition sample_sign :: sign_args where
  "sample_sign = \<lparr>sn_tenant = ''t'', sn_caller = ''u'', sn_agent = ''a'', sn_version = Some ''v1'', sn_draft = None,
     sn_publication = Some ''p'', sn_channel = ''api'', sn_session = ''z'', sn_snapshot = sample_snapshot, sn_body = PDict [],
     sn_spec = ''s'', sn_issued = 100000, sn_expires = 130000, sn_nonce = ''n''\<rparr>"

definition sample_envelope :: "(string, pyval) py_dict" where
  "sample_envelope = unsigned_envelope (\<lambda>v. ''c'') (\<lambda>t. ''d'') sample_signer sample_sign @
     [(''signature'', PStr ''sha256:m'')]"

lemma sample_unsigned_valid:
  "validate_unsigned sample_signer 100000 (unsigned_envelope (\<lambda>v. ''c'') (\<lambda>t. ''d'') sample_signer sample_sign) = Inr ()"
  by code_simp

lemma sample_signed_envelope: "sign_envelope (\<lambda>v. ''c'') (\<lambda>t. ''d'') (\<lambda>k t. ''m'') sample_signer sample_sign = Inr sample_envelope"
proof -
  have v: "validate_snapshot (sn_snapshot sample_sign) = Inr (dict_of sample_snapshot)"
    by (simp add: sample_sign_def sample_snapshot_valid)
  have f: "list_all (\<lambda>s. filled (PStr s)) [sn_tenant sample_sign, sn_caller sample_sign, sn_agent sample_sign]"
    "filled (PStr (sn_session sample_sign)) \<and> filled (PStr (sn_spec sample_sign))"
    "filled_or_none (opt_pystr (sn_version sample_sign))" "filled_or_none (opt_pystr (sn_publication sample_sign))"
    by code_simp+
  have o: "optional_string (opt_pystr (sn_version sample_sign)) identity_invalid = Inr ()"
    "optional_string (opt_pystr (sn_publication sample_sign)) identity_invalid = Inr ()" using f(3,4) by simp_all
  have i: "sn_issued sample_sign = 100000" by (simp add: sample_sign_def)
  show ?thesis unfolding sign_envelope_def v o Let_def i sample_unsigned_valid
    using f(1,2) by (simp add: demand_def sample_envelope_def envelope_signature_def)
qed

lemma sample_identity: "identity_matches (unsigned_of sample_envelope) (dict_of (sn_snapshot sample_sign))"
  by code_simp

definition empty_store :: replay_store where
  "empty_store = \<lparr>rp_seen = [], rp_capacity = 10\<rparr>"

lemma empty_store_fresh [simp]: "\<not> fst (seen_or_record t r l empty_store)"
  by (simp add: empty_store_def seen_or_record_def evict_stale_def)

abbreviation sample_verify ::
  "int \<Rightarrow> int \<Rightarrow> pyval \<Rightarrow> replay_store \<Rightarrow> (envelope_error + verified_runtime) \<times> replay_store" where
  "sample_verify now now' body \<equiv> verify_envelope (\<lambda>v. ''c'') (\<lambda>t. ''d'') (\<lambda>k t. ''m'') sample_signer now now' body ''t'' ''u'' ''z''
     (PDict sample_envelope)"

lemma signed_envelope_verifies_witness:
  "fst (sample_verify 110000 110001 (PDict []) empty_store) = Inr (verified_of (unsigned_of sample_envelope))"
  using signed_envelope_verifies[OF sample_signed_envelope _ _ sample_identity, of 110000 110001 empty_store]
  by (simp add: sample_sign_def sample_signer_def)

text \<open>
  An envelope is accepted once. If the clock skew the signer tolerates exceeds the delay between the
  check of the time and the look into the store, then after an envelope was accepted it is refused with any
  body and for any session, as long as the store took in fewer other ids than it has room for.\<close>

theorem envelope_accepted_once:
  assumes "verify_envelope canon sha mac sg now1 now1' body1 t1 c1 s1 envelope st = (Inr r, st')"
    and "st'' = fold (\<lambda>(t, r, l) s. snd (seen_or_record t r l s)) calls st'"
    and "replay_ok st" "length calls < rp_capacity st" "\<forall>(t, _, _) \<in> set calls. t \<le> now2'"
    and "now1 \<le> now1'" "now2' \<le> now2 + delay" "delay < sg_max_skew sg"
  shows "\<exists>e. fst (verify_envelope canon sha mac sg now2 now2' body2 t2 c2 s2 envelope st'') = Inl e"
proof (cases "check_envelope canon sha mac sg now2 body2 t2 c2 s2 envelope")
  case (Inl e)
  then show ?thesis by (simp add: verify_envelope_def)
next
  case (Inr e2)
  obtain e where e: "check_envelope canon sha mac sg now1 body1 t1 c1 s1 envelope = Inr e"
      "seen_or_record now1' (replay_key e) (envelope_replay_ttl sg now1 e) st = (False, st')"
    using assms(1) by (auto simp: verify_envelope_def split: sum.splits prod.splits if_splits)
  have same: "e2 = e" using e(1) Inr by (simp add: check_envelope_Inr)
  have "now2 \<le> the_int (get_val e ''expires_at_ms'')"
    using Inr same by (auto simp: check_envelope_Inr dest: validate_unsignedD(3))
  then have window: "now2' < now1' + envelope_replay_ttl sg now1 e"
    using assms(6-8) by (simp add: envelope_replay_ttl_def)
  have "fst (seen_or_record now2' (replay_key e) (envelope_replay_ttl sg now2 e) st'')"
    unfolding assms(2) by (rule recorded_then_refused[OF assms(3) e(2) le_less_trans[OF other_ids_le assms(4)] assms(5) window])
  then show ?thesis
    using Inr same
    by (cases "seen_or_record now2' (replay_key e) (envelope_replay_ttl sg now2 e) st''")
      (simp add: verify_envelope_def)
qed

lemma sample_accepted:
  "sample_verify 110000 110001 (PDict []) empty_store =
     (Inr (verified_of (unsigned_of sample_envelope)), snd (sample_verify 110000 110001 (PDict []) empty_store))"
proof -
  have "check_envelope (\<lambda>v. ''c'') (\<lambda>t. ''d'') (\<lambda>k t. ''m'') sample_signer 110000 (PDict []) ''t'' ''u'' ''z''
      (PDict sample_envelope) = Inr (unsigned_of sample_envelope)" by code_simp
  moreover obtain b st' where r: "seen_or_record 110001 (replay_key (unsigned_of sample_envelope))
      (envelope_replay_ttl sample_signer 110000 (unsigned_of sample_envelope)) empty_store = (b, st')" by force
  moreover have "\<not> b"
    using empty_store_fresh[of 110001 "replay_key (unsigned_of sample_envelope)"
        "envelope_replay_ttl sample_signer 110000 (unsigned_of sample_envelope)"] r by simp
  ultimately show ?thesis by (simp add: verify_envelope_def)
qed

lemma envelope_accepted_once_witness:
  "\<exists>e. fst (sample_verify 129999 130001 (PDict []) (snd (sample_verify 110000 110001 (PDict []) empty_store))) = Inl e"
  by (rule envelope_accepted_once[OF sample_accepted, where calls = "[]" and delay = 2])
    (simp_all add: sample_signer_def empty_store_def replay_ok_def)

lemma verified_envelope_is_bound_witness:
  "snapshot_wf (vr_snapshot (verified_of (unsigned_of sample_envelope)))"
  using verified_envelope_is_bound[OF sample_accepted] by blast

text \<open>
  Not every malformed envelope is refused with a stable error: a list or a dictionary as the channel of
  an otherwise well-formed, unsigned or wrongly signed envelope raises \<open>TypeError\<close>, before any signature is
  looked at.\<close>

theorem unhashable_channel_escapes:
  assumes "validate_unsigned sg now e = Inr ()"
    and "get_val e' ''channel'' = PList vs" "set (map fst e') = set (map fst e)"
    and "\<And>k. k \<noteq> ''channel'' \<Longrightarrow> get_val e' k = get_val e k"
  shows "validate_unsigned sg now e' = Inl UnhashableType"
proof -
  have d: "demand_member (get_val e' ''channel'') channels envelope_invalid = Inl UnhashableType"
    by (simp add: demand_member_def member_of_def assms(2))
  have f: "get_val e' ''schema_version'' = get_val e ''schema_version''"
    "get_val e' ''agent_version_id'' = get_val e ''agent_version_id''"
    "get_val e' ''publication_id'' = get_val e ''publication_id''"
    "list_all (\<lambda>k. filled (get_val e' k)) [''issuer'', ''tenant_id'', ''caller_principal'', ''agent_id'',
         ''session_id'', ''spec_hash'', ''nonce''] = list_all (\<lambda>k. filled (get_val e k)) [''issuer'', ''tenant_id'',
         ''caller_principal'', ''agent_id'', ''session_id'', ''spec_hash'', ''nonce'']"
    by (simp_all add: assms(4))
  have v: "set (map fst e) = set envelope_keys - {''signature''}"
    "get_val e ''schema_version'' = PStr ''agent-runtime-envelope/v1''"
    "list_all (\<lambda>k. filled (get_val e k)) [''issuer'', ''tenant_id'', ''caller_principal'', ''agent_id'',
         ''session_id'', ''spec_hash'', ''nonce'']"
    "filled_or_none (get_val e ''agent_version_id'')" "filled_or_none (get_val e ''publication_id'')"
    using assms(1) unfolding validate_unsigned_def Let_def result_bind_Inr demand_Inr optional_string_Inr by blast+
  have opt: "optional_string (get_val e ''agent_version_id'') envelope_invalid = Inr ()"
    "optional_string (get_val e ''publication_id'') envelope_invalid = Inr ()" using v(4,5) by simp_all
  show ?thesis unfolding validate_unsigned_def d f assms(3) opt using v(1-3) by (simp add: demand_def)
qed

lemma unhashable_channel_escapes_witness:
  "validate_unsigned sample_signer 100000 (dict_set ''channel'' (PList [])
     (unsigned_envelope (\<lambda>v. ''c'') (\<lambda>t. ''d'') sample_signer sample_sign)) = Inl UnhashableType"
proof (rule unhashable_channel_escapes[OF sample_unsigned_valid, where vs = "[]"])
  let ?e = "unsigned_envelope (\<lambda>v. ''c'') (\<lambda>t. ''d'') sample_signer sample_sign"
  show "set (map fst (dict_set ''channel'' (PList []) ?e)) = set (map fst ?e)"
  proof -
    have "''channel'' \<in> fst ` set ?e" by (simp add: unsigned_envelope_def)
    then show ?thesis by (simp add: dom_update insert_absorb)
  qed
qed (simp_all add: get_val_def dict_get_set)

end
