(* ===== verification/Leases.thy ===== *)
theory Leases
  imports Py_Value
begin

text \<open>
  Short-lived signed permissions: the capability lease
  (\<open>src/src/services/agent_runtime/capability_leases.py\<close>), the lease of the model data plane
  (\<open>agent_runtime_lease.py\<close>) and the proof of a capability call (\<open>capability_proof.py\<close>, both under
  \<open>src/packages/ai-gateway-contracts/src/ai_gateway_contracts/\<close>). \<open>canon\<close> is the canonical JSON text of a
  value, \<open>sha\<close> and \<open>mac\<close> are SHA-256 and HMAC-SHA256 as hexadecimal texts. The fields have the types they
  are declared with, so the tests for \<open>isinstance\<close> on them hold.
\<close>

section \<open>Texts\<close>

definition hex64 :: "string \<Rightarrow> bool" where
  "hex64 s = (length s = 64 \<and> list_all (\<lambda>c. c \<in> set ''0123456789abcdef'') s)"

text \<open>\<open>^sha256:[0-9a-f]{64}$\<close> under \<open>fullmatch\<close>.\<close>

definition hash_text :: "string \<Rightarrow> bool" where
  "hash_text s = (starts_with s ''sha256:'' \<and> hex64 (drop 7 s))"

definition control_char :: "char \<Rightarrow> bool" where
  "control_char c = ((of_char c :: nat) < 32)"

definition identifier_chars :: string where
  "identifier_chars = ''ABCDEFGHIJKLMNOPQRSTUVWXYZabcdefghijklmnopqrstuvwxyz0123456789_./:-''"

definition lease_identifier :: "string \<Rightarrow> nat \<Rightarrow> bool" where
  "lease_identifier s maximum = (0 < length s \<and> length s \<le> maximum \<and> \<not> list_ex control_char s \<and>
     list_all (\<lambda>c. c \<in> set identifier_chars) s)"

definition plain_text :: "string \<Rightarrow> nat \<Rightarrow> nat \<Rightarrow> bool" where
  "plain_text s minimum maximum = (minimum \<le> length s \<and> length s \<le> maximum \<and> \<not> list_ex control_char s)"

section \<open>Capability leases\<close>

datatype lease_error = LeaseError string

datatype capability_effect = EffectRead | EffectWrite | EffectUnknown

fun effect_value :: "capability_effect \<Rightarrow> string" where
  "effect_value EffectRead = ''read''"
| "effect_value EffectWrite = ''write''"
| "effect_value EffectUnknown = ''unknown''"

text \<open>\<open>CapabilityEffect(text)\<close>\<close>

definition effect_of :: "string \<Rightarrow> capability_effect option" where
  "effect_of s = find (\<lambda>e. effect_value e = s) [EffectRead, EffectWrite, EffectUnknown]"

record capability_lease =
  cl_schema :: string
  cl_lease_id :: string
  cl_tenant :: string
  cl_user :: string
  cl_session :: string
  cl_run :: string
  cl_tool_call :: string
  cl_attempt :: string
  cl_capability :: string
  cl_revision :: int
  cl_arguments_hash :: string
  cl_effect :: capability_effect
  cl_approval :: "string option"
  cl_issued :: int
  cl_expires :: int
  cl_nonce :: string
  cl_signature :: string

definition lease_schema :: string where "lease_schema = ''runtime-capability-lease/v1''"
definition max_ttl_ms :: int where "max_ttl_ms = 120000"
definition min_secret_bytes :: nat where "min_secret_bytes = 32"

definition lease_to_dict :: "capability_lease \<Rightarrow> (string, pyval) py_dict" where
  "lease_to_dict l =
     [(''schema_version'', PStr (cl_schema l)), (''lease_id'', PStr (cl_lease_id l)), (''tenant_id'', PStr (cl_tenant l)),
      (''user_id'', PStr (cl_user l)), (''session_id'', PStr (cl_session l)), (''run_id'', PStr (cl_run l)),
      (''tool_call_id'', PStr (cl_tool_call l)), (''attempt_id'', PStr (cl_attempt l)),
      (''capability_id'', PStr (cl_capability l)), (''capability_revision'', PInt (cl_revision l)),
      (''arguments_hash'', PStr (cl_arguments_hash l)), (''effect'', PStr (effect_value (cl_effect l))),
      (''issued_at_epoch_ms'', PInt (cl_issued l)), (''expires_at_epoch_ms'', PInt (cl_expires l)),
      (''nonce'', PStr (cl_nonce l)), (''signature'', PStr (cl_signature l))] @
     (case cl_approval l of None \<Rightarrow> [] | Some a \<Rightarrow> [(''approval_id'', PStr a)])"

definition signed_lease_value :: "capability_lease \<Rightarrow> pyval" where
  "signed_lease_value l =
     (let payload = dict_set ''signature'' (PStr []) (lease_to_dict l)
      in PDict (if cl_approval l = None then dict_pop ''approval_id'' payload else payload))"

definition lease_check :: "bool \<Rightarrow> string \<Rightarrow> lease_error + unit" where
  "lease_check ok code = (if ok then Inr () else Inl (LeaseError code))"

definition lease_validate :: "capability_lease \<Rightarrow> int \<Rightarrow> lease_error + unit" where
  "lease_validate l now =
     result_bind (lease_check (cl_schema l = lease_schema) ''schema_mismatch_lease'') (\<lambda>_.
     result_bind (lease_check (lease_identifier (cl_lease_id l) 64) ''invalid_lease_id'') (\<lambda>_.
     result_bind (lease_check (lease_identifier (cl_run l) 64) ''invalid_run_id'') (\<lambda>_.
     result_bind (lease_check (lease_identifier (cl_tool_call l) 160) ''invalid_tool_call_id'') (\<lambda>_.
     result_bind (lease_check (lease_identifier (cl_attempt l) 160) ''invalid_attempt_id'') (\<lambda>_.
     result_bind (lease_check (lease_identifier (cl_capability l) 160) ''invalid_capability_id'') (\<lambda>_.
     result_bind (lease_check (plain_text (cl_tenant l) 1 255) ''invalid_tenant_id'') (\<lambda>_.
     result_bind (lease_check (plain_text (cl_user l) 1 255) ''invalid_user_id'') (\<lambda>_.
     result_bind (lease_check (plain_text (cl_session l) 1 255) ''invalid_session_id'') (\<lambda>_.
     result_bind (lease_check (1 \<le> cl_revision l \<and> hash_text (cl_arguments_hash l)) ''invalid_lease_binding'') (\<lambda>_.
     result_bind (lease_check (cl_issued l < cl_expires l) ''lease_expired'') (\<lambda>_.
     result_bind (lease_check (now < cl_expires l) ''lease_expired'') (\<lambda>_.
     result_bind (lease_check (plain_text (cl_nonce l) 16 128 \<and> hash_text (cl_signature l)) ''invalid_lease_proof'') (\<lambda>_.
     result_bind (lease_check (\<not> (cl_effect l = EffectRead \<and> cl_approval l \<noteq> None)) ''invalid_approval_id'') (\<lambda>_.
       lease_check (cl_effect l = EffectRead \<or> lease_identifier (opt_str (cl_approval l)) 64) ''invalid_approval_id''))))))))))))))"

record lease_issuer =
  li_secret :: string
  li_ttl :: int

definition mk_lease_issuer :: "string \<Rightarrow> int \<Rightarrow> lease_error + lease_issuer" where
  "mk_lease_issuer secret ttl =
     guard_else (min_secret_bytes \<le> length secret) (LeaseError ''lease_secret_too_short'')
    (guard_else (1 \<le> ttl \<and> ttl \<le> max_ttl_ms) (LeaseError ''lease_ttl_out_of_bounds'')
    (Inr \<lparr>li_secret = secret, li_ttl = ttl\<rparr>))"

record lease_request =
  lq_tenant :: string
  lq_user :: string
  lq_session :: string
  lq_run :: string
  lq_tool_call :: string
  lq_attempt :: string
  lq_capability :: string
  lq_revision :: int
  lq_arguments :: "(string, pyval) py_dict"
  lq_effect :: string
  lq_approval :: "string option"
  lq_lease_id :: "string option"
  lq_nonce :: "string option"

definition lease_signature ::
  "(pyval \<Rightarrow> string) \<Rightarrow> (string \<Rightarrow> string \<Rightarrow> string) \<Rightarrow> lease_issuer \<Rightarrow> capability_lease \<Rightarrow> string" where
  "lease_signature canon mac li l = mac (li_secret li) (canon (signed_lease_value l))"

text \<open>\<open>issue\<close>; \<open>fresh_id\<close> and \<open>fresh_nonce\<close> are what \<open>secrets\<close> hands out.\<close>

definition issue_lease ::
  "(pyval \<Rightarrow> string) \<Rightarrow> (string \<Rightarrow> string) \<Rightarrow> (string \<Rightarrow> string \<Rightarrow> string) \<Rightarrow> string \<Rightarrow> string \<Rightarrow> lease_issuer
     \<Rightarrow> int \<Rightarrow> lease_request \<Rightarrow> lease_error + capability_lease" where
  "issue_lease canon sha mac fresh_id fresh_nonce li now rq =
     (case effect_of (lq_effect rq) of
        None \<Rightarrow> Inl (LeaseError ''invalid_effect'')
      | Some effect \<Rightarrow>
          (let l = \<lparr>cl_schema = lease_schema, cl_lease_id = or_str (opt_str (lq_lease_id rq)) fresh_id,
                 cl_tenant = lq_tenant rq, cl_user = lq_user rq, cl_session = lq_session rq, cl_run = lq_run rq,
                 cl_tool_call = lq_tool_call rq, cl_attempt = lq_attempt rq, cl_capability = lq_capability rq,
                 cl_revision = lq_revision rq, cl_arguments_hash = ''sha256:'' @ sha (canon (PDict (lq_arguments rq))),
                 cl_effect = effect, cl_approval = lq_approval rq, cl_issued = now, cl_expires = now + li_ttl li,
                 cl_nonce = or_str (opt_str (lq_nonce rq)) fresh_nonce,
                 cl_signature = ''sha256:'' @ replicate 64 (CHR ''0'')\<rparr>
           in result_bind (lease_validate l now) (\<lambda>_.
                Inr (l\<lparr>cl_signature := ''sha256:'' @ lease_signature canon mac li l\<rparr>))))"

definition verify_lease ::
  "(pyval \<Rightarrow> string) \<Rightarrow> (string \<Rightarrow> string \<Rightarrow> string) \<Rightarrow> lease_issuer \<Rightarrow> int \<Rightarrow> capability_lease
     \<Rightarrow> lease_error + unit" where
  "verify_lease canon mac li now l =
     result_bind (lease_validate l now) (\<lambda>_.
       lease_check (drop 7 (cl_signature l) = lease_signature canon mac li l) ''lease_signature_invalid'')"

section \<open>Leases of the model data plane\<close>

datatype model_lease_error = RuntimeModelLeaseError string

record model_claims =
  mc_schema :: string
  mc_lease :: string
  mc_snapshot :: string
  mc_run :: string
  mc_thread :: string
  mc_tenant :: string
  mc_user :: string
  mc_session :: string
  mc_provider :: string
  mc_model :: string
  mc_revision :: int
  mc_issued :: int
  mc_expires :: int
  mc_nonce :: string

definition model_lease_schema :: string where "model_lease_schema = ''agent-runtime-model-lease/v1''"

definition trimmed :: "string \<Rightarrow> bool" where
  "trimmed s = (s \<noteq> [] \<and> py_strip s = s)"

definition claims_validated :: "model_claims \<Rightarrow> model_lease_error + unit" where
  "claims_validated c =
     guard_else (mc_schema c = model_lease_schema) (RuntimeModelLeaseError ''RUNTIME_MODEL_LEASE_VERSION_UNSUPPORTED'')
    (guard_else (list_all trimmed [mc_lease c, mc_snapshot c, mc_run c, mc_thread c, mc_tenant c, mc_user c, mc_session c,
          mc_provider c, mc_model c]) (RuntimeModelLeaseError ''RUNTIME_MODEL_LEASE_INVALID'')
    (guard_else (\<not> (mc_revision c < 1 \<or> mc_expires c \<le> mc_issued c \<or> \<not> hex64 (mc_nonce c)))
       (RuntimeModelLeaseError ''RUNTIME_MODEL_LEASE_INVALID'') (Inr ())))"

text \<open>The constructor of \<open>RuntimeModelLeaseSigner\<close>: what the signer keeps is the secret.\<close>

definition mk_model_signer :: "string \<Rightarrow> py_exn + string" where
  "mk_model_signer secret = guard_else (16 \<le> length secret)
     (ValueError ''Runtime model lease signing secret must be at least 16 chars'') (Inr secret)"

definition claims_value :: "model_claims \<Rightarrow> pyval" where
  "claims_value c = PDict
     [(''schema_version'', PStr (mc_schema c)), (''lease_id'', PStr (mc_lease c)), (''snapshot_id'', PStr (mc_snapshot c)),
      (''run_id'', PStr (mc_run c)), (''runtime_thread_id'', PStr (mc_thread c)), (''tenant_id'', PStr (mc_tenant c)),
      (''user_id'', PStr (mc_user c)), (''session_id'', PStr (mc_session c)), (''provider_id'', PStr (mc_provider c)),
      (''model_id'', PStr (mc_model c)), (''capability_revision'', PInt (mc_revision c)),
      (''issued_at_ms'', PInt (mc_issued c)), (''expires_at_ms'', PInt (mc_expires c)), (''nonce_sha256'', PStr (mc_nonce c))]"

definition sign_claims ::
  "(pyval \<Rightarrow> string) \<Rightarrow> (string \<Rightarrow> string \<Rightarrow> string) \<Rightarrow> string \<Rightarrow> model_claims \<Rightarrow> model_lease_error + string" where
  "sign_claims canon mac secret c =
     result_bind (claims_validated c) (\<lambda>_. Inr (''v1:'' @ mac secret (canon (claims_value c))))"

definition verify_claims ::
  "(pyval \<Rightarrow> string) \<Rightarrow> (string \<Rightarrow> string \<Rightarrow> string) \<Rightarrow> string \<Rightarrow> string \<Rightarrow> model_claims \<Rightarrow> model_lease_error + unit" where
  "verify_claims canon mac secret signature c =
     result_bind (sign_claims canon mac secret c) (\<lambda>expected.
       guard_else (signature = expected) (RuntimeModelLeaseError ''RUNTIME_MODEL_LEASE_SIGNATURE_INVALID'') (Inr ()))"

section \<open>Capability proofs\<close>

datatype proof_error = CapabilityProofError string

text \<open>The request a proof is for; \<open>cr_body\<close> is the hash of its body.\<close>

record capability_request =
  cr_method :: string
  cr_path :: string
  cr_body :: pyval
  cr_tenant :: string
  cr_user :: string
  cr_session :: string
  cr_execution :: string
  cr_run :: string

definition proof_schema :: string where "proof_schema = ''ai-platform-capability-proof/v1''"
definition proof_max_ttl :: int where "proof_max_ttl = 120"

definition body_hash :: "(pyval \<Rightarrow> string) \<Rightarrow> (string \<Rightarrow> string) \<Rightarrow> pyval \<Rightarrow> string" where
  "body_hash canon sha v = sha (canon v)"

definition proof_fields ::
  "(pyval \<Rightarrow> string) \<Rightarrow> (string \<Rightarrow> string) \<Rightarrow> capability_request \<Rightarrow> int \<Rightarrow> string \<Rightarrow> (string, pyval) py_dict" where
  "proof_fields canon sha rq expires nonce =
     [(''schema_version'', PStr proof_schema), (''method'', PStr (py_strip (py_upper (cr_method rq)))),
      (''path'', PStr (py_strip (cr_path rq))), (''body_sha256'', PStr (body_hash canon sha (cr_body rq))),
      (''tenant_id'', PStr (cr_tenant rq)), (''user_id'', PStr (cr_user rq)), (''session_id'', PStr (cr_session rq)),
      (''execution_id'', PStr (cr_execution rq)), (''run_id'', PStr (cr_run rq)), (''expires_at'', PInt expires),
      (''nonce'', PStr nonce)]"

definition str_field :: "(string, pyval) py_dict \<Rightarrow> string \<Rightarrow> string" where
  "str_field d k = (case get_val d k of PStr s \<Rightarrow> s | _ \<Rightarrow> [])"

definition int_field :: "(string, pyval) py_dict \<Rightarrow> string \<Rightarrow> int option" where
  "int_field d k = (case get_val d k of PInt n \<Rightarrow> Some n | _ \<Rightarrow> None)"

definition proof_check :: "bool \<Rightarrow> string \<Rightarrow> proof_error + unit" where
  "proof_check ok message = (if ok then Inr () else Inl (CapabilityProofError message))"

definition validate_proof_fields :: "(string, pyval) py_dict \<Rightarrow> proof_error + unit" where
  "validate_proof_fields f =
     result_bind (proof_check (get_val f ''schema_version'' = PStr proof_schema) ''proof schema is invalid'') (\<lambda>_.
     result_bind (proof_check (list_all (\<lambda>k. str_field f k \<noteq> []) [''method'', ''path'', ''body_sha256'', ''tenant_id'',
         ''user_id'', ''session_id'', ''execution_id'', ''run_id'', ''nonce'']) ''proof scope is invalid'') (\<lambda>_.
     result_bind (proof_check (int_field f ''expires_at'' \<noteq> None) ''proof expiry is invalid'') (\<lambda>_.
     result_bind (proof_check (\<not> (the (int_field f ''expires_at'') \<le> 0 \<or> 128 < length (str_field f ''nonce'')))
         ''proof expiry or nonce is invalid'') (\<lambda>_.
     result_bind (proof_check (plain_text (str_field f ''path'') 0 2048) ''proof path is invalid'') (\<lambda>_.
     result_bind (proof_check (hex64 (str_field f ''body_sha256'')) ''proof body hash is invalid'') (\<lambda>_.
       proof_check (list_all (\<lambda>k. plain_text (str_field f k) 0 255)
         [''tenant_id'', ''user_id'', ''session_id'', ''execution_id'', ''run_id'', ''nonce'']) ''proof scope is invalid''))))))"

definition proof_signature ::
  "(pyval \<Rightarrow> string) \<Rightarrow> (string \<Rightarrow> string \<Rightarrow> string) \<Rightarrow> string \<Rightarrow> (string, pyval) py_dict \<Rightarrow> proof_error + string" where
  "proof_signature canon mac secret f =
     guard_else (min_secret_bytes \<le> length secret) (CapabilityProofError ''proof secret is too short'')
       (Inr (mac secret (canon (PDict f))))"

text \<open>\<open>sign_capability_proof\<close>; \<open>encode\<close> is the URL-safe base64 text, without padding, of the JSON text.\<close>

definition sign_proof ::
  "(pyval \<Rightarrow> string) \<Rightarrow> (string \<Rightarrow> string) \<Rightarrow> (string \<Rightarrow> string \<Rightarrow> string) \<Rightarrow> (string \<Rightarrow> string) \<Rightarrow> string
     \<Rightarrow> capability_request \<Rightarrow> int option \<Rightarrow> string \<Rightarrow> int \<Rightarrow> proof_error + string" where
  "sign_proof canon sha mac encode secret rq expires_at nonce now =
     (let expiry = (case expires_at of None \<Rightarrow> now + 30 | Some t \<Rightarrow> t) in
      guard_else (\<not> (expiry \<le> now \<or> now + proof_max_ttl < expiry))
        (CapabilityProofError ''proof expiry is outside the allowed TTL'')
      (let f = proof_fields canon sha rq expiry nonce in
       result_bind (validate_proof_fields f) (\<lambda>_.
       result_bind (proof_signature canon mac secret f) (\<lambda>sg.
         Inr (''v1.'' @ encode (canon (PDict (f @ [(''signature'', PStr sg)]))))))))"

definition proof_keys :: "string list" where
  "proof_keys = [''schema_version'', ''method'', ''path'', ''body_sha256'', ''tenant_id'', ''user_id'', ''session_id'',
     ''execution_id'', ''run_id'', ''expires_at'', ''nonce'']"

text \<open>\<open>_decode\<close>; \<open>decode\<close> undoes the encoding and parses the JSON (\<open>None\<close>: it raises).\<close>

definition decode_proof :: "(string \<Rightarrow> pyval option) \<Rightarrow> string \<Rightarrow> proof_error + ((string, pyval) py_dict \<times> string)" where
  "decode_proof decode header =
     (if \<not> starts_with header ''v1.'' \<or> drop 3 header = [] \<or> 4096 < length (drop 3 header)
      then Inl (CapabilityProofError ''proof header is malformed'')
      else (case decode (drop 3 header) of
              Some (PDict envelope) \<Rightarrow>
                (case dict_get envelope ''signature'' of
                   Some (PStr sg) \<Rightarrow>
                     guard_else (length sg = 64) (CapabilityProofError ''proof signature is malformed'')
                    (guard_else (set (map fst (dict_pop ''signature'' envelope)) = set proof_keys)
                       (CapabilityProofError ''proof fields are invalid'')
                    (Inr (dict_pop ''signature'' envelope, sg)))
                 | _ \<Rightarrow> Inl (CapabilityProofError ''proof signature is malformed''))
            | _ \<Rightarrow> Inl (CapabilityProofError ''proof header is malformed'')))"

definition request_binding ::
  "(pyval \<Rightarrow> string) \<Rightarrow> (string \<Rightarrow> string) \<Rightarrow> capability_request \<Rightarrow> (string \<times> string) list" where
  "request_binding canon sha rq =
     [(''method'', py_strip (py_upper (cr_method rq))), (''path'', cr_path rq),
      (''body_sha256'', body_hash canon sha (cr_body rq)), (''tenant_id'', cr_tenant rq), (''user_id'', cr_user rq),
      (''session_id'', cr_session rq), (''execution_id'', cr_execution rq), (''run_id'', cr_run rq)]"

text \<open>\<open>verify_capability_proof\<close>: the verified fields and the signature.\<close>

definition verify_proof ::
  "(pyval \<Rightarrow> string) \<Rightarrow> (string \<Rightarrow> string) \<Rightarrow> (string \<Rightarrow> string \<Rightarrow> string) \<Rightarrow> (string \<Rightarrow> pyval option) \<Rightarrow> string
     \<Rightarrow> string \<Rightarrow> capability_request \<Rightarrow> int \<Rightarrow> proof_error + ((string, pyval) py_dict \<times> string)" where
  "verify_proof canon sha mac decode secret header rq now =
     result_bind (decode_proof decode header) (\<lambda>(f, sg).
     result_bind (validate_proof_fields f) (\<lambda>_.
     result_bind (proof_signature canon mac secret f) (\<lambda>expected.
     guard_else (sg = expected) (CapabilityProofError ''proof signature mismatch'')
    (guard_else (now < the (int_field f ''expires_at'') \<and> the (int_field f ''expires_at'') \<le> now + proof_max_ttl)
       (CapabilityProofError ''proof expired'')
    (guard_else (list_all (\<lambda>(k, v). str_field f k = v) (request_binding canon sha rq))
       (CapabilityProofError ''proof request binding mismatch'') (Inr (f, sg)))))))"

section \<open>Lemmas\<close>

lemma lease_check_Inr [simp]: "lease_check ok code = Inr u \<longleftrightarrow> ok"
  by (simp add: lease_check_def)

lemma proof_check_Inr [simp]: "proof_check ok code = Inr u \<longleftrightarrow> ok"
  by (simp add: proof_check_def)

lemma effect_of_Some: "effect_of s = Some e \<longleftrightarrow> s = effect_value e"
  by (cases e) (auto simp: effect_of_def)

lemma effect_value_inj: "effect_value e = effect_value f \<longleftrightarrow> e = f"
  by (cases e; cases f) simp_all

text \<open>A lease of the documented form: its identifiers, its hashes, its lifetime and its approval.\<close>

definition lease_wf :: "capability_lease \<Rightarrow> bool" where
  "lease_wf l \<longleftrightarrow> cl_schema l = lease_schema \<and> lease_identifier (cl_lease_id l) 64 \<and> lease_identifier (cl_run l) 64 \<and>
     lease_identifier (cl_tool_call l) 160 \<and> lease_identifier (cl_attempt l) 160 \<and> lease_identifier (cl_capability l) 160 \<and>
     plain_text (cl_tenant l) 1 255 \<and> plain_text (cl_user l) 1 255 \<and> plain_text (cl_session l) 1 255 \<and>
     1 \<le> cl_revision l \<and> hash_text (cl_arguments_hash l) \<and> cl_issued l < cl_expires l \<and>
     plain_text (cl_nonce l) 16 128 \<and> hash_text (cl_signature l) \<and>
     (case cl_approval l of None \<Rightarrow> cl_effect l = EffectRead
      | Some a \<Rightarrow> cl_effect l \<noteq> EffectRead \<and> lease_identifier a 64)"

lemma lease_validate_Inr: "lease_validate l now = Inr u \<longleftrightarrow> lease_wf l \<and> now < cl_expires l"
proof -
  have "(\<not> (cl_effect l = EffectRead \<and> cl_approval l \<noteq> None) \<and>
         (cl_effect l = EffectRead \<or> lease_identifier (opt_str (cl_approval l)) 64)) =
        (case cl_approval l of None \<Rightarrow> cl_effect l = EffectRead
         | Some a \<Rightarrow> cl_effect l \<noteq> EffectRead \<and> lease_identifier a 64)"
    by (cases "cl_approval l") (auto simp: opt_str_def lease_identifier_def)
  then show ?thesis
    unfolding lease_validate_def lease_wf_def result_bind_Inr lease_check_Inr by blast
qed

lemma signed_lease_value_eq:
  "signed_lease_value l = PDict
     ([(''schema_version'', PStr (cl_schema l)), (''lease_id'', PStr (cl_lease_id l)), (''tenant_id'', PStr (cl_tenant l)),
      (''user_id'', PStr (cl_user l)), (''session_id'', PStr (cl_session l)), (''run_id'', PStr (cl_run l)),
      (''tool_call_id'', PStr (cl_tool_call l)), (''attempt_id'', PStr (cl_attempt l)),
      (''capability_id'', PStr (cl_capability l)), (''capability_revision'', PInt (cl_revision l)),
      (''arguments_hash'', PStr (cl_arguments_hash l)), (''effect'', PStr (effect_value (cl_effect l))),
      (''issued_at_epoch_ms'', PInt (cl_issued l)), (''expires_at_epoch_ms'', PInt (cl_expires l)),
      (''nonce'', PStr (cl_nonce l)), (''signature'', PStr [])] @
     (case cl_approval l of None \<Rightarrow> [] | Some a \<Rightarrow> [(''approval_id'', PStr a)]))"
  by (cases "cl_approval l") (simp_all add: signed_lease_value_def lease_to_dict_def Let_def)

lemma signed_lease_value_signature [simp]: "signed_lease_value (l\<lparr>cl_signature := s\<rparr>) = signed_lease_value l"
  by (simp add: signed_lease_value_eq)

lemma signed_lease_value_inj:
  "signed_lease_value l = signed_lease_value m \<Longrightarrow> cl_signature l = cl_signature m \<Longrightarrow> l = m"
  by (cases "cl_approval l"; cases "cl_approval m")
    (auto simp: signed_lease_value_eq effect_value_inj intro!: capability_lease.equality)

lemma hash_text_Cons: "hash_text (''sha256:'' @ x) \<longleftrightarrow> hex64 x"
  by (simp add: hash_text_def starts_with_def)

lemma lease_wf_signed:
  "lease_wf l \<Longrightarrow> hash_text s \<Longrightarrow> lease_wf (l\<lparr>cl_signature := s\<rparr>)"
  by (cases "cl_approval l") (simp_all add: lease_wf_def)

lemma hash_text_prefix: "hash_text s \<Longrightarrow> s = ''sha256:'' @ drop 7 s"
  by (auto simp: hash_text_def starts_with_iff)

section \<open>Properties\<close>

text \<open>
  An issued lease verifies until it expires: it is valid for the configured time and no longer than two
  minutes, is of the documented form, and \<open>verify\<close> accepts it at every moment before its end and at none
  from then on.\<close>

theorem issued_lease_verifies:
  assumes "mk_lease_issuer secret ttl = Inr li"
    and "issue_lease canon sha mac fresh_id fresh_nonce li now rq = Inr l"
    and "\<And>k t. hex64 (mac k t)"
  shows "lease_wf l \<and> cl_issued l = now \<and> cl_expires l = now + ttl \<and> 1 \<le> ttl \<and> ttl \<le> 120000 \<and>
     (verify_lease canon mac li t l = Inr () \<longleftrightarrow> t < cl_expires l)"
proof -
  have li: "li = \<lparr>li_secret = secret, li_ttl = ttl\<rparr>" "1 \<le> ttl" "ttl \<le> 120000"
    using assms(1) by (auto simp: mk_lease_issuer_def max_ttl_ms_def)
  obtain l0 where l0: "lease_validate l0 now = Inr ()" "cl_issued l0 = now" "cl_expires l0 = now + ttl"
      "l = l0\<lparr>cl_signature := ''sha256:'' @ lease_signature canon mac li l0\<rparr>"
    using assms(2) li(1) by (auto simp: issue_lease_def Let_def result_bind_Inr split: option.splits)
  have wf: "lease_wf l"
    unfolding l0(4) using l0(1) assms(3)
    by (intro lease_wf_signed) (simp_all only: lease_validate_Inr hash_text_Cons lease_signature_def)
  have "drop 7 (cl_signature l) = lease_signature canon mac li l"
    using l0(4) by (simp add: lease_signature_def)
  then have "verify_lease canon mac li t l = Inr () \<longleftrightarrow> t < cl_expires l"
    using wf by (simp add: verify_lease_def result_bind_Inr lease_validate_Inr)
  then show ?thesis using wf l0(2-4) li(2,3) by simp
qed

text \<open>
  C25: A verified lease is what was signed: it is unexpired and of the documented form (so a write, or an
  effect that is not known, comes with an approval, and a read without one), and two verified leases with
  the same signature are the same lease in every field, or the keyed digest of the canonical text has a
  collision between the two.\<close>

theorem verified_lease_is_bound:
  assumes "verify_lease canon mac li t1 l1 = Inr ()" "verify_lease canon mac li t2 l2 = Inr ()"
  shows "lease_wf l1 \<and> t1 < cl_expires l1 \<and>
     (cl_signature l1 = cl_signature l2 \<longrightarrow> l1 = l2 \<or>
       (signed_lease_value l1 \<noteq> signed_lease_value l2 \<and>
        mac (li_secret li) (canon (signed_lease_value l1)) = mac (li_secret li) (canon (signed_lease_value l2))))"
proof -
  have v: "lease_wf l1" "t1 < cl_expires l1" "drop 7 (cl_signature l1) = lease_signature canon mac li l1"
    "drop 7 (cl_signature l2) = lease_signature canon mac li l2"
    using assms by (auto simp: verify_lease_def result_bind_Inr lease_validate_Inr)
  have "l1 = l2 \<or> (signed_lease_value l1 \<noteq> signed_lease_value l2 \<and>
        mac (li_secret li) (canon (signed_lease_value l1)) = mac (li_secret li) (canon (signed_lease_value l2)))"
    if "cl_signature l1 = cl_signature l2"
  proof (cases "signed_lease_value l1 = signed_lease_value l2")
    case True
    then show ?thesis using signed_lease_value_inj that by blast
  next
    case False
    then show ?thesis using v(3,4) that by (simp add: lease_signature_def)
  qed
  then show ?thesis using v(1,2) by blast
qed

definition sample_lease_issuer :: lease_issuer where
  "sample_lease_issuer = \<lparr>li_secret = replicate 32 (CHR ''k''), li_ttl = 60000\<rparr>"

definition sample_mac :: "string \<Rightarrow> string \<Rightarrow> string" where
  "sample_mac k t = replicate 64 (CHR ''a'')"

definition sample_lease_request :: lease_request where
  "sample_lease_request = \<lparr>lq_tenant = ''t'', lq_user = ''u'', lq_session = ''s'', lq_run = ''r'', lq_tool_call = ''c'',
     lq_attempt = ''1'', lq_capability = ''file.write'', lq_revision = 1, lq_arguments = [], lq_effect = ''write'',
     lq_approval = Some ''ok'', lq_lease_id = Some ''l'', lq_nonce = Some ''0123456789abcdef''\<rparr>"

definition sample_lease :: capability_lease where
  "sample_lease = \<lparr>cl_schema = lease_schema, cl_lease_id = ''l'', cl_tenant = ''t'', cl_user = ''u'', cl_session = ''s'',
     cl_run = ''r'', cl_tool_call = ''c'', cl_attempt = ''1'', cl_capability = ''file.write'', cl_revision = 1,
     cl_arguments_hash = ''sha256:'' @ replicate 64 (CHR ''b''), cl_effect = EffectWrite, cl_approval = Some ''ok'',
     cl_issued = 1000, cl_expires = 61000, cl_nonce = ''0123456789abcdef'',
     cl_signature = ''sha256:'' @ replicate 64 (CHR ''a'')\<rparr>"

lemma sample_issuer: "mk_lease_issuer (replicate 32 (CHR ''k'')) 60000 = Inr sample_lease_issuer"
  by (simp add: mk_lease_issuer_def sample_lease_issuer_def min_secret_bytes_def max_ttl_ms_def guard_else_def)

lemma sample_issue:
  "issue_lease (\<lambda>v. []) (\<lambda>t. replicate 64 (CHR ''b'')) sample_mac [] [] sample_lease_issuer 1000 sample_lease_request
     = Inr sample_lease"
  by code_simp

lemma sample_mac_hex: "hex64 (sample_mac k t)"
  by (simp add: hex64_def sample_mac_def list_all_iff)

lemma issued_lease_verifies_witness:
  "verify_lease (\<lambda>v. []) sample_mac sample_lease_issuer 60999 sample_lease = Inr ()"
  using issued_lease_verifies[OF sample_issuer sample_issue sample_mac_hex, of 60999] by (simp add: sample_lease_def)

lemma sample_verified: "verify_lease (\<lambda>v. []) sample_mac sample_lease_issuer 2000 sample_lease = Inr ()"
  by code_simp

lemma verified_lease_is_bound_witness: "lease_wf sample_lease"
  using verified_lease_is_bound[OF sample_verified sample_verified] by blast

section \<open>Proofs of a call\<close>

text \<open>Two dictionaries with the same entries, in whatever order.\<close>

definition same_dict :: "(string, pyval) py_dict \<Rightarrow> (string, pyval) py_dict \<Rightarrow> bool" where
  "same_dict d e \<longleftrightarrow> dict_get d = dict_get e"

lemma same_dict_get: "same_dict d e \<Longrightarrow> get_val d k = get_val e k"
  by (simp add: same_dict_def get_val_def)

lemma same_dict_keys: "same_dict d e \<Longrightarrow> set (map fst d) = set (map fst e)"
  by (simp add: same_dict_def flip: dom_map_of_conv_image_fst)

lemma same_dict_fields: "same_dict d e \<Longrightarrow> str_field d = str_field e \<and> int_field d = int_field e"
  by (auto simp: str_field_def int_field_def same_dict_get)

lemma same_dict_valid: "same_dict d e \<Longrightarrow> validate_proof_fields d = validate_proof_fields e"
  using same_dict_fields[of d e] by (simp add: validate_proof_fields_def same_dict_get)

lemma same_dict_pop:
  assumes "same_dict d (f @ [(k, v)])" "k \<notin> set (map fst f)"
  shows "same_dict (dict_pop k d) f"
proof -
  have "dict_get f k = None" using assms(2) by (simp add: map_of_eq_None_iff)
  then have "dict_get (dict_pop k d) x = dict_get f x" for x
    using assms(1) by (simp add: same_dict_def dict_get_pop map_add_def split: option.splits)
  then show ?thesis by (simp add: same_dict_def fun_eq_iff)
qed

lemma proof_fields_keys: "map fst (proof_fields canon sha rq t nonce) = proof_keys"
  by (simp add: proof_fields_def proof_keys_def)

lemma proof_fields_read:
  "str_field (proof_fields canon sha rq t nonce) ''method'' = py_strip (py_upper (cr_method rq))"
  "str_field (proof_fields canon sha rq t nonce) ''path'' = py_strip (cr_path rq)"
  "str_field (proof_fields canon sha rq t nonce) ''body_sha256'' = body_hash canon sha (cr_body rq)"
  "str_field (proof_fields canon sha rq t nonce) ''tenant_id'' = cr_tenant rq"
  "str_field (proof_fields canon sha rq t nonce) ''user_id'' = cr_user rq"
  "str_field (proof_fields canon sha rq t nonce) ''session_id'' = cr_session rq"
  "str_field (proof_fields canon sha rq t nonce) ''execution_id'' = cr_execution rq"
  "str_field (proof_fields canon sha rq t nonce) ''run_id'' = cr_run rq"
  "int_field (proof_fields canon sha rq t nonce) ''expires_at'' = Some t"
  by (simp_all add: proof_fields_def str_field_def int_field_def get_val_def)

lemma sign_proof_Inr:
  assumes "sign_proof canon sha mac encode secret rq ex nonce now = Inr header"
  obtains t f where "t = (case ex of None \<Rightarrow> now + 30 | Some t \<Rightarrow> t)" "now < t" "t \<le> now + proof_max_ttl"
    "f = proof_fields canon sha rq t nonce" "validate_proof_fields f = Inr ()" "min_secret_bytes \<le> length secret"
    "header = ''v1.'' @ encode (canon (PDict (f @ [(''signature'', PStr (mac secret (canon (PDict f))))])))"
  using assms by (auto simp: sign_proof_def Let_def result_bind_Inr proof_signature_def)

lemma verify_proof_Inr:
  "verify_proof canon sha mac decode secret header rq now = Inr (f, sg) \<longleftrightarrow>
     decode_proof decode header = Inr (f, sg) \<and> validate_proof_fields f = Inr () \<and> min_secret_bytes \<le> length secret \<and>
     sg = mac secret (canon (PDict f)) \<and> now < the (int_field f ''expires_at'') \<and>
     the (int_field f ''expires_at'') \<le> now + proof_max_ttl \<and>
     list_all (\<lambda>(k, v). str_field f k = v) (request_binding canon sha rq)"
  by (auto simp: verify_proof_def result_bind_Inr proof_signature_def)

text \<open>The envelope a header encodes: the fields and their signature.\<close>

definition proof_envelope ::
  "(pyval \<Rightarrow> string) \<Rightarrow> (string \<Rightarrow> string) \<Rightarrow> (string \<Rightarrow> string \<Rightarrow> string) \<Rightarrow> string \<Rightarrow> capability_request
     \<Rightarrow> int \<Rightarrow> string \<Rightarrow> (string, pyval) py_dict" where
  "proof_envelope canon sha mac secret rq expires nonce =
     (let f = proof_fields canon sha rq expires nonce
      in f @ [(''signature'', PStr (mac secret (canon (PDict f))))])"

text \<open>
  A signed proof verifies for the request it was made for exactly from two minutes before its expiry
  until that expiry, and only if the path of the request has no blanks around it: signing strips them and
  verification compares the path as it is. A header of more than 4096 characters after its version, which
  the limits on the fields allow to be signed, is never accepted. The encoding of the envelope is assumed to read back as the same fields in
  some order, the canonical text not to depend on the order, and the digest to have 64 characters.\<close>

theorem signed_proof_verifies:
  assumes "sign_proof canon sha mac encode secret rq ex nonce now = Inr header"
    and "decode (drop 3 header) = Some (PDict env)"
    and "same_dict env (proof_envelope canon sha mac secret rq (case ex of None \<Rightarrow> now + 30 | Some e \<Rightarrow> e) nonce)"
    and "\<And>d e. same_dict d e \<Longrightarrow> canon (PDict d) = canon (PDict e)"
    and "\<And>k t. length (mac k t) = 64"
    and "header \<noteq> ''v1.''"
  shows "(\<exists>r. verify_proof canon sha mac decode secret header rq t = Inr r) \<longleftrightarrow>
     t < (case ex of None \<Rightarrow> now + 30 | Some e \<Rightarrow> e) \<and> (case ex of None \<Rightarrow> now + 30 | Some e \<Rightarrow> e) \<le> t + 120 \<and>
     py_strip (cr_path rq) = cr_path rq \<and> length header \<le> 4099"
proof (cases "length header \<le> 4099")
  case False
  then have "4096 < length (drop 3 header)" by simp
  then have "\<not> (\<exists>r. decode_proof decode header = Inr r)" unfolding decode_proof_def by simp
  then show ?thesis using False by (auto simp: verify_proof_def result_bind_Inr)
next
  case True
  obtain e f where e: "e = (case ex of None \<Rightarrow> now + 30 | Some e \<Rightarrow> e)"
    and f: "f = proof_fields canon sha rq e nonce" "validate_proof_fields f = Inr ()" "min_secret_bytes \<le> length secret"
    and h: "header = ''v1.'' @ encode (canon (PDict (f @ [(''signature'', PStr (mac secret (canon (PDict f))))])))"
    using sign_proof_Inr[OF assms(1)] by metis
  define sg where "sg = mac secret (canon (PDict f))"
  have keys: "map fst f = proof_keys" unfolding f(1) by (rule proof_fields_keys)
  have fresh: "''signature'' \<notin> set (map fst f)" unfolding keys by (simp add: proof_keys_def)
  have sd: "same_dict env (f @ [(''signature'', PStr sg)])"
    using assms(3) unfolding proof_envelope_def e[symmetric] f(1)[symmetric] sg_def Let_def .
  define g where "g = dict_pop ''signature'' env"
  have sg': "same_dict g f" unfolding g_def by (rule same_dict_pop[OF sd fresh])
  have none: "dict_get f ''signature'' = None" using fresh by (simp add: map_of_eq_None_iff)
  have "dict_get env ''signature'' = Some (PStr sg)"
    using sd none by (simp add: same_dict_def map_add_def)
  moreover have "length sg = 64" "set (map fst g) = set proof_keys"
    using assms(5) same_dict_keys[OF sg'] keys by (simp_all add: sg_def)
  ultimately have "decode_proof decode header = Inr (g, sg)"
    using assms(2,6) True unfolding decode_proof_def g_def h by (simp add: guard_else_def starts_with_def)
  moreover have "canon (PDict g) = canon (PDict f)" by (rule assms(4)[OF sg'])
  moreover have "validate_proof_fields g = Inr ()" using same_dict_valid[OF sg'] f(2) by simp
  ultimately have "verify_proof canon sha mac decode secret header rq t = Inr (g, sg) \<longleftrightarrow>
      t < e \<and> e \<le> t + 120 \<and> py_strip (cr_path rq) = cr_path rq"
    using same_dict_fields[OF sg'] f(1,3)
    by (simp add: verify_proof_Inr sg_def proof_fields_read request_binding_def proof_max_ttl_def)
  moreover have "r = (g, sg)" if "verify_proof canon sha mac decode secret header rq t = Inr r" for r
    using that \<open>decode_proof decode header = Inr (g, sg)\<close> by (cases r) (simp add: verify_proof_Inr)
  ultimately show ?thesis using e True by blast
qed

text \<open>
  C26: An accepted proof pins the call down: two requests one header is accepted for agree in path, tenant,
  user, session, execution and run, in the digest of their bodies and, but for case and surrounding
  blanks, in their methods; the proof is signed under the secret, and both were accepted within two
  minutes before its expiry.\<close>

theorem accepted_proof_binds_request:
  assumes "verify_proof canon sha mac decode secret header rq1 t1 = Inr (f1, sg1)"
    and "verify_proof canon sha mac decode secret header rq2 t2 = Inr (f2, sg2)"
  shows "cr_path rq1 = cr_path rq2 \<and> cr_tenant rq1 = cr_tenant rq2 \<and> cr_user rq1 = cr_user rq2 \<and>
     cr_session rq1 = cr_session rq2 \<and> cr_execution rq1 = cr_execution rq2 \<and> cr_run rq1 = cr_run rq2 \<and>
     body_hash canon sha (cr_body rq1) = body_hash canon sha (cr_body rq2) \<and>
     py_strip (py_upper (cr_method rq1)) = py_strip (py_upper (cr_method rq2)) \<and>
     cr_tenant rq1 \<noteq> [] \<and> cr_user rq1 \<noteq> [] \<and> cr_session rq1 \<noteq> [] \<and>
     sg1 = mac secret (canon (PDict f1)) \<and> \<bar>t1 - t2\<bar> < 120"
proof -
  note v = assms[unfolded verify_proof_Inr]
  have same: "f2 = f1" using v by simp
  have "cr_path rq1 = cr_path rq2 \<and> cr_tenant rq1 = cr_tenant rq2 \<and> cr_user rq1 = cr_user rq2 \<and>
     cr_session rq1 = cr_session rq2 \<and> cr_execution rq1 = cr_execution rq2 \<and> cr_run rq1 = cr_run rq2 \<and>
     body_hash canon sha (cr_body rq1) = body_hash canon sha (cr_body rq2) \<and>
     py_strip (py_upper (cr_method rq1)) = py_strip (py_upper (cr_method rq2))"
    using v unfolding same request_binding_def list.pred_inject prod.case by metis
  moreover have "cr_tenant rq1 \<noteq> []" "cr_user rq1 \<noteq> []" "cr_session rq1 \<noteq> []"
    using v unfolding validate_proof_fields_def result_bind_Inr request_binding_def list.pred_inject prod.case
      proof_check_Inr by metis+
  moreover have "\<bar>t1 - t2\<bar> < 120" using v unfolding same proof_max_ttl_def by linarith
  ultimately show ?thesis using v by simp
qed

text \<open>
  The lease of the model data plane: exactly the claims of the documented form can be signed, the
  signature of those claims is the only one that verifies for them, and signatures of different claims
  coincide only when the keyed digest has a collision.\<close>

theorem model_lease_exact:
  "(verify_claims canon mac secret sg c = Inr () \<longleftrightarrow>
      claims_validated c = Inr () \<and> sign_claims canon mac secret c = Inr sg) \<and>
   (verify_claims canon mac secret sg c = Inr () \<and> verify_claims canon mac secret sg c' = Inr () \<longrightarrow>
      c = c' \<or> (claims_value c \<noteq> claims_value c' \<and>
        mac secret (canon (claims_value c)) = mac secret (canon (claims_value c'))))"
proof -
  have eq: "verify_claims canon mac secret sg c = Inr () \<longleftrightarrow>
      claims_validated c = Inr () \<and> sg = ''v1:'' @ mac secret (canon (claims_value c))" for c
    by (cases "claims_validated c") (auto simp: verify_claims_def sign_claims_def result_bind_Inr)
  have "sign_claims canon mac secret c = Inr sg \<longleftrightarrow>
      claims_validated c = Inr () \<and> sg = ''v1:'' @ mac secret (canon (claims_value c))"
    by (cases "claims_validated c") (auto simp: sign_claims_def)
  moreover have "claims_value c = claims_value c' \<Longrightarrow> c = c'"
    by (auto simp: claims_value_def intro!: model_claims.equality)
  ultimately show ?thesis unfolding eq by auto
qed

definition proof_request :: capability_request where
  "proof_request = \<lparr>cr_method = ''post'', cr_path = ''/x'', cr_body = PNone, cr_tenant = ''t'', cr_user = ''u'',
     cr_session = ''s'', cr_execution = ''e'', cr_run = ''r''\<rparr>"

text \<open>
  A concrete wire format for one request: the canonical text depends on the kind of the value only, and
  decoding answers with the one envelope in question.\<close>

definition proof_canon :: "pyval \<Rightarrow> string" where
  "proof_canon v = (case v of PDict d \<Rightarrow> concat (map (\<lambda>k. opt_str (map_option (\<lambda>v. case v of PStr s \<Rightarrow> s | _ \<Rightarrow> ''-'')
     (dict_get d k))) [''method'', ''path'', ''run_id'']) | _ \<Rightarrow> ''null'')"

definition sample_fields :: "(string, pyval) py_dict" where
  "sample_fields = proof_fields proof_canon (\<lambda>t. replicate 64 (CHR ''b'')) proof_request 1030 ''nonce''"

definition sample_decode :: "string \<Rightarrow> pyval option" where
  "sample_decode s = (if s = ''POST/xr'' then Some (PDict (sample_fields @
     [(''signature'', PStr (replicate 64 (CHR ''a'')))])) else None)"

lemma sample_verifies:
  "map_sum id snd (verify_proof proof_canon (\<lambda>t. replicate 64 (CHR ''b'')) sample_mac sample_decode
     (replicate 32 (CHR ''k'')) ''v1.POST/xr'' proof_request 1000) = Inr (replicate 64 (CHR ''a''))"
  by code_simp

lemma accepted_proof_binds_request_witness:
  "\<exists>r. verify_proof proof_canon (\<lambda>t. replicate 64 (CHR ''b'')) sample_mac sample_decode
     (replicate 32 (CHR ''k'')) ''v1.POST/xr'' proof_request 1000 = Inr r \<and> cr_tenant proof_request \<noteq> []"
proof -
  obtain f sg where "verify_proof proof_canon (\<lambda>t. replicate 64 (CHR ''b'')) sample_mac sample_decode
     (replicate 32 (CHR ''k'')) ''v1.POST/xr'' proof_request 1000 = Inr (f, sg)"
    using sample_verifies
    by (cases "verify_proof proof_canon (\<lambda>t. replicate 64 (CHR ''b'')) sample_mac sample_decode
     (replicate 32 (CHR ''k'')) ''v1.POST/xr'' proof_request 1000") auto
  with accepted_proof_binds_request[OF this this] show ?thesis by blast
qed

lemma proof_signed:
  "sign_proof proof_canon (\<lambda>t. replicate 64 (CHR ''b'')) sample_mac id (replicate 32 (CHR ''k'')) proof_request
     None ''nonce'' 1000 = Inr ''v1.POST/xr''"
  by code_simp

lemma proof_canon_same: "same_dict d e \<Longrightarrow> proof_canon (PDict d) = proof_canon (PDict e)"
  by (simp add: proof_canon_def same_dict_def)

lemma sample_decoded:
  "sample_decode (drop 3 ''v1.POST/xr'') = Some (PDict (sample_fields @ [(''signature'', PStr (replicate 64 (CHR ''a'')))]))"
  by (simp add: sample_decode_def)

lemma sample_same:
  "same_dict (sample_fields @ [(''signature'', PStr (replicate 64 (CHR ''a'')))])
     (proof_envelope proof_canon (\<lambda>t. replicate 64 (CHR ''b'')) sample_mac (replicate 32 (CHR ''k'')) proof_request
       (case None of None \<Rightarrow> 1000 + 30 | Some e \<Rightarrow> e) ''nonce'')"
  by (simp add: proof_envelope_def Let_def sample_mac_def sample_fields_def same_dict_def)

lemma signed_proof_verifies_witness:
  "(\<exists>r. verify_proof proof_canon (\<lambda>t. replicate 64 (CHR ''b'')) sample_mac sample_decode
     (replicate 32 (CHR ''k'')) ''v1.POST/xr'' proof_request 1029 = Inr r) \<and>
   \<not> (\<exists>r. verify_proof proof_canon (\<lambda>t. replicate 64 (CHR ''b'')) sample_mac sample_decode
     (replicate 32 (CHR ''k'')) ''v1.POST/xr'' proof_request 1030 = Inr r)"
proof -
  have strip: "py_strip (cr_path proof_request) = cr_path proof_request" by code_simp
  have mac: "length (sample_mac k t) = 64" for k t by (simp add: sample_mac_def)
  show ?thesis
    using signed_proof_verifies[where decode = sample_decode and header = "''v1.POST/xr''" and t = 1029,
        OF proof_signed sample_decoded sample_same proof_canon_same mac]
      signed_proof_verifies[where decode = sample_decode and header = "''v1.POST/xr''" and t = 1030,
        OF proof_signed sample_decoded sample_same proof_canon_same mac] strip
    by simp
qed

end
