(* ===== verification/Working_Memory.thy ===== *)
theory Working_Memory
  imports Py_Value
begin

text \<open>
  The task state an assistant carries through a long job
  (\<open>src/packages/ai-gateway-core/src/ai_gateway_core/working_memory.py\<close>): tasks, collected information and
  notes, the archive of finished work, and the copy that is stored and restored. Times are written and read
  by \<open>isofmt\<close> and \<open>from_isofmt\<close> (\<open>isoformat\<close>, \<open>fromisoformat\<close>), JSON by \<open>dumps\<close>; \<open>repr\<close> is the rendering of floats and
  containers by \<open>str\<close>. The current time is an argument of the operations that read the clock.
\<close>

section \<open>The state\<close>

datatype task_status = TaskPending | TaskInProgress | TaskCompleted | TaskFailed | TaskBlocked

fun task_status_value :: "task_status \<Rightarrow> string" where
  "task_status_value TaskPending = ''pending''"
| "task_status_value TaskInProgress = ''in_progress''"
| "task_status_value TaskCompleted = ''completed''"
| "task_status_value TaskFailed = ''failed''"
| "task_status_value TaskBlocked = ''blocked''"

text \<open>\<open>TaskStatus(v)\<close>: any value that is no text of a status raises \<open>ValueError\<close>.\<close>

definition task_status_of :: "pyval \<Rightarrow> task_status option" where
  "task_status_of v = find (\<lambda>s. PStr (task_status_value s) = v)
     [TaskPending, TaskInProgress, TaskCompleted, TaskFailed, TaskBlocked]"

record task_item =
  ti_id :: string
  ti_description :: string
  ti_status :: task_status
  ti_result :: "string option"
  ti_error :: "string option"
  ti_created :: py_time
  ti_completed :: "py_time option"

record info_item =
  ci_key :: string
  ci_value :: string
  ci_source :: string
  ci_time :: py_time

text \<open>
  \<open>wm_shared\<close> says that the list \<open>notes\<close> and the list under \<open>"notes"\<close> in \<open>archived\<close> are one object:
  \<open>to_dict\<close> does not copy it. The session id is a value because a restored one need not be a text.\<close>

record working_memory =
  wm_session :: pyval
  wm_goal :: "string option"
  wm_goal_set :: "py_time option"
  wm_turns :: int
  wm_tasks :: "task_item list"
  wm_info :: "info_item list"
  wm_notes :: "string list"
  wm_archived :: "(string, pyval) py_dict option"
  wm_shared :: bool

definition new_memory :: "string \<Rightarrow> working_memory" where
  "new_memory sid = \<lparr>wm_session = PStr sid, wm_goal = None, wm_goal_set = None, wm_turns = 0, wm_tasks = [],
     wm_info = [], wm_notes = [], wm_archived = None, wm_shared = False\<rparr>"

section \<open>Operations\<close>

definition set_goal :: "py_time \<Rightarrow> string \<Rightarrow> working_memory \<Rightarrow> working_memory" where
  "set_goal now g m = m\<lparr>wm_goal := Some g, wm_goal_set := Some now, wm_turns := 0\<rparr>"

definition add_task :: "py_time \<Rightarrow> string \<Rightarrow> string \<Rightarrow> working_memory \<Rightarrow> task_item \<times> working_memory" where
  "add_task now i d m =
     (let t = \<lparr>ti_id = i, ti_description = d, ti_status = TaskPending, ti_result = None, ti_error = None,
            ti_created = now, ti_completed = None\<rparr>
      in (t, m\<lparr>wm_tasks := wm_tasks m @ [t]\<rparr>))"

definition updated_task :: "py_time \<Rightarrow> task_status \<Rightarrow> string option \<Rightarrow> string option \<Rightarrow> task_item \<Rightarrow> task_item" where
  "updated_task now status result error t =
     (let t1 = t\<lparr>ti_status := status\<rparr>;
          t2 = (case result of None \<Rightarrow> t1 | Some r \<Rightarrow> t1\<lparr>ti_result := Some (if 500 < length r then take 500 r else r)\<rparr>);
          t3 = (case error of None \<Rightarrow> t2 | Some e \<Rightarrow> t2\<lparr>ti_error := Some e\<rparr>)
      in if status = TaskCompleted then t3\<lparr>ti_completed := Some now\<rparr> else t3)"

text \<open>The loop stops at the first task with the id.\<close>

fun update_first :: "string \<Rightarrow> (task_item \<Rightarrow> task_item) \<Rightarrow> task_item list \<Rightarrow> bool \<times> task_item list" where
  "update_first i f [] = (False, [])"
| "update_first i f (t # ts) =
     (if ti_id t = i then (True, f t # ts) else (case update_first i f ts of (b, ts') \<Rightarrow> (b, t # ts')))"

definition update_task ::
  "py_time \<Rightarrow> string \<Rightarrow> task_status \<Rightarrow> string option \<Rightarrow> string option \<Rightarrow> working_memory \<Rightarrow> bool \<times> working_memory" where
  "update_task now i status result error m =
     (case update_first i (updated_task now status result error) (wm_tasks m) of
        (b, ts) \<Rightarrow> (b, m\<lparr>wm_tasks := ts\<rparr>))"

definition get_task :: "string \<Rightarrow> working_memory \<Rightarrow> task_item option" where
  "get_task i m = find (\<lambda>t. ti_id t = i) (wm_tasks m)"

definition get_current_task :: "working_memory \<Rightarrow> task_item option" where
  "get_current_task m = find (\<lambda>t. ti_status t = TaskInProgress) (wm_tasks m)"

definition add_info :: "py_time \<Rightarrow> string \<Rightarrow> string \<Rightarrow> string \<Rightarrow> working_memory \<Rightarrow> working_memory" where
  "add_info now k v src m =
     m\<lparr>wm_info := wm_info m @ [\<lparr>ci_key = k, ci_value = v, ci_source = src, ci_time = now\<rparr>]\<rparr>"

definition add_note :: "string \<Rightarrow> working_memory \<Rightarrow> working_memory" where
  "add_note n m =
     (let notes = wm_notes m @ [n]
      in m\<lparr>wm_notes := notes,
           wm_archived := (if wm_shared m then map_option (dict_set ''notes'' (PList (map PStr notes))) (wm_archived m)
                           else wm_archived m)\<rparr>)"

definition clear_memory :: "working_memory \<Rightarrow> working_memory" where
  "clear_memory m = m\<lparr>wm_goal := None, wm_goal_set := None, wm_turns := 0, wm_tasks := [], wm_info := [],
     wm_notes := [], wm_shared := False\<rparr>"

section \<open>Rendering\<close>

fun status_indicator :: "task_status \<Rightarrow> string" where
  "status_indicator TaskPending = ''[ ]''"
| "status_indicator TaskInProgress = ''[~]''"
| "status_indicator TaskCompleted = ''[x]''"
| "status_indicator TaskFailed = ''[!]''"
| "status_indicator TaskBlocked = ''[B]''"

definition task_line :: "task_item \<Rightarrow> string" where
  "task_line t = ''- '' @ status_indicator (ti_status t) @ '' '' @ ti_description t @
     (if ti_status t = TaskInProgress then '' <- current'' else []) @
     (case ti_error t of None \<Rightarrow> [] | Some e \<Rightarrow> if e = [] then [] else '' (error: '' @ e @ '')'')"

definition info_line :: "info_item \<Rightarrow> string" where
  "info_line i = ''- **'' @ ci_key i @ ''**: '' @
     (if 100 < length (ci_value i) then take 100 (ci_value i) @ ''...'' else ci_value i)"

definition markdown_lines :: "working_memory \<Rightarrow> string list" where
  "markdown_lines m =
     [''# Current Task State'', []] @
     (case wm_goal m of None \<Rightarrow> [] | Some g \<Rightarrow> if g = [] then [] else [''**Goal:** '' @ g, []]) @
     (if wm_tasks m = [] then [] else [''## Tasks''] @ map task_line (wm_tasks m) @ [[]]) @
     (if wm_info m = [] then [] else [''## Collected Information''] @ map info_line (wm_info m) @ [[]]) @
     (if wm_notes m = [] then [] else [''## Notes''] @ map (\<lambda>n. ''- '' @ n) (wm_notes m) @ [[]])"

definition to_markdown :: "working_memory \<Rightarrow> string" where
  "to_markdown m = join_with [CHR 0x0A] (markdown_lines m)"

section \<open>Settling\<close>

definition unresolved :: "task_item \<Rightarrow> bool" where
  "unresolved t = (ti_status t \<in> {TaskPending, TaskInProgress, TaskBlocked})"

definition settled :: "task_item \<Rightarrow> bool" where
  "settled t = (ti_status t \<in> {TaskCompleted, TaskFailed})"

definition has_active_job :: "working_memory \<Rightarrow> bool" where
  "has_active_job m = (if list_ex unresolved (wm_tasks m) then True
     else opt_str (wm_goal m) \<noteq> [] \<and> wm_tasks m = [])"

definition opt_time :: "(py_time \<Rightarrow> string) \<Rightarrow> py_time option \<Rightarrow> pyval" where
  "opt_time isofmt t = (case t of None \<Rightarrow> PNone | Some t \<Rightarrow> PStr (isofmt t))"

definition opt_text :: "string option \<Rightarrow> pyval" where
  "opt_text s = (case s of None \<Rightarrow> PNone | Some s \<Rightarrow> PStr s)"

definition task_to_dict :: "(py_time \<Rightarrow> string) \<Rightarrow> task_item \<Rightarrow> (string, pyval) py_dict" where
  "task_to_dict isofmt t =
     [(''id'', PStr (ti_id t)), (''description'', PStr (ti_description t)),
      (''status'', PStr (task_status_value (ti_status t))), (''result'', opt_text (ti_result t)),
      (''error'', opt_text (ti_error t)), (''created_at'', PStr (isofmt (ti_created t))),
      (''completed_at'', opt_time isofmt (ti_completed t))]"

definition info_to_dict :: "(py_time \<Rightarrow> string) \<Rightarrow> info_item \<Rightarrow> (string, pyval) py_dict" where
  "info_to_dict isofmt i =
     [(''key'', PStr (ci_key i)), (''value'', PStr (ci_value i)), (''source'', PStr (ci_source i)),
      (''timestamp'', PStr (isofmt (ci_time i)))]"

definition memory_to_dict :: "(py_time \<Rightarrow> string) \<Rightarrow> working_memory \<Rightarrow> (string, pyval) py_dict" where
  "memory_to_dict isofmt m =
     [(''session_id'', wm_session m), (''goal'', opt_text (wm_goal m)), (''goal_set_at'', opt_time isofmt (wm_goal_set m)),
      (''turns_since_goal'', PInt (wm_turns m)), (''tasks'', PList (map (PDict \<circ> task_to_dict isofmt) (wm_tasks m))),
      (''collected_info'', PList (map (PDict \<circ> info_to_dict isofmt) (wm_info m))),
      (''notes'', PList (map PStr (wm_notes m))),
      (''archived'', case wm_archived m of None \<Rightarrow> PNone | Some d \<Rightarrow> PDict d)]"

definition preserve_snapshot :: "(py_time \<Rightarrow> string) \<Rightarrow> working_memory \<Rightarrow> working_memory" where
  "preserve_snapshot isofmt m =
     (if opt_str (wm_goal m) \<noteq> [] \<or> wm_tasks m \<noteq> [] \<or> wm_info m \<noteq> [] \<or> wm_notes m \<noteq> []
      then m\<lparr>wm_archived := Some (dict_set ''archived'' PNone (memory_to_dict isofmt m)), wm_shared := True\<rparr>
      else m)"

definition goal_only_settle_after_turns :: int where
  "goal_only_settle_after_turns = 3"

definition archive_if_settled :: "(py_time \<Rightarrow> string) \<Rightarrow> int \<Rightarrow> working_memory \<Rightarrow> bool \<times> working_memory" where
  "archive_if_settled isofmt turns m =
     (if (if wm_tasks m \<noteq> [] then list_ex unresolved (wm_tasks m) \<or> \<not> list_all settled (wm_tasks m)
          else opt_str (wm_goal m) = [] \<or> turns < goal_only_settle_after_turns)
      then (False, m) else (True, clear_memory (preserve_snapshot isofmt m)))"

record progress =
  pg_total :: nat
  pg_completed :: nat
  pg_failed :: nat
  pg_percentage :: rat

definition get_progress :: "working_memory \<Rightarrow> progress" where
  "get_progress m =
     (let n = length (wm_tasks m);
          done = length (filter (\<lambda>t. ti_status t = TaskCompleted) (wm_tasks m));
          failed = length (filter (\<lambda>t. ti_status t = TaskFailed) (wm_tasks m))
      in \<lparr>pg_total = n, pg_completed = done, pg_failed = failed,
          pg_percentage = (if 0 < n then of_nat done / of_nat n * 100 else 0)\<rparr>)"

section \<open>Restoring\<close>

definition the_key :: "(string, pyval) py_dict \<Rightarrow> string \<Rightarrow> py_exn + pyval" where
  "the_key d k = (case dict_get d k of None \<Rightarrow> Inl (KeyError k) | Some v \<Rightarrow> Inr v)"

definition time_of :: "(string \<Rightarrow> py_time option) \<Rightarrow> pyval \<Rightarrow> py_exn + py_time" where
  "time_of from_isofmt v =
     (case v of PStr s \<Rightarrow> (case from_isofmt s of Some t \<Rightarrow> Inr t | None \<Rightarrow> Inl (ValueError ''Invalid isoformat string''))
      | _ \<Rightarrow> Inl (TypeError ''fromisoformat: argument must be str''))"

definition opt_time_of :: "(string \<Rightarrow> py_time option) \<Rightarrow> pyval \<Rightarrow> py_exn + py_time option" where
  "opt_time_of from_isofmt v =
     (if truthy v then result_bind (time_of from_isofmt v) (\<lambda>t. Inr (Some t)) else Inr None)"

definition opt_text_of :: "pyval \<Rightarrow> string option" where
  "opt_text_of v = (case v of PStr s \<Rightarrow> Some s | _ \<Rightarrow> None)"

text \<open>
  The two \<open>from_dict\<close> of the items and that of the memory, on dictionaries that passed the checks of
  \<open>from_persisted_dict\<close>, where what is stored as a text is one.\<close>

definition task_from_dict :: "(string \<Rightarrow> py_time option) \<Rightarrow> (string, pyval) py_dict \<Rightarrow> py_exn + task_item" where
  "task_from_dict from_isofmt d =
     result_bind (the_key d ''id'') (\<lambda>i.
     result_bind (the_key d ''description'') (\<lambda>desc.
     result_bind (the_key d ''status'') (\<lambda>st.
       case task_status_of st of
         None \<Rightarrow> Inl (ValueError ''not a valid TaskStatus'')
       | Some status \<Rightarrow>
           result_bind (the_key d ''created_at'') (\<lambda>c.
           result_bind (time_of from_isofmt c) (\<lambda>created.
           result_bind (opt_time_of from_isofmt (get_val d ''completed_at'')) (\<lambda>completed.
             Inr \<lparr>ti_id = the_str i, ti_description = the_str desc, ti_status = status,
               ti_result = opt_text_of (get_val d ''result''), ti_error = opt_text_of (get_val d ''error''),
               ti_created = created, ti_completed = completed\<rparr>))))))"

definition info_from_dict :: "(string \<Rightarrow> py_time option) \<Rightarrow> (string, pyval) py_dict \<Rightarrow> py_exn + info_item" where
  "info_from_dict from_isofmt d =
     result_bind (the_key d ''key'') (\<lambda>k.
     result_bind (the_key d ''value'') (\<lambda>v.
     result_bind (the_key d ''source'') (\<lambda>s.
     result_bind (the_key d ''timestamp'') (\<lambda>t.
     result_bind (time_of from_isofmt t) (\<lambda>time.
       Inr \<lparr>ci_key = the_str k, ci_value = the_str v, ci_source = the_str s, ci_time = time\<rparr>)))))"

definition memory_from_dict ::
  "(string \<Rightarrow> py_time option) \<Rightarrow> (string, pyval) py_dict \<Rightarrow> py_exn + working_memory" where
  "memory_from_dict from_isofmt d =
     result_bind (the_key d ''session_id'') (\<lambda>sid.
     result_bind (opt_time_of from_isofmt (get_val d ''goal_set_at'')) (\<lambda>goal_set.
     result_bind (py_int (get_default d ''turns_since_goal'' (PInt 0))) (\<lambda>turns.
     result_bind (map_results (task_from_dict from_isofmt \<circ> dict_of) (list_of (get_val d ''tasks''))) (\<lambda>tasks.
     result_bind (map_results (info_from_dict from_isofmt \<circ> dict_of) (list_of (get_val d ''collected_info''))) (\<lambda>info.
       Inr \<lparr>wm_session = sid, wm_goal = opt_text_of (get_val d ''goal''), wm_goal_set = goal_set, wm_turns = turns,
         wm_tasks = tasks, wm_info = info, wm_notes = map the_str (list_of (get_val d ''notes'')),
         wm_archived = (case get_val d ''archived'' of PDict a \<Rightarrow> Some a | _ \<Rightarrow> None), wm_shared = False\<rparr>)))))"

definition wm_check :: "bool \<Rightarrow> string \<Rightarrow> py_exn + unit" where
  "wm_check ok what = (if ok then Inr () else Inl (ValueError (''Persisted working memory '' @ what)))"

definition short_text :: "nat \<Rightarrow> pyval \<Rightarrow> bool" where
  "short_text maximum v = (case v of PStr s \<Rightarrow> length s \<le> maximum | _ \<Rightarrow> False)"

fun tasks_check :: "pyval list \<Rightarrow> pyval list \<Rightarrow> py_exn + unit" where
  "tasks_check seen [] = Inr ()"
| "tasks_check seen (v # vs) =
     result_bind (wm_check (is_dict v) ''task is invalid'') (\<lambda>_.
       let d = dict_of v; i = get_val d ''id'' in
     result_bind (wm_check (short_text 128 i \<and> the_str i \<noteq> []) ''task id is invalid'') (\<lambda>_.
     result_bind (wm_check (i \<notin> set seen) ''has duplicate task ids'') (\<lambda>_.
     result_bind (wm_check (short_text 1000 (get_val d ''description'')) ''task description is invalid'') (\<lambda>_.
     result_bind (wm_check (get_val d ''result'' = PNone \<or> short_text 500 (get_val d ''result''))
         ''task result is invalid'') (\<lambda>_.
     result_bind (wm_check (get_val d ''error'' = PNone \<or> short_text 500 (get_val d ''error''))
         ''task error is invalid'') (\<lambda>_.
       tasks_check (i # seen) vs))))))"

fun infos_check :: "pyval list \<Rightarrow> py_exn + unit" where
  "infos_check [] = Inr ()"
| "infos_check (v # vs) =
     result_bind (wm_check (is_dict v) ''info item is invalid'') (\<lambda>_.
       let d = dict_of v in
     result_bind (wm_check (short_text 128 (get_val d ''key'')) ''info key is invalid'') (\<lambda>_.
     result_bind (wm_check (short_text 2000 (get_val d ''value'')) ''info value is invalid'') (\<lambda>_.
     result_bind (wm_check (short_text 128 (get_val d ''source'')) ''info source is invalid'') (\<lambda>_.
       infos_check vs))))"

definition short_list :: "pyval \<Rightarrow> bool" where
  "short_list v = (is_list v \<and> length (list_of v) \<le> 100)"

definition persisted_check ::
  "(pyval \<Rightarrow> string) \<Rightarrow> (pyval \<Rightarrow> string) \<Rightarrow> pyval \<Rightarrow> string \<Rightarrow> py_exn + (string, pyval) py_dict" where
  "persisted_check repr dumps v sid =
     result_bind (wm_check (is_dict v) ''must be an object'') (\<lambda>_.
       let d = dict_of v; tasks = get_default d ''tasks'' (PList []); infos = get_default d ''collected_info'' (PList []);
           notes = get_default d ''notes'' (PList []); turns = get_default d ''turns_since_goal'' (PInt 0) in
     result_bind (wm_check (py_str repr (or_val (get_val d ''session_id'') (PStr [])) = sid) ''session mismatch'') (\<lambda>_.
     result_bind (wm_check (length (dumps v) \<le> 100000) ''exceeds size limit'') (\<lambda>_.
     result_bind (wm_check (get_val d ''goal'' = PNone \<or> short_text 2000 (get_val d ''goal'')) ''goal is invalid'') (\<lambda>_.
     result_bind (wm_check (short_list tasks) ''task list is invalid'') (\<lambda>_.
     result_bind (wm_check (short_list infos) ''info list is invalid'') (\<lambda>_.
     result_bind (wm_check (short_list notes) ''notes are invalid'') (\<lambda>_.
     result_bind (tasks_check [] (list_of tasks)) (\<lambda>_.
     result_bind (infos_check (list_of infos)) (\<lambda>_.
     result_bind (wm_check (list_all (short_text 1000) (list_of notes)) ''note is invalid'') (\<lambda>_.
     result_bind (wm_check (get_val d ''archived'' = PNone \<or> is_dict (get_val d ''archived''))
         ''archived snapshot is invalid'') (\<lambda>_.
     result_bind (wm_check (\<not> is_bool turns \<and> is_int turns \<and> 0 \<le> the_int turns \<and> the_int turns \<le> 100000)
         ''turns_since_goal is invalid'') (\<lambda>_.
       Inr d))))))))))))"

definition from_persisted_dict ::
  "(pyval \<Rightarrow> string) \<Rightarrow> (pyval \<Rightarrow> string) \<Rightarrow> (string \<Rightarrow> py_time option) \<Rightarrow> pyval \<Rightarrow> string
     \<Rightarrow> py_exn + working_memory" where
  "from_persisted_dict repr dumps from_isofmt v sid =
     result_bind (persisted_check repr dumps v sid) (\<lambda>d.
       case memory_from_dict from_isofmt d of
         Inr m \<Rightarrow> Inr m
       | Inl e \<Rightarrow> Inl (ValueError ''Persisted working memory payload is invalid''))"

section \<open>What can be stored\<close>

definition task_bounded :: "task_item \<Rightarrow> bool" where
  "task_bounded t \<longleftrightarrow> ti_id t \<noteq> [] \<and> length (ti_id t) \<le> 128 \<and> length (ti_description t) \<le> 1000 \<and>
     length (opt_str (ti_result t)) \<le> 500 \<and> length (opt_str (ti_error t)) \<le> 500"

definition info_bounded :: "info_item \<Rightarrow> bool" where
  "info_bounded i \<longleftrightarrow> length (ci_key i) \<le> 128 \<and> length (ci_value i) \<le> 2000 \<and> length (ci_source i) \<le> 128"

definition memory_bounded :: "working_memory \<Rightarrow> bool" where
  "memory_bounded m \<longleftrightarrow> length (opt_str (wm_goal m)) \<le> 2000 \<and>
     length (wm_tasks m) \<le> 100 \<and> length (wm_info m) \<le> 100 \<and> length (wm_notes m) \<le> 100 \<and>
     list_all task_bounded (wm_tasks m) \<and> distinct (map ti_id (wm_tasks m)) \<and> list_all info_bounded (wm_info m) \<and>
     list_all (\<lambda>n. length n \<le> 1000) (wm_notes m) \<and> 0 \<le> wm_turns m \<and> wm_turns m \<le> 100000"

lemma wm_check_Inr [simp]: "wm_check ok what = Inr u \<longleftrightarrow> ok"
  by (simp add: wm_check_def)

lemma short_text_iff: "short_text n v \<longleftrightarrow> (\<exists>s. v = PStr s \<and> length s \<le> n)"
  by (cases v) (simp_all add: short_text_def)

definition task_value_ok :: "pyval \<Rightarrow> bool" where
  "task_value_ok v \<longleftrightarrow> is_dict v \<and> short_text 128 (get_val (dict_of v) ''id'') \<and> the_str (get_val (dict_of v) ''id'') \<noteq> [] \<and>
     short_text 1000 (get_val (dict_of v) ''description'') \<and>
     (get_val (dict_of v) ''result'' = PNone \<or> short_text 500 (get_val (dict_of v) ''result'')) \<and>
     (get_val (dict_of v) ''error'' = PNone \<or> short_text 500 (get_val (dict_of v) ''error''))"

definition info_value_ok :: "pyval \<Rightarrow> bool" where
  "info_value_ok v \<longleftrightarrow> is_dict v \<and> short_text 128 (get_val (dict_of v) ''key'') \<and>
     short_text 2000 (get_val (dict_of v) ''value'') \<and> short_text 128 (get_val (dict_of v) ''source'')"

abbreviation task_key :: "pyval \<Rightarrow> pyval" where
  "task_key v \<equiv> get_val (dict_of v) ''id''"

lemma tasks_check_Inr:
  "tasks_check seen vs = Inr () \<longleftrightarrow> list_all task_value_ok vs \<and> distinct (map task_key vs) \<and>
     set (map task_key vs) \<inter> set seen = {}"
proof (induction vs arbitrary: seen)
  case (Cons v vs)
  show ?case
    unfolding tasks_check.simps Let_def result_bind_Inr wm_check_Inr Cons.IH list.pred_inject list.map distinct.simps
      task_value_ok_def by auto
qed simp

lemma infos_check_Inr: "infos_check vs = Inr () \<longleftrightarrow> list_all info_value_ok vs"
  by (induction vs) (auto simp: result_bind_Inr info_value_ok_def Let_def)

lemma task_status_of_value [simp]: "task_status_of (PStr (task_status_value s)) = Some s"
  by (cases s) (simp_all add: task_status_of_def)

section \<open>Reading back what was written\<close>

text \<open>What is relied on of the texts of times: a written time is read back, and no time is written as nothing.\<close>

definition time_laws :: "(py_time \<Rightarrow> string) \<Rightarrow> (string \<Rightarrow> py_time option) \<Rightarrow> bool" where
  "time_laws isofmt from_isofmt \<longleftrightarrow> (\<forall>t. from_isofmt (isofmt t) = Some t \<and> isofmt t \<noteq> [])"

lemma opt_text_of_text [simp]: "opt_text_of (opt_text s) = s"
  by (cases s) (simp_all add: opt_text_def opt_text_of_def)

lemma time_of_text: "time_laws isofmt from_isofmt \<Longrightarrow> time_of from_isofmt (PStr (isofmt t)) = Inr t"
  by (simp add: time_of_def time_laws_def)

lemma opt_time_of_text: "time_laws isofmt from_isofmt \<Longrightarrow> opt_time_of from_isofmt (opt_time isofmt t) = Inr t"
  by (cases t) (simp_all add: opt_time_def opt_time_of_def time_of_text, simp add: time_laws_def)

lemma task_roundtrip: "time_laws isofmt from_isofmt \<Longrightarrow> task_from_dict from_isofmt (task_to_dict isofmt t) = Inr t"
  by (simp add: task_from_dict_def task_to_dict_def the_key_def get_val_def the_str_def time_of_text opt_time_of_text)

lemma info_roundtrip: "time_laws isofmt from_isofmt \<Longrightarrow> info_from_dict from_isofmt (info_to_dict isofmt i) = Inr i"
  by (simp add: info_from_dict_def info_to_dict_def the_key_def get_val_def the_str_def time_of_text)

lemma memory_roundtrip:
  assumes "time_laws isofmt from_isofmt"
  shows "memory_from_dict from_isofmt (memory_to_dict isofmt m) = Inr (m\<lparr>wm_shared := False\<rparr>)"
proof -
  have "map_results (task_from_dict from_isofmt \<circ> dict_of) (map (PDict \<circ> task_to_dict isofmt) ts) = Inr ts" for ts
    using map_results_map[of ts "task_from_dict from_isofmt \<circ> dict_of" "PDict \<circ> task_to_dict isofmt" id]
    by (simp add: dict_of_def task_roundtrip[OF assms])
  moreover have "map_results (info_from_dict from_isofmt \<circ> dict_of) (map (PDict \<circ> info_to_dict isofmt) xs) = Inr xs" for xs
    using map_results_map[of xs "info_from_dict from_isofmt \<circ> dict_of" "PDict \<circ> info_to_dict isofmt" id]
    by (simp add: dict_of_def info_roundtrip[OF assms])
  moreover have "map (the_str \<circ> PStr) ns = ns" for ns by (induction ns) (simp_all add: the_str_def)
  ultimately show ?thesis
    by (simp add: memory_from_dict_def memory_to_dict_def the_key_def get_val_def get_default_def list_of_def
        opt_time_of_text[OF assms] split: option.splits)
qed

lemma short_opt_text: "opt_text s = PNone \<or> short_text n (opt_text s) \<longleftrightarrow> length (opt_str s) \<le> n"
  by (cases s) (simp_all add: opt_text_def short_text_def opt_str_def)

lemma task_value_written: "task_value_ok (PDict (task_to_dict isofmt t)) \<longleftrightarrow> task_bounded t"
  using short_opt_text[of "ti_result t" 500] short_opt_text[of "ti_error t" 500]
  by (simp add: task_value_ok_def task_bounded_def task_to_dict_def is_dict_def dict_of_def get_val_def short_text_def
      the_str_def) blast

lemma info_value_written: "info_value_ok (PDict (info_to_dict isofmt i)) \<longleftrightarrow> info_bounded i"
  by (simp add: info_value_ok_def info_bounded_def info_to_dict_def is_dict_def dict_of_def get_val_def short_text_def)

lemma tasks_check_written:
  "tasks_check [] (map (PDict \<circ> task_to_dict isofmt) ts) = Inr () \<longleftrightarrow> list_all task_bounded ts \<and> distinct (map ti_id ts)"
proof -
  have k: "map task_key (map (PDict \<circ> task_to_dict isofmt) ts) = map PStr (map ti_id ts)"
    by (simp add: task_to_dict_def dict_of_def get_val_def)
  have d: "distinct (map PStr xs) \<longleftrightarrow> distinct xs" for xs by (simp add: distinct_map inj_on_def)
  show ?thesis
    unfolding tasks_check_Inr k d by (simp add: list_all_iff task_value_written)
qed

definition session_text :: "(pyval \<Rightarrow> string) \<Rightarrow> pyval \<Rightarrow> string" where
  "session_text repr v = py_str repr (or_val v (PStr []))"

lemma persisted_check_Inr:
  "persisted_check repr dumps v sid = Inr d \<longleftrightarrow>
     v = PDict d \<and> session_text repr (get_val d ''session_id'') = sid \<and> length (dumps v) \<le> 100000 \<and>
     (get_val d ''goal'' = PNone \<or> short_text 2000 (get_val d ''goal'')) \<and>
     short_list (get_default d ''tasks'' (PList [])) \<and> short_list (get_default d ''collected_info'' (PList [])) \<and>
     short_list (get_default d ''notes'' (PList [])) \<and>
     tasks_check [] (list_of (get_default d ''tasks'' (PList []))) = Inr () \<and>
     infos_check (list_of (get_default d ''collected_info'' (PList []))) = Inr () \<and>
     list_all (short_text 1000) (list_of (get_default d ''notes'' (PList []))) \<and>
     (get_val d ''archived'' = PNone \<or> is_dict (get_val d ''archived'')) \<and>
     (\<exists>n. get_default d ''turns_since_goal'' (PInt 0) = PInt n \<and> 0 \<le> n \<and> n \<le> 100000)"
proof -
  have turns: "\<not> is_bool t \<and> is_int t \<and> 0 \<le> the_int t \<and> the_int t \<le> 100000 \<longleftrightarrow>
      (\<exists>n. t = PInt n \<and> 0 \<le> n \<and> n \<le> 100000)" for t
    by (cases t) (simp_all add: is_bool_def is_int_def the_int_def)
  have dict: "is_dict v \<Longrightarrow> v = PDict (dict_of v)" by (rule is_dict_dict_of)
  show ?thesis
    unfolding persisted_check_def Let_def result_bind_Inr wm_check_Inr turns session_text_def
    by (cases "is_dict v") (use dict in \<open>auto simp: is_dict_def dict_of_def\<close>)
qed

lemma from_persisted_Inr:
  "from_persisted_dict repr dumps from_isofmt v sid = Inr m \<longleftrightarrow>
     (\<exists>d. persisted_check repr dumps v sid = Inr d \<and> memory_from_dict from_isofmt d = Inr m)"
proof -
  have "(case r of Inr m \<Rightarrow> Inr m | Inl e \<Rightarrow> Inl x) = Inr m \<longleftrightarrow> r = Inr m" for r :: "py_exn + working_memory" and x :: py_exn
    by (cases r) simp_all
  then show ?thesis by (simp add: from_persisted_dict_def result_bind_Inr)
qed

text \<open>
  C40: What is saved can be restored exactly when it is within the bounds. For a saved memory, restoring
  for a session succeeds if and only if every text, every list and the JSON document are within their
  limits, the tasks have distinct ids that are not empty, and the session is the memory's own; and then it
  gives the memory back, its archive included.\<close>

theorem memory_restorable_iff:
  assumes "time_laws isofmt from_isofmt"
  shows "from_persisted_dict repr dumps from_isofmt (PDict (memory_to_dict isofmt m)) sid = Inr m' \<longleftrightarrow>
     memory_bounded m \<and> length (dumps (PDict (memory_to_dict isofmt m))) \<le> 100000 \<and>
     session_text repr (wm_session m) = sid \<and> m' = m\<lparr>wm_shared := False\<rparr>"
proof -
  let ?d = "memory_to_dict isofmt m"
  have short: "list_all (short_text 1000) (map PStr ns) \<longleftrightarrow> list_all (\<lambda>n. length n \<le> 1000) ns" for ns
    by (simp add: list_all_iff short_text_def)
  have infos: "list_all info_value_ok (map (PDict \<circ> info_to_dict isofmt) xs) \<longleftrightarrow> list_all info_bounded xs" for xs
    by (simp add: list_all_iff info_value_written)
  have lists: "list_of (PList xs) = xs" "short_list (PList xs) \<longleftrightarrow> length xs \<le> 100" for xs
    by (simp_all add: list_of_def short_list_def is_list_def)
  have archived: "get_val ?d ''archived'' = PNone \<or> is_dict (get_val ?d ''archived'')"
    by (simp add: memory_to_dict_def get_val_def is_dict_def split: option.splits)
  have "persisted_check repr dumps (PDict ?d) sid = Inr d \<longleftrightarrow>
      d = ?d \<and> memory_bounded m \<and> length (dumps (PDict ?d)) \<le> 100000 \<and> session_text repr (wm_session m) = sid" for d
  proof -
    have read: "get_val ?d ''session_id'' = wm_session m" "get_val ?d ''goal'' = opt_text (wm_goal m)"
      "get_default ?d ''tasks'' (PList []) = PList (map (PDict \<circ> task_to_dict isofmt) (wm_tasks m))"
      "get_default ?d ''collected_info'' (PList []) = PList (map (PDict \<circ> info_to_dict isofmt) (wm_info m))"
      "get_default ?d ''notes'' (PList []) = PList (map PStr (wm_notes m))"
      "get_default ?d ''turns_since_goal'' (PInt 0) = PInt (wm_turns m)"
      by (simp_all add: memory_to_dict_def get_val_def get_default_def)
    have "persisted_check repr dumps (PDict ?d) sid = Inr d \<longleftrightarrow> d = ?d \<and> persisted_check repr dumps (PDict ?d) sid = Inr ?d"
      by (auto simp: persisted_check_Inr)
    also have "persisted_check repr dumps (PDict ?d) sid = Inr ?d \<longleftrightarrow>
        memory_bounded m \<and> length (dumps (PDict ?d)) \<le> 100000 \<and> session_text repr (wm_session m) = sid"
      unfolding persisted_check_Inr read short_opt_text lists tasks_check_written infos_check_Inr infos short
        memory_bounded_def length_map
      using archived by auto
    finally show ?thesis .
  qed
  then show ?thesis
    unfolding from_persisted_Inr by (auto simp: memory_roundtrip[OF assms])
qed

section \<open>What is restored\<close>

lemma opt_text_of_bounded: "v = PNone \<or> short_text n v \<Longrightarrow> length (opt_str (opt_text_of v)) \<le> n"
  by (cases v) (simp_all add: opt_text_of_def opt_str_def short_text_def)

lemma task_from_dict_bounded:
  assumes "task_from_dict from_isofmt d = Inr t" "task_value_ok (PDict d)"
  shows "task_bounded t \<and> get_val d ''id'' = PStr (ti_id t)"
proof -
  have f: "\<exists>i desc. dict_get d ''id'' = Some i \<and> dict_get d ''description'' = Some desc \<and> ti_id t = the_str i \<and>
      ti_description t = the_str desc \<and> ti_result t = opt_text_of (get_val d ''result'') \<and>
      ti_error t = opt_text_of (get_val d ''error'')"
    using assms(1) by (auto simp: task_from_dict_def result_bind_Inr the_key_def split: option.splits)
  have v: "get_val d k = v" if "dict_get d k = Some v" for k v using that by (simp add: get_val_def)
  from f obtain i desc where k: "get_val d ''id'' = i" "get_val d ''description'' = desc" and t: "ti_id t = the_str i"
      "ti_description t = the_str desc" "ti_result t = opt_text_of (get_val d ''result'')"
      "ti_error t = opt_text_of (get_val d ''error'')"
    using v by blast
  have "short_text 128 i" "the_str i \<noteq> []" "short_text 1000 desc"
      "get_val d ''result'' = PNone \<or> short_text 500 (get_val d ''result'')"
      "get_val d ''error'' = PNone \<or> short_text 500 (get_val d ''error'')"
    using assms(2) k by (simp_all add: task_value_ok_def dict_of_def)
  then show ?thesis
    using k(1) t opt_text_of_bounded by (auto simp: task_bounded_def short_text_iff the_str_def)
qed

lemma info_from_dict_bounded:
  "info_from_dict from_isofmt d = Inr i \<Longrightarrow> info_value_ok (PDict d) \<Longrightarrow> info_bounded i"
  by (auto simp: info_from_dict_def result_bind_Inr the_key_def info_value_ok_def info_bounded_def dict_of_def get_val_def
      short_text_iff the_str_def split: option.splits)

lemma list_all2_mapped:
  "list_all2 (\<lambda>x y. f x = Inr y) xs ys \<Longrightarrow> (\<And>x y. x \<in> set xs \<Longrightarrow> f x = Inr y \<Longrightarrow> P y \<and> g x = h y) \<Longrightarrow>
     list_all P ys \<and> map g xs = map h ys"
  by (induction xs ys rule: list_all2_induct) auto

text \<open>
  Whatever a store hands back, a restored memory is within its bounds: at most a hundred tasks with
  distinct ids, notes and pieces of information, every text within its limit, a sensible number of turns,
  and the session that was asked for.\<close>

theorem restored_memory_bounded:
  assumes "from_persisted_dict repr dumps from_isofmt v sid = Inr m"
  shows "memory_bounded m \<and> session_text repr (wm_session m) = sid \<and> \<not> wm_shared m"
proof -
  obtain d where p: "persisted_check repr dumps v sid = Inr d" and r: "memory_from_dict from_isofmt d = Inr m"
    using assms from_persisted_Inr by blast
  note c = p[unfolded persisted_check_Inr]
  obtain ts xs sid' turns gs where
    t: "map_results (task_from_dict from_isofmt \<circ> dict_of) (list_of (get_val d ''tasks'')) = Inr ts"
    and x: "map_results (info_from_dict from_isofmt \<circ> dict_of) (list_of (get_val d ''collected_info'')) = Inr xs"
    and n: "py_int (get_default d ''turns_since_goal'' (PInt 0)) = Inr turns" and s: "the_key d ''session_id'' = Inr sid'"
    and m: "m = \<lparr>wm_session = sid', wm_goal = opt_text_of (get_val d ''goal''), wm_goal_set = gs, wm_turns = turns,
         wm_tasks = ts, wm_info = xs, wm_notes = map the_str (list_of (get_val d ''notes'')),
         wm_archived = (case get_val d ''archived'' of PDict a \<Rightarrow> Some a | _ \<Rightarrow> None), wm_shared = False\<rparr>"
    using r by (auto simp: memory_from_dict_def result_bind_Inr)
  have def: "list_of (get_default d k (PList [])) = list_of (get_val d k)" for k
    by (simp add: get_default_def get_val_def list_of_def split: option.splits)
  have len: "length (list_of (get_val d k)) \<le> 100" if "short_list (get_default d k (PList []))" for k
    using that def[of k] by (simp add: short_list_def)
  let ?ts = "list_of (get_val d ''tasks'')" and ?xs = "list_of (get_val d ''collected_info'')"
    and ?ns = "list_of (get_val d ''notes'')"
  have tok: "list_all task_value_ok ?ts" "distinct (map task_key ?ts)" and xok: "list_all info_value_ok ?xs"
    and nok: "list_all (short_text 1000) ?ns"
    using c unfolding def tasks_check_Inr infos_check_Inr by blast+
  have "list_all task_bounded ts \<and> map task_key ?ts = map (\<lambda>t. PStr (ti_id t)) ts"
  proof (rule list_all2_mapped[OF t[unfolded map_results_Inr]])
    show "task_bounded y \<and> task_key v = PStr (ti_id y)"
      if "v \<in> set ?ts" "(task_from_dict from_isofmt \<circ> dict_of) v = Inr y" for v y
      using that tok(1) task_from_dict_bounded[of from_isofmt "dict_of v" y] is_dict_dict_of[of v]
      by (auto simp: list_all_iff task_value_ok_def)
  qed
  moreover have "distinct (map (\<lambda>t. PStr (ti_id t)) ts) \<longleftrightarrow> distinct (map ti_id ts)"
    by (simp add: distinct_map inj_on_def)
  ultimately have tasks: "list_all task_bounded ts" "distinct (map ti_id ts)" using tok(2) by simp_all
  have "list_all info_bounded xs \<and> map (\<lambda>_. ()) ?xs = map (\<lambda>_. ()) xs"
  proof (rule list_all2_mapped[OF x[unfolded map_results_Inr]])
    show "info_bounded y \<and> () = ()"
      if "v \<in> set ?xs" "(info_from_dict from_isofmt \<circ> dict_of) v = Inr y" for v y
      using that xok info_from_dict_bounded[of from_isofmt "dict_of v" y] is_dict_dict_of[of v]
      by (auto simp: list_all_iff info_value_ok_def)
  qed
  moreover have "length ts = length ?ts" "length xs = length ?xs"
    using t x by (auto simp: map_results_Inr dest: list_all2_lengthD)
  moreover have "list_all (\<lambda>n. length n \<le> 1000) (map the_str ?ns)"
    using nok by (auto simp: list_all_iff short_text_iff the_str_def)
  moreover have "0 \<le> turns \<and> turns \<le> 100000" using c n by auto
  moreover have "length (opt_str (opt_text_of (get_val d ''goal''))) \<le> 2000" using c opt_text_of_bounded by blast
  moreover have "get_val d ''session_id'' = sid'" using s by (auto simp: the_key_def get_val_def split: option.splits)
  ultimately show ?thesis
    using c tasks len unfolding m memory_bounded_def by auto
qed

section \<open>Finished work\<close>

lemma unresolved_settled: "settled t \<longleftrightarrow> \<not> unresolved t"
  by (cases "ti_status t") (simp_all add: settled_def unresolved_def)

lemma archive_condition:
  "fst (archive_if_settled isofmt turns m) \<longleftrightarrow>
     (if wm_tasks m \<noteq> [] then list_all settled (wm_tasks m) else opt_str (wm_goal m) \<noteq> [] \<and> 3 \<le> turns)"
  by (auto simp: archive_if_settled_def goal_only_settle_after_turns_def list_all_iff list_ex_iff unresolved_settled)

text \<open>
  Work is archived exactly when it is finished: when there are tasks and all of them are completed or
  failed, or when there are none and the goal was not pursued for three turns. Otherwise nothing changes.
  Archiving leaves no goal, task, information, note or active job behind, and loses nothing: reading the
  archive back gives the memory as it was, but for its own older archive.\<close>

theorem archiving_is_exact:
  assumes "time_laws isofmt from_isofmt" and "archive_if_settled isofmt turns m = (b, m')"
  shows "(b \<longleftrightarrow> (if wm_tasks m \<noteq> [] then list_all settled (wm_tasks m)
                else opt_str (wm_goal m) \<noteq> [] \<and> 3 \<le> turns)) \<and>
     (if b then m' = (new_memory [])\<lparr>wm_session := wm_session m, wm_archived := wm_archived m'\<rparr> \<and> \<not> has_active_job m' \<and>
         (\<exists>d. wm_archived m' = Some d \<and>
            memory_from_dict from_isofmt d = Inr (m\<lparr>wm_archived := None, wm_shared := False\<rparr>))
      else m' = m)"
proof -
  have b: "b \<longleftrightarrow> (if wm_tasks m \<noteq> [] then list_all settled (wm_tasks m)
                else opt_str (wm_goal m) \<noteq> [] \<and> 3 \<le> turns)"
    using archive_condition[of isofmt turns m] assms(2) by simp
  show ?thesis
  proof (cases b)
    case False
    then show ?thesis using b assms(2) by (simp add: archive_if_settled_def split: if_splits)
  next
    case True
    define d where "d = dict_set ''archived'' PNone (memory_to_dict isofmt m)"
    have live: "opt_str (wm_goal m) \<noteq> [] \<or> wm_tasks m \<noteq> []" using True b by (auto split: if_splits)
    then have m': "m' = clear_memory (m\<lparr>wm_archived := Some d, wm_shared := True\<rparr>)"
      using True assms(2) by (auto simp: archive_if_settled_def preserve_snapshot_def d_def split: if_splits)
    have "d = memory_to_dict isofmt (m\<lparr>wm_archived := None\<rparr>)"
      by (simp add: d_def memory_to_dict_def)
    then have "memory_from_dict from_isofmt d = Inr (m\<lparr>wm_archived := None, wm_shared := False\<rparr>)"
      using memory_roundtrip[OF assms(1), of "m\<lparr>wm_archived := None\<rparr>"] by simp
    moreover have "m' = (new_memory [])\<lparr>wm_session := wm_session m, wm_archived := wm_archived m'\<rparr>" "wm_archived m' = Some d"
      unfolding m' by (simp_all add: clear_memory_def new_memory_def)
    moreover have "\<not> has_active_job m'" by (simp add: m' clear_memory_def has_active_job_def opt_str_def)
    ultimately show ?thesis unfolding b[symmetric] using True by simp
  qed
qed

section \<open>Runs\<close>

datatype memory_op =
    OpSetGoal py_time string
  | OpAddTask py_time string string
  | OpUpdateTask py_time string task_status "string option" "string option"
  | OpAddInfo py_time string string string
  | OpAddNote string
  | OpArchive int
  | OpPreserve
  | OpClear

fun memory_exec :: "(py_time \<Rightarrow> string) \<Rightarrow> memory_op \<Rightarrow> working_memory \<Rightarrow> working_memory" where
  "memory_exec isofmt (OpSetGoal now g) m = set_goal now g m"
| "memory_exec isofmt (OpAddTask now i d) m = snd (add_task now i d m)"
| "memory_exec isofmt (OpUpdateTask now i s r e) m = snd (update_task now i s r e m)"
| "memory_exec isofmt (OpAddInfo now k v src) m = add_info now k v src m"
| "memory_exec isofmt (OpAddNote n) m = add_note n m"
| "memory_exec isofmt (OpArchive turns) m = snd (archive_if_settled isofmt turns m)"
| "memory_exec isofmt OpPreserve m = preserve_snapshot isofmt m"
| "memory_exec isofmt OpClear m = clear_memory m"

definition archive_ok :: "working_memory \<Rightarrow> bool" where
  "archive_ok m \<longleftrightarrow>
     (case wm_archived m of
        None \<Rightarrow> \<not> wm_shared m
      | Some d \<Rightarrow> get_val d ''archived'' = PNone \<and>
          (wm_shared m \<longrightarrow> get_val d ''notes'' = PList (map PStr (wm_notes m))))"

lemma archive_ok_preserve: "archive_ok m \<Longrightarrow> archive_ok (preserve_snapshot isofmt m)"
  by (simp add: archive_ok_def preserve_snapshot_def memory_to_dict_def get_val_def)

lemma archive_ok_clear: "archive_ok m \<Longrightarrow> archive_ok (clear_memory m)"
  by (simp add: archive_ok_def clear_memory_def split: option.splits)

lemma archive_ok_cong:
  "archive_ok m \<Longrightarrow> wm_archived m' = wm_archived m \<Longrightarrow> wm_shared m' = wm_shared m \<Longrightarrow> wm_notes m' = wm_notes m \<Longrightarrow>
     archive_ok m'"
  by (simp add: archive_ok_def split: option.splits)

lemma archive_ok_exec: "archive_ok m \<Longrightarrow> archive_ok (memory_exec isofmt op m)"
proof (cases op)
  case (OpAddNote n)
  assume "archive_ok m"
  then show ?thesis
    unfolding OpAddNote by (cases "wm_archived m"; cases "wm_shared m")
      (simp_all add: archive_ok_def add_note_def Let_def get_val_def dict_get_set)
next
  case (OpArchive turns)
  assume "archive_ok m"
  then show ?thesis
    unfolding OpArchive by (simp add: archive_if_settled_def archive_ok_preserve archive_ok_clear)
qed (simp_all add: archive_ok_preserve archive_ok_clear set_goal_def add_task_def update_task_def add_info_def Let_def
    archive_ok_cong split: prod.splits)

text \<open>
  An archive never holds another archive, whatever is done to a new memory, so what is stored does not
  grow with the number of jobs; and as long as the notes were not cleared since, the notes in the archive
  are the live ones, being the same list.\<close>

theorem archives_do_not_nest:
  "case wm_archived (fold (memory_exec isofmt) ops (new_memory sid)) of
     None \<Rightarrow> True
   | Some d \<Rightarrow> get_val d ''archived'' = PNone \<and>
       (wm_shared (fold (memory_exec isofmt) ops (new_memory sid)) \<longrightarrow>
          get_val d ''notes'' = PList (map PStr (wm_notes (fold (memory_exec isofmt) ops (new_memory sid)))))"
proof -
  have "archive_ok m \<Longrightarrow> archive_ok (fold (memory_exec isofmt) ops m)" for m
    by (induction ops arbitrary: m) (simp_all add: archive_ok_exec)
  moreover have "archive_ok (new_memory sid)" by (simp add: archive_ok_def new_memory_def)
  ultimately have "archive_ok (fold (memory_exec isofmt) ops (new_memory sid))" by blast
  then show ?thesis by (simp add: archive_ok_def split: option.splits)
qed

text \<open>
  The snapshot taken before a rewrite is not a copy: a note added after it is in the snapshot too.\<close>

theorem snapshot_is_not_frozen:
  assumes "preserve_snapshot isofmt m \<noteq> m"
  shows "\<exists>d. wm_archived (add_note n (preserve_snapshot isofmt m)) = Some d \<and>
     get_val d ''notes'' = PList (map PStr (wm_notes m @ [n]))"
  using assms by (auto simp: preserve_snapshot_def add_note_def Let_def get_val_def dict_get_set split: if_splits)

section \<open>Tasks\<close>

lemma update_first_spec:
  "update_first i f ts = (b, ts') \<Longrightarrow>
     (b \<longleftrightarrow> i \<in> set (map ti_id ts)) \<and> length ts' = length ts \<and>
     (\<forall>k < length ts. ts' ! k = (if ti_id (ts ! k) = i \<and> i \<notin> set (map ti_id (take k ts)) then f (ts ! k) else ts ! k))"
proof (induction ts arbitrary: b ts')
  case (Cons t ts)
  show ?case
  proof (cases "ti_id t = i")
    case True
    then show ?thesis using Cons.prems by (auto simp: nth_Cons split: nat.splits)
  next
    case False
    obtain ts'' where u: "update_first i f ts = (b, ts'')" "ts' = t # ts''"
      using Cons.prems False by (auto split: prod.splits)
    show ?thesis using Cons.IH[OF u(1)] False by (auto simp: u(2) nth_Cons split: nat.splits)
  qed
qed simp

text \<open>
  A failed task can lock the memory out: \<open>update_task\<close> cuts a long result but not a long error, so a
  task that fails with an error of more than 500 characters leaves a memory that can be saved and never be
  restored.\<close>

theorem long_error_is_unrestorable:
  assumes "time_laws isofmt from_isofmt" and "update_task now i TaskFailed r (Some e) m = (True, m')" and "500 < length e"
  shows "\<nexists>m''. from_persisted_dict repr dumps from_isofmt (PDict (memory_to_dict isofmt m')) sid = Inr m''"
proof -
  obtain ts where u: "update_first i (updated_task now TaskFailed r (Some e)) (wm_tasks m) = (True, ts)"
      and m': "m' = m\<lparr>wm_tasks := ts\<rparr>"
    using assms(2) by (auto simp: update_task_def split: prod.splits)
  have "update_first i f xs = (True, ys) \<Longrightarrow> \<exists>t \<in> set xs. f t \<in> set ys" for f xs ys
    by (induction xs arbitrary: ys) (auto split: if_splits prod.splits)
  from this[OF u] obtain t where t: "updated_task now TaskFailed r (Some e) t \<in> set ts" by blast
  have "\<not> task_bounded (updated_task now TaskFailed r (Some e) t)"
    using assms(3) by (simp add: task_bounded_def updated_task_def Let_def opt_str_def)
  then have "\<not> memory_bounded m'" using t by (auto simp: memory_bounded_def m' list_all_iff)
  then show ?thesis by (simp add: memory_restorable_iff[OF assms(1)])
qed

text \<open>
  The progress adds up: no more tasks are completed and failed than there are, the percentage is
  between 0 and 100, and it is 100 exactly when there are tasks and all are completed.\<close>

theorem progress_adds_up:
  "pg_completed (get_progress m) + pg_failed (get_progress m) \<le> pg_total (get_progress m) \<and>
   0 \<le> pg_percentage (get_progress m) \<and> pg_percentage (get_progress m) \<le> 100 \<and>
   (pg_percentage (get_progress m) = 100 \<longleftrightarrow>
      wm_tasks m \<noteq> [] \<and> list_all (\<lambda>t. ti_status t = TaskCompleted) (wm_tasks m))"
proof -
  let ?done = "filter (\<lambda>t. ti_status t = TaskCompleted) (wm_tasks m)"
  let ?failed = "filter (\<lambda>t. ti_status t = TaskFailed) (wm_tasks m)"
  have "length (filter (\<lambda>t. ti_status t = TaskCompleted) ts) + length (filter (\<lambda>t. ti_status t = TaskFailed) ts) \<le> length ts"
    for ts by (induction ts) auto
  then have sum: "length ?done + length ?failed \<le> length (wm_tasks m)" .
  have all: "length ?done = length (wm_tasks m) \<longleftrightarrow> list_all (\<lambda>t. ti_status t = TaskCompleted) (wm_tasks m)"
    using length_filter_less[of _ "wm_tasks m" "\<lambda>t. ti_status t = TaskCompleted"]
    by (fastforce simp: list_all_iff)
  have le: "length ?done \<le> length (wm_tasks m)" by simp
  have pos: "wm_tasks m \<noteq> [] \<Longrightarrow> (0::rat) < of_nat (length (wm_tasks m))" by simp
  define q :: rat where "q = of_nat (length ?done) / of_nat (length (wm_tasks m))"
  have p: "pg_percentage (get_progress m) = (if wm_tasks m \<noteq> [] then q * 100 else 0)"
    by (simp add: get_progress_def Let_def q_def)
  have q: "0 \<le> q" "q \<le> 1" "q = 1 \<longleftrightarrow> list_all (\<lambda>t. ti_status t = TaskCompleted) (wm_tasks m)" if "wm_tasks m \<noteq> []"
  proof -
    show "0 \<le> q" by (simp add: q_def)
    show "q \<le> 1" unfolding q_def using le pos[OF that] by (subst divide_le_eq_1_pos) simp_all
    show "q = 1 \<longleftrightarrow> list_all (\<lambda>t. ti_status t = TaskCompleted) (wm_tasks m)"
      unfolding all[symmetric] q_def divide_eq_1_iff of_nat_eq_iff using that by simp
  qed
  have "0 \<le> pg_percentage (get_progress m) \<and> pg_percentage (get_progress m) \<le> 100 \<and>
   (pg_percentage (get_progress m) = 100 \<longleftrightarrow>
      wm_tasks m \<noteq> [] \<and> list_all (\<lambda>t. ti_status t = TaskCompleted) (wm_tasks m))"
    by (cases "wm_tasks m = []") (use p q in simp_all)
  moreover have "pg_completed (get_progress m) + pg_failed (get_progress m) \<le> pg_total (get_progress m)"
    using sum by (simp add: get_progress_def Let_def)
  ultimately show ?thesis by blast
qed

section \<open>A concrete memory\<close>

text \<open>A format of times with the laws: numerator and denominator.\<close>

definition sample_isoformat :: "py_time \<Rightarrow> string" where
  "sample_isoformat t = string_of_int (fst (quotient_of t)) @ '':'' @ string_of_int (snd (quotient_of t))"

definition sample_fromisoformat :: "string \<Rightarrow> py_time option" where
  "sample_fromisoformat s =
     (case map parse_int (split_on (CHR '':'') s) of [Some a, Some b] \<Rightarrow> Some (of_int a / of_int b) | _ \<Rightarrow> None)"

lemma sample_time_laws: "time_laws sample_isoformat sample_fromisoformat"
proof -
  have "split_on (CHR '':'') (string_of_int a @ '':'' @ string_of_int b) = [string_of_int a, string_of_int b]" for a b
    by (simp add: split_on_append split_on_free string_of_int_no_colon)
  then have "sample_fromisoformat (sample_isoformat t) = Some t" for t
    using quotient_of_div[of t "fst (quotient_of t)" "snd (quotient_of t)"]
    by (simp add: sample_fromisoformat_def sample_isoformat_def)
  then show ?thesis by (simp add: time_laws_def sample_isoformat_def)
qed

definition sample_memory :: working_memory where
  "sample_memory = memory_exec sample_isoformat (OpUpdateTask 3 ''t1'' TaskCompleted (Some ''done'') None)
     (memory_exec sample_isoformat (OpAddTask 2 ''t1'' ''search'') (memory_exec sample_isoformat (OpSetGoal 1 ''report'') (new_memory ''s'')))"

lemma sample_memory_eval:
  "sample_memory = \<lparr>wm_session = PStr ''s'', wm_goal = Some ''report'', wm_goal_set = Some 1, wm_turns = 0, wm_tasks =
     [\<lparr>ti_id = ''t1'', ti_description = ''search'', ti_status = TaskCompleted, ti_result = Some ''done'', ti_error = None,
        ti_created = 2, ti_completed = Some 3\<rparr>], wm_info = [], wm_notes = [], wm_archived = None, wm_shared = False\<rparr>"
  by (simp add: sample_memory_def set_goal_def add_task_def update_task_def updated_task_def Let_def new_memory_def)

lemma memory_restorable_iff_witness:
  "from_persisted_dict (\<lambda>v. []) (\<lambda>v. ''{}'') sample_fromisoformat (PDict (memory_to_dict sample_isoformat sample_memory)) ''s''
     = Inr sample_memory"
  unfolding memory_restorable_iff[OF sample_time_laws]
  by (simp add: sample_memory_eval memory_bounded_def task_bounded_def opt_str_def session_text_def or_val_def)

lemma sample_restored:
  "from_persisted_dict (\<lambda>v. []) (\<lambda>v. ''{}'') sample_fromisoformat (PDict [(''session_id'', PStr ''7''), (''notes'', PList [PStr ''n''])]) ''7''
     = Inr \<lparr>wm_session = PStr ''7'', wm_goal = None, wm_goal_set = None, wm_turns = 0, wm_tasks = [], wm_info = [],
         wm_notes = [''n''], wm_archived = None, wm_shared = False\<rparr>"
  unfolding from_persisted_Inr persisted_check_Inr
  by (rule exI[of _ "[(''session_id'', PStr ''7''), (''notes'', PList [PStr ''n''])]"])
    (simp add: get_val_def get_default_def session_text_def or_val_def short_list_def is_list_def list_of_def short_text_def
      memory_from_dict_def the_key_def opt_time_of_def opt_text_of_def the_str_def)

lemma restored_memory_bounded_witness:
  "memory_bounded \<lparr>wm_session = PStr ''7'', wm_goal = None, wm_goal_set = None, wm_turns = 0, wm_tasks = [], wm_info = [],
     wm_notes = [''n''], wm_archived = None, wm_shared = False\<rparr>"
  using restored_memory_bounded[OF sample_restored] by blast

lemma archiving_is_exact_witness:
  "\<exists>d. wm_archived (snd (archive_if_settled sample_isoformat 0 sample_memory)) = Some d \<and>
     memory_from_dict sample_fromisoformat d = Inr (sample_memory\<lparr>wm_archived := None, wm_shared := False\<rparr>)"
proof -
  have "fst (archive_if_settled sample_isoformat 0 sample_memory)"
    unfolding archive_condition by (simp add: sample_memory_eval settled_def)
  then have "archive_if_settled sample_isoformat 0 sample_memory = (True, snd (archive_if_settled sample_isoformat 0 sample_memory))"
    by (simp add: prod_eq_iff)
  from archiving_is_exact[OF sample_time_laws this] show ?thesis by simp
qed

lemma snapshot_is_not_frozen_witness:
  "\<exists>d. wm_archived (add_note ''late'' (preserve_snapshot sample_isoformat sample_memory)) = Some d \<and>
     get_val d ''notes'' = PList [PStr ''late'']"
proof -
  have "preserve_snapshot sample_isoformat sample_memory \<noteq> sample_memory"
    by (simp add: preserve_snapshot_def sample_memory_eval opt_str_def)
  from snapshot_is_not_frozen[OF this, of "''late''"] show ?thesis by (simp add: sample_memory_eval)
qed

lemma archives_do_not_nest_witness:
  "get_val (the (wm_archived (fold (memory_exec sample_isoformat) [OpAddNote ''n'', OpPreserve, OpAddNote ''m'']
     (new_memory ''s'')))) ''archived'' = PNone"
  using archives_do_not_nest[of sample_isoformat "[OpAddNote ''n'', OpPreserve, OpAddNote ''m'']" "''s''"]
  by (simp add: add_note_def preserve_snapshot_def new_memory_def Let_def opt_str_def)

lemma sample_failed_update:
  "update_task 4 ''t1'' TaskFailed None (Some (replicate 501 (CHR ''e''))) sample_memory =
     (True, snd (update_task 4 ''t1'' TaskFailed None (Some (replicate 501 (CHR ''e''))) sample_memory))"
  by (simp add: sample_memory_eval update_task_def)

lemma long_error_is_unrestorable_witness:
  "\<nexists>m''. from_persisted_dict (\<lambda>v. []) (\<lambda>v. ''{}'') sample_fromisoformat (PDict (memory_to_dict sample_isoformat
     (snd (update_task 4 ''t1'' TaskFailed None (Some (replicate 501 (CHR ''e''))) sample_memory)))) ''s'' = Inr m''"
  by (rule long_error_is_unrestorable[OF sample_time_laws sample_failed_update]) simp

end
