(* ===== verification/Task_Manager.thy ===== *)
theory Task_Manager
  imports Working_Memory
begin

text \<open>
  The sessions of the assistant
  (\<open>src/packages/ai-gateway-core/src/ai_gateway_core/tasks/task_manager.py\<close>). The code tells two session objects
  under one id apart by identity, so sessions are objects in a heap and the manager maps ids to addresses. A
  section between two awaits is one step; a step that needs the lock of a session waits, that is changes
  nothing, while a deletion holds it. Within a section the clock is read once. Logging and the event that
  wakes a cancelled task are left out.
\<close>

section \<open>The manager\<close>

record session_res =
  sr_session :: string
  sr_tenant :: string
  sr_user :: string
  sr_memory :: working_memory
  sr_tasks :: "string list"
  sr_contexts :: int
  sr_deleting :: bool
  sr_created :: py_time
  sr_activity :: py_time
  sr_timeout :: int
  sr_concurrent :: int

record task_context =
  tc_session :: string
  tc_started :: py_time
  tc_cancelled :: bool

record task_manager =
  tm_max :: int
  tm_timeout :: int
  tm_concurrent :: int
  tm_heap :: "session_res list"
  tm_sessions :: "(string, nat) py_dict"
  tm_contexts :: "(string, task_context) py_dict"

datatype session_error = SessionPermission | SessionDeletionBusy string

definition new_manager :: "int \<Rightarrow> int \<Rightarrow> int \<Rightarrow> task_manager" where
  "new_manager limit timeout concurrent =
     \<lparr>tm_max = limit, tm_timeout = timeout, tm_concurrent = concurrent, tm_heap = [], tm_sessions = [], tm_contexts = []\<rparr>"

definition session_expired :: "py_time \<Rightarrow> session_res \<Rightarrow> bool" where
  "session_expired now s = (of_int (sr_timeout s) < now - sr_activity s)"

definition session_busy :: "session_res \<Rightarrow> bool" where
  "session_busy s = (sr_tasks s \<noteq> [] \<or> sr_contexts s \<noteq> 0)"

definition upd_session :: "nat \<Rightarrow> (session_res \<Rightarrow> session_res) \<Rightarrow> task_manager \<Rightarrow> task_manager" where
  "upd_session oid f m = m\<lparr>tm_heap := (tm_heap m)[oid := f (tm_heap m ! oid)]\<rparr>"

definition touch :: "py_time \<Rightarrow> nat \<Rightarrow> task_manager \<Rightarrow> task_manager" where
  "touch now oid = upd_session oid (\<lambda>s. s\<lparr>sr_activity := now\<rparr>)"

definition wipe :: "nat \<Rightarrow> task_manager \<Rightarrow> task_manager" where
  "wipe oid = upd_session oid (\<lambda>s. s\<lparr>sr_memory := clear_memory (sr_memory s)\<rparr>)"

definition forget_contexts :: "string \<Rightarrow> task_manager \<Rightarrow> task_manager" where
  "forget_contexts sid m = m\<lparr>tm_contexts := filter (\<lambda>(t, c). tc_session c \<noteq> sid) (tm_contexts m)\<rparr>"

text \<open>\<open>pop\<close> the session, clear its memory and drop its task contexts.\<close>

definition drop_session :: "string \<Rightarrow> nat \<Rightarrow> task_manager \<Rightarrow> task_manager" where
  "drop_session sid oid m = forget_contexts sid (wipe oid (m\<lparr>tm_sessions := dict_pop sid (tm_sessions m)\<rparr>))"

section \<open>Making room\<close>

fun oldest_idle :: "task_manager \<Rightarrow> string option \<times> py_time \<Rightarrow> (string \<times> nat) list \<Rightarrow> string option \<times> py_time" where
  "oldest_idle m best [] = best"
| "oldest_idle m (i, t) ((sid, oid) # rest) =
     (let s = tm_heap m ! oid
      in oldest_idle m (if \<not> sr_deleting s \<and> \<not> session_busy s \<and> sr_activity s < t then (Some sid, sr_activity s)
                        else (i, t)) rest)"

text \<open>\<open>if oldest_id:\<close> is false of the empty id too.\<close>

definition evict_oldest :: "py_time \<Rightarrow> task_manager \<Rightarrow> task_manager" where
  "evict_oldest now m =
     (case fst (oldest_idle m (None, now) (tm_sessions m)) of
        None \<Rightarrow> m
      | Some sid \<Rightarrow> if sid = [] then m else drop_session sid (the (dict_get (tm_sessions m) sid)) m)"

definition sweepable :: "py_time \<Rightarrow> session_res \<Rightarrow> bool" where
  "sweepable now s = (session_expired now s \<and> \<not> sr_deleting s \<and> \<not> session_busy s)"

definition cleanup_expired_sessions :: "py_time \<Rightarrow> task_manager \<Rightarrow> task_manager" where
  "cleanup_expired_sessions now m =
     fold (\<lambda>(sid, oid). drop_session sid oid) (filter (\<lambda>(sid, oid). sweepable now (tm_heap m ! oid)) (tm_sessions m)) m"

section \<open>Sessions\<close>

definition create_session ::
  "py_time \<Rightarrow> string \<Rightarrow> string \<Rightarrow> string \<Rightarrow> int option \<Rightarrow> task_manager \<Rightarrow> nat \<times> task_manager" where
  "create_session now sid tenant user timeout m =
     (let m1 = (if tm_max m \<le> int (length (tm_sessions m)) then evict_oldest now m else m);
          oid = length (tm_heap m1);
          s = \<lparr>sr_session = sid, sr_tenant = tenant, sr_user = user, sr_memory = new_memory sid, sr_tasks = [],
             sr_contexts = 0, sr_deleting = False, sr_created = now, sr_activity = now,
             sr_timeout = (case timeout of None \<Rightarrow> tm_timeout m | Some t \<Rightarrow> if t = 0 then tm_timeout m else t),
             sr_concurrent = tm_concurrent m\<rparr>
      in (oid, m1\<lparr>tm_heap := tm_heap m1 @ [s], tm_sessions := dict_set sid oid (tm_sessions m1)\<rparr>))"

text \<open>An expired idle session is replaced; its task contexts are not dropped here.\<close>

definition get_or_create ::
  "py_time \<Rightarrow> string \<Rightarrow> string \<Rightarrow> string \<Rightarrow> int option \<Rightarrow> task_manager \<Rightarrow> (session_error + nat) \<times> task_manager" where
  "get_or_create now sid tenant user timeout m =
     (case dict_get (tm_sessions m) sid of
        None \<Rightarrow> (case create_session now sid tenant user timeout m of (oid, m') \<Rightarrow> (Inr oid, m'))
      | Some oid \<Rightarrow>
          (let s = tm_heap m ! oid in
           if sr_tenant s \<noteq> tenant \<or> sr_user s \<noteq> user then (Inl SessionPermission, m)
           else if sr_deleting s then (Inl (SessionDeletionBusy ''Session deletion is pending''), m)
           else if \<not> session_expired now s \<or> session_busy s then (Inr oid, m)
           else (case create_session now sid tenant user timeout
                   ((wipe oid m)\<lparr>tm_sessions := dict_pop sid (tm_sessions m)\<rparr>) of (oid', m') \<Rightarrow> (Inr oid', m'))))"

definition is_current :: "string \<Rightarrow> nat \<Rightarrow> task_manager \<Rightarrow> bool" where
  "is_current sid oid m = (dict_get (tm_sessions m) sid = Some oid)"

definition enter_context :: "py_time \<Rightarrow> string \<Rightarrow> nat \<Rightarrow> task_manager \<Rightarrow> (session_error + unit) \<times> task_manager" where
  "enter_context now sid oid m =
     (if \<not> is_current sid oid m \<or> sr_deleting (tm_heap m ! oid)
      then (Inl (SessionDeletionBusy ''Session deletion is pending''), m)
      else (Inr (), touch now oid (upd_session oid (\<lambda>s. s\<lparr>sr_contexts := sr_contexts s + 1\<rparr>) m)))"

definition leave_context :: "py_time \<Rightarrow> string \<Rightarrow> nat \<Rightarrow> task_manager \<Rightarrow> task_manager" where
  "leave_context now sid oid m =
     touch now oid (if is_current sid oid m
       then upd_session oid (\<lambda>s. s\<lparr>sr_contexts := max 0 (sr_contexts s - 1)\<rparr>) m else m)"

text \<open>\<open>get_session\<close>, with the owner to be enforced where one is given.\<close>

definition get_session :: "py_time \<Rightarrow> string \<Rightarrow> string option \<Rightarrow> string option \<Rightarrow> task_manager \<Rightarrow> nat option" where
  "get_session now sid tenant user m =
     (case dict_get (tm_sessions m) sid of
        None \<Rightarrow> None
      | Some oid \<Rightarrow>
          (let s = tm_heap m ! oid in
           if sr_deleting s \<or> session_expired now s \<and> \<not> session_busy s \<or>
              tenant \<noteq> None \<and> Some (sr_tenant s) \<noteq> tenant \<or> user \<noteq> None \<and> Some (sr_user s) \<noteq> user
           then None else Some oid))"

section \<open>Deletion\<close>

datatype fence_result = FenceRefused session_error | FenceRaised session_error | FenceHeld

text \<open>
  The entry of \<open>session_deletion_context\<close>: the first two errors are raised before the fence is owned, the
  third after, so that the fence has to be taken down in a section of its own.\<close>

definition raise_fence :: "string \<Rightarrow> nat \<Rightarrow> task_manager \<Rightarrow> fence_result \<times> task_manager" where
  "raise_fence sid oid m =
     (if \<not> is_current sid oid m then (FenceRefused (SessionDeletionBusy ''Session admission changed''), m)
      else if sr_deleting (tm_heap m ! oid)
      then (FenceRefused (SessionDeletionBusy ''Session deletion is already pending''), m)
      else ((if session_busy (tm_heap m ! oid)
             then FenceRaised (SessionDeletionBusy ''Session has active tasks or contexts'') else FenceHeld),
            upd_session oid (\<lambda>s. s\<lparr>sr_deleting := True\<rparr>) m))"

definition finish_deletion :: "string \<Rightarrow> nat \<Rightarrow> task_manager \<Rightarrow> (session_error + unit) \<times> task_manager" where
  "finish_deletion sid oid m =
     (if \<not> is_current sid oid m then (Inl (SessionDeletionBusy ''Session admission changed''), m)
      else if session_busy (tm_heap m ! oid)
      then (Inl (SessionDeletionBusy ''Session gained an active admission''), m)
      else (Inr (), drop_session sid oid m))"

definition lower_fence :: "string \<Rightarrow> nat \<Rightarrow> task_manager \<Rightarrow> task_manager" where
  "lower_fence sid oid m = (if is_current sid oid m then upd_session oid (\<lambda>s. s\<lparr>sr_deleting := False\<rparr>) m else m)"

text \<open>The section of \<open>delete_session\<close> under the locks, on the object it had looked up.\<close>

definition delete_session :: "string \<Rightarrow> nat \<Rightarrow> task_manager \<Rightarrow> bool \<times> task_manager" where
  "delete_session sid oid m =
     (if \<not> is_current sid oid m \<or> sr_deleting (tm_heap m ! oid) \<or> session_busy (tm_heap m ! oid) then (False, m)
      else (True, drop_session sid oid (upd_session oid (\<lambda>s. s\<lparr>sr_deleting := True\<rparr>) m)))"

section \<open>Tasks\<close>

definition register_task :: "py_time \<Rightarrow> string \<Rightarrow> nat \<Rightarrow> string \<Rightarrow> task_manager \<Rightarrow> bool \<times> task_manager" where
  "register_task now sid oid task m =
     (if \<not> is_current sid oid m \<or> sr_deleting (tm_heap m ! oid) then (False, m)
      else (True, (upd_session oid (\<lambda>s. s\<lparr>sr_tasks := List.insert task (sr_tasks s)\<rparr>) m)
              \<lparr>tm_contexts := dict_set task \<lparr>tc_session = sid, tc_started = now, tc_cancelled = False\<rparr> (tm_contexts m)\<rparr>))"

text \<open>The last section of \<open>complete_task\<close>; \<open>None\<close> stands for a session that was not found.\<close>

definition complete_task :: "string \<Rightarrow> nat option \<Rightarrow> string \<Rightarrow> task_manager \<Rightarrow> task_manager" where
  "complete_task sid found task m =
     (let m1 = (case found of
                  None \<Rightarrow> m
                | Some oid \<Rightarrow> if is_current sid oid m
                    then upd_session oid (\<lambda>s. s\<lparr>sr_tasks := removeAll task (sr_tasks s)\<rparr>) m else m)
      in m1\<lparr>tm_contexts := dict_pop task (tm_contexts m1)\<rparr>)"

definition cancel_task :: "string \<Rightarrow> nat \<Rightarrow> string \<Rightarrow> task_manager \<Rightarrow> bool \<times> task_manager" where
  "cancel_task sid oid task m =
     (case dict_get (tm_contexts m) task of
        None \<Rightarrow> (False, m)
      | Some c \<Rightarrow>
          (if is_current sid oid m \<and> tc_session c = sid
           then (True, m\<lparr>tm_contexts := dict_set task (c\<lparr>tc_cancelled := True\<rparr>) (tm_contexts m)\<rparr>)
           else (False, m)))"

definition stop_manager :: "task_manager \<Rightarrow> task_manager" where
  "stop_manager m = (fold (\<lambda>(sid, oid). wipe oid) (tm_sessions m) m)\<lparr>tm_sessions := [], tm_contexts := []\<rparr>"

section \<open>Interleavings\<close>

text \<open>
  What a caller is doing: waiting for admission with the session it was given, inside its context, about
  to delete it, holding the fence, or holding it after an exception. The last two hold the lock.\<close>

datatype tm_proc =
    ProcIdle
  | ProcGot string nat string string
  | ProcInside string nat string string
  | ProcDeleting string nat
  | ProcFenced string nat
  | ProcRaised string nat

fun holds_lock :: "nat \<Rightarrow> tm_proc \<Rightarrow> bool" where
  "holds_lock oid (ProcFenced sid o') = (o' = oid)"
| "holds_lock oid (ProcRaised sid o') = (o' = oid)"
| "holds_lock oid p = False"

fun inside :: "nat \<Rightarrow> tm_proc \<Rightarrow> bool" where
  "inside oid (ProcInside sid o' t u) = (o' = oid)"
| "inside oid p = False"

record tm_system =
  ts_mgr :: task_manager
  ts_procs :: "tm_proc list"

definition locked :: "nat \<Rightarrow> tm_system \<Rightarrow> bool" where
  "locked oid s = list_ex (holds_lock oid) (ts_procs s)"

definition set_tm_proc :: "nat \<Rightarrow> tm_proc \<Rightarrow> tm_system \<Rightarrow> tm_system" where
  "set_tm_proc pid p s = s\<lparr>ts_procs := (ts_procs s)[pid := p]\<rparr>"

definition tm_proc_of :: "nat \<Rightarrow> tm_system \<Rightarrow> tm_proc" where
  "tm_proc_of pid s = (if pid < length (ts_procs s) then ts_procs s ! pid else ProcIdle)"

datatype tm_event =
    TmOpen nat py_time string string string "int option"
  | TmEnter nat py_time
  | TmLeave nat py_time
  | TmOpenDelete nat py_time string string string
  | TmFence nat
  | TmFinish nat
  | TmAbort nat
  | TmLower nat
  | TmDelete string nat
  | TmRegister py_time string nat string
  | TmComplete string "nat option" string
  | TmCancel string nat string
  | TmSweep py_time
  | TmStop

fun tm_step :: "tm_event \<Rightarrow> tm_system \<Rightarrow> tm_system" where
  "tm_step (TmOpen pid now sid tenant user timeout) s =
     (if pid < length (ts_procs s) \<and> tm_proc_of pid s = ProcIdle
      then (case get_or_create now sid tenant user timeout (ts_mgr s) of
              (Inr oid, m) \<Rightarrow> set_tm_proc pid (ProcGot sid oid tenant user) (s\<lparr>ts_mgr := m\<rparr>)
            | (Inl e, m) \<Rightarrow> s\<lparr>ts_mgr := m\<rparr>)
      else s)"
| "tm_step (TmEnter pid now) s =
     (case tm_proc_of pid s of
        ProcGot sid oid t u \<Rightarrow>
          (if locked oid s then s
           else (case enter_context now sid oid (ts_mgr s) of
                   (Inr _, m) \<Rightarrow> set_tm_proc pid (ProcInside sid oid t u) (s\<lparr>ts_mgr := m\<rparr>)
                 | (Inl e, m) \<Rightarrow> set_tm_proc pid ProcIdle (s\<lparr>ts_mgr := m\<rparr>)))
      | _ \<Rightarrow> s)"
| "tm_step (TmLeave pid now) s =
     (case tm_proc_of pid s of
        ProcInside sid oid t u \<Rightarrow>
          (if locked oid s then s else set_tm_proc pid ProcIdle (s\<lparr>ts_mgr := leave_context now sid oid (ts_mgr s)\<rparr>))
      | _ \<Rightarrow> s)"
| "tm_step (TmOpenDelete pid now sid tenant user) s =
     (if pid < length (ts_procs s) \<and> tm_proc_of pid s = ProcIdle
      then (case get_or_create now sid tenant user None (ts_mgr s) of
              (Inr oid, m) \<Rightarrow> set_tm_proc pid (ProcDeleting sid oid) (s\<lparr>ts_mgr := m\<rparr>)
            | (Inl e, m) \<Rightarrow> s\<lparr>ts_mgr := m\<rparr>)
      else s)"
| "tm_step (TmFence pid) s =
     (case tm_proc_of pid s of
        ProcDeleting sid oid \<Rightarrow>
          (if locked oid s then s
           else (case raise_fence sid oid (ts_mgr s) of
                   (FenceRefused e, m) \<Rightarrow> set_tm_proc pid ProcIdle (s\<lparr>ts_mgr := m\<rparr>)
                 | (FenceRaised e, m) \<Rightarrow> set_tm_proc pid (ProcRaised sid oid) (s\<lparr>ts_mgr := m\<rparr>)
                 | (FenceHeld, m) \<Rightarrow> set_tm_proc pid (ProcFenced sid oid) (s\<lparr>ts_mgr := m\<rparr>)))
      | _ \<Rightarrow> s)"
| "tm_step (TmFinish pid) s =
     (case tm_proc_of pid s of
        ProcFenced sid oid \<Rightarrow>
          (case finish_deletion sid oid (ts_mgr s) of
             (Inr _, m) \<Rightarrow> set_tm_proc pid ProcIdle (s\<lparr>ts_mgr := m\<rparr>)
           | (Inl e, m) \<Rightarrow> set_tm_proc pid (ProcRaised sid oid) (s\<lparr>ts_mgr := m\<rparr>))
      | _ \<Rightarrow> s)"
| "tm_step (TmAbort pid) s =
     (case tm_proc_of pid s of ProcFenced sid oid \<Rightarrow> set_tm_proc pid (ProcRaised sid oid) s | _ \<Rightarrow> s)"
| "tm_step (TmLower pid) s =
     (case tm_proc_of pid s of
        ProcRaised sid oid \<Rightarrow> set_tm_proc pid ProcIdle (s\<lparr>ts_mgr := lower_fence sid oid (ts_mgr s)\<rparr>)
      | _ \<Rightarrow> s)"
| "tm_step (TmDelete sid oid) s = (if locked oid s then s else s\<lparr>ts_mgr := snd (delete_session sid oid (ts_mgr s))\<rparr>)"
| "tm_step (TmRegister now sid oid task) s =
     (if locked oid s then s else s\<lparr>ts_mgr := snd (register_task now sid oid task (ts_mgr s))\<rparr>)"
| "tm_step (TmComplete sid found task) s =
     (if (case found of None \<Rightarrow> False | Some oid \<Rightarrow> locked oid s) then s
      else s\<lparr>ts_mgr := complete_task sid found task (ts_mgr s)\<rparr>)"
| "tm_step (TmCancel sid oid task) s =
     (if locked oid s then s else s\<lparr>ts_mgr := snd (cancel_task sid oid task (ts_mgr s))\<rparr>)"
| "tm_step (TmSweep now) s = s\<lparr>ts_mgr := cleanup_expired_sessions now (ts_mgr s)\<rparr>"
| "tm_step TmStop s = s\<lparr>ts_mgr := stop_manager (ts_mgr s)\<rparr>"

definition tm_init :: "int \<Rightarrow> int \<Rightarrow> int \<Rightarrow> nat \<Rightarrow> tm_system" where
  "tm_init limit timeout concurrent n =
     \<lparr>ts_mgr = new_manager limit timeout concurrent, ts_procs = replicate n ProcIdle\<rparr>"

abbreviation tm_run :: "tm_event list \<Rightarrow> tm_system \<Rightarrow> tm_system" where
  "tm_run \<equiv> fold tm_step"

section \<open>The invariant\<close>

abbreviation session_at :: "nat \<Rightarrow> task_manager \<Rightarrow> session_res" where
  "session_at oid m \<equiv> tm_heap m ! oid"

definition mgr_ok :: "task_manager \<Rightarrow> bool" where
  "mgr_ok m \<longleftrightarrow> dict_ok (tm_sessions m) \<and>
     (\<forall>sid oid. is_current sid oid m \<longrightarrow> oid < length (tm_heap m) \<and> sr_session (session_at oid m) = sid)"

fun proc_ok :: "task_manager \<Rightarrow> tm_proc \<Rightarrow> bool" where
  "proc_ok m ProcIdle = True"
| "proc_ok m (ProcGot sid oid t u) = (oid < length (tm_heap m) \<and> sr_session (session_at oid m) = sid \<and>
     sr_tenant (session_at oid m) = t \<and> sr_user (session_at oid m) = u)"
| "proc_ok m (ProcInside sid oid t u) = (oid < length (tm_heap m) \<and> sr_session (session_at oid m) = sid \<and>
     sr_tenant (session_at oid m) = t \<and> sr_user (session_at oid m) = u)"
| "proc_ok m (ProcDeleting sid oid) = (oid < length (tm_heap m) \<and> sr_session (session_at oid m) = sid)"
| "proc_ok m (ProcFenced sid oid) = (oid < length (tm_heap m) \<and> sr_session (session_at oid m) = sid \<and>
     (is_current sid oid m \<longrightarrow> \<not> session_busy (session_at oid m)))"
| "proc_ok m (ProcRaised sid oid) = (oid < length (tm_heap m) \<and> sr_session (session_at oid m) = sid)"

definition inside_count :: "nat \<Rightarrow> tm_proc list \<Rightarrow> nat" where
  "inside_count oid ps = length (filter (inside oid) ps)"

definition lock_count :: "nat \<Rightarrow> tm_proc list \<Rightarrow> nat" where
  "lock_count oid ps = length (filter (holds_lock oid) ps)"

definition tm_ok :: "tm_system \<Rightarrow> bool" where
  "tm_ok s \<longleftrightarrow> mgr_ok (ts_mgr s) \<and> (\<forall>p \<in> set (ts_procs s). proc_ok (ts_mgr s) p) \<and>
     (\<forall>oid. lock_count oid (ts_procs s) \<le> 1) \<and>
     (\<forall>sid oid. is_current sid oid (ts_mgr s) \<longrightarrow>
        sr_contexts (session_at oid (ts_mgr s)) = int (inside_count oid (ts_procs s)) \<and>
        sr_deleting (session_at oid (ts_mgr s)) = (0 < lock_count oid (ts_procs s)))"

section \<open>What the sections of the manager change\<close>

definition same_owner :: "session_res \<Rightarrow> session_res \<Rightarrow> bool" where
  "same_owner s s' \<longleftrightarrow> sr_session s' = sr_session s \<and> sr_tenant s' = sr_tenant s \<and> sr_user s' = sr_user s"

definition same_admission :: "session_res \<Rightarrow> session_res \<Rightarrow> bool" where
  "same_admission s s' \<longleftrightarrow> sr_tasks s' = sr_tasks s \<and> sr_contexts s' = sr_contexts s \<and> sr_deleting s' = sr_deleting s"

definition fresh_session :: "session_res \<Rightarrow> bool" where
  "fresh_session s \<longleftrightarrow> sr_tasks s = [] \<and> sr_contexts s = 0 \<and> \<not> sr_deleting s"

text \<open>
  A section that admits nobody: sessions may go and new ones may come, with nobody in them; the objects
  keep their owners, those that stay keep their admissions, and no session in use goes.\<close>

definition tidies :: "task_manager \<Rightarrow> task_manager \<Rightarrow> bool" where
  "tidies m m' \<longleftrightarrow> mgr_ok m' \<and> length (tm_heap m) \<le> length (tm_heap m') \<and>
     (\<forall>oid < length (tm_heap m). same_owner (session_at oid m) (session_at oid m')) \<and>
     (\<forall>sid oid. is_current sid oid m' \<longrightarrow>
        is_current sid oid m \<and> same_admission (session_at oid m) (session_at oid m') \<or>
        length (tm_heap m) \<le> oid \<and> fresh_session (session_at oid m'))"

definition in_use :: "session_res \<Rightarrow> bool" where
  "in_use s \<longleftrightarrow> session_busy s \<or> sr_deleting s"

definition keeps_held :: "task_manager \<Rightarrow> task_manager \<Rightarrow> bool" where
  "keeps_held m m' \<longleftrightarrow> (\<forall>sid oid. is_current sid oid m \<longrightarrow> in_use (session_at oid m) \<longrightarrow> is_current sid oid m')"

lemma mgr_okD: "mgr_ok m \<Longrightarrow> is_current sid oid m \<Longrightarrow> oid < length (tm_heap m) \<and> sr_session (session_at oid m) = sid"
  by (simp add: mgr_ok_def)

lemma upd_session_simps [simp]:
  "tm_sessions (upd_session oid f m) = tm_sessions m" "tm_contexts (upd_session oid f m) = tm_contexts m"
  "length (tm_heap (upd_session oid f m)) = length (tm_heap m)" "tm_max (upd_session oid f m) = tm_max m"
  "is_current sid o' (upd_session oid f m) = is_current sid o' m"
  by (simp_all add: upd_session_def is_current_def)

lemma session_at_upd:
  "o' < length (tm_heap m) \<Longrightarrow> session_at o' (upd_session oid f m) = (if o' = oid then f (session_at oid m) else session_at o' m)"
  by (simp add: upd_session_def nth_list_update)

lemma wipe_simps [simp]:
  "tm_sessions (wipe oid m) = tm_sessions m" "tm_contexts (wipe oid m) = tm_contexts m"
  "length (tm_heap (wipe oid m)) = length (tm_heap m)" "is_current sid o' (wipe oid m) = is_current sid o' m"
  "tm_max (wipe oid m) = tm_max m"
  by (simp_all add: wipe_def)

lemma wipe_at:
  "o' < length (tm_heap m) \<Longrightarrow> same_owner (session_at o' m) (session_at o' (wipe oid m)) \<and>
     same_admission (session_at o' m) (session_at o' (wipe oid m)) \<and>
     sr_activity (session_at o' (wipe oid m)) = sr_activity (session_at o' m)"
  by (simp add: wipe_def session_at_upd same_owner_def same_admission_def)

lemma drop_session_simps:
  "tm_sessions (drop_session sid oid m) = dict_pop sid (tm_sessions m)"
  "tm_heap (drop_session sid oid m) = tm_heap (wipe oid m)"
  "is_current i o' (drop_session sid oid m) \<longleftrightarrow> is_current i o' m \<and> i \<noteq> sid"
  by (auto simp: drop_session_def forget_contexts_def wipe_def upd_session_def is_current_def dict_get_pop split: if_splits)

lemma tidies_refl: "mgr_ok m \<Longrightarrow> tidies m m"
  by (simp add: tidies_def same_owner_def same_admission_def)

lemma same_owner_trans: "same_owner a b \<Longrightarrow> same_owner b c \<Longrightarrow> same_owner a c"
  by (simp add: same_owner_def)

lemma same_admission_trans: "same_admission a b \<Longrightarrow> same_admission b c \<Longrightarrow> same_admission a c"
  by (simp add: same_admission_def)

lemma fresh_same_admission: "fresh_session a \<Longrightarrow> same_admission a b \<Longrightarrow> fresh_session b"
  by (simp add: same_admission_def fresh_session_def)

lemma tidies_trans:
  assumes "tidies m1 m2" "tidies m2 m3"
  shows "tidies m1 m3"
proof -
  note t = assms[unfolded tidies_def]
  have len: "length (tm_heap m1) \<le> length (tm_heap m3)" using t by linarith
  have own: "same_owner (session_at oid m1) (session_at oid m3)" if "oid < length (tm_heap m1)" for oid
    using t that by (meson less_le_trans same_owner_trans)
  have "is_current sid oid m1 \<and> same_admission (session_at oid m1) (session_at oid m3) \<or>
        length (tm_heap m1) \<le> oid \<and> fresh_session (session_at oid m3)" if "is_current sid oid m3" for sid oid
  proof -
    from t that consider "is_current sid oid m2" "same_admission (session_at oid m2) (session_at oid m3)"
      | "length (tm_heap m2) \<le> oid" "fresh_session (session_at oid m3)" by blast
    then show ?thesis
    proof cases
      case 1
      then show ?thesis using t same_admission_trans fresh_same_admission by blast
    next
      case 2
      then show ?thesis using t by (meson le_trans)
    qed
  qed
  then show ?thesis using len own t by (auto simp: tidies_def)
qed

lemma same_admission_held: "same_admission a b \<Longrightarrow> in_use b = in_use a"
  by (simp add: same_admission_def in_use_def session_busy_def)

lemma keeps_held_trans:
  assumes "mgr_ok m1" "tidies m1 m2" "keeps_held m1 m2" "keeps_held m2 m3"
  shows "keeps_held m1 m3"
  unfolding keeps_held_def
proof (intro allI impI)
  fix sid oid
  assume c: "is_current sid oid m1" "in_use (session_at oid m1)"
  then have c2: "is_current sid oid m2" using assms(3) by (simp add: keeps_held_def)
  have "oid < length (tm_heap m1)" using mgr_okD[OF assms(1) c(1)] by blast
  then have "same_admission (session_at oid m1) (session_at oid m2)"
    using assms(2) c2 unfolding tidies_def by (meson not_less)
  then have "in_use (session_at oid m2)" using c(2) same_admission_held by blast
  then show "is_current sid oid m3" using assms(4) c2 by (simp add: keeps_held_def)
qed

lemma drop_session_tidies:
  assumes "mgr_ok m"
  shows "tidies m (drop_session sid oid m)"
proof -
  have "mgr_ok (drop_session sid oid m)"
    using assms wipe_at[of _ m oid] unfolding mgr_ok_def drop_session_simps by (auto simp: same_owner_def)
  moreover have "o' < length (tm_heap m)" if "is_current i o' m" for i o' using mgr_okD[OF assms that] by blast
  ultimately show ?thesis
    using wipe_at[of _ m oid] by (auto simp: tidies_def drop_session_simps)
qed

lemma tidies_ok: "tidies m m' \<Longrightarrow> mgr_ok m'"
  by (simp add: tidies_def)

lemma oldest_idle_cases:
  "fst (oldest_idle m (b, t) xs) = b \<or>
     (\<exists>sid oid. fst (oldest_idle m (b, t) xs) = Some sid \<and> (sid, oid) \<in> set xs \<and> \<not> in_use (session_at oid m))"
proof (induction xs arbitrary: b t)
  case (Cons x xs)
  obtain sid oid where x: "x = (sid, oid)" by (cases x)
  show ?case
  proof (cases "\<not> sr_deleting (session_at oid m) \<and> \<not> session_busy (session_at oid m) \<and> sr_activity (session_at oid m) < t")
    case True
    then show ?thesis
      using Cons.IH[of "Some sid" "sr_activity (session_at oid m)"] by (auto simp: x Let_def in_use_def)
  next
    case False
    then show ?thesis using Cons.IH[of b t] by (auto simp: x Let_def)
  qed
qed simp

lemma current_iff_member: "mgr_ok m \<Longrightarrow> (sid, oid) \<in> set (tm_sessions m) \<longleftrightarrow> is_current sid oid m"
  using dict_get_iff[of "tm_sessions m"] by (simp add: mgr_ok_def is_current_def)

lemma evict_oldest_tidies:
  assumes "mgr_ok m"
  shows "tidies m (evict_oldest now m) \<and> keeps_held m (evict_oldest now m)"
proof (cases "fst (oldest_idle m (None, now) (tm_sessions m))")
  case None
  then show ?thesis using tidies_refl[OF assms] by (simp add: evict_oldest_def keeps_held_def)
next
  case (Some sid)
  then obtain oid where o: "(sid, oid) \<in> set (tm_sessions m)" "\<not> in_use (session_at oid m)"
    using oldest_idle_cases[of m None now "tm_sessions m"] by auto
  have c: "is_current sid oid m" using o(1) current_iff_member[OF assms] by blast
  then have uniq: "o' = oid" if "is_current sid o' m" for o' using that by (simp add: is_current_def)
  have "keeps_held m (drop_session sid oid m)"
    using uniq o(2) by (auto simp: keeps_held_def drop_session_simps)
  then show ?thesis
    using Some c drop_session_tidies[OF assms, of sid oid] tidies_refl[OF assms]
    by (auto simp: evict_oldest_def is_current_def keeps_held_def)
qed

lemma fold_drop_tidies: "mgr_ok m \<Longrightarrow> tidies m (fold (\<lambda>(sid, oid). drop_session sid oid) xs m)"
proof (induction xs arbitrary: m)
  case (Cons x xs)
  show ?case
    using tidies_trans[OF drop_session_tidies[OF Cons.prems] Cons.IH[OF tidies_ok[OF drop_session_tidies[OF Cons.prems]]]]
    by (cases x) simp
qed (simp add: tidies_refl)

lemma fold_drop_current:
  "is_current i oid (fold (\<lambda>(sid, oid). drop_session sid oid) xs m) \<longleftrightarrow> is_current i oid m \<and> i \<notin> fst ` set xs"
  by (induction xs arbitrary: m) (auto simp: drop_session_simps split: prod.splits)

lemma cleanup_tidies:
  assumes "mgr_ok m"
  shows "tidies m (cleanup_expired_sessions now m) \<and> keeps_held m (cleanup_expired_sessions now m)"
proof -
  have "keeps_held m (cleanup_expired_sessions now m)"
    unfolding keeps_held_def cleanup_expired_sessions_def fold_drop_current
  proof (intro allI impI conjI notI)
    fix sid oid
    assume c: "is_current sid oid m" "in_use (session_at oid m)"
      and "sid \<in> fst ` set (filter (\<lambda>(sid, oid). sweepable now (session_at oid m)) (tm_sessions m))"
    then obtain o' where "(sid, o') \<in> set (tm_sessions m)" "sweepable now (session_at o' m)" by auto
    moreover from this have "o' = oid" using c(1) current_iff_member[OF assms] by (auto simp: is_current_def)
    ultimately show False using c(2) by (simp add: sweepable_def in_use_def)
  qed
  then show ?thesis using fold_drop_tidies[OF assms] by (simp add: cleanup_expired_sessions_def)
qed

lemma create_session_spec:
  assumes "mgr_ok m" "dict_get (tm_sessions m) sid = None"
    and "create_session now sid tenant user timeout m = (oid, m')"
  shows "tidies m m' \<and> keeps_held m m' \<and> oid < length (tm_heap m') \<and> is_current sid oid m' \<and>
     sr_session (session_at oid m') = sid \<and> sr_tenant (session_at oid m') = tenant \<and> sr_user (session_at oid m') = user"
proof -
  define m1 where "m1 = (if tm_max m \<le> int (length (tm_sessions m)) then evict_oldest now m else m)"
  have t1: "tidies m m1" "keeps_held m m1"
    using evict_oldest_tidies[OF assms(1)] tidies_refl[OF assms(1)] by (auto simp: m1_def keeps_held_def)
  note ok1 = tidies_ok[OF t1(1)]
  define s where "s = \<lparr>sr_session = sid, sr_tenant = tenant, sr_user = user, sr_memory = new_memory sid, sr_tasks = [],
             sr_contexts = 0, sr_deleting = False, sr_created = now, sr_activity = now,
             sr_timeout = (case timeout of None \<Rightarrow> tm_timeout m | Some t \<Rightarrow> if t = 0 then tm_timeout m else t),
             sr_concurrent = tm_concurrent m\<rparr>"
  have s: "fresh_session s" "sr_session s = sid" "sr_tenant s = tenant" "sr_user s = user"
    by (simp_all add: s_def fresh_session_def)
  have oid: "oid = length (tm_heap m1)"
    and m': "m' = m1\<lparr>tm_heap := tm_heap m1 @ [s], tm_sessions := dict_set sid oid (tm_sessions m1)\<rparr>"
    using assms(3) unfolding create_session_def Let_def m1_def[symmetric] s_def[symmetric] by auto
  have none: "\<not> is_current sid o' m1" for o'
  proof
    assume c: "is_current sid o' m1"
    have "mgr_ok m1 \<and> length (tm_heap m1) = length (tm_heap m)"
      using ok1 by (auto simp: m1_def evict_oldest_def drop_session_simps split: option.splits)
    then have "o' < length (tm_heap m)" using mgr_okD c by metis
    moreover have "\<not> is_current sid o' m" using assms(2) by (simp add: is_current_def)
    ultimately show False using t1(1) c unfolding tidies_def by (meson not_less)
  qed
  have cur: "is_current i o' m' \<longleftrightarrow> (if i = sid then o' = oid else is_current i o' m1)" for i o'
    by (auto simp: m' is_current_def dict_get_set)
  have at: "session_at o' m' = (if o' < length (tm_heap m1) then session_at o' m1 else s)" if "o' \<le> length (tm_heap m1)" for o'
    using that by (simp add: m' nth_append)
  have bound: "is_current i o' m1 \<Longrightarrow> o' < length (tm_heap m1) \<and> sr_session (session_at o' m1) = i" for i o'
    using mgr_okD[OF ok1] by blast
  have "mgr_ok m'"
    unfolding mgr_ok_def
  proof (intro conjI allI impI)
    show "dict_ok (tm_sessions m')" using ok1 by (simp add: m' mgr_ok_def)
    fix i o'
    assume "is_current i o' m'"
    then show "o' < length (tm_heap m')" "sr_session (session_at o' m') = i"
      using cur bound[of i o'] s(2) at[of o'] oid by (auto simp: m' split: if_splits)
  qed
  then have "tidies m1 m'"
    unfolding tidies_def
  proof (intro conjI allI impI)
    show "length (tm_heap m1) \<le> length (tm_heap m')" by (simp add: m')
    show "same_owner (session_at o' m1) (session_at o' m')" if "o' < length (tm_heap m1)" for o'
      using that at by (simp add: same_owner_def)
    show "is_current i o' m1 \<and> same_admission (session_at o' m1) (session_at o' m') \<or>
        length (tm_heap m1) \<le> o' \<and> fresh_session (session_at o' m')" if "is_current i o' m'" for i o'
    proof (cases "i = sid")
      case True
      then show ?thesis using that cur at[of oid] s(1) oid by simp
    next
      case False
      then have "is_current i o' m1" using that cur by simp
      then show ?thesis using bound[of i o'] at[of o'] by (simp add: same_admission_def)
    qed
  qed
  moreover have "keeps_held m1 m'" using none cur by (auto simp: keeps_held_def)
  ultimately have "tidies m m' \<and> keeps_held m m'"
    using tidies_trans[OF t1(1)] keeps_held_trans[OF assms(1) t1] by blast
  moreover have "oid < length (tm_heap m') \<and> session_at oid m' = s" using at[of oid] oid by (simp add: m')
  ultimately show ?thesis using cur s by simp
qed

lemma get_or_create_spec:
  assumes "mgr_ok m" "get_or_create now sid tenant user timeout m = (r, m')"
  shows "tidies m m' \<and> keeps_held m m' \<and>
     (case r of Inl e \<Rightarrow> m' = m
      | Inr oid \<Rightarrow> oid < length (tm_heap m') \<and> is_current sid oid m' \<and> sr_session (session_at oid m') = sid \<and>
          sr_tenant (session_at oid m') = tenant \<and> sr_user (session_at oid m') = user)"
proof (cases "dict_get (tm_sessions m) sid")
  case None
  then obtain oid where "create_session now sid tenant user timeout m = (oid, m')" "r = Inr oid"
    using assms(2) by (auto simp: get_or_create_def split: prod.splits)
  then show ?thesis using create_session_spec[OF assms(1) None] by simp
next
  case (Some oid)
  have b: "oid < length (tm_heap m)" "sr_session (session_at oid m) = sid"
    using mgr_okD[OF assms(1)] Some by (auto simp: is_current_def)
  have refl: "tidies m m" "keeps_held m m" using tidies_refl[OF assms(1)] by (simp_all add: keeps_held_def)
  define m0 where "m0 = (wipe oid m)\<lparr>tm_sessions := dict_pop sid (tm_sessions m)\<rparr>"
  show ?thesis
  proof (cases "sr_tenant (session_at oid m) \<noteq> tenant \<or> sr_user (session_at oid m) \<noteq> user \<or> sr_deleting (session_at oid m) \<or>
      \<not> session_expired now (session_at oid m) \<or> session_busy (session_at oid m)")
    case True
    then show ?thesis using assms(2) Some b refl by (auto simp: get_or_create_def Let_def is_current_def split: if_splits)
  next
    case False
    then obtain oid' where c: "create_session now sid tenant user timeout m0 = (oid', m')" "r = Inr oid'"
      using assms(2) Some by (auto simp: get_or_create_def Let_def m0_def split: prod.splits)
    have d: "tidies m (drop_session sid oid m)" by (rule drop_session_tidies[OF assms(1)])
    have same: "tm_heap m0 = tm_heap (drop_session sid oid m)" "is_current i o' m0 = is_current i o' (drop_session sid oid m)"
        "dict_ok (tm_sessions m0)" for i o'
      using assms(1) by (auto simp: m0_def drop_session_simps wipe_def upd_session_def is_current_def dict_get_pop mgr_ok_def
          split: if_splits)
    have t: "tidies m m0" using d unfolding tidies_def mgr_ok_def same(1,2) using same(3) by blast
    have "keeps_held m m0"
      unfolding keeps_held_def same(2) drop_session_simps
    proof (intro allI impI conjI notI)
      fix i o'
      assume "is_current i o' m" "in_use (session_at o' m)" "i = sid"
      then have "o' = oid" using Some by (simp add: is_current_def)
      then show False using False \<open>in_use (session_at o' m)\<close> by (simp add: in_use_def)
    qed
    moreover have "dict_get (tm_sessions m0) sid = None" by (simp add: m0_def dict_get_pop)
    ultimately show ?thesis
      using create_session_spec[OF tidies_ok[OF t] _ c(1)] c(2) tidies_trans[OF t] keeps_held_trans[OF assms(1) t] by auto
  qed
qed

section \<open>Every step keeps the invariant\<close>

lemma tm_okD:
  assumes "tm_ok s"
  shows "mgr_ok (ts_mgr s)" "p \<in> set (ts_procs s) \<Longrightarrow> proc_ok (ts_mgr s) p" "lock_count oid (ts_procs s) \<le> 1"
    "is_current sid oid (ts_mgr s) \<Longrightarrow> sr_contexts (session_at oid (ts_mgr s)) = int (inside_count oid (ts_procs s))"
    "is_current sid oid (ts_mgr s) \<Longrightarrow> sr_deleting (session_at oid (ts_mgr s)) = (0 < lock_count oid (ts_procs s))"
  using assms by (auto simp: tm_ok_def)

lemma locked_count: "locked oid s \<longleftrightarrow> 0 < lock_count oid (ts_procs s)"
  by (auto simp: locked_def lock_count_def list_ex_iff filter_empty_conv)

lemma tm_proc_ofD: "tm_proc_of pid s = p \<Longrightarrow> p \<noteq> ProcIdle \<Longrightarrow> pid < length (ts_procs s) \<and> p \<in> set (ts_procs s) \<and> ts_procs s ! pid = p"
  by (auto simp: tm_proc_of_def split: if_splits)

lemma outside_heap:
  assumes "tm_ok s" "length (tm_heap (ts_mgr s)) \<le> oid"
  shows "inside_count oid (ts_procs s) = 0 \<and> lock_count oid (ts_procs s) = 0"
proof -
  have "\<not> inside oid p \<and> \<not> holds_lock oid p" if "p \<in> set (ts_procs s)" for p
    using tm_okD(2)[OF assms(1) that] assms(2) by (cases p) auto
  then show ?thesis by (simp add: inside_count_def lock_count_def filter_empty_conv)
qed

lemma proc_ok_tidies:
  assumes "tidies m m'" "proc_ok m p"
  shows "proc_ok m' p"
proof -
  note t = assms(1)[unfolded tidies_def]
  have own: "oid < length (tm_heap m) \<Longrightarrow> oid < length (tm_heap m') \<and> same_owner (session_at oid m) (session_at oid m')" for oid
    using t by auto
  show ?thesis
  proof (cases p)
    case (ProcFenced sid oid)
    then have o: "oid < length (tm_heap m)" "is_current sid oid m \<longrightarrow> \<not> session_busy (session_at oid m)"
      using assms(2) by auto
    have "\<not> session_busy (session_at oid m')" if "is_current sid oid m'"
    proof -
      have "is_current sid oid m \<and> same_admission (session_at oid m) (session_at oid m')"
        using t that o(1) by (meson not_less)
      then show ?thesis using o(2) by (simp add: same_admission_def session_busy_def)
    qed
    then show ?thesis using assms(2) own[OF o(1)] ProcFenced by (simp add: same_owner_def)
  qed (use assms(2) own in \<open>auto simp: same_owner_def\<close>)
qed

lemma tm_ok_tidies:
  assumes "tm_ok s" "tidies (ts_mgr s) m'"
  shows "tm_ok (s\<lparr>ts_mgr := m'\<rparr>)"
proof -
  note t = assms(2)[unfolded tidies_def]
  have "sr_contexts (session_at oid m') = int (inside_count oid (ts_procs s)) \<and>
        sr_deleting (session_at oid m') = (0 < lock_count oid (ts_procs s))" if "is_current sid oid m'" for sid oid
  proof -
    from t that consider "is_current sid oid (ts_mgr s)" "same_admission (session_at oid (ts_mgr s)) (session_at oid m')"
      | "length (tm_heap (ts_mgr s)) \<le> oid" "fresh_session (session_at oid m')" by blast
    then show ?thesis
      by cases (use tm_okD(4,5)[OF assms(1)] outside_heap[OF assms(1)] in
        \<open>simp_all add: same_admission_def fresh_session_def\<close>)
  qed
  then show ?thesis
    using assms t proc_ok_tidies[OF assms(2)] by (simp add: tm_ok_def)
qed

text \<open>A process moves without entering a context, leaving one, taking a lock or giving one back.\<close>

lemma tm_ok_move:
  assumes "tm_ok s" "pid < length (ts_procs s)" "proc_ok (ts_mgr s) q"
    and "\<And>oid. inside oid q = inside oid (ts_procs s ! pid)" "\<And>oid. holds_lock oid q = holds_lock oid (ts_procs s ! pid)"
  shows "tm_ok (set_tm_proc pid q s)"
proof -
  have "inside_count oid ((ts_procs s)[pid := q]) = inside_count oid (ts_procs s)"
    "lock_count oid ((ts_procs s)[pid := q]) = lock_count oid (ts_procs s)" for oid
    using length_filter_update[OF assms(2), of "inside oid" q] length_filter_update[OF assms(2), of "holds_lock oid" q] assms(4,5)
    by (simp_all add: inside_count_def lock_count_def split: if_splits)
  moreover have "\<forall>p \<in> set ((ts_procs s)[pid := q]). proc_ok (ts_mgr s) p"
    using assms(1,3) set_update_subset_insert[of "ts_procs s" pid q] by (auto simp: tm_ok_def)
  ultimately show ?thesis using assms(1) by (simp add: tm_ok_def set_tm_proc_def)
qed

text \<open>
  One session object changes, and with it the process that changes it: the object keeps its owner, its
  counters follow the process, and if the process holds the fence nobody is admitted.\<close>

lemma tm_ok_change:
  assumes "tm_ok s" "pid < length (ts_procs s)" "oid < length (tm_heap (ts_mgr s))"
    and f: "same_owner (session_at oid (ts_mgr s)) (f (session_at oid (ts_mgr s)))"
    and q: "\<And>m. proc_ok m (ts_procs s ! pid) \<Longrightarrow> mgr_ok m \<Longrightarrow> m = upd_session oid f (ts_mgr s) \<Longrightarrow> proc_ok m q"
    and other: "\<And>o'. o' \<noteq> oid \<Longrightarrow> inside o' q = inside o' (ts_procs s ! pid) \<and> holds_lock o' q = holds_lock o' (ts_procs s ! pid)"
    and lock: "lock_count oid ((ts_procs s)[pid := q]) \<le> 1"
    and cur: "\<And>sid. is_current sid oid (ts_mgr s) \<Longrightarrow>
        sr_contexts (f (session_at oid (ts_mgr s))) = int (inside_count oid ((ts_procs s)[pid := q])) \<and>
        sr_deleting (f (session_at oid (ts_mgr s))) = (0 < lock_count oid ((ts_procs s)[pid := q]))"
    and fenced: "\<And>sid p. p \<in> set (ts_procs s) \<Longrightarrow> p = ProcFenced sid oid \<Longrightarrow> is_current sid oid (ts_mgr s) \<Longrightarrow>
        \<not> session_busy (session_at oid (ts_mgr s)) \<Longrightarrow> \<not> session_busy (f (session_at oid (ts_mgr s)))"
  shows "tm_ok (set_tm_proc pid q (s\<lparr>ts_mgr := upd_session oid f (ts_mgr s)\<rparr>))"
proof -
  let ?m = "ts_mgr s" and ?m' = "upd_session oid f (ts_mgr s)" and ?ps = "(ts_procs s)[pid := q]"
  have at: "o' < length (tm_heap ?m) \<Longrightarrow> session_at o' ?m' = (if o' = oid then f (session_at oid ?m) else session_at o' ?m)" for o'
    by (rule session_at_upd)
  have mok: "mgr_ok ?m'"
    using tm_okD(1)[OF assms(1)] f at by (auto simp: mgr_ok_def same_owner_def)
  have keep: "proc_ok ?m' p" if "p \<in> set (ts_procs s)" for p
  proof -
    have ok: "proc_ok ?m p" using tm_okD(2)[OF assms(1) that] .
    show ?thesis
    proof (cases p)
      case (ProcFenced sid o')
      then have b: "o' < length (tm_heap ?m)" "is_current sid o' ?m \<longrightarrow> \<not> session_busy (session_at o' ?m)"
          "sr_session (session_at o' ?m) = sid" using ok by auto
      then show ?thesis using at[OF b(1)] f fenced[OF that, of sid] by (auto simp: ProcFenced same_owner_def)
    qed (use ok at f in \<open>auto simp: same_owner_def\<close>)
  qed
  have procs: "\<forall>p \<in> set ?ps. proc_ok ?m' p"
  proof
    fix p
    assume "p \<in> set ?ps"
    then consider "p = q" | "p \<in> set (ts_procs s)" using set_update_subset_insert[of "ts_procs s" pid q] by auto
    then show "proc_ok ?m' p"
    proof cases
      case 1
      have "ts_procs s ! pid \<in> set (ts_procs s)" using assms(2) by simp
      then show ?thesis using 1 q[OF _ mok refl] keep by blast
    qed (rule keep)
  qed
  have same: "inside_count o' ?ps = inside_count o' (ts_procs s)" "lock_count o' ?ps = lock_count o' (ts_procs s)" if "o' \<noteq> oid" for o'
    using length_filter_update[OF assms(2), of "inside o'" q] length_filter_update[OF assms(2), of "holds_lock o'" q] other[OF that]
    by (simp_all add: inside_count_def lock_count_def split: if_splits)
  have locks: "lock_count o' ?ps \<le> 1" for o'
    using lock same(2)[of o'] tm_okD(3)[OF assms(1), of o'] by (cases "o' = oid") simp_all
  have counts: "sr_contexts (session_at o' ?m') = int (inside_count o' ?ps) \<and>
        sr_deleting (session_at o' ?m') = (0 < lock_count o' ?ps)" if "is_current sid o' ?m'" for sid o'
  proof -
    have c: "is_current sid o' ?m" using that by simp
    have b: "o' < length (tm_heap ?m)" using mgr_okD[OF tm_okD(1)[OF assms(1)] c] by blast
    show ?thesis
      using at[OF b] cur[of sid] same[of o'] c tm_okD(4,5)[OF assms(1) c] by (cases "o' = oid") simp_all
  qed
  show ?thesis using mok procs locks counts by (simp add: tm_ok_def set_tm_proc_def)
qed

lemma not_locked: "\<not> locked oid s \<Longrightarrow> p \<in> set (ts_procs s) \<Longrightarrow> \<not> holds_lock oid p"
  by (auto simp: locked_def list_ex_iff)

lemma not_fenced: "\<not> locked oid s \<Longrightarrow> ProcFenced sid oid \<notin> set (ts_procs s)"
  using not_locked by fastforce

text \<open>A session object changes and no process does.\<close>

lemma tm_ok_admin:
  assumes "tm_ok s" "\<not> locked oid s" "oid < length (tm_heap (ts_mgr s))"
    and f: "same_owner (session_at oid (ts_mgr s)) (f (session_at oid (ts_mgr s)))"
      "sr_contexts (f (session_at oid (ts_mgr s))) = sr_contexts (session_at oid (ts_mgr s))"
      "sr_deleting (f (session_at oid (ts_mgr s))) = sr_deleting (session_at oid (ts_mgr s))"
  shows "tm_ok (s\<lparr>ts_mgr := upd_session oid f (ts_mgr s)\<rparr>)"
proof -
  let ?m = "ts_mgr s" and ?m' = "upd_session oid f (ts_mgr s)"
  have at: "o' < length (tm_heap ?m) \<Longrightarrow> session_at o' ?m' = (if o' = oid then f (session_at oid ?m) else session_at o' ?m)" for o'
    by (rule session_at_upd)
  have "proc_ok ?m' p" if "p \<in> set (ts_procs s)" for p
    using tm_okD(2)[OF assms(1) that] not_locked[OF assms(2) that] at f
    by (cases p) (auto simp: same_owner_def)
  moreover have "mgr_ok ?m'" using tm_okD(1)[OF assms(1)] f at by (auto simp: mgr_ok_def same_owner_def)
  moreover have "sr_contexts (session_at o' ?m') = int (inside_count o' (ts_procs s)) \<and>
      sr_deleting (session_at o' ?m') = (0 < lock_count o' (ts_procs s))" if "is_current sid o' ?m'" for sid o'
  proof -
    have c: "is_current sid o' ?m" using that by simp
    then show ?thesis
      using at[of o'] f mgr_okD[OF tm_okD(1)[OF assms(1)] c] tm_okD(4,5)[OF assms(1) c] by (cases "o' = oid") simp_all
  qed
  ultimately show ?thesis using assms(1) by (simp add: tm_ok_def)
qed

text \<open>A process gives back the lock of an object that is no session any more.\<close>

lemma tm_ok_release:
  assumes "tm_ok s" "pid < length (ts_procs s)" "\<And>sid. \<not> is_current sid oid (ts_mgr s)"
    and "\<And>o'. o' \<noteq> oid \<Longrightarrow> \<not> holds_lock o' (ts_procs s ! pid)" "\<And>o'. \<not> inside o' (ts_procs s ! pid)"
  shows "tm_ok (set_tm_proc pid ProcIdle s)"
proof -
  let ?ps = "(ts_procs s)[pid := ProcIdle]"
  have same: "inside_count o' ?ps = inside_count o' (ts_procs s)" "o' \<noteq> oid \<Longrightarrow> lock_count o' ?ps = lock_count o' (ts_procs s)" for o'
    using length_filter_update[OF assms(2), of "inside o'" ProcIdle] length_filter_update[OF assms(2), of "holds_lock o'" ProcIdle]
      assms(4)[of o'] assms(5)[of o'] by (simp_all add: inside_count_def lock_count_def)
  have locks: "lock_count o' ?ps \<le> 1" for o'
  proof -
    have "lock_count o' ?ps \<le> lock_count o' (ts_procs s)"
      using length_filter_update[OF assms(2), of "holds_lock o'" ProcIdle] by (simp add: lock_count_def)
    then show ?thesis using tm_okD(3)[OF assms(1), of o'] by linarith
  qed
  have "sr_contexts (session_at o' (ts_mgr s)) = int (inside_count o' ?ps) \<and>
      sr_deleting (session_at o' (ts_mgr s)) = (0 < lock_count o' ?ps)" if "is_current sid o' (ts_mgr s)" for sid o'
    using that assms(3) same tm_okD(4,5)[OF assms(1) that] by (cases "o' = oid") simp_all
  moreover have "\<forall>p \<in> set ?ps. proc_ok (ts_mgr s) p"
    using assms(1) set_update_subset_insert[of "ts_procs s" pid ProcIdle] by (auto simp: tm_ok_def)
  ultimately show ?thesis using assms(1) locks by (simp add: tm_ok_def set_tm_proc_def)
qed

lemma upd_upd: "oid < length (tm_heap m) \<Longrightarrow> upd_session oid f (upd_session oid g m) = upd_session oid (f \<circ> g) m"
  by (simp add: upd_session_def)

lemma drop_changed_tidies:
  assumes "mgr_ok m" "is_current sid oid m" "same_owner (session_at oid m) (f (session_at oid m))"
  shows "tidies m (drop_session sid oid (upd_session oid f m))"
proof -
  have b: "is_current i o' m \<Longrightarrow> o' < length (tm_heap m) \<and> sr_session (session_at o' m) = i" for i o'
    using mgr_okD[OF assms(1)] by blast
  have at: "o' < length (tm_heap m) \<Longrightarrow> session_at o' (upd_session oid f m) = (if o' = oid then f (session_at oid m) else session_at o' m)" for o'
    by (rule session_at_upd)
  have w: "o' < length (tm_heap m) \<Longrightarrow> same_owner (session_at o' (upd_session oid f m)) (session_at o' (wipe oid (upd_session oid f m))) \<and>
     same_admission (session_at o' (upd_session oid f m)) (session_at o' (wipe oid (upd_session oid f m)))" for o'
    using wipe_at[of o' "upd_session oid f m" oid] by simp
  have own: "o' < length (tm_heap m) \<Longrightarrow> same_owner (session_at o' m) (session_at o' (wipe oid (upd_session oid f m)))" for o'
    using at[of o'] w[of o'] assms(3) by (cases "o' = oid") (auto simp: same_owner_def)
  have adm: "same_admission (session_at o' m) (session_at o' (wipe oid (upd_session oid f m)))"
    if "is_current i o' m" "i \<noteq> sid" for i o'
    using b[OF that(1)] b[OF assms(2)] that(2) at[of o'] w[of o'] by (cases "o' = oid") auto
  show ?thesis
    unfolding tidies_def mgr_ok_def drop_session_simps
    using assms(1) own adm b by (auto simp: mgr_ok_def same_owner_def)
qed

lemma stop_tidies:
  assumes "mgr_ok m"
  shows "tidies m (stop_manager m)"
proof -
  have "length (tm_heap (fold (\<lambda>(sid, oid). wipe oid) xs m)) = length (tm_heap m) \<and>
     (\<forall>o' < length (tm_heap m). same_owner (session_at o' m) (session_at o' (fold (\<lambda>(sid, oid). wipe oid) xs m)))" for xs
  proof (induction xs arbitrary: m)
    case (Cons x xs)
    obtain sid oid where x: "x = (sid, oid)" by (cases x)
    show ?case
      unfolding x using Cons.IH[of "wipe oid m"] wipe_at[of _ m oid] by (auto intro: same_owner_trans)
  qed (simp add: same_owner_def)
  from this[of "tm_sessions m"] show ?thesis by (simp add: tidies_def stop_manager_def mgr_ok_def is_current_def)
qed

lemma contexts_tidies: "mgr_ok m \<Longrightarrow> tidies m (m\<lparr>tm_contexts := c\<rparr>)"
  by (simp add: tidies_def mgr_ok_def is_current_def same_owner_def same_admission_def)

lemma count_after:
  assumes "pid < length (ts_procs s)"
  shows "inside_count oid ((ts_procs s)[pid := q]) + (if inside oid (ts_procs s ! pid) then 1 else 0)
      = inside_count oid (ts_procs s) + (if inside oid q then 1 else 0)"
    "lock_count oid ((ts_procs s)[pid := q]) + (if holds_lock oid (ts_procs s ! pid) then 1 else 0)
      = lock_count oid (ts_procs s) + (if holds_lock oid q then 1 else 0)"
  using length_filter_update[OF assms, of "inside oid" q] length_filter_update[OF assms, of "holds_lock oid" q]
  by (simp_all add: inside_count_def lock_count_def)

lemma tm_ok_open:
  assumes "tm_ok s" "pid < length (ts_procs s)" "tm_proc_of pid s = ProcIdle"
    and "get_or_create now sid tenant user timeout (ts_mgr s) = (Inr oid, m)"
    and "q = ProcGot sid oid tenant user \<or> q = ProcDeleting sid oid"
  shows "tm_ok (set_tm_proc pid q (s\<lparr>ts_mgr := m\<rparr>))"
proof -
  note g = get_or_create_spec[OF tm_okD(1)[OF assms(1)] assms(4)]
  have "ts_procs s ! pid = ProcIdle" using assms(2,3) by (simp add: tm_proc_of_def)
  moreover have "tm_ok (s\<lparr>ts_mgr := m\<rparr>)" using tm_ok_tidies[OF assms(1)] g by blast
  ultimately show ?thesis using g assms(2,5) by (intro tm_ok_move) auto
qed

lemma tm_ok_enter:
  assumes "tm_ok s" "tm_proc_of pid s = ProcGot sid oid t u" "\<not> locked oid s"
  shows "tm_ok (tm_step (TmEnter pid now) s)"
proof -
  note p = tm_proc_ofD[OF assms(2)]
  have po: "proc_ok (ts_mgr s) (ProcGot sid oid t u)" using p tm_okD(2)[OF assms(1)] by blast
  show ?thesis
  proof (cases "\<not> is_current sid oid (ts_mgr s) \<or> sr_deleting (session_at oid (ts_mgr s))")
    case True
    have "tm_ok (set_tm_proc pid ProcIdle s)" using assms(1) p by (intro tm_ok_move) auto
    then show ?thesis using True assms(2,3) by (simp add: enter_context_def)
  next
    case False
    let ?f = "(\<lambda>s. s\<lparr>sr_activity := now\<rparr>) \<circ> (\<lambda>s. s\<lparr>sr_contexts := sr_contexts s + 1\<rparr>)"
    have step: "tm_step (TmEnter pid now) s =
        set_tm_proc pid (ProcInside sid oid t u) (s\<lparr>ts_mgr := upd_session oid ?f (ts_mgr s)\<rparr>)"
      using False assms(2,3) po by (simp add: enter_context_def touch_def upd_upd)
    show ?thesis
      unfolding step
    proof (rule tm_ok_change[OF assms(1)])
      show "proc_ok m (ProcInside sid oid t u)" if "proc_ok m (ts_procs s ! pid)" for m using that p by simp
      show "sr_contexts (?f (session_at oid (ts_mgr s))) = int (inside_count oid ((ts_procs s)[pid := ProcInside sid oid t u])) \<and>
          sr_deleting (?f (session_at oid (ts_mgr s))) = (0 < lock_count oid ((ts_procs s)[pid := ProcInside sid oid t u]))"
        if "is_current i oid (ts_mgr s)" for i
        using count_after[of pid s oid "ProcInside sid oid t u"] tm_okD(4,5)[OF assms(1) that] p by simp
      show "lock_count oid ((ts_procs s)[pid := ProcInside sid oid t u]) \<le> 1"
        using count_after(2)[of pid s oid "ProcInside sid oid t u"] tm_okD(3)[OF assms(1), of oid] p by simp
    qed (use p po not_fenced[OF assms(3)] in \<open>auto simp: same_owner_def\<close>)
  qed
qed

lemma tm_ok_leave:
  assumes "tm_ok s" "tm_proc_of pid s = ProcInside sid oid t u" "\<not> locked oid s"
  shows "tm_ok (tm_step (TmLeave pid now) s)"
proof -
  note p = tm_proc_ofD[OF assms(2)]
  have po: "proc_ok (ts_mgr s) (ProcInside sid oid t u)" using p tm_okD(2)[OF assms(1)] by blast
  let ?f = "(\<lambda>s. s\<lparr>sr_activity := now\<rparr>) \<circ> (if is_current sid oid (ts_mgr s)
      then (\<lambda>s. s\<lparr>sr_contexts := max 0 (sr_contexts s - 1)\<rparr>) else id)"
  have "leave_context now sid oid (ts_mgr s) = upd_session oid ?f (ts_mgr s)"
    using po by (simp add: leave_context_def touch_def upd_upd)
  then have step: "tm_step (TmLeave pid now) s = set_tm_proc pid ProcIdle (s\<lparr>ts_mgr := upd_session oid ?f (ts_mgr s)\<rparr>)"
    using assms(2,3) by simp
  show ?thesis
    unfolding step
  proof (rule tm_ok_change[OF assms(1)])
    show "sr_contexts (?f (session_at oid (ts_mgr s))) = int (inside_count oid ((ts_procs s)[pid := ProcIdle])) \<and>
        sr_deleting (?f (session_at oid (ts_mgr s))) = (0 < lock_count oid ((ts_procs s)[pid := ProcIdle]))"
      if "is_current i oid (ts_mgr s)" for i
    proof -
      have "i = sid" using mgr_okD[OF tm_okD(1)[OF assms(1)] that] po by simp
      then show ?thesis
        using count_after[of pid s oid ProcIdle] tm_okD(4,5)[OF assms(1) that] p that by auto
    qed
    show "lock_count oid ((ts_procs s)[pid := ProcIdle]) \<le> 1"
      using count_after(2)[of pid s oid ProcIdle] tm_okD(3)[OF assms(1), of oid] p by simp
  qed (use p po not_fenced[OF assms(3)] in \<open>auto simp: same_owner_def\<close>)
qed

lemma tm_ok_fence:
  assumes "tm_ok s" "tm_proc_of pid s = ProcDeleting sid oid" "\<not> locked oid s"
  shows "tm_ok (tm_step (TmFence pid) s)"
proof -
  note p = tm_proc_ofD[OF assms(2)]
  have po: "proc_ok (ts_mgr s) (ProcDeleting sid oid)" using p tm_okD(2)[OF assms(1)] by blast
  let ?f = "\<lambda>s. s\<lparr>sr_deleting := True\<rparr>"
  show ?thesis
  proof (cases "\<not> is_current sid oid (ts_mgr s) \<or> sr_deleting (session_at oid (ts_mgr s))")
    case True
    have "tm_ok (set_tm_proc pid ProcIdle s)" using assms(1) p by (intro tm_ok_move) auto
    then show ?thesis using True assms(2,3) by (simp add: raise_fence_def)
  next
    case False
    define q where "q = (if session_busy (session_at oid (ts_mgr s)) then ProcRaised sid oid else ProcFenced sid oid)"
    have step: "tm_step (TmFence pid) s = set_tm_proc pid q (s\<lparr>ts_mgr := upd_session oid ?f (ts_mgr s)\<rparr>)"
      using False assms(2,3) by (simp add: raise_fence_def q_def)
    have q: "holds_lock oid q" "\<not> inside o' q" "o' \<noteq> oid \<Longrightarrow> \<not> holds_lock o' q" for o' by (simp_all add: q_def)
    have none: "lock_count oid (ts_procs s) = 0" using assms(3) by (simp add: locked_count)
    show ?thesis
      unfolding step
    proof (rule tm_ok_change[OF assms(1)])
      show "proc_ok m q" if "proc_ok m (ts_procs s ! pid)" "m = upd_session oid ?f (ts_mgr s)" for m
        using that p po by (auto simp: q_def session_at_upd session_busy_def)
      show "sr_contexts (?f (session_at oid (ts_mgr s))) = int (inside_count oid ((ts_procs s)[pid := q])) \<and>
          sr_deleting (?f (session_at oid (ts_mgr s))) = (0 < lock_count oid ((ts_procs s)[pid := q]))"
        if "is_current i oid (ts_mgr s)" for i
        using count_after[of pid s oid q] tm_okD(4)[OF assms(1) that] p q by simp
      show "lock_count oid ((ts_procs s)[pid := q]) \<le> 1"
        using count_after(2)[of pid s oid q] none p q by simp
    qed (use p po q not_fenced[OF assms(3)] in \<open>auto simp: same_owner_def\<close>)
  qed
qed

lemma tm_ok_lower:
  assumes "tm_ok s" "tm_proc_of pid s = ProcRaised sid oid"
  shows "tm_ok (tm_step (TmLower pid) s)"
proof -
  note p = tm_proc_ofD[OF assms(2)]
  have po: "proc_ok (ts_mgr s) (ProcRaised sid oid)" using p tm_okD(2)[OF assms(1)] by blast
  let ?f = "\<lambda>s. s\<lparr>sr_deleting := False\<rparr>"
  have one: "lock_count oid ((ts_procs s)[pid := ProcIdle]) = 0"
    using count_after(2)[of pid s oid ProcIdle] tm_okD(3)[OF assms(1), of oid] p by simp
  show ?thesis
  proof (cases "is_current sid oid (ts_mgr s)")
    case False
    then have "\<not> is_current i oid (ts_mgr s)" for i
      using mgr_okD[OF tm_okD(1)[OF assms(1)], of i oid] po by auto
    then have "tm_ok (set_tm_proc pid ProcIdle s)" using p by (intro tm_ok_release[OF assms(1), of pid oid]) auto
    then show ?thesis using False assms(2) by (simp add: lower_fence_def)
  next
    case True
    have step: "tm_step (TmLower pid) s = set_tm_proc pid ProcIdle (s\<lparr>ts_mgr := upd_session oid ?f (ts_mgr s)\<rparr>)"
      using True assms(2) by (simp add: lower_fence_def)
    show ?thesis
      unfolding step
    proof (rule tm_ok_change[OF assms(1)])
      show "sr_contexts (?f (session_at oid (ts_mgr s))) = int (inside_count oid ((ts_procs s)[pid := ProcIdle])) \<and>
          sr_deleting (?f (session_at oid (ts_mgr s))) = (0 < lock_count oid ((ts_procs s)[pid := ProcIdle]))"
        if "is_current i oid (ts_mgr s)" for i
        using count_after(1)[of pid s oid ProcIdle] tm_okD(4)[OF assms(1) that] p one by simp
      show "lock_count oid ((ts_procs s)[pid := ProcIdle]) \<le> 1" using one by simp
    qed (use p po in \<open>auto simp: same_owner_def session_busy_def\<close>)
  qed
qed

lemma tm_ok_finish:
  assumes "tm_ok s" "tm_proc_of pid s = ProcFenced sid oid"
  shows "tm_ok (tm_step (TmFinish pid) s)"
proof -
  note p = tm_proc_ofD[OF assms(2)]
  have po: "proc_ok (ts_mgr s) (ProcFenced sid oid)" using p tm_okD(2)[OF assms(1)] by blast
  show ?thesis
  proof (cases "is_current sid oid (ts_mgr s)")
    case False
    have "tm_ok (set_tm_proc pid (ProcRaised sid oid) s)" using assms(1) p po by (intro tm_ok_move) auto
    then show ?thesis using False assms(2) by (simp add: finish_deletion_def)
  next
    case True
    have "tm_ok (s\<lparr>ts_mgr := drop_session sid oid (ts_mgr s)\<rparr>)"
      by (rule tm_ok_tidies[OF assms(1) drop_session_tidies[OF tm_okD(1)[OF assms(1)]]])
    moreover have "\<not> is_current i oid (drop_session sid oid (ts_mgr s))" for i
      using mgr_okD[OF tm_okD(1)[OF assms(1)], of i oid] po by (auto simp: drop_session_simps)
    ultimately have "tm_ok (set_tm_proc pid ProcIdle (s\<lparr>ts_mgr := drop_session sid oid (ts_mgr s)\<rparr>))"
      using p by (intro tm_ok_release[of _ pid oid]) auto
    then show ?thesis using True po assms(2) by (simp add: finish_deletion_def)
  qed
qed

lemma tm_ok_step:
  assumes ok: "tm_ok s"
  shows "tm_ok (tm_step e s)"
proof (cases e)
  case (TmOpen pid now sid tenant user timeout)
  obtain r m where g: "get_or_create now sid tenant user timeout (ts_mgr s) = (r, m)" by fastforce
  then show ?thesis
    using ok get_or_create_spec[OF tm_okD(1)[OF ok] g]
    by (cases r) (auto simp: TmOpen intro: tm_ok_open[OF ok])
next
  case (TmOpenDelete pid now sid tenant user)
  obtain r m where g: "get_or_create now sid tenant user None (ts_mgr s) = (r, m)" by fastforce
  then show ?thesis
    using ok get_or_create_spec[OF tm_okD(1)[OF ok] g]
    by (cases r) (auto simp: TmOpenDelete intro: tm_ok_open[OF ok])
next
  case (TmEnter pid now)
  then show ?thesis
    using ok tm_ok_enter[OF ok] by (cases "tm_proc_of pid s") (auto simp del: tm_step.simps simp: tm_step.simps(2) split: if_splits)
next
  case (TmLeave pid now)
  then show ?thesis
    using ok tm_ok_leave[OF ok] by (cases "tm_proc_of pid s") (auto simp del: tm_step.simps simp: tm_step.simps(3) split: if_splits)
next
  case (TmFence pid)
  then show ?thesis
    using ok tm_ok_fence[OF ok] by (cases "tm_proc_of pid s") (auto simp del: tm_step.simps simp: tm_step.simps(5) split: if_splits)
next
  case (TmFinish pid)
  then show ?thesis
    using ok tm_ok_finish[OF ok] by (cases "tm_proc_of pid s") (auto simp del: tm_step.simps simp: tm_step.simps(6))
next
  case (TmLower pid)
  then show ?thesis
    using ok tm_ok_lower[OF ok] by (cases "tm_proc_of pid s") (auto simp del: tm_step.simps simp: tm_step.simps(8))
next
  case (TmAbort pid)
  show ?thesis
  proof (cases "tm_proc_of pid s")
    case (ProcFenced sid oid)
    note p = tm_proc_ofD[OF ProcFenced]
    have "proc_ok (ts_mgr s) (ProcFenced sid oid)" using p tm_okD(2)[OF ok] by blast
    then have "tm_ok (set_tm_proc pid (ProcRaised sid oid) s)" using ok p by (intro tm_ok_move) auto
    then show ?thesis using ProcFenced by (simp add: TmAbort)
  qed (use ok in \<open>simp_all add: TmAbort\<close>)
next
  case (TmDelete sid oid)
  show ?thesis
  proof (cases "locked oid s \<or> \<not> fst (delete_session sid oid (ts_mgr s))")
    case True
    then show ?thesis using ok by (auto simp: TmDelete delete_session_def split: if_splits)
  next
    case False
    then have "tidies (ts_mgr s) (snd (delete_session sid oid (ts_mgr s)))"
      using drop_changed_tidies[OF tm_okD(1)[OF ok], of sid oid "\<lambda>s. s\<lparr>sr_deleting := True\<rparr>"]
      by (auto simp: delete_session_def same_owner_def split: if_splits)
    then show ?thesis using tm_ok_tidies[OF ok] False by (simp add: TmDelete)
  qed
next
  case (TmRegister now sid oid task)
  show ?thesis
  proof (cases "locked oid s \<or> \<not> is_current sid oid (ts_mgr s) \<or> sr_deleting (session_at oid (ts_mgr s))")
    case True
    then show ?thesis using ok by (auto simp: TmRegister register_task_def)
  next
    case False
    then have "oid < length (tm_heap (ts_mgr s))" using mgr_okD[OF tm_okD(1)[OF ok]] by blast
    then have a: "tm_ok (s\<lparr>ts_mgr := upd_session oid (\<lambda>s. s\<lparr>sr_tasks := List.insert task (sr_tasks s)\<rparr>) (ts_mgr s)\<rparr>)"
      using False by (intro tm_ok_admin[OF ok]) (auto simp: same_owner_def)
    show ?thesis
      using tm_ok_tidies[OF a contexts_tidies[OF tm_okD(1)[OF a]]] False by (simp add: TmRegister register_task_def)
  qed
next
  case (TmComplete sid found task)
  show ?thesis
  proof (cases "\<exists>oid. found = Some oid \<and> is_current sid oid (ts_mgr s) \<and> \<not> locked oid s")
    case True
    then obtain oid where o: "found = Some oid" "is_current sid oid (ts_mgr s)" "\<not> locked oid s" by blast
    then have "oid < length (tm_heap (ts_mgr s))" using mgr_okD[OF tm_okD(1)[OF ok]] by blast
    then have a: "tm_ok (s\<lparr>ts_mgr := upd_session oid (\<lambda>s. s\<lparr>sr_tasks := removeAll task (sr_tasks s)\<rparr>) (ts_mgr s)\<rparr>)"
      using o by (intro tm_ok_admin[OF ok]) (auto simp: same_owner_def)
    show ?thesis
      using tm_ok_tidies[OF a contexts_tidies[OF tm_okD(1)[OF a]]] o by (simp add: TmComplete complete_task_def)
  next
    case False
    then show ?thesis
      using ok tm_ok_tidies[OF ok contexts_tidies[OF tm_okD(1)[OF ok]]]
      by (auto simp: TmComplete complete_task_def Let_def split: option.splits)
  qed
next
  case (TmCancel sid oid task)
  then show ?thesis
    using ok tm_ok_tidies[OF ok contexts_tidies[OF tm_okD(1)[OF ok]]]
    by (auto simp: cancel_task_def split: option.splits)
next
  case (TmSweep now)
  then show ?thesis using tm_ok_tidies[OF ok] cleanup_tidies[OF tm_okD(1)[OF ok]] by simp
next
  case TmStop
  then show ?thesis using tm_ok_tidies[OF ok stop_tidies[OF tm_okD(1)[OF ok]]] by simp
qed

lemma tm_ok_run: "tm_ok s \<Longrightarrow> tm_ok (tm_run evs s)"
  by (induction evs arbitrary: s) (simp_all add: tm_ok_step)

lemma tm_ok_init: "tm_ok (tm_init limit timeout concurrent n)"
  by (simp add: tm_ok_def tm_init_def new_manager_def mgr_ok_def is_current_def lock_count_def)

lemma tm_reach_ok: "tm_ok (tm_run evs (tm_init limit timeout concurrent n))"
  by (rule tm_ok_run[OF tm_ok_init])

section \<open>Which sessions stay\<close>

lemma lock_unique:
  assumes "tm_ok s" "p \<noteq> pid" "p < length (ts_procs s)" "pid < length (ts_procs s)"
    "holds_lock oid (ts_procs s ! p)" "holds_lock oid (ts_procs s ! pid)"
  shows False
proof -
  have "lock_count oid ((ts_procs s)[pid := ProcIdle]) = 0"
    using count_after(2)[OF assms(4), of oid ProcIdle] tm_okD(3)[OF assms(1), of oid] assms(6) by simp
  moreover have "ts_procs s ! p \<in> set ((ts_procs s)[pid := ProcIdle])"
    using assms(2,3) by (metis length_list_update nth_list_update_neq nth_mem)
  ultimately show False using assms(5) by (auto simp: lock_count_def filter_empty_conv)
qed

lemma is_current_unique: "is_current sid oid m \<Longrightarrow> is_current sid o' m \<Longrightarrow> o' = oid"
  by (simp add: is_current_def)

lemma mgr_of_set_proc [simp]: "ts_mgr (set_tm_proc pid q s) = ts_mgr s"
  by (simp add: set_tm_proc_def)

text \<open>A session with somebody in it, or fenced for deletion, goes only when its deletion is finished or the manager stops.\<close>

lemma current_survives:
  assumes ok: "tm_ok s" and cur: "is_current sid oid (ts_mgr s)" and held: "in_use (session_at oid (ts_mgr s))"
    and e: "e \<noteq> TmStop" "\<And>pid. e = TmFinish pid \<Longrightarrow> tm_proc_of pid s \<noteq> ProcFenced sid oid"
  shows "is_current sid oid (ts_mgr (tm_step e s))"
proof (cases e)
  case (TmOpen pid now i tenant user timeout)
  obtain r m where g: "get_or_create now i tenant user timeout (ts_mgr s) = (r, m)" by fastforce
  show ?thesis
    using get_or_create_spec[OF tm_okD(1)[OF ok] g] cur held g by (cases r) (auto simp: TmOpen keeps_held_def)
next
  case (TmOpenDelete pid now i tenant user)
  obtain r m where g: "get_or_create now i tenant user None (ts_mgr s) = (r, m)" by fastforce
  show ?thesis
    using get_or_create_spec[OF tm_okD(1)[OF ok] g] cur held g by (cases r) (auto simp: TmOpenDelete keeps_held_def)
next
  case (TmFinish pid)
  show ?thesis
  proof (cases "tm_proc_of pid s")
    case (ProcFenced i o')
    have "i \<noteq> sid" if "is_current i o' (ts_mgr s)"
      using e(2)[OF TmFinish] ProcFenced that is_current_unique[OF cur] by auto
    then show ?thesis
      using cur ProcFenced by (auto simp: TmFinish finish_deletion_def drop_session_simps)
  qed (use cur in \<open>simp_all add: TmFinish\<close>)
next
  case (TmDelete i o')
  show ?thesis
  proof (cases "i = sid \<and> is_current i o' (ts_mgr s)")
    case True
    then have "o' = oid" using is_current_unique[OF cur] by blast
    then show ?thesis using True cur held by (auto simp: TmDelete delete_session_def in_use_def)
  next
    case False
    then show ?thesis using cur by (auto simp: TmDelete delete_session_def drop_session_simps)
  qed
next
  case (TmSweep now)
  then show ?thesis using cleanup_tidies[OF tm_okD(1)[OF ok]] cur held by (simp add: keeps_held_def)
next
  case (TmEnter pid now)
  then show ?thesis using cur by (auto simp: enter_context_def touch_def split: tm_proc.splits)
next
  case (TmLeave pid now)
  then show ?thesis using cur by (auto simp: leave_context_def touch_def split: tm_proc.splits)
next
  case (TmFence pid)
  then show ?thesis using cur by (auto simp: raise_fence_def split: tm_proc.splits)
next
  case (TmLower pid)
  then show ?thesis using cur by (auto simp: lower_fence_def split: tm_proc.splits)
next
  case (TmAbort pid)
  then show ?thesis using cur by (auto split: tm_proc.splits)
next
  case (TmRegister now i o' task)
  then show ?thesis using cur by (auto simp: register_task_def is_current_def)
next
  case (TmComplete i found task)
  then show ?thesis using cur by (auto simp: complete_task_def Let_def is_current_def split: option.splits)
next
  case (TmCancel i o' task)
  then show ?thesis using cur by (auto simp: cancel_task_def is_current_def split: option.splits)
qed (use e in simp)

section \<open>Properties\<close>

text \<open>
  C37: Sessions are isolated. In every reachable state a caller that was admitted to a session is in a
  session of the id, tenant and user it asked for; the number of contexts a live session records is exactly
  the number of callers inside, so it never falls below zero; and a live session is marked for deletion
  exactly while some caller holds its fence.\<close>

theorem sessions_are_isolated:
  assumes "s = tm_run evs (tm_init limit timeout concurrent n)"
  shows "(\<forall>sid oid t u. ProcInside sid oid t u \<in> set (ts_procs s) \<longrightarrow>
            sr_session (session_at oid (ts_mgr s)) = sid \<and> sr_tenant (session_at oid (ts_mgr s)) = t \<and>
            sr_user (session_at oid (ts_mgr s)) = u) \<and>
     (\<forall>sid oid. is_current sid oid (ts_mgr s) \<longrightarrow>
            sr_contexts (session_at oid (ts_mgr s)) = int (length (filter (inside oid) (ts_procs s))) \<and>
            (sr_deleting (session_at oid (ts_mgr s)) \<longleftrightarrow> (\<exists>p \<in> set (ts_procs s). holds_lock oid p)))"
proof -
  have ok: "tm_ok s" unfolding assms by (rule tm_reach_ok)
  have "0 < lock_count oid (ts_procs s) \<longleftrightarrow> (\<exists>p \<in> set (ts_procs s). holds_lock oid p)" for oid
    by (auto simp: lock_count_def filter_empty_conv)
  then show ?thesis using tm_okD(2)[OF ok] tm_okD(4,5)[OF ok] by (fastforce simp: inside_count_def)
qed

text \<open>
  C38: A session in use is never taken away. Whatever step is made in a reachable state, short of stopping
  the manager, a live session with a caller inside or an active task is still the live session of its id
  afterwards: eviction, the sweep, expiry and both ways of deleting spare it.\<close>

theorem busy_sessions_survive:
  assumes "s = tm_run evs (tm_init limit timeout concurrent n)"
    and "is_current sid oid (ts_mgr s)" "session_busy (session_at oid (ts_mgr s))" "e \<noteq> TmStop"
  shows "is_current sid oid (ts_mgr (tm_step e s))"
proof -
  have ok: "tm_ok s" unfolding assms(1) by (rule tm_reach_ok)
  have "tm_proc_of pid s \<noteq> ProcFenced sid oid" for pid
  proof
    assume f: "tm_proc_of pid s = ProcFenced sid oid"
    have "proc_ok (ts_mgr s) (ProcFenced sid oid)" using tm_okD(2)[OF ok] tm_proc_ofD[OF f] by blast
    then show False using assms(2,3) by simp
  qed
  then show ?thesis using assms(2-4) by (intro current_survives[OF ok]) (auto simp: in_use_def)
qed

fun actor :: "tm_event \<Rightarrow> nat option" where
  "actor (TmOpen pid now sid tenant user timeout) = Some pid"
| "actor (TmEnter pid now) = Some pid"
| "actor (TmLeave pid now) = Some pid"
| "actor (TmOpenDelete pid now sid tenant user) = Some pid"
| "actor (TmFence pid) = Some pid"
| "actor (TmFinish pid) = Some pid"
| "actor (TmAbort pid) = Some pid"
| "actor (TmLower pid) = Some pid"
| "actor e = None"

lemma step_procs:
  "ts_procs (tm_step e s) = ts_procs s \<or> (\<exists>pid q. actor e = Some pid \<and> ts_procs (tm_step e s) = (ts_procs s)[pid := q])"
proof (cases e)
  case (TmOpen pid now sid tenant user timeout)
  then show ?thesis by (auto simp: set_tm_proc_def split: prod.split sum.split)
next
  case (TmOpenDelete pid now sid tenant user)
  then show ?thesis by (auto simp: set_tm_proc_def split: prod.split sum.split)
next
  case (TmEnter pid now)
  then show ?thesis
    by (cases "tm_proc_of pid s") (auto simp: set_tm_proc_def split: prod.split sum.split)
next
  case (TmLeave pid now)
  then show ?thesis by (cases "tm_proc_of pid s") (auto simp: set_tm_proc_def)
next
  case (TmFence pid)
  then show ?thesis
    by (cases "tm_proc_of pid s") (auto simp: set_tm_proc_def split: prod.split fence_result.split)
next
  case (TmFinish pid)
  then show ?thesis
    by (cases "tm_proc_of pid s") (auto simp: set_tm_proc_def split: prod.split sum.split)
next
  case (TmAbort pid)
  then show ?thesis by (cases "tm_proc_of pid s") (auto simp: set_tm_proc_def)
next
  case (TmLower pid)
  then show ?thesis by (cases "tm_proc_of pid s") (auto simp: set_tm_proc_def)
qed simp_all

lemma fenced_waits:
  "tm_proc_of pid s = ProcFenced sid oid \<Longrightarrow> actor e = Some pid \<Longrightarrow> e \<notin> {TmFinish pid, TmAbort pid} \<Longrightarrow> tm_step e s = s"
  by (cases e) simp_all

lemma fence_step:
  assumes ok: "tm_ok s" and f: "tm_proc_of pid s = ProcFenced sid oid" and cur: "is_current sid oid (ts_mgr s)"
    and e: "e \<notin> {TmStop, TmFinish pid, TmAbort pid}"
  shows "tm_proc_of pid (tm_step e s) = ProcFenced sid oid \<and> is_current sid oid (ts_mgr (tm_step e s))"
proof
  note p = tm_proc_ofD[OF f, simplified]
  have "0 < lock_count oid (ts_procs s)"
    using p by (auto simp: lock_count_def filter_empty_conv intro!: bexI[of _ "ProcFenced sid oid"])
  then have "in_use (session_at oid (ts_mgr s))" using tm_okD(5)[OF ok cur] by (simp add: in_use_def)
  moreover have "tm_proc_of p' s \<noteq> ProcFenced sid oid" if "e = TmFinish p'" for p'
  proof
    assume f': "tm_proc_of p' s = ProcFenced sid oid"
    show False
      using lock_unique[OF ok, of p' pid oid] that e tm_proc_ofD[OF f'] p by auto
  qed
  ultimately show "is_current sid oid (ts_mgr (tm_step e s))" using current_survives[OF ok cur] e by auto
  show "tm_proc_of pid (tm_step e s) = ProcFenced sid oid"
  proof (cases "actor e = Some pid")
    case True
    then show ?thesis using fenced_waits[OF f True] e f by simp
  next
    case False
    then show ?thesis using step_procs[of e s] f by (auto simp: tm_proc_of_def split: if_splits)
  qed
qed

text \<open>
  C39: The deletion fence holds. From the moment a caller holds the fence of a live session, whatever the
  others do short of stopping the manager, the session stays the live one, nobody is inside it and it has
  no task, until the caller itself finishes or aborts; and finishing always succeeds: the session is gone
  and the caller is done. The second look the code takes at the admissions never finds any.\<close>

theorem deletion_fence_holds:
  assumes "s = tm_run evs (tm_init limit timeout concurrent n)"
    and "tm_proc_of pid s = ProcFenced sid oid" "is_current sid oid (ts_mgr s)"
    and "set later \<inter> {TmStop, TmFinish pid, TmAbort pid} = {}" and "s' = tm_run later s"
  shows "is_current sid oid (ts_mgr s') \<and> filter (inside oid) (ts_procs s') = [] \<and>
     sr_tasks (session_at oid (ts_mgr s')) = [] \<and>
     dict_get (tm_sessions (ts_mgr (tm_step (TmFinish pid) s'))) sid = None \<and>
     tm_proc_of pid (tm_step (TmFinish pid) s') = ProcIdle"
proof -
  have "tm_ok t \<Longrightarrow> tm_proc_of pid t = ProcFenced sid oid \<Longrightarrow> is_current sid oid (ts_mgr t) \<Longrightarrow>
      set later \<inter> {TmStop, TmFinish pid, TmAbort pid} = {} \<Longrightarrow>
      tm_ok (tm_run later t) \<and> tm_proc_of pid (tm_run later t) = ProcFenced sid oid \<and>
      is_current sid oid (ts_mgr (tm_run later t))" for later t
  proof (induction later arbitrary: t)
    case (Cons e later)
    have "e \<notin> {TmStop, TmFinish pid, TmAbort pid}" using Cons.prems(4) by auto
    from fence_step[OF Cons.prems(1-3) this] show ?case
      using Cons.IH[OF tm_ok_step[OF Cons.prems(1)]] Cons.prems(4) by simp
  qed simp
  from this[OF _ assms(2-4)] have s': "tm_ok s'" "tm_proc_of pid s' = ProcFenced sid oid" "is_current sid oid (ts_mgr s')"
    using assms(1,5) tm_reach_ok by auto
  note p = tm_proc_ofD[OF s'(2), simplified]
  have "proc_ok (ts_mgr s') (ProcFenced sid oid)" using tm_okD(2)[OF s'(1)] p by blast
  then have idle: "\<not> session_busy (session_at oid (ts_mgr s'))" using s'(3) by simp
  then have "sr_contexts (session_at oid (ts_mgr s')) = 0" "sr_tasks (session_at oid (ts_mgr s')) = []"
    by (auto simp: session_busy_def)
  then have "inside_count oid (ts_procs s') = 0" using tm_okD(4)[OF s'(1,3)] by simp
  then have "filter (inside oid) (ts_procs s') = []" by (simp add: inside_count_def)
  moreover have "tm_step (TmFinish pid) s' = set_tm_proc pid ProcIdle (s'\<lparr>ts_mgr := drop_session sid oid (ts_mgr s')\<rparr>)"
    using s'(2,3) idle by (simp add: finish_deletion_def)
  moreover have "tm_proc_of pid (set_tm_proc pid ProcIdle t) = ProcIdle" for t
    by (simp add: tm_proc_of_def set_tm_proc_def)
  ultimately show ?thesis
    using s'(3) \<open>sr_tasks (session_at oid (ts_mgr s')) = []\<close> by (simp add: drop_session_simps dict_get_pop)
qed

lemma oldest_idle_spec:
  "oldest_idle m (b, t) xs = (r, t') \<Longrightarrow>
     t' \<le> t \<and> (\<forall>(i, oid) \<in> set xs. \<not> in_use (session_at oid m) \<longrightarrow> t' \<le> sr_activity (session_at oid m)) \<and>
     (r = b \<and> t' = t \<or> (\<exists>(i, oid) \<in> set xs. r = Some i \<and> \<not> in_use (session_at oid m) \<and>
        sr_activity (session_at oid m) = t' \<and> t' < t))"
proof (induction xs arbitrary: b t)
  case (Cons x xs)
  obtain i oid where x: "x = (i, oid)" by (cases x)
  show ?case
  proof (cases "\<not> in_use (session_at oid m) \<and> sr_activity (session_at oid m) < t")
    case True
    then have "oldest_idle m (Some i, sr_activity (session_at oid m)) xs = (r, t')"
      using Cons.prems by (auto simp: x Let_def in_use_def)
    from Cons.IH[OF this] True show ?thesis by (auto simp: x)
  next
    case False
    then have "oldest_idle m (b, t) xs = (r, t')" using Cons.prems by (auto simp: x Let_def in_use_def)
    from Cons.IH[OF this] False show ?thesis by (auto simp: x)
  qed
qed simp

text \<open>
  Eviction takes the least recently used idle session, and only for room: a session that goes when
  another one is created under a new id goes because the limit was reached, is neither in use nor fenced,
  and none of the others that could go was used longer ago. If the limit was reached and none goes, then
  every session is in use, fenced, or was used at this very moment (no session being named by the empty id).\<close>

theorem eviction_is_lru:
  assumes "s = tm_run evs (tm_init limit timeout concurrent n)" and "m = ts_mgr s"
    and "dict_get (tm_sessions m) sid = None" and "dict_get (tm_sessions m) [] = None"
    and "get_or_create now sid tenant user life m = (Inr oid, m')"
  shows "(\<forall>i o'. is_current i o' m \<and> \<not> is_current i o' m' \<longrightarrow>
            tm_max m \<le> int (length (tm_sessions m)) \<and> \<not> in_use (session_at o' m) \<and>
            (\<forall>j o''. is_current j o'' m \<and> \<not> in_use (session_at o'' m) \<longrightarrow>
               sr_activity (session_at o' m) \<le> sr_activity (session_at o'' m))) \<and>
     (tm_max m \<le> int (length (tm_sessions m)) \<and> (\<forall>i o'. is_current i o' m \<longrightarrow> is_current i o' m') \<longrightarrow>
        (\<forall>i o'. is_current i o' m \<longrightarrow> in_use (session_at o' m) \<or> now \<le> sr_activity (session_at o' m)))"
proof -
  have ok: "mgr_ok m" unfolding assms(1,2) by (rule tm_okD(1)[OF tm_reach_ok])
  obtain r t where o: "oldest_idle m (None, now) (tm_sessions m) = (r, t)" by fastforce
  note spec = oldest_idle_spec[OF o]
  define m1 where "m1 = (if tm_max m \<le> int (length (tm_sessions m)) then evict_oldest now m else m)"
  have c: "create_session now sid tenant user life m = (oid, m')"
    using assms(3,5) by (auto simp: get_or_create_def split: prod.splits)
  have cur: "is_current i o' m' \<longleftrightarrow> (if i = sid then o' = oid else is_current i o' m1)" for i o'
    using c by (auto simp: create_session_def Let_def m1_def is_current_def dict_get_set)
  have sid: "is_current i o' m \<Longrightarrow> i \<noteq> sid \<and> i \<noteq> []" for i o' using assms(3,4) by (auto simp: is_current_def)
  show ?thesis
  proof (cases "tm_max m \<le> int (length (tm_sessions m)) \<and> r \<noteq> None")
    case False
    have "m1 = m" using False o by (auto simp: m1_def evict_oldest_def)
    then have stay: "is_current i o' m \<Longrightarrow> is_current i o' m'" for i o' using cur[of i o'] sid[of i o'] by simp
    have "in_use (session_at o' m) \<or> now \<le> sr_activity (session_at o' m)"
      if "tm_max m \<le> int (length (tm_sessions m))" "is_current i o' m" for i o'
      using spec False that current_iff_member[OF ok, of i o'] by auto
    then show ?thesis using stay by blast
  next
    case True
    then obtain i oi where v: "r = Some i" "(i, oi) \<in> set (tm_sessions m)" "\<not> in_use (session_at oi m)"
        "sr_activity (session_at oi m) = t" using spec by auto
    have ci: "is_current i oi m" using v(2) current_iff_member[OF ok] by blast
    have m1: "m1 = drop_session i oi m"
      using True o v(1) ci sid[OF ci] by (auto simp: m1_def evict_oldest_def is_current_def)
    have gone: "is_current j o' m \<Longrightarrow> \<not> is_current j o' m' \<longleftrightarrow> j = i" for j o'
      using cur[of j o'] sid[of j o'] by (auto simp: m1 drop_session_simps)
    have least: "t \<le> sr_activity (session_at o'' m)" if "is_current j o'' m" "\<not> in_use (session_at o'' m)" for j o''
      using spec that current_iff_member[OF ok, of j o''] by auto
    have "\<not> (\<forall>j o'. is_current j o' m \<longrightarrow> is_current j o' m')" using gone[OF ci] ci by blast
    moreover have "o' = oi" if "is_current i o' m" for o' using is_current_unique[OF ci that] .
    ultimately show ?thesis using gone True v(3,4) least by metis
  qed
qed


theorem session_limit_is_soft:
  assumes "s = tm_run evs (tm_init limit timeout concurrent n)" and "m = ts_mgr s"
    and "dict_get (tm_sessions m) sid = None" and "tm_max m \<le> int (length (tm_sessions m))"
    and "\<forall>i o'. is_current i o' m \<longrightarrow> session_busy (session_at o' m)"
  shows "\<exists>oid m'. get_or_create now sid tenant user life m = (Inr oid, m') \<and>
     tm_max m' < int (length (tm_sessions m')) \<and> length (tm_sessions m') = Suc (length (tm_sessions m))"
proof -
  have ok: "mgr_ok m" unfolding assms(1,2) by (rule tm_okD(1)[OF tm_reach_ok])
  obtain r t where o: "oldest_idle m (None, now) (tm_sessions m) = (r, t)" by fastforce
  have "r = None"
    using oldest_idle_spec[OF o] assms(5) current_iff_member[OF ok] by (auto simp: in_use_def)
  then have e: "evict_oldest now m = m" using o by (simp add: evict_oldest_def)
  obtain oid m' where c: "create_session now sid tenant user life m = (oid, m')" by fastforce
  have n: "sid \<notin> fst ` set (tm_sessions m)" using assms(3) by (simp add: map_of_eq_None_iff)
  have len: "length (tm_sessions m') = Suc (length (tm_sessions m))" and max: "tm_max m' = tm_max m"
    using c assms(4) e dict_set_fresh[OF n] by (auto simp: create_session_def Let_def)
  have "get_or_create now sid tenant user life m = (Inr oid, m')" using assms(3) c by (simp add: get_or_create_def)
  then show ?thesis using len max assms(4) by auto
qed

text \<open>
  Completing a task under the wrong session orphans it: the context of the task goes whatever session
  the caller names, while its own session keeps it among its active tasks, so that the session stays in use,
  cannot be deleted, and the task cannot be cancelled any more.\<close>

theorem foreign_completion_orphans_task:
  assumes "register_task now sid oid task m = (True, m1)" and "mgr_ok m" and "other \<noteq> sid"
    and "\<And>o'. found = Some o' \<Longrightarrow> is_current other o' m1" and "m2 = complete_task other found task m1"
  shows "task \<in> set (sr_tasks (session_at oid m2)) \<and> dict_get (tm_contexts m2) task = None \<and>
     cancel_task sid oid task m2 = (False, m2) \<and> delete_session sid oid m2 = (False, m2)"
proof -
  have cur: "is_current sid oid m" "\<not> sr_deleting (session_at oid m)"
    using assms(1) by (auto simp: register_task_def split: if_splits)
  then have b: "oid < length (tm_heap m)" "sr_session (session_at oid m) = sid" using mgr_okD[OF assms(2)] by blast+
  define m0 where "m0 = upd_session oid (\<lambda>s. s\<lparr>sr_tasks := List.insert task (sr_tasks s)\<rparr>) m"
  have m1: "tm_heap m1 = tm_heap m0" "\<And>i o'. is_current i o' m1 = is_current i o' m"
    using assms(1) cur by (auto simp: register_task_def m0_def is_current_def)
  have at1: "session_at oid m1 = (session_at oid m)\<lparr>sr_tasks := List.insert task (sr_tasks (session_at oid m))\<rparr>"
    using b(1) by (simp add: m1 m0_def session_at_upd)
  have "session_at oid m2 = session_at oid m1"
  proof (cases found)
    case None
    then show ?thesis by (simp add: assms(5) complete_task_def)
  next
    case (Some o')
    have "o' \<noteq> oid"
    proof
      assume "o' = oid"
      then have "is_current other oid m" using assms(4)[OF Some] m1(2) by simp
      then show False using mgr_okD[OF assms(2)] b(2) assms(3) by blast
    qed
    then show ?thesis using Some assms(4)[OF Some] by (simp add: assms(5) complete_task_def upd_session_def)
  qed
  then have "task \<in> set (sr_tasks (session_at oid m2))" by (simp add: at1)
  moreover have "dict_get (tm_contexts m2) task = None"
    by (simp add: assms(5) complete_task_def Let_def dict_get_pop)
  ultimately show ?thesis
    by (auto simp: cancel_task_def delete_session_def session_busy_def)
qed

section \<open>Concrete runs\<close>

definition sample_tm :: tm_system where
  "sample_tm = tm_run [TmOpen 0 1 ''s'' ''t'' ''u'' None, TmEnter 0 1] (tm_init 1 3600 5 2)"

lemma sample_tm_eval:
  "tm_sessions (ts_mgr sample_tm) = [(''s'', 0)]" "is_current ''s'' 0 (ts_mgr sample_tm)"
  "session_busy (session_at 0 (ts_mgr sample_tm))" "ts_procs sample_tm = [ProcInside ''s'' 0 ''t'' ''u'', ProcIdle]"
  "tm_max (ts_mgr sample_tm) = 1"
  by code_simp+

lemma sessions_are_isolated_witness:
  "sr_tenant (session_at 0 (ts_mgr sample_tm)) = ''t'' \<and> sr_contexts (session_at 0 (ts_mgr sample_tm)) = 1"
  using sessions_are_isolated[OF sample_tm_def] sample_tm_eval(2,4) by auto

lemma busy_sessions_survive_witness:
  "is_current ''s'' 0 (ts_mgr (tm_step (TmSweep 100000) sample_tm))"
  by (rule busy_sessions_survive[OF sample_tm_def sample_tm_eval(2,3)]) simp

definition sample_fenced :: tm_system where
  "sample_fenced = tm_run [TmOpen 0 1 ''s'' ''t'' ''u'' None, TmOpenDelete 1 2 ''s'' ''t'' ''u'', TmFence 1] (tm_init 1 3600 5 2)"

lemma sample_fenced_eval:
  "tm_proc_of 1 sample_fenced = ProcFenced ''s'' 0" "is_current ''s'' 0 (ts_mgr sample_fenced)"
  by code_simp+

lemma deletion_fence_holds_witness:
  "dict_get (tm_sessions (ts_mgr (tm_step (TmFinish 1) (tm_run [TmEnter 0 3, TmSweep 100000] sample_fenced)))) ''s'' = None"
  using deletion_fence_holds[OF sample_fenced_def sample_fenced_eval, of "[TmEnter 0 3, TmSweep 100000]", OF _ refl] by simp

definition sample_full :: tm_system where
  "sample_full = tm_run [TmOpen 0 1 ''a'' ''t'' ''u'' None, TmOpen 1 2 ''b'' ''t'' ''u'' None] (tm_init 2 3600 5 2)"

definition sample_evicted :: task_manager where
  "sample_evicted = snd (get_or_create 3 ''c'' ''t'' ''u'' None (ts_mgr sample_full))"

lemma sample_full_eval:
  "dict_get (tm_sessions (ts_mgr sample_full)) ''c'' = None" "dict_get (tm_sessions (ts_mgr sample_full)) [] = None"
  "get_or_create 3 ''c'' ''t'' ''u'' None (ts_mgr sample_full) = (Inr 2, sample_evicted)"
  "is_current ''a'' 0 (ts_mgr sample_full)" "is_current ''b'' 1 (ts_mgr sample_full)"
  "\<not> is_current ''a'' 0 sample_evicted" "\<not> in_use (session_at 1 (ts_mgr sample_full))"
  by code_simp+

lemma eviction_is_lru_witness:
  "sr_activity (session_at 0 (ts_mgr sample_full)) \<le> sr_activity (session_at 1 (ts_mgr sample_full))"
  using eviction_is_lru[OF sample_full_def refl sample_full_eval(1,2,3)] sample_full_eval(4-7) by blast

lemma session_limit_is_soft_witness:
  "\<exists>oid m'. get_or_create 2 ''new'' ''t'' ''u'' None (ts_mgr sample_tm) = (Inr oid, m') \<and> length (tm_sessions m') = 2"
proof -
  have "dict_get (tm_sessions (ts_mgr sample_tm)) ''new'' = None" by (simp add: sample_tm_eval)
  moreover have "\<forall>i o'. is_current i o' (ts_mgr sample_tm) \<longrightarrow> session_busy (session_at o' (ts_mgr sample_tm))"
    using sample_tm_eval by (auto simp: is_current_def split: if_splits)
  ultimately show ?thesis
    using session_limit_is_soft[OF sample_tm_def refl, of "''new''" 2 "''t''" "''u''" None] by (auto simp: sample_tm_eval)
qed

lemma sample_registered:
  "register_task 2 ''s'' 0 ''job'' (ts_mgr sample_tm) = (True, snd (register_task 2 ''s'' 0 ''job'' (ts_mgr sample_tm)))"
  by code_simp

lemma foreign_completion_orphans_task_witness:
  "fst (cancel_task ''s'' 0 ''job'' (complete_task ''gone'' None ''job'' (snd (register_task 2 ''s'' 0 ''job'' (ts_mgr sample_tm))))) = False"
proof -
  have "mgr_ok (ts_mgr sample_tm)" unfolding sample_tm_def by (rule tm_okD(1)[OF tm_reach_ok])
  then show ?thesis
    using foreign_completion_orphans_task[OF sample_registered, of "''gone''" None] by simp
qed

end
