(* ===== verification/Usage_Parser.thy ===== *)
theory Usage_Parser
  imports Py_Value "HOL-Library.While_Combinator" "HOL-Library.Multiset"
begin

text \<open>
  What a response says about the tokens it cost (\<open>src/src/services/metrics/usage_parser.py\<close>). The payload
  is walked breadth first, every dictionary that has a token count under one of the known names is read as
  a report, and the report with the largest total wins. The walk knows containers by an identity and skips
  those it has seen. The payload of the extractors is what \<open>json.loads\<close> returned, a tree, where the identity is
  the position; the walk is also shown to work on object graphs with sharing and cycles.\<close>

section \<open>Names\<close>

definition input_token_keys :: "string list" where
  "input_token_keys = [''input_tokens'', ''prompt_tokens'', ''promptTokenCount'', ''inputTokenCount'']"

definition output_token_keys :: "string list" where
  "output_token_keys = [''output_tokens'', ''completion_tokens'', ''candidatesTokenCount'', ''outputTokenCount'']"

definition total_token_keys :: "string list" where
  "total_token_keys = [''total_tokens'', ''totalTokenCount'']"

definition all_token_keys :: "string list" where
  "all_token_keys = input_token_keys @ output_token_keys @ total_token_keys"

definition model_keys :: "string list" where
  "model_keys = [''model'', ''model_name'', ''model_id'', ''response_model'', ''gen_ai.response.model'',
     ''gen_ai.request.model'']"

definition provider_keys :: "string list" where
  "provider_keys = [''provider'', ''provider_name'', ''vendor'', ''gen_ai.provider.name'']"

definition assistant_keys :: "string list" where
  "assistant_keys = [''assistant_id'', ''graph_id'']"

section \<open>Counts\<close>

text \<open>
  \<open>float(s)\<close>, with the values that are not rational: a literal that rounds beyond the largest double is
  infinite too.\<close>

datatype float_text = FloatValue rat | FloatInf | FloatNan

definition float_limit :: rat where
  "float_limit = 2 ^ 1024 - 2 ^ 970"

definition float_of_text :: "string \<Rightarrow> float_text option" where
  "float_of_text s =
     (let body = py_lower (snd (split_sign (py_strip s))) in
      if body = ''inf'' \<or> body = ''infinity'' then Some FloatInf
      else if body = ''nan'' then Some FloatNan
      else map_option (\<lambda>x. if float_limit \<le> \<bar>x\<bar> then FloatInf else FloatValue x) (parse_decimal s))"

text \<open>\<open>int(float(s))\<close> on a text: \<open>int\<close> of an infinity raises \<open>OverflowError\<close>, of a \<open>nan\<close> \<open>ValueError\<close>.\<close>

definition int_of_float_text :: "string \<Rightarrow> py_exn + int" where
  "int_of_float_text s =
     (case float_of_text s of
        None \<Rightarrow> Inl (ValueError ''could not convert string to float'')
      | Some FloatNan \<Rightarrow> Inl (ValueError ''cannot convert float NaN to integer'')
      | Some FloatInf \<Rightarrow> Inl (OverflowError ''cannot convert float infinity to integer'')
      | Some (FloatValue x) \<Rightarrow> Inr (py_trunc x))"

text \<open>The body of \<open>_to_int\<close>, whose handler catches \<open>ValueError\<close> only.\<close>

definition to_int :: "pyval \<Rightarrow> py_exn + int option" where
  "to_int v =
     (case v of
        PInt n \<Rightarrow> Inr (Some n)
      | PFloat x \<Rightarrow> Inr (Some (py_trunc x))
      | PStr s \<Rightarrow>
          (let raw = py_strip s in
           if raw = [] then Inr None
           else case int_of_float_text raw of
                  Inr n \<Rightarrow> Inr (Some n)
                | Inl (ValueError _) \<Rightarrow> Inr None
                | Inl e \<Rightarrow> Inl e)
      | _ \<Rightarrow> Inr None)"

definition to_text :: "pyval \<Rightarrow> string option" where
  "to_text v = (case v of PStr s \<Rightarrow> (if py_strip s = [] then None else Some (py_strip s)) | _ \<Rightarrow> None)"

fun first_count :: "(string, pyval) py_dict \<Rightarrow> string list \<Rightarrow> py_exn + int option" where
  "first_count d [] = Inr None"
| "first_count d (k # ks) =
     result_bind (to_int (get_val d k)) (\<lambda>p. case p of Some n \<Rightarrow> Inr (Some n) | None \<Rightarrow> first_count d ks)"

record token_usage =
  us_input :: int
  us_output :: int
  us_total :: int

definition normalize_usage_dict :: "(string, pyval) py_dict \<Rightarrow> py_exn + token_usage option" where
  "normalize_usage_dict d =
     (if \<not> list_ex (\<lambda>k. dict_get d k \<noteq> None) all_token_keys then Inr None
      else result_bind (first_count d input_token_keys) (\<lambda>i.
           result_bind (first_count d output_token_keys) (\<lambda>ot.
           result_bind (first_count d total_token_keys) (\<lambda>t.
             let input = (case i of None \<Rightarrow> 0 | Some n \<Rightarrow> max 0 n);
                 output = (case ot of None \<Rightarrow> 0 | Some n \<Rightarrow> max 0 n);
                 total1 = (case t of None \<Rightarrow> input + output | Some n \<Rightarrow> n);
                 total2 = (if total1 < input + output then input + output else total1)
             in Inr (Some \<lparr>us_input = max input 0, us_output = max output 0, us_total = max total2 0\<rparr>)))))"

section \<open>The walk\<close>

definition children :: "pyval \<Rightarrow> pyval list" where
  "children v = (case v of PDict d \<Rightarrow> map snd d | PList vs \<Rightarrow> vs | _ \<Rightarrow> [])"

definition is_container :: "pyval \<Rightarrow> bool" where
  "is_container v = (is_dict v \<or> is_list v)"

type_synonym place = "nat list \<times> pyval"

definition child_places :: "place \<Rightarrow> place list" where
  "child_places x = (case x of (p, v) \<Rightarrow> map (\<lambda>(i, c). (p @ [i], c)) (enumerate 0 (children v)))"

text \<open>
  The walk, over whatever the objects are: \<open>ident\<close> is \<open>id\<close> of a dictionary or a list and nothing of another
  value, \<open>kids\<close> what a container holds. The state is the queue, the identities seen, and what was yielded.\<close>

type_synonym ('n, 'i) walk_state = "'n list \<times> 'i list \<times> 'n list"

fun iter_step :: "('n \<Rightarrow> 'i option) \<Rightarrow> ('n \<Rightarrow> 'n list) \<Rightarrow> ('n, 'i) walk_state \<Rightarrow> ('n, 'i) walk_state" where
  "iter_step ident kids ([], seen, out) = ([], seen, out)"
| "iter_step ident kids (current # queue, seen, out) =
     (case ident current of
        Some i \<Rightarrow> (if i \<in> set seen then (queue, seen, out) else (queue @ kids current, i # seen, out @ [current]))
      | None \<Rightarrow> (queue, seen, out @ [current]))"

definition iter_loop :: "('n \<Rightarrow> 'i option) \<Rightarrow> ('n \<Rightarrow> 'n list) \<Rightarrow> 'n \<Rightarrow> ('n, 'i) walk_state option" where
  "iter_loop ident kids payload =
     while_option (\<lambda>(queue, seen, out). queue \<noteq> []) (iter_step ident kids) ([payload], [], [])"

text \<open>The payloads of the extractors are JSON values, where every container is an object of its own: it is known by
  its position.\<close>

definition place_id :: "place \<Rightarrow> nat list option" where
  "place_id x = (case x of (p, v) \<Rightarrow> if is_container v then Some p else None)"

definition iter_nodes :: "pyval \<Rightarrow> pyval list" where
  "iter_nodes payload =
     (case iter_loop place_id child_places ([], payload) of Some (queue, seen, out) \<Rightarrow> map snd out | None \<Rightarrow> [])"

section \<open>What is extracted\<close>

fun pick_usage :: "token_usage option \<Rightarrow> int \<Rightarrow> pyval list \<Rightarrow> py_exn + token_usage option" where
  "pick_usage best best_total [] = Inr best"
| "pick_usage best best_total (v # vs) =
     (if \<not> is_dict v then pick_usage best best_total vs
      else result_bind (normalize_usage_dict (dict_of v)) (\<lambda>r. case r of
             None \<Rightarrow> pick_usage best best_total vs
           | Some u \<Rightarrow> if best_total < us_total u then pick_usage (Some u) (us_total u) vs
                       else pick_usage best best_total vs))"

definition extract_token_usage :: "pyval \<Rightarrow> py_exn + token_usage option" where
  "extract_token_usage payload = pick_usage None (- 1) (iter_nodes payload)"

fun first_text :: "(string, pyval) py_dict \<Rightarrow> string list \<Rightarrow> string option" where
  "first_text d [] = None"
| "first_text d (k # ks) = (case to_text (get_val d k) of Some s \<Rightarrow> Some s | None \<Rightarrow> first_text d ks)"

fun first_node_text :: "(pyval \<Rightarrow> pyval) \<Rightarrow> string list \<Rightarrow> pyval list \<Rightarrow> string option" where
  "first_node_text part keys [] = None"
| "first_node_text part keys (v # vs) =
     (case (if is_dict (part v) then first_text (dict_of (part v)) keys else None) of
        Some s \<Rightarrow> Some s
      | None \<Rightarrow> first_node_text part keys vs)"

definition extract_string_value :: "pyval \<Rightarrow> string list \<Rightarrow> string option" where
  "extract_string_value payload keys = first_node_text (\<lambda>v. v) keys (iter_nodes payload)"

definition extract_gateway_model_field :: "pyval \<Rightarrow> string list \<Rightarrow> string option" where
  "extract_gateway_model_field payload keys =
     first_node_text (\<lambda>v. get_val (dict_of v) ''gateway_model'') keys (iter_nodes payload)"

definition or_else :: "'a option \<Rightarrow> 'a option \<Rightarrow> 'a option" where
  "or_else x y = (case x of Some a \<Rightarrow> Some a | None \<Rightarrow> y)"

definition extract_model :: "pyval \<Rightarrow> string option" where
  "extract_model payload =
     or_else (extract_gateway_model_field payload [''model'', ''model_id'']) (extract_string_value payload model_keys)"

definition extract_provider :: "pyval \<Rightarrow> string option" where
  "extract_provider payload =
     or_else (extract_gateway_model_field payload [''provider'', ''provider_id''])
       (extract_string_value payload provider_keys)"

definition extract_assistant_id :: "pyval \<Rightarrow> string option" where
  "extract_assistant_id payload = extract_string_value payload assistant_keys"

section \<open>The walk visits every place once\<close>

lemma child_smaller: "(q, c) \<in> set (child_places (p, v)) \<Longrightarrow> size c < size v"
proof -
  assume "(q, c) \<in> set (child_places (p, v))"
  then have "c \<in> set (children v)" by (auto simp: child_places_def in_set_enumerate_eq)
  then show ?thesis
    by (cases v) (auto simp: children_def less_Suc_eq_le size_list_estimation' dest!: size_list_member)
qed

text \<open>All places at or below one, and the positions of the children of a place.\<close>

function below :: "place \<Rightarrow> place list" where
  "below (p, v) = (p, v) # concat (map below (child_places (p, v)))"
  by pat_completeness auto
termination by (relation "measure (\<lambda>(p, v). size v)") (auto dest: child_smaller)

declare below.simps [simp del]

lemma child_positions: "map fst (child_places (p, v)) = map (\<lambda>i. p @ [i]) [0..<length (children v)]"
  by (rule nth_equalityI) (auto simp: child_places_def enumerate_eq_zip)

lemma below_position: "y \<in> set (below x) \<Longrightarrow> \<exists>s. fst y = fst x @ s"
proof (induction x arbitrary: y rule: below.induct)
  case (1 p v)
  show ?case
  proof (cases "y = (p, v)")
    case False
    then obtain z where z: "z \<in> set (child_places (p, v))" "y \<in> set (below z)"
      using "1.prems" by (auto simp: below.simps[of p v])
    have "fst z \<in> set (map fst (child_places (p, v)))" using z(1) by simp
    then obtain i where "fst z = p @ [i]" unfolding child_positions by auto
    then show ?thesis using "1.IH"[OF z] by auto
  qed simp
qed

lemma in_concat_fst: "q \<in> fst ` set (concat (map f xs)) \<Longrightarrow> \<exists>z w. z \<in> set xs \<and> w \<in> set (f z) \<and> q = fst w"
  by (simp only: set_concat set_map image_iff UN_iff) blast

lemma distinct_below_list:
  assumes "distinct (map fst xs)" "\<forall>x \<in> set xs. \<exists>i. fst x = p @ [i]" "\<forall>x \<in> set xs. distinct (map fst (below x))"
  shows "distinct (map fst (concat (map below xs)))"
  using assms
proof (induction xs)
  case (Cons x xs)
  have "fst ` set (below x) \<inter> fst ` set (concat (map below xs)) = {}"
  proof (rule ccontr)
    assume "\<not> ?thesis"
    then obtain q where q: "q \<in> fst ` set (below x)" "q \<in> fst ` set (concat (map below xs))" by blast
    obtain y where y: "y \<in> set (below x)" "q = fst y" using q(1) by (rule imageE)
    obtain z w where z: "z \<in> set xs" "w \<in> set (below z)" "fst y = fst w"
      using in_concat_fst[OF q(2)] y(2) by metis
    obtain i j where ij: "fst x = p @ [i]" "fst z = p @ [j]" using Cons.prems(2) z(1) by auto
    then have "i = j" using below_position[OF y(1)] below_position[OF z(2)] z(3) by auto
    then show False using ij z(1) Cons.prems(1) by (metis distinct.simps(2) image_eqI list.set_map list.simps(9))
  qed
  then show ?case using Cons by auto
qed simp

lemma below_distinct: "distinct (map fst (below x))"
proof (induction x rule: below.induct)
  case (1 p v)
  have form: "\<exists>i. fst x = p @ [i]" if "x \<in> set (child_places (p, v))" for x
  proof -
    have "fst x \<in> set (map fst (child_places (p, v)))" using that by simp
    then show ?thesis unfolding child_positions by auto
  qed
  have "distinct (map fst (child_places (p, v)))" unfolding child_positions by (simp add: distinct_map inj_on_def)
  then have "distinct (map fst (concat (map below (child_places (p, v)))))"
  proof (rule distinct_below_list[where p = p])
    show "\<forall>x \<in> set (child_places (p, v)). \<exists>i. fst x = p @ [i]" using form by (rule ballI)
    show "\<forall>x \<in> set (child_places (p, v)). distinct (map fst (below x))" by (rule ballI) (rule 1)
  qed
  moreover have "p \<notin> fst ` set (concat (map below (child_places (p, v))))"
  proof
    assume "p \<in> fst ` set (concat (map below (child_places (p, v))))"
    from in_concat_fst[OF this] obtain x y
      where x: "x \<in> set (child_places (p, v))" "y \<in> set (below x)" "p = fst y" by metis
    obtain i t where "fst x = p @ [i]" "fst y = fst x @ t" using form[OF x(1)] below_position[OF x(2)] by blast
    then have "length (fst y) = Suc (length p + length t)" by simp
    then show False by (simp add: x(3)[symmetric])
  qed
  ultimately show ?case by (simp add: below.simps)
qed

lemma atom_places: "\<not> is_container v \<Longrightarrow> child_places (p, v) = []"
  by (cases v) (simp_all add: is_container_def is_dict_def is_list_def child_places_def children_def)

definition walked :: "pyval \<Rightarrow> (place, nat list) walk_state \<Rightarrow> bool" where
  "walked payload st = (case st of (queue, seen, out) \<Rightarrow>
     set seen = {q. \<exists>c. (q, c) \<in> set out \<and> is_container c} \<and>
     mset (out @ concat (map below queue)) = mset (below ([], payload)) \<and>
     sorted (map (length \<circ> fst) (out @ queue)) \<and>
     (queue \<noteq> [] \<longrightarrow> (\<forall>x \<in> set queue. length (fst x) \<le> Suc (length (fst (hd queue))))))"

lemma walked_fresh:
  assumes "walked payload ((p, v) # queue, seen, out)"
  shows "p \<notin> set seen"
proof
  assume "p \<in> set seen"
  then have "p \<in> fst ` set out" using assms by (force simp: walked_def)
  moreover have "distinct (map fst (out @ concat (map below ((p, v) # queue))))"
    using assms mset_eq_imp_distinct_iff[of "map fst (out @ concat (map below ((p, v) # queue)))" "map fst (below ([], payload))"]
      below_distinct[of "([], payload)"] by (simp only: walked_def prod.case mset_map)
  moreover have "p \<in> fst ` set (below (p, v))" by (simp add: below.simps)
  ultimately show False by (auto simp: disjoint_iff)
qed

lemma walked_iter_step:
  assumes "walked payload ((p, v) # queue, seen, out)"
  shows "iter_step place_id child_places ((p, v) # queue, seen, out) =
    (queue @ child_places (p, v), if is_container v then p # seen else seen, out @ [(p, v)])"
  using walked_fresh[OF assms] by (simp add: place_id_def atom_places)

lemma walked_step:
  assumes "walked payload ((p, v) # queue, seen, out)"
  shows "walked payload (iter_step place_id child_places ((p, v) # queue, seen, out))"
proof -
  have depth: "length (fst x) = Suc (length p)" if "x \<in> set (child_places (p, v))" for x
    using that by (auto simp: child_places_def)
  have a: "set seen = {q. \<exists>c. (q, c) \<in> set out \<and> is_container c}"
    "mset (out @ concat (map below ((p, v) # queue))) = mset (below ([], payload))"
    "sorted (map (length \<circ> fst) (out @ (p, v) # queue))" "\<forall>x \<in> set queue. length (fst x) \<le> Suc (length p)"
    using assms by (simp_all add: walked_def)
  have sorted: "sorted (map (length \<circ> fst) ((out @ [(p, v)]) @ queue @ child_places (p, v)))"
  proof -
    have "sorted (map (length \<circ> fst) (child_places (p, v)))"
      using depth by (simp add: sorted_iff_nth_mono_less)
    then show ?thesis using a(3,4) depth by (auto simp: sorted_append le_SucI)
  qed
  moreover have "length (fst x) \<le> Suc (length (fst (hd (queue @ child_places (p, v)))))"
    if "x \<in> set (queue @ child_places (p, v))" for x
  proof -
    have "length p \<le> length (fst (hd (queue @ child_places (p, v))))"
      using a(3) depth that by (cases queue; cases "child_places (p, v)") (auto simp: sorted_append)
    then show ?thesis using a(4) depth that by fastforce
  qed
  ultimately show ?thesis
    unfolding walked_iter_step[OF assms]
    using a(1,2) by (auto simp: walked_def below.simps[of p v] ac_simps)
qed

lemma iter_loop_walked:
  "\<exists>seen out. iter_loop place_id child_places ([], payload) = Some ([], seen, out) \<and> walked payload ([], seen, out)"
proof -
  let ?b = "\<lambda>(queue, seen, out). queue \<noteq> []" and ?s = "iter_step place_id child_places"
  let ?P = "walked payload"
  let ?f = "\<lambda>st. length (concat (map below (fst st)))"
  have step: "?P (?s st) \<and> ?f (?s st) < ?f st" if "?P st" "?b st" for st
  proof -
    obtain p v queue seen out where st: "st = ((p, v) # queue, seen, out)"
      using \<open>?b st\<close> by (cases st) (auto simp: neq_Nil_conv)
    show ?thesis
      using walked_step walked_iter_step \<open>?P st\<close> by (simp add: st below.simps[of p v])
  qed
  have init: "?P ([([], payload)], [], [])" by (simp add: walked_def)
  obtain st where st: "iter_loop place_id child_places ([], payload) = Some st"
    unfolding iter_loop_def using measure_while_option_Some[of ?P ?b ?s ?f, OF step init] by blast
  have "?P st" using while_option_rule[where P = ?P, OF _ st[unfolded iter_loop_def] init] step by blast
  moreover have "\<not> ?b st" using while_option_stop[OF st[unfolded iter_loop_def]] .
  ultimately show ?thesis using st by (cases st) auto
qed

section \<open>What the walk finds\<close>

definition places :: "pyval \<Rightarrow> place list" where
  "places payload = below ([], payload)"

lemma iter_nodes_walked:
  obtains dn where "iter_nodes payload = map snd dn" "mset dn = mset (places payload)"
    "sorted (map (length \<circ> fst) dn)"
  using iter_loop_walked[of payload] by (auto simp: iter_nodes_def walked_def places_def)

lemma set_iter_nodes: "set (iter_nodes payload) = snd ` set (places payload)"
  by (metis iter_nodes_walked list.set_map mset_eq_setD)

text \<open>Every value of a JSON payload, at any depth, is yielded once, the outer ones first.\<close>

theorem iter_nodes_all_places:
  "\<exists>dn. iter_nodes payload = map snd dn \<and> mset dn = mset (places payload) \<and> sorted (map (length \<circ> fst) dn)"
  by (rule iter_nodes_walked) blast

section \<open>The walk of an object graph\<close>

text \<open>
  Objects as the walk meets them when a payload is not a tree: a container is a cell of a heap, which others may hold
  as well, or even itself; \<open>id\<close> is the address.\<close>

datatype obj = Atom pyval | Ref nat

datatype cell = DictCell "(string \<times> obj) list" | ListCell "obj list"

type_synonym heap = "cell list"

definition ref_id :: "obj \<Rightarrow> nat option" where
  "ref_id x = (case x of Ref r \<Rightarrow> Some r | Atom v \<Rightarrow> None)"

definition cell_items :: "cell \<Rightarrow> obj list" where
  "cell_items c = (case c of DictCell d \<Rightarrow> map snd d | ListCell xs \<Rightarrow> xs)"

definition ref_kids :: "heap \<Rightarrow> obj \<Rightarrow> obj list" where
  "ref_kids h x = (case x of Ref r \<Rightarrow> cell_items (h ! r) | Atom v \<Rightarrow> [])"

text \<open>What can be reached from an object, in how many steps into a dictionary or a list.\<close>

inductive reached :: "heap \<Rightarrow> obj \<Rightarrow> nat \<Rightarrow> obj \<Rightarrow> bool" for h start where
  reached_start: "reached h start 0 start"
| reached_dict: "reached h start n (Ref r) \<Longrightarrow> h ! r = DictCell d \<Longrightarrow> (k, x) \<in> set d \<Longrightarrow> reached h start (Suc n) x"
| reached_list: "reached h start n (Ref r) \<Longrightarrow> h ! r = ListCell xs \<Longrightarrow> x \<in> set xs \<Longrightarrow> reached h start (Suc n) x"

definition in_heap :: "heap \<Rightarrow> obj \<Rightarrow> bool" where
  "in_heap h x = (case x of Ref r \<Rightarrow> r < length h | Atom v \<Rightarrow> True)"

definition heap_ok :: "heap \<Rightarrow> bool" where
  "heap_ok h \<longleftrightarrow> list_all (\<lambda>c. list_all (in_heap h) (cell_items c)) h"

definition is_atom :: "obj \<Rightarrow> bool" where
  "is_atom x = (case x of Atom v \<Rightarrow> True | Ref r \<Rightarrow> False)"

definition refs_in :: "obj list \<Rightarrow> nat list" where
  "refs_in xs = concat (map (\<lambda>x. case x of Ref r \<Rightarrow> [r] | Atom v \<Rightarrow> []) xs)"

lemma refs_in_simps [simp]:
  "refs_in [] = []" "refs_in (xs @ ys) = refs_in xs @ refs_in ys" "refs_in (Ref r # xs) = r # refs_in xs"
  "refs_in (Atom v # xs) = refs_in xs"
  by (simp_all add: refs_in_def)

lemma set_refs_in [simp]: "r \<in> set (refs_in xs) \<longleftrightarrow> Ref r \<in> set xs"
  by (auto simp: refs_in_def split: obj.splits)

lemma reached_kid: "reached h start n x \<Longrightarrow> y \<in> set (ref_kids h x) \<Longrightarrow> reached h start (Suc n) y"
proof (cases x)
  case (Ref r)
  assume x: "reached h start n x" "y \<in> set (ref_kids h x)"
  show ?thesis
  proof (cases "h ! r")
    case (DictCell d)
    then obtain k where "(k, y) \<in> set d" using x(2) by (auto simp: Ref ref_kids_def cell_items_def)
    then show ?thesis by (rule reached_dict[OF x(1)[unfolded Ref] DictCell])
  next
    case (ListCell xs)
    then show ?thesis using x(2) by (intro reached_list[OF x(1)[unfolded Ref] ListCell]) (simp add: Ref ref_kids_def cell_items_def)
  qed
qed (simp add: ref_kids_def)

lemma ref_kids_simps [simp]: "ref_kids h (Atom v) = []" "ref_kids h (Ref r) = cell_items (h ! r)"
  by (simp_all add: ref_kids_def)

text \<open>
  The walk with the depths at which objects were put into the queue. They grow along what was yielded and what
  is waiting, within one level; and what a yielded container holds was yielded or waits, at most one level deeper.\<close>

definition traced :: "heap \<Rightarrow> obj \<Rightarrow> (obj \<times> nat) list \<Rightarrow> nat list \<Rightarrow> (obj \<times> nat) list \<Rightarrow> bool" where
  "traced h start Q seen O' \<longleftrightarrow>
     set seen = set (refs_in (map fst O')) \<and> distinct (refs_in (map fst O')) \<and>
     (\<forall>(x, d) \<in> set (O' @ Q). reached h start d x \<and> in_heap h x) \<and> sorted (map snd (O' @ Q)) \<and>
     (\<forall>(y, e) \<in> set Q. e \<le> Suc (snd (hd Q))) \<and> (start, 0) \<in> set (O' @ Q) \<and>
     (\<forall>(x, d) \<in> set O'. \<forall>y \<in> set (ref_kids h x). \<exists>d' \<le> Suc d. (y, d') \<in> set (O' @ Q)) \<and>
     mset (filter is_atom (map fst (O' @ Q))) =
       mset (filter is_atom [start]) + mset (filter is_atom (concat (map (ref_kids h) (map fst O'))))"

lemma traced_atom:
  assumes "traced h start ((Atom v, d) # Q) seen O'"
  shows "traced h start Q seen (O' @ [(Atom v, d)])"
proof -
  have "d \<le> snd (hd Q)" if "Q \<noteq> []"
    using assms that by (cases Q) (auto simp: traced_def sorted_append)
  then have "\<forall>(y, e) \<in> set Q. e \<le> Suc (snd (hd Q))"
    using assms unfolding traced_def by (fastforce dest: order_trans)
  then show ?thesis using assms unfolding traced_def by auto
qed

lemma traced_again:
  assumes "traced h start ((Ref r, d) # Q) seen O'" "r \<in> set seen"
  shows "traced h start Q seen O'"
proof -
  obtain d0 where d0: "(Ref r, d0) \<in> set O'" using assms by (auto simp: traced_def)
  have "d0 \<le> d" using assms(1) d0 by (force simp: traced_def sorted_append)
  then have again: "\<exists>d' \<le> m. (y, d') \<in> set (O' @ Q)" if "\<exists>d' \<le> m. (y, d') \<in> set (O' @ (Ref r, d) # Q)" for y m
    using that d0 by (auto intro: order_trans)
  have "d \<le> snd (hd Q)" if "Q \<noteq> []"
    using assms that by (cases Q) (auto simp: traced_def sorted_append)
  then have "\<forall>(y, e) \<in> set Q. e \<le> Suc (snd (hd Q))"
    using assms(1) unfolding traced_def by (fastforce dest: order_trans)
  moreover have "(start, 0) \<in> set (O' @ Q)"
    using assms(1) again[of 0 start] by (auto simp: traced_def)
  moreover have "\<forall>(x, d) \<in> set O'. \<forall>y \<in> set (ref_kids h x). \<exists>d' \<le> Suc d. (y, d') \<in> set (O' @ Q)"
    using assms(1) again unfolding traced_def by fast
  moreover have "sorted (map snd (O' @ Q))" using assms(1) by (auto simp: traced_def sorted_append)
  ultimately show ?thesis using assms(1) by (simp add: traced_def is_atom_def)
qed

lemma tracedD:
  assumes "traced h start Q seen O'"
  shows "set seen = set (refs_in (map fst O'))" "distinct (refs_in (map fst O'))"
    "(x, d) \<in> set (O' @ Q) \<Longrightarrow> reached h start d x" "(x, d) \<in> set (O' @ Q) \<Longrightarrow> in_heap h x"
    "sorted (map snd (O' @ Q))" "(y, e) \<in> set Q \<Longrightarrow> e \<le> Suc (snd (hd Q))" "(start, 0) \<in> set (O' @ Q)"
    "(x, d) \<in> set O' \<Longrightarrow> y \<in> set (ref_kids h x) \<Longrightarrow> \<exists>d' \<le> Suc d. (y, d') \<in> set (O' @ Q)"
    "mset (filter is_atom (map fst (O' @ Q))) =
       mset (filter is_atom [start]) + mset (filter is_atom (concat (map (ref_kids h) (map fst O'))))"
  using assms unfolding traced_def by blast+

lemma traced_new:
  assumes tr: "traced h start ((Ref r, d) # Q) seen O'" and r: "r \<notin> set seen" and ok: "heap_ok h"
  shows "traced h start (Q @ map (\<lambda>y. (y, Suc d)) (cell_items (h ! r))) (r # seen) (O' @ [(Ref r, d)])"
proof -
  let ?K = "map (\<lambda>y. (y, Suc d)) (cell_items (h ! r))" and ?O = "O' @ [(Ref r, d)]"
  note t = tracedD[OF tr]
  have at: "reached h start d (Ref r)" "r < length h" using t(3)[of "Ref r" d] t(4)[of "Ref r" d] by (auto simp: in_heap_def)
  have K: "reached h start e y \<and> in_heap h y \<and> e = Suc d" if "(y, e) \<in> set ?K" for y e
    using that ok at(2) reached_kid[OF at(1), of y] by (auto simp: heap_ok_def list_all_iff)
  have e: "d \<le> e \<and> e \<le> Suc d" if "(y, e) \<in> set Q" for y e
    using that t(5) t(6)[of y e] by (auto simp: sorted_append)
  have "sorted (map snd ?K)" by (simp add: comp_def sorted_wrt_map)
  then have s: "sorted (map snd (?O @ Q @ ?K))"
    using t(5) K e by (fastforce simp: sorted_append)
  have hd: "e \<le> Suc (snd (hd (Q @ ?K)))" if "(y, e) \<in> set (Q @ ?K)" for y e
  proof -
    have "Q @ ?K \<noteq> []" using that by auto
    then have "(fst (hd (Q @ ?K)), snd (hd (Q @ ?K))) \<in> set (Q @ ?K)"
      using hd_in_set by (simp only: prod.collapse)
    then have "d \<le> snd (hd (Q @ ?K))" using e K by (metis Un_iff le_SucI order_refl set_append)
    moreover have "e \<le> Suc d" using that e K by (metis Un_iff order_refl set_append)
    ultimately show ?thesis by linarith
  qed
  have kids: "\<exists>d'' \<le> Suc d'. (y, d'') \<in> set (?O @ Q @ ?K)" if "(x, d') \<in> set ?O" "y \<in> set (ref_kids h x)" for x d' y
  proof (cases "(x, d') \<in> set O'")
    case True
    with t(8)[OF True that(2)] show ?thesis by auto
  next
    case False
    with that show ?thesis by auto
  qed
  have "mset (filter is_atom (map fst (?O @ Q @ ?K))) =
      mset (filter is_atom [start]) + mset (filter is_atom (concat (map (ref_kids h) (map fst ?O))))"
    using t(9) by (simp add: is_atom_def comp_def)
  moreover have "set (r # seen) = set (refs_in (map fst ?O))" using t(1) by auto
  moreover have "distinct (refs_in (map fst ?O))" using t(1,2) r by auto
  moreover have "\<forall>(x, d) \<in> set (?O @ Q @ ?K). reached h start d x \<and> in_heap h x"
    using t(3,4) K by fastforce
  moreover have "(start, 0) \<in> set (?O @ Q @ ?K)" using t(7) by auto
  ultimately show ?thesis
    unfolding traced_def by (intro conjI s) (use hd kids in \<open>assumption | blast\<close>)+
qed

lemma traced_reaches:
  assumes tr: "traced h start [] seen O'" and "reached h start m y"
  shows "\<exists>d \<le> m. (y, d) \<in> set O'"
  using assms(2)
proof induction
  case reached_start
  then show ?case using tracedD(7)[OF tr] by auto
next
  case (reached_dict n r d k x)
  then obtain d0 where d0: "d0 \<le> n" "(Ref r, d0) \<in> set O'" by blast
  have "x \<in> set (ref_kids h (Ref r))" using reached_dict by (force simp: cell_items_def)
  from tracedD(8)[OF tr d0(2) this] d0(1) show ?case by (auto intro: order_trans)
next
  case (reached_list n r xs x)
  then obtain d0 where d0: "d0 \<le> n" "(Ref r, d0) \<in> set O'" by blast
  have "x \<in> set (ref_kids h (Ref r))" using reached_list by (simp add: cell_items_def)
  from tracedD(8)[OF tr d0(2) this] d0(1) show ?case by (auto intro: order_trans)
qed

text \<open>Every step takes one object from the queue, and puts into it what a cell holds once.\<close>

definition walk_measure :: "heap \<Rightarrow> (obj, nat) walk_state \<Rightarrow> nat" where
  "walk_measure h st = (case st of (queue, seen, out) \<Rightarrow>
     length queue + (\<Sum>r \<in> {..<length h} - set seen. length (cell_items (h ! r))))"

definition traced_state :: "heap \<Rightarrow> obj \<Rightarrow> (obj, nat) walk_state \<Rightarrow> bool" where
  "traced_state h start st \<longleftrightarrow> (\<exists>Q seen O'. st = (map fst Q, seen, map fst O') \<and> traced h start Q seen O')"

lemma traced_state_step:
  assumes "traced_state h start st" "fst st \<noteq> []" "heap_ok h"
  shows "traced_state h start (iter_step ref_id (ref_kids h) st) \<and>
    walk_measure h (iter_step ref_id (ref_kids h) st) < walk_measure h st"
proof -
  obtain x d Q seen O' where st: "st = (x # map fst Q, seen, map fst O')" and tr: "traced h start ((x, d) # Q) seen O'"
    using assms(1,2) unfolding traced_state_def by (auto simp: neq_Nil_conv)
  show ?thesis
  proof (cases x)
    case (Atom v)
    have "traced_state h start (map fst Q, seen, map fst (O' @ [(Atom v, d)]))"
      using traced_atom tr unfolding traced_state_def Atom by blast
    then show ?thesis by (simp add: st Atom ref_id_def walk_measure_def)
  next
    case (Ref r)
    show ?thesis
    proof (cases "r \<in> set seen")
      case True
      then show ?thesis using traced_again[OF tr[unfolded Ref]] unfolding traced_state_def
        by (auto simp: st Ref ref_id_def walk_measure_def)
    next
      case False
      let ?K = "map (\<lambda>y. (y, Suc d)) (cell_items (h ! r))"
      have "traced_state h start (map fst (Q @ ?K), r # seen, map fst (O' @ [(Ref r, d)]))"
        using traced_new[OF tr[unfolded Ref] False assms(3)] unfolding traced_state_def by blast
      moreover have "r < length h" using tracedD(4)[OF tr[unfolded Ref], of "Ref r" d] by (simp add: in_heap_def)
      then have "(\<Sum>i \<in> {..<length h} - set seen. length (cell_items (h ! i))) = length (cell_items (h ! r)) +
          (\<Sum>i \<in> {..<length h} - set (r # seen). length (cell_items (h ! i)))"
        using False by (subst sum.remove[of _ r]) (auto simp: set_diff_eq intro: sum.cong)
      ultimately show ?thesis
        using False by (simp add: st Ref ref_id_def walk_measure_def comp_def)
    qed
  qed
qed

lemma split_two:
  assumes "i < j" "j < length xs"
  shows "\<exists>a b c. xs = a @ [xs ! i] @ b @ [xs ! j] @ c"
proof -
  have "xs = take i xs @ xs ! i # drop (Suc i) xs" using assms by (simp add: id_take_nth_drop)
  moreover have "drop (Suc i) xs ! (j - Suc i) = xs ! j" "j - Suc i < length (drop (Suc i) xs)" using assms by simp_all
  then have "drop (Suc i) xs = take (j - Suc i) (drop (Suc i) xs) @ xs ! j # drop (Suc (j - Suc i)) (drop (Suc i) xs)"
    by (metis id_take_nth_drop)
  ultimately show ?thesis by (metis append_Cons append_Nil)
qed

lemma graph_walk_traced:
  assumes "heap_ok h" "in_heap h start"
  shows "\<exists>seen O'. iter_loop ref_id (ref_kids h) start = Some ([], seen, map fst O') \<and> traced h start [] seen O'"
proof -
  let ?b = "\<lambda>(queue, seen, out). queue \<noteq> []" and ?s = "iter_step ref_id (ref_kids h)"
  have step: "traced_state h start (?s st) \<and> walk_measure h (?s st) < walk_measure h st"
    if "traced_state h start st" "?b st" for st
    using traced_state_step[OF that(1) _ assms(1)] that(2) by (cases st) simp
  have "traced h start [(start, 0)] [] []"
    using assms(2) by (simp add: traced_def reached_start)
  then have init: "traced_state h start ([start], [], [])"
    unfolding traced_state_def by (intro exI[of _ "[(start, 0)]"] exI[of _ "[]"]) simp
  obtain st where st: "iter_loop ref_id (ref_kids h) start = Some st"
    unfolding iter_loop_def using measure_while_option_Some[of "traced_state h start" ?b ?s "walk_measure h", OF step init]
    by blast
  have "traced_state h start st"
    using while_option_rule[where P = "traced_state h start", OF _ st[unfolded iter_loop_def] init] step by blast
  moreover have "\<not> ?b st" using while_option_stop[OF st[unfolded iter_loop_def]] .
  ultimately show ?thesis using st unfolding traced_state_def by auto
qed

text \<open>
  C34: The walk ends, on payloads where containers are shared or contain themselves as well. It yields exactly what
  can be reached through dictionaries and lists: every container once, and any other value once for each place
  that holds it, of those in the containers yielded. And it goes breadth first: nothing that is yielded before a
  container is further from the payload than it.\<close>

theorem walk_terminates:
  assumes "heap_ok h" and "in_heap h start"
  shows "\<exists>seen out. iter_loop ref_id (ref_kids h) start = Some ([], seen, out) \<and>
     distinct (refs_in out) \<and> (\<forall>x. x \<in> set out \<longleftrightarrow> (\<exists>n. reached h start n x)) \<and>
     mset (filter is_atom out) =
       mset (filter is_atom [start]) + mset (filter is_atom (concat (map (ref_kids h) out))) \<and>
     (\<forall>i j r. i < j \<longrightarrow> j < length out \<longrightarrow> out ! j = Ref r \<longrightarrow>
        (\<exists>n. reached h start n (out ! i) \<and> (\<forall>m. reached h start m (Ref r) \<longrightarrow> n \<le> m)))"
proof -
  obtain seen O' where w: "iter_loop ref_id (ref_kids h) start = Some ([], seen, map fst O')"
    and tr: "traced h start [] seen O'" using graph_walk_traced[OF assms] by blast
  note t = tracedD[OF tr, simplified]
  have all: "x \<in> set (map fst O') \<longleftrightarrow> (\<exists>n. reached h start n x)" for x
    using t(3)[of x] traced_reaches[OF tr, of _ x] by force
  have "\<exists>n. reached h start n (map fst O' ! i) \<and> (\<forall>m. reached h start m (Ref r) \<longrightarrow> n \<le> m)"
    if ij: "i < j" "j < length O'" and r: "fst (O' ! j) = Ref r" for i j r
  proof (intro exI[of _ "snd (O' ! i)"] conjI allI impI)
    show "reached h start (snd (O' ! i)) (map fst O' ! i)"
      using t(3)[of "fst (O' ! i)" "snd (O' ! i)"] ij by simp
    fix m assume "reached h start m (Ref r)"
    then obtain d where d: "d \<le> m" "(Ref r, d) \<in> set O'" using traced_reaches[OF tr] by blast
    then obtain k where k: "k < length O'" "O' ! k = (Ref r, d)" by (metis in_set_conv_nth)
    have "k = j"
    proof (rule ccontr)
      assume "k \<noteq> j"
      then have "\<exists>a b c. O' = a @ [O' ! min k j] @ b @ [O' ! max k j] @ c"
        using k(1) ij(2) by (intro split_two) (auto simp: min_def max_def)
      then obtain a b c where "O' = a @ [O' ! min k j] @ b @ [O' ! max k j] @ c" by blast
      then have "map fst O' = map fst a @ [fst (O' ! min k j)] @ map fst b @ [fst (O' ! max k j)] @ map fst c"
        by (metis list.simps(8,9) map_append)
      moreover have "fst (O' ! min k j) = Ref r" "fst (O' ! max k j) = Ref r" using k(2) r by (auto simp: min_def max_def)
      ultimately show False using t(2) by simp
    qed
    moreover have "snd (O' ! i) \<le> snd (O' ! j)" using t(5) ij by (simp add: sorted_iff_nth_mono_less)
    ultimately show "snd (O' ! i) \<le> m" using k(2) d(1) by simp
  qed
  then show ?thesis using w t(2) all t(9) by (intro exI[of _ seen] exI[of _ "map fst O'"]) simp
qed

definition reports :: "pyval list \<Rightarrow> token_usage set" where
  "reports vs = {u. \<exists>d. PDict d \<in> set vs \<and> normalize_usage_dict d = Inr (Some u)}"

lemma reports_Cons:
  "reports (v # vs) = (if is_dict v then (case normalize_usage_dict (dict_of v) of Inr (Some u) \<Rightarrow> {u} | _ \<Rightarrow> {}) else {})
     \<union> reports vs"
  by (cases v) (auto simp: reports_def is_dict_def dict_of_def split: sum.splits option.splits)

lemma usage_counts:
  assumes "normalize_usage_dict d = Inr (Some u)"
  shows "0 \<le> us_input u \<and> 0 \<le> us_output u \<and> us_input u + us_output u \<le> us_total u"
  using assms by (auto simp: normalize_usage_dict_def result_bind_Inr Let_def split: if_splits option.splits)

lemma pick_usage_spec:
  assumes "pick_usage best t vs = Inr r" "case best of None \<Rightarrow> t = - 1 | Some u \<Rightarrow> t = us_total u"
  shows "(case r of None \<Rightarrow> best = None \<and> reports vs = {}
     | Some u \<Rightarrow> (best = Some u \<or> u \<in> reports vs) \<and> t \<le> us_total u \<and> (\<forall>u' \<in> reports vs. us_total u' \<le> us_total u))"
  using assms
proof (induction vs arbitrary: best t)
  case (Cons v vs)
  show ?case
  proof (cases "is_dict v")
    case False
    then show ?thesis using Cons.IH[OF _ Cons.prems(2)] Cons.prems(1) by (cases r) (simp_all add: reports_Cons)
  next
    case True
    obtain n where n: "normalize_usage_dict (dict_of v) = Inr n" using Cons.prems(1) True by (auto simp: result_bind_Inr)
    show ?thesis
    proof (cases n)
      case None
      then show ?thesis using Cons.IH[OF _ Cons.prems(2)] Cons.prems(1) True n by (cases r) (simp_all add: reports_Cons)
    next
      case (Some u)
      then have "normalize_usage_dict (dict_of v) = Inr (Some u)" using n by simp
      note u = usage_counts[OF this]
      show ?thesis
      proof (cases "t < us_total u")
        case True
        then have "pick_usage (Some u) (us_total u) vs = Inr r" using Cons.prems(1) \<open>is_dict v\<close> n Some by simp
        from Cons.IH[OF this] show ?thesis
          using True n Some \<open>is_dict v\<close> by (cases r) (auto simp: reports_Cons)
      next
        case False
        then have "pick_usage best t vs = Inr r" using Cons.prems(1) \<open>is_dict v\<close> n Some by simp
        from Cons.IH[OF this Cons.prems(2)] show ?thesis
          using False n Some u Cons.prems(2) \<open>is_dict v\<close> by (cases r) (auto simp: reports_Cons split: option.splits)
      qed
    qed
  qed
qed (auto simp: reports_def split: option.splits)

lemma pick_usage_raises: "isl (pick_usage best t vs) \<longleftrightarrow> (\<exists>d. PDict d \<in> set vs \<and> isl (normalize_usage_dict d))"
proof (induction vs arbitrary: best t)
  case (Cons v vs)
  show ?case
  proof (cases "is_dict v")
    case False
    then show ?thesis using Cons by (auto simp: is_dict_def)
  next
    case True
    then obtain d where v: "v = PDict d" by (auto simp: is_dict_def split: pyval.splits)
    show ?thesis
    proof (cases "normalize_usage_dict d")
      case (Inl e)
      then show ?thesis by (auto simp: v is_dict_def dict_of_def)
    next
      case (Inr n)
      then show ?thesis using Cons.IH by (auto simp: v is_dict_def dict_of_def split: option.splits)
    qed
  qed
qed simp

text \<open>
  C35: The largest report wins. The usage extracted from a payload is one that a dictionary of the payload
  reports, at whatever depth, and no dictionary reports a larger total; nothing is extracted exactly when
  no dictionary reports; its counts are not negative and the total covers both.\<close>

theorem extracted_usage_is_the_largest:
  assumes "extract_token_usage payload = Inr r"
  shows "case r of
      None \<Rightarrow> reports (map snd (places payload)) = {}
    | Some u \<Rightarrow> u \<in> reports (map snd (places payload)) \<and>
        (\<forall>u' \<in> reports (map snd (places payload)). us_total u' \<le> us_total u) \<and>
        0 \<le> us_input u \<and> 0 \<le> us_output u \<and> us_input u + us_output u \<le> us_total u"
proof -
  have same: "reports (iter_nodes payload) = reports (map snd (places payload))"
    by (simp add: reports_def set_iter_nodes)
  have "pick_usage None (- 1) (iter_nodes payload) = Inr r" using assms by (simp add: extract_token_usage_def)
  from pick_usage_spec[OF this] show ?thesis
    unfolding same using usage_counts by (auto simp: reports_def split: option.splits)
qed

lemma extraction_raises:
  "isl (extract_token_usage payload) \<longleftrightarrow>
     (\<exists>p d. (p, PDict d) \<in> set (places payload) \<and> isl (normalize_usage_dict d))"
  unfolding extract_token_usage_def pick_usage_raises by (force simp: set_iter_nodes)

text \<open>
  An infinite count is not caught. If some dictionary of the payload, at whatever depth, has as its first
  input count a text that \<open>float\<close> reads as an infinity, the extraction raises, whatever else the payload
  reports: the handler catches \<open>ValueError\<close>, and \<open>int\<close> raises \<open>OverflowError\<close>.\<close>

theorem infinite_count_escapes:
  assumes "(p, PDict d) \<in> set (places payload)" "get_val d ''input_tokens'' = PStr s"
    "float_of_text (py_strip s) = Some FloatInf"
  shows "isl (extract_token_usage payload)"
proof -
  have "float_of_text [] = None"
    by (simp add: float_of_text_def parse_decimal_def split_sign_def py_strip_def py_lower_def parse_mantissa_def
        parse_digits_def)
  then have "py_strip s \<noteq> []" using assms(3) by auto
  moreover have "dict_get d ''input_tokens'' \<noteq> None" using assms(2) by (auto simp: get_val_def split: option.splits)
  ultimately have "isl (normalize_usage_dict d)"
    using assms(2,3) by (simp add: normalize_usage_dict_def all_token_keys_def input_token_keys_def to_int_def
        int_of_float_text_def Let_def)
  then show ?thesis using assms(1) extraction_raises by blast
qed

lemma first_node_text_split:
  "first_node_text part keys (map snd dn) = Some s \<Longrightarrow>
     \<exists>xs p v ys. dn = xs @ (p, v) # ys \<and> is_dict (part v) \<and> first_text (dict_of (part v)) keys = Some s \<and>
       (\<forall>x \<in> set xs. is_dict (part (snd x)) \<longrightarrow> first_text (dict_of (part (snd x))) keys = None)"
proof (induction dn)
  case (Cons x dn)
  obtain p v where x: "x = (p, v)" by (cases x)
  show ?case
  proof (cases "if is_dict (part v) then first_text (dict_of (part v)) keys else None")
    case None
    then obtain xs q w ys where "dn = xs @ (q, w) # ys" "is_dict (part w)" "first_text (dict_of (part w)) keys = Some s"
      "\<forall>x \<in> set xs. is_dict (part (snd x)) \<longrightarrow> first_text (dict_of (part (snd x))) keys = None"
      using Cons x by auto
    then show ?thesis using None x by (intro exI[of _ "x # xs"] exI[of _ q] exI[of _ w] exI[of _ ys]) (auto split: if_splits)
  next
    case (Some t)
    then have "is_dict (part v)" "first_text (dict_of (part v)) keys = Some s"
      using Cons.prems x by (auto split: if_splits)
    then show ?thesis using x by (intro exI[of _ "[]"] exI[of _ p] exI[of _ v] exI[of _ dn]) simp
  qed
qed simp

text \<open>
  The outermost name wins. A model, provider or assistant read from a payload is the first non-blank
  text under the known names in some dictionary of the payload, and no dictionary less deep has one.\<close>

theorem extracted_name_is_outermost:
  assumes "extract_string_value payload keys = Some s"
  shows "\<exists>p d. (p, PDict d) \<in> set (places payload) \<and> first_text d keys = Some s \<and>
    (\<forall>q d'. (q, PDict d') \<in> set (places payload) \<and> first_text d' keys \<noteq> None \<longrightarrow> length p \<le> length q)"
proof -
  obtain dn where dn: "iter_nodes payload = map snd dn" "mset dn = mset (places payload)"
    "sorted (map (length \<circ> fst) dn)" by (rule iter_nodes_walked)
  obtain xs p v ys where c: "dn = xs @ (p, v) # ys" "is_dict v" "first_text (dict_of v) keys = Some s"
    "\<forall>x \<in> set xs. is_dict (snd x) \<longrightarrow> first_text (dict_of (snd x)) keys = None"
    using first_node_text_split[of "\<lambda>v. v" keys dn s] assms by (auto simp: extract_string_value_def dn(1))
  have places: "set (places payload) = set dn" using dn(2) by (metis mset_eq_setD)
  have "length p \<le> length q" if "(q, PDict d') \<in> set dn" "first_text d' keys \<noteq> None" for q d'
  proof -
    have "(q, PDict d') \<notin> set xs"
    proof
      assume "(q, PDict d') \<in> set xs"
      then show False using bspec[OF c(4)] that(2) by (force simp: is_dict_def dict_of_def)
    qed
    then show ?thesis using that(1) c(1) dn(3) by (auto simp: sorted_append)
  qed
  moreover have "(p, PDict (dict_of v)) \<in> set dn" using c(1) is_dict_dict_of[OF c(2)] by simp
  ultimately show ?thesis using c(3) unfolding places by blast
qed

section \<open>Concrete payloads\<close>

definition sample_payload :: pyval where
  "sample_payload = PDict [(''model'', PStr '' gpt-4o ''), (''parts'', PList [
     PDict [(''usage'', PDict [(''prompt_tokens'', PInt 7), (''completion_tokens'', PFloat (11 / 2))])],
     PDict [(''model'', PStr ''inner''), (''total_tokens'', PInt 9)]])]"

lemma sample_extraction:
  "extract_token_usage sample_payload = Inr (Some \<lparr>us_input = 7, us_output = 5, us_total = 12\<rparr>)"
  "extract_model sample_payload = Some ''gpt-4o''"
  by code_simp+

lemma extracted_usage_is_the_largest_witness:
  "\<lparr>us_input = 7, us_output = 5, us_total = 12\<rparr> \<in> reports (map snd (places sample_payload))"
  using extracted_usage_is_the_largest[OF sample_extraction(1)] by simp

lemma sample_name: "extract_string_value sample_payload model_keys = Some ''gpt-4o''"
  by code_simp

lemma sample_places: "([], sample_payload) \<in> set (places sample_payload)"
  by (simp add: places_def sample_payload_def below.simps)

lemma extracted_name_is_outermost_witness:
  "\<exists>d. ([], PDict d) \<in> set (places sample_payload) \<and> first_text d model_keys = Some ''gpt-4o''"
proof -
  obtain p d where d: "(p, PDict d) \<in> set (places sample_payload)" "first_text d model_keys = Some ''gpt-4o''"
    "\<forall>q d'. (q, PDict d') \<in> set (places sample_payload) \<and> first_text d' model_keys \<noteq> None \<longrightarrow> length p \<le> length q"
    using extracted_name_is_outermost[OF sample_name] by blast
  have s: "sample_payload = PDict (dict_of sample_payload)" by (simp add: sample_payload_def dict_of_def)
  have "first_text (dict_of sample_payload) model_keys \<noteq> None" by code_simp
  then have "length p \<le> 0" using d(3) sample_places s by (metis list.size(3))
  then show ?thesis using d(1,2) by auto
qed

text \<open>A dictionary that holds itself, a list it shares, and a number: two containers and one value.\<close>

definition cyclic_heap :: heap where
  "cyclic_heap = [DictCell [(''self'', Ref 0), (''a'', Ref 1), (''b'', Ref 1)], ListCell [Atom (PInt 7), Ref 0]]"

lemma walk_terminates_witness:
  "(\<exists>seen out. iter_loop ref_id (ref_kids cyclic_heap) (Ref 0) = Some ([], seen, out) \<and> distinct (refs_in out) \<and>
     Atom (PInt 7) \<in> set out) \<and>
   map_option (\<lambda>(q, seen, out). out) (iter_loop ref_id (ref_kids cyclic_heap) (Ref 0)) =
     Some [Ref 0, Ref 1, Atom (PInt 7)]"
proof -
  have ok: "heap_ok cyclic_heap" "in_heap cyclic_heap (Ref 0)"
    by (simp_all add: heap_ok_def cyclic_heap_def cell_items_def in_heap_def)
  have "reached cyclic_heap (Ref 0) 1 (Ref 1)"
    using reached_dict[OF reached_start, of cyclic_heap 0 _ "''a''" "Ref 1"] by (simp add: cyclic_heap_def)
  from reached_list[OF this, of "[Atom (PInt 7), Ref 0]" "Atom (PInt 7)"]
  have "\<exists>n. reached cyclic_heap (Ref 0) n (Atom (PInt 7))" by (auto simp: cyclic_heap_def)
  moreover have "map_option (\<lambda>(q, seen, out). out) (iter_loop ref_id (ref_kids cyclic_heap) (Ref 0)) =
     Some [Ref 0, Ref 1, Atom (PInt 7)]" by code_simp
  ultimately show ?thesis using walk_terminates[OF ok] by blast
qed

definition infinite_payload :: pyval where
  "infinite_payload = PList [PDict [(''input_tokens'', PStr '' -Infinity'')], PDict [(''total_tokens'', PInt 9)]]"

lemma infinite_payload_place: "([0], PDict [(''input_tokens'', PStr '' -Infinity'')]) \<in> set (places infinite_payload)"
  by (simp add: places_def infinite_payload_def below.simps child_places_def children_def enumerate_eq_zip)

lemma infinite_count_escapes_witness: "isl (extract_token_usage infinite_payload)"
proof (rule infinite_count_escapes[OF infinite_payload_place])
  show "get_val [(''input_tokens'', PStr '' -Infinity'')] ''input_tokens'' = PStr '' -Infinity''" by (simp add: get_val_def)
  show "float_of_text (py_strip '' -Infinity'') = Some FloatInf" by code_simp
qed

end
