(* ===== verification/Observability.thy ===== *)
theory Observability
  imports Usage_Parser
begin

text \<open>
  How a request spent its time and why it failed
  (\<open>src/packages/ai-gateway-core/src/ai_gateway_core/metrics/observability.py\<close>): the class of an error, the
  durations found anywhere in a payload, the breakdown that fills the total, and the sampling of traces.
  \<open>repr\<close> renders a container as text.\<close>

section \<open>Errors\<close>

definition contains_any :: "string \<Rightarrow> string list \<Rightarrow> bool" where
  "contains_any v needles = list_ex (contains_sub v) needles"

text \<open>\<open>status_code in {408, 504}\<close> and the comparisons, false of \<open>None\<close>.\<close>

definition code_in :: "int option \<Rightarrow> int list \<Rightarrow> bool" where
  "code_in code cs = (case code of None \<Rightarrow> False | Some c \<Rightarrow> c \<in> set cs)"

definition classify_error_type :: "string \<Rightarrow> int option \<Rightarrow> string \<Rightarrow> string \<Rightarrow> string option" where
  "classify_error_type status code etype message =
     (if py_strip (py_lower status) = ''success'' \<and> (case code of None \<Rightarrow> True | Some c \<Rightarrow> c < 400) then None
      else
        let combined = py_lower etype @ '' '' @ py_lower message in
        if code_in code [408, 504] \<or> contains_any combined [''timeout'', ''timed out'', ''deadline exceeded'']
        then Some ''timeout''
        else if code_in code [429] \<or>
          contains_any combined [''rate limit'', ''too many requests'', ''quota'', ''throttle'', ''resource exhausted'', ''429'']
        then Some ''rate_limit''
        else if code_in code [401, 403] \<or>
          contains_any combined [''auth'', ''unauthorized'', ''forbidden'', ''permission denied'', ''invalid api key'', ''token'']
        then Some ''auth_error''
        else if contains_any combined [''content filter'', ''safety'', ''blocked by policy'', ''moderation'', ''harm'', ''policy violation'']
        then Some ''content_filter''
        else if contains_any combined [''tool'', ''function call'', ''function_call'', ''tool_call''] then Some ''tool_error''
        else if (case code of None \<Rightarrow> False | Some c \<Rightarrow> 500 \<le> c) then Some ''provider_error''
        else if contains_any combined [''upstream'', ''provider'', ''gateway'', ''bad gateway'', ''service unavailable'']
        then Some ''provider_error''
        else Some ''unknown'')"

section \<open>Numbers in payloads\<close>

text \<open>\<open>int(float(v))\<close>.\<close>

definition int_of_float :: "pyval \<Rightarrow> py_exn + int" where
  "int_of_float v =
     (case v of
        PBool b \<Rightarrow> Inr (if b then 1 else 0)
      | PInt n \<Rightarrow> Inr n
      | PFloat x \<Rightarrow> Inr (py_trunc x)
      | PStr s \<Rightarrow> int_of_float_text s
      | _ \<Rightarrow> Inl (TypeError ''float() argument must be a string or a real number''))"

text \<open>\<open>try: max(int(float(v)), 0)\<close> with \<open>TypeError\<close> and \<open>ValueError\<close> caught, \<open>None\<close> standing for the handler.\<close>

definition try_number :: "pyval \<Rightarrow> py_exn + int option" where
  "try_number v =
     (case int_of_float v of
        Inr n \<Rightarrow> Inr (Some (max n 0))
      | Inl (OverflowError e) \<Rightarrow> Inl (OverflowError e)
      | Inl e \<Rightarrow> Inr None)"

text \<open>\<open>_flatten\<close>: every value of a nested dictionary under its path.\<close>

fun flatten :: "string \<Rightarrow> pyval \<Rightarrow> (string, pyval) py_dict \<Rightarrow> (string, pyval) py_dict"
  and flatten_dict :: "string \<Rightarrow> (string \<times> pyval) list \<Rightarrow> (string, pyval) py_dict \<Rightarrow> (string, pyval) py_dict"
  and flatten_list :: "string \<Rightarrow> nat \<Rightarrow> pyval list \<Rightarrow> (string, pyval) py_dict \<Rightarrow> (string, pyval) py_dict" where
  "flatten prefix (PDict d) out = flatten_dict prefix d out"
| "flatten prefix (PList vs) out = flatten_list prefix 0 vs out"
| "flatten prefix _ out = out"
| "flatten_dict prefix [] out = out"
| "flatten_dict prefix ((k, v) # d) out =
     (let key = py_lower (py_strip k); path = (if prefix = [] then key else prefix @ ''.'' @ key)
      in flatten_dict prefix d (if key = [] then out else flatten path v (dict_set path v out)))"
| "flatten_list prefix i [] out = out"
| "flatten_list prefix i (v # vs) out =
     flatten_list prefix (Suc i) vs (flatten (prefix @ ''['' @ string_of_nat i @ '']'') v out)"

text \<open>\<open>re.sub\<close> of a bracketed number by nothing.\<close>

function drop_indices :: "string \<Rightarrow> string" where
  "drop_indices [] = []"
| "drop_indices (c # cs) =
     (let rest = dropWhile is_digit cs in
      if c = CHR ''['' \<and> takeWhile is_digit cs \<noteq> [] \<and> rest \<noteq> [] \<and> hd rest = CHR '']''
      then drop_indices (List.tl rest) else c # drop_indices cs)"
  by pat_completeness auto
termination
  by (relation "measure length") (auto simp: less_Suc_eq_le intro: le_trans[OF diff_le_self length_dropWhile_le])

fun pick_number :: "(string, pyval) py_dict \<Rightarrow> string list \<Rightarrow> py_exn + int option" where
  "pick_number [] keys = Inr None"
| "pick_number ((key, value) # flat) keys =
     (if drop_indices (List.last (split_on (CHR ''.'') key)) \<in> set keys
      then result_bind (try_number value) (\<lambda>r. case r of Some n \<Rightarrow> Inr (Some n) | None \<Rightarrow> pick_number flat keys)
      else pick_number flat keys)"

section \<open>Durations\<close>

definition tool_entry ::
  "(pyval \<Rightarrow> string) \<Rightarrow> (string, pyval) py_dict \<Rightarrow> (string, int) py_dict \<Rightarrow> py_exn + (string, int) py_dict" where
  "tool_entry repr node out =
     (let raw_name = or_val (get_val node ''tool_name'') (get_val node ''name'');
          raw_duration = or_val (or_val (get_val node ''duration_ms'') (get_val node ''tool_call_duration_ms''))
            (get_val node ''elapsed_ms'')
      in if (dict_get node ''tool_name'' \<noteq> None \<or> dict_get node ''name'' \<noteq> None) \<and> truthy raw_name \<and> raw_duration \<noteq> PNone
         then result_bind (try_number raw_duration) (\<lambda>r.
           case r of
             Some duration \<Rightarrow>
               if 0 < duration
               then let name = py_str repr raw_name
                    in Inr (dict_set name ((case dict_get out name of None \<Rightarrow> 0 | Some m \<Rightarrow> m) + duration) out)
               else Inr out
           | None \<Rightarrow> Inr out)
         else Inr out)"

fun tool_walk :: "(pyval \<Rightarrow> string) \<Rightarrow> pyval \<Rightarrow> (string, int) py_dict \<Rightarrow> py_exn + (string, int) py_dict"
  and tool_walk_dict :: "(pyval \<Rightarrow> string) \<Rightarrow> (string \<times> pyval) list \<Rightarrow> (string, int) py_dict \<Rightarrow> py_exn + (string, int) py_dict"
  and tool_walk_list :: "(pyval \<Rightarrow> string) \<Rightarrow> pyval list \<Rightarrow> (string, int) py_dict \<Rightarrow> py_exn + (string, int) py_dict" where
  "tool_walk repr (PDict d) out = result_bind (tool_entry repr d out) (\<lambda>out. tool_walk_dict repr d out)"
| "tool_walk repr (PList vs) out = tool_walk_list repr vs out"
| "tool_walk repr _ out = Inr out"
| "tool_walk_dict repr [] out = Inr out"
| "tool_walk_dict repr ((k, v) # d) out = result_bind (tool_walk repr v out) (\<lambda>out. tool_walk_dict repr d out)"
| "tool_walk_list repr [] out = Inr out"
| "tool_walk_list repr (v # vs) out = result_bind (tool_walk repr v out) (\<lambda>out. tool_walk_list repr vs out)"

definition extract_tool_breakdown :: "(pyval \<Rightarrow> string) \<Rightarrow> pyval \<Rightarrow> py_exn + (string, int) py_dict" where
  "extract_tool_breakdown repr payload = tool_walk repr payload []"

text \<open>The durations by name; the breakdown by tool is empty where the code leaves its key out.\<close>

record durations =
  du_phases :: "(string, int) py_dict"
  du_tools :: "(string, int) py_dict"

definition put_phase :: "string \<Rightarrow> int option \<Rightarrow> (string, int) py_dict \<Rightarrow> (string, int) py_dict" where
  "put_phase k n d = (case n of None \<Rightarrow> d | Some m \<Rightarrow> dict_set k m d)"

definition extract_duration_breakdown :: "(pyval \<Rightarrow> string) \<Rightarrow> pyval \<Rightarrow> py_exn + durations" where
  "extract_duration_breakdown repr payload =
     (if payload = PNone then Inr \<lparr>du_phases = [], du_tools = []\<rparr>
      else
        let flat = flatten [] payload [] in
        result_bind (extract_tool_breakdown repr payload) (\<lambda>tools.
        result_bind (pick_number flat [''first_token_latency_ms'', ''first_token_ms'', ''ttfb_ms'', ''time_to_first_token_ms'']) (\<lambda>first.
        result_bind (pick_number flat [''llm_inference_duration_ms'', ''llm_inference_ms'', ''model_inference_ms'', ''llm_latency_ms'']) (\<lambda>llm.
        result_bind (pick_number flat [''retrieval_duration_ms'', ''retrieval_ms'', ''knowledge_retrieval_ms'',
            ''search_knowledge_duration_ms'', ''rag_retrieval_ms'']) (\<lambda>retrieval.
        result_bind (pick_number flat [''tool_call_duration_ms'', ''tool_duration_ms'', ''tools_duration_ms'', ''tool_calls_duration_ms'']) (\<lambda>tool.
        result_bind (pick_number flat [''agent_or_graph_overhead_ms'', ''agent_overhead_ms'', ''graph_overhead_ms'',
            ''orchestration_overhead_ms'']) (\<lambda>overhead.
          let phases = put_phase ''agent_or_graph_overhead_ms'' overhead (put_phase ''tool_call_duration_ms'' tool
                (put_phase ''retrieval_duration_ms'' retrieval (put_phase ''llm_inference_duration_ms'' llm
                (put_phase ''first_token_latency_ms'' first []))))
          in Inr \<lparr>du_phases = (if tools \<noteq> [] \<and> tool = None
                 then dict_set ''tool_call_duration_ms'' (sum_list (map snd tools)) phases else phases),
               du_tools = tools\<rparr>)))))))"

record breakdown =
  bd_total :: int
  bd_first_token :: int
  bd_llm :: int
  bd_retrieval :: int
  bd_tool :: int
  bd_overhead :: int

definition ensure_duration_breakdown :: "int \<Rightarrow> int \<Rightarrow> int \<Rightarrow> int \<Rightarrow> int \<Rightarrow> int \<Rightarrow> breakdown" where
  "ensure_duration_breakdown request_total first_token llm_inference retrieval_duration tool_call agent_overhead =
     (let total_ms = max request_total 0; first = max first_token 0; llm = max llm_inference 0;
          retrieval = max retrieval_duration 0; tool = max tool_call 0; overhead = max agent_overhead 0;
          consumed = llm + retrieval + tool + overhead;
          overhead1 = (if 0 < total_ms \<and> total_ms < consumed then max (overhead - (consumed - total_ms)) 0 else overhead);
          consumed1 = (if 0 < total_ms \<and> total_ms < consumed then llm + retrieval + tool + overhead1 else consumed);
          overhead2 = (if 0 < total_ms \<and> consumed1 < total_ms then overhead1 + (total_ms - consumed1) else overhead1);
          first1 = (if first \<le> 0 \<and> 0 < total_ms then min total_ms (if 0 < llm then llm else total_ms) else first)
      in \<lparr>bd_total = total_ms, bd_first_token = first1, bd_llm = llm, bd_retrieval = retrieval, bd_tool = tool,
          bd_overhead = overhead2\<rparr>)"

text \<open>The draw of \<open>random.random()\<close> is an argument.\<close>

definition should_sample_trace :: "string \<Rightarrow> int \<Rightarrow> int \<Rightarrow> rat \<Rightarrow> rat \<Rightarrow> bool \<times> string" where
  "should_sample_trace status request_total p95_threshold normal_rate draw =
     (if py_strip (py_lower status) \<noteq> ''success'' then (True, ''failure'')
      else if 0 < max p95_threshold 0 \<and> max p95_threshold 0 \<le> max request_total 0 then (True, ''slow_request'')
      else let rate = max 0 (min normal_rate 1)
           in if rate \<le> 0 then (False, ''not_sampled'') else (draw < rate, ''baseline''))"

section \<open>Properties\<close>

lemma overhead_is_the_rest:
  fixes whole phases overhead :: int
  assumes "0 < whole" "0 \<le> overhead"
  shows "(let consumed = phases + overhead;
            overhead1 = (if 0 < whole \<and> whole < consumed then max (overhead - (consumed - whole)) 0 else overhead);
            consumed1 = (if 0 < whole \<and> whole < consumed then phases + overhead1 else consumed)
        in if 0 < whole \<and> consumed1 < whole then overhead1 + (whole - consumed1) else overhead1)
      = max 0 (whole - phases)"
  using assms by (simp add: Let_def max_def)

lemma ensured_overhead:
  assumes "0 < request_total"
  shows "bd_overhead (ensure_duration_breakdown request_total f l r t ov)
    = max 0 (request_total - (max l 0 + max r 0 + max t 0))"
  using overhead_is_the_rest[OF assms, of "max ov 0" "max l 0 + max r 0 + max t 0"] assms
  unfolding ensure_duration_breakdown_def Let_def breakdown.simps
  by (simp only: max_absorb1[of 0 request_total] less_imp_le max.cobounded2)

lemma ensured_phases:
  "bd_total (ensure_duration_breakdown w f l r t ov) = max w 0"
  "bd_llm (ensure_duration_breakdown w f l r t ov) = max l 0"
  "bd_retrieval (ensure_duration_breakdown w f l r t ov) = max r 0"
  "bd_tool (ensure_duration_breakdown w f l r t ov) = max t 0"
  "bd_first_token (ensure_duration_breakdown w f l r t ov) =
     (if max f 0 \<le> 0 \<and> 0 < max w 0 then min (max w 0) (if 0 < max l 0 then max l 0 else max w 0) else max f 0)"
  unfolding ensure_duration_breakdown_def Let_def breakdown.simps by (rule refl)+

text \<open>
  The breakdown fills the total. For a request that took time, the overhead becomes what the phases
  leave of the total, whatever overhead was reported, so that the phases and the overhead add up to the
  total unless the phases alone exceed it; then the overhead is zero and the phases are reported as they
  are. The time to the first token is always positive, and within the total when none was reported.\<close>

theorem breakdown_fills_total:
  assumes "0 < request_total"
    "b = ensure_duration_breakdown request_total first_token llm_inference retrieval_duration tool_call agent_overhead"
  shows "bd_overhead b = max 0 (bd_total b - (bd_llm b + bd_retrieval b + bd_tool b)) \<and>
    bd_llm b + bd_retrieval b + bd_tool b + bd_overhead b = max (bd_total b) (bd_llm b + bd_retrieval b + bd_tool b) \<and>
    0 < bd_first_token b \<and> (first_token \<le> 0 \<longrightarrow> bd_first_token b \<le> bd_total b)"
proof (intro conjI)
  have o': "bd_overhead b = max 0 (bd_total b - (bd_llm b + bd_retrieval b + bd_tool b))"
    using ensured_overhead[OF assms(1)] assms by (simp add: ensured_phases)
  then show "bd_overhead b = max 0 (bd_total b - (bd_llm b + bd_retrieval b + bd_tool b))" .
  show "bd_llm b + bd_retrieval b + bd_tool b + bd_overhead b = max (bd_total b) (bd_llm b + bd_retrieval b + bd_tool b)"
    unfolding o' by (simp add: max_def)
  show "0 < bd_first_token b" "first_token \<le> 0 \<longrightarrow> bd_first_token b \<le> bd_total b"
    unfolding assms(2) ensured_phases using assms(1) by (simp_all add: max_def min_def)
qed

lemma breakdown_fills_total_witness:
  "bd_overhead (ensure_duration_breakdown 100 0 30 20 0 80) = 50"
  using breakdown_fills_total[of 100 _ 0 30 20 0 80, OF _ refl] by (simp add: ensure_duration_breakdown_def)

lemma classify_none: "classify_error_type status code etype message = None \<longleftrightarrow>
    py_strip (py_lower status) = ''success'' \<and> (case code of None \<Rightarrow> True | Some c \<Rightarrow> c < 400)"
  by (auto simp: classify_error_type_def Let_def)

end
