(* ===== verification/Billing_Stream.thy ===== *)
theory Billing_Stream
  imports Observability "HOL-Library.Sublist"
begin

text \<open>
  The billing of a streamed response (\<open>src/src/proxy/billing_stream.py\<close>): the bytes pass through unchanged
  while their text is cut into server-sent events, every event is searched for token usage, and what was
  seen is published once, when the stream ends. One clock reading stands for all those made while a chunk
  is processed. Publishing realtime metrics and logging are left out; the JSON decoder, the UTF-8 decoder,
  the redaction of secrets and \<open>repr\<close> are arguments.\<close>

record stream_env =
  en_loads :: "string \<Rightarrow> pyval option"
  en_redact :: "string \<Rightarrow> string"
  en_repr :: "pyval \<Rightarrow> string"

section \<open>What is published\<close>

record trace_step =
  st_name :: string
  st_offset :: int
  st_duration :: int
  st_status :: string

record usage_data =
  ud_input :: int
  ud_output :: int
  ud_total :: int
  ud_request :: string
  ud_service :: string
  ud_user :: string
  ud_tenant :: string
  ud_model :: string
  ud_provider :: string
  ud_assistant :: string
  ud_status :: string
  ud_type :: string
  ud_timestamp :: py_time
  ud_duration :: rat
  ud_first_token :: int
  ud_request_total :: int
  ud_llm :: int
  ud_retrieval :: int
  ud_tool :: int
  ud_overhead :: int
  ud_tools :: "(string, int) py_dict"
  ud_error :: "string option"
  ud_trace :: "trace_step list"
  ud_metadata :: "(string, pyval) py_dict"

text \<open>\<open>__post_init__\<close>.\<close>

definition post_init :: "usage_data \<Rightarrow> usage_data" where
  "post_init u =
     u\<lparr>ud_total := (if ud_total u = 0 then ud_input u + ud_output u else ud_total u),
       ud_request_total := (if ud_request_total u \<le> 0 \<and> 0 < ud_duration u then py_trunc (ud_duration u)
                            else ud_request_total u)\<rparr>"

record stream_proc =
  sp_request :: string
  sp_service :: string
  sp_user :: string
  sp_tenant :: string
  sp_assistant :: string
  sp_type :: string
  sp_model_hint :: string
  sp_provider_hint :: string
  sp_start :: py_time
  sp_buffer :: string
  sp_overflowed :: bool
  sp_discarding :: bool
  sp_collected :: bool
  sp_status :: string
  sp_error :: "(string, string) py_dict"
  sp_first_chunk :: int
  sp_offsets :: "(string, int) py_dict"
  sp_phases :: "(string, int) py_dict"
  sp_tools :: "(string, int) py_dict"
  sp_pending :: "usage_data option"

definition max_buffer_chars :: nat where
  "max_buffer_chars = 1048576"

definition new_processor ::
  "string \<Rightarrow> string \<Rightarrow> string \<Rightarrow> string \<Rightarrow> string \<Rightarrow> string \<Rightarrow> string \<Rightarrow> string \<Rightarrow> py_time \<Rightarrow> stream_proc" where
  "new_processor request service user tenant assistant rtype model provider now =
     \<lparr>sp_request = request, sp_service = service, sp_user = user, sp_tenant = tenant, sp_assistant = assistant,
      sp_type = rtype, sp_model_hint = model, sp_provider_hint = provider, sp_start = now, sp_buffer = [],
      sp_overflowed = False, sp_discarding = False, sp_collected = False, sp_status = ''success'', sp_error = [],
      sp_first_chunk = 0, sp_offsets = [], sp_phases = [], sp_tools = [], sp_pending = None\<rparr>"

section \<open>Errors and durations\<close>

definition dict_merge :: "('k, 'v) py_dict \<Rightarrow> ('k, 'v) py_dict \<Rightarrow> ('k, 'v) py_dict" where
  "dict_merge d upd = fold (\<lambda>(k, v). dict_set k v) upd d"

definition set_missing :: "'k \<Rightarrow> 'v \<Rightarrow> ('k, 'v) py_dict \<Rightarrow> ('k, 'v) py_dict" where
  "set_missing k v d = (if dict_get d k = None then dict_set k v d else d)"

definition mark_error :: "stream_env \<Rightarrow> string \<Rightarrow> string \<Rightarrow> stream_proc \<Rightarrow> stream_proc" where
  "mark_error en etype message st =
     (let e1 = dict_set ''upstream_error_type'' (take 128 etype) (sp_error st)
      in st\<lparr>sp_status := ''error'',
            sp_error := (if message = [] then e1
                         else dict_set ''upstream_error_message'' (take 512 (en_redact en message)) e1)\<rparr>)"

definition error_entries :: "string \<Rightarrow> string \<Rightarrow> (string, string) py_dict" where
  "error_entries etype message =
     (''upstream_error_type'', take 128 etype) #
     (if message = [] then [] else [(''upstream_error_message'', take 512 message)])"

definition extract_error_payload :: "stream_env \<Rightarrow> (string, pyval) py_dict \<Rightarrow> (string, string) py_dict" where
  "extract_error_payload en data =
     (let str = py_str (en_repr en) in
      if is_str (get_val data ''error'') \<and> truthy (get_val data ''error'') \<and> dict_get data ''message'' \<noteq> None
      then error_entries (the_str (get_val data ''error''))
             (en_redact en (str (or_val (get_val data ''message'') (PStr []))))
      else
        let payload = or_val (get_val data ''__error__'') (get_val data ''error'') in
        if \<not> truthy payload then []
        else if is_dict payload
        then let ep = dict_of payload in
             error_entries (str (or_val (or_val (get_val ep ''error'') (get_val ep ''type'')) (PStr ''upstream_error'')))
               (en_redact en (str (or_val (or_val (get_val ep ''message'') (get_val ep ''detail'')) (PStr []))))
        else error_entries ''upstream_error'' (en_redact en (str payload)))"

definition merge_tools :: "(string, int) py_dict \<Rightarrow> (string, int) py_dict \<Rightarrow> (string, int) py_dict" where
  "merge_tools existing upd =
     fold (\<lambda>(name, n) d. if 0 < max n 0 then dict_set name ((case dict_get d name of None \<Rightarrow> 0 | Some m \<Rightarrow> m) + max n 0) d else d)
       upd existing"

definition merge_phases :: "(string, int) py_dict \<Rightarrow> (string, int) py_dict \<Rightarrow> (string, int) py_dict" where
  "merge_phases existing upd =
     fold (\<lambda>(k, n) d. if max n 0 \<le> 0 then d
            else dict_set k (max (case dict_get d k of None \<Rightarrow> 0 | Some m \<Rightarrow> m) (max n 0)) d) upd existing"

definition merge_duration_breakdown :: "stream_env \<Rightarrow> pyval \<Rightarrow> stream_proc \<Rightarrow> (py_exn + unit) \<times> stream_proc" where
  "merge_duration_breakdown en payload st =
     (case extract_duration_breakdown (en_repr en) payload of
        Inl e \<Rightarrow> (Inl e, st)
      | Inr d \<Rightarrow> (Inr (), st\<lparr>sp_phases := merge_phases (sp_phases st) (du_phases d),
                           sp_tools := (if du_tools d = [] then sp_tools st else merge_tools (sp_tools st) (du_tools d))\<rparr>))"

definition phase_of :: "string \<Rightarrow> int \<Rightarrow> stream_proc \<Rightarrow> int" where
  "phase_of k n st = (case dict_get (sp_phases st) k of None \<Rightarrow> n | Some m \<Rightarrow> m)"

definition elapsed_ms :: "py_time \<Rightarrow> stream_proc \<Rightarrow> rat" where
  "elapsed_ms now st = (now - sp_start st) * 1000"

definition build_trace_steps :: "stream_proc \<Rightarrow> breakdown \<Rightarrow> trace_step list" where
  "build_trace_steps st b =
     (let phases = filter (\<lambda>(n, d). 0 < max d 0)
            [(''agent.retrieval'', bd_retrieval b), (''agent.tool_calls'', bd_tool b), (''llm.inference'', bd_llm b),
             (''agent.overhead'', bd_overhead b)];
          lay = (\<lambda>(steps, offset) (n, d).
                   (steps @ [\<lparr>st_name = n, st_offset = offset, st_duration = max d 0, st_status = ''success''\<rparr>],
                    offset + max d 0))
      in [\<lparr>st_name = ''gateway.request_total'', st_offset = 0, st_duration = bd_total b, st_status = sp_status st\<rparr>]
         @ fst (foldl lay ([], 0) phases)
         @ (if 0 < max (bd_first_token b) 0
            then [\<lparr>st_name = ''llm.first_token'', st_offset = 0, st_duration = max (bd_first_token b) 0, st_status = ''success''\<rparr>]
            else [])
         @ map (\<lambda>(n, off). \<lparr>st_name = ''stream.event.'' @ n, st_offset = max off 0, st_duration = 0, st_status = ''success''\<rparr>)
             (sort_key snd (sp_offsets st)))"

definition stream_error_type :: "stream_proc \<Rightarrow> string option" where
  "stream_error_type st =
     classify_error_type (sp_status st) None (opt_str (dict_get (sp_error st) ''upstream_error_type''))
       (opt_str (dict_get (sp_error st) ''upstream_error_message''))"

section \<open>Recording usage\<close>

definition opt_val :: "string option \<Rightarrow> pyval" where
  "opt_val o' = (case o' of None \<Rightarrow> PNone | Some s \<Rightarrow> PStr s)"

definition breakdown_val :: "breakdown \<Rightarrow> pyval" where
  "breakdown_val b = PDict [(''request_total_duration_ms'', PInt (bd_total b)),
     (''first_token_latency_ms'', PInt (bd_first_token b)), (''llm_inference_duration_ms'', PInt (bd_llm b)),
     (''retrieval_duration_ms'', PInt (bd_retrieval b)), (''tool_call_duration_ms'', PInt (bd_tool b)),
     (''agent_or_graph_overhead_ms'', PInt (bd_overhead b))]"

definition str_dict :: "(string, string) py_dict \<Rightarrow> (string, pyval) py_dict" where
  "str_dict d = map (\<lambda>(k, s). (k, PStr s)) d"

definition int_dict :: "(string, int) py_dict \<Rightarrow> (string, pyval) py_dict" where
  "int_dict d = map (\<lambda>(k, n). (k, PInt n)) d"

definition stream_breakdown :: "py_time \<Rightarrow> stream_proc \<Rightarrow> breakdown" where
  "stream_breakdown now st =
     ensure_duration_breakdown (py_trunc (elapsed_ms now st)) (phase_of ''first_token_latency_ms'' (sp_first_chunk st) st)
       (phase_of ''llm_inference_duration_ms'' 0 st) (phase_of ''retrieval_duration_ms'' 0 st)
       (phase_of ''tool_call_duration_ms'' 0 st) (phase_of ''agent_or_graph_overhead_ms'' 0 st)"

definition usage_metadata :: "stream_proc \<Rightarrow> breakdown \<Rightarrow> string \<Rightarrow> string \<Rightarrow> pyval \<Rightarrow> (string, pyval) py_dict" where
  "usage_metadata st b model provider raw =
     (let m0 = (case raw of PDict d \<Rightarrow> d | _ \<Rightarrow> [(''raw_data'', raw)]);
          m1 = dict_merge m0 (str_dict (sp_error st));
          m2 = set_missing ''source'' (PStr ''transparent_proxy_stream'') m1;
          m3 = set_missing ''request_type'' (PStr (sp_type st)) m2;
          m4 = set_missing ''provider'' (PStr provider) m3;
          m5 = set_missing ''model'' (PStr model) m4;
          m6 = set_missing ''token_source'' (PStr ''upstream'') m5
      in dict_set ''tool_call_breakdown'' (PDict (int_dict (sp_tools st)))
           (dict_set ''duration_breakdown'' (breakdown_val b)
             (dict_set ''error_type'' (opt_val (stream_error_type st)) m6)))"

definition observed_usage :: "py_time \<Rightarrow> token_usage \<Rightarrow> pyval \<Rightarrow> stream_proc \<Rightarrow> usage_data" where
  "observed_usage now u raw st =
     (let b = stream_breakdown now st;
          model = or_str (or_str (opt_str (extract_model raw)) (sp_model_hint st)) ''langgraph-agent'';
          provider = or_str (or_str (opt_str (extract_provider raw)) (sp_provider_hint st)) ''unattributed''
      in post_init \<lparr>ud_input = us_input u, ud_output = us_output u,
           ud_total = (if us_total u = 0 then us_input u + us_output u else us_total u),
           ud_request = sp_request st, ud_service = sp_service st, ud_user = sp_user st, ud_tenant = sp_tenant st,
           ud_model = model, ud_provider = provider,
           ud_assistant = or_str (sp_assistant st) (opt_str (extract_assistant_id raw)),
           ud_status = sp_status st, ud_type = sp_type st, ud_timestamp = now, ud_duration = elapsed_ms now st,
           ud_first_token = bd_first_token b, ud_request_total = bd_total b, ud_llm = bd_llm b,
           ud_retrieval = bd_retrieval b, ud_tool = bd_tool b, ud_overhead = bd_overhead b, ud_tools = sp_tools st,
           ud_error = stream_error_type st, ud_trace = build_trace_steps st b,
           ud_metadata = usage_metadata st b model provider raw\<rparr>)"

text \<open>What was seen before and what is seen now: the larger of every count and duration.\<close>

definition merge_usage :: "usage_data \<Rightarrow> usage_data \<Rightarrow> usage_data" where
  "merge_usage p u =
     (let i = max (ud_input p) (ud_input u); ot = max (ud_output p) (ud_output u)
      in p\<lparr>ud_input := i, ud_output := ot, ud_total := max (max (ud_total p) (ud_total u)) (i + ot),
           ud_duration := max (ud_duration p) (ud_duration u), ud_first_token := max (ud_first_token p) (ud_first_token u),
           ud_request_total := max (ud_request_total p) (ud_request_total u), ud_llm := max (ud_llm p) (ud_llm u),
           ud_retrieval := max (ud_retrieval p) (ud_retrieval u), ud_tool := max (ud_tool p) (ud_tool u),
           ud_overhead := max (ud_overhead p) (ud_overhead u), ud_status := ud_status u, ud_error := ud_error u,
           ud_trace := ud_trace u, ud_tools := ud_tools u, ud_metadata := dict_merge (ud_metadata p) (ud_metadata u)\<rparr>)"

definition record_usage :: "py_time \<Rightarrow> token_usage \<Rightarrow> pyval \<Rightarrow> stream_proc \<Rightarrow> stream_proc" where
  "record_usage now u raw st =
     (let st1 = st\<lparr>sp_collected := True\<rparr>; ud = observed_usage now u raw st1
      in st1\<lparr>sp_pending := (case sp_pending st1 of None \<Rightarrow> Some ud | Some p \<Rightarrow> Some (merge_usage p ud))\<rparr>)"

section \<open>Events\<close>

definition note_error :: "stream_env \<Rightarrow> (string, pyval) py_dict \<Rightarrow> stream_proc \<Rightarrow> stream_proc" where
  "note_error en d st =
     (let meta = extract_error_payload en d
      in if meta = [] then st else st\<lparr>sp_status := ''error'', sp_error := dict_merge (sp_error st) meta\<rparr>)"

definition extract_usage :: "stream_env \<Rightarrow> py_time \<Rightarrow> string \<Rightarrow> string \<Rightarrow> stream_proc \<Rightarrow> (py_exn + unit) \<times> stream_proc" where
  "extract_usage en now data_str event_type st =
     (if data_str = [] \<or> data_str = ''[DONE]'' then (Inr (), st)
      else case en_loads en data_str of
        None \<Rightarrow> (Inr (), if py_lower event_type = ''error'' then mark_error en ''stream_error_event'' data_str st else st)
      | Some data \<Rightarrow>
          (case (if is_dict data then merge_duration_breakdown en data (note_error en (dict_of data) st) else (Inr (), st)) of
             (Inl e, st1) \<Rightarrow> (Inl e, st1)
           | (Inr _, st1) \<Rightarrow>
               (case extract_token_usage data of
                  Inl e \<Rightarrow> (Inl e, st1)
                | Inr None \<Rightarrow> (Inr (), st1)
                | Inr (Some u) \<Rightarrow> (Inr (), record_usage now u data st1))))"

text \<open>The last \<open>event:\<close> line, and the \<open>data:\<close> lines, each stripped.\<close>

fun event_fields :: "string \<times> string list \<Rightarrow> string list \<Rightarrow> string \<times> string list" where
  "event_fields acc [] = acc"
| "event_fields (etype, ds) (line # rest) =
     event_fields (if starts_with line ''event:'' then (py_strip (drop 6 line), ds)
                   else if starts_with line ''data:'' then (etype, ds @ [py_strip (drop 5 line)])
                   else (etype, ds)) rest"

definition LF :: char where "LF = CHR 0x0A"
definition CR :: char where "CR = CHR 0x0D"

definition parse_block :: "string \<Rightarrow> string \<times> string list" where
  "parse_block block = event_fields ([], []) (split_on LF block)"

definition note_event :: "stream_env \<Rightarrow> py_time \<Rightarrow> string \<Rightarrow> stream_proc \<Rightarrow> stream_proc" where
  "note_event en now event_type st =
     (if py_lower event_type = ''error'' then mark_error en ''stream_error_event'' [] st
      else if event_type = [] \<or> dict_get (sp_offsets st) (py_lower event_type) \<noteq> None then st
      else st\<lparr>sp_offsets := dict_set (py_lower event_type) (max (py_trunc (elapsed_ms now st)) 0) (sp_offsets st)\<rparr>)"

definition process_event_block :: "stream_env \<Rightarrow> py_time \<Rightarrow> string \<Rightarrow> stream_proc \<Rightarrow> (py_exn + unit) \<times> stream_proc" where
  "process_event_block en now block st =
     (let (event_type, data_lines) = parse_block block; st1 = note_event en now event_type st
      in if data_lines = [] then (Inr (), st1) else extract_usage en now (join_with [LF] data_lines) event_type st1)"

section \<open>Chunks\<close>

fun replace_crlf :: "string \<Rightarrow> string" where
  "replace_crlf (a # b # s) = (if a = CR \<and> b = LF then LF # replace_crlf s else a # replace_crlf (b # s))"
| "replace_crlf s = s"

definition normalize_lines :: "string \<Rightarrow> string" where
  "normalize_lines s = py_replace_char CR LF (replace_crlf s)"

text \<open>\<open>split("\n\n", 1)\<close>: what is before the first blank line and what is after it.\<close>

fun cut_event :: "string \<Rightarrow> (string \<times> string) option" where
  "cut_event (a # b # s) =
     (if a = LF \<and> b = LF then Some ([], s) else map_option (\<lambda>(blk, rest). (a # blk, rest)) (cut_event (b # s)))"
| "cut_event s = None"

lemma cut_event_length: "cut_event s = Some (blk, rest) \<Longrightarrow> length s = length blk + 2 + length rest"
  by (induction s arbitrary: blk rule: cut_event.induct) (auto split: if_splits)

lemma mark_error_buffer [simp]: "sp_buffer (mark_error en e m st) = sp_buffer st"
  by (simp add: mark_error_def Let_def)

lemma note_error_buffer [simp]: "sp_buffer (note_error en d st) = sp_buffer st"
  by (simp add: note_error_def Let_def)

lemma note_event_buffer [simp]: "sp_buffer (note_event en now e st) = sp_buffer st"
  by (simp add: note_event_def)

lemma record_usage_buffer [simp]: "sp_buffer (record_usage now u d st) = sp_buffer st"
  by (simp add: record_usage_def Let_def)

lemma merge_durations_buffer: "merge_duration_breakdown en d st = (r, st') \<Longrightarrow> sp_buffer st' = sp_buffer st"
  by (auto simp: merge_duration_breakdown_def split: sum.splits)

lemma extract_usage_buffer: "extract_usage en now ds et st = (r, st') \<Longrightarrow> sp_buffer st' = sp_buffer st"
  by (auto simp: extract_usage_def dest!: merge_durations_buffer split: if_splits option.splits prod.splits sum.splits)

lemma process_block_buffer: "process_event_block en now b st = (r, st') \<Longrightarrow> sp_buffer st' = sp_buffer st"
  by (auto simp: process_event_block_def Let_def dest!: extract_usage_buffer split: if_splits prod.splits)

text \<open>The loop of \<open>_parse_events\<close>. An exception leaves it with the events after the block still in the buffer.\<close>

function parse_events :: "stream_env \<Rightarrow> py_time \<Rightarrow> stream_proc \<Rightarrow> (py_exn + unit) \<times> stream_proc" where
  "parse_events en now st =
     (case cut_event (sp_buffer st) of
        None \<Rightarrow> (Inr (), st)
      | Some (block, rest) \<Rightarrow>
          (case process_event_block en now block (st\<lparr>sp_buffer := rest\<rparr>) of
             (Inl e, st') \<Rightarrow> (Inl e, st')
           | (Inr u, st') \<Rightarrow> parse_events en now st'))"
  by pat_completeness auto
termination
  by (relation "measure (\<lambda>(en, now, st). length (sp_buffer st))")
    (auto dest!: sym[of _ "cut_event _"] sym[of _ "process_event_block _ _ _ _"] process_block_buffer cut_event_length)

declare parse_events.simps [simp del]

definition kept_tail :: "string \<Rightarrow> string" where
  "kept_tail s = (if s \<noteq> [] \<and> List.last s = LF then [LF] else [])"

definition guard_overflow :: "stream_env \<Rightarrow> stream_proc \<Rightarrow> stream_proc" where
  "guard_overflow en st =
     (if max_buffer_chars < length (sp_buffer st)
      then (let st1 = st\<lparr>sp_overflowed := True\<rparr>;
                st2 = (if sp_collected st1 then st1 else mark_error en ''billing_stream_buffer_overflow'' [] st1)
            in st2\<lparr>sp_discarding := True, sp_buffer := kept_tail (sp_buffer st2)\<rparr>)
      else st)"

text \<open>
  The text of a chunk joins the buffer; while an oversized event is discarded nothing but a possible half
  of a blank line is kept. \<open>None\<close> is the early return.\<close>

definition take_text :: "string \<Rightarrow> stream_proc \<Rightarrow> stream_proc option \<times> stream_proc" where
  "take_text text st =
     (let st1 = st\<lparr>sp_buffer := sp_buffer st @ text\<rparr>
      in if sp_discarding st
         then (case cut_event (sp_buffer st1) of
                 None \<Rightarrow> (None, st1\<lparr>sp_buffer := kept_tail (sp_buffer st1)\<rparr>)
               | Some (_, rest) \<Rightarrow> (let st2 = st1\<lparr>sp_buffer := rest, sp_discarding := False\<rparr> in (Some st2, st2)))
         else (Some st1, st1))"

text \<open>An exception of the handlers is logged and swallowed; what it left stays.\<close>

definition process_chunk :: "stream_env \<Rightarrow> ('b list \<Rightarrow> string) \<Rightarrow> py_time \<Rightarrow> 'b list \<Rightarrow> stream_proc \<Rightarrow> stream_proc" where
  "process_chunk en decode now chunk st =
     (let st0 = (if sp_first_chunk st \<le> 0 then st\<lparr>sp_first_chunk := max (py_trunc (elapsed_ms now st)) 1\<rparr> else st)
      in case take_text (normalize_lines (decode chunk)) st0 of
           (None, st1) \<Rightarrow> st1
         | (Some st1, _) \<Rightarrow>
             (case parse_events en now st1 of
                (Inl e, st2) \<Rightarrow> st2
              | (Inr _, st2) \<Rightarrow> guard_overflow en st2))"

definition should_record_fallback :: "string \<Rightarrow> bool" where
  "should_record_fallback rtype =
     (starts_with (py_lower rtype) ''proxy_run_'' \<or> starts_with (py_lower rtype) ''run_'')"

definition fallback_usage :: "py_time \<Rightarrow> stream_proc \<Rightarrow> usage_data" where
  "fallback_usage now st =
     (let b = ensure_duration_breakdown (py_trunc (elapsed_ms now st)) (sp_first_chunk st) 0 0 0 0
      in post_init \<lparr>ud_input = 0, ud_output = 0, ud_total = 0, ud_request = sp_request st, ud_service = sp_service st,
           ud_user = sp_user st, ud_tenant = sp_tenant st,
           ud_model = or_str (sp_model_hint st) ''langgraph-agent'',
           ud_provider = or_str (sp_provider_hint st) ''unattributed'', ud_assistant = sp_assistant st,
           ud_status = sp_status st, ud_type = sp_type st, ud_timestamp = now, ud_duration = elapsed_ms now st,
           ud_first_token = bd_first_token b, ud_request_total = bd_total b, ud_llm = bd_llm b,
           ud_retrieval = bd_retrieval b, ud_tool = bd_tool b, ud_overhead = bd_overhead b, ud_tools = [],
           ud_error = stream_error_type st, ud_trace = build_trace_steps st b,
           ud_metadata = dict_merge [(''source'', PStr ''transparent_proxy_stream''), (''request_type'', PStr (sp_type st)),
              (''token_source'', PStr (if sp_status st \<noteq> ''success'' then ''zero_on_failure'' else ''estimated'')),
              (''error_type'', opt_val (stream_error_type st)), (''duration_breakdown'', breakdown_val b)]
              (str_dict (sp_error st))\<rparr>)"

definition flushed_usage :: "stream_proc \<Rightarrow> usage_data \<Rightarrow> usage_data" where
  "flushed_usage st p =
     p\<lparr>ud_status := sp_status st, ud_error := stream_error_type st,
       ud_metadata := dict_set ''error_type'' (opt_val (stream_error_type st))
         (dict_merge (ud_metadata p) (str_dict (sp_error st)))\<rparr>"

text \<open>The records appended to the buffer of the interceptor; an exception of the last events comes through.\<close>

definition finalize :: "stream_env \<Rightarrow> py_time \<Rightarrow> stream_proc \<Rightarrow> (py_exn + usage_data list) \<times> stream_proc" where
  "finalize en now st =
     (case (if sp_buffer st \<noteq> [] then parse_events en now st else (Inr (), st)) of
        (Inl e, st1) \<Rightarrow> (Inl e, st1)
      | (Inr _, st1) \<Rightarrow>
          (let flushed = (case sp_pending st1 of None \<Rightarrow> [] | Some p \<Rightarrow> [flushed_usage st1 p]);
               st2 = st1\<lparr>sp_pending := None\<rparr>;
               fallback = (if \<not> sp_collected st2 \<and> should_record_fallback (sp_type st2) then [fallback_usage now st2] else [])
           in (Inr (flushed @ fallback), st2)))"

section \<open>Framing\<close>

text \<open>The reference: the events of a whole text, and what is left after the last blank line.\<close>

function events :: "string \<Rightarrow> string list \<times> string" where
  "events s =
     (case cut_event s of
        None \<Rightarrow> ([], s)
      | Some (block, rest) \<Rightarrow> (case events rest of (bs, r) \<Rightarrow> (block # bs, r)))"
  by pat_completeness auto
termination by (relation "measure length") (auto dest!: sym[of _ "cut_event _"] cut_event_length)

declare events.simps [simp del]

lemma cut_event_eq: "cut_event s = Some (blk, rest) \<Longrightarrow> s = blk @ [LF, LF] @ rest"
  by (induction s arbitrary: blk rule: cut_event.induct) (auto split: if_splits)

lemma cut_event_append: "cut_event s = Some (blk, rest) \<Longrightarrow> cut_event (s @ t) = Some (blk, rest @ t)"
  by (induction s arbitrary: blk rule: cut_event.induct) (auto split: if_splits)

lemma events_none [simp]: "cut_event s = None \<Longrightarrow> events s = ([], s)"
  by (simp add: events.simps)

lemma events_some: "cut_event s = Some (blk, rest) \<Longrightarrow> events s = (blk # fst (events rest), snd (events rest))"
  by (subst events.simps) (simp split: prod.splits)

lemma events_rest: "cut_event (snd (events s)) = None"
proof (induction s rule: events.induct)
  case (1 s)
  then show ?case by (cases "cut_event s") (auto simp: events_some)
qed

lemma events_append: "events (s @ t) = (fst (events s) @ fst (events (snd (events s) @ t)), snd (events (snd (events s) @ t)))"
proof (induction s rule: events.induct)
  case (1 s)
  show ?case
  proof (cases "cut_event s")
    case (Some p)
    obtain blk rest where p: "p = (blk, rest)" by (cases p)
    have c: "cut_event s = Some (blk, rest)" using Some p by simp
    have e: "events (rest @ t) = (fst (events rest) @ fst (events (snd (events rest) @ t)), snd (events (snd (events rest) @ t)))"
      by (rule "1.IH"[OF Some p[symmetric]])
    show ?thesis
      unfolding events_some[OF cut_event_append[OF c]] events_some[OF c] fst_conv snd_conv e by simp
  qed simp
qed

lemma cut_event_prefix:
  "cut_event p = None \<Longrightarrow> p = [] \<or> List.last p \<noteq> LF \<Longrightarrow>
     cut_event (p @ u) = map_option (\<lambda>(b, rest). (p @ b, rest)) (cut_event u)"
proof (induction p rule: cut_event.induct)
  case (1 a b s)
  then have "cut_event ((b # s) @ u) = map_option (\<lambda>(c, rest). ((b # s) @ c, rest)) (cut_event u)"
    by (auto split: if_splits)
  then show ?case using "1.prems"(1) by (cases "cut_event u") (auto split: if_splits prod.splits)
qed ((cases u; cases "cut_event u"; auto split: prod.splits)+)

lemma kept_tail_split:
  assumes "cut_event s = None"
  obtains p where "s = p @ kept_tail s" "cut_event p = None" "p = [] \<or> List.last p \<noteq> LF" "length s \<le> Suc (length p)"
proof (cases "s \<noteq> [] \<and> List.last s = LF")
  case True
  then obtain q where s: "s = q @ [LF]" by (metis append_butlast_last_id)
  have p: "cut_event q = None"
  proof (rule ccontr)
    assume "cut_event q \<noteq> None"
    then obtain b r where "cut_event q = Some (b, r)" by auto
    then show False using cut_event_append[of q b r "[LF]"] s assms by simp
  qed
  have "List.last q \<noteq> LF" if "q \<noteq> []"
  proof
    assume "List.last q = LF"
    then have "butlast q @ [LF] = q" using append_butlast_last_id[OF that] by simp
    then obtain q' where q': "q = q' @ [LF]" by (metis)
    have "cut_event (q' @ [LF, LF]) \<noteq> None"
    proof (induction q')
      case (Cons a q')
      then show ?case by (cases q') auto
    qed simp
    then show False using q' s assms by simp
  qed
  then show ?thesis using that[of q] s p by (auto simp: kept_tail_def)
next
  case False
  then show ?thesis using that[of s] assms by (auto simp: kept_tail_def)
qed

lemma cut_event_tail:
  assumes "cut_event s = None"
  shows "cut_event (kept_tail s @ t) = None \<Longrightarrow> cut_event (s @ t) = None"
    and "cut_event (kept_tail s @ t) = Some (b, rest) \<Longrightarrow>
      \<exists>blk. cut_event (s @ t) = Some (blk, rest) \<and> length s \<le> Suc (length blk)"
proof -
  obtain p where p: "s = p @ kept_tail s" "cut_event p = None" "p = [] \<or> List.last p \<noteq> LF" "length s \<le> Suc (length p)"
    using kept_tail_split[OF assms] .
  have e: "cut_event (s @ t) = map_option (\<lambda>(b, rest). (p @ b, rest)) (cut_event (kept_tail s @ t))"
    using cut_event_prefix[OF p(2,3), of "kept_tail s @ t"] p(1) by (metis append.assoc)
  show "cut_event (kept_tail s @ t) = None \<Longrightarrow> cut_event (s @ t) = None" by (simp add: e)
  show "cut_event (kept_tail s @ t) = Some (b, rest) \<Longrightarrow>
      \<exists>blk. cut_event (s @ t) = Some (blk, rest) \<and> length s \<le> Suc (length blk)" using p(4) by (simp add: e)
qed

lemma kept_tail_append: "kept_tail (kept_tail s @ t) = kept_tail (s @ t)"
  by (auto simp: kept_tail_def)

section \<open>What an event says of the tokens\<close>

definition block_usage :: "stream_env \<Rightarrow> string \<Rightarrow> py_exn + token_usage option" where
  "block_usage en block =
     (let ds = snd (parse_block block); s = join_with [LF] ds
      in if ds = [] \<or> s = [] \<or> s = ''[DONE]'' then Inr None
         else case en_loads en s of
           None \<Rightarrow> Inr None
         | Some data \<Rightarrow>
             if is_dict data then result_bind (extract_duration_breakdown (en_repr en) data) (\<lambda>_. extract_token_usage data)
             else extract_token_usage data)"

definition seen_tokens :: "stream_proc \<Rightarrow> token_usage option" where
  "seen_tokens st =
     map_option (\<lambda>p. \<lparr>us_input = ud_input p, us_output = ud_output p, us_total = ud_total p\<rparr>) (sp_pending st)"

definition add_tokens :: "token_usage option \<Rightarrow> token_usage option \<Rightarrow> token_usage option" where
  "add_tokens seen new =
     (case (seen, new) of
        (None, n) \<Rightarrow> n
      | (s, None) \<Rightarrow> s
      | (Some p, Some u) \<Rightarrow>
          Some \<lparr>us_input = max (us_input p) (us_input u), us_output = max (us_output p) (us_output u),
                us_total = max (max (us_total p) (us_total u))
                  (max (us_input p) (us_input u) + max (us_output p) (us_output u))\<rparr>)"

definition same_frame :: "stream_proc \<Rightarrow> stream_proc \<Rightarrow> bool" where
  "same_frame st st' \<longleftrightarrow> sp_buffer st' = sp_buffer st \<and> sp_discarding st' = sp_discarding st \<and> sp_type st' = sp_type st"

lemma note_event_frame: "same_frame st (note_event en now e st)" "seen_tokens (note_event en now e st) = seen_tokens st"
    "sp_collected (note_event en now e st) = sp_collected st"
  by (simp_all add: note_event_def same_frame_def seen_tokens_def mark_error_def Let_def)

lemma note_error_frame: "same_frame st (note_error en e st)" "seen_tokens (note_error en e st) = seen_tokens st"
    "sp_collected (note_error en e st) = sp_collected st"
  by (simp_all add: note_error_def same_frame_def seen_tokens_def Let_def)

lemma mark_error_frame: "same_frame st (mark_error en e m st)" "seen_tokens (mark_error en e m st) = seen_tokens st"
    "sp_collected (mark_error en e m st) = sp_collected st"
  by (simp_all add: mark_error_def same_frame_def seen_tokens_def Let_def)

lemma merge_durations_frame:
  assumes "merge_duration_breakdown en d st = (r, st')"
  shows "same_frame st st'" "seen_tokens st' = seen_tokens st" "sp_collected st' = sp_collected st"
    "isl r \<longleftrightarrow> isl (extract_duration_breakdown (en_repr en) d)"
  using assms by (auto simp: merge_duration_breakdown_def same_frame_def seen_tokens_def split: sum.splits)

lemma record_usage_frame:
  assumes "0 \<le> us_input u \<and> 0 \<le> us_output u \<and> us_input u + us_output u \<le> us_total u"
  shows "same_frame st (record_usage now u d st)"
    "seen_tokens (record_usage now u d st) = add_tokens (seen_tokens st) (Some u)"
    "sp_collected (record_usage now u d st)"
  using assms by (auto simp: record_usage_def same_frame_def seen_tokens_def add_tokens_def observed_usage_def post_init_def
      merge_usage_def Let_def split: option.splits)

lemma same_frame_trans: "same_frame a b \<Longrightarrow> same_frame b c \<Longrightarrow> same_frame a c"
  by (simp add: same_frame_def)

text \<open>What handling a block does to the tokens seen, and that it leaves the framing alone.\<close>

definition handles :: "py_exn + token_usage option \<Rightarrow> stream_proc \<Rightarrow> (py_exn + unit) \<times> stream_proc \<Rightarrow> bool" where
  "handles outcome st res \<longleftrightarrow> same_frame st (snd res) \<and> isl (fst res) = isl outcome \<and>
     seen_tokens (snd res) = add_tokens (seen_tokens st) (case outcome of Inr u \<Rightarrow> u | Inl _ \<Rightarrow> None) \<and>
     sp_collected (snd res) = (sp_collected st \<or> (\<exists>u. outcome = Inr (Some u)))"

lemma add_tokens_None [simp]: "add_tokens t None = t"
  by (simp add: add_tokens_def split: option.splits)

lemma handles_extracted:
  assumes "same_frame st st1" "seen_tokens st1 = seen_tokens st" "sp_collected st1 = sp_collected st"
  shows "handles (extract_token_usage data) st
    (case extract_token_usage data of Inl e \<Rightarrow> (Inl e, st1) | Inr None \<Rightarrow> (Inr (), st1)
       | Inr (Some u) \<Rightarrow> (Inr (), record_usage now u data st1))"
proof (cases "extract_token_usage data")
  case (Inr r)
  show ?thesis
  proof (cases r)
    case (Some u)
    have "u \<in> reports (iter_nodes data)"
      using pick_usage_spec[of None "- 1" "iter_nodes data" "Some u"] Inr Some by (simp add: extract_token_usage_def)
    then have u: "0 \<le> us_input u \<and> 0 \<le> us_output u \<and> us_input u + us_output u \<le> us_total u"
      using usage_counts by (auto simp: reports_def)
    show ?thesis
      using record_usage_frame[OF u, where st = st1 and now = now and d = data] same_frame_trans[OF assms(1)] assms(2)
      by (simp add: handles_def Inr Some)
  qed (use assms Inr in \<open>simp add: handles_def\<close>)
qed (use assms in \<open>simp add: handles_def\<close>)

lemma extract_usage_handles:
  "handles (if s = [] \<or> s = ''[DONE]'' then Inr None else case en_loads en s of None \<Rightarrow> Inr None
      | Some data \<Rightarrow> if is_dict data then result_bind (extract_duration_breakdown (en_repr en) data) (\<lambda>_. extract_token_usage data)
                     else extract_token_usage data)
     st (extract_usage en now s et st)"
proof (cases "s = [] \<or> s = ''[DONE]''")
  case True
  then show ?thesis by (auto simp: extract_usage_def handles_def same_frame_def)
next
  case F: False
  show ?thesis
  proof (cases "en_loads en s")
    case None
    then show ?thesis using F mark_error_frame by (simp add: extract_usage_def handles_def same_frame_def)
  next
    case (Some data)
    show ?thesis
    proof (cases "is_dict data")
      case False
      have "same_frame st st" by (simp add: same_frame_def)
      from handles_extracted[OF this refl refl, of data now] show ?thesis
        using F Some False by (simp add: extract_usage_def)
    next
      case True
      obtain r st1 where m: "merge_duration_breakdown en data (note_error en (dict_of data) st) = (r, st1)" by (cases "merge_duration_breakdown en data (note_error en (dict_of data) st)")
      note f = merge_durations_frame[OF m]
      have f1: "same_frame st st1" "seen_tokens st1 = seen_tokens st" "sp_collected st1 = sp_collected st"
        using same_frame_trans[OF note_error_frame(1) f(1)] f(2,3) note_error_frame by simp_all
      show ?thesis
      proof (cases r)
        case (Inl e)
        then obtain e' where "extract_duration_breakdown (en_repr en) data = Inl e'"
          using f(4) by (auto simp: isl_def)
        then show ?thesis using F Some True m Inl f1 by (simp add: extract_usage_def handles_def)
      next
        case (Inr u)
        then obtain d where "extract_duration_breakdown (en_repr en) data = Inr d"
          using f(4) by (cases "extract_duration_breakdown (en_repr en) data") auto
        then show ?thesis
          using handles_extracted[OF f1, of data now] F Some True m Inr by (simp add: extract_usage_def)
      qed
    qed
  qed
qed

lemma block_handles: "handles (block_usage en block) st (process_event_block en now block st)"
proof -
  obtain et ds where p: "parse_block block = (et, ds)" by (cases "parse_block block")
  let ?st1 = "note_event en now et st"
  have n: "same_frame st ?st1" "seen_tokens ?st1 = seen_tokens st" "sp_collected ?st1 = sp_collected st"
    by (rule note_event_frame)+
  show ?thesis
  proof (cases "ds = []")
    case True
    then show ?thesis using p n by (simp add: process_event_block_def block_usage_def handles_def)
  next
    case False
    have "handles (block_usage en block) ?st1 (extract_usage en now (join_with [LF] ds) et ?st1)"
      using extract_usage_handles[of "join_with [LF] ds" en ?st1 now et] p False by (simp add: block_usage_def Let_def)
    then show ?thesis using p n False same_frame_trans[OF n(1)] by (simp add: process_event_block_def handles_def)
  qed
qed

definition plain :: "stream_env \<Rightarrow> string \<Rightarrow> bool" where
  "plain en block \<longleftrightarrow> \<not> isl (block_usage en block)"

text \<open>The usages a list of blocks reports, and their sum as the processor forms it.\<close>

definition usages :: "stream_env \<Rightarrow> string list \<Rightarrow> token_usage list" where
  "usages en bs = concat (map (\<lambda>b. case block_usage en b of Inr (Some u) \<Rightarrow> [u] | _ \<Rightarrow> []) bs)"

definition sum_tokens :: "token_usage option \<Rightarrow> token_usage list \<Rightarrow> token_usage option" where
  "sum_tokens = foldl (\<lambda>t u. add_tokens t (Some u))"

lemma usages_simps [simp]:
  "usages en [] = []" "usages en (b # bs) = (case block_usage en b of Inr (Some u) \<Rightarrow> [u] | _ \<Rightarrow> []) @ usages en bs"
  "usages en (bs @ cs) = usages en bs @ usages en cs"
  by (simp_all add: usages_def)

lemma parse_events_plain:
  assumes "\<forall>b \<in> set (fst (events (sp_buffer st))). plain en b"
  shows "\<exists>st'. parse_events en now st = (Inr (), st') \<and> sp_buffer st' = snd (events (sp_buffer st)) \<and>
    sp_discarding st' = sp_discarding st \<and> sp_type st' = sp_type st \<and>
    seen_tokens st' = sum_tokens (seen_tokens st) (usages en (fst (events (sp_buffer st)))) \<and>
    sp_collected st' = (sp_collected st \<or> usages en (fst (events (sp_buffer st))) \<noteq> [])"
  using assms
proof (induction "length (sp_buffer st)" arbitrary: st rule: less_induct)
  case less
  show ?case
  proof (cases "cut_event (sp_buffer st)")
    case None
    then show ?thesis by (simp add: parse_events.simps[of en now st] sum_tokens_def)
  next
    case (Some p)
    obtain block rest where p: "p = (block, rest)" by (cases p)
    have ev: "events (sp_buffer st) = (block # fst (events rest), snd (events rest))"
      using Some p by (simp add: events_some)
    obtain r st1 where b: "process_event_block en now block (st\<lparr>sp_buffer := rest\<rparr>) = (r, st1)"
      by (cases "process_event_block en now block (st\<lparr>sp_buffer := rest\<rparr>)")
    have "plain en block" using less.prems ev by simp
    then obtain ou where ou: "block_usage en block = Inr ou"
      by (cases "block_usage en block") (auto simp: plain_def)
    have h: "same_frame (st\<lparr>sp_buffer := rest\<rparr>) st1" "\<not> isl r"
      "seen_tokens st1 = add_tokens (seen_tokens st) ou" "sp_collected st1 = (sp_collected st \<or> (\<exists>u. ou = Some u))"
      using block_handles[of en block "st\<lparr>sp_buffer := rest\<rparr>" now] unfolding b
      by (simp_all add: handles_def ou seen_tokens_def)
    have buf: "sp_buffer st1 = rest" "sp_discarding st1 = sp_discarding st" "sp_type st1 = sp_type st"
      using h(1) by (simp_all add: same_frame_def)
    have r: "r = Inr ()" using h(2) by (cases r) auto
    have "length (sp_buffer st1) < length (sp_buffer st)" using cut_event_length[of "sp_buffer st" block rest] Some p buf by simp
    moreover have "\<forall>b \<in> set (fst (events (sp_buffer st1))). plain en b" using less.prems ev buf by simp
    ultimately obtain st' where st': "parse_events en now st1 = (Inr (), st')" "sp_buffer st' = snd (events rest)"
      "sp_discarding st' = sp_discarding st1" "sp_type st' = sp_type st1"
      "seen_tokens st' = sum_tokens (seen_tokens st1) (usages en (fst (events rest)))"
      "sp_collected st' = (sp_collected st1 \<or> usages en (fst (events rest)) \<noteq> [])"
      using less.hyps[of st1] buf by auto
    have "parse_events en now st = (Inr (), st')" using Some p b r st'(1) by (simp add: parse_events.simps[of en now st])
    then show ?thesis
      using st' buf h(3,4) ou ev by (cases ou) (auto simp: sum_tokens_def)
  qed
qed

section \<open>A stream in chunks\<close>

text \<open>\<open>r\<close> is the text since the last blank line, all of it in the buffer or, once too long, only its tail.\<close>

definition framed :: "stream_proc \<Rightarrow> string \<Rightarrow> bool" where
  "framed st r \<longleftrightarrow> cut_event r = None \<and>
     (if sp_discarding st then sp_buffer st = kept_tail r \<and> max_buffer_chars < length r
      else sp_buffer st = r \<and> length r \<le> max_buffer_chars)"

definition short :: "string \<Rightarrow> bool" where
  "short block \<longleftrightarrow> length block < max_buffer_chars"

text \<open>A selection of the blocks that leaves out none of the short ones.\<close>

definition selects :: "string list \<Rightarrow> string list \<Rightarrow> bool" where
  "selects ps bs \<longleftrightarrow> subseq ps bs \<and> filter short ps = filter short bs"

lemma selects_append: "selects ps bs \<Longrightarrow> selects qs cs \<Longrightarrow> selects (ps @ qs) (bs @ cs)"
  by (simp add: selects_def list_emb_append_mono)

lemma selects_refl [simp]: "selects bs bs"
  by (simp add: selects_def)

lemma selects_skip: "\<not> short b \<Longrightarrow> selects bs (b # bs)"
  by (simp add: selects_def list_emb_Cons)

definition handled :: "stream_env \<Rightarrow> string list \<Rightarrow> stream_proc \<Rightarrow> stream_proc \<Rightarrow> bool" where
  "handled en ps st st' \<longleftrightarrow> seen_tokens st' = sum_tokens (seen_tokens st) (usages en ps) \<and>
     sp_collected st' = (sp_collected st \<or> usages en ps \<noteq> []) \<and> sp_type st' = sp_type st"

lemma handled_trans: "handled en ps a b \<Longrightarrow> handled en qs b c \<Longrightarrow> handled en (ps @ qs) a c"
  by (auto simp: handled_def sum_tokens_def)

lemma guard_overflow_framed:
  assumes "cut_event (sp_buffer st) = None" "\<not> sp_discarding st"
  shows "framed (guard_overflow en st) (sp_buffer st)" "handled en [] st (guard_overflow en st)"
  using assms by (auto simp: guard_overflow_def framed_def handled_def sum_tokens_def mark_error_def seen_tokens_def Let_def)

lemma guarded_parse:
  assumes "\<not> sp_discarding st" "\<forall>b \<in> set (fst (events (sp_buffer st))). plain en b"
  shows "\<exists>st2. parse_events en now st = (Inr (), st2) \<and> framed (guard_overflow en st2) (snd (events (sp_buffer st))) \<and>
    handled en (fst (events (sp_buffer st))) st (guard_overflow en st2)"
proof -
  obtain st2 where st2: "parse_events en now st = (Inr (), st2)" "sp_buffer st2 = snd (events (sp_buffer st))"
    "sp_discarding st2 = sp_discarding st" "handled en (fst (events (sp_buffer st))) st st2"
    using parse_events_plain[OF assms(2), of now] by (auto simp: handled_def)
  have "cut_event (sp_buffer st2) = None" by (simp add: st2(2) events_rest)
  from guard_overflow_framed[OF this] st2 assms(1)
  show ?thesis using handled_trans[OF st2(4), of "[]"] by auto
qed

lemma chunk_framed:
  assumes "framed st r" "\<forall>b \<in> set (fst (events (r @ t))). plain en b" "t = normalize_lines (decode chunk)"
  shows "\<exists>ps. selects ps (fst (events (r @ t))) \<and> framed (process_chunk en decode now chunk st) (snd (events (r @ t))) \<and>
    handled en ps st (process_chunk en decode now chunk st)"
proof -
  define st0 where "st0 = (if sp_first_chunk st \<le> 0 then st\<lparr>sp_first_chunk := max (py_trunc (elapsed_ms now st)) 1\<rparr> else st)"
  have st0: "sp_buffer st0 = sp_buffer st" "sp_discarding st0 = sp_discarding st" "handled en [] st st0"
    by (simp_all add: st0_def handled_def sum_tokens_def seen_tokens_def)
  have chunk: "process_chunk en decode now chunk st =
      (case take_text t st0 of (None, st1) \<Rightarrow> st1
       | (Some st1, _) \<Rightarrow> (case parse_events en now st1 of (Inl e, st2) \<Rightarrow> st2 | (Inr _, st2) \<Rightarrow> guard_overflow en st2))"
    by (simp add: process_chunk_def st0_def assms(3) Let_def)
  show ?thesis
  proof (cases "sp_discarding st")
    case False
    define st1 where "st1 = st0\<lparr>sp_buffer := r @ t\<rparr>"
    have t: "take_text t st0 = (Some st1, st1)"
      using False assms(1) st0 by (simp add: take_text_def st1_def framed_def Let_def)
    have d: "\<not> sp_discarding st1" using False st0 by (simp add: st1_def)
    have "sp_buffer st1 = r @ t" by (simp add: st1_def)
    with guarded_parse[OF d, of en now] assms(2) obtain st2
      where st2: "parse_events en now st1 = (Inr (), st2)" "framed (guard_overflow en st2) (snd (events (r @ t)))"
        "handled en (fst (events (r @ t))) st1 (guard_overflow en st2)" by auto
    have "handled en [] st st1" using st0(3) by (simp add: st1_def handled_def seen_tokens_def)
    from handled_trans[OF this st2(3)] show ?thesis
      using st2 by (intro exI[of _ "fst (events (r @ t))"]) (simp add: chunk t)
  next
    case True
    have r: "cut_event r = None" "sp_buffer st0 = kept_tail r" "max_buffer_chars < length r" "sp_discarding st0"
      using True assms(1) st0 by (simp_all add: framed_def)
    show ?thesis
    proof (cases "cut_event (kept_tail r @ t)")
      case None
      define st1 where "st1 = st0\<lparr>sp_buffer := kept_tail (kept_tail r @ t)\<rparr>"
      have "take_text t st0 = (None, st1)" using None r by (simp add: take_text_def st1_def)
      then have p: "process_chunk en decode now chunk st = st1" by (simp add: chunk)
      have c: "cut_event (r @ t) = None" using cut_event_tail(1)[OF r(1) None] .
      have "framed st1 (r @ t)" using c r by (simp add: framed_def st1_def kept_tail_append)
      moreover have "handled en [] st st1" using st0(3) by (simp add: st1_def handled_def seen_tokens_def)
      ultimately show ?thesis using c p selects_refl[of "[]"] by (intro exI[of _ "[]"]) simp
    next
      case (Some x)
      obtain b rest where x: "x = (b, rest)" by (cases x)
      obtain blk where blk: "cut_event (r @ t) = Some (blk, rest)" "length r \<le> Suc (length blk)"
        using cut_event_tail(2)[OF r(1)] Some x by blast
      have long: "\<not> short blk" using blk(2) r(3) by (simp add: short_def)
      note ev = events_some[OF blk(1)]
      define st1 where "st1 = st0\<lparr>sp_buffer := rest, sp_discarding := False\<rparr>"
      have t: "take_text t st0 = (Some st1, st1)"
        using Some x r by (simp add: take_text_def st1_def Let_def)
      have "\<not> sp_discarding st1" "sp_buffer st1 = rest" by (simp_all add: st1_def)
      with guarded_parse[of st1 en now] assms(2) ev obtain st2
        where st2: "parse_events en now st1 = (Inr (), st2)" "framed (guard_overflow en st2) (snd (events rest))"
          "handled en (fst (events rest)) st1 (guard_overflow en st2)" by auto
      have "handled en [] st st1" using st0(3) by (simp add: st1_def handled_def seen_tokens_def)
      from handled_trans[OF this st2(3)] show ?thesis
        using st2 selects_skip[OF long, of "fst (events rest)"] by (auto simp: chunk t ev)
    qed
  qed
qed

abbreviation run_chunks :: "stream_env \<Rightarrow> ('b list \<Rightarrow> string) \<Rightarrow> (py_time \<times> 'b list) list \<Rightarrow> stream_proc \<Rightarrow> stream_proc" where
  "run_chunks en decode cs st \<equiv> fold (\<lambda>(now, chunk). process_chunk en decode now chunk) cs st"

definition chunk_texts :: "('b list \<Rightarrow> string) \<Rightarrow> (py_time \<times> 'b list) list \<Rightarrow> string list" where
  "chunk_texts decode cs = map (\<lambda>(now, chunk). normalize_lines (decode chunk)) cs"

lemma chunks_framed:
  assumes "framed st r" "\<forall>b \<in> set (fst (events (r @ concat (chunk_texts decode cs)))). plain en b"
  shows "\<exists>ps. selects ps (fst (events (r @ concat (chunk_texts decode cs)))) \<and>
    framed (run_chunks en decode cs st) (snd (events (r @ concat (chunk_texts decode cs)))) \<and>
    handled en ps st (run_chunks en decode cs st)"
  using assms
proof (induction cs arbitrary: st r)
  case Nil
  have "cut_event r = None" using Nil.prems(1) by (simp add: framed_def)
  then show ?case using Nil.prems(1) selects_refl[of "[]"]
    by (intro exI[of _ "[]"]) (simp add: chunk_texts_def handled_def sum_tokens_def)
next
  case (Cons c cs)
  obtain now chunk where c: "c = (now, chunk)" by (cases c)
  define t where "t = normalize_lines (decode chunk)"
  define u where "u = concat (chunk_texts decode cs)"
  have whole: "r @ concat (chunk_texts decode (c # cs)) = (r @ t) @ u" by (simp add: chunk_texts_def c t_def u_def)
  note ev = events_append[of "r @ t" u]
  have pl: "\<forall>b \<in> set (fst (events (r @ t))). plain en b" "\<forall>b \<in> set (fst (events (snd (events (r @ t)) @ u))). plain en b"
    using Cons.prems(2) unfolding whole ev by auto
  obtain ps where ps: "selects ps (fst (events (r @ t)))"
    "framed (process_chunk en decode now chunk st) (snd (events (r @ t)))"
    "handled en ps st (process_chunk en decode now chunk st)"
    using chunk_framed[where decode = decode and now = now, OF Cons.prems(1) pl(1) t_def] by blast
  obtain qs where qs: "selects qs (fst (events (snd (events (r @ t)) @ u)))"
    "framed (run_chunks en decode cs (process_chunk en decode now chunk st)) (snd (events (snd (events (r @ t)) @ u)))"
    "handled en qs (process_chunk en decode now chunk st) (run_chunks en decode cs (process_chunk en decode now chunk st))"
    using Cons.IH[OF ps(2)] pl(2) unfolding u_def by blast
  show ?case unfolding whole ev
    using selects_append[OF ps(1) qs(1)] qs(2) handled_trans[OF ps(3) qs(3)] by (auto simp: c)
qed

text \<open>The sum of a non-empty list of usages: the largest counts.\<close>

lemma sum_tokens_max:
  assumes "\<forall>u \<in> set us. 0 \<le> us_input u \<and> 0 \<le> us_output u \<and> us_input u + us_output u \<le> us_total u" "us \<noteq> []"
  shows "\<exists>t. sum_tokens None us = Some t \<and> us_input t = Max (us_input ` set us) \<and> us_output t = Max (us_output ` set us) \<and>
    us_total t = max (Max (us_total ` set us)) (us_input t + us_output t)"
  using assms
proof (induction us rule: rev_induct)
  case (snoc u us)
  show ?case
  proof (cases "us = []")
    case True
    then show ?thesis using snoc.prems(1) by (simp add: sum_tokens_def add_tokens_def max_def)
  next
    case False
    then obtain t where t: "sum_tokens None us = Some t" "us_input t = Max (us_input ` set us)"
      "us_output t = Max (us_output ` set us)" "us_total t = max (Max (us_total ` set us)) (us_input t + us_output t)"
      using snoc by auto
    have m: "Max (f ` set (us @ [u])) = max (Max (f ` set us)) (f u)" for f :: "token_usage \<Rightarrow> int"
      using False by (simp add: max.commute)
    have "sum_tokens None (us @ [u]) = add_tokens (Some t) (Some u)" using t(1) by (simp add: sum_tokens_def)
    then show ?thesis unfolding m t(4) using t(2,3) by (auto simp: add_tokens_def t(4) max_def)
  qed
qed simp

lemma reported_usage_ok: "extract_token_usage data = Inr (Some u) \<Longrightarrow>
    0 \<le> us_input u \<and> 0 \<le> us_output u \<and> us_input u + us_output u \<le> us_total u"
  using pick_usage_spec[of None "- 1" "iter_nodes data" "Some u"] usage_counts
  by (fastforce simp: extract_token_usage_def reports_def)

lemma usages_ok: "\<forall>u \<in> set (usages en bs). 0 \<le> us_input u \<and> 0 \<le> us_output u \<and> us_input u + us_output u \<le> us_total u"
proof (induction bs)
  case (Cons b bs)
  have "0 \<le> us_input u \<and> 0 \<le> us_output u \<and> us_input u + us_output u \<le> us_total u"
    if "block_usage en b = Inr (Some u)" for u
    using that reported_usage_ok
    by (auto simp: block_usage_def Let_def result_bind_Inr split: if_splits option.splits)
  then show ?case using Cons by (auto split: sum.splits option.splits)
qed simp

lemma finalize_after_chunks:
  assumes "\<forall>b \<in> set (fst (events (concat (chunk_texts decode cs)))). plain en b"
    "st = run_chunks en decode cs (new_processor req svc user tenant assistant rtype model provider start)"
  shows "\<exists>ps st'. selects ps (fst (events (concat (chunk_texts decode cs)))) \<and>
    (if usages en ps = []
     then finalize en now st = (Inr (if should_record_fallback rtype then [fallback_usage now st'] else []), st')
     else \<exists>r. finalize en now st = (Inr [r], st') \<and>
       ud_input r = Max (us_input ` set (usages en ps)) \<and> ud_output r = Max (us_output ` set (usages en ps)) \<and>
       ud_total r = max (Max (us_total ` set (usages en ps))) (ud_input r + ud_output r))"
proof -
  let ?st0 = "new_processor req svc user tenant assistant rtype model provider start"
  have "framed ?st0 []" by (simp add: framed_def new_processor_def)
  from chunks_framed[OF this, of decode cs en] assms obtain ps where
    ps: "selects ps (fst (events (concat (chunk_texts decode cs))))"
      "framed st (snd (events (concat (chunk_texts decode cs))))" "handled en ps ?st0 st" by auto
  have h: "seen_tokens st = sum_tokens None (usages en ps)" "sp_collected st = (usages en ps \<noteq> [])" "sp_type st = rtype"
    using ps(3) by (simp_all add: handled_def new_processor_def seen_tokens_def)
  have "cut_event (sp_buffer st) = None"
    using ps(2) by (auto simp: framed_def kept_tail_def split: if_splits)
  then have parse: "(if sp_buffer st \<noteq> [] then parse_events en now st else (Inr (), st)) = (Inr (), st)"
    by (simp add: parse_events.simps[of en now st])
  show ?thesis
  proof (cases "usages en ps = []")
    case True
    then have "sp_pending st = None" using h(1) by (simp add: seen_tokens_def sum_tokens_def)
    then show ?thesis using True h(2,3) ps(1) parse
      by (intro exI[of _ ps] exI[of _ "st\<lparr>sp_pending := None\<rparr>"]) (simp add: finalize_def Let_def)
  next
    case False
    from sum_tokens_max[OF usages_ok this] obtain t where
      t: "sum_tokens None (usages en ps) = Some t" "us_input t = Max (us_input ` set (usages en ps))"
        "us_output t = Max (us_output ` set (usages en ps))"
        "us_total t = max (Max (us_total ` set (usages en ps))) (us_input t + us_output t)" by blast
    then obtain p where p: "sp_pending st = Some p" "ud_input p = us_input t" "ud_output p = us_output t" "ud_total p = us_total t"
      using h(1) by (auto simp: seen_tokens_def)
    have "finalize en now st = (Inr [flushed_usage st p], st\<lparr>sp_pending := None\<rparr>)"
      using False h(2) parse p(1) by (simp add: finalize_def)
    moreover have "ud_input (flushed_usage st p) = us_input t" "ud_output (flushed_usage st p) = us_output t"
      "ud_total (flushed_usage st p) = us_total t" by (simp_all add: flushed_usage_def p)
    ultimately show ?thesis using False ps(1) t by (intro exI[of _ ps] exI[of _ "st\<lparr>sp_pending := None\<rparr>"]) auto
  qed
qed

section \<open>Properties\<close>

text \<open>
  C27: The usage of a stream is billed once and in full. Let the text of the stream be what its chunks decode to,
  with line ends made uniform chunk by chunk (so a CR LF pair that is cut between two chunks is a blank line of
  this text), and let none of its events make a handler raise. Then ending the stream publishes, when some
  handled event reports usage, one record, whose counts are the largest that the handled events report; and
  otherwise the fallback record of a run, or nothing. The events handled are those of the text, cut at its blank
  lines, where only events of a mebichar or more may be left out; how the text is cut into chunks decides
  nothing but which of those are.\<close>

theorem stream_is_billed_once:
  assumes "\<forall>b \<in> set (fst (events (concat (chunk_texts decode cs)))). plain en b"
    "st = run_chunks en decode cs (new_processor req svc user tenant assistant rtype model provider start)"
  shows "\<exists>ps st'. selects ps (fst (events (concat (chunk_texts decode cs)))) \<and>
    (if usages en ps = []
     then finalize en now st = (Inr (if should_record_fallback rtype then [fallback_usage now st'] else []), st')
     else \<exists>r. finalize en now st = (Inr [r], st') \<and>
       ud_input r = Max (us_input ` set (usages en ps)) \<and> ud_output r = Max (us_output ` set (usages en ps)) \<and>
       ud_total r = max (Max (us_total ` set (usages en ps))) (ud_input r + ud_output r))"
  by (rule finalize_after_chunks[OF assms])

text \<open>
  The buffer stays bounded. Between the chunks of a stream whose events make no handler raise, the
  processor keeps at most a mebichar of text.\<close>

theorem buffer_is_bounded:
  assumes "\<forall>b \<in> set (fst (events (concat (chunk_texts decode cs)))). plain en b"
  shows "length (sp_buffer (run_chunks en decode cs (new_processor req svc user tenant assistant rtype model provider start)))
    \<le> max_buffer_chars"
proof -
  let ?st0 = "new_processor req svc user tenant assistant rtype model provider start"
  have "framed ?st0 []" by (simp add: framed_def new_processor_def)
  from chunks_framed[OF this, of decode cs en] assms
  have "framed (run_chunks en decode cs ?st0) (snd (events (concat (chunk_texts decode cs))))" by auto
  then show ?thesis by (auto simp: framed_def kept_tail_def max_buffer_chars_def split: if_splits)
qed

text \<open>An event that makes a handler raise stops the loop behind it and skips the check of the size.\<close>

lemma raising_block:
  assumes "\<not> plain en block" "cut_event (sp_buffer st) = Some (block, rest)"
  shows "\<exists>e st'. parse_events en now st = (Inl e, st') \<and> sp_buffer st' = rest \<and> sp_discarding st' = sp_discarding st \<and>
    seen_tokens st' = seen_tokens st"
proof -
  obtain r st' where b: "process_event_block en now block (st\<lparr>sp_buffer := rest\<rparr>) = (r, st')"
    by (cases "process_event_block en now block (st\<lparr>sp_buffer := rest\<rparr>)")
  obtain e where e: "block_usage en block = Inl e" using assms(1) by (auto simp: plain_def isl_def)
  have h: "isl r" "sp_buffer st' = rest" "sp_discarding st' = sp_discarding st" "seen_tokens st' = seen_tokens st"
    using block_handles[of en block "st\<lparr>sp_buffer := rest\<rparr>" now] unfolding b
    by (simp_all add: handles_def e same_frame_def seen_tokens_def)
  then obtain e' where "r = Inl e'" by (cases r) auto
  then show ?thesis using h b assms(2) by (simp add: parse_events.simps[of en now st])
qed

text \<open>
  Two bad events in a chunk defeat the bound and lose the bill. If an event makes a handler raise, a
  stream of \<open>n\<close> chunks with two such events each leaves \<open>n\<close> of them in the buffer, past any bound, and
  ending the stream raises before the usage seen until then is published.\<close>

theorem raising_events_pile_up:
  assumes "\<not> plain en block" "cut_event (block @ [LF, LF]) = Some (block, [])"
    "\<forall>(now, chunk) \<in> set cs. normalize_lines (decode chunk) = block @ [LF, LF] @ block @ [LF, LF]"
    "sp_buffer st = []" "\<not> sp_discarding st" "cs \<noteq> []"
  shows "length (sp_buffer (run_chunks en decode cs st)) = length cs * (length block + 2) \<and>
    isl (fst (finalize en now (run_chunks en decode cs st)))"
proof -
  let ?e = "block @ [LF, LF]"
  have cut: "cut_event (?e @ rest) = Some (block, rest)" for rest
    using cut_event_append[OF assms(2), of rest] by simp
  have run: "sp_buffer (run_chunks en decode cs st) = concat (replicate (length cs + k) ?e) \<and>
      \<not> sp_discarding (run_chunks en decode cs st)"
    if "sp_buffer st = concat (replicate k ?e)" "\<not> sp_discarding st"
      "\<forall>(now, chunk) \<in> set cs. normalize_lines (decode chunk) = ?e @ ?e" for cs k st
    using that
  proof (induction cs arbitrary: st k)
    case (Cons c cs)
    obtain now' chunk where c: "c = (now', chunk)" by (cases c)
    have tx: "normalize_lines (decode chunk) = ?e @ ?e" using Cons.prems(3) c by simp
    have shift: "concat (replicate k ?e) @ ?e @ ?e = ?e @ concat (replicate (Suc k) ?e)"
      by (induction k) auto
    define st0 where "st0 = (if sp_first_chunk st \<le> 0 then st\<lparr>sp_first_chunk := max (py_trunc (elapsed_ms now' st)) 1\<rparr> else st)"
    define st1 where "st1 = st0\<lparr>sp_buffer := ?e @ concat (replicate (Suc k) ?e)\<rparr>"
    have s0: "sp_buffer st0 = concat (replicate k ?e)" "\<not> sp_discarding st0" using Cons.prems by (simp_all add: st0_def)
    have take: "take_text (normalize_lines (decode chunk)) st0 = (Some st1, st1)"
      using s0 by (simp only: take_text_def tx shift st1_def Let_def if_False)
    have b1: "sp_buffer st1 = ?e @ concat (replicate (Suc k) ?e)" by (simp add: st1_def)
    have "cut_event (sp_buffer st1) = Some (block, concat (replicate (Suc k) ?e))" unfolding b1 by (rule cut)
    from raising_block[OF assms(1) this, of now'] obtain e st2 where
      st2: "parse_events en now' st1 = (Inl e, st2)" "sp_buffer st2 = concat (replicate (Suc k) ?e)"
        "sp_discarding st2 = sp_discarding st1" by blast
    have "process_chunk en decode now' chunk st = st2"
      using take st2(1) by (simp add: process_chunk_def st0_def Let_def)
    moreover have "\<not> sp_discarding st2" using st2(3) s0 by (simp add: st1_def)
    ultimately have "sp_buffer (run_chunks en decode cs st2) = concat (replicate (length cs + Suc k) ?e) \<and>
        \<not> sp_discarding (run_chunks en decode cs st2)"
      using Cons.IH[OF st2(2)] Cons.prems(3) by simp
    then show ?case using \<open>process_chunk en decode now' chunk st = st2\<close> by (simp add: c)
  qed simp
  define s where "s = run_chunks en decode cs st"
  have buf: "sp_buffer s = concat (replicate (length cs) ?e)"
    using run[where k = 0 and st = st and cs = cs] assms(3-5) by (simp add: s_def)
  have len: "length (concat (replicate n ?e)) = n * (length block + 2)" for n by (induction n) auto
  obtain m where m: "length cs = Suc m" using assms(6) by (cases cs) auto
  have "cut_event (sp_buffer s) = Some (block, concat (replicate m ?e))" using cut buf m by simp
  from raising_block[OF assms(1) this, of now] obtain e st' where "parse_events en now s = (Inl e, st')" by blast
  moreover have "sp_buffer s \<noteq> []" using buf m by simp
  ultimately have "isl (fst (finalize en now s))" by (simp add: finalize_def)
  then show ?thesis using buf len[of "length cs"] by (simp add: s_def)
qed

lemma replace_crlf_split: "replace_crlf (a @ CR # LF # b) = replace_crlf a @ LF # replace_crlf b"
  by (induction a rule: replace_crlf.induct) (auto simp: CR_def LF_def)

lemma replace_crlf_CR: "replace_crlf (a @ [CR]) = replace_crlf a @ [CR]"
  by (induction a rule: replace_crlf.induct) (auto simp: CR_def LF_def)

lemma replace_crlf_LF: "replace_crlf (LF # b) = LF # replace_crlf b"
  by (cases b) (auto simp: CR_def LF_def)

lemma normalize_split:
  "normalize_lines (a @ CR # LF # b) = normalize_lines a @ LF # normalize_lines b"
  "normalize_lines (a @ [CR]) = normalize_lines a @ [LF]" "normalize_lines (LF # b) = LF # normalize_lines b"
  by (simp_all add: normalize_lines_def py_replace_char_def replace_crlf_split replace_crlf_CR replace_crlf_LF)

lemma selects_short: "selects ps bs \<Longrightarrow> \<forall>b \<in> set bs. short b \<Longrightarrow> ps = bs"
proof -
  assume a: "selects ps bs" "\<forall>b \<in> set bs. short b"
  then have "filter short ps = bs" by (simp add: selects_def)
  then have "subseq bs ps" using subseq_filter_left[of short ps] by simp
  then show "ps = bs" using a(1) by (simp add: selects_def subseq_order.antisym)
qed

text \<open>A text that is one event when a blank line follows.\<close>

definition event_text :: "string \<Rightarrow> bool" where
  "event_text x \<longleftrightarrow> cut_event (x @ [LF, LF]) = Some (x, [])"

lemma events_cut: "event_text x \<Longrightarrow> events (x @ [LF, LF] @ s) = (x # fst (events s), snd (events s))"
  using cut_event_append[of "x @ [LF, LF]" x "[]" s] by (simp add: event_text_def events_some)

lemma events_Nil [simp]: "events [] = ([], [])"
  by (simp add: events.simps)

text \<open>
  C29: A line end cut in two loses the usage. When the carriage return and the line feed of an event's line
  end arrive in different chunks, each is made a line feed of its own, so that a blank line appears and the
  event falls into two. If neither half reports the usage, the stream that is billed in one chunk is not
  billed in two.\<close>

theorem split_line_end_loses_usage:
  assumes dec: "decode whole = a @ [CR, LF] @ b" "decode c1 = a @ [CR]" "decode c2 = LF # b"
    and lines: "normalize_lines a = x" "normalize_lines b = y @ [LF, LF]"
    and ev: "event_text (x @ [LF] @ y)" "event_text x" "event_text y" "short (x @ [LF] @ y)"
    and u: "block_usage en (x @ [LF] @ y) = Inr (Some u)" "block_usage en x = Inr None" "block_usage en y = Inr None"
    and st: "st = new_processor req svc user tenant assistant rtype model provider start"
  shows "(\<exists>r st'. finalize en now (run_chunks en decode [(ta, whole)] st) = (Inr [r], st') \<and> ud_input r = us_input u \<and>
       ud_output r = us_output u) \<and>
    (\<exists>st'. finalize en now (run_chunks en decode [(ta, c1), (tb, c2)] st) =
       (Inr (if should_record_fallback rtype then [fallback_usage now st'] else []), st'))"
proof
  have one: "concat (chunk_texts decode [(ta, whole)]) = (x @ [LF] @ y) @ [LF, LF] @ []"
    by (simp add: chunk_texts_def dec normalize_split lines)
  have e1: "fst (events (concat (chunk_texts decode [(ta, whole)]))) = [x @ [LF] @ y]"
    unfolding one events_cut[OF ev(1)] by simp
  have p1: "\<forall>b \<in> set (fst (events (concat (chunk_texts decode [(ta, whole)])))). plain en b"
    unfolding e1 using u(1) by (simp add: plain_def)
  obtain ps st' where r1: "selects ps [x @ [LF] @ y]" "if usages en ps = []
     then finalize en now (run_chunks en decode [(ta, whole)] st) = (Inr (if should_record_fallback rtype then [fallback_usage now st'] else []), st')
     else \<exists>r. finalize en now (run_chunks en decode [(ta, whole)] st) = (Inr [r], st') \<and>
       ud_input r = Max (us_input ` set (usages en ps)) \<and> ud_output r = Max (us_output ` set (usages en ps)) \<and>
       ud_total r = max (Max (us_total ` set (usages en ps))) (ud_input r + ud_output r)"
    using finalize_after_chunks[where now = now and req = req and svc = svc and user = user and tenant = tenant and
        assistant = assistant and rtype = rtype and model = model and provider = provider and start = start, OF p1 refl, folded st] unfolding e1 by blast
  have "ps = [x @ [LF] @ y]" using selects_short[OF r1(1)] ev(4) by simp
  then have "usages en ps = [u]" using u(1) by simp
  then show "\<exists>r st'. finalize en now (run_chunks en decode [(ta, whole)] st) = (Inr [r], st') \<and> ud_input r = us_input u \<and>
       ud_output r = us_output u" using r1(2) by auto
  have two: "concat (chunk_texts decode [(ta, c1), (tb, c2)]) = x @ [LF, LF] @ y @ [LF, LF] @ []"
    by (simp add: chunk_texts_def dec normalize_split lines)
  have e2: "fst (events (concat (chunk_texts decode [(ta, c1), (tb, c2)]))) = [x, y]"
    unfolding two events_cut[OF ev(2)] events_cut[OF ev(3)] by simp
  have p2: "\<forall>b \<in> set (fst (events (concat (chunk_texts decode [(ta, c1), (tb, c2)])))). plain en b"
    unfolding e2 using u(2,3) by (simp add: plain_def)
  obtain qs st2 where r2: "selects qs [x, y]" "if usages en qs = []
     then finalize en now (run_chunks en decode [(ta, c1), (tb, c2)] st) = (Inr (if should_record_fallback rtype then [fallback_usage now st2] else []), st2)
     else \<exists>r. finalize en now (run_chunks en decode [(ta, c1), (tb, c2)] st) = (Inr [r], st2) \<and>
       ud_input r = Max (us_input ` set (usages en qs)) \<and> ud_output r = Max (us_output ` set (usages en qs)) \<and>
       ud_total r = max (Max (us_total ` set (usages en qs))) (ud_input r + ud_output r)"
    using finalize_after_chunks[where now = now and req = req and svc = svc and user = user and tenant = tenant and
        assistant = assistant and rtype = rtype and model = model and provider = provider and start = start, OF p2 refl, folded st] unfolding e2 by blast
  have "short x" "short y" using ev(4) by (simp_all add: short_def)
  then have "qs = [x, y]" using selects_short[OF r2(1)] by simp
  then have "usages en qs = []" using u(2,3) by simp
  then show "\<exists>st'. finalize en now (run_chunks en decode [(ta, c1), (tb, c2)] st) =
       (Inr (if should_record_fallback rtype then [fallback_usage now st'] else []), st')" using r2(2) by auto
qed

section \<open>Concrete streams\<close>

text \<open>A decoder for two texts, one of them with an infinite count.\<close>

definition sample_loads :: "string \<Rightarrow> pyval option" where
  "sample_loads s =
     (if s = ''{'' @ [LF] @ ''U}'' then Some (PDict [(''prompt_tokens'', PInt 7), (''completion_tokens'', PInt 5)])
      else if s = ''I'' then Some (PDict [(''input_tokens'', PStr ''inf'')]) else None)"

definition sample_env :: stream_env where
  "sample_env = \<lparr>en_loads = sample_loads, en_redact = (\<lambda>s. s), en_repr = (\<lambda>v. [])\<rparr>"

definition usage_event :: string where
  "usage_event = ''data: {'' @ [LF] @ ''data: U}''"

lemma sample_usage:
  "block_usage sample_env usage_event = Inr (Some \<lparr>us_input = 7, us_output = 5, us_total = 12\<rparr>)"
  "block_usage sample_env ''data: {'' = Inr None" "block_usage sample_env ''data: U}'' = Inr None"
  "isl (block_usage sample_env ''data: I'')"
  by code_simp+

lemma sample_event_texts:
  "event_text usage_event" "event_text ''data: {''" "event_text ''data: U}''" "event_text ''data: I''"
  by code_simp+

definition sample_bytes :: "char list \<Rightarrow> string" where
  "sample_bytes b = b"

definition sample_processor :: stream_proc where
  "sample_processor = new_processor ''r'' ''s'' ''u'' ''t'' [] ''chat'' [] [] 0"

lemma split_line_end_loses_usage_witness:
  "\<exists>st'. finalize sample_env 9
     (run_chunks sample_env sample_bytes [(1, ''data: {'' @ [CR]), (2, LF # ''data: U}'' @ [CR, LF, CR, LF])] sample_processor)
     = (Inr [], st')"
proof -
  have lines: "normalize_lines ''data: {'' = ''data: {''" "normalize_lines (''data: U}'' @ [CR, LF, CR, LF]) = ''data: U}'' @ [LF, LF]"
    by code_simp+
  have e: "''data: {'' @ [LF] @ ''data: U}'' = usage_event" by (simp add: usage_event_def)
  have sh: "short usage_event" by (simp add: short_def max_buffer_chars_def usage_event_def)
  have "\<not> should_record_fallback ''chat''" by code_simp
  then show ?thesis
    using split_line_end_loses_usage[where decode = sample_bytes and whole = "''data: {'' @ [CR, LF] @ ''data: U}'' @ [CR, LF, CR, LF]"
        and en = sample_env and now = 9 and ta = 1 and tb = 2, OF _ _ _ lines, unfolded e,
        OF _ _ _ sample_event_texts(1-3) sh sample_usage(1-3) sample_processor_def]
    by (simp add: sample_bytes_def)
qed

definition whole_stream :: "(py_time \<times> char list) list" where
  "whole_stream = [(1, usage_event), (2, [LF, LF])]"

lemma whole_stream_events: "fst (events (concat (chunk_texts sample_bytes whole_stream))) = [usage_event]"
  by code_simp

lemma whole_stream_plain: "\<forall>b \<in> set (fst (events (concat (chunk_texts sample_bytes whole_stream)))). plain sample_env b"
  unfolding whole_stream_events by (simp add: plain_def sample_usage)

lemma stream_is_billed_once_witness:
  "\<exists>r st'. finalize sample_env 9 (run_chunks sample_env sample_bytes whole_stream sample_processor) = (Inr [r], st') \<and>
     ud_total r = 12"
proof -
  obtain ps st' where r: "selects ps [usage_event]" "if usages sample_env ps = []
     then finalize sample_env 9 (run_chunks sample_env sample_bytes whole_stream sample_processor)
       = (Inr (if should_record_fallback ''chat'' then [fallback_usage 9 st'] else []), st')
     else \<exists>r. finalize sample_env 9 (run_chunks sample_env sample_bytes whole_stream sample_processor) = (Inr [r], st') \<and>
       ud_input r = Max (us_input ` set (usages sample_env ps)) \<and> ud_output r = Max (us_output ` set (usages sample_env ps)) \<and>
       ud_total r = max (Max (us_total ` set (usages sample_env ps))) (ud_input r + ud_output r)"
    using stream_is_billed_once[where now = 9 and req = "''r''" and svc = "''s''" and user = "''u''" and tenant = "''t''" and
        assistant = "[]" and rtype = "''chat''" and model = "[]" and provider = "[]" and start = 0,
        OF whole_stream_plain refl, folded sample_processor_def]
    unfolding whole_stream_events by blast
  have "short usage_event" by (simp add: short_def max_buffer_chars_def usage_event_def)
  then have "ps = [usage_event]" using selects_short[OF r(1)] by simp
  then show ?thesis using r(2) by (auto simp: sample_usage)
qed

lemma buffer_is_bounded_witness:
  "length (sp_buffer (run_chunks sample_env sample_bytes whole_stream (new_processor [] [] [] [] [] [] [] [] 0))) \<le> 1048576"
  using buffer_is_bounded[OF whole_stream_plain] unfolding max_buffer_chars_def .

lemma raising_events_pile_up_witness:
  "length (sp_buffer (run_chunks sample_env sample_bytes
     (replicate 3 (1, ''data: I'' @ [LF, LF] @ ''data: I'' @ [LF, LF])) sample_processor)) = 27"
proof -
  have "normalize_lines (sample_bytes (''data: I'' @ [LF, LF] @ ''data: I'' @ [LF, LF])) = ''data: I'' @ [LF, LF] @ ''data: I'' @ [LF, LF]"
    by code_simp
  then have "\<forall>(now, chunk) \<in> set (replicate 3 (1, ''data: I'' @ [LF, LF] @ ''data: I'' @ [LF, LF])).
      normalize_lines (sample_bytes chunk) = ''data: I'' @ [LF, LF] @ ''data: I'' @ [LF, LF]" by simp
  from raising_events_pile_up[OF _ _ this, of sample_env sample_processor 0] show ?thesis
    using sample_usage(4) sample_event_texts(4) by (simp add: plain_def event_text_def sample_processor_def new_processor_def)
qed

end
