(* ===== verification/Billing_Flush.thy ===== *)
theory Billing_Flush
  imports Billing_Stream
begin

text \<open>
  From the buffer of usage records to the database (\<open>src/src/proxy/billing_interceptor.py\<close>): flushes take the
  buffer and push every record through up to three stages, each retried, with a dead-letter queue in Redis
  for what fails, its replay, and the shutdown. The callback, the broadcast and the database are outcomes of
  attempts; every flush is a process with one step for each stage of a record. The metrics are the two
  counters of dropped records.\<close>

datatype stage = StCallback | StRedis | StDatabase

text \<open>An attempt may take effect and still fail; a recorder that is not configured succeeds without effect.\<close>

record attempt =
  at_effect :: bool
  at_ok :: bool

datatype dlq_outcome = DlqOk | DlqPushFails | DlqTrimFails

record dead_letter =
  dl_stage :: stage
  dl_usage :: usage_data
  dl_at :: py_time

record interceptor =
  bi_callback :: bool
  bi_redis :: bool
  bi_size :: int
  bi_buffer :: "usage_data list"
  bi_sent :: "(stage \<times> usage_data) list"
  bi_dlq :: "dead_letter list"
  bi_replayed :: "dead_letter list"
  bi_max_retries :: nat
  bi_dlq_full :: nat
  bi_events :: int
  bi_tokens :: int

definition flush_retry_backoffs :: "rat list" where
  "flush_retry_backoffs = [1/10, 1/2, 2]"

definition billing_dlq_cap :: nat where
  "billing_dlq_cap = 10000"

definition new_interceptor :: "bool \<Rightarrow> bool \<Rightarrow> int \<Rightarrow> interceptor" where
  "new_interceptor callback redis size' =
     \<lparr>bi_callback = callback, bi_redis = redis, bi_size = size', bi_buffer = [], bi_sent = [], bi_dlq = [],
      bi_replayed = [], bi_max_retries = 0, bi_dlq_full = 0, bi_events = 0, bi_tokens = 0\<rparr>"

section \<open>One stage\<close>

text \<open>The first attempt and one after every delay: whether one succeeded, and how often it took effect.\<close>

definition attempt_effect :: "attempt \<Rightarrow> nat" where
  "attempt_effect a = (if at_effect a then 1 else 0)"

fun run_attempts :: "(nat \<Rightarrow> attempt) \<Rightarrow> nat \<Rightarrow> rat list \<Rightarrow> bool \<times> nat" where
  "run_attempts outcome k [] = (at_ok (outcome k), attempt_effect (outcome k))"
| "run_attempts outcome k (delay # delays) =
     (if at_ok (outcome k) then (True, attempt_effect (outcome k))
      else case run_attempts outcome (Suc k) delays of (ok, n) \<Rightarrow> (ok, attempt_effect (outcome k) + n))"

definition push_to_dead_letter :: "dlq_outcome \<Rightarrow> py_time \<Rightarrow> stage \<Rightarrow> usage_data \<Rightarrow> interceptor \<Rightarrow> interceptor" where
  "push_to_dead_letter out now stage u st =
     (let letter = \<lparr>dl_stage = stage, dl_usage = u, dl_at = now\<rparr> in
      if \<not> bi_redis st then st\<lparr>bi_dlq_full := bi_dlq_full st + 1\<rparr>
      else case out of
          DlqOk \<Rightarrow> st\<lparr>bi_dlq := take billing_dlq_cap (letter # bi_dlq st)\<rparr>
        | DlqPushFails \<Rightarrow> st\<lparr>bi_dlq_full := bi_dlq_full st + 1\<rparr>
        | DlqTrimFails \<Rightarrow> st\<lparr>bi_dlq := letter # bi_dlq st, bi_dlq_full := bi_dlq_full st + 1\<rparr>)"

definition run_stage ::
  "(nat \<Rightarrow> attempt) \<Rightarrow> dlq_outcome \<Rightarrow> py_time \<Rightarrow> stage \<Rightarrow> usage_data \<Rightarrow> interceptor \<Rightarrow> bool \<times> interceptor" where
  "run_stage outcome out now stage u st =
     (case run_attempts outcome 0 flush_retry_backoffs of
        (ok, n) \<Rightarrow>
          (let st1 = st\<lparr>bi_sent := bi_sent st @ replicate n (stage, u)\<rparr>
           in if ok then (True, st1)
              else (False, (push_to_dead_letter out now stage u st1)\<lparr>bi_max_retries := bi_max_retries st + 1\<rparr>)))"

text \<open>The stages of \<open>_push_usage\<close>, in order, each run whatever became of the one before.\<close>

definition jobs_of :: "interceptor \<Rightarrow> usage_data \<Rightarrow> (stage \<times> usage_data) list" where
  "jobs_of st u =
     (if bi_callback st then [(StCallback, u)] else []) @ (if bi_redis st then [(StRedis, u)] else []) @ [(StDatabase, u)]"

definition run_job ::
  "(nat \<Rightarrow> attempt) \<Rightarrow> dlq_outcome \<Rightarrow> py_time \<Rightarrow> stage \<times> usage_data \<Rightarrow> interceptor \<Rightarrow> bool \<times> interceptor" where
  "run_job outcome out now job st =
     (case job of (stage, u) \<Rightarrow>
        (case run_stage outcome out now stage u st of (ok, st1) \<Rightarrow>
           (ok, if stage = StDatabase \<and> ok
                then st1\<lparr>bi_events := bi_events st1 + 1, bi_tokens := bi_tokens st1 + ud_total u\<rparr> else st1)))"

section \<open>Replaying dead letters\<close>

text \<open>
  One round of \<open>replay_dead_letter\<close> on a queue that is not empty: whether it went on. A letter of the
  callback is replayed into the database when no callback is configured.\<close>

definition replay_stage :: "interceptor \<Rightarrow> dead_letter \<Rightarrow> stage" where
  "replay_stage st l =
     (if dl_stage l = StRedis then StRedis
      else if dl_stage l = StCallback \<and> bi_callback st then StCallback else StDatabase)"

definition replay_one ::
  "(nat \<Rightarrow> attempt) \<Rightarrow> dlq_outcome \<Rightarrow> py_time \<Rightarrow> interceptor \<Rightarrow> bool \<times> interceptor" where
  "replay_one outcome out now st =
     (let l = List.last (bi_dlq st); st1 = st\<lparr>bi_dlq := butlast (bi_dlq st)\<rparr>
      in case run_stage outcome out now (replay_stage st l) (dl_usage l) st1 of
           (True, st2) \<Rightarrow> (True, st2\<lparr>bi_replayed := take billing_dlq_cap (l # bi_replayed st2)\<rparr>)
         | (False, st2) \<Rightarrow> (False, st2\<lparr>bi_dlq := l # bi_dlq st2\<rparr>))"

fun replay_dead_letter ::
  "(nat \<Rightarrow> nat \<Rightarrow> attempt) \<Rightarrow> (nat \<Rightarrow> dlq_outcome) \<Rightarrow> py_time \<Rightarrow> nat \<Rightarrow> interceptor \<Rightarrow> (nat \<times> nat \<times> nat) \<times> interceptor" where
  "replay_dead_letter outcome out now 0 st = ((0, 0, 0), st)"
| "replay_dead_letter outcome out now (Suc limit) st =
     (if \<not> bi_redis st \<or> bi_dlq st = [] then ((0, 0, 0), st)
      else case replay_one (outcome limit) (out limit) now st of
             (True, st1) \<Rightarrow>
               (case replay_dead_letter outcome out now limit st1 of
                  ((a, r, f), st2) \<Rightarrow> ((a + 1, r + 1, f), st2))
           | (False, st1) \<Rightarrow> ((1, 0, 1), st1))"

section \<open>Flushes and the shutdown\<close>

datatype flush_proc = FlStart | FlJobs "(stage \<times> usage_data) list"

datatype stop_state = NotStopping | Draining | Finishing flush_proc

text \<open>
  The periodic flush, the spawned ones, the shutdown; and for the statements, what was appended, what
  reached the database, what failed there after all retries, and what a cancelled flush had in its hands.\<close>

record flush_system =
  fs_int :: interceptor
  fs_loop :: "(stage \<times> usage_data) list"
  fs_tasks :: "flush_proc list"
  fs_stop :: stop_state
  fs_in :: "usage_data list"
  fs_durable :: "usage_data list"
  fs_failed :: "usage_data list"
  fs_lost :: "usage_data list"

definition db_records :: "(stage \<times> usage_data) list \<Rightarrow> usage_data list" where
  "db_records js = map snd (filter (\<lambda>(s, u). s = StDatabase) js)"

definition take_buffer :: "interceptor \<Rightarrow> (stage \<times> usage_data) list \<times> interceptor" where
  "take_buffer st = (concat (map (jobs_of st) (bi_buffer st)), st\<lparr>bi_buffer := []\<rparr>)"

definition job_step ::
  "(nat \<Rightarrow> attempt) \<Rightarrow> dlq_outcome \<Rightarrow> py_time \<Rightarrow> stage \<times> usage_data \<Rightarrow> flush_system \<Rightarrow> flush_system" where
  "job_step outcome out now job s =
     (case run_job outcome out now job (fs_int s) of (ok, st) \<Rightarrow>
        (let s1 = s\<lparr>fs_int := st\<rparr>
         in if fst job \<noteq> StDatabase then s1
            else if ok then s1\<lparr>fs_durable := fs_durable s1 @ [snd job]\<rparr>
            else s1\<lparr>fs_failed := fs_failed s1 @ [snd job]\<rparr>))"

definition proc_step ::
  "(nat \<Rightarrow> attempt) \<Rightarrow> dlq_outcome \<Rightarrow> py_time \<Rightarrow> flush_proc \<Rightarrow> flush_system \<Rightarrow> flush_proc \<times> flush_system" where
  "proc_step outcome out now p s =
     (case p of
        FlStart \<Rightarrow> (case take_buffer (fs_int s) of (js, st) \<Rightarrow> (FlJobs js, s\<lparr>fs_int := st\<rparr>))
      | FlJobs [] \<Rightarrow> (FlJobs [], s)
      | FlJobs (j # js) \<Rightarrow> (FlJobs js, job_step outcome out now j s))"

datatype flush_event =
    FeAppend usage_data
  | FeTick
  | FeLoop "nat \<Rightarrow> attempt" dlq_outcome py_time
  | FeTask nat "nat \<Rightarrow> attempt" dlq_outcome py_time
  | FeStop nat
  | FeDrained
  | FeFinish "nat \<Rightarrow> attempt" dlq_outcome py_time

text \<open>
  \<open>FeAppend\<close> is the end of a stream, with the flush it spawns when the buffer is full. \<open>FeStop k\<close> cancels the
  periodic flush wherever it is, perhaps in the middle of a stage of which \<open>k\<close> attempts have taken effect; the
  spawned ones are awaited, and one more flush runs at the end.\<close>

fun flush_step :: "flush_event \<Rightarrow> flush_system \<Rightarrow> flush_system" where
  "flush_step (FeAppend u) s =
     (let st = (fs_int s)\<lparr>bi_buffer := bi_buffer (fs_int s) @ [u]\<rparr>
      in s\<lparr>fs_int := st, fs_in := fs_in s @ [u],
           fs_tasks := (if bi_size st \<le> int (length (bi_buffer st)) then fs_tasks s @ [FlStart] else fs_tasks s)\<rparr>)"
| "flush_step FeTick s =
     (if fs_stop s = NotStopping \<and> fs_loop s = []
      then (case take_buffer (fs_int s) of (js, st) \<Rightarrow> s\<lparr>fs_int := st, fs_loop := js\<rparr>) else s)"
| "flush_step (FeLoop outcome out now) s =
     (case fs_loop s of [] \<Rightarrow> s | j # js \<Rightarrow> (job_step outcome out now j s)\<lparr>fs_loop := js\<rparr>)"
| "flush_step (FeTask i outcome out now) s =
     (if i < length (fs_tasks s)
      then (case proc_step outcome out now (fs_tasks s ! i) s of (p, s1) \<Rightarrow> s1\<lparr>fs_tasks := (fs_tasks s)[i := p]\<rparr>)
      else s)"
| "flush_step (FeStop k) s =
     (if fs_stop s = NotStopping
      then s\<lparr>fs_stop := Draining, fs_lost := fs_lost s @ db_records (fs_loop s), fs_loop := [],
             fs_int := (fs_int s)\<lparr>bi_sent := bi_sent (fs_int s) @
               (case fs_loop s of [] \<Rightarrow> [] | j # js \<Rightarrow> replicate (min k (Suc (length flush_retry_backoffs))) j)\<rparr>\<rparr>
      else s)"
| "flush_step FeDrained s =
     (if fs_stop s = Draining \<and> list_all (\<lambda>p. p = FlJobs []) (fs_tasks s) then s\<lparr>fs_stop := Finishing FlStart\<rparr> else s)"
| "flush_step (FeFinish outcome out now) s =
     (case fs_stop s of
        Finishing p \<Rightarrow> (case proc_step outcome out now p s of (p', s1) \<Rightarrow> s1\<lparr>fs_stop := Finishing p'\<rparr>)
      | _ \<Rightarrow> s)"

definition flush_init :: "bool \<Rightarrow> bool \<Rightarrow> int \<Rightarrow> flush_system" where
  "flush_init callback redis size' =
     \<lparr>fs_int = new_interceptor callback redis size', fs_loop = [], fs_tasks = [], fs_stop = NotStopping, fs_in = [],
      fs_durable = [], fs_failed = [], fs_lost = []\<rparr>"

abbreviation flush_run :: "flush_event list \<Rightarrow> flush_system \<Rightarrow> flush_system" where
  "flush_run \<equiv> fold flush_step"

section \<open>Every record is accounted for\<close>

fun proc_jobs :: "flush_proc \<Rightarrow> (stage \<times> usage_data) list" where
  "proc_jobs FlStart = []"
| "proc_jobs (FlJobs js) = js"

definition stop_jobs :: "stop_state \<Rightarrow> (stage \<times> usage_data) list" where
  "stop_jobs x = (case x of Finishing p \<Rightarrow> proc_jobs p | _ \<Rightarrow> [])"

definition waiting :: "flush_system \<Rightarrow> usage_data list" where
  "waiting s = bi_buffer (fs_int s) @ db_records (fs_loop s) @ db_records (concat (map proc_jobs (fs_tasks s)))
     @ db_records (stop_jobs (fs_stop s))"

definition all_accounted :: "flush_system \<Rightarrow> bool" where
  "all_accounted s \<longleftrightarrow> mset (fs_in s) = mset (waiting s) + mset (fs_durable s) + mset (fs_failed s) + mset (fs_lost s)"

lemma db_records_simps [simp]:
  "db_records [] = []" "db_records ((StDatabase, u) # js) = u # db_records js"
  "stg \<noteq> StDatabase \<Longrightarrow> db_records ((stg, u) # js) = db_records js" "db_records (xs @ ys) = db_records xs @ db_records ys"
  by (simp_all add: db_records_def)

lemma db_records_jobs: "db_records (concat (map (jobs_of st) us)) = us"
  by (induction us) (simp_all add: jobs_of_def)

lemma run_stage_buffer: "run_stage oc out now stg u st = (ok, st') \<Longrightarrow> bi_buffer st' = bi_buffer st"
  by (auto simp: run_stage_def push_to_dead_letter_def Let_def split: prod.splits if_splits dlq_outcome.splits)

lemma run_job_buffer: "run_job oc out now j st = (ok, st') \<Longrightarrow> bi_buffer st' = bi_buffer st"
  by (auto simp: run_job_def dest!: run_stage_buffer split: prod.splits if_splits)

lemma job_step_frame:
  "bi_buffer (fs_int (job_step oc out now j s)) = bi_buffer (fs_int s)"
  "fs_loop (job_step oc out now j s) = fs_loop s" "fs_tasks (job_step oc out now j s) = fs_tasks s"
  "fs_stop (job_step oc out now j s) = fs_stop s" "fs_in (job_step oc out now j s) = fs_in s"
  "fs_lost (job_step oc out now j s) = fs_lost s"
  by (auto simp: job_step_def Let_def dest!: run_job_buffer split: prod.splits if_splits)

lemma job_step_mset:
  "mset (fs_durable (job_step oc out now j s)) + mset (fs_failed (job_step oc out now j s))
     = mset (fs_durable s) + mset (fs_failed s) + mset (db_records [j])"
proof (cases "fst j = StDatabase")
  case True
  then have "db_records [j] = [snd j]" by (cases j) simp
  then show ?thesis using True by (auto simp: job_step_def Let_def split: prod.splits if_splits)
next
  case False
  then have "db_records [j] = []" by (cases j) simp
  then show ?thesis using False by (auto simp: job_step_def Let_def split: prod.splits if_splits)
qed

lemma db_records_Cons: "db_records (j # js) = db_records [j] @ db_records js"
  using db_records_simps(4)[of "[j]" js] by simp

text \<open>A step of a process moves records between its hands and the logs.\<close>

lemma proc_step_mset:
  assumes "proc_step oc out now p s = (p', s')"
  shows "mset (bi_buffer (fs_int s')) + mset (db_records (proc_jobs p')) + mset (fs_durable s') + mset (fs_failed s')
      = mset (bi_buffer (fs_int s)) + mset (db_records (proc_jobs p)) + mset (fs_durable s) + mset (fs_failed s)"
    "fs_loop s' = fs_loop s" "fs_tasks s' = fs_tasks s" "fs_stop s' = fs_stop s" "fs_in s' = fs_in s" "fs_lost s' = fs_lost s"
proof -
  have "mset (bi_buffer (fs_int s')) + mset (db_records (proc_jobs p')) + mset (fs_durable s') + mset (fs_failed s')
      = mset (bi_buffer (fs_int s)) + mset (db_records (proc_jobs p)) + mset (fs_durable s) + mset (fs_failed s) \<and>
    fs_loop s' = fs_loop s \<and> fs_tasks s' = fs_tasks s \<and> fs_stop s' = fs_stop s \<and> fs_in s' = fs_in s \<and> fs_lost s' = fs_lost s"
  proof (cases p)
    case FlStart
    then show ?thesis using assms by (auto simp: proc_step_def take_buffer_def db_records_jobs)
  next
    case (FlJobs js)
    show ?thesis
    proof (cases js)
      case Nil
      then show ?thesis using assms FlJobs by (simp add: proc_step_def)
    next
      case (Cons j js')
      then have s': "p' = FlJobs js'" "s' = job_step oc out now j s" using assms FlJobs by (auto simp: proc_step_def)
      show ?thesis
        unfolding s' FlJobs Cons proc_jobs.simps db_records_Cons[of j js'] job_step_frame
        using job_step_mset[of oc out now j s] by (simp add: ac_simps)
    qed
  qed
  then show "mset (bi_buffer (fs_int s')) + mset (db_records (proc_jobs p')) + mset (fs_durable s') + mset (fs_failed s')
      = mset (bi_buffer (fs_int s)) + mset (db_records (proc_jobs p)) + mset (fs_durable s) + mset (fs_failed s)"
    "fs_loop s' = fs_loop s" "fs_tasks s' = fs_tasks s" "fs_stop s' = fs_stop s" "fs_in s' = fs_in s" "fs_lost s' = fs_lost s"
    by auto
qed

lemma db_records_tasks_update:
  assumes "i < length ps"
  shows "mset (db_records (concat (map proc_jobs (ps[i := p])))) + mset (db_records (proc_jobs (ps ! i)))
    = mset (db_records (concat (map proc_jobs ps))) + mset (db_records (proc_jobs p))"
  using assms
proof (induction ps arbitrary: i)
  case (Cons q ps)
  show ?case
  proof (cases i)
    case (Suc k)
    then show ?thesis using Cons.IH[of k] Cons.prems by (simp add: ac_simps)
  qed (simp add: ac_simps)
qed simp

lemma flush_step_accounted: "all_accounted s \<Longrightarrow> all_accounted (flush_step e s)"
proof (induction e s rule: flush_step.induct)
  case (1 u s)
  then show ?case by (auto simp: all_accounted_def waiting_def Let_def ac_simps)
next
  case (2 s)
  then show ?case by (auto simp: all_accounted_def waiting_def take_buffer_def db_records_jobs ac_simps)
next
  case (3 oc out now s)
  show ?case
  proof (cases "fs_loop s")
    case (Cons j js)
    have l: "db_records (fs_loop s) = db_records [j] @ db_records js" unfolding Cons by (rule db_records_Cons)
    show ?thesis
      using 3 job_step_mset[of oc out now j s]
      by (simp add: all_accounted_def waiting_def Cons job_step_frame l[unfolded Cons] ac_simps)
  qed (use 3 in simp)
next
  case (4 i oc out now s)
  show ?case
  proof (cases "i < length (fs_tasks s)")
    case True
    obtain p s' where p: "proc_step oc out now (fs_tasks s ! i) s = (p, s')" by fastforce
    note m = proc_step_mset[OF p]
    have "mset (waiting (s'\<lparr>fs_tasks := (fs_tasks s)[i := p]\<rparr>)) + mset (fs_durable s') + mset (fs_failed s')
        = mset (waiting s) + mset (fs_durable s) + mset (fs_failed s)"
    proof (rule multiset_eqI)
      fix x
      show "count (mset (waiting (s'\<lparr>fs_tasks := (fs_tasks s)[i := p]\<rparr>)) + mset (fs_durable s') + mset (fs_failed s')) x
          = count (mset (waiting s) + mset (fs_durable s) + mset (fs_failed s)) x"
        using arg_cong[OF m(1), of "\<lambda>M. count M x"] arg_cong[OF db_records_tasks_update[OF True, of p], of "\<lambda>M. count M x"]
        by (simp add: waiting_def m(2-4))
    qed
    then show ?thesis using 4 True p m(5,6) by (simp add: all_accounted_def)
  qed (use 4 in simp)
next
  case (5 k s)
  then show ?case by (simp add: all_accounted_def waiting_def stop_jobs_def ac_simps)
next
  case (6 s)
  then show ?case by (simp add: all_accounted_def waiting_def stop_jobs_def)
next
  case (7 oc out now s)
  show ?case
  proof (cases "fs_stop s")
    case (Finishing q)
    obtain p s' where p: "proc_step oc out now q s = (p, s')" by fastforce
    note m = proc_step_mset[OF p]
    show ?thesis
      using 7 m(1) by (simp add: all_accounted_def waiting_def Finishing p m(2-6) stop_jobs_def ac_simps)
  qed (use 7 in simp_all)
qed

lemma flush_run_accounted: "all_accounted s \<Longrightarrow> all_accounted (flush_run es s)"
  by (induction es arbitrary: s) (simp_all add: flush_step_accounted)

lemma flush_init_accounted: "all_accounted (flush_init c r n)"
  by (simp add: all_accounted_def waiting_def flush_init_def new_interceptor_def stop_jobs_def)

lemma run_accounted: "all_accounted (flush_run es (flush_init c r n))"
  by (rule flush_run_accounted[OF flush_init_accounted])

section \<open>What the counters count\<close>

definition counted :: "flush_system \<Rightarrow> bool" where
  "counted s \<longleftrightarrow> bi_events (fs_int s) = int (length (fs_durable s)) \<and>
     bi_tokens (fs_int s) = sum_list (map ud_total (fs_durable s))"

lemma run_stage_counters: "run_stage oc out now stg u st = (ok, st') \<Longrightarrow>
    bi_events st' = bi_events st \<and> bi_tokens st' = bi_tokens st \<and> bi_redis st' = bi_redis st"
  by (auto simp: run_stage_def push_to_dead_letter_def Let_def split: prod.splits if_splits dlq_outcome.splits)

lemma job_step_counted: "counted s \<Longrightarrow> counted (job_step oc out now j s)"
  by (auto simp: counted_def job_step_def run_job_def Let_def dest!: run_stage_counters split: prod.splits if_splits)

lemma proc_step_counted: "counted s \<Longrightarrow> proc_step oc out now p s = (p', s') \<Longrightarrow> counted s'"
  by (auto simp: proc_step_def take_buffer_def dest: job_step_counted split: flush_proc.splits list.splits)
    (auto simp: counted_def)

lemma flush_step_counted: "counted s \<Longrightarrow> counted (flush_step e s)"
proof (induction e s rule: flush_step.induct)
  case (3 oc out now s)
  then show ?case using job_step_counted[of s] by (auto simp: counted_def split: list.splits)
next
  case (4 i oc out now s)
  then show ?case using proc_step_counted[of s] by (fastforce simp: counted_def split: prod.splits)
next
  case (7 oc out now s)
  then show ?case using proc_step_counted[of s] by (fastforce simp: counted_def split: prod.splits stop_state.splits)
qed (auto simp: counted_def take_buffer_def Let_def)

lemma run_counted: "counted (flush_run es (flush_init c r n))"
proof (induction es rule: rev_induct)
  case Nil
  then show ?case by (simp add: counted_def flush_init_def new_interceptor_def)
qed (simp add: flush_step_counted)

text \<open>
  What an event does to the database, told from the attempts: the stage of the record it runs, if any, whether
  one of the four attempts succeeds, and how many of those made take effect, the last being the first to succeed.\<close>

fun head_job :: "flush_proc \<Rightarrow> (stage \<times> usage_data) option" where
  "head_job (FlJobs (j # js)) = Some j"
| "head_job _ = None"

fun event_job :: "flush_event \<Rightarrow> flush_system \<Rightarrow> (stage \<times> usage_data) option" where
  "event_job (FeLoop oc out now) s = head_job (FlJobs (fs_loop s))"
| "event_job (FeTask i oc out now) s = (if i < length (fs_tasks s) then head_job (fs_tasks s ! i) else None)"
| "event_job (FeFinish oc out now) s = (case fs_stop s of Finishing p \<Rightarrow> head_job p | _ \<Rightarrow> None)"
| "event_job _ s = None"

fun event_attempts :: "flush_event \<Rightarrow> nat \<Rightarrow> attempt" where
  "event_attempts (FeLoop oc out now) = oc"
| "event_attempts (FeTask i oc out now) = oc"
| "event_attempts (FeFinish oc out now) = oc"
| "event_attempts _ = (\<lambda>k. \<lparr>at_effect = False, at_ok = False\<rparr>)"

definition some_succeeds :: "(nat \<Rightarrow> attempt) \<Rightarrow> bool" where
  "some_succeeds oc \<longleftrightarrow> list_ex (\<lambda>k. at_ok (oc k)) [0, 1, 2, 3]"

definition effects_made :: "(nat \<Rightarrow> attempt) \<Rightarrow> nat" where
  "effects_made oc = length (filter (\<lambda>k. at_effect (oc k) \<and> list_all (\<lambda>j. \<not> at_ok (oc j)) [0..<k]) [0, 1, 2, 3])"

definition accepted_by :: "flush_event \<Rightarrow> flush_system \<Rightarrow> usage_data list" where
  "accepted_by e s = (case event_job e s of
     Some (StDatabase, u) \<Rightarrow> if some_succeeds (event_attempts e) then [u] else [] | _ \<Rightarrow> [])"

definition refused_by :: "flush_event \<Rightarrow> flush_system \<Rightarrow> usage_data list" where
  "refused_by e s = (case event_job e s of
     Some (StDatabase, u) \<Rightarrow> if some_succeeds (event_attempts e) then [] else [u] | _ \<Rightarrow> [])"

lemma run_attempts_spec: "run_attempts oc 0 flush_retry_backoffs = (some_succeeds oc, effects_made oc)"
  by (simp add: flush_retry_backoffs_def some_succeeds_def effects_made_def attempt_effect_def upt_rec numeral_2_eq_2 numeral_3_eq_3)

lemma push_to_dead_letter_sent: "bi_sent (push_to_dead_letter out now stg u st) = bi_sent st"
  by (simp add: push_to_dead_letter_def Let_def split: dlq_outcome.split)

lemma job_step_outcome:
  "fs_durable (job_step oc out now (stg, u) s) = fs_durable s @ (if stg = StDatabase \<and> some_succeeds oc then [u] else [])"
  "fs_failed (job_step oc out now (stg, u) s) = fs_failed s @ (if stg = StDatabase \<and> \<not> some_succeeds oc then [u] else [])"
  "bi_sent (fs_int (job_step oc out now (stg, u) s)) = bi_sent (fs_int s) @ replicate (effects_made oc) (stg, u)"
  by (simp_all add: job_step_def run_job_def run_stage_def run_attempts_spec push_to_dead_letter_sent Let_def)

lemma accepted_refused_Some:
  "event_job e s = Some (stg, u) \<Longrightarrow> accepted_by e s = (if stg = StDatabase \<and> some_succeeds (event_attempts e) then [u] else [])"
  "event_job e s = Some (stg, u) \<Longrightarrow> refused_by e s = (if stg = StDatabase \<and> \<not> some_succeeds (event_attempts e) then [u] else [])"
  by (cases stg; simp add: accepted_by_def refused_by_def)+

lemma proc_step_outcome:
  assumes "proc_step oc out now p s = (p', s')"
  shows "case head_job p of
      None \<Rightarrow> fs_durable s' = fs_durable s \<and> fs_failed s' = fs_failed s
    | Some j \<Rightarrow> s' = job_step oc out now j s"
  using assms by (auto simp: proc_step_def take_buffer_def split: flush_proc.splits list.splits)

lemma flush_step_outcome:
  "fs_durable (flush_step e s) = fs_durable s @ accepted_by e s \<and> fs_failed (flush_step e s) = fs_failed s @ refused_by e s \<and>
   (\<forall>j. event_job e s = Some j \<longrightarrow>
      bi_sent (fs_int (flush_step e s)) = bi_sent (fs_int s) @ replicate (effects_made (event_attempts e)) j)"
proof (cases "event_job e s")
  case None
  then have n: "accepted_by e s = []" "refused_by e s = []" by (simp_all add: accepted_by_def refused_by_def)
  have "fs_durable (flush_step e s) = fs_durable s \<and> fs_failed (flush_step e s) = fs_failed s"
    using None
  proof (induction e s rule: flush_step.induct)
    case (4 i oc out now s)
    then show ?case using proc_step_outcome[of oc out now "fs_tasks s ! i" s]
      by (auto split: prod.splits if_splits)
  next
    case (7 oc out now s)
    then show ?case using proc_step_outcome[of oc out now _ s]
      by (auto split: prod.splits stop_state.splits) fastforce+
  qed (auto simp: take_buffer_def Let_def split: list.splits)
  then show ?thesis using n None by simp
next
  case (Some j)
  obtain stg u where j: "j = (stg, u)" by (cases j)
  have "fs_durable (flush_step e s) = fs_durable (job_step (event_attempts e) out now j s) \<and>
      fs_failed (flush_step e s) = fs_failed (job_step (event_attempts e) out now j s) \<and>
      bi_sent (fs_int (flush_step e s)) = bi_sent (fs_int (job_step (event_attempts e) out now j s))" for out now
  proof -
    have irr: "fs_durable (job_step oc out now j s) = fs_durable (job_step oc out' now' j s)"
      "fs_failed (job_step oc out now j s) = fs_failed (job_step oc out' now' j s)"
      "bi_sent (fs_int (job_step oc out now j s)) = bi_sent (fs_int (job_step oc out' now' j s))" for oc out out' now now'
      by (simp_all add: j job_step_outcome)
    show ?thesis
    proof (cases e)
      case (FeLoop oc out' now')
      then show ?thesis using Some irr[of oc out' now' out now] by (cases "fs_loop s") auto
    next
      case (FeTask i oc out' now')
      then show ?thesis using Some irr[of oc out' now' out now] proc_step_outcome[of oc out' now' "fs_tasks s ! i" s]
        by (auto split: prod.splits if_splits)
    next
      case (FeFinish oc out' now')
      then show ?thesis using Some irr[of oc out' now' out now] proc_step_outcome[of oc out' now' _ s]
        by (auto split: prod.splits stop_state.splits) fastforce+
    qed (use Some in simp_all)
  qed
  then show ?thesis using Some unfolding j
    by (simp add: job_step_outcome accepted_refused_Some)
qed

text \<open>The records the database took, and those it refused to the last attempt, along a run.\<close>

fun accepted_in :: "flush_event list \<Rightarrow> flush_system \<Rightarrow> usage_data list" where
  "accepted_in [] s = []"
| "accepted_in (e # es) s = accepted_by e s @ accepted_in es (flush_step e s)"

fun refused_in :: "flush_event list \<Rightarrow> flush_system \<Rightarrow> usage_data list" where
  "refused_in [] s = []"
| "refused_in (e # es) s = refused_by e s @ refused_in es (flush_step e s)"

lemma flush_run_outcome:
  "fs_durable (flush_run es s) = fs_durable s @ accepted_in es s \<and> fs_failed (flush_run es s) = fs_failed s @ refused_in es s"
  by (induction es arbitrary: s) (simp_all add: flush_step_outcome)

text \<open>
  C28: Every usage record is accounted for. Under every interleaving of streams that end, periodic and spawned
  flushes, their stages with whatever outcomes, and the shutdown, each record that was handed over is exactly
  once waiting in the buffer or in the hands of a flush, or accepted, which is when one of the four attempts of
  its database stage succeeded, or refused, which is when all four failed, or was in the hands of the flush that
  the shutdown cancelled. The totals the interceptor reports are those of the accepted records; and a stage
  sends its record as often as its attempts up to the first success take effect.\<close>

theorem billing_records_accounted:
  assumes "s0 = flush_init callback redis n" and "s = flush_run es s0"
  shows "mset (fs_in s) = mset (waiting s) + mset (accepted_in es s0) + mset (refused_in es s0) + mset (fs_lost s) \<and>
    bi_events (fs_int s) = int (length (accepted_in es s0)) \<and>
    bi_tokens (fs_int s) = sum_list (map ud_total (accepted_in es s0)) \<and>
    (\<forall>e j. event_job e s = Some j \<longrightarrow>
       bi_sent (fs_int (flush_step e s)) = bi_sent (fs_int s) @ replicate (effects_made (event_attempts e)) j)"
proof -
  have "fs_durable s = accepted_in es s0" "fs_failed s = refused_in es s0"
    using flush_run_outcome[of es s0] by (simp_all add: assms flush_init_def)
  then show ?thesis
    using run_accounted[of es callback redis n] run_counted[of es callback redis n] flush_step_outcome
    by (simp add: assms all_accounted_def counted_def)
qed

section \<open>Dead letters\<close>

fun pushes_letters :: "flush_event \<Rightarrow> bool" where
  "pushes_letters (FeLoop oc out now) = (out \<noteq> DlqPushFails)"
| "pushes_letters (FeTask i oc out now) = (out \<noteq> DlqPushFails)"
| "pushes_letters (FeFinish oc out now) = (out \<noteq> DlqPushFails)"
| "pushes_letters _ = True"

definition lettered :: "nat \<Rightarrow> flush_system \<Rightarrow> bool" where
  "lettered k s \<longleftrightarrow> bi_redis (fs_int s) \<and> length (bi_dlq (fs_int s)) \<le> k \<and>
     (\<forall>u \<in> set (fs_failed s). \<exists>l \<in> set (bi_dlq (fs_int s)). dl_stage l = StDatabase \<and> dl_usage l = u)"

lemma run_stage_letters:
  assumes "run_stage oc out now stg u st = (ok, st')" "bi_redis st" "out \<noteq> DlqPushFails" "length (bi_dlq st) < billing_dlq_cap"
  shows "bi_dlq st' = (if ok then bi_dlq st else \<lparr>dl_stage = stg, dl_usage = u, dl_at = now\<rparr> # bi_dlq st)"
  using assms by (auto simp: run_stage_def push_to_dead_letter_def Let_def split: prod.splits if_splits dlq_outcome.splits)

lemma job_step_lettered:
  assumes "lettered k s" "k < billing_dlq_cap" "out \<noteq> DlqPushFails"
  shows "lettered (Suc k) (job_step oc out now j s)"
proof -
  obtain stg u where j: "j = (stg, u)" by (cases j)
  obtain ok st where r: "run_stage oc out now stg u (fs_int s) = (ok, st)" by fastforce
  have l: "bi_dlq st = (if ok then bi_dlq (fs_int s) else \<lparr>dl_stage = stg, dl_usage = u, dl_at = now\<rparr> # bi_dlq (fs_int s))"
    using run_stage_letters[OF r _ assms(3)] assms(1,2) by (simp add: lettered_def)
  have "bi_redis st" using run_stage_counters[OF r] assms(1) by (simp add: lettered_def)
  then show ?thesis
    using assms(1) l r by (cases ok; cases "stg = StDatabase") (auto simp: lettered_def job_step_def run_job_def j Let_def)
qed

lemma lettered_mono: "lettered k s \<Longrightarrow> lettered (Suc k) s"
  by (auto simp: lettered_def)

lemma proc_step_lettered:
  assumes "lettered k s" "k < billing_dlq_cap" "out \<noteq> DlqPushFails" "proc_step oc out now p s = (p', s')"
  shows "lettered (Suc k) s'"
proof (cases p)
  case FlStart
  then show ?thesis using assms(1,4) by (auto simp: proc_step_def take_buffer_def lettered_def)
next
  case (FlJobs js)
  then show ?thesis using assms job_step_lettered[OF assms(1-3)] lettered_mono
    by (cases js) (auto simp: proc_step_def)
qed

lemma flush_step_lettered:
  assumes "lettered k s" "k < billing_dlq_cap" "pushes_letters e"
  shows "lettered (Suc k) (flush_step e s)"
  using assms
proof (induction e s rule: flush_step.induct)
  case (3 oc out now s)
  then have "lettered (Suc k) (job_step oc out now j s)" for j using job_step_lettered[of k s] by simp
  then show ?case using lettered_mono[OF 3(1)] by (auto simp: lettered_def split: list.splits)
next
  case (4 i oc out now s)
  show ?case
  proof (cases "i < length (fs_tasks s)")
    case True
    obtain p s' where p: "proc_step oc out now (fs_tasks s ! i) s = (p, s')" by fastforce
    then have "lettered (Suc k) s'" using proc_step_lettered[OF 4(1,2) _ p] 4(3) by simp
    then show ?thesis using True p by (simp add: lettered_def)
  qed (use lettered_mono[OF 4(1)] in simp)
next
  case (7 oc out now s)
  show ?case
  proof (cases "fs_stop s")
    case (Finishing q)
    obtain p s' where p: "proc_step oc out now q s = (p, s')" by fastforce
    then have "lettered (Suc k) s'" using proc_step_lettered[OF 7(1,2) _ p] 7(3) by simp
    then show ?thesis using Finishing p by (simp add: lettered_def)
  qed (use lettered_mono[OF 7(1)] in simp_all)
qed (auto simp: lettered_def take_buffer_def Let_def)

text \<open>
  What the database refuses is kept. With Redis configured and taking every letter, and for as many steps
  as the queue has places, each record that failed after all its retries has a dead letter for the database.\<close>

theorem failed_records_are_kept:
  assumes "list_all pushes_letters es" "length es \<le> billing_dlq_cap"
    "u \<in> set (fs_failed (flush_run es (flush_init callback True n)))"
  shows "\<exists>l \<in> set (bi_dlq (fs_int (flush_run es (flush_init callback True n)))). dl_stage l = StDatabase \<and> dl_usage l = u"
proof -
  have "lettered (length es) (flush_run es (flush_init callback True n))"
    using assms(1,2)
  proof (induction es rule: rev_induct)
    case Nil
    then show ?case by (simp add: lettered_def flush_init_def new_interceptor_def)
  next
    case (snoc e es)
    then show ?case using flush_step_lettered[of "length es" _ e] by simp
  qed
  then show ?thesis using assms(3) by (simp add: lettered_def)
qed

section \<open>The shutdown and the replay\<close>

lemma lost_grows: "set (fs_lost s) \<subseteq> set (fs_lost (flush_step e s))"
proof (induction e s rule: flush_step.induct)
  case (4 i oc out now s)
  then show ?case using proc_step_mset(6)[of oc out now "fs_tasks s ! i" s] by (auto split: prod.splits)
next
  case (7 oc out now s)
  then show ?case using proc_step_mset(6)[of oc out now _ s] by (auto split: stop_state.splits prod.splits)
qed (auto simp: job_step_frame take_buffer_def Let_def split: list.splits)

lemma lost_grows_run: "set (fs_lost s) \<subseteq> set (fs_lost (flush_run es s))"
  by (induction es arbitrary: s) (use lost_grows in \<open>auto simp: subset_iff\<close>)

text \<open>
  The shutdown drops what the periodic flush holds. A record the periodic flush took from the buffer and
  had not yet written when the shutdown cancels it is gone: whatever runs afterwards, provided it was handed
  over once, it is nowhere, neither waiting nor written nor among the dead letters of the database.\<close>

theorem shutdown_drops_taken_records:
  assumes "s = flush_run es (flush_init callback redis n)" "fs_stop s = NotStopping" "(StDatabase, u) \<in> set (fs_loop s)"
    "s' = flush_run es' (flush_step (FeStop k) s)" "count (mset (fs_in s')) u = 1"
  shows "u \<notin> set (waiting s') \<and> u \<notin> set (fs_durable s') \<and> u \<notin> set (fs_failed s')"
proof -
  have "u \<in> set (fs_lost (flush_step (FeStop k) s))" using assms(2,3) by (force simp: db_records_def)
  then have "u \<in> set (fs_lost s')" using lost_grows_run assms(4) by blast
  then have l: "1 \<le> count (mset (fs_lost s')) u" by (simp add: Suc_le_eq)
  have "all_accounted s'"
    unfolding assms(4,1) by (intro flush_run_accounted flush_step_accounted flush_init_accounted)
  then have "count (mset (waiting s')) u + count (mset (fs_durable s')) u + count (mset (fs_failed s')) u
      + count (mset (fs_lost s')) u = 1" using assms(5) by (simp add: all_accounted_def)
  with l have "count (mset (waiting s')) u = 0 \<and> count (mset (fs_durable s')) u = 0 \<and> count (mset (fs_failed s')) u = 0"
    by linarith
  then show ?thesis by (simp only: count_eq_zero_iff set_mset_mset simp_thms)
qed

lemma failing_attempts: "(\<And>k. \<not> at_ok (oc k)) \<Longrightarrow> fst (run_attempts oc k ds) = False"
  by (induction ds arbitrary: k) (simp_all add: case_prod_unfold)

text \<open>
  A failed replay doubles the letter. When the oldest dead letter is replayed and every attempt fails,
  the stage pushes a letter for the record and the handler puts the old one back as well, so that the queue
  has grown by a second letter for the same record, though one was attempted and none replayed.\<close>

theorem failed_replay_doubles_letter:
  assumes "bi_redis st" "bi_dlq st = rest @ [l]" "\<And>k. \<not> at_ok (outcome limit k)" "out limit = DlqOk"
    "length (bi_dlq st) \<le> billing_dlq_cap"
  shows "\<exists>st'. replay_dead_letter outcome out now (Suc limit) st = ((1, 0, 1), st') \<and>
    bi_dlq st' = l # \<lparr>dl_stage = replay_stage st l, dl_usage = dl_usage l, dl_at = now\<rparr> # rest"
proof -
  obtain k where k: "run_attempts (outcome limit) 0 flush_retry_backoffs = (False, k)"
    using failing_attempts[of "outcome limit" 0 flush_retry_backoffs] assms(3)
    by (cases "run_attempts (outcome limit) 0 flush_retry_backoffs") auto
  have "length rest < billing_dlq_cap" using assms(2,5) by simp
  then have t: "take billing_dlq_cap (x # rest) = x # rest" for x by simp
  show ?thesis using assms(1,2,4) k t
    by (simp add: replay_one_def run_stage_def push_to_dead_letter_def replay_stage_def Let_def)
qed

section \<open>Concrete runs\<close>

definition sample_record :: usage_data where
  "sample_record = fallback_usage 5 sample_processor"

definition good :: "nat \<Rightarrow> attempt" where
  "good k = \<lparr>at_effect = True, at_ok = True\<rparr>"

definition bad :: "nat \<Rightarrow> attempt" where
  "bad k = \<lparr>at_effect = False, at_ok = False\<rparr>"

definition bad_then_good :: "nat \<Rightarrow> attempt" where
  "bad_then_good k = \<lparr>at_effect = 2 \<le> k, at_ok = 2 \<le> k\<rparr>"

lemma sample_attempts: "run_attempts good 0 flush_retry_backoffs = (True, 1)" "run_attempts bad 0 flush_retry_backoffs = (False, 0)"
  by code_simp+

lemmas flush_simps = flush_init_def new_interceptor_def take_buffer_def jobs_of_def job_step_def run_job_def run_stage_def
  sample_attempts push_to_dead_letter_def Let_def

lemma billing_records_accounted_witness:
  "bi_events (fs_int (flush_run [FeAppend sample_record, FeTick, FeLoop bad_then_good DlqOk 1] (flush_init False False 9))) = 1"
proof -
  have "accepted_in [FeAppend sample_record, FeTick, FeLoop bad_then_good DlqOk 1] (flush_init False False 9) = [sample_record]"
    by (simp add: flush_init_def new_interceptor_def take_buffer_def jobs_of_def accepted_by_def some_succeeds_def
        bad_then_good_def)
  then show ?thesis
    using billing_records_accounted[of _ False False 9 _ "[FeAppend sample_record, FeTick, FeLoop bad_then_good DlqOk 1]",
        OF refl refl] by simp
qed

definition failing_run :: "flush_event list" where
  "failing_run = [FeAppend sample_record, FeTick, FeLoop good DlqOk 1, FeLoop bad DlqOk 2]"

lemma failed_records_are_kept_witness:
  "\<exists>l \<in> set (bi_dlq (fs_int (flush_run failing_run (flush_init False True 9)))).
     dl_stage l = StDatabase \<and> dl_usage l = sample_record"
proof (rule failed_records_are_kept)
  show "list_all pushes_letters failing_run" "length failing_run \<le> billing_dlq_cap"
    by (simp_all add: failing_run_def billing_dlq_cap_def)
  show "sample_record \<in> set (fs_failed (flush_run failing_run (flush_init False True 9)))"
    by (simp add: failing_run_def flush_simps)
qed

lemma shutdown_drops_taken_records_witness:
  "sample_record \<notin> set (fs_durable (flush_run [FeDrained, FeFinish good DlqOk 3, FeFinish good DlqOk 4]
     (flush_step (FeStop 1) (flush_run [FeAppend sample_record, FeTick] (flush_init False False 9)))))"
proof -
  have r: "fs_stop (flush_run [FeAppend sample_record, FeTick] (flush_init False False 9)) = NotStopping"
    "(StDatabase, sample_record) \<in> set (fs_loop (flush_run [FeAppend sample_record, FeTick] (flush_init False False 9)))"
    by (simp_all add: flush_simps)
  have "count (mset (fs_in (flush_run [FeDrained, FeFinish good DlqOk 3, FeFinish good DlqOk 4]
     (flush_step (FeStop 1) (flush_run [FeAppend sample_record, FeTick] (flush_init False False 9)))))) sample_record = 1"
    by (simp add: flush_simps proc_step_def)
  from shutdown_drops_taken_records[OF refl r refl this] show ?thesis by simp
qed

definition letter_state :: interceptor where
  "letter_state = (new_interceptor False True 9)
     \<lparr>bi_dlq := [\<lparr>dl_stage = StCallback, dl_usage = sample_record, dl_at = 1\<rparr>]\<rparr>"

lemma failed_replay_doubles_letter_witness:
  "length (bi_dlq (snd (replay_dead_letter (\<lambda>_. bad) (\<lambda>_. DlqOk) 7 (Suc 99) letter_state))) = 2"
  using failed_replay_doubles_letter[of letter_state "[]" "\<lparr>dl_stage = StCallback, dl_usage = sample_record, dl_at = 1\<rparr>"
      "\<lambda>_. bad" 99 "\<lambda>_. DlqOk" 7]
  by (auto simp: letter_state_def new_interceptor_def bad_def billing_dlq_cap_def)

end
