(* ===== verification/Pricing.thy ===== *)
theory Pricing
  imports Py_Value
begin

text \<open>
  What a model costs: the catalogue of list prices
  (\<open>src/packages/ai-gateway-core/src/ai_gateway_core/billing/pricing_catalog.py\<close>), the service that quotes a
  price (\<open>src/src/services/billing/model_pricing.py\<close>) and the look-up of the usage recorder
  (\<open>metrics/usage_recorder.py\<close>). A \<open>Decimal\<close> is a rational; the answers of the database are arguments.\<close>

record model_price =
  pr_input :: rat
  pr_output :: rat
  pr_provider :: string

abbreviation price :: "rat \<Rightarrow> rat \<Rightarrow> string \<Rightarrow> model_price" where
  "price i ot p \<equiv> \<lparr>pr_input = i, pr_output = ot, pr_provider = p\<rparr>"

type_synonym price_table = "(string, model_price) py_dict"

definition default_token_pricing :: price_table where
  "default_token_pricing = [
    (''gpt-4o'', price (25/10000) (1/100) ''openai''),
    (''gpt-4o-mini'', price (15/100000) (6/10000) ''openai''),
    (''o1'', price (15/1000) (6/100) ''openai''),
    (''o1-mini'', price (11/10000) (44/10000) ''openai''),
    (''gpt-4-turbo'', price (1/100) (3/100) ''openai''),
    (''gpt-4'', price (3/100) (6/100) ''openai''),
    (''gpt-3.5-turbo'', price (5/10000) (15/10000) ''openai''),
    (''claude-sonnet-4-20250514'', price (3/1000) (15/1000) ''anthropic''),
    (''claude-3-5-sonnet-20241022'', price (3/1000) (15/1000) ''anthropic''),
    (''claude-3-5-haiku-20241022'', price (8/10000) (4/1000) ''anthropic''),
    (''claude-3-opus'', price (15/1000) (75/1000) ''anthropic''),
    (''claude-3-sonnet'', price (3/1000) (15/1000) ''anthropic''),
    (''claude-3-5-sonnet'', price (3/1000) (15/1000) ''anthropic''),
    (''claude-3-haiku'', price (25/100000) (125/100000) ''anthropic''),
    (''deepseek-chat'', price (28/100000) (42/100000) ''deepseek''),
    (''deepseek-reasoner'', price (28/100000) (42/100000) ''deepseek''),
    (''deepseek-coder'', price (28/100000) (42/100000) ''deepseek''),
    (''qwen-turbo'', price (3/10000) (6/10000) ''dashscope''),
    (''qwen-plus'', price (4/10000) (12/10000) ''dashscope''),
    (''qwen-max'', price (12/10000) (6/1000) ''dashscope''),
    (''qwen-vl-max'', price (23/100000) (574/1000000) ''dashscope''),
    (''qwen-vl-plus'', price (8/1000) (8/1000) ''dashscope''),
    (''qwen3.7-plus'', price (5/10000) (3/1000) ''dashscope''),
    (''qwen3.6-plus'', price 0 0 ''dashscope''),
    (''gemini-3-pro-preview'', price (2/1000) (12/1000) ''google''),
    (''gemini-3-flash-preview'', price (5/10000) (3/1000) ''google''),
    (''gemini-2.5-pro'', price (125/100000) (1/100) ''google''),
    (''gemini-2.5-flash'', price (3/10000) (25/10000) ''google''),
    (''gemini-2.5-flash-lite'', price (1/10000) (4/10000) ''google''),
    (''gemini-2.0-flash'', price (15/100000) (6/10000) ''google''),
    (''default'', price (1/1000) (2/1000) ''unknown'')]"

definition model_id_aliases :: "(string, string) py_dict" where
  "model_id_aliases = [
    (''gemini-3.0-pro'', ''gemini-3-pro-preview''),
    (''gemini-3.0-flash'', ''gemini-3-flash-preview''),
    (''claude-3-opus-20240229'', ''claude-3-opus''),
    (''claude-3-sonnet-20240229'', ''claude-3-sonnet''),
    (''claude-3-haiku-20240307'', ''claude-3-haiku'')]"

section \<open>Names\<close>

definition id_prefixes :: "string list" where
  "id_prefixes = [''models/'', ''model/'', ''model:'', ''openai/'', ''anthropic/'', ''google/'', ''vertex/'',
     ''deepseek/'', ''dashscope/'', ''aliyun/'']"

definition matched_prefix :: "string \<Rightarrow> string option" where
  "matched_prefix s = List.find (\<lambda>p. starts_with (py_lower s) p) id_prefixes"

lemma strip_length: "length (py_strip s) \<le> length s"
  unfolding py_strip_def using length_dropWhile_le[of is_space "rev (dropWhile is_space s)"] length_dropWhile_le[of is_space s]
  by simp

lemma matched_prefix_Some: "matched_prefix s = Some p \<Longrightarrow> p \<in> set id_prefixes \<and> p \<noteq> [] \<and> starts_with (py_lower s) p"
  by (auto simp: matched_prefix_def find_Some_iff id_prefixes_def nth_Cons' split: if_splits)

function strip_prefixes :: "string \<Rightarrow> string" where
  "strip_prefixes s =
     (if s = [] then []
      else case matched_prefix s of None \<Rightarrow> s | Some p \<Rightarrow> strip_prefixes (py_strip (drop (length p) s)))"
  by pat_completeness auto
termination
proof (relation "measure length", simp)
  fix s p
  assume a: "s \<noteq> []" "matched_prefix s = Some p"
  have "length (py_strip (drop (length p) s)) \<le> length s - length p" using strip_length[of "drop (length p) s"] by simp
  moreover have "0 < length p" using matched_prefix_Some[OF a(2)] by simp
  moreover have "0 < length s" using a(1) by simp
  ultimately show "(py_strip (drop (length p) s), s) \<in> measure length" unfolding in_measure by linarith
qed

declare strip_prefixes.simps [simp del]

definition normalize_model_id :: "string \<Rightarrow> string" where
  "normalize_model_id model =
     (if py_strip model = [] then [] else py_strip (strip_prefixes (py_strip model)))"

definition canonical_id :: "string \<Rightarrow> string" where
  "canonical_id m =
     or_str (or_str (opt_str (dict_get model_id_aliases m)) (opt_str (dict_get model_id_aliases (py_lower m)))) m"

section \<open>The catalogue\<close>

text \<open>\<open>d["default"]\<close>.\<close>

definition default_price :: model_price where
  "default_price = the (dict_get default_token_pricing ''default'')"

definition exact_price :: "string \<Rightarrow> price_table \<Rightarrow> model_price option" where
  "exact_price lower table = map_option snd (List.find (\<lambda>(k, p). py_lower k = lower) table)"

fun longest_match :: "string \<Rightarrow> (nat \<times> model_price) option \<Rightarrow> price_table \<Rightarrow> (nat \<times> model_price) option" where
  "longest_match lower best [] = best"
| "longest_match lower best ((k, p) # table) =
     longest_match lower
       (if k \<noteq> ''default'' \<and> starts_with lower (py_lower k)
        then (case best of None \<Rightarrow> Some (length k, p) | Some (n, q) \<Rightarrow> if n < length k then Some (length k, p) else best)
        else best) table"

definition resolve_pricing_with_status :: "string \<Rightarrow> model_price \<times> string" where
  "resolve_pricing_with_status model =
     (let m = normalize_model_id model in
      if m = [] then (default_price, ''unknown'')
      else let lower = py_lower (canonical_id m) in
        case exact_price lower default_token_pricing of
          Some p \<Rightarrow> (p, ''catalog'')
        | None \<Rightarrow>
            (case longest_match lower None default_token_pricing of
               Some (n, p) \<Rightarrow> (p, ''provider_model'')
             | None \<Rightarrow> (default_price, ''unknown'')))"

definition resolve_pricing :: "string \<Rightarrow> model_price" where
  "resolve_pricing model = fst (resolve_pricing_with_status model)"

text \<open>\<open>round\<close> of a \<open>Decimal\<close>: to the nearest integer, ties to the even one.\<close>

definition py_round :: "rat \<Rightarrow> int" where
  "py_round x =
     (let f = \<lfloor>x\<rfloor>; d = x - of_int f
      in if d < 1 / 2 then f else if 1 / 2 < d then f + 1 else if even f then f else f + 1)"

definition microcents_per_usd :: rat where
  "microcents_per_usd = 1000000"

definition usd_to_microcents :: "rat \<Rightarrow> int" where
  "usd_to_microcents x = py_round (x * microcents_per_usd)"

definition microcents_to_usd :: "rat \<Rightarrow> rat" where
  "microcents_to_usd x = x / microcents_per_usd"

definition token_cost_usd :: "model_price \<Rightarrow> int \<Rightarrow> int \<Rightarrow> rat" where
  "token_cost_usd p input output = of_int input / 1000 * pr_input p + of_int output / 1000 * pr_output p"

definition calculate_token_cost_cents :: "string \<Rightarrow> int \<Rightarrow> int \<Rightarrow> int \<times> string" where
  "calculate_token_cost_cents model input output =
     (case resolve_pricing_with_status model of (p, status) \<Rightarrow>
        (max 0 (py_round (token_cost_usd p (max 0 input) (max 0 output) * 100)), status))"

section \<open>The pricing service\<close>

record quoted_price =
  qp_model :: string
  qp_price :: model_price
  qp_status :: string

record cost =
  co_input_usd :: rat
  co_output_usd :: rat
  co_total_usd :: rat
  co_input_cents :: int
  co_output_cents :: int
  co_total_cents :: int
  co_status :: string

definition calculate_cost :: "quoted_price \<Rightarrow> int \<Rightarrow> int \<Rightarrow> cost" where
  "calculate_cost q input output =
     (let ic = of_int input / 1000 * pr_input (qp_price q); oc = of_int output / 1000 * pr_output (qp_price q)
      in \<lparr>co_input_usd = ic, co_output_usd = oc, co_total_usd = ic + oc, co_input_cents = py_trunc (ic * 100),
          co_output_cents = py_trunc (oc * 100), co_total_cents = py_trunc ((ic + oc) * 100), co_status = qp_status q\<rparr>)"

record pricing_service =
  ps_ttl :: rat
  ps_cache :: "(string, quoted_price) py_dict"
  ps_time :: py_time

definition catalog_cache :: "(string, quoted_price) py_dict" where
  "catalog_cache = map (\<lambda>(m, p). (m, \<lparr>qp_model = m, qp_price = p, qp_status = (if m = ''default'' then ''unknown'' else ''catalog'')\<rparr>))
     default_token_pricing"

definition load_default_pricing :: "py_time \<Rightarrow> pricing_service \<Rightarrow> pricing_service" where
  "load_default_pricing now s = s\<lparr>ps_cache := catalog_cache, ps_time := now\<rparr>"

text \<open>
  The rows of \<open>model_pricing\<close>: no database, a failure, or models with their prices (a missing provider is
  the empty string).\<close>

datatype price_rows = NoDatabase | QueryFails | Rows "(string \<times> model_price) list"

definition row_entry :: "string \<times> model_price \<Rightarrow> string \<times> quoted_price" where
  "row_entry r = (case r of (m, p) \<Rightarrow>
     (m, \<lparr>qp_model = m, qp_price = p\<lparr>pr_provider := or_str (pr_provider p) ''unknown''\<rparr>, qp_status = ''catalog''\<rparr>))"

definition refresh_cache :: "py_time \<Rightarrow> price_rows \<Rightarrow> pricing_service \<Rightarrow> pricing_service" where
  "refresh_cache now rows s =
     (case rows of
        Rows rs \<Rightarrow> s\<lparr>ps_cache := fold (\<lambda>r. case row_entry r of (m, q) \<Rightarrow> dict_set m q) rs [], ps_time := now\<rparr>
      | _ \<Rightarrow> load_default_pricing now s)"

definition ensure_cache :: "py_time \<Rightarrow> price_rows \<Rightarrow> pricing_service \<Rightarrow> pricing_service" where
  "ensure_cache now rows s = (if now - ps_time s < ps_ttl s \<and> ps_cache s \<noteq> [] then s else refresh_cache now rows s)"

definition invalidate_cache :: "pricing_service \<Rightarrow> pricing_service" where
  "invalidate_cache s = s\<lparr>ps_time := 0\<rparr>"

definition get_default_price :: "string \<Rightarrow> quoted_price" where
  "get_default_price model =
     (case resolve_pricing_with_status model of (p, status) \<Rightarrow> \<lparr>qp_model = model, qp_price = p, qp_status = status\<rparr>)"

text \<open>The first cached model, in the order of the cache, that the asked one starts with.\<close>

definition cached_price :: "string \<Rightarrow> (string, quoted_price) py_dict \<Rightarrow> quoted_price" where
  "cached_price model cache =
     (case dict_get cache model of
        Some q \<Rightarrow> q
      | None \<Rightarrow>
          (case List.find (\<lambda>(k, q). starts_with model k) cache of
             Some (k, q) \<Rightarrow> q\<lparr>qp_status := ''provider_model''\<rparr>
           | None \<Rightarrow> (case dict_get cache ''default'' of Some q \<Rightarrow> q | None \<Rightarrow> get_default_price model)))"

text \<open>
  \<open>tenant\<close> says whether the look-up is scoped, with the rows of the tenant's models when there is a database.\<close>

definition get_model_pricing ::
  "py_time \<Rightarrow> price_rows \<Rightarrow> (model_price list option) option \<Rightarrow> string \<Rightarrow> pricing_service \<Rightarrow> (py_exn + quoted_price) \<times> pricing_service" where
  "get_model_pricing now rows tenant model s =
     (case tenant of
        Some (Some (p # q # ps)) \<Rightarrow> (Inl (ValueError ''model_provider_required''), s)
      | Some (Some [p]) \<Rightarrow> (Inr \<lparr>qp_model = model, qp_price = p, qp_status = ''tenant_model''\<rparr>, s)
      | Some _ \<Rightarrow> (Inr (get_default_price model), s)
      | None \<Rightarrow> (let s1 = ensure_cache now rows s in (Inr (cached_price model (ps_cache s1)), s1)))"

section \<open>The look-up of the usage recorder\<close>

type_synonym recorder_cache = "(string, model_price \<times> string) py_dict"

definition recorder_catalog :: recorder_cache where
  "recorder_catalog = map (\<lambda>(m, p). (m, (p, if m = ''default'' then ''unknown'' else ''catalog''))) default_token_pricing"

text \<open>\<open>max\<close> keeps the first of the longest.\<close>

fun longest_candidate :: "string \<Rightarrow> (nat \<times> model_price) option \<Rightarrow> recorder_cache \<Rightarrow> (nat \<times> model_price) option" where
  "longest_candidate lower best [] = best"
| "longest_candidate lower best ((k, (p, st)) # cache) =
     longest_candidate lower
       (if starts_with lower (py_lower k)
        then (case best of None \<Rightarrow> Some (length k, p) | Some (n, q) \<Rightarrow> if n < length k then Some (length k, p) else best)
        else best) cache"

definition recorder_pricing :: "string \<Rightarrow> recorder_cache \<Rightarrow> model_price \<times> string" where
  "recorder_pricing model cache =
     (let lower = py_lower model in
      case List.find (\<lambda>(k, e). py_lower k = lower) cache of
        Some (k, e) \<Rightarrow> e
      | None \<Rightarrow>
          (case longest_candidate lower None cache of
             Some (n, p) \<Rightarrow> (p, ''provider_model'')
           | None \<Rightarrow> resolve_pricing_with_status model))"

section \<open>Names in normal form\<close>

lemma strip_prefixes_normal: "py_strip s = s \<Longrightarrow> py_strip (strip_prefixes s) = strip_prefixes s \<and> matched_prefix (strip_prefixes s) = None \<or> strip_prefixes s = []"
proof (induction s rule: strip_prefixes.induct)
  case (1 s)
  show ?case
  proof (cases "s = []")
    case False
    then show ?thesis
      using 1 by (cases "matched_prefix s") (auto simp: strip_prefixes.simps[of s])
  qed (simp add: strip_prefixes.simps)
qed

lemma strip_Nil [simp]: "py_strip [] = []"
  by (simp add: py_strip_def)

lemma no_prefix_of_Nil: "matched_prefix [] = None"
  by (simp add: matched_prefix_def id_prefixes_def starts_with_def py_lower_def find_None_iff)

text \<open>
  The normal form of a model id. Normalising ends whatever the id, in one that has no blanks around it
  and none of the vendor prefixes in front, however often they were repeated; normalising again changes
  nothing.\<close>

theorem model_id_normal_form:
  "matched_prefix (normalize_model_id m) = None \<and> py_strip (normalize_model_id m) = normalize_model_id m \<and>
   normalize_model_id (normalize_model_id m) = normalize_model_id m"
proof -
  have n: "matched_prefix (normalize_model_id m) = None" "py_strip (normalize_model_id m) = normalize_model_id m"
    using strip_prefixes_normal[of "py_strip m"] no_prefix_of_Nil strip_Nil by (auto simp: normalize_model_id_def)
  then have "strip_prefixes (normalize_model_id m) = normalize_model_id m"
    by (simp add: strip_prefixes.simps[of "normalize_model_id m"])
  then show ?thesis using n by (simp add: normalize_model_id_def[of "normalize_model_id m"])
qed

section \<open>Which price\<close>

lemma exact_price_Some: "exact_price lower table = Some p \<Longrightarrow> \<exists>k. (k, p) \<in> set table \<and> py_lower k = lower"
  by (auto simp: exact_price_def find_Some_iff) (metis nth_mem)

lemma exact_price_None: "exact_price lower table = None \<longleftrightarrow> (\<forall>(k, p) \<in> set table. py_lower k \<noteq> lower)"
  by (auto simp: exact_price_def find_None_iff)

text \<open>\<open>k\<close> is a candidate for an id: an entry, other than the default, that the id starts with.\<close>

definition candidate :: "string \<Rightarrow> price_table \<Rightarrow> string \<times> model_price \<Rightarrow> bool" where
  "candidate lower table e \<longleftrightarrow> e \<in> set table \<and> fst e \<noteq> ''default'' \<and> starts_with lower (py_lower (fst e))"

lemma longest_match_spec:
  "case longest_match lower best table of
     None \<Rightarrow> best = None \<and> (\<forall>e. \<not> candidate lower table e)
   | Some (n, p) \<Rightarrow>
       (best = Some (n, p) \<or> (\<exists>k. candidate lower table (k, p) \<and> length k = n)) \<and>
       (\<forall>e. candidate lower table e \<longrightarrow> length (fst e) \<le> n) \<and> (\<forall>m q. best = Some (m, q) \<longrightarrow> m \<le> n)"
proof (induction lower best table rule: longest_match.induct)
  case (1 lower best)
  then show ?case by (cases best) (auto simp: candidate_def)
next
  case (2 lower best k p table)
  define b' where "b' = (if k \<noteq> ''default'' \<and> starts_with lower (py_lower k)
        then (case best of None \<Rightarrow> Some (length k, p) | Some (n, q) \<Rightarrow> if n < length k then Some (length k, p) else best)
        else best)"
  have cand: "candidate lower ((k, p) # table) e \<longleftrightarrow>
      e = (k, p) \<and> k \<noteq> ''default'' \<and> starts_with lower (py_lower k) \<or> candidate lower table e" for e
    by (auto simp: candidate_def)
  have ih: "case longest_match lower b' table of
     None \<Rightarrow> b' = None \<and> (\<forall>e. \<not> candidate lower table e)
   | Some (n, p) \<Rightarrow> (b' = Some (n, p) \<or> (\<exists>k. candidate lower table (k, p) \<and> length k = n)) \<and>
       (\<forall>e. candidate lower table e \<longrightarrow> length (fst e) \<le> n) \<and> (\<forall>m q. b' = Some (m, q) \<longrightarrow> m \<le> n)"
    using 2 unfolding b'_def .
  have l: "longest_match lower best ((k, p) # table) = longest_match lower b' table" by (simp add: b'_def)
  show ?case
  proof (cases "k \<noteq> ''default'' \<and> starts_with lower (py_lower k)")
    case False
    then have "b' = best" unfolding b'_def by (rule if_not_P)
    then show ?thesis using ih l False by (auto simp: cand split: option.splits)
  next
    case True
    then have b: "b' = (case best of None \<Rightarrow> Some (length k, p) | Some (n, q) \<Rightarrow> if n < length k then Some (length k, p) else best)"
      by (simp add: b'_def)
    then obtain n0 p0 where b0: "b' = Some (n0, p0)" "length k \<le> n0" "\<forall>m q. best = Some (m, q) \<longrightarrow> m \<le> n0"
      "best = Some (n0, p0) \<or> n0 = length k \<and> p0 = p"
      by (cases best) (auto split: if_splits)
    then obtain n q where r: "longest_match lower b' table = Some (n, q)" using ih by (auto split: option.splits)
    show ?thesis using ih b0 True unfolding l r by (auto simp: cand dest: le_trans)
  qed
qed

text \<open>
  C36: The catalogue quotes the most specific price. An id is reduced to its normal form and its alias; an
  entry of that very name, in any case, is quoted as the catalogue's; otherwise the entry with the longest
  name the id starts with, as the provider's; and only if there is none, or no name, the default, as unknown.
  So an id never inherits the price of a longer name.\<close>

theorem price_is_the_most_specific:
  assumes "resolve_pricing_with_status model = (p, status)" "lower = py_lower (canonical_id (normalize_model_id model))"
  shows "if normalize_model_id model = [] then p = default_price \<and> status = ''unknown''
    else (status = ''catalog'' \<and> (\<exists>k. (k, p) \<in> set default_token_pricing \<and> py_lower k = lower)) \<or>
      ((\<forall>(k, q) \<in> set default_token_pricing. py_lower k \<noteq> lower) \<and>
       ((status = ''provider_model'' \<and> (\<exists>k. candidate lower default_token_pricing (k, p) \<and>
           (\<forall>e. candidate lower default_token_pricing e \<longrightarrow> length (fst e) \<le> length k))) \<or>
        (status = ''unknown'' \<and> p = default_price \<and> (\<forall>e. \<not> candidate lower default_token_pricing e))))"
proof (cases "normalize_model_id model = []")
  case False
  show ?thesis
  proof (cases "exact_price lower default_token_pricing")
    case None
    then show ?thesis
      using assms False longest_match_spec[where lower = lower and best = None and table = default_token_pricing] exact_price_None[of lower default_token_pricing]
      by (auto simp: resolve_pricing_with_status_def Let_def split: option.splits)
  next
    case (Some q)
    then show ?thesis using assms False exact_price_Some[OF Some]
      by (auto simp: resolve_pricing_with_status_def Let_def)
  qed
qed (use assms in \<open>simp add: resolve_pricing_with_status_def\<close>)

section \<open>How much\<close>

lemma py_round_near: "\<bar>of_int (py_round x) - x\<bar> \<le> 1 / 2"
proof -
  have f: "of_int \<lfloor>x\<rfloor> \<le> x" "x < of_int \<lfloor>x\<rfloor> + 1" by linarith+
  have a: "\<bar>of_int n - x\<bar> \<le> 1 / 2" if "of_int n - x \<le> 1 / 2" "x - of_int n \<le> 1 / 2" for n using that by linarith
  show ?thesis
  proof (cases "x - of_int \<lfloor>x\<rfloor> < 1 / 2")
    case True
    then have "py_round x = \<lfloor>x\<rfloor>" by (simp add: py_round_def)
    then show ?thesis using a[of "\<lfloor>x\<rfloor>"] True f by linarith
  next
    case F: False
    show ?thesis
    proof (cases "1 / 2 < x - of_int \<lfloor>x\<rfloor>")
      case True
      then have "py_round x = \<lfloor>x\<rfloor> + 1" using F by (simp add: py_round_def)
      then show ?thesis using a[of "\<lfloor>x\<rfloor> + 1"] True f by simp
    next
      case False
      then have "x - of_int \<lfloor>x\<rfloor> = 1 / 2" using F by linarith
      moreover have "py_round x = \<lfloor>x\<rfloor> \<or> py_round x = \<lfloor>x\<rfloor> + 1" by (simp add: py_round_def Let_def)
      ultimately show ?thesis using a[of "\<lfloor>x\<rfloor>"] a[of "\<lfloor>x\<rfloor> + 1"] by auto
    qed
  qed
qed

lemma py_round_nonneg: "0 \<le> x \<Longrightarrow> 0 \<le> py_round x"
  by (auto simp: py_round_def Let_def)

lemma catalog_nonneg: "(k, p) \<in> set default_token_pricing \<Longrightarrow> 0 \<le> pr_input p \<and> 0 \<le> pr_output p"
  by (auto simp: default_token_pricing_def)

lemma default_price_entry: "(''default'', default_price) \<in> set default_token_pricing"
  by (simp add: default_price_def default_token_pricing_def)

lemma resolved_price_entry:
  assumes "resolve_pricing_with_status model = (p, status)"
  shows "\<exists>k. (k, p) \<in> set default_token_pricing"
proof (cases "normalize_model_id model = []")
  case True
  then show ?thesis using assms default_price_entry by (auto simp: resolve_pricing_with_status_def)
next
  case False
  let ?l = "py_lower (canonical_id (normalize_model_id model))"
  show ?thesis
  proof (cases "exact_price ?l default_token_pricing")
    case None
    then show ?thesis
      using assms False longest_match_spec[where lower = ?l and best = None and table = default_token_pricing] default_price_entry
      by (auto simp: resolve_pricing_with_status_def Let_def candidate_def split: option.splits)
  next
    case (Some q)
    then show ?thesis using assms False exact_price_Some[OF Some]
      by (auto simp: resolve_pricing_with_status_def Let_def)
  qed
qed

lemma token_cost_nonneg: "0 \<le> pr_input p \<Longrightarrow> 0 \<le> pr_output p \<Longrightarrow> 0 \<le> i \<Longrightarrow> 0 \<le> ot \<Longrightarrow> 0 \<le> token_cost_usd p i ot"
  by (simp add: token_cost_usd_def)

text \<open>
  The cents charged are the cost, rounded. Whatever the model and the counts, also negative ones, the
  charge is not negative and lies within half a cent of the list price of the non-negative part of the
  counts; in particular a call that costs less than half a cent is charged nothing.\<close>

theorem charge_is_the_rounded_cost:
  assumes "calculate_token_cost_cents model input output = (c, status)"
  shows "0 \<le> c \<and> \<bar>of_int c - token_cost_usd (resolve_pricing model) (max 0 input) (max 0 output) * 100\<bar> \<le> 1 / 2 \<and>
    (token_cost_usd (resolve_pricing model) (max 0 input) (max 0 output) * 100 < 1 / 2 \<longrightarrow> c = 0)"
proof -
  obtain p st where r: "resolve_pricing_with_status model = (p, st)" by fastforce
  define x where "x = token_cost_usd p (max 0 input) (max 0 output) * 100"
  obtain k where "(k, p) \<in> set default_token_pricing" using resolved_price_entry[OF r] by blast
  then have x: "0 \<le> x" unfolding x_def using catalog_nonneg[of k p] token_cost_nonneg[of p "max 0 input" "max 0 output"] by simp
  have c: "c = py_round x" using assms r py_round_nonneg[OF x] by (simp add: calculate_token_cost_cents_def x_def max_def)
  have "py_round x = 0" if "x < 1 / 2"
  proof -
    have "\<lfloor>x\<rfloor> = 0" using x that by (simp add: floor_eq_iff)
    then show ?thesis using that by (simp add: py_round_def)
  qed
  then show ?thesis
    using py_round_near[of x] py_round_nonneg[OF x] r by (simp add: c resolve_pricing_def flip: x_def)
qed

text \<open>
  The pricing service quotes a wrong price for variants. It takes the first cached name an id starts with
  instead of the longest, so that without a database a variant of \<open>o1-mini\<close> is quoted at the price of \<open>o1\<close>,
  more than thirteen times what the catalogue and the usage recorder charge for the same id.\<close>

theorem service_misprices_variants:
  assumes "ps_cache s = [] \<or> ps_ttl s \<le> now - ps_time s"
  shows "\<exists>q s'. get_model_pricing now NoDatabase None ''o1-mini-2024-09-12'' s = (Inr q, s') \<and>
    qp_price q = price (15/1000) (6/100) ''openai'' \<and>
    resolve_pricing_with_status ''o1-mini-2024-09-12'' = (price (11/10000) (44/10000) ''openai'', ''provider_model'') \<and>
    recorder_pricing ''o1-mini-2024-09-12'' recorder_catalog = (price (11/10000) (44/10000) ''openai'', ''provider_model'')"
proof -
  have "ensure_cache now NoDatabase s = load_default_pricing now s"
    using assms by (auto simp: ensure_cache_def refresh_cache_def)
  moreover have "qp_price (cached_price ''o1-mini-2024-09-12'' catalog_cache) = price (15/1000) (6/100) ''openai''"
    by code_simp
  moreover have "resolve_pricing_with_status ''o1-mini-2024-09-12'' = (price (11/10000) (44/10000) ''openai'', ''provider_model'')"
    by code_simp
  moreover have "recorder_pricing ''o1-mini-2024-09-12'' recorder_catalog = (price (11/10000) (44/10000) ''openai'', ''provider_model'')"
    by code_simp
  ultimately show ?thesis by (simp add: get_model_pricing_def load_default_pricing_def)
qed

section \<open>Concrete ids\<close>

lemma sample_price: "resolve_pricing_with_status '' openai/models/GPT-4o-mini-2024 '' = (price (15/100000) (6/10000) ''openai'', ''provider_model'')"
  by code_simp

lemma price_is_the_most_specific_witness:
  "\<exists>k. candidate ''gpt-4o-mini-2024'' default_token_pricing (k, price (15/100000) (6/10000) ''openai'') \<and>
     length ''gpt-4o-mini'' \<le> length k"
proof -
  have n: "normalize_model_id '' openai/models/GPT-4o-mini-2024 '' = ''GPT-4o-mini-2024''" by code_simp
  have l: "py_lower (canonical_id ''GPT-4o-mini-2024'') = ''gpt-4o-mini-2024''" by code_simp
  have "candidate ''gpt-4o-mini-2024'' default_token_pricing (''gpt-4o-mini'', price (15/100000) (6/10000) ''openai'')"
    by (simp add: candidate_def default_token_pricing_def py_lower_def lower_char_def starts_with_def)
  then show ?thesis
    using price_is_the_most_specific[OF sample_price refl] unfolding n l by fastforce
qed

lemma sample_charge: "calculate_token_cost_cents ''gpt-4o'' (- 5) 1200 = (1, ''catalog'')"
  by code_simp

lemma charge_is_the_rounded_cost_witness:
  "\<bar>1 - token_cost_usd (resolve_pricing ''gpt-4o'') 0 1200 * 100\<bar> \<le> 1 / 2"
  using charge_is_the_rounded_cost[OF sample_charge] by simp

lemma service_misprices_variants_witness:
  "\<exists>q s'. get_model_pricing 7 NoDatabase None ''o1-mini-2024-09-12'' \<lparr>ps_ttl = 300, ps_cache = [], ps_time = 0\<rparr> = (Inr q, s') \<and>
    pr_input (qp_price q) = 15/1000"
  using service_misprices_variants[of "\<lparr>ps_ttl = 300, ps_cache = [], ps_time = 0\<rparr>" 7] by auto

end
