(* ===== verification/Model_Stream.thy ===== *)
theory Model_Stream
  imports Py_Value "HOL-Library.Sublist"
begin

text \<open>
  The model plane's projection of a provider's chat stream into response events
  (\<open>_ResponsesProjector\<close> in \<open>src/src/services/agent_runtime/model/stream_projection.py\<close>) and the loop of
  \<open>chat_completions.py\<close> that feeds it. Identifiers, the clock and the JSON reader are arguments; a caller
  drops the projector when an operation raises, so that an error carries no state.\<close>

section \<open>Errors, events and state\<close>

datatype stream_exn = PlaneError string nat | PyExn py_exn

text \<open>
  An event is its type, its sequence number and the rest of its fields; the last frame of a stream is
  the text \<open>[DONE]\<close>.\<close>

datatype sse = Sse string nat "(string \<times> pyval) list" | SseDone

definition sse_text :: "(pyval \<Rightarrow> string) \<Rightarrow> sse \<Rightarrow> string" where
  "sse_text dumps e =
     (case e of
        SseDone \<Rightarrow> ''data: [DONE]\<newline>\<newline>''
      | Sse t n fs \<Rightarrow> ''event: '' @ t @ ''\<newline>data: ''
          @ dumps (PDict ((''type'', PStr t) # (''sequence_number'', PInt (int n)) # fs)) @ ''\<newline>\<newline>'')"

text \<open>\<open>len(s.encode("utf-8"))\<close> for the characters of the model, which are the first 256 code points.\<close>

definition utf8_size :: "string \<Rightarrow> int" where
  "utf8_size s = sum_list (map (\<lambda>c. if (of_char c :: nat) < 128 then 1 else 2) s)"

record tool_call =
  tc_id :: string
  tc_call_id :: string
  tc_name :: string
  tc_arguments :: string
  tc_namespace :: "string option"
  tc_wire_name :: string
  tc_argument_bytes :: int
  tc_pending :: string

definition new_tool_call :: tool_call where
  "new_tool_call = \<lparr>tc_id = [], tc_call_id = [], tc_name = [], tc_arguments = [], tc_namespace = None,
     tc_wire_name = [], tc_argument_bytes = 0, tc_pending = []\<rparr>"

record projector =
  pj_model_id :: string
  pj_tool_aliases :: "(string, string \<times> string) py_dict"
  pj_allowed :: "string list option"
  pj_tool_bytes :: int
  pj_estimated_input :: int
  pj_response_id :: string
  pj_reasoning_id :: string
  pj_message_id :: string
  pj_sequence :: nat
  pj_reasoning :: string
  pj_text :: string
  pj_text_bytes :: int
  pj_reasoning_bytes :: int
  pj_reasoning_open :: bool
  pj_reasoning_closed :: bool
  pj_message_open :: bool
  pj_message_closed :: bool
  pj_tool_calls :: "(nat, tool_call) py_dict"
  pj_items_added :: "nat list"
  pj_output :: "pyval list"
  pj_usage :: "(int \<times> int) option"

definition mk_projector ::
  "string \<Rightarrow> int \<Rightarrow> (string, string \<times> string) py_dict \<Rightarrow> string list option \<Rightarrow> string \<Rightarrow> string \<Rightarrow> string
     \<Rightarrow> projector" where
  "mk_projector model estimate aliases allowed u1 u2 u3 =
     \<lparr>pj_model_id = model, pj_tool_aliases = aliases, pj_allowed = allowed, pj_tool_bytes = 0,
      pj_estimated_input = estimate, pj_response_id = ''resp_'' @ u1, pj_reasoning_id = ''rs_'' @ u2,
      pj_message_id = ''msg_'' @ u3, pj_sequence = 0, pj_reasoning = [], pj_text = [], pj_text_bytes = 0,
      pj_reasoning_bytes = 0, pj_reasoning_open = False, pj_reasoning_closed = False,
      pj_message_open = False, pj_message_closed = False, pj_tool_calls = [], pj_items_added = [],
      pj_output = [], pj_usage = None\<rparr>"

text \<open>\<open>_event\<close>, and a list of events built one after the other.\<close>

definition emit :: "projector \<Rightarrow> string \<Rightarrow> (string \<times> pyval) list \<Rightarrow> projector \<times> sse" where
  "emit p t fs = (p\<lparr>pj_sequence := Suc (pj_sequence p)\<rparr>, Sse t (pj_sequence p) fs)"

fun emit_all :: "projector \<Rightarrow> (string \<times> (string \<times> pyval) list) list \<Rightarrow> projector \<times> sse list" where
  "emit_all p [] = (p, [])"
| "emit_all p ((t, fs) # ms) =
     (case emit p t fs of (p, e) \<Rightarrow> case emit_all p ms of (p, es) \<Rightarrow> (p, e # es))"

abbreviation nat_val :: "nat \<Rightarrow> pyval" where
  "nat_val n \<equiv> PInt (int n)"

definition created :: "int \<Rightarrow> projector \<Rightarrow> projector \<times> sse" where
  "created now p = emit p ''response.created''
     [(''response'', PDict [(''id'', PStr (pj_response_id p)), (''object'', PStr ''response''),
        (''created_at'', PInt now), (''status'', PStr ''in_progress''),
        (''model'', PStr (pj_model_id p)), (''output'', PList [])])]"

section \<open>Reasoning and text\<close>

definition text_limit :: int where "text_limit = 8 * 1024 * 1024"

definition open_reasoning :: "projector \<Rightarrow> projector \<times> sse list" where
  "open_reasoning p =
     (if pj_reasoning_open p then (p, [])
      else emit_all (p\<lparr>pj_reasoning_open := True\<rparr>)
        [(''response.output_item.added'',
           [(''output_index'', nat_val (length (pj_output p))),
            (''item'', PDict [(''id'', PStr (pj_reasoning_id p)), (''type'', PStr ''reasoning''),
               (''status'', PStr ''in_progress''), (''summary'', PList [])])]),
         (''response.reasoning_summary_part.added'',
           [(''item_id'', PStr (pj_reasoning_id p)), (''output_index'', nat_val (length (pj_output p))),
            (''summary_index'', PInt 0),
            (''part'', PDict [(''type'', PStr ''summary_text''), (''text'', PStr [])])])])"

definition reasoning_delta :: "projector \<Rightarrow> string \<Rightarrow> stream_exn + projector \<times> sse list" where
  "reasoning_delta p delta =
     (case open_reasoning p of (p, es) \<Rightarrow>
        let p = p\<lparr>pj_reasoning_bytes := pj_reasoning_bytes p + utf8_size delta\<rparr> in
        if pj_reasoning_bytes p > text_limit then Inl (PlaneError ''RUNTIME_PROVIDER_TEXT_LIMIT'' 502)
        else (case emit_all (p\<lparr>pj_reasoning := pj_reasoning p @ delta\<rparr>)
               [(''response.reasoning_summary_text.delta'',
                  [(''item_id'', PStr (pj_reasoning_id p)), (''output_index'', nat_val (length (pj_output p))),
                   (''summary_index'', PInt 0), (''delta'', PStr delta)])] of
                (p, es') \<Rightarrow> Inr (p, es @ es')))"

definition reasoning_item :: "projector \<Rightarrow> pyval" where
  "reasoning_item p = PDict [(''id'', PStr (pj_reasoning_id p)), (''type'', PStr ''reasoning''),
     (''status'', PStr ''completed''),
     (''summary'', PList [PDict [(''type'', PStr ''summary_text''), (''text'', PStr (pj_reasoning p))]])]"

definition close_reasoning :: "projector \<Rightarrow> projector \<times> sse list" where
  "close_reasoning p =
     (if \<not> pj_reasoning_open p \<or> pj_reasoning_closed p then (p, [])
      else let index = length (pj_output p) in
        emit_all (p\<lparr>pj_output := pj_output p @ [reasoning_item p], pj_reasoning_closed := True\<rparr>)
          [(''response.reasoning_summary_text.done'',
             [(''item_id'', PStr (pj_reasoning_id p)), (''output_index'', nat_val index),
              (''summary_index'', PInt 0), (''text'', PStr (pj_reasoning p))]),
           (''response.reasoning_summary_part.done'',
             [(''item_id'', PStr (pj_reasoning_id p)), (''output_index'', nat_val index),
              (''summary_index'', PInt 0),
              (''part'', PDict [(''type'', PStr ''summary_text''), (''text'', PStr (pj_reasoning p))])]),
           (''response.output_item.done'',
             [(''output_index'', nat_val index), (''item'', reasoning_item p)])])"

definition open_message :: "projector \<Rightarrow> projector \<times> sse list" where
  "open_message p =
     (if pj_message_open p then (p, [])
      else emit_all (p\<lparr>pj_message_open := True\<rparr>)
        [(''response.output_item.added'',
           [(''output_index'', nat_val (length (pj_output p))),
            (''item'', PDict [(''id'', PStr (pj_message_id p)), (''type'', PStr ''message''),
               (''status'', PStr ''in_progress''), (''role'', PStr ''assistant''), (''content'', PList [])])]),
         (''response.content_part.added'',
           [(''item_id'', PStr (pj_message_id p)), (''output_index'', nat_val (length (pj_output p))),
            (''content_index'', PInt 0),
            (''part'', PDict [(''type'', PStr ''output_text''), (''text'', PStr []),
               (''annotations'', PList [])])])])"

definition text_delta :: "projector \<Rightarrow> string \<Rightarrow> stream_exn + projector \<times> sse list" where
  "text_delta p delta =
     (case close_reasoning p of (p, es) \<Rightarrow>
      case open_message p of (p, es') \<Rightarrow>
        let p = p\<lparr>pj_text_bytes := pj_text_bytes p + utf8_size delta\<rparr> in
        if pj_text_bytes p > text_limit then Inl (PlaneError ''RUNTIME_PROVIDER_TEXT_LIMIT'' 502)
        else (case emit_all (p\<lparr>pj_text := pj_text p @ delta\<rparr>)
               [(''response.output_text.delta'',
                  [(''item_id'', PStr (pj_message_id p)), (''output_index'', nat_val (length (pj_output p))),
                   (''content_index'', PInt 0), (''delta'', PStr delta), (''logprobs'', PList [])])] of
                (p, es'') \<Rightarrow> Inr (p, es @ es' @ es'')))"

definition message_part :: "projector \<Rightarrow> pyval" where
  "message_part p =
     PDict [(''type'', PStr ''output_text''), (''text'', PStr (pj_text p)), (''annotations'', PList [])]"

definition message_item :: "projector \<Rightarrow> pyval" where
  "message_item p = PDict [(''id'', PStr (pj_message_id p)), (''type'', PStr ''message''),
     (''status'', PStr ''completed''), (''role'', PStr ''assistant''), (''content'', PList [message_part p])]"

definition close_message :: "projector \<Rightarrow> projector \<times> sse list" where
  "close_message p =
     (if \<not> pj_message_open p \<or> pj_message_closed p then (p, [])
      else let index = length (pj_output p) in
        emit_all (p\<lparr>pj_output := pj_output p @ [message_item p], pj_message_closed := True\<rparr>)
          [(''response.output_text.done'',
             [(''item_id'', PStr (pj_message_id p)), (''output_index'', nat_val index),
              (''content_index'', PInt 0), (''text'', PStr (pj_text p)), (''logprobs'', PList [])]),
           (''response.content_part.done'',
             [(''item_id'', PStr (pj_message_id p)), (''output_index'', nat_val index),
              (''content_index'', PInt 0), (''part'', message_part p)]),
           (''response.output_item.done'',
             [(''output_index'', nat_val index), (''item'', message_item p)])])"

section \<open>Tool calls\<close>

definition call_limit :: int where "call_limit = 1024 * 1024"
definition tool_limit :: int where "tool_limit = 4 * 1024 * 1024"

text \<open>\<open>_TOOL_NAME_RE\<close>, matched against the whole name.\<close>

definition tool_name_char :: "char \<Rightarrow> bool" where
  "tool_name_char c =
     (let n = of_char c :: nat in 48 \<le> n \<and> n \<le> 57 \<or> 65 \<le> n \<and> n \<le> 90 \<or> 97 \<le> n \<and> n \<le> 122 \<or> n = 95 \<or> n = 45)"

definition tool_name_ok :: "string \<Rightarrow> bool" where
  "tool_name_ok s = (1 \<le> length s \<and> length s \<le> 64 \<and> list_all tool_name_char s)"

definition stream_invalid :: stream_exn where
  "stream_invalid = PlaneError ''RUNTIME_PROVIDER_STREAM_INVALID'' 502"

definition scope_mismatch :: stream_exn where
  "scope_mismatch = PlaneError ''RUNTIME_PROVIDER_TOOL_SCOPE_MISMATCH'' 502"

text \<open>The item of a call: its public fields, \<open>namespace\<close> last where it was added.\<close>

definition call_item :: "string \<Rightarrow> string \<Rightarrow> tool_call \<Rightarrow> pyval" where
  "call_item status arguments c = PDict ([(''id'', PStr (tc_id c)), (''type'', PStr ''function_call''),
     (''status'', PStr status), (''call_id'', PStr (tc_call_id c)), (''name'', PStr (tc_name c)),
     (''arguments'', PStr arguments)]
     @ (case tc_namespace c of None \<Rightarrow> [] | Some ns \<Rightarrow> [(''namespace'', PStr ns)]))"

text \<open>\<open>_open_tool_call\<close>: the call is updated in place, in the dictionary under its index.\<close>

definition named_call :: "projector \<Rightarrow> tool_call \<Rightarrow> tool_call" where
  "named_call p c =
     (case dict_get (pj_tool_aliases p) (tc_wire_name c) of
        None \<Rightarrow> c\<lparr>tc_name := tc_wire_name c\<rparr>
      | Some (ns, name) \<Rightarrow> c\<lparr>tc_name := name, tc_namespace := Some ns\<rparr>)"

definition in_scope :: "projector \<Rightarrow> string \<Rightarrow> bool" where
  "in_scope p name = (case pj_allowed p of None \<Rightarrow> True | Some names \<Rightarrow> name \<in> set names)"

definition open_tool_call :: "projector \<Rightarrow> nat \<Rightarrow> tool_call \<Rightarrow> stream_exn + projector \<times> tool_call \<times> sse list" where
  "open_tool_call p index c =
     (if index \<in> set (pj_items_added p) then Inr (p, c, [])
      else if tc_call_id c = [] \<or> tc_wire_name c = [] then Inl stream_invalid
      else if \<not> in_scope p (tc_wire_name c) then Inl scope_mismatch
      else let c = named_call p c in
        (case emit_all (p\<lparr>pj_items_added := index # pj_items_added p,
                          pj_tool_calls := dict_set index c (pj_tool_calls p)\<rparr>)
            [(''response.output_item.added'',
               [(''output_index'', nat_val (length (pj_output p) + index)),
                (''item'', call_item ''in_progress'' [] c)])] of
           (p, es) \<Rightarrow> Inr (p, c, es)))"

text \<open>The parts of \<open>tool_call_delta\<close> for one entry: its index, the identifier, the name, the arguments.\<close>

definition call_index :: "(string, pyval) py_dict \<Rightarrow> stream_exn + nat" where
  "call_index d =
     (case get_default d ''index'' (PInt 0) of
        PInt n \<Rightarrow> if n < 0 then Inl stream_invalid else Inr (nat n)
      | _ \<Rightarrow> Inl stream_invalid)"

definition with_call_id :: "projector \<Rightarrow> nat \<Rightarrow> pyval \<Rightarrow> tool_call \<Rightarrow> stream_exn + tool_call" where
  "with_call_id p index v c =
     (case v of
        PNone \<Rightarrow> Inr c
      | PStr s \<Rightarrow>
          if s = [] \<or> length s > 255 \<or> (tc_call_id c \<noteq> [] \<and> tc_call_id c \<noteq> s)
             \<or> list_ex (\<lambda>(j, other). j \<noteq> index \<and> tc_call_id other = s) (pj_tool_calls p)
          then Inl stream_invalid else Inr (c\<lparr>tc_id := s, tc_call_id := s\<rparr>)
      | _ \<Rightarrow> Inl stream_invalid)"

definition with_name :: "projector \<Rightarrow> nat \<Rightarrow> pyval \<Rightarrow> tool_call \<Rightarrow> stream_exn + tool_call" where
  "with_name p index v c =
     (case v of
        PNone \<Rightarrow> Inr c
      | PStr name \<Rightarrow>
          let previous = tc_wire_name c; wire = (if name = previous then previous else previous @ name) in
          if \<not> tool_name_ok wire then Inl (PlaneError ''RUNTIME_TOOL_SCHEMA_INVALID'' 422)
          else if index \<in> set (pj_items_added p) \<and> wire \<noteq> previous then Inl stream_invalid
          else if (case pj_allowed p of None \<Rightarrow> False
                   | Some names \<Rightarrow> \<not> list_ex (\<lambda>a. starts_with a wire) names)
          then Inl scope_mismatch else Inr (c\<lparr>tc_wire_name := wire\<rparr>)
      | _ \<Rightarrow> Inl (PlaneError ''RUNTIME_TOOL_SCHEMA_INVALID'' 422))"

definition with_arguments :: "int \<Rightarrow> pyval \<Rightarrow> tool_call \<Rightarrow> stream_exn + int \<times> tool_call" where
  "with_arguments spent v c =
     (if \<not> truthy v then Inr (spent, c)
      else (case v of
        PStr s \<Rightarrow>
          if tc_argument_bytes c + utf8_size s > call_limit \<or> spent + utf8_size s > tool_limit
          then Inl (PlaneError ''RUNTIME_PROVIDER_TOOL_ARGUMENTS_LIMIT'' 502)
          else Inr (spent + utf8_size s,
                    c\<lparr>tc_argument_bytes := tc_argument_bytes c + utf8_size s,
                      tc_arguments := tc_arguments c @ s, tc_pending := tc_pending c @ s\<rparr>)
      | _ \<Rightarrow> Inl stream_invalid))"

definition flush_call :: "projector \<Rightarrow> nat \<Rightarrow> tool_call \<Rightarrow> stream_exn + projector \<times> sse list" where
  "flush_call p index c =
     (if tc_call_id c = [] \<or> tc_wire_name c = [] \<or> tc_pending c = [] then Inr (p, [])
      else result_bind (open_tool_call p index c) (\<lambda>(p, c, es).
        case emit_all (p\<lparr>pj_tool_calls := dict_set index (c\<lparr>tc_pending := []\<rparr>) (pj_tool_calls p)\<rparr>)
            [(''response.function_call_arguments.delta'',
               [(''item_id'', PStr (tc_call_id c)), (''output_index'', nat_val (length (pj_output p) + index)),
                (''delta'', PStr (tc_pending c))])] of
          (p, es') \<Rightarrow> Inr (p, es @ es')))"

definition find_call :: "projector \<Rightarrow> nat \<Rightarrow> stream_exn + tool_call" where
  "find_call p index =
     (case dict_get (pj_tool_calls p) index of
        Some c \<Rightarrow> Inr c
      | None \<Rightarrow> if length (pj_tool_calls p) \<ge> 256 then Inl (PlaneError ''RUNTIME_PROVIDER_TOOL_LIMIT'' 502)
                else Inr new_tool_call)"

definition updated_call ::
  "projector \<Rightarrow> nat \<Rightarrow> (string, pyval) py_dict \<Rightarrow> (string, pyval) py_dict \<Rightarrow> stream_exn + int \<times> tool_call" where
  "updated_call p index d f =
     result_bind (find_call p index) (\<lambda>c.
     result_bind (with_call_id p index (get_val d ''id'') c) (\<lambda>c.
     result_bind (with_name p index (get_val f ''name'') c) (\<lambda>c.
     with_arguments (pj_tool_bytes p) (get_default f ''arguments'' (PStr [])) c)))"

definition store_call :: "projector \<Rightarrow> nat \<Rightarrow> int \<Rightarrow> tool_call \<Rightarrow> projector" where
  "store_call p index spent c =
     p\<lparr>pj_tool_bytes := spent, pj_tool_calls := dict_set index c (pj_tool_calls p)\<rparr>"

definition tool_call_entry :: "projector \<Rightarrow> pyval \<Rightarrow> stream_exn + projector \<times> sse list" where
  "tool_call_entry p raw =
     (case raw of
        PDict d \<Rightarrow>
          result_bind (call_index d) (\<lambda>index.
            case get_val d ''function'' of
              PDict f \<Rightarrow> result_bind (updated_call p index d f) (\<lambda>(spent, c).
                  flush_call (store_call p index spent c) index c)
            | _ \<Rightarrow> Inl stream_invalid)
      | _ \<Rightarrow> Inl stream_invalid)"

fun tool_call_entries :: "projector \<Rightarrow> pyval list \<Rightarrow> stream_exn + projector \<times> sse list" where
  "tool_call_entries p [] = Inr (p, [])"
| "tool_call_entries p (raw # raws) =
     result_bind (tool_call_entry p raw) (\<lambda>(p, es).
     result_bind (tool_call_entries p raws) (\<lambda>(p, es'). Inr (p, es @ es')))"

definition tool_call_delta :: "projector \<Rightarrow> pyval \<Rightarrow> stream_exn + projector \<times> sse list" where
  "tool_call_delta p raw_calls =
     (case raw_calls of
        PList raws \<Rightarrow>
          (case close_reasoning p of (p, es) \<Rightarrow>
             result_bind (tool_call_entries p raws) (\<lambda>(p, es'). Inr (p, es @ es')))
      | _ \<Rightarrow> Inl stream_invalid)"

text \<open>\<open>close_tool_calls\<close>: in the order of the indices; the list of pairs is fixed when the loop starts.\<close>

definition close_tool_call :: "nat \<Rightarrow> projector \<Rightarrow> nat \<Rightarrow> tool_call \<Rightarrow> stream_exn + projector \<times> sse list" where
  "close_tool_call base p index c =
     result_bind (open_tool_call p index c) (\<lambda>(p, c, es).
       case emit_all (p\<lparr>pj_output := pj_output p @ [call_item ''completed'' (tc_arguments c) c]\<rparr>)
          [(''response.function_call_arguments.done'',
             [(''item_id'', PStr (tc_call_id c)), (''output_index'', nat_val (base + index)),
              (''name'', PStr (tc_name c)), (''arguments'', PStr (tc_arguments c))]),
           (''response.output_item.done'',
             [(''output_index'', nat_val (base + index)),
              (''item'', call_item ''completed'' (tc_arguments c) c)])] of
         (p, es') \<Rightarrow> Inr (p, es @ es'))"

fun close_each_call :: "nat \<Rightarrow> projector \<Rightarrow> (nat \<times> tool_call) list \<Rightarrow> stream_exn + projector \<times> sse list" where
  "close_each_call base p [] = Inr (p, [])"
| "close_each_call base p ((index, c) # cs) =
     result_bind (close_tool_call base p index c) (\<lambda>(p, es).
     result_bind (close_each_call base p cs) (\<lambda>(p, es'). Inr (p, es @ es')))"

definition close_tool_calls :: "projector \<Rightarrow> stream_exn + projector \<times> sse list" where
  "close_tool_calls p = close_each_call (length (pj_output p)) p (sort_key fst (pj_tool_calls p))"

section \<open>Usage and completion\<close>

definition token_count :: "pyval \<Rightarrow> int option" where
  "token_count v = (case v of PInt n \<Rightarrow> if 0 \<le> n then Some n else None | _ \<Rightarrow> None)"

definition set_usage :: "pyval \<Rightarrow> projector \<Rightarrow> projector" where
  "set_usage raw p =
     (case raw of
        PDict d \<Rightarrow>
          (case (token_count (get_default d ''prompt_tokens'' (get_val d ''input_tokens'')),
                 token_count (get_default d ''completion_tokens'' (get_val d ''output_tokens''))) of
             (Some i, Some n) \<Rightarrow> p\<lparr>pj_usage := Some (i, n)\<rparr>
           | _ \<Rightarrow> p)
      | _ \<Rightarrow> p)"

text \<open>\<open>_estimate_tokens\<close>; \<open>canon\<close> is the canonical JSON text.\<close>

definition estimate_tokens :: "(pyval \<Rightarrow> string) \<Rightarrow> pyval \<Rightarrow> int" where
  "estimate_tokens canon v = max 1 \<lceil>of_int (utf8_size (canon v)) / (4 :: rat)\<rceil>"

definition usage_value :: "int \<times> int \<Rightarrow> pyval" where
  "usage_value u = PDict [(''input_tokens'', PInt (fst u)), (''output_tokens'', PInt (snd u)),
     (''total_tokens'', PInt (fst u + snd u)),
     (''input_tokens_details'', PDict [(''cached_tokens'', PInt 0)]),
     (''output_tokens_details'', PDict [(''reasoning_tokens'', PInt 0)])]"

definition completed_event :: "int \<Rightarrow> int \<times> int \<Rightarrow> projector \<Rightarrow> string \<times> (string \<times> pyval) list" where
  "completed_event now u p = (''response.completed'',
     [(''response'', PDict [(''id'', PStr (pj_response_id p)), (''object'', PStr ''response''),
        (''created_at'', PInt now), (''status'', PStr ''completed''), (''error'', PNone),
        (''incomplete_details'', PNone), (''model'', PStr (pj_model_id p)),
        (''output'', PList (pj_output p)), (''usage'', usage_value u)])])"

definition final_usage :: "(pyval \<Rightarrow> string) \<Rightarrow> projector \<Rightarrow> int \<times> int" where
  "final_usage canon p =
     (case pj_usage p of Some u \<Rightarrow> u
      | None \<Rightarrow> (pj_estimated_input p, estimate_tokens canon (PStr (pj_text p))))"

definition complete :: "(pyval \<Rightarrow> string) \<Rightarrow> int \<Rightarrow> projector \<Rightarrow> stream_exn + projector \<times> sse list" where
  "complete canon now p =
     (case close_reasoning p of (p, es) \<Rightarrow>
        result_bind (close_tool_calls p) (\<lambda>(p, es').
          case close_message p of (p, es'') \<Rightarrow>
            if pj_text p = [] \<and> pj_tool_calls p = [] then Inl (PlaneError ''RUNTIME_PROVIDER_EMPTY_RESPONSE'' 502)
            else let u = final_usage canon p in
              (case emit_all (p\<lparr>pj_usage := Some u\<rparr>) [completed_event now u p] of
                 (p, e) \<Rightarrow> Inr (p, es @ es' @ es'' @ e @ [SseDone]))))"

section \<open>The stream\<close>

text \<open>
  One choice of a provider event: a finish reason that is not hashable raises, and the parts of the delta
  are handled in the order tool calls, reasoning, text. The flag says that a finish reason was seen. What
  an operation had already returned before a later one raises has been sent, so that an error comes with
  the events sent before it.\<close>

type_synonym sending = "sse list \<times> (stream_exn + projector)"

definition send :: "stream_exn + projector \<times> sse list \<Rightarrow> sending" where
  "send r = (case r of Inl e \<Rightarrow> ([], Inl e) | Inr (p, es) \<Rightarrow> (es, Inr p))"

definition and_then :: "sending \<Rightarrow> (projector \<Rightarrow> sending) \<Rightarrow> sending" where
  "and_then s f = (case s of (es, Inl e) \<Rightarrow> (es, Inl e) | (es, Inr p) \<Rightarrow> (case f p of (es', r) \<Rightarrow> (es @ es', r)))"

definition finish_reason :: "pyval \<Rightarrow> stream_exn + bool" where
  "finish_reason v =
     (case v of
        PNone \<Rightarrow> Inr False
      | PStr s \<Rightarrow> if s \<in> {''stop'', ''tool_calls'', ''function_call''} then Inr True
                  else Inl (PlaneError ''RUNTIME_PROVIDER_RESPONSE_INCOMPLETE'' 502)
      | PList _ \<Rightarrow> Inl (PyExn (TypeError ''unhashable type''))
      | PDict _ \<Rightarrow> Inl (PyExn (TypeError ''unhashable type''))
      | _ \<Rightarrow> Inl (PlaneError ''RUNTIME_PROVIDER_RESPONSE_INCOMPLETE'' 502))"

definition project_delta :: "(string, pyval) py_dict \<Rightarrow> projector \<Rightarrow> sending" where
  "project_delta d p =
     and_then (if truthy (get_val d ''tool_calls'') then send (tool_call_delta p (get_val d ''tool_calls''))
               else ([], Inr p)) (\<lambda>p.
     and_then (case get_val d ''reasoning_content'' of
                 PStr s \<Rightarrow> if s = [] then ([], Inr p) else send (reasoning_delta p s)
               | _ \<Rightarrow> ([], Inr p)) (\<lambda>p.
     case get_val d ''content'' of
       PStr s \<Rightarrow> if s = [] then ([], Inr p) else send (text_delta p s)
     | _ \<Rightarrow> ([], Inr p)))"

definition project_choice :: "pyval \<Rightarrow> projector \<Rightarrow> sending \<times> bool" where
  "project_choice choice p =
     (case choice of
        PDict d \<Rightarrow>
          (case finish_reason (get_val d ''finish_reason'') of
             Inl e \<Rightarrow> (([], Inl e), False)
           | Inr b \<Rightarrow>
               (case get_val d ''delta'' of PDict delta \<Rightarrow> (project_delta delta p, b) | _ \<Rightarrow> (([], Inr p), b)))
      | _ \<Rightarrow> (([], Inr p), False))"

fun project_choices :: "pyval list \<Rightarrow> projector \<Rightarrow> bool \<Rightarrow> sending \<times> bool" where
  "project_choices [] p seen = (([], Inr p), seen)"
| "project_choices (v # vs) p seen =
     (case project_choice v p of
        ((es, Inl e), b) \<Rightarrow> ((es, Inl e), seen \<or> b)
      | ((es, Inr p'), b) \<Rightarrow>
          (case project_choices vs p' (seen \<or> b) of ((es', r), b') \<Rightarrow> ((es @ es', r), b')))"

text \<open>\<open>json.loads\<close> is \<open>loads\<close>, with \<open>None\<close> for \<open>JSONDecodeError\<close>.\<close>

definition project_payload :: "(string \<Rightarrow> pyval option) \<Rightarrow> string \<Rightarrow> projector \<Rightarrow> bool \<Rightarrow> sending \<times> bool" where
  "project_payload loads payload p seen =
     (case loads payload of
        Some (PDict d) \<Rightarrow>
          let p = set_usage (get_val d ''usage'') p in
          (case get_val d ''choices'' of
             PList vs \<Rightarrow> project_choices vs p seen
           | _ \<Rightarrow> (([], Inr p), seen))
      | _ \<Rightarrow> (([], Inl stream_invalid), seen))"

fun project_lines :: "(string \<Rightarrow> pyval option) \<Rightarrow> string list \<Rightarrow> projector \<Rightarrow> bool \<Rightarrow> sending \<times> bool" where
  "project_lines loads [] p seen = (([], Inr p), seen)"
| "project_lines loads (line # lines) p seen =
     (let payload = py_strip (drop 5 line) in
      if \<not> starts_with line ''data:'' \<or> payload = [] then project_lines loads lines p seen
      else if payload = ''[DONE]'' then (([], Inr p), True)
      else (case project_payload loads payload p seen of
              ((es, Inl e), b) \<Rightarrow> ((es, Inl e), b)
            | ((es, Inr p'), b) \<Rightarrow>
                (case project_lines loads lines p' b of ((es', r), b') \<Rightarrow> ((es @ es', r), b'))))"

definition chat_stream ::
  "(string \<Rightarrow> pyval option) \<Rightarrow> (pyval \<Rightarrow> string) \<Rightarrow> int \<Rightarrow> int \<Rightarrow> string list \<Rightarrow> projector \<Rightarrow> sending" where
  "chat_stream loads canon t0 t1 lines p =
     (case created t0 p of (p, e) \<Rightarrow>
        case project_lines loads lines p False of (s, seen) \<Rightarrow>
          and_then ([e], Inr p) (\<lambda>_. and_then s (\<lambda>p.
            if \<not> seen then ([], Inl (PlaneError ''RUNTIME_PROVIDER_STREAM_INCOMPLETE'' 502))
            else send (complete canon t1 p))))"

section \<open>What the client reads\<close>

text \<open>The numbers of the events, and the text a client assembles from the deltas of one item.\<close>

fun numbered :: "nat \<Rightarrow> (string \<times> (string \<times> pyval) list) list \<Rightarrow> sse list" where
  "numbered n [] = []"
| "numbered n ((t, fs) # ms) = Sse t n fs # numbered (Suc n) ms"

definition sequence_numbers :: "sse list \<Rightarrow> nat list" where
  "sequence_numbers es = concat (map (\<lambda>e. case e of Sse _ n _ \<Rightarrow> [n] | SseDone \<Rightarrow> []) es)"

definition delta_of :: "string \<Rightarrow> string \<Rightarrow> sse \<Rightarrow> string" where
  "delta_of ty item e =
     (case e of
        Sse t n fs \<Rightarrow> if t = ty \<and> get_val fs ''item_id'' = PStr item then the_str (get_val fs ''delta'') else []
      | SseDone \<Rightarrow> [])"

definition deltas :: "string \<Rightarrow> string \<Rightarrow> sse list \<Rightarrow> string" where
  "deltas ty item es = concat (map (delta_of ty item) es)"

abbreviation text_deltas :: "string \<Rightarrow> sse list \<Rightarrow> string" where
  "text_deltas \<equiv> deltas ''response.output_text.delta''"

abbreviation reasoning_deltas :: "string \<Rightarrow> sse list \<Rightarrow> string" where
  "reasoning_deltas \<equiv> deltas ''response.reasoning_summary_text.delta''"

abbreviation argument_deltas :: "string \<Rightarrow> sse list \<Rightarrow> string" where
  "argument_deltas \<equiv> deltas ''response.function_call_arguments.delta''"

lemma emit_all_eq: "emit_all p ms = (p\<lparr>pj_sequence := pj_sequence p + length ms\<rparr>, numbered (pj_sequence p) ms)"
  by (induction p ms rule: emit_all.induct) (simp_all add: emit_def)

lemma deltas_append [simp]: "deltas ty item (es @ es') = deltas ty item es @ deltas ty item es'"
  by (simp add: deltas_def)

lemma deltas_Nil [simp]: "deltas ty item [] = []"
  by (simp add: deltas_def)

lemma deltas_Cons: "deltas ty item (e # es) = delta_of ty item e @ deltas ty item es"
  by (simp add: deltas_def)

lemma sequence_numbers_append [simp]:
  "sequence_numbers (es @ es') = sequence_numbers es @ sequence_numbers es'"
  by (simp add: sequence_numbers_def)

lemma sequence_numbers_numbered [simp]: "sequence_numbers (numbered n ms) = [n..<n + length ms]"
proof (induction ms arbitrary: n)
  case (Cons m ms)
  have "[n..<n + length (m # ms)] = n # [Suc n..<Suc n + length ms]"
    using upt_conv_Cons[of n "n + length (m # ms)"] by (simp del: upt_Suc)
  then show ?case using Cons.IH[of "Suc n"] by (cases m) (simp add: sequence_numbers_def)
qed (simp add: sequence_numbers_def)

lemma utf8_size_append [simp]: "utf8_size (s @ t) = utf8_size s + utf8_size t"
  by (simp add: utf8_size_def)

lemma utf8_size_Nil [simp]: "utf8_size [] = 0"
  by (simp add: utf8_size_def)

lemma utf8_size_nonneg [simp]: "0 \<le> utf8_size s"
  by (induction s) (auto simp: utf8_size_def)

section \<open>The invariant of a projection\<close>

text \<open>
  \<open>es\<close> is what was sent so far. A call whose identifier or name is missing keeps its arguments back; the
  others have sent everything.\<close>

definition resolved :: "projector \<Rightarrow> string \<Rightarrow> string option \<times> string" where
  "resolved p wire =
     (case dict_get (pj_tool_aliases p) wire of None \<Rightarrow> (None, wire) | Some (ns, name) \<Rightarrow> (Some ns, name))"

definition call_ok :: "projector \<Rightarrow> sse list \<Rightarrow> nat \<Rightarrow> tool_call \<Rightarrow> bool" where
  "call_ok p es i c \<longleftrightarrow>
     tc_arguments c = argument_deltas (tc_call_id c) es @ tc_pending c \<and>
     tc_id c = tc_call_id c \<and>
     tc_argument_bytes c = utf8_size (tc_arguments c) \<and> utf8_size (tc_arguments c) \<le> call_limit \<and>
     (if i \<in> set (pj_items_added p)
      then tc_call_id c \<noteq> [] \<and> tc_wire_name c \<noteq> [] \<and> in_scope p (tc_wire_name c)
        \<and> (tc_namespace c, tc_name c) = resolved p (tc_wire_name c)
      else tc_namespace c = None)"

definition flushed :: "tool_call \<Rightarrow> bool" where
  "flushed c \<longleftrightarrow> tc_pending c = [] \<or> tc_call_id c = [] \<or> tc_wire_name c = []"

definition distinct_ids :: "(nat, tool_call) py_dict \<Rightarrow> bool" where
  "distinct_ids d \<longleftrightarrow>
     (\<forall>i j c e. dict_get d i = Some c \<longrightarrow> dict_get d j = Some e \<longrightarrow> i \<noteq> j \<longrightarrow> tc_call_id c = tc_call_id e \<longrightarrow> tc_call_id c = [])"

definition known_deltas :: "(nat, tool_call) py_dict \<Rightarrow> sse list \<Rightarrow> bool" where
  "known_deltas d es \<longleftrightarrow>
     (\<forall>x. argument_deltas x es \<noteq> [] \<longrightarrow> x \<noteq> [] \<and> (\<exists>i c. dict_get d i = Some c \<and> tc_call_id c = x))"

definition each_call :: "(nat \<Rightarrow> tool_call \<Rightarrow> bool) \<Rightarrow> (nat, tool_call) py_dict \<Rightarrow> bool" where
  "each_call P d \<longleftrightarrow> (\<forall>i c. dict_get d i = Some c \<longrightarrow> P i c)"

definition calls_core :: "projector \<Rightarrow> sse list \<Rightarrow> bool" where
  "calls_core p es \<longleftrightarrow>
     dict_ok (pj_tool_calls p) \<and> length (pj_tool_calls p) \<le> 256 \<and>
     set (pj_items_added p) \<subseteq> fst ` set (pj_tool_calls p) \<and>
     each_call (call_ok p es) (pj_tool_calls p) \<and> distinct_ids (pj_tool_calls p) \<and>
     known_deltas (pj_tool_calls p) es \<and>
     pj_tool_bytes p = sum_list (map (tc_argument_bytes \<circ> snd) (pj_tool_calls p)) \<and>
     pj_tool_bytes p \<le> tool_limit"

definition calls_ok :: "projector \<Rightarrow> sse list \<Rightarrow> bool" where
  "calls_ok p es \<longleftrightarrow> calls_core p es \<and> each_call (\<lambda>_. flushed) (pj_tool_calls p)"

text \<open>An event, and where it shows a tool call a tool in scope under its resolved name.\<close>

definition call_shown_ok :: "projector \<Rightarrow> sse \<Rightarrow> bool" where
  "call_shown_ok p e =
     (case e of
        SseDone \<Rightarrow> False
      | Sse t n fs \<Rightarrow>
          (let d = dict_of (get_val fs ''item'') in
           get_val d ''type'' = PStr ''function_call'' \<longrightarrow>
           (\<exists>w. in_scope p w \<and> get_val d ''name'' = PStr (snd (resolved p w))
              \<and> dict_get d ''namespace'' = map_option PStr (fst (resolved p w)))))"

definition message_ok :: "projector \<Rightarrow> sse list \<Rightarrow> bool" where
  "message_ok p es \<longleftrightarrow>
     text_deltas (pj_message_id p) es = pj_text p \<and>
     reasoning_deltas (pj_reasoning_id p) es = pj_reasoning p \<and>
     pj_text_bytes p = utf8_size (pj_text p) \<and> pj_text_bytes p \<le> text_limit \<and>
     pj_reasoning_bytes p = utf8_size (pj_reasoning p) \<and> pj_reasoning_bytes p \<le> text_limit \<and>
     (pj_text p \<noteq> [] \<longrightarrow> pj_message_open p) \<and> (pj_reasoning_closed p \<longrightarrow> pj_reasoning_open p)"

definition projected :: "projector \<Rightarrow> sse list \<Rightarrow> bool" where
  "projected p es \<longleftrightarrow>
     sequence_numbers es = [0..<pj_sequence p] \<and> message_ok p es \<and> calls_ok p es \<and>
     (\<forall>e \<in> set es. call_shown_ok p e)"

text \<open>What no operation changes, and the output before the stream is completed.\<close>

definition same_setup :: "projector \<Rightarrow> projector \<Rightarrow> bool" where
  "same_setup p q \<longleftrightarrow>
     pj_model_id q = pj_model_id p \<and> pj_tool_aliases q = pj_tool_aliases p \<and> pj_allowed q = pj_allowed p \<and>
     pj_response_id q = pj_response_id p \<and> pj_reasoning_id q = pj_reasoning_id p \<and>
     pj_message_id q = pj_message_id p"

definition streaming :: "projector \<Rightarrow> bool" where
  "streaming p \<longleftrightarrow> \<not> pj_message_closed p \<and>
     (if pj_reasoning_closed p
      then \<exists>r. prefix r (pj_reasoning p) \<and> pj_output p = [reasoning_item (p\<lparr>pj_reasoning := r\<rparr>)]
      else pj_output p = [])"

lemma same_setup_refl [simp]: "same_setup p p"
  by (simp add: same_setup_def)

lemma same_setup_trans [trans]: "same_setup p q \<Longrightarrow> same_setup q r \<Longrightarrow> same_setup p r"
  by (simp add: same_setup_def)

lemma in_scope_same: "same_setup p q \<Longrightarrow> in_scope q = in_scope p"
  by (simp add: same_setup_def in_scope_def fun_eq_iff)

lemma resolved_same: "same_setup p q \<Longrightarrow> resolved q = resolved p"
  by (simp add: same_setup_def resolved_def fun_eq_iff)

lemma call_shown_same: "same_setup p q \<Longrightarrow> call_shown_ok q e = call_shown_ok p e"
  using in_scope_same[of p q] resolved_same[of p q] by (cases e) (simp_all add: call_shown_ok_def)

text \<open>Events of the message and of the reasoning leave the calls alone.\<close>

definition silent :: "sse list \<Rightarrow> bool" where
  "silent es \<longleftrightarrow> (\<forall>x. argument_deltas x es = []) \<and> (\<forall>p. \<forall>e \<in> set es. call_shown_ok p e)"

lemma calls_core_silent:
  assumes "calls_core p es" "\<And>x. argument_deltas x es' = []" "same_setup p q" "pj_tool_calls q = pj_tool_calls p"
    "pj_items_added q = pj_items_added p" "pj_tool_bytes q = pj_tool_bytes p"
  shows "calls_core q (es @ es')"
proof -
  have "call_ok q (es @ es') i c = call_ok p es i c" for i c
    by (simp only: call_ok_def deltas_append append_Nil2 assms(2,5) in_scope_same[OF assms(3)]
        resolved_same[OF assms(3)])
  moreover have "known_deltas (pj_tool_calls p) (es @ es') = known_deltas (pj_tool_calls p) es"
    by (simp add: known_deltas_def assms(2))
  ultimately show ?thesis using assms(1,4-6) by (simp add: calls_core_def each_call_def)
qed

lemma calls_ok_silent:
  assumes "calls_ok p es" "silent es'" "same_setup p q" "pj_tool_calls q = pj_tool_calls p"
    "pj_items_added q = pj_items_added p" "pj_tool_bytes q = pj_tool_bytes p"
  shows "calls_ok q (es @ es')"
  using assms(1,2,4) calls_core_silent[OF _ _ assms(3-6), of es es'] by (simp add: calls_ok_def silent_def)

lemma projected_silent:
  assumes "projected p es" "silent es'" "same_setup p q" "pj_tool_calls q = pj_tool_calls p"
    "pj_items_added q = pj_items_added p" "pj_tool_bytes q = pj_tool_bytes p"
    "sequence_numbers es' = [pj_sequence p..<pj_sequence q]" "pj_sequence p \<le> pj_sequence q"
    "message_ok q (es @ es')"
  shows "projected q (es @ es')"
  unfolding projected_def
proof (intro conjI)
  show "sequence_numbers (es @ es') = [0..<pj_sequence q]"
    using assms upt_add_eq_append[of 0 "pj_sequence p" "pj_sequence q - pj_sequence p"]
    by (simp add: projected_def)
  show "\<forall>e\<in>set (es @ es'). call_shown_ok q e"
    using assms by (auto simp: projected_def silent_def call_shown_same[OF assms(3)])
  show "calls_ok q (es @ es')"
    using calls_ok_silent[OF _ assms(2-6)] assms(1) by (simp add: projected_def)
qed (rule assms)

text \<open>Each operation on the message or on the reasoning, as one step.\<close>

lemmas event_simps = emit_all_eq deltas_Cons delta_of_def get_val_def get_default_def silent_def
  call_shown_ok_def same_setup_def dict_of_def

definition keeps :: "projector \<Rightarrow> projector \<times> sse list \<Rightarrow> bool" where
  "keeps p r \<longleftrightarrow> (case r of (q, es') \<Rightarrow>
     same_setup p q \<and> (streaming p \<longrightarrow> streaming q) \<and> (\<forall>es. projected p es \<longrightarrow> projected q (es @ es')))"

lemma keeps_refl [simp]: "keeps p (p, [])"
  by (simp add: keeps_def)

lemma keeps_trans: "keeps p (q, es) \<Longrightarrow> keeps q (r, es') \<Longrightarrow> keeps p (r, es @ es')"
  unfolding keeps_def by (force intro: same_setup_trans simp flip: append_assoc)

lemma projected_emit:
  assumes "same_setup p q" "pj_tool_calls q = pj_tool_calls p" "pj_items_added q = pj_items_added p"
    "pj_tool_bytes q = pj_tool_bytes p" "pj_sequence q = pj_sequence p"
    "\<And>n. silent (numbered n ms)"
    "\<And>es. message_ok p es \<Longrightarrow> message_ok q (es @ numbered (pj_sequence p) ms)"
    "projected p es"
  shows "projected (q\<lparr>pj_sequence := pj_sequence q + length ms\<rparr>) (es @ numbered (pj_sequence p) ms)"
proof -
  let ?q = "q\<lparr>pj_sequence := pj_sequence q + length ms\<rparr>"
  have same: "same_setup p ?q" using assms(1) by (simp add: same_setup_def)
  show ?thesis
  proof (rule projected_silent[OF assms(8) assms(6) same])
    show "message_ok ?q (es @ numbered (pj_sequence p) ms)"
      using assms(7)[of es] assms(8) by (simp add: projected_def message_ok_def)
  qed (use assms in simp_all)
qed

lemma keeps_emitI:
  assumes "same_setup p q" "pj_tool_calls q = pj_tool_calls p" "pj_items_added q = pj_items_added p"
    "pj_tool_bytes q = pj_tool_bytes p" "pj_sequence q = pj_sequence p"
    "\<And>n. silent (numbered n ms)" "streaming p \<Longrightarrow> streaming q"
    "\<And>es. message_ok p es \<Longrightarrow> message_ok q (es @ numbered (pj_sequence p) ms)"
  shows "keeps p (emit_all q ms)"
proof -
  let ?q = "q\<lparr>pj_sequence := pj_sequence q + length ms\<rparr>"
  have "same_setup p ?q" using assms(1) by (simp add: same_setup_def)
  moreover have "streaming ?q = streaming q" by (simp add: streaming_def reasoning_item_def)
  ultimately show ?thesis
    using assms(5,7) projected_emit[OF assms(1-6,8)] by (simp add: keeps_def emit_all_eq)
qed

lemma keeps_open_reasoning: "keeps p (open_reasoning p)"
proof (cases "pj_reasoning_open p")
  case False
  then show ?thesis
    unfolding open_reasoning_def if_not_P[OF False]
    by (intro keeps_emitI) (auto simp: event_simps streaming_def message_ok_def reasoning_item_def split: if_splits)
qed (simp add: open_reasoning_def)

lemma keeps_open_message: "keeps p (open_message p)"
proof (cases "pj_message_open p")
  case False
  then show ?thesis
    unfolding open_message_def if_not_P[OF False]
    by (intro keeps_emitI) (auto simp: event_simps streaming_def message_ok_def reasoning_item_def split: if_splits)
qed (simp add: open_message_def)

lemma keeps_close_reasoning: "keeps p (close_reasoning p)"
proof (cases "\<not> pj_reasoning_open p \<or> pj_reasoning_closed p")
  case False
  then show ?thesis
    unfolding close_reasoning_def if_not_P[OF False] Let_def
    by (intro keeps_emitI) (auto simp: event_simps streaming_def message_ok_def reasoning_item_def)
qed (simp add: close_reasoning_def)

text \<open>What an operation that may raise keeps.\<close>

definition keeps_result :: "projector \<Rightarrow> stream_exn + projector \<times> sse list \<Rightarrow> bool" where
  "keeps_result p r \<longleftrightarrow> (case r of Inl e \<Rightarrow> True | Inr q \<Rightarrow> keeps p q)"

lemma keeps_resultI: "keeps p (q, es) \<Longrightarrow> keeps_result q r \<Longrightarrow>
    keeps_result p (result_bind r (\<lambda>(q, es'). Inr (q, es @ es')))"
  by (cases r) (auto simp: keeps_result_def intro: keeps_trans)

lemma keeps_reasoning_delta: "keeps_result p (reasoning_delta p d)"
proof -
  obtain q es where o: "open_reasoning p = (q, es)" by force
  then have opened: "pj_reasoning_open q" by (auto simp: open_reasoning_def emit_all_eq split: if_splits)
  have "keeps q (emit_all (q\<lparr>pj_reasoning_bytes := pj_reasoning_bytes q + utf8_size d,
         pj_reasoning := pj_reasoning q @ d\<rparr>)
       [(''response.reasoning_summary_text.delta'',
          [(''item_id'', PStr (pj_reasoning_id q)), (''output_index'', nat_val (length (pj_output q))),
           (''summary_index'', PInt 0), (''delta'', PStr d)])])"
    if "pj_reasoning_bytes q + utf8_size d \<le> text_limit"
    using that opened
    by (intro keeps_emitI)
      (auto simp: event_simps streaming_def message_ok_def reasoning_item_def the_str_def split: if_splits)
  then show ?thesis
    using keeps_open_reasoning[of p] keeps_trans[of p q es]
    by (auto simp: reasoning_delta_def o Let_def keeps_result_def emit_all_eq)
qed

lemma keeps_text_delta: "keeps_result p (text_delta p d)"
proof -
  obtain q es where c: "close_reasoning p = (q, es)" by force
  obtain r es' where o: "open_message q = (r, es')" by force
  then have opened: "pj_message_open r" by (auto simp: open_message_def emit_all_eq split: if_splits)
  have "keeps r (emit_all (r\<lparr>pj_text_bytes := pj_text_bytes r + utf8_size d, pj_text := pj_text r @ d\<rparr>)
       [(''response.output_text.delta'',
          [(''item_id'', PStr (pj_message_id r)), (''output_index'', nat_val (length (pj_output r))),
           (''content_index'', PInt 0), (''delta'', PStr d), (''logprobs'', PList [])])])"
    if "pj_text_bytes r + utf8_size d \<le> text_limit"
    using that opened
    by (intro keeps_emitI)
      (auto simp: event_simps streaming_def message_ok_def reasoning_item_def the_str_def split: if_splits)
  moreover have "keeps p (r, es @ es')"
    using keeps_close_reasoning[of p] keeps_open_message[of q] by (auto simp: c o intro: keeps_trans)
  ultimately show ?thesis
    using keeps_trans[of p r "es @ es'"]
    by (auto simp: text_delta_def c o Let_def keeps_result_def emit_all_eq)
qed

lemma keeps_set_usage: "keeps p (set_usage v p, [])"
proof -
  have "keeps p (p\<lparr>pj_usage := u\<rparr>, [])" for u
  proof -
    have "keeps p (emit_all (p\<lparr>pj_usage := u\<rparr>) [])"
      by (intro keeps_emitI) (auto simp: event_simps streaming_def message_ok_def reasoning_item_def)
    then show ?thesis by simp
  qed
  then show ?thesis by (auto simp: set_usage_def split: pyval.splits option.splits)
qed

section \<open>One entry of a tool call delta\<close>

lemma call_okD: "calls_core p es \<Longrightarrow> dict_get (pj_tool_calls p) i = Some c \<Longrightarrow> call_ok p es i c"
  by (simp add: calls_core_def each_call_def)

lemma each_call_set: "each_call P d \<Longrightarrow> P i c \<Longrightarrow> each_call P (dict_set i c d)"
  by (simp add: each_call_def dict_get_set)

lemma distinct_ids_set:
  assumes "distinct_ids d" "\<And>j e. dict_get d j = Some e \<Longrightarrow> j \<noteq> i \<Longrightarrow> tc_call_id e = tc_call_id c \<Longrightarrow> tc_call_id c = []"
  shows "distinct_ids (dict_set i c d)"
  unfolding distinct_ids_def
proof (intro allI impI)
  fix k j a b
  assume two: "dict_get (dict_set i c d) k = Some a" "dict_get (dict_set i c d) j = Some b" "k \<noteq> j"
    "tc_call_id a = tc_call_id b"
  consider "k = i" "j \<noteq> i" | "j = i" "k \<noteq> i" | "k \<noteq> i" "j \<noteq> i" using two(3) by blast
  then show "tc_call_id a = []"
  proof cases
    case 1
    then have "a = c" "dict_get d j = Some b" using two(1,2) by (simp_all add: dict_get_set)
    then show ?thesis using assms(2)[of j b] 1(2) two(4) by argo
  next
    case 2
    then have "b = c" "dict_get d k = Some a" using two(1,2) by (simp_all add: dict_get_set)
    then show ?thesis using assms(2)[of k a] 2(2) two(4) by argo
  next
    case 3
    then have "dict_get d k = Some a" "dict_get d j = Some b" using two by (simp_all add: dict_get_set)
    then show ?thesis using assms(1) two(3,4) unfolding distinct_ids_def by blast
  qed
qed

text \<open>The sum of a number per entry, after one entry is set.\<close>

lemma sum_dict_set:
  fixes f :: "'v \<Rightarrow> int"
  assumes "dict_ok d"
  shows "sum_list (map (f \<circ> snd) (dict_set k v d)) + (case dict_get d k of None \<Rightarrow> 0 | Some w \<Rightarrow> f w)
     = sum_list (map (f \<circ> snd) d) + f v"
  using assms
proof (induction d)
  case (Cons e d)
  then show ?case by (cases e) (auto simp: dict_ok_def split: option.splits)
qed simp

lemma length_dict_set: "length (dict_set k v d) = (if dict_get d k = None then Suc (length d) else length d)"
  by (induction d) auto

lemma dict_set_same: "dict_get d k = Some v \<Longrightarrow> dict_set k v d = d"
  by (induction d) (auto split: if_splits)

text \<open>
  The call at an index: where there is none, a new one. An update of the call at \<open>index\<close> that keeps the
  conditions of \<open>call_ok\<close> and whose identifier is nobody else's keeps the invariant.\<close>

definition call_at :: "projector \<Rightarrow> nat \<Rightarrow> tool_call" where
  "call_at p index = (case dict_get (pj_tool_calls p) index of Some c \<Rightarrow> c | None \<Rightarrow> new_tool_call)"

definition fresh_id :: "projector \<Rightarrow> nat \<Rightarrow> string \<Rightarrow> bool" where
  "fresh_id p index s \<longleftrightarrow> s = [] \<or> (\<forall>j d. dict_get (pj_tool_calls p) j = Some d \<longrightarrow> j \<noteq> index \<longrightarrow> tc_call_id d \<noteq> s)"

definition placeable :: "projector \<Rightarrow> nat \<Rightarrow> bool" where
  "placeable p index \<longleftrightarrow> dict_get (pj_tool_calls p) index \<noteq> None \<or> length (pj_tool_calls p) < 256"

lemma calls_core_store:
  assumes ok: "calls_core p es" and place: "placeable p index" and c: "call_ok p es index c"
    and fresh: "fresh_id p index (tc_call_id c)"
    and old: "tc_call_id (call_at p index) = [] \<or> tc_call_id c = tc_call_id (call_at p index)"
    and spent: "spent = pj_tool_bytes p + tc_argument_bytes c - tc_argument_bytes (call_at p index)"
      "spent \<le> tool_limit"
  shows "calls_core (store_call p index spent c) es"
proof -
  let ?d = "pj_tool_calls p"
  have dict: "dict_ok ?d" and len: "length ?d \<le> 256" and added: "set (pj_items_added p) \<subseteq> fst ` set ?d"
    and each: "each_call (call_ok p es) ?d" and ids: "distinct_ids ?d" and known: "known_deltas ?d es"
    and total: "pj_tool_bytes p = sum_list (map (tc_argument_bytes \<circ> snd) ?d)"
    using ok by (simp_all add: calls_core_def)
  have same: "call_ok (store_call p index spent c) es = call_ok p es"
    by (simp add: fun_eq_iff call_ok_def store_call_def in_scope_def resolved_def)
  have "tc_argument_bytes (call_at p index) = (case dict_get ?d index of None \<Rightarrow> 0 | Some w \<Rightarrow> tc_argument_bytes w)"
    by (auto simp: call_at_def new_tool_call_def split: option.splits)
  then have "spent = sum_list (map (tc_argument_bytes \<circ> snd) (dict_set index c ?d))"
    using sum_dict_set[OF dict, of tc_argument_bytes index c] spent(1) total by simp
  moreover have "length (dict_set index c ?d) \<le> 256"
    using place len by (auto simp: placeable_def length_dict_set)
  moreover have "distinct_ids (dict_set index c ?d)"
    using ids fresh by (intro distinct_ids_set) (auto simp: fresh_id_def)
  moreover have "known_deltas (dict_set index c ?d) es"
    unfolding known_deltas_def
  proof (intro allI impI conjI)
    fix x
    assume "argument_deltas x es \<noteq> []"
    then obtain i e where e: "x \<noteq> []" "dict_get ?d i = Some e" "tc_call_id e = x"
      using known unfolding known_deltas_def by blast
    then show "x \<noteq> []" by simp
    have "tc_call_id c = x" if "i = index"
      using e old that by (simp add: call_at_def)
    then show "\<exists>i c'. dict_get (dict_set index c ?d) i = Some c' \<and> tc_call_id c' = x"
      using e by (intro exI[of _ i] exI[of _ "if i = index then c else e"]) (simp add: dict_get_set)
  qed
  moreover have "set (pj_items_added p) \<subseteq> fst ` set (dict_set index c ?d)"
    using added by (auto simp: dom_update)
  ultimately show ?thesis
    using dict each_call_set[OF each c] spent(2) same by (simp add: calls_core_def store_call_def)
qed

lemma call_ok_at:
  assumes "calls_core p es"
  shows "call_ok p es index (call_at p index)" "fresh_id p index (tc_call_id (call_at p index))"
proof -
  have "call_ok p es index (call_at p index) \<and> fresh_id p index (tc_call_id (call_at p index))"
  proof (cases "dict_get (pj_tool_calls p) index")
    case None
    then have "index \<notin> fst ` set (pj_tool_calls p)" by (simp add: map_of_eq_None_iff)
    then have "index \<notin> set (pj_items_added p)" using assms by (auto simp: calls_core_def)
    moreover have "argument_deltas [] es = []" using assms by (auto simp: calls_core_def known_deltas_def)
    ultimately show ?thesis
      by (simp add: call_at_def None new_tool_call_def call_ok_def fresh_id_def call_limit_def)
  next
    case (Some c)
    have "distinct_ids (pj_tool_calls p)" using assms by (simp add: calls_core_def)
    then have "fresh_id p index (tc_call_id c)"
      using Some unfolding distinct_ids_def fresh_id_def by metis
    then show ?thesis using call_okD[OF assms Some] by (simp add: call_at_def Some)
  qed
  then show "call_ok p es index (call_at p index)" "fresh_id p index (tc_call_id (call_at p index))" by auto
qed

lemma with_call_id_ok:
  assumes core: "calls_core p es" and at: "c = call_at p index" and ret: "with_call_id p index v c = Inr c'"
  shows "call_ok p es index c'" "fresh_id p index (tc_call_id c')"
    "tc_call_id c = [] \<or> tc_call_id c' = tc_call_id c" "tc_argument_bytes c' = tc_argument_bytes c"
proof -
  note ok = call_ok_at[OF core, of index, folded at]
  consider "c' = c" | s where "s \<noteq> []" "tc_call_id c = [] \<or> tc_call_id c = s" "fresh_id p index s"
      "c' = c\<lparr>tc_id := s, tc_call_id := s\<rparr>"
  proof (cases v)
    case PNone
    then show ?thesis using ret that(1) by (simp add: with_call_id_def)
  next
    case (PStr s)
    then have "\<not> (s = [] \<or> length s > 255 \<or> (tc_call_id c \<noteq> [] \<and> tc_call_id c \<noteq> s)
        \<or> list_ex (\<lambda>(j, other). j \<noteq> index \<and> tc_call_id other = s) (pj_tool_calls p))"
      "c' = c\<lparr>tc_id := s, tc_call_id := s\<rparr>"
      using ret by (simp_all add: with_call_id_def split: if_splits)
    then show ?thesis using that(2)[of s] by (auto simp: fresh_id_def list_ex_iff dest!: map_of_SomeD)
  qed (use ret in \<open>simp_all add: with_call_id_def\<close>)
  then have "call_ok p es index c' \<and> fresh_id p index (tc_call_id c') \<and>
      (tc_call_id c = [] \<or> tc_call_id c' = tc_call_id c) \<and> tc_argument_bytes c' = tc_argument_bytes c"
  proof cases
    case 1
    then show ?thesis using ok by simp
  next
    case (2 s)
    have "argument_deltas s es = []" if "tc_call_id c = []"
    proof (rule ccontr)
      assume "argument_deltas s es \<noteq> []"
      then obtain i d where d: "dict_get (pj_tool_calls p) i = Some d" "tc_call_id d = s"
        using core unfolding calls_core_def known_deltas_def by blast
      then have "i = index" using 2(1,3) unfolding fresh_id_def by blast
      then have "d = c" using d(1) by (simp add: at call_at_def)
      then show False using that d(2) 2(1) by simp
    qed
    moreover have "argument_deltas [] es = []" using core by (auto simp: calls_core_def known_deltas_def)
    ultimately show ?thesis using ok 2 by (auto simp: call_ok_def)
  qed
  then show "call_ok p es index c'" "fresh_id p index (tc_call_id c')"
    "tc_call_id c = [] \<or> tc_call_id c' = tc_call_id c" "tc_argument_bytes c' = tc_argument_bytes c" by auto
qed

lemma with_name_ok:
  assumes "call_ok p es index c" "with_name p index v c = Inr c'"
  shows "call_ok p es index c'" "tc_call_id c' = tc_call_id c" "tc_argument_bytes c' = tc_argument_bytes c"
  using assms by (auto simp: with_name_def call_ok_def Let_def split: pyval.splits if_splits)

lemma with_arguments_ok:
  assumes "call_ok p es index c" "with_arguments spent v c = Inr (spent', c')" "spent \<le> tool_limit"
  shows "call_ok p es index c'" "tc_call_id c' = tc_call_id c"
    "spent' = spent + tc_argument_bytes c' - tc_argument_bytes c"
    "spent' \<le> tool_limit"
  using assms by (auto simp: with_arguments_def call_ok_def split: pyval.splits if_splits)

lemma updated_call_ok:
  assumes core: "calls_core p es" and ret: "updated_call p index d f = Inr (spent, c)"
  shows "calls_core (store_call p index spent c) es" "call_ok p es index c"
proof -
  obtain c0 c1 c2 where f: "find_call p index = Inr c0" and i: "with_call_id p index (get_val d ''id'') c0 = Inr c1"
    and n: "with_name p index (get_val f ''name'') c1 = Inr c2"
    and a: "with_arguments (pj_tool_bytes p) (get_default f ''arguments'' (PStr [])) c2 = Inr (spent, c)"
    using ret by (auto simp: updated_call_def result_bind_Inr)
  have at: "c0 = call_at p index" and place: "placeable p index"
    using f by (auto simp: find_call_def call_at_def placeable_def split: option.splits if_splits)
  note w = with_call_id_ok[OF core at i]
  note m = with_name_ok[OF w(1) n]
  have "pj_tool_bytes p \<le> tool_limit" using core by (simp add: calls_core_def)
  note g = with_arguments_ok[OF m(1) a this]
  show "calls_core (store_call p index spent c) es"
    using calls_core_store[OF core place g(1)] w m g at by simp
  show "call_ok p es index c" by (rule g(1))
qed

text \<open>A call that is known under its index is changed and events about it are sent.\<close>

lemma calls_core_replace:
  assumes core: "calls_core p es" and c: "dict_get (pj_tool_calls p) index = Some c" "tc_call_id c \<noteq> []"
    and q: "same_setup p q" "pj_tool_calls q = dict_set index c' (pj_tool_calls p)" "pj_tool_bytes q = pj_tool_bytes p"
      "set (pj_items_added q) \<subseteq> insert index (set (pj_items_added p))" "set (pj_items_added p) \<subseteq> set (pj_items_added q)"
    and c': "tc_call_id c' = tc_call_id c" "tc_argument_bytes c' = tc_argument_bytes c" "call_ok q (es @ es') index c'"
    and quiet: "\<And>x. x \<noteq> tc_call_id c \<Longrightarrow> argument_deltas x es' = []"
  shows "calls_core q (es @ es')"
proof -
  let ?d = "pj_tool_calls p"
  have dict: "dict_ok ?d" and len: "length ?d \<le> 256" and added: "set (pj_items_added p) \<subseteq> fst ` set ?d"
    and each: "each_call (call_ok p es) ?d" and ids: "distinct_ids ?d" and known: "known_deltas ?d es"
    and total: "pj_tool_bytes p = sum_list (map (tc_argument_bytes \<circ> snd) ?d)" "pj_tool_bytes p \<le> tool_limit"
    using core by (simp_all add: calls_core_def)
  have apart: "tc_call_id d \<noteq> tc_call_id c" if "dict_get ?d j = Some d" "j \<noteq> index" for j d
    using ids that c unfolding distinct_ids_def by metis
  have other: "call_ok q (es @ es') j d" if jd: "dict_get ?d j = Some d" "j \<noteq> index" for j d
  proof -
    have "j \<in> set (pj_items_added q) \<longleftrightarrow> j \<in> set (pj_items_added p)" using q(4,5) jd(2) by auto
    moreover have "argument_deltas (tc_call_id d) (es @ es') = argument_deltas (tc_call_id d) es"
      using quiet[OF apart[OF jd]] by simp
    ultimately have "call_ok q (es @ es') j d \<longleftrightarrow> call_ok p es j d"
      by (simp only: call_ok_def in_scope_same[OF q(1)] resolved_same[OF q(1)])
    then show ?thesis using call_okD[OF core jd(1)] by simp
  qed
  have "each_call (call_ok q (es @ es')) (dict_set index c' ?d)"
    using other c'(3) by (simp add: each_call_def dict_get_set)
  moreover have "distinct_ids (dict_set index c' ?d)"
    using ids apart c'(1) by (intro distinct_ids_set) auto
  moreover have "known_deltas (dict_set index c' ?d) (es @ es')"
    unfolding known_deltas_def
  proof (intro allI impI conjI)
    fix x
    assume x: "argument_deltas x (es @ es') \<noteq> []"
    have "x \<noteq> [] \<and> (\<exists>i e. dict_get (dict_set index c' ?d) i = Some e \<and> tc_call_id e = x)"
    proof (cases "x = tc_call_id c")
      case True
      then show ?thesis using c(2) c'(1) by (auto simp: dict_get_set intro!: exI[of _ index])
    next
      case False
      then have "argument_deltas x es \<noteq> []" using x quiet by simp
      then obtain i e where e: "x \<noteq> []" "dict_get ?d i = Some e" "tc_call_id e = x"
        using known unfolding known_deltas_def by blast
      then have "i \<noteq> index" using False c(1) by auto
      then show ?thesis using e by (auto simp: dict_get_set intro!: exI[of _ i])
    qed
    then show "x \<noteq> []" "\<exists>i e. dict_get (dict_set index c' ?d) i = Some e \<and> tc_call_id e = x" by blast+
  qed
  moreover have "pj_tool_bytes p = sum_list (map (tc_argument_bytes \<circ> snd) (dict_set index c' ?d))"
    using sum_dict_set[OF dict, of tc_argument_bytes index c'] c(1) c'(2) total(1) by simp
  moreover have "set (pj_items_added q) \<subseteq> fst ` set (dict_set index c' ?d)"
    using added q(4) by (auto simp: dom_update)
  ultimately show ?thesis
    using dict len c(1) q(2,3) total(2) by (simp add: calls_core_def length_dict_set)
qed

text \<open>The invariant while an entry is handled, when its arguments may still be waiting.\<close>

definition core_projected :: "projector \<Rightarrow> sse list \<Rightarrow> bool" where
  "core_projected p es \<longleftrightarrow>
     sequence_numbers es = [0..<pj_sequence p] \<and> message_ok p es \<and> calls_core p es \<and>
     (\<forall>e \<in> set es. call_shown_ok p e)"

lemma projected_core: "projected p es \<longleftrightarrow> core_projected p es \<and> each_call (\<lambda>_. flushed) (pj_tool_calls p)"
  by (auto simp: projected_def core_projected_def calls_ok_def)

text \<open>What the steps on a call leave alone.\<close>

definition same_message :: "projector \<Rightarrow> projector \<Rightarrow> bool" where
  "same_message p q \<longleftrightarrow>
     pj_text q = pj_text p \<and> pj_reasoning q = pj_reasoning p \<and> pj_text_bytes q = pj_text_bytes p \<and>
     pj_reasoning_bytes q = pj_reasoning_bytes p \<and> pj_message_open q = pj_message_open p \<and>
     pj_message_closed q = pj_message_closed p \<and> pj_reasoning_open q = pj_reasoning_open p \<and>
     pj_reasoning_closed q = pj_reasoning_closed p"

lemma same_message_trans: "same_message p q \<Longrightarrow> same_message q r \<Longrightarrow> same_message p r"
  by (simp add: same_message_def)

lemma core_projected_step:
  assumes "core_projected p es" "same_setup p q" "same_message p q" "calls_core q (es @ numbered (pj_sequence p) ms)"
    "pj_sequence q = pj_sequence p + length ms" "\<forall>e \<in> set (numbered (pj_sequence p) ms). call_shown_ok p e"
    "text_deltas (pj_message_id p) (numbered (pj_sequence p) ms) = []"
    "reasoning_deltas (pj_reasoning_id p) (numbered (pj_sequence p) ms) = []"
  shows "core_projected q (es @ numbered (pj_sequence p) ms)"
  unfolding core_projected_def
proof (intro conjI)
  show "sequence_numbers (es @ numbered (pj_sequence p) ms) = [0..<pj_sequence q]"
    using assms(1,5) upt_add_eq_append[of 0 "pj_sequence p" "length ms"] by (simp add: core_projected_def)
  show "message_ok q (es @ numbered (pj_sequence p) ms)"
    using assms(1,2,3,7,8) by (simp add: core_projected_def message_ok_def same_setup_def same_message_def)
  show "\<forall>e\<in>set (es @ numbered (pj_sequence p) ms). call_shown_ok q e"
    using assms(1,6) by (simp add: core_projected_def call_shown_same[OF assms(2)] ball_Un)
qed (rule assms)

lemma named_call_fields:
  "tc_call_id (named_call p c) = tc_call_id c" "tc_arguments (named_call p c) = tc_arguments c"
  "tc_pending (named_call p c) = tc_pending c" "tc_id (named_call p c) = tc_id c"
  "tc_argument_bytes (named_call p c) = tc_argument_bytes c" "tc_wire_name (named_call p c) = tc_wire_name c"
  by (simp_all add: named_call_def split: option.splits prod.splits)

lemma named_call_resolved:
  "tc_namespace c = None \<Longrightarrow>
     (tc_namespace (named_call p c), tc_name (named_call p c)) = resolved p (tc_wire_name c)"
  by (simp add: named_call_def resolved_def split: option.splits prod.splits)

lemma call_item_shown:
  assumes "in_scope p w" "(tc_namespace c, tc_name c) = resolved p w"
  shows "call_shown_ok p (Sse t n [(''output_index'', x), (''item'', call_item st a c)])"
proof -
  have "snd (resolved p w) = tc_name c" "fst (resolved p w) = tc_namespace c"
    using assms(2) by (metis snd_conv, metis fst_conv)
  then show ?thesis
    using assms(1)
    by (cases "tc_namespace c") (auto simp: call_shown_ok_def call_item_def get_val_def dict_of_def)
qed

lemma open_tool_call_ok:
  assumes ok: "core_projected p es" and c: "dict_get (pj_tool_calls p) index = Some c"
    and ret: "open_tool_call p index c = Inr (q, c', es')"
  shows "core_projected q (es @ es')" "same_setup p q" "same_message p q" "pj_output q = pj_output p"
    "dict_get (pj_tool_calls q) index = Some c'" "index \<in> set (pj_items_added q)"
    "tc_call_id c' = tc_call_id c" "tc_pending c' = tc_pending c" "tc_arguments c' = tc_arguments c"
    "tc_wire_name c' = tc_wire_name c" "pj_tool_calls q = dict_set index c' (pj_tool_calls p)"
proof -
  have core: "calls_core p es" using ok by (simp add: core_projected_def)
  have okc: "call_ok p es index c" by (rule call_okD[OF core c])
  have "core_projected q (es @ es') \<and> same_setup p q \<and> same_message p q \<and> pj_output q = pj_output p \<and>
    dict_get (pj_tool_calls q) index = Some c' \<and> index \<in> set (pj_items_added q) \<and>
    tc_call_id c' = tc_call_id c \<and> tc_pending c' = tc_pending c \<and> tc_arguments c' = tc_arguments c \<and>
    tc_wire_name c' = tc_wire_name c \<and> pj_tool_calls q = dict_set index c' (pj_tool_calls p)"
  proof (cases "index \<in> set (pj_items_added p)")
    case True
    then have "q = p" "c' = c" "es' = []" using ret by (simp_all add: open_tool_call_def)
    moreover have "dict_set index c (pj_tool_calls p) = pj_tool_calls p"
      using c by (rule dict_set_same)
    ultimately show ?thesis using ok c True by (simp add: same_message_def)
  next
    case False
    define ms where "ms = [(''response.output_item.added'',
         [(''output_index'', nat_val (length (pj_output p) + index)),
          (''item'', call_item ''in_progress'' [] (named_call p c))])]"
    have id: "tc_call_id c \<noteq> []" "tc_wire_name c \<noteq> []" "in_scope p (tc_wire_name c)"
      and q: "q = p\<lparr>pj_items_added := index # pj_items_added p,
          pj_tool_calls := dict_set index c' (pj_tool_calls p), pj_sequence := pj_sequence p + length ms\<rparr>"
      and c': "c' = named_call p c" and es': "es' = numbered (pj_sequence p) ms"
      using ret False by (auto simp: open_tool_call_def emit_all_eq Let_def ms_def split: if_splits)
    have same: "same_setup p q" "same_message p q" by (simp_all add: q same_setup_def same_message_def)
    have quiet: "deltas ty x es' = []" if "ty \<noteq> ''response.output_item.added''" for ty x
      using that by (simp add: es' ms_def deltas_def delta_of_def)
    have "call_ok q (es @ es') index c'"
      using okc id named_call_resolved[of c p] False in_scope_same[OF same(1)] resolved_same[OF same(1)]
      by (auto simp: call_ok_def c' named_call_fields quiet q)
    then have "calls_core q (es @ es')"
      by (intro calls_core_replace[OF core c id(1) same(1)])
        (auto simp: q c' named_call_fields quiet)
    moreover have "call_shown_ok p e" if "e \<in> set es'" for e
      using that call_item_shown[OF id(3) named_call_resolved[of c p]] okc False
      by (simp add: es' ms_def call_ok_def)
    ultimately have "core_projected q (es @ es')"
      unfolding es' by (intro core_projected_step[OF ok same]) (simp_all add: q flip: es' add: quiet)
    then show ?thesis
      using same by (simp add: q c' named_call_fields dict_get_set)
  qed
  then show "core_projected q (es @ es')" "same_setup p q" "same_message p q" "pj_output q = pj_output p"
    "dict_get (pj_tool_calls q) index = Some c'" "index \<in> set (pj_items_added q)"
    "tc_call_id c' = tc_call_id c" "tc_pending c' = tc_pending c" "tc_arguments c' = tc_arguments c"
    "tc_wire_name c' = tc_wire_name c" "pj_tool_calls q = dict_set index c' (pj_tool_calls p)"
    by (simp_all add: dict_get_set)
qed

lemma flush_call_ok:
  assumes ok: "core_projected p es" and c: "dict_get (pj_tool_calls p) index = Some c"
    and rest: "\<And>j d. dict_get (pj_tool_calls p) j = Some d \<Longrightarrow> j \<noteq> index \<Longrightarrow> flushed d"
    and ret: "flush_call p index c = Inr (q, es')"
  shows "projected q (es @ es') \<and> same_setup p q \<and> same_message p q \<and> pj_output q = pj_output p"
proof (cases "flushed c")
  case True
  then have "q = p" "es' = []" using ret by (simp_all add: flush_call_def flushed_def disj_commute disj_left_commute split: if_splits)
  moreover have "each_call (\<lambda>_. flushed) (pj_tool_calls p)"
    unfolding each_call_def using True c rest by (metis option.inject)
  ultimately show ?thesis using ok by (simp add: projected_core same_message_def)
next
  case False
  then obtain p1 c1 es1 where o: "open_tool_call p index c = Inr (p1, c1, es1)"
    using ret by (auto simp: flush_call_def flushed_def result_bind_Inr)
  note op = open_tool_call_ok[OF ok c o]
  define ms where "ms = [(''response.function_call_arguments.delta'',
      [(''item_id'', PStr (tc_call_id c1)), (''output_index'', nat_val (length (pj_output p1) + index)),
       (''delta'', PStr (tc_pending c1))])]"
  let ?c = "c1\<lparr>tc_pending := []\<rparr>" and ?es = "numbered (pj_sequence p1) ms"
  have q: "q = p1\<lparr>pj_tool_calls := dict_set index ?c (pj_tool_calls p1), pj_sequence := pj_sequence p1 + length ms\<rparr>"
    and es': "es' = es1 @ ?es"
    using ret False o by (auto simp: flush_call_def flushed_def emit_all_eq ms_def)
  have same: "same_setup p1 q" "same_message p1 q" by (simp_all add: q same_setup_def same_message_def)
  have core: "calls_core p1 (es @ es1)" using op(1) by (simp add: core_projected_def)
  have id: "tc_call_id c1 \<noteq> []" using False op(7) by (simp add: flushed_def)
  have args: "argument_deltas (tc_call_id c1) ?es = tc_pending c1"
    by (simp add: ms_def deltas_def delta_of_def get_val_def the_str_def)
  have quiet: "argument_deltas x ?es = []" if "x \<noteq> tc_call_id c1" for x
    using that by (simp add: ms_def deltas_def delta_of_def get_val_def)
  have other: "text_deltas x ?es = []" "reasoning_deltas x ?es = []" for x
    by (simp_all add: ms_def deltas_def delta_of_def)
  have "call_ok p1 (es @ es1) index c1" by (rule call_okD[OF core op(5)])
  then have "call_ok q ((es @ es1) @ ?es) index ?c"
    using args op(6) in_scope_same[OF same(1)] resolved_same[OF same(1)]
    by (auto simp: call_ok_def q)
  then have "calls_core q ((es @ es1) @ ?es)"
    by (intro calls_core_replace[OF core op(5) id same(1)]) (auto simp: q quiet)
  moreover have "\<forall>e \<in> set ?es. call_shown_ok p1 e"
    by (simp add: ms_def call_shown_ok_def get_val_def dict_of_def)
  ultimately have "core_projected q ((es @ es1) @ ?es)"
    by (intro core_projected_step[OF op(1) same]) (simp_all add: q other)
  moreover have "each_call (\<lambda>_. flushed) (pj_tool_calls q)"
    using rest op(11) by (auto simp: each_call_def q dict_get_set flushed_def)
  ultimately show ?thesis
    using same_setup_trans[OF op(2) same(1)] same_message_trans[OF op(3) same(2)] op(4)
    by (auto simp: projected_core es' q)
qed

lemma streaming_same:
  "same_setup p q \<Longrightarrow> same_message p q \<Longrightarrow> pj_output q = pj_output p \<Longrightarrow> streaming p \<Longrightarrow> streaming q"
  by (auto simp: streaming_def same_setup_def same_message_def reasoning_item_def split: if_splits)

lemma store_call_same:
  "same_setup p (store_call p index spent c)" "same_message p (store_call p index spent c)"
  "pj_output (store_call p index spent c) = pj_output p"
  by (simp_all add: store_call_def same_setup_def same_message_def)

lemma core_projected_store:
  assumes "core_projected p es" "updated_call p index d f = Inr (spent, c)"
  shows "core_projected (store_call p index spent c) es"
proof -
  note same = store_call_same[of p index spent c]
  have "pj_sequence (store_call p index spent c) = pj_sequence p" by (simp add: store_call_def)
  moreover have "message_ok (store_call p index spent c) es = message_ok p es"
    by (simp add: message_ok_def store_call_def)
  moreover have "calls_core (store_call p index spent c) es"
    using assms updated_call_ok(1) by (auto simp: core_projected_def)
  ultimately show ?thesis
    using assms(1) call_shown_same[OF same(1)] by (simp add: core_projected_def)
qed

lemma keeps_tool_call_entry: "keeps_result p (tool_call_entry p raw)"
proof (cases "tool_call_entry p raw")
  case (Inr r)
  obtain q es' where r: "r = (q, es')" by force
  obtain d where d: "raw = PDict d" using Inr by (cases raw) (simp_all add: tool_call_entry_def)
  then obtain f where "get_val d ''function'' = PDict f"
    using Inr by (cases "get_val d ''function''") (simp_all add: tool_call_entry_def result_bind_Inr)
  with d obtain index spent c where u: "updated_call p index d f = Inr (spent, c)"
    and fl: "flush_call (store_call p index spent c) index c = Inr (q, es')"
    using Inr r by (auto simp: tool_call_entry_def result_bind_Inr)
  let ?p = "store_call p index spent c"
  have step: "projected q (es @ es') \<and> same_setup ?p q \<and> same_message ?p q \<and> pj_output q = pj_output ?p"
    if "projected p es" for es
  proof (rule flush_call_ok[OF _ _ _ fl])
    show "core_projected ?p es" using core_projected_store[OF _ u] that by (simp add: projected_core)
    show "dict_get (pj_tool_calls ?p) index = Some c" by (simp add: store_call_def dict_get_set)
    show "flushed e" if "dict_get (pj_tool_calls ?p) j = Some e" "j \<noteq> index" for j e
      using \<open>projected p es\<close> that by (simp add: projected_core each_call_def store_call_def dict_get_set)
  qed
  have same: "same_setup ?p q \<and> same_message ?p q \<and> pj_output q = pj_output ?p"
    using fl by (auto simp: flush_call_def open_tool_call_def emit_all_eq Let_def same_setup_def
        same_message_def result_bind_Inr split: if_splits)
  then have "same_setup p q" "same_message p q" "pj_output q = pj_output p"
    using store_call_same[of p index spent c] same_setup_trans same_message_trans by metis+
  then have "keeps p (q, es')"
    using step streaming_same by (auto simp: keeps_def)
  then show ?thesis using Inr r by (simp add: keeps_result_def)
qed (simp add: keeps_result_def)

lemma keeps_result_bind:
  assumes "keeps_result p r" "\<And>q es. keeps_result q (f q)"
  shows "keeps_result p (result_bind r (\<lambda>(q, es). result_bind (f q) (\<lambda>(q', es'). Inr (q', es @ es'))))"
proof (cases r)
  case (Inr x)
  then obtain q es where x: "x = (q, es)" "keeps p (q, es)" using assms(1) by (cases x) (simp add: keeps_result_def)
  show ?thesis using keeps_resultI[OF x(2) assms(2)] Inr x(1) by simp
qed (simp add: keeps_result_def)

lemma keeps_tool_call_entries: "keeps_result p (tool_call_entries p raws)"
proof (induction raws arbitrary: p)
  case (Cons raw raws)
  show ?case
    unfolding tool_call_entries.simps by (rule keeps_result_bind[OF keeps_tool_call_entry Cons.IH])
qed (simp add: keeps_result_def)

lemma keeps_tool_call_delta: "keeps_result p (tool_call_delta p raw_calls)"
proof (cases raw_calls)
  case (PList raws)
  obtain q es where "close_reasoning p = (q, es)" by force
  then show ?thesis
    using keeps_close_reasoning[of p] keeps_resultI[OF _ keeps_tool_call_entries] PList
    by (simp add: tool_call_delta_def)
qed (simp_all add: tool_call_delta_def keeps_result_def)

section \<open>Completing a stream\<close>

lemma close_tool_call_ok:
  assumes ok: "projected p es" and c: "dict_get (pj_tool_calls p) index = Some c"
    and ret: "close_tool_call base p index c = Inr (q, es')"
  obtains c' where "projected q (es @ es')" "same_setup p q" "same_message p q" "index \<in> set (pj_items_added q)"
    "pj_tool_calls q = dict_set index c' (pj_tool_calls p)"
    "pj_output q = pj_output p @ [call_item ''completed'' (tc_arguments c') c']"
proof -
  obtain p1 c1 es1 where o: "open_tool_call p index c = Inr (p1, c1, es1)"
    using ret by (auto simp: close_tool_call_def result_bind_Inr)
  have core: "core_projected p es" using ok by (simp add: projected_core)
  note op = open_tool_call_ok[OF core c o]
  let ?item = "call_item ''completed'' (tc_arguments c1) c1"
  define ms where "ms = [(''response.function_call_arguments.done'',
       [(''item_id'', PStr (tc_call_id c1)), (''output_index'', nat_val (base + index)),
        (''name'', PStr (tc_name c1)), (''arguments'', PStr (tc_arguments c1))]),
     (''response.output_item.done'', [(''output_index'', nat_val (base + index)), (''item'', ?item)])]"
  let ?es = "numbered (pj_sequence p1) ms"
  have q: "q = p1\<lparr>pj_output := pj_output p1 @ [?item], pj_sequence := pj_sequence p1 + length ms\<rparr>"
    and es': "es' = es1 @ ?es"
    using ret o by (auto simp: close_tool_call_def emit_all_eq ms_def)
  have same: "same_setup p1 q" "same_message p1 q" by (simp_all add: q same_setup_def same_message_def)
  have core1: "calls_core p1 (es @ es1)" using op(1) by (simp add: core_projected_def)
  have quiet: "argument_deltas x ?es = []" "text_deltas x ?es = []" "reasoning_deltas x ?es = []" for x
    by (simp_all add: ms_def deltas_def delta_of_def)
  have "calls_core q ((es @ es1) @ ?es)"
    by (rule calls_core_silent[OF core1 quiet(1) same(1)]) (simp_all add: q)
  moreover have "call_shown_ok p1 e" if "e \<in> set ?es" for e
    using that call_okD[OF core1 op(5)] op(6) call_item_shown[of p1 "tc_wire_name c1" c1]
    by (auto simp: ms_def call_ok_def call_shown_ok_def get_val_def dict_of_def)
  ultimately have "core_projected q ((es @ es1) @ ?es)"
    by (intro core_projected_step[OF op(1) same]) (simp_all add: q quiet)
  moreover have "flushed c1"
    using ok c op(7,8,10) by (auto simp: projected_core each_call_def flushed_def)
  then have "each_call (\<lambda>_. flushed) (pj_tool_calls q)"
    using ok op(11) by (auto simp: projected_core each_call_def q dict_get_set)
  ultimately have "projected q (es @ es')" by (auto simp: projected_core es')
  then show ?thesis
    using that[of c1] same_setup_trans[OF op(2) same(1)] same_message_trans[OF op(3) same(2)] op(4,6,11)
    by (simp add: q)
qed

text \<open>The item of the call with an index.\<close>

definition closed_item :: "projector \<Rightarrow> nat \<Rightarrow> pyval" where
  "closed_item p i = (let c = call_at p i in call_item ''completed'' (tc_arguments c) c)"

lemma map_fst_dict_set: "dict_get d k = Some w \<Longrightarrow> map fst (dict_set k v d) = map fst d"
  by (induction d) (auto split: if_splits)

lemma close_each_call_ok:
  assumes "projected p es" "distinct (map fst cs)" "\<And>i c. (i, c) \<in> set cs \<Longrightarrow> dict_get (pj_tool_calls p) i = Some c"
    "close_each_call base p cs = Inr (q, es')"
  shows "projected q (es @ es') \<and> same_setup p q \<and> same_message p q \<and>
    map fst (pj_tool_calls q) = map fst (pj_tool_calls p) \<and>
    (\<forall>i. i \<notin> fst ` set cs \<longrightarrow> dict_get (pj_tool_calls q) i = dict_get (pj_tool_calls p) i) \<and>
    set (pj_items_added p) \<subseteq> set (pj_items_added q) \<and> fst ` set cs \<subseteq> set (pj_items_added q) \<and>
    pj_output q = pj_output p @ map (closed_item q) (map fst cs)"
  using assms
proof (induction cs arbitrary: p es es')
  case Nil
  then show ?case by (simp add: same_message_def)
next
  case (Cons x cs)
  obtain index c where x: "x = (index, c)" by force
  obtain p1 es1 es2 where one: "close_tool_call base p index c = Inr (p1, es1)"
    and rest: "close_each_call base p1 cs = Inr (q, es2)" and es': "es' = es1 @ es2"
    using Cons.prems(4) by (auto simp: x result_bind_Inr)
  have c: "dict_get (pj_tool_calls p) index = Some c" using Cons.prems(3) by (simp add: x)
  obtain c' where s: "projected p1 (es @ es1)" "same_setup p p1" "same_message p p1"
    "index \<in> set (pj_items_added p1)" "pj_tool_calls p1 = dict_set index c' (pj_tool_calls p)"
    "pj_output p1 = pj_output p @ [call_item ''completed'' (tc_arguments c') c']"
    using close_tool_call_ok[OF Cons.prems(1) c one] by metis
  have added: "set (pj_items_added p) \<subseteq> set (pj_items_added p1)"
    using one by (auto simp: close_tool_call_def open_tool_call_def emit_all_eq result_bind_Inr Let_def split: if_splits)
  have index: "index \<notin> fst ` set cs" using Cons.prems(2) by (simp add: x)
  have "dict_get (pj_tool_calls p1) i = Some d" if "(i, d) \<in> set cs" for i d
    using Cons.prems(3)[of i d] that index by (force simp: s(5) dict_get_set)
  note IH = Cons.IH[OF s(1) _ this rest]
  have dist: "distinct (map fst cs)" using Cons.prems(2) by simp
  have at: "closed_item q index = call_item ''completed'' (tc_arguments c') c'"
    using IH[OF dist] index by (simp add: closed_item_def call_at_def s(5) dict_get_set)
  show ?case
    using IH[OF dist] s same_setup_trans[OF s(2), of q] same_message_trans[OF s(3), of q] added
      map_fst_dict_set[OF c, of c'] at
    by (auto simp: x es' dict_get_set)
qed

lemma map_fst_sort_key: "map fst (sort_key fst d) = sort (map fst d)"
proof -
  have "map fst (insort_key fst x xs) = insort (fst x) (map fst xs)" for x :: "'a :: linorder \<times> 'b" and xs
    by (induction xs) auto
  then show ?thesis by (induction d) simp_all
qed

lemma close_message_ok:
  assumes "projected p es" "close_message p = (q, es')" "\<not> pj_message_closed p"
  shows "projected q (es @ es') \<and> same_setup p q \<and> pj_tool_calls q = pj_tool_calls p \<and>
    pj_items_added q = pj_items_added p \<and> pj_text q = pj_text p \<and> pj_reasoning q = pj_reasoning p \<and>
    pj_message_open q = pj_message_open p \<and> pj_reasoning_closed q = pj_reasoning_closed p \<and>
    pj_usage q = pj_usage p \<and>
    pj_output q = pj_output p @ (if pj_message_open p then [message_item p] else [])"
proof (cases "pj_message_open p")
  case True
  define ms where "ms = [(''response.output_text.done'',
       [(''item_id'', PStr (pj_message_id p)), (''output_index'', nat_val (length (pj_output p))),
        (''content_index'', PInt 0), (''text'', PStr (pj_text p)), (''logprobs'', PList [])]),
     (''response.content_part.done'',
       [(''item_id'', PStr (pj_message_id p)), (''output_index'', nat_val (length (pj_output p))),
        (''content_index'', PInt 0), (''part'', message_part p)]),
     (''response.output_item.done'',
       [(''output_index'', nat_val (length (pj_output p))), (''item'', message_item p)])]"
  let ?p = "p\<lparr>pj_output := pj_output p @ [message_item p], pj_message_closed := True\<rparr>"
  have q: "q = ?p\<lparr>pj_sequence := pj_sequence ?p + length ms\<rparr>" "es' = numbered (pj_sequence p) ms"
    using assms(2,3) True by (simp_all add: close_message_def Let_def emit_all_eq ms_def)
  have "projected q (es @ es')"
    unfolding q
    by (rule projected_emit[OF _ _ _ _ _ _ _ assms(1)])
      (auto simp: ms_def event_simps message_ok_def message_item_def)
  then show ?thesis using True by (simp add: q same_setup_def)
qed (use assms in \<open>simp add: close_message_def\<close>)

text \<open>The output of a completed stream: the reasoning, the calls by their index, the message.\<close>

definition final_output :: "projector \<Rightarrow> string \<Rightarrow> pyval list" where
  "final_output q r =
     (if pj_reasoning_closed q then [reasoning_item (q\<lparr>pj_reasoning := r\<rparr>)] else [])
     @ map (closed_item q) (sort (map fst (pj_tool_calls q)))
     @ (if pj_message_open q then [message_item q] else [])"

lemma closed_item_cong: "pj_tool_calls q = pj_tool_calls p \<Longrightarrow> closed_item q = closed_item p"
  by (simp add: fun_eq_iff closed_item_def call_at_def)

lemma complete_ok:
  assumes ok: "projected p es" and st: "streaming p" and ret: "complete canon now p = Inr (q, es')"
  obtains r es1 u where "prefix r (pj_reasoning q)" "pj_output q = final_output q r" "same_setup p q"
    "fst ` set (pj_tool_calls q) \<subseteq> set (pj_items_added q)"
    "es' = es1 @ [SseDone]" "projected q (es @ es1)"
    "last es1 = Sse ''response.completed'' (pj_sequence q - 1) (snd (completed_event now u q))" "es1 \<noteq> []"
    "pj_usage q = Some u"
proof -
  obtain p1 e1 where c1: "close_reasoning p = (p1, e1)" by force
  obtain p2 e2 where c2: "close_tool_calls p1 = Inr (p2, e2)"
    using ret by (auto simp: complete_def c1 result_bind_Inr)
  obtain p3 e3 where c3: "close_message p2 = (p3, e3)" by force
  define u where "u = final_usage canon p3"
  have q: "q = p3\<lparr>pj_usage := Some u, pj_sequence := Suc (pj_sequence p3)\<rparr>"
    and es': "es' = (e1 @ e2 @ e3 @ numbered (pj_sequence p3) [completed_event now u p3]) @ [SseDone]"
    using ret by (auto simp: complete_def c1 c2 c3 Let_def emit_all_eq u_def split: if_splits)
  have k1: "same_setup p p1" "streaming p1" "projected p1 (es @ e1)"
    using keeps_close_reasoning[of p] ok st by (auto simp: keeps_def c1)
  have "dict_ok (pj_tool_calls p1)" using k1(3) by (simp add: projected_def calls_ok_def calls_core_def)
  then have dist: "distinct (map fst (sort_key fst (pj_tool_calls p1)))"
    and get: "\<And>i c. (i, c) \<in> set (sort_key fst (pj_tool_calls p1)) \<Longrightarrow> dict_get (pj_tool_calls p1) i = Some c"
    by (simp_all add: map_fst_sort_key dict_ok_def distinct_sort)
  note k2 = close_each_call_ok[OF k1(3) dist get c2[unfolded close_tool_calls_def]]
  have "\<not> pj_message_closed p2" using k1(2) k2 by (simp add: streaming_def same_message_def)
  moreover have "projected p2 (es @ e1 @ e2)" using k2 by simp
  ultimately have m: "projected p3 ((es @ e1 @ e2) @ e3) \<and> same_setup p2 p3 \<and> pj_tool_calls p3 = pj_tool_calls p2 \<and>
    pj_items_added p3 = pj_items_added p2 \<and> pj_text p3 = pj_text p2 \<and> pj_reasoning p3 = pj_reasoning p2 \<and>
    pj_message_open p3 = pj_message_open p2 \<and> pj_reasoning_closed p3 = pj_reasoning_closed p2 \<and>
    pj_usage p3 = pj_usage p2 \<and>
    pj_output p3 = pj_output p2 @ (if pj_message_open p2 then [message_item p2] else [])"
    using close_message_ok[OF _ c3] by blast
  have k3: "projected p3 ((es @ e1 @ e2) @ e3)" using m by simp
  have fields: "same_setup p2 p3" "pj_tool_calls p3 = pj_tool_calls p2" "pj_items_added p3 = pj_items_added p2"
    "pj_text p3 = pj_text p2" "pj_reasoning p3 = pj_reasoning p2" "pj_message_open p3 = pj_message_open p2"
    "pj_reasoning_closed p3 = pj_reasoning_closed p2"
    "pj_output p3 = pj_output p2 @ (if pj_message_open p2 then [message_item p2] else [])"
    using m by simp_all
  have "projected (p3\<lparr>pj_usage := Some u, pj_sequence := pj_sequence (p3\<lparr>pj_usage := Some u\<rparr>) + length [completed_event now u p3]\<rparr>)
      (((es @ e1 @ e2) @ e3) @ numbered (pj_sequence p3) [completed_event now u p3])"
    using projected_emit[OF _ _ _ _ _ _ _ k3, of "p3\<lparr>pj_usage := Some u\<rparr>" "[completed_event now u p3]"]
    by (simp add: event_simps message_ok_def completed_event_def)
  then have proj: "projected q (es @ e1 @ e2 @ e3 @ numbered (pj_sequence p3) [completed_event now u p3])"
    by (simp add: q)
  obtain r where r: "prefix r (pj_reasoning p1)"
    "pj_output p1 = (if pj_reasoning_closed p1 then [reasoning_item (p1\<lparr>pj_reasoning := r\<rparr>)] else [])"
    using k1(2) by (cases "pj_reasoning_closed p1") (auto simp: streaming_def)
  have "pj_output q = final_output q r"
    using r(2) k2 fields
    by (simp add: q final_output_def reasoning_item_def message_item_def message_part_def map_fst_sort_key
        closed_item_def call_at_def same_setup_def same_message_def fun_eq_iff)
  moreover have "prefix r (pj_reasoning q)" using r(1) k2 fields by (simp add: q same_message_def)
  moreover have "same_setup p q"
    using k1(1) k2 fields(1) by (simp add: same_setup_def q)
  moreover have "fst ` set (pj_tool_calls q) \<subseteq> set (pj_items_added q)"
  proof -
    have "fst ` set (sort_key fst (pj_tool_calls p1)) = fst ` set (pj_tool_calls p2)"
      using k2 by (metis set_map set_sort)
    then show ?thesis using k2 fields by (simp add: q)
  qed
  ultimately show ?thesis
    using that[of r "e1 @ e2 @ e3 @ numbered (pj_sequence p3) [completed_event now u p3]" u] proj es'
    by (simp add: q completed_event_def)
qed

section \<open>A whole stream\<close>

definition sends :: "projector \<Rightarrow> sending \<Rightarrow> bool" where
  "sends p s \<longleftrightarrow>
     (\<forall>es. projected p es \<longrightarrow> (\<exists>q. same_setup p q \<and> projected q (es @ fst s))) \<and>
     (\<forall>q. snd s = Inr q \<longrightarrow> keeps p (q, fst s))"

lemma sends_idle [simp]: "sends p ([], Inr p)" "sends p ([], Inl e)"
  by (auto simp: sends_def intro: exI[of _ p])

lemma sends_send: "keeps_result p r \<Longrightarrow> sends p (send r)"
  by (cases r) (auto simp: sends_def send_def keeps_result_def keeps_def intro: exI[of _ p])

lemma sends_seq:
  assumes "keeps p (q, es)" "sends q (es', r)"
  shows "sends p (es @ es', r)"
proof -
  have "\<exists>q'. same_setup p q' \<and> projected q' (es0 @ es @ es')" if "projected p es0" for es0
    using assms that same_setup_trans[of p q] by (fastforce simp: sends_def keeps_def simp flip: append_assoc)
  then show ?thesis using assms keeps_trans by (auto simp: sends_def)
qed

lemma sends_and_then:
  assumes "sends p s" "\<And>q. sends q (f q)"
  shows "sends p (and_then s f)"
proof (cases s)
  case (Pair es r)
  show ?thesis
  proof (cases r)
    case (Inr q)
    then have "keeps p (q, es)" using assms(1) Pair by (simp add: sends_def)
    moreover obtain es' r' where "f q = (es', r')" by force
    ultimately show ?thesis using sends_seq assms(2)[of q] Pair Inr by (simp add: and_then_def)
  qed (use assms(1) Pair in \<open>simp add: and_then_def sends_def\<close>)
qed

lemma sends_project_delta: "sends p (project_delta d p)"
  unfolding project_delta_def
  by (intro sends_and_then)
    (auto simp: sends_send keeps_tool_call_delta keeps_reasoning_delta keeps_text_delta split: pyval.splits)

lemma sends_project_choice: "sends p (fst (project_choice v p))"
  by (auto simp: project_choice_def sends_project_delta split: pyval.splits sum.splits)

lemma sends_project_choices: "sends p (fst (project_choices vs p seen))"
proof (induction vs arbitrary: p seen)
  case (Cons v vs)
  obtain es r b where c: "project_choice v p = ((es, r), b)" by (metis prod.exhaust)
  then have s: "sends p (es, r)" using sends_project_choice[of p v] by simp
  show ?case
  proof (cases r)
    case (Inr q)
    obtain es' r' b' where d: "project_choices vs q (seen \<or> b) = ((es', r'), b')" by (metis prod.exhaust)
    have "keeps p (q, es)" using s Inr by (simp add: sends_def)
    then show ?thesis using sends_seq Cons.IH[of q "seen \<or> b"] by (simp add: c d Inr)
  qed (use s c in simp)
qed simp

lemma sends_set_usage: "sends (set_usage v p) s \<Longrightarrow> sends p s"
  using sends_seq[OF keeps_set_usage, of v p "fst s" "snd s"] by simp

lemma sends_project_payload: "sends p (fst (project_payload loads payload p seen))"
proof (cases "loads payload")
  case (Some v)
  show ?thesis
  proof (cases v)
    case (PDict d)
    let ?q = "set_usage (get_val d ''usage'') p"
    have "sends ?q (fst (case get_val d ''choices'' of PList vs \<Rightarrow> project_choices vs ?q seen | _ \<Rightarrow> (([], Inr ?q), seen)))"
      by (simp add: sends_project_choices split: pyval.splits)
    from sends_set_usage[OF this] show ?thesis
      using Some PDict by (simp add: project_payload_def Let_def)
  qed (simp_all add: project_payload_def Some)
qed (simp add: project_payload_def)

lemma sends_project_lines: "sends p (fst (project_lines loads lines p seen))"
proof (induction lines arbitrary: p seen)
  case (Cons line lines)
  let ?payload = "py_strip (drop 5 line)"
  obtain es r b where c: "project_payload loads ?payload p seen = ((es, r), b)" by (metis prod.exhaust)
  then have s: "sends p (es, r)" using sends_project_payload[of p loads ?payload seen] by simp
  consider "\<not> starts_with line ''data:'' \<or> ?payload = []" | "starts_with line ''data:''" "?payload = ''[DONE]''"
    | "starts_with line ''data:''" "?payload \<noteq> []" "?payload \<noteq> ''[DONE]''" by blast
  then show ?case
  proof cases
    case 3
    show ?thesis
    proof (cases r)
      case (Inr q)
      obtain es' r' b' where d: "project_lines loads lines q b = ((es', r'), b')" by (metis prod.exhaust)
      have "keeps p (q, es)" using s Inr by (simp add: sends_def)
      then show ?thesis using 3 sends_seq Cons.IH[of q b] by (simp add: c d Inr)
    qed (use s c 3 in simp)
  qed (use Cons.IH in \<open>simp_all\<close>)
qed simp

lemma keeps_created: "keeps p (case created t p of (q, e) \<Rightarrow> (q, [e]))"
proof -
  define fs where "fs = [(''response'', PDict [(''id'', PStr (pj_response_id p)), (''object'', PStr ''response''),
        (''created_at'', PInt t), (''status'', PStr ''in_progress''),
        (''model'', PStr (pj_model_id p)), (''output'', PList [])])]"
  have "keeps p (emit_all p [(''response.created'', fs)])"
    by (intro keeps_emitI) (auto simp: fs_def event_simps message_ok_def)
  then show ?thesis by (simp add: created_def emit_def fs_def)
qed

lemma projected_fresh:
  "projected (mk_projector m est al allowed u1 u2 u3) []" "streaming (mk_projector m est al allowed u1 u2 u3)"
  by (simp_all add: projected_def mk_projector_def message_ok_def calls_ok_def calls_core_def
      each_call_def distinct_ids_def known_deltas_def sequence_numbers_def text_limit_def tool_limit_def
      streaming_def)

lemma chat_stream_log:
  fixes loads canon t0 t1 lines m est al allowed u1 u2 u3
  defines "p0 \<equiv> mk_projector m est al allowed u1 u2 u3"
  assumes run: "chat_stream loads canon t0 t1 lines p0 = (sent, r)"
  shows "\<exists>q es. same_setup p0 q \<and> projected q es \<and> (sent = es \<or> sent = es @ [SseDone])" (is ?any)
    and "r = Inr q \<Longrightarrow> \<exists>x r' es1 u. prefix r' (pj_reasoning q) \<and> pj_output q = final_output q r' \<and> same_setup p0 q \<and>
      fst ` set (pj_tool_calls q) \<subseteq> set (pj_items_added q) \<and> sent = x @ es1 @ [SseDone] \<and> projected q (x @ es1) \<and>
      last es1 = Sse ''response.completed'' (pj_sequence q - 1) (snd (completed_event t1 u q)) \<and> es1 \<noteq> [] \<and>
      pj_usage q = Some u" (is "_ \<Longrightarrow> ?whole")
proof -
  obtain p1 e where c: "created t0 p0 = (p1, e)" by force
  obtain es r1 seen where l: "project_lines loads lines p1 False = ((es, r1), seen)" by (metis prod.exhaust)
  have s: "sends p1 (es, r1)" using sends_project_lines[of p1 loads lines False] l by simp
  have start: "same_setup p0 p1" "streaming p1" "projected p1 [e]"
    using keeps_created[of p0 t0] projected_fresh[of m est al allowed u1 u2 u3]
    unfolding c p0_def[symmetric] by (auto simp: keeps_def dest: spec[of _ "[]"])
  have "?any \<and> (r = Inr q \<longrightarrow> ?whole)"
  proof (cases r1)
    case (Inl x)
    then have "sent = e # es" "r = Inl x" using run by (auto simp: chat_stream_def c l and_then_def)
    moreover obtain q' where "same_setup p1 q'" "projected q' ([e] @ es)"
      using s start(3) by (auto simp: sends_def)
    ultimately show ?thesis using same_setup_trans[OF start(1)] by fastforce
  next
    case (Inr q1)
    then have k: "keeps p1 (q1, es)" using s by (simp add: sends_def)
    have k1: "same_setup p0 q1" "streaming q1" "projected q1 ([e] @ es)"
      using k start same_setup_trans[OF start(1), of q1] by (auto simp: keeps_def)
    show ?thesis
    proof (cases "\<exists>x. seen \<and> complete canon t1 q1 = Inr x")
      case False
      then have "sent = [e] @ es" "\<exists>x. r = Inl x"
        using run Inr by (auto simp: chat_stream_def c l and_then_def send_def split: if_splits sum.splits)
      then show ?thesis using k1 by fastforce
    next
      case True
      then obtain q2 es2 where q2: "seen" "complete canon t1 q1 = Inr (q2, es2)" by force
      then have sent: "sent = ([e] @ es) @ es2" "r = Inr q2"
        using run Inr by (simp_all add: chat_stream_def c l and_then_def send_def)
      obtain r' es1 u where d: "prefix r' (pj_reasoning q2)" "pj_output q2 = final_output q2 r'" "same_setup q1 q2"
        "fst ` set (pj_tool_calls q2) \<subseteq> set (pj_items_added q2)" "es2 = es1 @ [SseDone]"
        "projected q2 (([e] @ es) @ es1)"
        "last es1 = Sse ''response.completed'' (pj_sequence q2 - 1) (snd (completed_event t1 u q2))" "es1 \<noteq> []"
        "pj_usage q2 = Some u"
        using complete_ok[OF k1(3,2) q2(2)] by blast
      have same: "same_setup p0 q2" using same_setup_trans[OF k1(1) d(3)] .
      have ?any using same d(5,6) sent(1) by (intro exI[of _ q2] exI[of _ "([e] @ es) @ es1"]) simp
      moreover have ?whole if "r = Inr q"
      proof -
        have "q2 = q" using that sent(2) by simp
        then show ?thesis using same d sent(1) by (intro exI[of _ "[e] @ es"] exI[of _ r'] exI[of _ es1] exI[of _ u]) simp
      qed
      ultimately show ?thesis by blast
    qed
  qed
  then show ?any "r = Inr q \<Longrightarrow> ?whole" by blast+
qed

lemma settled_call:
  assumes "projected q es" "(i, c) \<in> set (pj_tool_calls q)" "i \<in> set (pj_items_added q)"
  shows "tc_arguments c = argument_deltas (tc_call_id c) es"
proof -
  have core: "calls_core q es" and all: "each_call (\<lambda>_. flushed) (pj_tool_calls q)"
    using assms(1) by (simp_all add: projected_def calls_ok_def)
  then have get: "dict_get (pj_tool_calls q) i = Some c"
    using assms(2) by (simp add: calls_core_def dict_get_iff)
  then have "flushed c" using all unfolding each_call_def by blast
  then show ?thesis using call_okD[OF core get] assms(3) by (auto simp: call_ok_def flushed_def)
qed

lemma deltas_done: "deltas ty x (es @ [SseDone]) = deltas ty x es"
  by (simp add: deltas_def delta_of_def)

text \<open>
  C30: The client's view is complete. When a stream ends well, its events are numbered without gaps from zero
  and the last is the completed response; the text of the message, and the arguments of every tool call,
  are what the deltas of that item spell, and the output is the reasoning, the calls by their index and the
  message. The reasoning of the output is only known to be a beginning of what was sent.\<close>

theorem projected_stream_rebuilds_items:
  assumes "chat_stream loads canon t0 t1 lines (mk_projector m est al allowed u1 u2 u3) = (sent, Inr q)"
  shows "\<exists>es r u. sent = es @ [Sse ''response.completed'' (length es) (snd (completed_event t1 u q)), SseDone]
     \<and> sequence_numbers sent = [0..<Suc (length es)]
     \<and> pj_output q = final_output q r \<and> prefix r (reasoning_deltas (pj_reasoning_id q) sent)
     \<and> pj_text q = text_deltas (pj_message_id q) sent \<and> pj_usage q = Some u
     \<and> (\<forall>(i, c) \<in> set (pj_tool_calls q). tc_arguments c = argument_deltas (tc_call_id c) sent)"
proof -
  obtain x r es1 u where d: "prefix r (pj_reasoning q)" "pj_output q = final_output q r"
    "fst ` set (pj_tool_calls q) \<subseteq> set (pj_items_added q)" "sent = x @ es1 @ [SseDone]" "projected q (x @ es1)"
    "last es1 = Sse ''response.completed'' (pj_sequence q - 1) (snd (completed_event t1 u q))" "es1 \<noteq> []"
    "pj_usage q = Some u"
    using chat_stream_log(2)[OF assms refl] by blast
  have count: "length (sequence_numbers es) = length es" if "\<forall>e \<in> set es. call_shown_ok q e" for es
    using that by (induction es) (auto simp: sequence_numbers_def call_shown_ok_def split: sse.splits)
  have seq: "sequence_numbers (x @ es1) = [0..<pj_sequence q]" using d(5) by (simp add: projected_def)
  then have len: "pj_sequence q = length (x @ es1)"
    using count[of "x @ es1"] d(5) unfolding projected_def by (metis diff_zero length_upt)
  have es1: "es1 = butlast es1 @ [last es1]" using d(7) by simp
  let ?es = "x @ butlast es1"
  have "length ?es = pj_sequence q - 1" using len d(7) by (cases es1) simp_all
  then have "sent = ?es @ [Sse ''response.completed'' (length ?es) (snd (completed_event t1 u q)), SseDone]"
    using d(4,6) es1 by (metis append.assoc append_Cons append_Nil)
  moreover have "sequence_numbers sent = [0..<Suc (length ?es)]"
  proof -
    have "sequence_numbers sent = sequence_numbers (x @ es1)" by (simp add: d(4) sequence_numbers_def)
    moreover have "Suc (length ?es) = pj_sequence q" using \<open>length ?es = _\<close> len d(7) by (cases es1) simp_all
    ultimately show ?thesis using seq by simp
  qed
  moreover have "deltas ty y sent = deltas ty y (x @ es1)" for ty y
    using deltas_done[of ty y "x @ es1"] d(4) by simp
  moreover have "tc_arguments c = argument_deltas (tc_call_id c) (x @ es1)" if "(i, c) \<in> set (pj_tool_calls q)" for i c
    using settled_call[OF d(5) that] d(3) that by force
  moreover have "message_ok q (x @ es1)" using d(5) by (simp add: projected_def)
  ultimately show ?thesis
    using d(1,2,8) unfolding message_ok_def by (intro exI[of _ ?es] exI[of _ r] exI[of _ u]) auto
qed

text \<open>
  C31: Whatever the provider sends, and even if the stream is broken off, every tool call the client is shown
  is one of the tools allowed for the call, under its resolved name; and the text of a message and the
  arguments of a call stay within their limits.\<close>

theorem shown_calls_are_in_scope:
  assumes "fst (chat_stream loads canon t0 t1 lines p) = sent" "p = mk_projector m est al allowed u1 u2 u3"
  shows "(\<forall>e \<in> set sent. e = SseDone \<or> call_shown_ok p e)
     \<and> utf8_size (text_deltas (pj_message_id p) sent) \<le> text_limit
     \<and> (\<forall>x. utf8_size (argument_deltas x sent) \<le> call_limit)"
proof -
  obtain r where run: "chat_stream loads canon t0 t1 lines (mk_projector m est al allowed u1 u2 u3) = (sent, r)"
    using assms by (metis prod.collapse)
  obtain q es where q: "same_setup p q" "projected q es" and sent: "sent = es \<or> sent = es @ [SseDone]"
    using chat_stream_log(1)[OF run] assms(2) by blast
  have same: "deltas ty x sent = deltas ty x es" for ty x using sent deltas_done by auto
  have "utf8_size (argument_deltas x es) \<le> call_limit" for x
  proof (cases "argument_deltas x es = []")
    case False
    have core: "calls_core q es" using q(2) by (simp add: projected_def calls_ok_def)
    then obtain i c where c: "dict_get (pj_tool_calls q) i = Some c" "tc_call_id c = x"
      using False unfolding calls_core_def known_deltas_def by blast
    have "utf8_size (tc_arguments c) = utf8_size (argument_deltas x es) + utf8_size (tc_pending c)"
      "utf8_size (tc_arguments c) \<le> call_limit"
      using call_okD[OF core c(1)] c(2) unfolding call_ok_def by (metis utf8_size_append, blast)
    then show ?thesis using utf8_size_nonneg[of "tc_pending c"] by linarith
  qed (simp add: call_limit_def)
  moreover have "utf8_size (text_deltas (pj_message_id p) es) \<le> text_limit"
    using q by (auto simp: projected_def message_ok_def same_setup_def)
  moreover have "\<forall>e \<in> set es. call_shown_ok p e"
    using q(2) call_shown_same[OF q(1)] by (simp add: projected_def)
  ultimately show ?thesis using sent by (auto simp: same)
qed

section \<open>A sample stream\<close>

text \<open>Reasoning, text, late reasoning, one tool call and the usage, whose payloads the reader knows by name.\<close>

definition sample_delta :: "(string \<times> pyval) list \<Rightarrow> pyval" where
  "sample_delta d = PDict [(''choices'', PList [PDict [(''delta'', PDict d)]])]"

definition chat_loads :: "string \<Rightarrow> pyval option" where
  "chat_loads s = dict_get
     [(''1'', sample_delta [(''reasoning_content'', PStr ''a'')]),
      (''2'', sample_delta [(''content'', PStr ''Hi'')]),
      (''3'', sample_delta [(''reasoning_content'', PStr ''b'')]),
      (''4'', sample_delta [(''tool_calls'', PList [PDict [(''index'', PInt 0), (''id'', PStr ''c1''),
          (''function'', PDict [(''name'', PStr ''get''), (''arguments'', PStr ''{'')])]])]),
      (''5'', sample_delta [(''tool_calls'', PList [PDict [(''index'', PInt 0),
          (''function'', PDict [(''arguments'', PStr ''}'')])]])]),
      (''6'', PDict [(''usage'', PDict [(''prompt_tokens'', PInt 5), (''completion_tokens'', PInt 7)])])] s"

definition sample_projector :: projector where
  "sample_projector = mk_projector ''m'' 3 [(''get'', (''web'', ''fetch''))] (Some [''get'']) ''1'' ''2'' ''3''"

definition sample_sent :: sending where
  "sample_sent = chat_stream chat_loads (\<lambda>_. ''ab'') 10 20
     [''data: 1'', ''data: 2'', ''event: x'', ''data: 3'', ''data: 4'', ''data: 5'', ''data: 6'', ''data: [DONE]''] sample_projector"

text \<open>What the stream says about its items: the event, the type of the item and its place.\<close>

fun item_place :: "sse \<Rightarrow> (string \<times> pyval \<times> pyval) list" where
  "item_place (Sse t n fs) =
     (case get_val fs ''item'' of PDict d \<Rightarrow> [(t, get_val d ''type'', get_val fs ''output_index'')] | _ \<Rightarrow> [])"
| "item_place SseDone = []"

lemma sample_completes: "sample_sent = (fst sample_sent, Inr (projr (snd sample_sent)))"
proof -
  have "\<not> isl (snd sample_sent)" by code_simp
  then show ?thesis by (metis not_isl_Inr prod.collapse)
qed

text \<open>
  The message is announced at the place of the first tool call and finished one place later; the late
  reasoning is sent after its item was finished, and is missing in the output.\<close>

lemma items_share_a_place:
  "concat (map item_place (fst sample_sent)) =
     [(''response.output_item.added'', PStr ''reasoning'', PInt 0),
      (''response.output_item.done'', PStr ''reasoning'', PInt 0),
      (''response.output_item.added'', PStr ''message'', PInt 1),
      (''response.output_item.added'', PStr ''function_call'', PInt 1),
      (''response.output_item.done'', PStr ''function_call'', PInt 1),
      (''response.output_item.done'', PStr ''message'', PInt 2)]"
  by code_simp

lemma late_reasoning_is_lost:
  "reasoning_deltas ''rs_2'' (fst sample_sent) = ''ab''"
  "pj_output (projr (snd sample_sent)) = final_output (projr (snd sample_sent)) ''a''"
  by code_simp+

theorem projected_stream_rebuilds_items_witness:
  "\<exists>es u. fst sample_sent
      = es @ [Sse ''response.completed'' (length es) (snd (completed_event 20 u (projr (snd sample_sent)))), SseDone]
     \<and> text_deltas ''msg_3'' (fst sample_sent) = ''Hi'' \<and> argument_deltas ''c1'' (fst sample_sent) = ''{}''"
proof -
  have "\<exists>es u. fst sample_sent
      = es @ [Sse ''response.completed'' (length es) (snd (completed_event 20 u (projr (snd sample_sent)))), SseDone]"
    using projected_stream_rebuilds_items[OF sample_completes[unfolded sample_sent_def sample_projector_def]]
    unfolding sample_sent_def sample_projector_def by blast
  moreover have "text_deltas ''msg_3'' (fst sample_sent) = ''Hi''" "argument_deltas ''c1'' (fst sample_sent) = ''{}''"
    by code_simp+
  ultimately show ?thesis by blast
qed

theorem shown_calls_are_in_scope_witness:
  "list_all (\<lambda>e. e = SseDone \<or> call_shown_ok sample_projector e) (fst sample_sent)
     \<and> length (filter (\<lambda>x. fst (snd x) = PStr ''function_call'') (concat (map item_place (fst sample_sent)))) = 2"
proof
  show "list_all (\<lambda>e. e = SseDone \<or> call_shown_ok sample_projector e) (fst sample_sent)"
    using shown_calls_are_in_scope[OF refl sample_projector_def] by (auto simp: sample_sent_def list_all_iff)
  show "length (filter (\<lambda>x. fst (snd x) = PStr ''function_call'') (concat (map item_place (fst sample_sent)))) = 2"
    by (simp add: items_share_a_place)
qed

end
