(* ===== verification/Native_Stream.thy ===== *)
theory Native_Stream
  imports Model_Stream
begin

text \<open>
  Streams of a provider that speaks the Responses protocol itself: the lines of the transport
  (\<open>stream_limits.py\<close>), the validator of the events (\<open>_NativeResponsesStreamValidator\<close> in
  \<open>stream_projection.py\<close>) and the loop of \<open>native_responses.py\<close>, all under
  \<open>src/src/services/agent_runtime/model/\<close>. JSON text and the UTF-8 decoder are arguments.\<close>

section \<open>Lines of the transport\<close>

definition max_provider_line_bytes :: int where
  "max_provider_line_bytes = 2 * 1024 * 1024"

definition is_break :: "char \<Rightarrow> bool" where
  "is_break c \<longleftrightarrow> c = CHR 0x0D \<or> c = CHR 0x0A"

text \<open>\<open>splitlines(keepends=True)\<close> of bytes: a line ends with CR LF, CR or LF, or where the bytes end.\<close>

function split_keep :: "string \<Rightarrow> string list" where
  "split_keep s =
     (let u = takeWhile (\<lambda>c. \<not> is_break c) s in
      case dropWhile (\<lambda>c. \<not> is_break c) s of
        [] \<Rightarrow> if u = [] then [] else [u]
      | c # r \<Rightarrow>
          if c = CHR 0x0D \<and> r \<noteq> [] \<and> hd r = CHR 0x0A then (u @ [c, hd r]) # split_keep (tl r)
          else (u @ [c]) # split_keep r)"
  by auto

termination split_keep
proof (relation "measure length")
  fix s c r and u :: string
  assume "dropWhile (\<lambda>c. \<not> is_break c) s = c # r"
  then have "length (c # r) \<le> length s" by (metis length_dropWhile_le)
  then show "(r, s) \<in> measure length" "(tl r, s) \<in> measure length" by auto
qed simp

declare split_keep.simps [simp del]

text \<open>\<open>line.rstrip(b"\r\n")\<close>, and the lines of one piece; the rest waits for the next piece.\<close>

definition rstrip_breaks :: "string \<Rightarrow> string" where
  "rstrip_breaks s = rev (dropWhile is_break (rev s))"

definition ends_line :: "string \<Rightarrow> bool" where
  "ends_line l \<longleftrightarrow> l \<noteq> [] \<and> is_break (last l)"

definition frame_limit :: stream_exn where
  "frame_limit = PlaneError ''RUNTIME_PROVIDER_FRAME_LIMIT'' 502"

definition stream_incomplete :: stream_exn where
  "stream_incomplete = PlaneError ''RUNTIME_PROVIDER_STREAM_INCOMPLETE'' 502"

fun take_lines :: "(string \<Rightarrow> string option) \<Rightarrow> string \<Rightarrow> string list \<Rightarrow> string list \<times> (stream_exn + string)" where
  "take_lines decode pending [] = ([], Inr pending)"
| "take_lines decode pending (l # ls) =
     (if int (length l) > max_provider_line_bytes then ([], Inl frame_limit)
      else if ends_line l then
        (case decode (rstrip_breaks l) of
           None \<Rightarrow> ([], Inl stream_invalid)
         | Some t \<Rightarrow> (case take_lines decode pending ls of (ys, r) \<Rightarrow> (t # ys, r)))
      else take_lines decode (pending @ l) ls)"

function pieces :: "string \<Rightarrow> string list" where
  "pieces s = (if s = [] then [] else take 65536 s # pieces (drop 65536 s))"
  by auto

termination pieces by (relation "measure length") auto

declare pieces.simps [simp del]

fun read_pieces :: "(string \<Rightarrow> string option) \<Rightarrow> string \<Rightarrow> string list \<Rightarrow> string list \<times> (stream_exn + string)" where
  "read_pieces decode pending [] = ([], Inr pending)"
| "read_pieces decode pending (p # ps) =
     (case take_lines decode [] (split_keep (pending @ p)) of
        (ys, Inl e) \<Rightarrow> (ys, Inl e)
      | (ys, Inr pending') \<Rightarrow> (case read_pieces decode pending' ps of (zs, r) \<Rightarrow> (ys @ zs, r)))"

text \<open>\<open>provider_lines\<close>: what was yielded, and how the iteration ended.\<close>

definition provider_lines :: "(string \<Rightarrow> string option) \<Rightarrow> string list \<Rightarrow> string list \<times> stream_exn option" where
  "provider_lines decode chunks =
     (case read_pieces decode [] (concat (map pieces chunks)) of
        (ys, Inl e) \<Rightarrow> (ys, Some e)
      | (ys, Inr pending) \<Rightarrow> (ys, if pending = [] then None else Some stream_incomplete))"

section \<open>The validator\<close>

type_synonym identity = "string option \<times> string"

record native_config =
  nc_aliases :: "(string, string \<times> string) py_dict"
  nc_visibility :: string
  nc_allow_tools :: bool
  nc_identities :: "identity list option"
  nc_native_search :: bool

datatype native_frame = NFrame string "(string, pyval) py_dict" | NDone

record native_terminal =
  nt_event :: native_frame
  nt_input_tokens :: int
  nt_output_tokens :: int
  nt_request_id :: "string option"

record validator =
  va_last_sequence :: int
  va_seen_created :: bool
  va_terminal :: "native_terminal option"
  va_argument_bytes :: "(string, int) py_dict"
  va_total_bytes :: int

definition new_validator :: validator where
  "new_validator = \<lparr>va_last_sequence = - 1, va_seen_created = False, va_terminal = None,
     va_argument_bytes = [], va_total_bytes = 0\<rparr>"

definition encoded :: "(pyval \<Rightarrow> string) \<Rightarrow> native_frame \<Rightarrow> string" where
  "encoded dumps f =
     (case f of
        NDone \<Rightarrow> ''data: [DONE]\<newline>\<newline>''
      | NFrame t d \<Rightarrow> ''event: '' @ t @ ''\<newline>data: '' @ dumps (PDict d) @ ''\<newline>\<newline>'')"

text \<open>Membership in a set of strings: a list or a dictionary is not hashable.\<close>

definition in_value_set :: "pyval \<Rightarrow> pyval list \<Rightarrow> stream_exn + bool" where
  "in_value_set v vs =
     (case v of
        PList _ \<Rightarrow> Inl (PyExn (TypeError ''unhashable type''))
      | PDict _ \<Rightarrow> Inl (PyExn (TypeError ''unhashable type''))
      | _ \<Rightarrow> Inr (v \<in> set vs))"

definition normalize_reasoning_event ::
  "native_config \<Rightarrow> (string, pyval) py_dict \<Rightarrow> stream_exn + (string, pyval) py_dict" where
  "normalize_reasoning_event cfg d =
     (if nc_visibility cfg \<noteq> ''stream'' then Inr d
      else result_bind (in_value_set (get_val d ''type'')
          [PStr ''response.reasoning_text.delta'', PStr ''response.reasoning_text.done'']) (\<lambda>b.
        if \<not> b then Inr d
        else let t = ''response.reasoning_summary_text'' @ drop (length ''response.reasoning_text'') (the_str (get_val d ''type''));
                 d = dict_set ''type'' (PStr t) d
             in Inr (if dict_get d ''summary_index'' = None then dict_set ''summary_index'' (PInt 0) d else d)))"

definition restore_tool_namespace :: "native_config \<Rightarrow> pyval \<Rightarrow> stream_exn + pyval" where
  "restore_tool_namespace cfg item =
     (case item of
        PDict d \<Rightarrow>
          if get_val d ''type'' \<noteq> PStr ''function_call'' then Inr item
          else (case get_val d ''name'' of
            PStr alias \<Rightarrow>
              (case dict_get (nc_aliases cfg) alias of
                 None \<Rightarrow> Inr item
               | Some (ns, name) \<Rightarrow>
                   if get_val d ''namespace'' \<notin> {PNone, PStr [], PStr ns} then Inl scope_mismatch
                   else Inr (PDict (dict_set ''namespace'' (PStr ns) (dict_set ''name'' (PStr name) d))))
          | _ \<Rightarrow> Inr item)
      | _ \<Rightarrow> Inr item)"

text \<open>\<open>item.get("namespace") or None\<close> as a part of an identity; a value of another type is none of those allowed.\<close>

definition namespace_of :: "pyval \<Rightarrow> string option option" where
  "namespace_of v = (if \<not> truthy v then Some None else case v of PStr s \<Rightarrow> Some (Some s) | _ \<Rightarrow> None)"

definition validate_tool_identity :: "native_config \<Rightarrow> pyval \<Rightarrow> stream_exn + unit" where
  "validate_tool_identity cfg item =
     (case (item, nc_identities cfg) of
        (PDict d, Some ids) \<Rightarrow>
          if get_val d ''type'' = PStr ''function_call'' then
            (if is_str (get_val d ''arguments'') \<and> utf8_size (the_str (get_val d ''arguments'')) > call_limit
             then Inl (PlaneError ''RUNTIME_PROVIDER_TOOL_ARGUMENTS_LIMIT'' 502)
             else (case (get_val d ''name'', namespace_of (get_val d ''namespace'')) of
                     (PStr name, Some ns) \<Rightarrow> if (ns, name) \<in> set ids then Inr () else Inl scope_mismatch
                   | _ \<Rightarrow> Inl scope_mismatch))
          else if get_val d ''type'' = PStr ''web_search_call'' \<and> \<not> nc_native_search cfg then Inl scope_mismatch
          else Inr ()
      | _ \<Rightarrow> Inr ())"

definition tools_not_enabled :: stream_exn where
  "tools_not_enabled = PlaneError ''RUNTIME_TOOLS_NOT_ENABLED_FOR_PHASE'' 502"

definition allowed_types :: "native_config \<Rightarrow> pyval list \<Rightarrow> pyval list" where
  "allowed_types cfg extra =
     extra @ [PStr ''message'', PStr ''reasoning'']
     @ (if nc_allow_tools cfg then [PStr ''function_call'', PStr ''web_search_call''] else [])"

definition reject_tool_item :: "native_config \<Rightarrow> pyval list \<Rightarrow> pyval \<Rightarrow> stream_exn + unit" where
  "reject_tool_item cfg extra item =
     result_bind (validate_tool_identity cfg item) (\<lambda>_.
       case item of
         PDict d \<Rightarrow> result_bind (in_value_set (get_val d ''type'') (allowed_types cfg extra)) (\<lambda>b.
                      if b then Inr () else Inl tools_not_enabled)
       | _ \<Rightarrow> Inr ())"

definition admit_item :: "native_config \<Rightarrow> pyval list \<Rightarrow> pyval \<Rightarrow> stream_exn + pyval" where
  "admit_item cfg extra item =
     result_bind (restore_tool_namespace cfg item) (\<lambda>item.
     result_bind (reject_tool_item cfg extra item) (\<lambda>_. Inr item))"

definition native_usage :: "(string, pyval) py_dict \<Rightarrow> stream_exn + int \<times> int" where
  "native_usage response =
     (case get_val response ''usage'' of
        PDict u \<Rightarrow>
          (case (token_count (get_val u ''input_tokens''), token_count (get_val u ''output_tokens'')) of
             (Some i, Some n) \<Rightarrow> Inr (i, n)
           | _ \<Rightarrow> Inl (PlaneError ''RUNTIME_PROVIDER_USAGE_INVALID'' 502))
      | _ \<Rightarrow> Inl (PlaneError ''RUNTIME_PROVIDER_USAGE_INVALID'' 502))"

text \<open>The parts of \<open>consume\<close> in their order: the sequence, the errors, the tools, the bytes of arguments.\<close>

definition check_sequence :: "validator \<Rightarrow> (string, pyval) py_dict \<Rightarrow> stream_exn + validator \<times> string" where
  "check_sequence v d =
     (case (get_val d ''type'', get_val d ''sequence_number'') of
        (PStr t, PInt n) \<Rightarrow>
          if n \<noteq> va_last_sequence v + 1 \<or> va_terminal v \<noteq> None then Inl stream_invalid
          else if \<not> va_seen_created v \<and> t \<noteq> ''response.created'' then Inl stream_invalid
          else Inr (v\<lparr>va_last_sequence := n, va_seen_created := True\<rparr>, t)
      | _ \<Rightarrow> Inl stream_invalid)"

definition failure_types :: "string list" where
  "failure_types = [''error'', ''response.failed'', ''response.incomplete'', ''response.cancelled'']"

definition check_type :: "native_config \<Rightarrow> string \<Rightarrow> stream_exn + unit" where
  "check_type cfg t =
     (if t \<in> set failure_types then Inl (PlaneError ''RUNTIME_PROVIDER_REJECTED'' 502)
      else if list_ex (contains_sub t) [''function_call'', ''_search_call'', ''mcp_call''] \<and> \<not> nc_allow_tools cfg
      then Inl tools_not_enabled else Inr ())"

definition count_arguments :: "string \<Rightarrow> (string, pyval) py_dict \<Rightarrow> validator \<Rightarrow> stream_exn + validator" where
  "count_arguments t d v =
     (if t \<noteq> ''response.function_call_arguments.delta'' then Inr v
      else (case (get_val d ''item_id'', get_val d ''delta'') of
        (PStr item, PStr delta) \<Rightarrow>
          if item = [] \<or> length item > 255 then Inl stream_invalid
          else let size = utf8_size delta; known = dict_get (va_argument_bytes v) item;
                   count = (case known of None \<Rightarrow> 0 | Some n \<Rightarrow> n) + size in
            if count > call_limit \<or> va_total_bytes v + size > tool_limit
            then Inl (PlaneError ''RUNTIME_PROVIDER_TOOL_ARGUMENTS_LIMIT'' 502)
            else if known = None \<and> length (va_argument_bytes v) \<ge> 256
            then Inl (PlaneError ''RUNTIME_PROVIDER_TOOL_LIMIT'' 502)
            else Inr (v\<lparr>va_argument_bytes := dict_set item count (va_argument_bytes v),
                        va_total_bytes := va_total_bytes v + size\<rparr>)
      | _ \<Rightarrow> Inl stream_invalid))"

text \<open>The item of an event is replaced in place where it is a dictionary.\<close>

definition admit_event_item :: "native_config \<Rightarrow> (string, pyval) py_dict \<Rightarrow> stream_exn + (string, pyval) py_dict" where
  "admit_event_item cfg d =
     result_bind (admit_item cfg [PNone] (get_val d ''item'')) (\<lambda>item.
       Inr (if is_dict (get_val d ''item'') then dict_set ''item'' item d else d))"

definition take_terminal ::
  "native_config \<Rightarrow> string \<Rightarrow> (string, pyval) py_dict \<Rightarrow> validator \<Rightarrow> stream_exn + validator" where
  "take_terminal cfg t d v =
     (case get_val d ''response'' of
        PDict r \<Rightarrow>
          if get_val r ''status'' \<noteq> PStr ''completed'' then Inl stream_invalid
          else result_bind (case get_val r ''output'' of
                 PList items \<Rightarrow> result_bind (map_results (admit_item cfg []) items) (\<lambda>items.
                    Inr (dict_set ''output'' (PList items) r))
               | _ \<Rightarrow> Inr r) (\<lambda>r.
            result_bind (native_usage r) (\<lambda>(i, n).
              Inr (v\<lparr>va_terminal := Some \<lparr>nt_event = NFrame t (dict_set ''response'' (PDict r) d),
                 nt_input_tokens = i, nt_output_tokens = n,
                 nt_request_id = (case get_val r ''id'' of PStr s \<Rightarrow> Some s | _ \<Rightarrow> None)\<rparr>\<rparr>)))
      | _ \<Rightarrow> Inl stream_invalid)"

definition consume ::
  "native_config \<Rightarrow> (string \<Rightarrow> pyval option) \<Rightarrow> string \<Rightarrow> validator \<Rightarrow> stream_exn + validator \<times> native_frame option" where
  "consume cfg loads payload v =
     (if payload = ''[DONE]'' then Inr (v, None)
      else (case loads payload of
        Some (PDict d) \<Rightarrow>
          result_bind (normalize_reasoning_event cfg d) (\<lambda>d.
          result_bind (check_sequence v d) (\<lambda>(v, t).
          result_bind (check_type cfg t) (\<lambda>_.
          result_bind (count_arguments t d v) (\<lambda>v.
          result_bind (admit_event_item cfg d) (\<lambda>d.
            if t \<noteq> ''response.completed'' then Inr (v, Some (NFrame t d))
            else result_bind (take_terminal cfg t d v) (\<lambda>v. Inr (v, None)))))))
      | _ \<Rightarrow> Inl stream_invalid))"

definition finish :: "validator \<Rightarrow> stream_exn + native_terminal" where
  "finish v =
     (case va_terminal v of
        Some t \<Rightarrow> if va_seen_created v then Inr t else Inl stream_incomplete
      | None \<Rightarrow> Inl stream_incomplete)"

section \<open>The loop\<close>

fun native_lines ::
  "native_config \<Rightarrow> (string \<Rightarrow> pyval option) \<Rightarrow> string list \<Rightarrow> validator \<Rightarrow> native_frame list \<times> (stream_exn + validator)" where
  "native_lines cfg loads [] v = ([], Inr v)"
| "native_lines cfg loads (line # lines) v =
     (let payload = py_strip (drop 5 line) in
      if \<not> starts_with line ''data:'' \<or> payload = [] then native_lines cfg loads lines v
      else (case consume cfg loads payload v of
              Inl e \<Rightarrow> ([], Inl e)
            | Inr (v, f) \<Rightarrow> (case native_lines cfg loads lines v of
                (fs, r) \<Rightarrow> (case f of None \<Rightarrow> fs | Some x \<Rightarrow> x # fs, r))))"

text \<open>A line is handled when it is yielded, so that an error of the transport comes after the lines before it.\<close>

definition native_stream ::
  "native_config \<Rightarrow> (string \<Rightarrow> pyval option) \<Rightarrow> (string \<Rightarrow> string option) \<Rightarrow> string list
     \<Rightarrow> native_frame list \<times> (stream_exn + native_terminal)" where
  "native_stream cfg loads decode chunks =
     (case provider_lines decode chunks of (lines, broken) \<Rightarrow>
        (case native_lines cfg loads lines new_validator of
           (fs, Inl e) \<Rightarrow> (fs, Inl e)
         | (fs, Inr v) \<Rightarrow>
             (case broken of
                Some e \<Rightarrow> (fs, Inl e)
              | None \<Rightarrow> (case finish v of
                  Inl e \<Rightarrow> (fs, Inl e)
                | Inr t \<Rightarrow> (fs @ [nt_event t, NDone], Inr t)))))"

section \<open>Lines do not depend on the cuts\<close>

text \<open>
  The reference: the bytes are read one by one, a break ends a line, empty lines are dropped. \<open>w\<close> is the
  line read so far.\<close>

fun scan_lines :: "string \<Rightarrow> string \<Rightarrow> string list \<times> string" where
  "scan_lines w [] = ([], w)"
| "scan_lines w (c # s) =
     (if is_break c
      then (case scan_lines [] s of (ls, w') \<Rightarrow> ((if w = [] then ls else w # ls), w'))
      else scan_lines (w @ [c]) s)"

fun decode_lines :: "(string \<Rightarrow> string option) \<Rightarrow> string list \<Rightarrow> string list \<times> bool" where
  "decode_lines decode [] = ([], True)"
| "decode_lines decode (b # bs) =
     (case decode b of
        None \<Rightarrow> ([], False)
      | Some t \<Rightarrow> (case decode_lines decode bs of (ts, ok) \<Rightarrow> (t # ts, ok)))"

abbreviation nonempty :: "string list \<Rightarrow> string list" where
  "nonempty \<equiv> filter (\<lambda>l. l \<noteq> [])"

text \<open>What is used of the decoder, and the lines that stay within the limit.\<close>

definition decode_law :: "(string \<Rightarrow> string option) \<Rightarrow> bool" where
  "decode_law decode \<longleftrightarrow> (\<forall>b. decode b = Some [] \<longleftrightarrow> b = [])"

definition short_line :: "string \<Rightarrow> bool" where
  "short_line l \<longleftrightarrow> int (length l) + 2 \<le> max_provider_line_bytes"

definition short_lines :: "string list \<times> string \<Rightarrow> bool" where
  "short_lines r \<longleftrightarrow> list_all short_line (fst r) \<and> short_line (snd r)"

lemma scan_append:
  "scan_lines w (s @ t) =
     (case scan_lines w s of (ls, w') \<Rightarrow> case scan_lines w' t of (ls', w'') \<Rightarrow> (ls @ ls', w''))"
  by (induction w s rule: scan_lines.induct) (auto split: prod.splits)

lemma scan_no_break: "list_all (\<lambda>c. \<not> is_break c) u \<Longrightarrow> scan_lines w (u @ t) = scan_lines (w @ u) t"
  by (induction u arbitrary: w) auto

lemma scan_rest: "list_all (\<lambda>c. \<not> is_break c) w \<Longrightarrow> list_all (\<lambda>c. \<not> is_break c) (snd (scan_lines w s))"
  by (induction w s rule: scan_lines.induct) (auto split: prod.splits)

lemma short_Nil: "short_line []"
  by (simp add: short_line_def max_provider_line_bytes_def)

lemma short_prefix: "short_line (a @ b) \<Longrightarrow> short_line a"
  by (simp add: short_line_def)

lemma short_lines_start: "short_lines (scan_lines w s) \<Longrightarrow> short_line w"
proof (induction w s rule: scan_lines.induct)
  case (2 w c s)
  show ?case
  proof (cases "is_break c")
    case True
    then show ?thesis
      using 2(3) short_Nil by (cases "scan_lines [] s") (auto simp: short_lines_def split: if_splits)
  next
    case False
    then show ?thesis using 2 short_prefix by simp
  qed
qed (simp add: short_lines_def)

lemma decode_lines_append:
  "decode_lines decode (as @ bs) =
     (case decode_lines decode as of
        (ts, False) \<Rightarrow> (ts, False)
      | (ts, True) \<Rightarrow> (case decode_lines decode bs of (ts', ok) \<Rightarrow> (ts @ ts', ok)))"
  by (induction as) (auto split: option.splits prod.splits bool.splits)

text \<open>The first line of some bytes, and what \<open>split_keep\<close> makes of them.\<close>

lemma split_keep_cases:
  obtains u where "s = u" "list_all (\<lambda>c. \<not> is_break c) u" "split_keep s = (if u = [] then [] else [u])"
  | u b r where "s = u @ b @ r" "list_all (\<lambda>c. \<not> is_break c) u" "split_keep s = (u @ b) # split_keep r"
      "b \<noteq> []" "length b \<le> 2" "list_all is_break b"
proof -
  let ?u = "takeWhile (\<lambda>c. \<not> is_break c) s"
  have u: "list_all (\<lambda>c. \<not> is_break c) ?u" by (metis list.pred_set set_takeWhileD)
  show ?thesis
  proof (cases "dropWhile (\<lambda>c. \<not> is_break c) s")
    case Nil
    then have "s = ?u" by (metis append_Nil2 takeWhile_dropWhile_id)
    moreover have "split_keep s = (if ?u = [] then [] else [?u])"
      by (subst split_keep.simps) (simp add: Nil Let_def)
    ultimately show ?thesis using that(1)[of ?u] u by simp
  next
    case (Cons c r)
    then have s: "s = ?u @ c # r" by (metis takeWhile_dropWhile_id)
    have c: "is_break c" using Cons by (metis dropWhile_eq_Cons_conv)
    show ?thesis
    proof (cases "c = CHR 0x0D \<and> r \<noteq> [] \<and> hd r = CHR 0x0A")
      case True
      then have "split_keep s = (?u @ [c, hd r]) # split_keep (tl r)"
        by (subst split_keep.simps) (simp add: Cons Let_def)
      then show ?thesis
        using that(2)[of ?u "[c, hd r]" "tl r"] s u c True by (cases r) (simp_all add: is_break_def)
    next
      case False
      then have "split_keep s = (?u @ [c]) # split_keep r"
        by (subst split_keep.simps) (simp add: Cons Let_def)
      then show ?thesis using that(2)[of ?u "[c]" r] s u c by simp
    qed
  qed
qed

lemma scan_breaks:
  "list_all is_break b \<Longrightarrow> b \<noteq> [] \<Longrightarrow>
     scan_lines w (b @ r) = (case scan_lines [] r of (ls, w') \<Rightarrow> ((if w = [] then ls else w # ls), w'))"
proof (induction b arbitrary: w)
  case (Cons c b)
  then show ?case by (cases "b = []") (auto split: prod.splits)
qed simp

lemma rstrip_line:
  assumes "list_all (\<lambda>c. \<not> is_break c) u" "list_all is_break b" "b \<noteq> []"
  shows "rstrip_breaks (u @ b) = u" "ends_line (u @ b)" "ends_line u \<longleftrightarrow> False"
proof -
  have "dropWhile is_break (rev b @ rev u) = rev u"
  proof -
    have "dropWhile is_break (rev b @ rev u) = dropWhile is_break (rev u)"
      using assms(2) dropWhile_append2[of "rev b" is_break "rev u"] by (simp add: list_all_iff)
    also have "\<dots> = rev u"
      using assms(1) by (cases "rev u") (auto simp: list_all_iff dest: arg_cong[of _ _ rev] split: if_splits)
    finally show ?thesis .
  qed
  then show "rstrip_breaks (u @ b) = u" by (simp add: rstrip_breaks_def)
  show "ends_line (u @ b)" using assms(2,3) by (simp add: ends_line_def list_all_iff)
  show "ends_line u \<longleftrightarrow> False" using assms(1) by (cases u rule: rev_cases) (auto simp: ends_line_def)
qed

text \<open>One piece, whose lines are short: the lines that are not empty are those of the reference.\<close>

lemma take_lines_scan:
  assumes "decode_law decode"
  shows "short_lines (scan_lines [] s) \<Longrightarrow> take_lines decode [] (split_keep s) = (ys, r) \<Longrightarrow>
    nonempty ys = fst (decode_lines decode (fst (scan_lines [] s))) \<and>
    r = (if snd (decode_lines decode (fst (scan_lines [] s))) then Inr (snd (scan_lines [] s)) else Inl stream_invalid)"
proof (induction "length s" arbitrary: s ys r rule: less_induct)
  case less
  show ?case
  proof (cases s rule: split_keep_cases)
    case (1 u)
    have scan: "scan_lines [] s = ([], u)" using 1(1,2) scan_no_break[of u "[]" "[]"] by simp
    then have "short_line u" using less.prems(1) by (simp add: short_lines_def)
    then have "\<not> int (length u) > max_provider_line_bytes" by (simp add: short_line_def)
    moreover have "\<not> ends_line u" using rstrip_line(3)[OF 1(2), of "[CHR 0x0A]"] by (simp add: is_break_def)
    ultimately show ?thesis using less.prems(2) 1(3) scan by (auto split: if_splits)
  next
    case (2 u b r')
    obtain ls w where rest: "scan_lines [] r' = (ls, w)" by force
    have scan: "scan_lines [] s = (if u = [] then ls else u # ls, w)"
      using scan_no_break[OF 2(2), of "[]" "b @ r'"] scan_breaks[OF 2(6,4), of u r'] rest by (simp add: 2(1))
    have "short_line u" "short_lines (ls, w)"
      using less.prems(1) short_Nil by (auto simp: scan short_lines_def split: if_splits)
    then have len: "\<not> int (length (u @ b)) > max_provider_line_bytes" using 2(5) by (simp add: short_line_def)
    note line = rstrip_line[OF 2(2,6,4)]
    show ?thesis
    proof (cases "decode u")
      case None
      then have "u \<noteq> []" using assms unfolding decode_law_def by (metis option.distinct(1))
      then show ?thesis using less.prems(2) None len line(1,2) by (simp add: 2(3) scan)
    next
      case (Some t)
      obtain zs q where z: "take_lines decode [] (split_keep r') = (zs, q)" by force
      have "length r' < length s" using 2(4) by (simp add: 2(1))
      note IH = less.hyps[OF this _ z]
      have t: "t = [] \<longleftrightarrow> u = []" using assms Some unfolding decode_law_def by (metis option.inject)
      have "ys = t # zs" "r = q" using less.prems(2) Some len line(1,2) z by (simp_all add: 2(3))
      then show ?thesis
        using IH \<open>short_lines (ls, w)\<close> Some t by (auto simp: rest scan split: prod.splits)
    qed
  qed
qed

lemma read_pieces_scan:
  assumes law: "decode_law decode"
  shows "list_all (\<lambda>c. \<not> is_break c) w \<Longrightarrow> short_lines (scan_lines w (concat ps)) \<Longrightarrow>
    read_pieces decode w ps = (ys, r) \<Longrightarrow>
    nonempty ys = fst (decode_lines decode (fst (scan_lines w (concat ps)))) \<and>
    r = (if snd (decode_lines decode (fst (scan_lines w (concat ps))))
         then Inr (snd (scan_lines w (concat ps))) else Inl stream_invalid)"
proof (induction ps arbitrary: w ys r)
  case (Cons p ps)
  obtain ls1 w1 where one: "scan_lines w p = (ls1, w1)" by force
  obtain ls2 w2 where two: "scan_lines w1 (concat ps) = (ls2, w2)" by force
  have all: "scan_lines w (concat (p # ps)) = (ls1 @ ls2, w2)" by (simp add: scan_append one two)
  have "scan_lines [] (w @ p) = (ls1, w1)" using scan_no_break[OF Cons.prems(1), of "[]" p] one by simp
  moreover have "short_line w1" using short_lines_start[of w1 "concat ps"] Cons.prems(2) all two
    by (simp add: short_lines_def)
  moreover have "list_all short_line ls1" "short_lines (ls2, w2)" using Cons.prems(2) all by (simp_all add: short_lines_def)
  moreover obtain zs q where z: "take_lines decode [] (split_keep (w @ p)) = (zs, q)" by force
  ultimately have first: "nonempty zs = fst (decode_lines decode ls1)"
    "q = (if snd (decode_lines decode ls1) then Inr w1 else Inl stream_invalid)"
    using take_lines_scan[OF law _ z] by (simp_all add: short_lines_def)
  have w1: "list_all (\<lambda>c. \<not> is_break c) w1" using scan_rest[OF Cons.prems(1), of p] one by simp
  show ?case
  proof (cases "snd (decode_lines decode ls1)")
    case False
    then have "ys = zs" "r = Inl stream_invalid" using Cons.prems(3) z first(2) by simp_all
    then show ?thesis
      using first(1) False unfolding all fst_conv snd_conv
      by (auto simp: decode_lines_append split: prod.splits bool.splits)
  next
    case True
    obtain zs' q' where rest: "read_pieces decode w1 ps = (zs', q')" by force
    have "ys = zs @ zs'" "r = q'" using Cons.prems(3) z first(2) True rest by simp_all
    moreover note Cons.IH[OF w1 _ rest]
    ultimately show ?thesis
      using first(1) True \<open>short_lines (ls2, w2)\<close>
      unfolding all two fst_conv snd_conv
      by (auto simp: decode_lines_append split: prod.splits bool.splits)
  qed
qed simp

lemma concat_pieces: "concat (pieces s) = s"
proof (induction s rule: pieces.induct)
  case (1 s)
  show ?case by (subst pieces.simps) (simp add: 1)
qed

lemma concat_all_pieces: "concat (concat (map pieces chunks)) = concat chunks"
  by (induction chunks) (simp_all add: concat_pieces)

lemma provider_lines_scan:
  assumes "decode_law decode" "short_lines (scan_lines [] (concat chunks))"
  shows "nonempty (fst (provider_lines decode chunks)) = fst (decode_lines decode (fst (scan_lines [] (concat chunks))))"
    and "snd (provider_lines decode chunks) =
      (if \<not> snd (decode_lines decode (fst (scan_lines [] (concat chunks)))) then Some stream_invalid
       else if snd (scan_lines [] (concat chunks)) \<noteq> [] then Some stream_incomplete else None)"
proof -
  let ?ps = "concat (map pieces chunks)"
  obtain ys r where r: "read_pieces decode [] ?ps = (ys, r)" by force
  have short_line: "short_lines (scan_lines [] (concat ?ps))" by (simp only: concat_all_pieces assms(2))
  note read = read_pieces_scan[OF assms(1) list.pred_inject(1) short_line r, unfolded concat_all_pieces]
  show "nonempty (fst (provider_lines decode chunks)) = fst (decode_lines decode (fst (scan_lines [] (concat chunks))))"
    using read r by (auto simp: provider_lines_def split: sum.splits)
  show "snd (provider_lines decode chunks) =
      (if \<not> snd (decode_lines decode (fst (scan_lines [] (concat chunks)))) then Some stream_invalid
       else if snd (scan_lines [] (concat chunks)) \<noteq> [] then Some stream_incomplete else None)"
    using read r by (auto simp: provider_lines_def split: sum.splits if_splits)
qed

lemma native_lines_nonempty: "native_lines cfg loads lines v = native_lines cfg loads (nonempty lines) v"
proof (induction lines arbitrary: v)
  case (Cons line lines)
  show ?case
  proof (cases "line = []")
    case True
    then have "\<not> starts_with line ''data:''" by (simp add: starts_with_def)
    then show ?thesis using Cons True by (simp add: Let_def)
  next
    case False
    then show ?thesis using Cons by (auto simp: Let_def split: sum.splits prod.splits)
  qed
qed simp

section \<open>What the validator lets through\<close>

definition item_ok :: "native_config \<Rightarrow> pyval list \<Rightarrow> pyval \<Rightarrow> bool" where
  "item_ok cfg extra item =
     (case item of
        PDict d \<Rightarrow>
          get_val d ''type'' \<in> set (allowed_types cfg extra) \<and>
          (case nc_identities cfg of
             None \<Rightarrow> True
           | Some ids \<Rightarrow>
               (if get_val d ''type'' = PStr ''function_call''
                then (case (get_val d ''name'', namespace_of (get_val d ''namespace'')) of
                        (PStr name, Some ns) \<Rightarrow> (ns, name) \<in> set ids | _ \<Rightarrow> False)
                else get_val d ''type'' = PStr ''web_search_call'' \<longrightarrow> nc_native_search cfg))
      | _ \<Rightarrow> True)"

definition completed_ok :: "native_config \<Rightarrow> (string, pyval) py_dict \<Rightarrow> bool" where
  "completed_ok cfg d \<longleftrightarrow> (\<exists>r. get_val d ''response'' = PDict r \<and> get_val r ''status'' = PStr ''completed'' \<and>
     list_all (item_ok cfg []) (list_of (get_val r ''output'')))"

fun shown_ok :: "native_config \<Rightarrow> native_frame \<Rightarrow> bool" where
  "shown_ok cfg (NFrame t d) \<longleftrightarrow>
     get_val d ''type'' = PStr t \<and> t \<notin> set failure_types \<and> item_ok cfg [PNone] (get_val d ''item'') \<and>
     (t = ''response.completed'' \<longrightarrow> completed_ok cfg d)"
| "shown_ok cfg NDone = False"

fun frame_number :: "native_frame \<Rightarrow> int" where
  "frame_number (NFrame t d) = the_int (get_val d ''sequence_number'')"
| "frame_number NDone = - 1"

fun frame_type :: "native_frame \<Rightarrow> string" where
  "frame_type (NFrame t d) = t"
| "frame_type NDone = []"

text \<open>The bytes of the arguments an event carries.\<close>

fun argument_bytes :: "native_frame \<Rightarrow> int" where
  "argument_bytes (NFrame t d) =
     (if t = ''response.function_call_arguments.delta'' then utf8_size (the_str (get_val d ''delta'')) else 0)"
| "argument_bytes NDone = 0"

lemma get_val_set: "get_val (dict_set k v d) k' = (if k' = k then v else get_val d k')"
  by (simp add: get_val_def dict_get_set)

lemma in_value_set_Inr: "in_value_set v vs = Inr b \<Longrightarrow> b \<longleftrightarrow> v \<in> set vs"
  by (auto simp: in_value_set_def split: pyval.splits)

lemma reject_tool_item_ok: "reject_tool_item cfg extra item = Inr () \<Longrightarrow> item_ok cfg extra item"
proof (cases item)
  case (PDict d)
  assume "reject_tool_item cfg extra item = Inr ()"
  then have v: "validate_tool_identity cfg item = Inr ()"
    and m: "in_value_set (get_val d ''type'') (allowed_types cfg extra) = Inr True"
    by (auto simp: reject_tool_item_def result_bind_Inr PDict split: if_splits)
  from v have "case nc_identities cfg of
             None \<Rightarrow> True
           | Some ids \<Rightarrow>
               (if get_val d ''type'' = PStr ''function_call''
                then (case (get_val d ''name'', namespace_of (get_val d ''namespace'')) of
                        (PStr name, Some ns) \<Rightarrow> (ns, name) \<in> set ids | _ \<Rightarrow> False)
                else get_val d ''type'' = PStr ''web_search_call'' \<longrightarrow> nc_native_search cfg)"
    by (auto simp: validate_tool_identity_def PDict split: option.splits if_splits pyval.splits)
  then show ?thesis using in_value_set_Inr[OF m] by (simp add: item_ok_def PDict)
qed (simp_all add: item_ok_def)

lemma admit_item_ok: "admit_item cfg extra item = Inr item' \<Longrightarrow> item_ok cfg extra item'"
  using reject_tool_item_ok by (auto simp: admit_item_def result_bind_Inr)

lemma admit_item_plain: "admit_item cfg extra item = Inr item' \<Longrightarrow> \<not> is_dict item \<Longrightarrow> item' = item"
  by (cases item) (auto simp: admit_item_def restore_tool_namespace_def is_dict_def result_bind_Inr)

lemma admit_event_item_ok:
  assumes "admit_event_item cfg d = Inr d'"
  shows "item_ok cfg [PNone] (get_val d' ''item'')" "k \<noteq> ''item'' \<Longrightarrow> get_val d' k = get_val d k"
proof -
  obtain item' where i: "admit_item cfg [PNone] (get_val d ''item'') = Inr item'"
    and d': "d' = (if is_dict (get_val d ''item'') then dict_set ''item'' item' d else d)"
    using assms by (auto simp: admit_event_item_def result_bind_Inr)
  show "item_ok cfg [PNone] (get_val d' ''item'')"
  proof (cases "is_dict (get_val d ''item'')")
    case True
    then show ?thesis using admit_item_ok[OF i] by (simp add: d' get_val_set)
  next
    case False
    then show ?thesis by (cases "get_val d ''item''") (simp_all add: d' item_ok_def is_dict_def)
  qed
  show "k \<noteq> ''item'' \<Longrightarrow> get_val d' k = get_val d k" by (simp add: d' get_val_set)
qed

lemma take_terminal_ok:
  assumes "take_terminal cfg t d v = Inr v'"
  obtains d' tm where "v' = v\<lparr>va_terminal := Some tm\<rparr>" "nt_event tm = NFrame t d'" "completed_ok cfg d'"
    "\<And>k. k \<noteq> ''response'' \<Longrightarrow> get_val d' k = get_val d k"
proof -
  obtain r where r: "get_val d ''response'' = PDict r" and st: "get_val r ''status'' = PStr ''completed''"
    using assms by (auto simp: take_terminal_def split: pyval.splits if_splits)
  let ?out = "case get_val r ''output'' of
                 PList items \<Rightarrow> result_bind (map_results (admit_item cfg []) items) (\<lambda>items.
                    Inr (dict_set ''output'' (PList items) r))
               | _ \<Rightarrow> Inr r"
  obtain r' i n where out: "?out = Inr r'" and v': "v' = v\<lparr>va_terminal := Some \<lparr>nt_event = NFrame t (dict_set ''response'' (PDict r') d),
       nt_input_tokens = i, nt_output_tokens = n,
       nt_request_id = (case get_val r' ''id'' of PStr s \<Rightarrow> Some s | _ \<Rightarrow> None)\<rparr>\<rparr>"
    using assms r st by (auto simp: take_terminal_def result_bind_Inr)
  have "get_val r' ''status'' = PStr ''completed'' \<and> list_all (item_ok cfg []) (list_of (get_val r' ''output''))"
  proof (cases "get_val r ''output''")
    case (PList items)
    then obtain items' where items': "map_results (admit_item cfg []) items = Inr items'"
      and r': "r' = dict_set ''output'' (PList items') r"
      using out by (auto simp: result_bind_Inr)
    have "list_all (item_ok cfg []) items'"
      using items' admit_item_ok by (fastforce simp: map_results_Inr list_all2_conv_all_nth list_all_length)
    then show ?thesis using st by (simp add: r' get_val_set list_of_def)
  qed (use out st in \<open>simp_all add: list_of_def\<close>)
  then show ?thesis using that[OF v'] by (simp add: completed_ok_def get_val_set)
qed

text \<open>One event: what it changes, and what it lets through.\<close>

lemma consume_cases:
  assumes ret: "consume cfg loads payload v = Inr (v', f)" and total: "va_total_bytes v \<le> tool_limit"
  obtains "v' = v" "f = None"
  | x where "va_terminal v = None" "va_last_sequence v' = va_last_sequence v + 1" "va_seen_created v'"
      "\<not> va_seen_created v \<longrightarrow> frame_type x = ''response.created''"
      "shown_ok cfg x" "frame_number x = va_last_sequence v'"
      "va_total_bytes v' = va_total_bytes v + argument_bytes x" "va_total_bytes v' \<le> tool_limit"
      "if frame_type x = ''response.completed''
       then f = None \<and> (\<exists>tm. va_terminal v' = Some tm \<and> nt_event tm = x) else f = Some x \<and> va_terminal v' = None"
proof (cases "payload = ''[DONE]''")
  case True
  then show ?thesis using ret that(1) by (simp add: consume_def)
next
  case False
  obtain d0 where "loads payload = Some (PDict d0)"
    using ret False by (auto simp: consume_def split: option.splits pyval.splits)
  with ret False obtain d v1 t v2 d2 where
    s: "check_sequence v d = Inr (v1, t)" and ty: "check_type cfg t = Inr ()" and a: "count_arguments t d v1 = Inr v2"
    and i: "admit_event_item cfg d = Inr d2"
    and fin: "(if t \<noteq> ''response.completed'' then Inr (v2, Some (NFrame t d2))
       else result_bind (take_terminal cfg t d2 v2) (\<lambda>v. Inr (v, None))) = (Inr (v', f) :: stream_exn + _)"
    by (auto simp: consume_def result_bind_Inr)
  have v1: "get_val d ''type'' = PStr t" "get_val d ''sequence_number'' = PInt (va_last_sequence v + 1)"
    "va_terminal v = None" "v1 = v\<lparr>va_last_sequence := va_last_sequence v + 1, va_seen_created := True\<rparr>"
    "\<not> va_seen_created v \<longrightarrow> t = ''response.created''"
    using s by (auto simp: check_sequence_def split: pyval.splits if_splits)
  have v2: "va_terminal v2 = None" "va_last_sequence v2 = va_last_sequence v + 1" "va_seen_created v2"
    "va_total_bytes v2 = va_total_bytes v + argument_bytes (NFrame t d)" "va_total_bytes v2 \<le> tool_limit"
    using a total v1(3) unfolding v1(4)
    by (auto simp: count_arguments_def Let_def the_str_def split: pyval.splits if_splits)
  note item = admit_event_item_ok[OF i]
  have same: "get_val d2 ''type'' = PStr t" "get_val d2 ''sequence_number'' = PInt (va_last_sequence v + 1)"
    "get_val d2 ''delta'' = get_val d ''delta''"
    using item(2) v1(1,2) by simp_all
  have fail: "t \<notin> set failure_types" using ty by (auto simp: check_type_def split: if_splits)
  show ?thesis
  proof (cases "t = ''response.completed''")
    case False
    then have "v' = v2" "f = Some (NFrame t d2)" using fin by simp_all
    then show ?thesis
      using that(2)[of "NFrame t d2"] False v1(3,5) v2 item(1) same fail by (simp add: the_int_def)
  next
    case True
    then have "take_terminal cfg t d2 v2 = Inr v'" "f = None" using fin by (auto simp: result_bind_Inr)
    then obtain d3 tm where v': "v' = v2\<lparr>va_terminal := Some tm\<rparr>" and tm: "nt_event tm = NFrame t d3" "completed_ok cfg d3"
      and keep: "\<And>k. k \<noteq> ''response'' \<Longrightarrow> get_val d3 k = get_val d2 k"
      using take_terminal_ok by metis
    show ?thesis
      using that(2)[of "NFrame t d3"] True v1(3,5) v2 item(1) same fail tm keep \<open>f = None\<close>
      by (simp add: v' the_int_def)
  qed
qed

definition numbers_from :: "int \<Rightarrow> native_frame list \<Rightarrow> bool" where
  "numbers_from n fs \<longleftrightarrow> map frame_number fs = map (\<lambda>i. n + int i) [0..<length fs]"

lemma numbers_from_Nil [simp]: "numbers_from n []"
  by (simp add: numbers_from_def)

lemma numbers_from_Cons: "numbers_from n (f # fs) \<longleftrightarrow> frame_number f = n \<and> numbers_from (n + 1) fs"
  by (auto simp: numbers_from_def map_upt_Suc algebra_simps simp del: upt_Suc)

lemma numbers_from_snoc: "numbers_from n (fs @ [f]) \<longleftrightarrow> numbers_from n fs \<and> frame_number f = n + int (length fs)"
  by (auto simp: numbers_from_def)

text \<open>A line either changes nothing, or is an event that is refused or consumed.\<close>

lemma native_lines_Cons_cases:
  assumes "native_lines cfg loads (line # lines) v = (fs, r)"
  obtains "native_lines cfg loads lines v = (fs, r)"
  | e where "fs = []" "r = Inl e"
  | payload v' f fs' where "consume cfg loads payload v = Inr (v', f)" "native_lines cfg loads lines v' = (fs', r)"
      "fs = (case f of None \<Rightarrow> fs' | Some x \<Rightarrow> x # fs')"
  using assms by (auto simp: Let_def split: if_splits sum.splits prod.splits)

text \<open>After the terminal event nothing is let through any more.\<close>

lemma native_lines_closed:
  "va_terminal v \<noteq> None \<Longrightarrow> va_total_bytes v \<le> tool_limit \<Longrightarrow> native_lines cfg loads lines v = (fs, r) \<Longrightarrow>
     fs = [] \<and> (\<forall>v'. r = Inr v' \<longrightarrow> v' = v)"
proof (induction lines arbitrary: fs r)
  case (Cons line lines)
  from Cons.prems(3) show ?case
  proof (cases rule: native_lines_Cons_cases)
    case (3 payload v' f fs')
    have "v' = v \<and> f = None"
      by (rule consume_cases[OF 3(1) Cons.prems(2)]) (use Cons.prems(1) in auto)
    then show ?thesis using 3 Cons.IH[OF Cons.prems(1,2)] by simp
  qed (use Cons in auto)
qed simp

definition passed :: "native_config \<Rightarrow> validator \<Rightarrow> native_frame list \<Rightarrow> bool" where
  "passed cfg v fs \<longleftrightarrow>
     numbers_from (va_last_sequence v + 1) fs \<and>
     (\<forall>f \<in> set fs. shown_ok cfg f) \<and>
     (\<not> va_seen_created v \<longrightarrow> fs \<noteq> [] \<longrightarrow> frame_type (hd fs) = ''response.created'') \<and>
     va_total_bytes v + sum_list (map argument_bytes fs) \<le> tool_limit"

lemma passed_Cons:
  assumes "passed cfg v' fs" "va_last_sequence v' = va_last_sequence v + 1" "shown_ok cfg x"
    "frame_number x = va_last_sequence v'" "\<not> va_seen_created v \<longrightarrow> frame_type x = ''response.created''"
    "va_total_bytes v' = va_total_bytes v + argument_bytes x"
  shows "passed cfg v (x # fs)"
  using assms by (auto simp: passed_def numbers_from_Cons algebra_simps)

lemma native_lines_passed:
  "va_terminal v = None \<Longrightarrow> va_total_bytes v \<le> tool_limit \<Longrightarrow> native_lines cfg loads lines v = (fs, r) \<Longrightarrow>
     passed cfg v fs \<and> (\<forall>f \<in> set fs. frame_type f \<noteq> ''response.completed'') \<and>
     (\<forall>v' tm. r = Inr v' \<longrightarrow> va_terminal v' = Some tm \<longrightarrow>
        passed cfg v (fs @ [nt_event tm]) \<and> frame_type (nt_event tm) = ''response.completed'' \<and> va_seen_created v')"
proof (induction lines arbitrary: v fs r)
  case Nil
  then show ?case by (auto simp: passed_def)
next
  case (Cons line lines)
  have empty: "passed cfg v []" using Cons.prems(2) by (simp add: passed_def)
  from Cons.prems(3) show ?case
  proof (cases rule: native_lines_Cons_cases)
    case (3 payload v1 f fs1)
    show ?thesis
    proof (cases rule: consume_cases[OF 3(1) Cons.prems(2)])
      case 1
      then show ?thesis using Cons.IH[OF Cons.prems(1,2)] 3 by simp
    next
      case (2 x)
      note grow = passed_Cons[OF _ 2(2,5,6,4,7)]
      show ?thesis
      proof (cases "frame_type x = ''response.completed''")
        case False
        then have f: "f = Some x" "va_terminal v1 = None" using 2(9) by simp_all
        note IH = Cons.IH[OF f(2) 2(8) 3(2)]
        then show ?thesis using grow[of fs1] grow f 3(3) False by auto
      next
        case True
        then obtain tm where tm: "f = None" "va_terminal v1 = Some tm" "nt_event tm = x" using 2(9) by auto
        have "fs1 = []" "\<And>v'. r = Inr v' \<Longrightarrow> v' = v1"
          using native_lines_closed[OF _ 2(8) 3(2)] tm(2) by simp_all
        moreover have "passed cfg v1 []" using 2(8) by (simp add: passed_def)
        ultimately show ?thesis
          using grow[of "[]"] empty tm True 2(3) 3(3) by auto
      qed
    qed
  qed (use Cons empty in auto)
qed

text \<open>
  C32: What the provider's own events must satisfy before the client sees them. However the stream goes, the
  frames passed on are numbered from zero without gaps, the first one created the response, none reports a
  failure, every tool item is of a kind and an identity that was allowed, and the argument bytes stay within
  the limit; a stream that is accepted ends with its one completed event and the end mark, and one that is not
  has neither.\<close>

theorem native_frames_are_validated:
  assumes "native_stream cfg loads decode chunks = (sent, r)"
  shows "\<exists>fs. passed cfg new_validator fs \<and>
    (case r of
       Inl e \<Rightarrow> sent = fs \<and> (\<forall>f \<in> set fs. frame_type f \<noteq> ''response.completed'')
     | Inr tm \<Rightarrow> sent = fs @ [NDone] \<and> fs \<noteq> [] \<and> last fs = nt_event tm
         \<and> (\<forall>f \<in> set fs. frame_type f = ''response.completed'' \<longleftrightarrow> f = nt_event tm)
         \<and> (\<forall>f \<in> set (butlast fs). frame_type f \<noteq> ''response.completed''))"
proof -
  obtain lines broken where l: "provider_lines decode chunks = (lines, broken)" by force
  obtain fs q where n: "native_lines cfg loads lines new_validator = (fs, q)" by force
  have start: "va_terminal new_validator = None" "va_total_bytes new_validator \<le> tool_limit"
    by (simp_all add: new_validator_def tool_limit_def)
  note run = native_lines_passed[OF start n]
  show ?thesis
  proof (cases "\<exists>v tm. q = Inr v \<and> broken = None \<and> va_terminal v = Some tm \<and> va_seen_created v")
    case True
    then obtain v tm where v: "q = Inr v" "broken = None" "va_terminal v = Some tm" "va_seen_created v" by blast
    then have "sent = (fs @ [nt_event tm]) @ [NDone]" "r = Inr tm"
      using assms by (simp_all add: native_stream_def l n finish_def)
    moreover have "passed cfg new_validator (fs @ [nt_event tm])" "frame_type (nt_event tm) = ''response.completed''"
      using run v by blast+
    ultimately show ?thesis
      using run by (intro exI[of _ "fs @ [nt_event tm]"]) auto
  next
    case False
    then have "sent = fs \<and> (\<exists>e. r = Inl e)"
      using assms run by (auto simp: native_stream_def l n finish_def split: sum.splits option.splits if_splits)
    then show ?thesis using run by (intro exI[of _ fs]) auto
  qed
qed

text \<open>
  C33: The cuts of the transport do not matter. Two ways to cut the same bytes give the client the same frames
  and the same outcome, for lines within the limit: a break that is cut in two only adds an empty line, which
  the loop passes over.\<close>

theorem cuts_do_not_matter:
  assumes "decode_law decode" "concat chunks = concat chunks'" "short_lines (scan_lines [] (concat chunks))"
  shows "native_stream cfg loads decode chunks = native_stream cfg loads decode chunks'"
proof -
  have short_line': "short_lines (scan_lines [] (concat chunks'))" using assms(2,3) by simp
  obtain ls b ls' b' where l: "provider_lines decode chunks = (ls, b)" "provider_lines decode chunks' = (ls', b')"
    by (metis prod.exhaust)
  have "nonempty ls = nonempty ls'" "b = b'"
    using provider_lines_scan[OF assms(1,3)] provider_lines_scan[OF assms(1) short_line'] l assms(2) by simp_all
  then have "native_lines cfg loads ls new_validator = native_lines cfg loads ls' new_validator"
    by (metis native_lines_nonempty)
  then show ?thesis using l \<open>b = b'\<close> by (simp add: native_stream_def)
qed

section \<open>A sample\<close>

definition native_sample_config :: native_config where
  "native_sample_config = \<lparr>nc_aliases = [(''get'', (''web'', ''fetch''))], nc_visibility = ''stream'', nc_allow_tools = True,
     nc_identities = Some [(Some ''web'', ''fetch'')], nc_native_search = False\<rparr>"

definition sample_event :: "string \<Rightarrow> int \<Rightarrow> (string \<times> pyval) list \<Rightarrow> pyval" where
  "sample_event t n fs = PDict ((''type'', PStr t) # (''sequence_number'', PInt n) # fs)"

definition sample_call :: pyval where
  "sample_call = PDict [(''type'', PStr ''function_call''), (''name'', PStr ''get''), (''arguments'', PStr ''{}'')]"

definition native_loads :: "string \<Rightarrow> pyval option" where
  "native_loads s = dict_get
     [(''1'', sample_event ''response.created'' 0 []),
      (''2'', sample_event ''response.reasoning_text.delta'' 1 [(''delta'', PStr ''a'')]),
      (''3'', sample_event ''response.output_item.done'' 2 [(''item'', sample_call)]),
      (''4'', sample_event ''response.completed'' 3
         [(''response'', PDict [(''status'', PStr ''completed''), (''output'', PList [sample_call]),
            (''usage'', PDict [(''input_tokens'', PInt 5), (''output_tokens'', PInt 7)])])]),
      (''5'', sample_event ''response.created'' 0 [(''item'', PDict [(''type'', PList [])])])] s"

definition sample_chunks :: "string list" where
  "sample_chunks = [''data: 1'' @ [CHR 0x0D], [CHR 0x0A] @ ''da'', ''ta: 2'' @ [CHR 0x0A], ''data: 3'' @ [CHR 0x0A],
     ''data: 4'' @ [CHR 0x0D, CHR 0x0A]]"

definition native_sent :: "native_frame list \<times> (stream_exn + native_terminal)" where
  "native_sent = native_stream native_sample_config native_loads Some sample_chunks"

lemma sample_lines: "provider_lines Some sample_chunks = ([''data: 1'', [], ''data: 2'', ''data: 3'', ''data: 4''], None)"
  by (simp add: provider_lines_def sample_chunks_def pieces.simps split_keep.simps is_break_def
      max_provider_line_bytes_def ends_line_def rstrip_breaks_def)

lemma sample_types:
  "(map frame_type (fst native_sent), isl (snd native_sent)) =
     ([''response.created'', ''response.reasoning_summary_text.delta'', ''response.output_item.done'',
       ''response.completed'', []], False)"
  unfolding native_sent_def native_stream_def sample_lines prod.case by code_simp

theorem native_frames_are_validated_witness:
  "map frame_type (fst native_sent) = [''response.created'', ''response.reasoning_summary_text.delta'',
     ''response.output_item.done'', ''response.completed'', []]
   \<and> (\<exists>fs. passed native_sample_config new_validator fs \<and> fst native_sent = fs @ [NDone])"
proof -
  obtain tm where tm: "native_sent = (fst native_sent, Inr tm)"
    using sample_types by (metis Pair_inject not_isl_Inr prod.collapse)
  then have "\<exists>fs. passed native_sample_config new_validator fs \<and> fst native_sent = fs @ [NDone]"
    using native_frames_are_validated[of native_sample_config native_loads Some sample_chunks "fst native_sent" "Inr tm"]
    unfolding native_sent_def by auto
  then show ?thesis using sample_types by simp
qed

theorem cuts_do_not_matter_witness:
  "native_stream native_sample_config native_loads Some [concat sample_chunks] = native_sent"
  unfolding native_sent_def
proof (rule cuts_do_not_matter)
  show "decode_law Some" by (simp add: decode_law_def)
  show "short_lines (scan_lines [] (concat [concat sample_chunks]))"
    by (simp add: sample_chunks_def is_break_def short_lines_def short_line_def max_provider_line_bytes_def)
qed simp

text \<open>An item whose type is a list is not refused with the stable error but raises \<open>TypeError\<close>.\<close>

lemma unhashable_type_escapes:
  "consume native_sample_config native_loads ''5'' new_validator = Inl (PyExn (TypeError ''unhashable type''))"
  by code_simp

end
