(* ===== verification/Spec2Isabelle.thy ===== *)
theory Spec2Isabelle
  imports Admission Mcp_Resilience Rate_Limiter Multi_Rate_Limiter Idempotency Comm_Retry
    Service_Breakers Event_Consumer Local_Ledger Outbox Drain Access_Control Service_Access Rate_Policy
    Gateway_Secret Runtime_Envelope Leases Working_Memory Task_Manager Billing_Flush Pricing
    Native_Stream
begin

text \<open>
  A model of the core of AI Gateway, the application platform of this repository: a gateway in front
  of an assistant, a knowledge service and their providers, with the shared libraries under
  \<open>src/packages/\<close> and the companion under \<open>src/apps/local-node/\<close>. What the gateway adds to the services
  behind it is control: it bounds how many requests run and how often they come, executes a keyed
  request once, decides what may be retried, isolates failing upstreams, consumes events without losing
  them, and lets an agent act on a user's machine only with the authority it was given. That logic is
  modelled here; the services themselves, the HTTP routes, the SQL and the network clients are not.

  \<^bold>\<open>Conventions\<close> (\<open>Gw_Prelude\<close>, \<open>Py_Value\<close>). Definitions keep the names of the code. A class is a record,
  an enumeration a datatype, a method a function on the record; a method that raises returns a sum with
  the exception on the left. A dictionary is an association list in insertion order. A float is a
  rational (rounding is idealised away), a \<open>str\<close> a list of characters compared as ASCII. A value of type
  \<open>Any\<close> is a \<open>pyval\<close>, with the conversions \<open>bool\<close>, \<open>int\<close> and \<open>float\<close> and the exceptions they raise.
  The clock, random tokens, digests, signature checks, JSON text and Redis are arguments; what is relied
  on of them is a named hypothesis (\<open>zset_laws\<close>, \<open>json_laws\<close>, \<open>digest_law\<close>), each instantiated by a
  concrete function in a witness. An asyncio program is a list of processes with one step for each section
  between two awaits, so that a list of events is an interleaving.

  \<^bold>\<open>Admission\<close> (\<open>src/src/core/gateway/\<close>). \<open>Capacity\<close> models \<open>capacity.py\<close>: the budget tables and the
  resolver from a service, a request class, an upstream and a provider to an ordered list of budgets.
  \<open>Redis_Scripts\<close> models the Lua scripts of \<open>lua_scripts.py\<close> over the commands they call, specified on a
  view of the sorted sets and implemented by an association list. \<open>Admission\<close> models \<open>admission.py\<close>: a
  request takes for every budget a local slot (waiting in a bounded queue), then the shared slot and the
  tenant share in one script, or a local tenant slot; what it holds is returned in reverse whenever
  anything fails. Its invariant accounts for every slot; the load shedder is modelled beside it.

  \<^bold>\<open>Rate limits\<close>. \<open>Rate_Window\<close> is the interface of a sliding window and the bound every implementation
  inherits. \<open>Rate_Limiter\<close> (\<open>rate_limiter.py\<close>) and \<open>Multi_Rate_Limiter\<close>
  (\<open>multi_dimension_rate_limiter.py\<close>) implement it with deques, with a cleanup, with Redis and its
  fallback; both are interpretations of the interface. \<open>Rate_Policy\<close> (\<open>rate_policy.py\<close>) decides which limits a
  request is under: the rules of the database, compiled and cached with an epoch per invalidation, the
  policies they give and the keys of their buckets.

  \<^bold>\<open>Who may do what\<close>. \<open>Access_Control\<close> models \<open>src/src/core/auth/rbac.py\<close> and \<open>permissions.py\<close>: roles,
  permissions with wildcards, capabilities and their older names. \<open>Service_Access\<close> models
  \<open>service_access.py\<close>, \<open>service_access_resolver.py\<close> and the authorization in \<open>src/src/api/v1/proxy.py\<close>: the
  scopes of a key, a tenant and a user, the cache they are read through and the decision. \<open>Gateway_Secret\<close>
  models the signed header of internal calls (\<open>auth/gateway_secret.py\<close> of the core package) over the store
  of \<open>Replay\<close>. \<open>Runtime_Envelope\<close> and \<open>Leases\<close> model what the gateway hands to the agent runtime
  (\<open>agent_runtime.py\<close>, \<open>agent_runtime_lease.py\<close>, \<open>capability_proof.py\<close> of the contracts package and
  \<open>src/src/services/agent_runtime/capability_leases.py\<close>): validated snapshots in signed envelopes, leases
  and proofs bound to one call. What is relied on of HMAC and SHA-256 is only that they are functions; a
  theorem about a signature says that a difference would be a collision.

  \<^bold>\<open>Calls between services\<close> (\<open>src/packages/ai-gateway-core/src/ai_gateway_core/\<close>). \<open>Idempotency\<close> models
  \<open>comm/idempotency.py\<close>: two stores behind one interface and the middleware over it; the in-memory store
  satisfies the interface, the Redis store does not, and the theorem about it says when a key is executed again.
  \<open>Comm_Retry\<close> models \<open>comm/retry.py\<close>. \<open>Service_Breakers\<close> models \<open>core/gateway/circuit_breaker.py\<close> and
  the probing breaker of \<open>proxy/base.py\<close>. \<open>Mcp_Resilience\<close> models \<open>mcp/resilience.py\<close>: the decision what to
  do after a failed tool call and the breaker whose probe belongs to one lease. \<open>Event_Consumer\<close> models
  \<open>events/consumer.py\<close> as the commands one delivery issues. \<open>Drain\<close> models \<open>proxy/drain.py\<close>, \<open>Replay\<close> the
  store of \<open>src/packages/ai-gateway-contracts/src/ai_gateway_contracts/replay.py\<close>.

  \<^bold>\<open>Authority on the local node\<close> (\<open>src/apps/local-node/src/local_node/\<close>). \<open>Local_Actions\<close> models the
  envelope of an action, the check of the platform's signature, the approval gate with its one-use
  verifier (\<open>models.py\<close>, \<open>approvals.py\<close>) and the directory grants (\<open>grants.py\<close>). \<open>Local_Ledger\<close> models
  \<open>ledger.py\<close>: the index of claimed actions, the redaction of what is stored, the hash chain of events and
  its verification; claiming an idempotency key is an instance of the same one-use interface as spending
  an approval. \<open>Outbox\<close> models \<open>outbox.py\<close> and the exchange of receipts in \<open>transport.py\<close>, and relates
  them to a queue whose front is acknowledged.

  \<^bold>\<open>What an assistant remembers\<close> (the core package). \<open>Working_Memory\<close> models \<open>working_memory.py\<close>: goal, tasks,
  notes, their archive, their stored form and its validation. \<open>Task_Manager\<close> models \<open>tasks/task_manager.py\<close>,
  which owns one memory per session: sessions are objects on a heap, so that a caller can hold one that is no
  longer the live one, and every section between two awaits is a step of some caller.

  \<^bold>\<open>What a request costs\<close>. \<open>Usage_Parser\<close> (\<open>src/src/services/metrics/usage_parser.py\<close>) walks a payload for
  token counts and names, by a walk over objects with identities that is used on JSON trees and analysed on
  object graphs, \<open>Observability\<close> (\<open>metrics/observability.py\<close> of the core package) for durations.
  \<open>Billing_Stream\<close> (\<open>src/src/proxy/billing_stream.py\<close>) cuts a streamed response into events and keeps the
  largest counts; its reference is the list of events of the whole text, whatever the chunks.
  \<open>Billing_Flush\<close> (\<open>billing_interceptor.py\<close>) takes the records to the database; what became of each is
  told from the outcomes of the attempts of its stages. \<open>Pricing\<close> (\<open>billing/pricing_catalog.py\<close>, \<open>src/src/services/billing/model_pricing.py\<close>)
  holds the list prices and the three ways the code looks them up.

  \<^bold>\<open>What a model sends\<close> (\<open>src/src/services/agent_runtime/model/\<close>). \<open>Model_Stream\<close> models the projector of
  \<open>stream_projection.py\<close>, which turns a provider's chat stream into response events, and the loop of
  \<open>chat_completions.py\<close> around it: its invariant relates the state to the events sent so far, so that what a
  client assembles from the deltas is what the completed response says. \<open>Native_Stream\<close> models the lines of
  the transport (\<open>stream_limits.py\<close>), whose reference reads the bytes one by one, and the validator of a
  stream that is in the protocol already, with the loop of \<open>native_responses.py\<close>.

  \<^bold>\<open>What the lemmas show\<close>. Each theory proves the invariant of its state and that every operation keeps
  it, then the properties, each introduced by a text that states it. Some properties record what the code
  does where that is not what it means to do: a lost reply that keeps a shared slot, the cleanup that
  forgets long windows, a \<open>Retry-After\<close> that is too short, the race of the Redis idempotency store, the
  claim key of the event consumer, the repeated finish of the ledger, the retry of an acknowledged append,
  constraints that fail open, a replay window that is one instant too short, line breaks in a signed text,
  usage lost to a cut line end, to a shutdown or to events that raise, a doubled dead letter, a variant quoted
  at another model's price, items of a model stream that share a place, reasoning that comes too late, a
  type that is not hashable.

  \<^bold>\<open>Bounds\<close>. No execution needs fuel: every recursion is over a list or a value or has a measure, the walk
  of a payload is a while loop proved to end, and the reclaim walk of the event consumer is bounded by
  \<open>_RECLAIM_MAX_PASSES\<close> in the code itself.

  \<^bold>\<open>Not modelled\<close>. The renewal loop of a lease and the cancellation of its owner, or of a request while it gives
  its shared slots back; metrics and logging; the
  Redis store of the proxy breaker; parsing of envelopes of the local node; the dispatcher, tokens and
  passwords, the workspace of the local node and the keys of the response cache, whose results are those of
  third-party code; and everything that is mostly network, SQL or file input and output.
\<close>

end
